(* ===== verification/Prelude.thy ===== *)
theory Prelude
  imports Complex_Main "HOL-Library.Code_Target_Numeral"
begin

text \<open>
  Shared vocabulary of the development: Python exceptions as values and the plumbing of
  fallible code, the string operations of Python's standard library that the modelled
  code calls (on ASCII strings, as HOL's \<open>string\<close> is a list of 8-bit characters),
  insertion-ordered dictionaries, \<open>groupby\<close>, and the generic lemmas on them that the
  components share.
\<close>

named_theorems res_simps \<open>unfolding rules for the plumbing of fallible code\<close>
named_theorems dict_simps \<open>lookup laws of insertion-ordered dictionaries\<close>

section \<open>Exceptions\<close>

text \<open>
  The Python exceptions that the modelled code raises, catches or lets escape. Those of the Git providers
  (shared/torngit/exceptions.py) are a hierarchy of their own: client errors carry a code, server failures
  do not. \<open>NotModelled\<close> is no
  exception: it marks the few inputs outside the model (such as a float where a hit count is
  expected), on which nothing is claimed.
\<close>

datatype torngit_error =
    TorngitMisconfiguredCredentials
  | TorngitClientGeneralError int
  | TorngitRepoNotFoundError
  | TorngitObjectNotFoundError
  | TorngitRateLimitError
  | TorngitUnauthorizedError
  | TorngitServerUnreachableError
  | TorngitServer5xxCodeError
  | TorngitRefreshTokenFailedError
  | TorngitCantRefreshTokenError

datatype py_error =
    AttributeError
  | ValueError
  | TypeError
  | IndexError
  | KeyError
  | OverflowError
  | AssertionError
  | ZeroDivisionError
  | InvalidOperation
  | CorruptRawReportError
  | StopIteration
  | ReportExpiredException
  | TimestringInvalid
  | ReportEmptyError
  | TorngitError torngit_error
  | RepositoryWithoutValidBotError
  | NoConfiguredAppsAvailable int
  | ValidationError
  | UnboundLocalError
  | CeleryError
  | SoftTimeLimitExceeded
  | NoResultFound
  | MultipleResultsFound
  | IntegrityError
  | InvalidYamlException
  | SchemaInvalid
  | NotModelled

type_synonym 'a res = "py_error + 'a"

text \<open>The code of a \<open>TorngitClientError\<close>; \<open>None\<close> for every other exception.\<close>

fun client_error_code :: "py_error \<Rightarrow> int option" where
  "client_error_code (TorngitError (TorngitClientGeneralError c)) = Some c"
| "client_error_code (TorngitError TorngitRepoNotFoundError) = Some 404"
| "client_error_code (TorngitError TorngitObjectNotFoundError) = Some 404"
| "client_error_code (TorngitError TorngitRateLimitError) = Some 403"
| "client_error_code (TorngitError TorngitUnauthorizedError) = Some 401"
| "client_error_code (TorngitError TorngitCantRefreshTokenError) = Some 555"
| "client_error_code e = None"

definition is_client_error :: "py_error \<Rightarrow> bool" where
  "is_client_error e = (client_error_code e \<noteq> None)"

definition is_server_failure :: "py_error \<Rightarrow> bool" where
  "is_server_failure e = (e \<in> {TorngitError TorngitServerUnreachableError, TorngitError TorngitServer5xxCodeError})"

definition is_torngit_error :: "py_error \<Rightarrow> bool" where
  "is_torngit_error e = (case e of TorngitError t \<Rightarrow> True | _ \<Rightarrow> False)"

definition is_client_general_error :: "py_error \<Rightarrow> bool" where
  "is_client_general_error e = (case e of TorngitError (TorngitClientGeneralError c) \<Rightarrow> True | _ \<Rightarrow> False)"

lemma client_error_is_torngit: "is_client_error e \<Longrightarrow> is_torngit_error e"
  by (cases e rule: client_error_code.cases) (simp_all add: is_client_error_def is_torngit_error_def)

text \<open>Sequencing: the first exception is the result of the whole computation.\<close>

definition bind_res :: "'a res \<Rightarrow> ('a \<Rightarrow> 'b res) \<Rightarrow> 'b res" where
  "bind_res m f = (case m of Inl e \<Rightarrow> Inl e | Inr a \<Rightarrow> f a)"

lemma bind_res_simps [simp, res_simps]:
  "bind_res (Inl e) f = Inl e"
  "bind_res (Inr a) f = f a"
  by (simp_all add: bind_res_def)

lemma bind_res_eq_Inr [simp]:
  "bind_res m f = Inr b \<longleftrightarrow> (\<exists>a. m = Inr a \<and> f a = Inr b)"
  by (cases m) simp_all

lemma bind_res_eq_Inl:
  "bind_res m f = Inl e \<longleftrightarrow> m = Inl e \<or> (\<exists>a. m = Inr a \<and> f a = Inl e)"
  by (cases m) simp_all

lemma bind_res_assoc: "bind_res (bind_res m f) g = bind_res m (\<lambda>a. bind_res (f a) g)"
  by (cases m) simp_all

lemma bind_res_Inr_right [simp]: "bind_res m Inr = m"
  by (cases m) simp_all

lemma bind_res_cong [fundef_cong]:
  "m = m' \<Longrightarrow> (\<And>a. m' = Inr a \<Longrightarrow> f a = g a) \<Longrightarrow> bind_res m f = bind_res m' g"
  by (cases m') simp_all

definition map_res :: "('a \<Rightarrow> 'b) \<Rightarrow> 'a res \<Rightarrow> 'b res" where
  "map_res f m = bind_res m (\<lambda>a. Inr (f a))"

lemma map_res_simps [simp, res_simps]:
  "map_res f (Inl e) = Inl e"
  "map_res f (Inr a) = Inr (f a)"
  by (simp_all add: map_res_def)

lemma map_res_eq_Inr [simp]: "map_res f m = Inr b \<longleftrightarrow> (\<exists>a. m = Inr a \<and> b = f a)"
  by (cases m) auto

definition is_ok :: "'a res \<Rightarrow> bool" where
  "is_ok m = (case m of Inl _ \<Rightarrow> False | Inr _ \<Rightarrow> True)"

lemma is_ok_simps [simp]: "\<not> is_ok (Inl e)" "is_ok (Inr a)"
  by (simp_all add: is_ok_def)

lemma is_ok_iff: "is_ok m \<longleftrightarrow> (\<exists>a. m = Inr a)"
  by (cases m) simp_all

text \<open>A comprehension or a loop whose body may raise, from left to right.\<close>

fun traverse :: "('a \<Rightarrow> 'b res) \<Rightarrow> 'a list \<Rightarrow> 'b list res" where
  "traverse f [] = Inr []"
| "traverse f (x # xs) = bind_res (f x) (\<lambda>y. bind_res (traverse f xs) (\<lambda>ys. Inr (y # ys)))"

fun foldl_res :: "('s \<Rightarrow> 'a \<Rightarrow> 's res) \<Rightarrow> 's \<Rightarrow> 'a list \<Rightarrow> 's res" where
  "foldl_res f s [] = Inr s"
| "foldl_res f s (x # xs) = bind_res (f s x) (\<lambda>s'. foldl_res f s' xs)"

lemma traverse_cong [fundef_cong]:
  "xs = ys \<Longrightarrow> (\<And>x. x \<in> set ys \<Longrightarrow> f x = g x) \<Longrightarrow> traverse f xs = traverse g ys"
  by (induction xs arbitrary: ys) (auto cong: bind_res_cong)

lemma traverse_all_ok:
  "(\<And>x. x \<in> set xs \<Longrightarrow> f x = Inr (g x)) \<Longrightarrow> traverse f xs = Inr (map g xs)"
  by (induction xs) simp_all

lemma traverse_ok: "(\<And>x. x \<in> set xs \<Longrightarrow> \<exists>y. f x = Inr y) \<Longrightarrow> \<exists>ys. traverse f xs = Inr ys"
  by (induction xs) fastforce+

lemma traverse_map: "traverse f (map g xs) = traverse (\<lambda>x. f (g x)) xs"
  by (induction xs) simp_all

lemma traverse_Inr_iff: "traverse f xs = Inr ys \<longleftrightarrow> list_all2 (\<lambda>x y. f x = Inr y) xs ys"
  by (induction xs arbitrary: ys) (auto simp: list_all2_Cons1)

lemma traverse_append:
  "traverse f (xs @ ys) = bind_res (traverse f xs) (\<lambda>us. bind_res (traverse f ys) (\<lambda>vs. Inr (us @ vs)))"
  by (induction xs) (simp_all add: bind_res_assoc)

lemma foldl_res_append: "foldl_res f s (xs @ ys) = bind_res (foldl_res f s xs) (\<lambda>t. foldl_res f t ys)"
  by (induction xs arbitrary: s) (simp_all add: bind_res_assoc)

lemma foldl_res_pure: "foldl_res (\<lambda>s x. Inr (f s x)) s xs = Inr (foldl f s xs)"
  by (induction xs arbitrary: s) simp_all

text \<open>An invariant of the accumulator, kept by every step that does not raise.\<close>

lemma foldl_res_invariant:
  assumes "foldl_res f s xs = Inr t" "P s"
    and "\<And>s x s'. x \<in> set xs \<Longrightarrow> P s \<Longrightarrow> f s x = Inr s' \<Longrightarrow> P s'"
  shows "P t"
  using assms
proof (induction xs arbitrary: s)
  case Nil
  then show ?case by simp
next
  case (Cons x xs)
  from Cons.prems(1) obtain s' where s': "f s x = Inr s'" "foldl_res f s' xs = Inr t" by auto
  have "P s'" using Cons.prems(2) Cons.prems(3) [OF _ _ s'(1)] by simp
  show ?case
  proof (rule Cons.IH [OF s'(2) \<open>P s'\<close>])
    fix a b c
    assume "b \<in> set xs" "P a" "f a b = Inr c"
    then show "P c" using Cons.prems(3) [of b a c] by simp
  qed
qed

lemma foldl_res_total:
  assumes "\<And>s x. x \<in> set xs \<Longrightarrow> P s \<Longrightarrow> \<exists>s'. f s x = Inr s' \<and> P s'" and "P s"
  shows "\<exists>t. foldl_res f s xs = Inr t \<and> P t"
  using assms
proof (induction xs arbitrary: s)
  case Nil
  then show ?case by simp
next
  case (Cons x xs)
  from Cons.prems obtain s' where s': "f s x = Inr s'" "P s'" by fastforce
  have "\<exists>t. foldl_res f s' xs = Inr t \<and> P t"
    by (rule Cons.IH) (use Cons.prems(1) s'(2) in auto)
  with s'(1) show ?case by simp
qed

section \<open>Strings\<close>

definition startswith :: "string \<Rightarrow> string \<Rightarrow> bool" where
  "startswith s p \<longleftrightarrow> take (length p) s = p"

lemma startswith_append [simp]: "startswith (p @ s) p"
  by (simp add: startswith_def)

definition endswith :: "string \<Rightarrow> string \<Rightarrow> bool" where
  "endswith s p \<longleftrightarrow> length p \<le> length s \<and> drop (length s - length p) s = p"

text \<open>\<open>p in s\<close>, by looking at every suffix of \<open>s\<close>.\<close>

fun contains :: "string \<Rightarrow> string \<Rightarrow> bool" where
  "contains [] p = (p = [])"
| "contains (c # s) p = (startswith (c # s) p \<or> contains s p)"

text \<open>\<open>s.split(c)\<close> and \<open>s.split(c, 1)\<close> for a one-character separator.\<close>

fun split_all :: "char \<Rightarrow> string \<Rightarrow> string list" where
  "split_all c [] = [[]]"
| "split_all c (x # s) =
     (if x = c then [] # split_all c s
      else (case split_all c s of [] \<Rightarrow> [[x]] | w # ws \<Rightarrow> (x # w) # ws))"

fun split_once :: "char \<Rightarrow> string \<Rightarrow> (string \<times> string) option" where
  "split_once c [] = None"
| "split_once c (x # s) =
     (if x = c then Some ([], s)
      else (case split_once c s of None \<Rightarrow> None | Some (a, b) \<Rightarrow> Some (x # a, b)))"

text \<open>\<open>c.join(ws)\<close> for a one-character separator.\<close>

fun join_with :: "char \<Rightarrow> string list \<Rightarrow> string" where
  "join_with c [] = []"
| "join_with c [w] = w"
| "join_with c (w # v # ws) = w @ c # join_with c (v # ws)"

lemma split_all_nonempty [simp]: "split_all c s \<noteq> []"
  by (induction s) (auto split: list.split)

lemma join_split: "join_with c (split_all c s) = s"
proof (induction s)
  case Nil
  then show ?case by simp
next
  case (Cons x s)
  show ?case
  proof (cases "split_all c s")
    case Nil
    then show ?thesis by simp
  next
    case (Cons w ws)
    with Cons.IH show ?thesis by (cases ws) auto
  qed
qed

lemma split_join:
  "ws \<noteq> [] \<Longrightarrow> \<forall>w \<in> set ws. c \<notin> set w \<Longrightarrow> split_all c (join_with c ws) = ws"
proof (induction c ws rule: join_with.induct)
  case (1 c)
  then show ?case by simp
next
  case (2 c w)
  then have "c \<notin> set w" by simp
  then show ?case by (induction w) auto
next
  case (3 c w v ws)
  then have IH: "split_all c (join_with c (v # ws)) = v # ws" and w: "c \<notin> set w" by auto
  from w show ?case by (induction w) (auto simp: IH)
qed

lemma split_all_no_sep: "w \<in> set (split_all c s) \<Longrightarrow> c \<notin> set w"
proof (induction s arbitrary: w)
  case Nil
  then show ?case by simp
next
  case (Cons x s)
  then show ?case by (cases "split_all c s") (auto split: if_splits)
qed

lemma split_once_None: "split_once c s = None \<longleftrightarrow> c \<notin> set s"
  by (induction s) (auto split: option.splits)

lemma split_once_Some: "split_once c s = Some (a, b) \<Longrightarrow> s = a @ c # b \<and> c \<notin> set a"
proof (induction s arbitrary: a)
  case Nil
  then show ?case by simp
next
  case (Cons x s)
  show ?case
  proof (cases "split_once c s")
    case None
    with Cons.prems show ?thesis by (simp split: if_splits)
  next
    case (Some p)
    obtain u v where p: "p = (u, v)" by (cases p)
    have "s = u @ c # v \<and> c \<notin> set u" if "v = b" using Cons.IH [of u] Some p that by simp
    with Cons.prems Some p show ?thesis by (auto split: if_splits)
  qed
qed

lemma split_once_append: "c \<notin> set a \<Longrightarrow> split_once c (a @ c # b) = Some (a, b)"
  by (induction a) auto

section \<open>Decimal integers\<close>

definition digit_val :: "char \<Rightarrow> nat option" where
  "digit_val c = (let n = of_char c :: nat in if 48 \<le> n \<and> n \<le> 57 then Some (n - 48) else None)"

definition digit_char :: "nat \<Rightarrow> char" where
  "digit_char d = char_of (48 + d)"

lemma digit_val_char [simp]: "d < 10 \<Longrightarrow> digit_val (digit_char d) = Some d"
  by (simp add: digit_val_def digit_char_def Let_def)

text \<open>
  The digits of \<open>int(s)\<close>: one or more digits, with single underscores allowed between
  two digits.
\<close>

fun parse_digits :: "nat \<Rightarrow> bool \<Rightarrow> string \<Rightarrow> nat option" where
  "parse_digits acc prev [] = (if prev then Some acc else None)"
| "parse_digits acc prev (c # s) =
     (case digit_val c of
        Some d \<Rightarrow> parse_digits (10 * acc + d) True s
      | None \<Rightarrow> if c = CHR ''_'' \<and> prev then parse_digits acc False s else None)"

text \<open>The ASCII characters that \<open>str.strip()\<close> and \<open>int\<close> treat as whitespace.\<close>

definition is_space :: "char \<Rightarrow> bool" where
  "is_space c = (let n = of_char c :: nat in (9 \<le> n \<and> n \<le> 13) \<or> (28 \<le> n \<and> n \<le> 32))"

definition lstrip :: "string \<Rightarrow> string" where
  "lstrip s = dropWhile is_space s"

definition rstrip :: "string \<Rightarrow> string" where
  "rstrip s = rev (dropWhile is_space (rev s))"

definition strip :: "string \<Rightarrow> string" where
  "strip s = rstrip (lstrip s)"

text \<open>\<open>int(s)\<close> for a string: optional sign, then digits; \<open>ValueError\<close> otherwise.\<close>

definition py_int :: "string \<Rightarrow> int res" where
  "py_int s =
     (case strip s of
        [] \<Rightarrow> Inl ValueError
      | c # t \<Rightarrow>
          (if c = CHR ''-'' then
             (case parse_digits 0 False t of None \<Rightarrow> Inl ValueError | Some n \<Rightarrow> Inr (- int n))
           else
             (case parse_digits 0 False (if c = CHR ''+'' then t else c # t) of
                None \<Rightarrow> Inl ValueError | Some n \<Rightarrow> Inr (int n))))"

text \<open>\<open>str(n)\<close> for an integer.\<close>

fun nat_str :: "nat \<Rightarrow> string" where
  "nat_str n = (if n < 10 then [digit_char n] else nat_str (n div 10) @ [digit_char (n mod 10)])"

declare nat_str.simps [simp del]

definition int_str :: "int \<Rightarrow> string" where
  "int_str i = (if i < 0 then CHR ''-'' # nat_str (nat (- i)) else nat_str (nat i))"

lemma parse_digits_append:
  "parse_digits acc prev s = Some n \<Longrightarrow> s \<noteq> [] \<Longrightarrow>
   parse_digits acc prev (s @ t) = parse_digits n True t"
proof (induction acc prev s rule: parse_digits.induct)
  case (1 acc prev)
  then show ?case by simp
next
  case (2 acc prev c s)
  then show ?case by (cases s) (auto split: option.splits if_splits)
qed

lemma parse_digits_nat_str [simp]:
  "parse_digits 0 False (nat_str n) = Some n"
proof (induction n rule: nat_str.induct)
  case (1 n)
  show ?case
  proof (cases "n < 10")
    case True
    then show ?thesis by (subst nat_str.simps) simp
  next
    case False
    then have IH: "parse_digits 0 False (nat_str (n div 10)) = Some (n div 10)" by (rule 1)
    have ne: "nat_str (n div 10) \<noteq> []" by (subst nat_str.simps) simp
    have "n mod 10 < 10" by simp
    with IH ne show ?thesis
      by (subst nat_str.simps) (simp add: False parse_digits_append)
  qed
qed

lemma nat_str_digits: "c \<in> set (nat_str n) \<Longrightarrow> digit_val c \<noteq> None"
proof (induction n rule: nat_str.induct)
  case (1 n)
  then show ?case
    by (cases "n < 10") (auto simp: nat_str.simps [of n])
qed

lemma nat_str_nonempty [simp]: "nat_str n \<noteq> []"
  by (subst nat_str.simps) simp

lemma digit_not_space: "digit_val c \<noteq> None \<Longrightarrow> \<not> is_space c"
  by (auto simp: digit_val_def is_space_def Let_def split: if_splits)

lemma strip_no_space: "(\<And>c. c \<in> set s \<Longrightarrow> \<not> is_space c) \<Longrightarrow> strip s = s"
proof -
  assume "\<And>c. c \<in> set s \<Longrightarrow> \<not> is_space c"
  then have "dropWhile is_space s = s" "dropWhile is_space (rev s) = rev s"
    by (cases s; simp) (cases "rev s"; auto simp: \<open>\<And>c. c \<in> set s \<Longrightarrow> \<not> is_space c\<close>)
  then show ?thesis by (simp add: strip_def lstrip_def rstrip_def)
qed

text \<open>Printing an integer and parsing it back is the identity.\<close>

lemma py_int_int_str [simp]: "py_int (int_str i) = Inr i"
proof (cases "i < 0")
  case True
  have "strip (CHR ''-'' # nat_str (nat (- i))) = CHR ''-'' # nat_str (nat (- i))"
    by (rule strip_no_space) (auto dest!: nat_str_digits digit_not_space simp: is_space_def)
  with True show ?thesis by (simp add: py_int_def int_str_def)
next
  case False
  have s: "strip (nat_str (nat i)) = nat_str (nat i)"
    by (rule strip_no_space) (auto dest!: nat_str_digits digit_not_space)
  obtain c t where ct: "nat_str (nat i) = c # t" by (cases "nat_str (nat i)") auto
  then have "digit_val c \<noteq> None" using nat_str_digits [of c "nat i"] by simp
  then have "c \<noteq> CHR ''-''" "c \<noteq> CHR ''+''" by (auto simp: digit_val_def)
  moreover have "parse_digits 0 False (c # t) = Some (nat i)"
    using parse_digits_nat_str [of "nat i"] ct by simp
  ultimately show ?thesis
    using False s ct by (simp add: py_int_def int_str_def del: parse_digits.simps)
qed

lemma int_str_no_slash [simp]: "CHR ''/'' \<notin> set (int_str i)"
proof
  assume "CHR ''/'' \<in> set (int_str i)"
  then have "CHR ''/'' \<in> set (nat_str (nat \<bar>i\<bar>))"
    by (auto simp: int_str_def split: if_splits)
  then show False using nat_str_digits by (fastforce simp: digit_val_def)
qed

lemma int_str_inject [simp]: "int_str i = int_str j \<longleftrightarrow> i = j"
proof
  assume "int_str i = int_str j"
  then have "py_int (int_str i) = py_int (int_str j)" by simp
  then show "i = j" by simp
qed simp

section \<open>Sorted lists\<close>

lemma sort_key_Nil_iff: "sort_key f xs = [] \<longleftrightarrow> xs = []"
  using length_sort [of f xs] by (metis length_0_conv)

lemma concat_part:
  assumes "sorted_wrt (<) (map f (concat gs))" "g \<in> set gs"
  shows "sorted_wrt (<) (map f g)"
  using assms by (induction gs) (auto simp: sorted_wrt_append)

lemma concat_heads:
  assumes "sorted_wrt (<) (map f (concat gs))" "\<forall>g \<in> set gs. g \<noteq> []"
  shows "sorted_wrt (<) (map (\<lambda>g. f (hd g)) gs)"
  using assms
proof (induction gs)
  case Nil
  then show ?case by simp
next
  case (Cons g gs)
  have "f (hd g) < f (hd h)" if "h \<in> set gs" for h
  proof -
    have "hd g \<in> set g" "hd h \<in> set (concat gs)" using Cons.prems that by (auto intro!: bexI [of _ h])
    with Cons.prems(1) show ?thesis by (auto simp: sorted_wrt_append)
  qed
  with Cons show ?case by (auto simp: sorted_wrt_append)
qed

lemma hd_le_last:
  fixes f :: "'a \<Rightarrow> int"
  assumes "sorted_wrt (<) (map f g)" "x \<in> set g"
  shows "f (hd g) \<le> f x" "f x \<le> f (last g)"
proof -
  have s: "sorted (map f g)" using assms(1) by (rule strict_sorted_imp_sorted)
  obtain i where i: "i < length g" "x = g ! i" using assms(2) by (auto simp: in_set_conv_nth)
  moreover from i(1) have "0 < length g" by auto
  ultimately have "f (g ! 0) \<le> f (g ! i)" "f (g ! i) \<le> f (g ! (length g - 1))"
    using sorted_nth_mono [OF s, of 0 i] sorted_nth_mono [OF s, of i "length g - 1"] by (auto simp: nth_map)
  moreover have "g \<noteq> []" using assms(2) by auto
  ultimately show "f (hd g) \<le> f x" "f x \<le> f (last g)"
    using i by (simp_all add: hd_conv_nth last_conv_nth)
qed


end
