(* ===== verification/Py_String.thy ===== *)
theory Py_String
  imports Prelude
begin

text \<open>
  More of Python's string operations, as the upload pipeline calls them: case folding (on
  ASCII), splitting and replacing with longer separators, stripping of given characters,
  lines of a text and of a byte stream, and \<open>os.path\<close> functions on POSIX paths with the
  working directory as an argument.
\<close>

section \<open>Characters\<close>

definition lower_char :: "char \<Rightarrow> char" where
  "lower_char c = (let n = of_char c :: nat in if 65 \<le> n \<and> n \<le> 90 then char_of (n + 32) else c)"

definition lower :: "string \<Rightarrow> string" where
  "lower s = map lower_char s"

definition char_in :: "nat \<Rightarrow> nat \<Rightarrow> char \<Rightarrow> bool" where
  "char_in a b c = (let n = of_char c :: nat in a \<le> n \<and> n \<le> b)"

section \<open>Splitting, replacing, stripping\<close>

text \<open>\<open>s.split(c, n)\<close>: at most \<open>n\<close> splits.\<close>

fun split_max :: "nat \<Rightarrow> char \<Rightarrow> string \<Rightarrow> string list" where
  "split_max n c s =
     (if n = 0 then [s] else (case split_once c s of None \<Rightarrow> [s] | Some (a, b) \<Rightarrow> a # split_max (n - 1) c b))"

declare split_max.simps [simp del]

text \<open>\<open>s.replace(old, new)\<close> for a non-empty \<open>old\<close>, from left to right.\<close>

function replace_str :: "string \<Rightarrow> string \<Rightarrow> string \<Rightarrow> string" where
  "replace_str old new [] = []"
| "replace_str old new (c # s) =
     (if old \<noteq> [] \<and> startswith (c # s) old then new @ replace_str old new (drop (length old) (c # s))
      else c # replace_str old new s)"
  by pat_completeness auto
termination
  by (relation "measure (\<lambda>(old, new, s). length s)") auto

text \<open>\<open>s.split(sep)\<close> for a non-empty separator.\<close>

function split_str_acc :: "string \<Rightarrow> string \<Rightarrow> string \<Rightarrow> string list" where
  "split_str_acc sep acc [] = [rev acc]"
| "split_str_acc sep acc (c # s) =
     (if sep \<noteq> [] \<and> startswith (c # s) sep then rev acc # split_str_acc sep [] (drop (length sep) (c # s))
      else split_str_acc sep (c # acc) s)"
  by pat_completeness auto
termination
  by (relation "measure (\<lambda>(sep, acc, s). length s)") auto

definition split_str :: "string \<Rightarrow> string \<Rightarrow> string list" where
  "split_str sep s = split_str_acc sep [] s"

fun join_str :: "string \<Rightarrow> string list \<Rightarrow> string" where
  "join_str sep [] = []"
| "join_str sep [w] = w"
| "join_str sep (w # v # ws) = w @ sep @ join_str sep (v # ws)"

definition lstrip_chars :: "string \<Rightarrow> string \<Rightarrow> string" where
  "lstrip_chars cs s = dropWhile (\<lambda>c. c \<in> set cs) s"

definition rstrip_chars :: "string \<Rightarrow> string \<Rightarrow> string" where
  "rstrip_chars cs s = rev (dropWhile (\<lambda>c. c \<in> set cs) (rev s))"

text \<open>\<open>s[-n:]\<close> and \<open>s[:-n]\<close> for a positive \<open>n\<close>.\<close>

definition last_n :: "nat \<Rightarrow> 'a list \<Rightarrow> 'a list" where
  "last_n n s = drop (length s - n) s"

definition but_last_n :: "nat \<Rightarrow> 'a list \<Rightarrow> 'a list" where
  "but_last_n n s = take (length s - n) s"

definition newline :: char where
  "newline = CHR 0x0A"

text \<open>The lines that iterating over a \<open>BytesIO\<close> gives, each with its line feed.\<close>

fun io_lines :: "string \<Rightarrow> string list" where
  "io_lines [] = []"
| "io_lines (c # s) =
     (if c = newline then [c] # io_lines s
      else (case io_lines s of [] \<Rightarrow> [[c]] | l # ls \<Rightarrow> (c # l) # ls))"

text \<open>
  \<open>str.splitlines()\<close>: the line boundaries among the first 128 characters are line feed, vertical
  tab, form feed, carriage return (with a following line feed) and the three separators 28 to 30.
\<close>

definition is_line_break :: "char \<Rightarrow> bool" where
  "is_line_break c = (char_in 10 13 c \<or> char_in 28 30 c)"

fun splitlines_acc :: "string \<Rightarrow> string \<Rightarrow> string list" where
  "splitlines_acc acc [] = (if acc = [] then [] else [rev acc])"
| "splitlines_acc acc (c # s) =
     (if is_line_break c
      then rev acc # splitlines_acc [] (if c = CHR 0x0D \<and> take 1 s = [newline] then drop 1 s else s)
      else splitlines_acc (c # acc) s)"

definition splitlines :: "string \<Rightarrow> string list" where
  "splitlines s = splitlines_acc [] s"

section \<open>Paths\<close>

text \<open>
  \<open>os.path.normpath\<close> on the components of an absolute path: \<open>..\<close> removes the last component,
  and nothing at the root.
\<close>

definition norm_step :: "string list \<Rightarrow> string \<Rightarrow> string list" where
  "norm_step cs c = (if c = [] \<or> c = ''.'' then cs else if c = ''..'' then butlast cs else cs @ [c])"

definition isabs :: "string \<Rightarrow> bool" where
  "isabs p = startswith p ''/''"

text \<open>The non-empty components of \<open>os.path.abspath(p)\<close> in the working directory \<open>cwd\<close>.\<close>

definition abspath :: "string list \<Rightarrow> string \<Rightarrow> string list" where
  "abspath cwd p = foldl norm_step (if isabs p then [] else cwd) (split_all (CHR ''/'') p)"

fun common_prefix :: "'a list \<Rightarrow> 'a list \<Rightarrow> nat" where
  "common_prefix (x # xs) (y # ys) = (if x = y then Suc (common_prefix xs ys) else 0)"
| "common_prefix _ _ = 0"

text \<open>\<open>os.path.relpath(p)\<close>; the empty path is a \<open>ValueError\<close>.\<close>

definition relpath :: "string list \<Rightarrow> string \<Rightarrow> string res" where
  "relpath cwd p =
     (if p = [] then Inl ValueError
      else
        let path = abspath cwd p;
            i = common_prefix cwd path;
            rel = replicate (length cwd - i) ''..'' @ drop i path
        in Inr (if rel = [] then ''.'' else join_with (CHR ''/'') rel))"

definition path_join :: "string \<Rightarrow> string \<Rightarrow> string" where
  "path_join a b =
     (if isabs b then b
      else if a = [] \<or> endswith a ''/'' then a @ b
      else a @ CHR ''/'' # b)"

section \<open>Lemmas\<close>

lemma lower_idem [simp]: "lower (lower s) = lower s"
proof -
  have "lower_char (lower_char c) = lower_char c" for c
    by (auto simp: lower_char_def Let_def)
  then show ?thesis by (simp add: lower_def)
qed

lemma lower_char_slash [simp]: "lower_char c = CHR ''/'' \<longleftrightarrow> c = CHR ''/''"
proof (cases "65 \<le> (of_char c :: nat) \<and> of_char c \<le> (90 :: nat)")
  case True
  then have "of_char (lower_char c) = (of_char c + 32 :: nat)"
    by (simp add: lower_char_def Let_def take_bit_eq_mod)
  moreover have "of_char (CHR ''/'') = (47 :: nat)" by simp
  ultimately have "lower_char c \<noteq> CHR ''/''" "c \<noteq> CHR ''/''" using True by auto
  then show ?thesis by simp
next
  case False
  then show ?thesis by (auto simp: lower_char_def Let_def)
qed

lemma lower_length [simp]: "length (lower s) = length s"
  by (simp add: lower_def)

lemma io_lines_concat: "concat (io_lines s) = s"
  by (induction s) (auto split: list.splits)

lemma replace_absent: "\<not> contains s old \<Longrightarrow> replace_str old new s = s"
  by (induction s) auto

text \<open>A clean relative path is its own \<open>relpath\<close>.\<close>

definition plain_component :: "string \<Rightarrow> bool" where
  "plain_component c \<longleftrightarrow> c \<noteq> [] \<and> c \<noteq> ''.'' \<and> c \<noteq> ''..'' \<and> CHR ''/'' \<notin> set c"

lemma fold_norm_plain: "\<forall>c \<in> set cs. plain_component c \<Longrightarrow> foldl norm_step acc cs = acc @ cs"
  by (induction cs arbitrary: acc) (auto simp: norm_step_def plain_component_def)

lemma common_prefix_append [simp]: "common_prefix xs (xs @ ys) = length xs"
  by (induction xs) auto

lemma relpath_plain:
  assumes "cs \<noteq> []" "\<forall>c \<in> set cs. plain_component c"
  shows "relpath cwd (join_with (CHR ''/'') cs) = Inr (join_with (CHR ''/'') cs)"
proof -
  obtain c cs' where cs: "cs = c # cs'" using assms(1) by (cases cs) auto
  have "c \<noteq> []" "CHR ''/'' \<notin> set c" using assms(2) cs by (auto simp: plain_component_def)
  then have "\<not> isabs (join_with (CHR ''/'') cs)" "join_with (CHR ''/'') cs \<noteq> []"
    using cs by (cases c; cases cs'; auto simp: isabs_def startswith_def)+
  moreover have "split_all (CHR ''/'') (join_with (CHR ''/'') cs) = cs"
    using assms by (intro split_join) (auto simp: plain_component_def)
  ultimately show ?thesis
    using assms by (simp add: relpath_def abspath_def fold_norm_plain Let_def)
qed

end
