(* ===== verification/Py_Dict.thy ===== *)
theory Py_Dict
  imports Prelude
begin

text \<open>
  Python's dictionaries: association lists in insertion order with distinct keys. An
  assignment to a key that is present keeps its place, one to a new key appends.
  \<open>ordered_map\<close> is the contract the components rely on; its clients are the loops that
  assign or delete many keys. The interpretation \<open>pd\<close> discharges the contract for
  association lists.
\<close>

type_synonym ('k, 'v) dict = "('k \<times> 'v) list"

definition wf_dict :: "('k, 'v) dict \<Rightarrow> bool" where
  "wf_dict d \<longleftrightarrow> distinct (map fst d)"

definition dict_get :: "('k, 'v) dict \<Rightarrow> 'k \<Rightarrow> 'v option" where
  "dict_get d k = map_of d k"

fun dict_set :: "('k, 'v) dict \<Rightarrow> 'k \<Rightarrow> 'v \<Rightarrow> ('k, 'v) dict" where
  "dict_set [] k v = [(k, v)]"
| "dict_set ((k', v') # d) k v = (if k' = k then (k, v) # d else (k', v') # dict_set d k v)"

definition dict_del :: "('k, 'v) dict \<Rightarrow> 'k \<Rightarrow> ('k, 'v) dict" where
  "dict_del d k = filter (\<lambda>p. fst p \<noteq> k) d"

definition dict_keys :: "('k, 'v) dict \<Rightarrow> 'k list" where
  "dict_keys d = map fst d"

definition dict_values :: "('k, 'v) dict \<Rightarrow> 'v list" where
  "dict_values d = map snd d"

text \<open>\<open>d.pop(k)\<close> raises \<open>KeyError\<close> when the key is absent.\<close>

definition dict_pop :: "('k, 'v) dict \<Rightarrow> 'k \<Rightarrow> ('v \<times> ('k, 'v) dict) res" where
  "dict_pop d k = (case dict_get d k of None \<Rightarrow> Inl KeyError | Some v \<Rightarrow> Inr (v, dict_del d k))"

text \<open>A dictionary display or comprehension: the pairs are assigned from left to right.\<close>

definition dict_of :: "('k \<times> 'v) list \<Rightarrow> ('k, 'v) dict" where
  "dict_of kvs = foldl (\<lambda>d p. dict_set d (fst p) (snd p)) [] kvs"

lemma keys_dict_set: "dict_keys (dict_set d k v) = (if k \<in> set (dict_keys d) then dict_keys d else dict_keys d @ [k])"
  by (induction d k v rule: dict_set.induct) (auto simp: dict_keys_def)

lemma keys_dict_del: "dict_keys (dict_del d k) = filter (\<lambda>x. x \<noteq> k) (dict_keys d)"
  by (induction d) (auto simp: dict_keys_def dict_del_def)

lemma wf_dict_set [simp, intro]: "wf_dict d \<Longrightarrow> wf_dict (dict_set d k v)"
  using keys_dict_set [of d k v] by (auto simp: wf_dict_def dict_keys_def split: if_splits)

lemma wf_dict_del [simp, intro]: "wf_dict d \<Longrightarrow> wf_dict (dict_del d k)"
  using keys_dict_del [of d k] by (simp add: wf_dict_def dict_keys_def)

lemma wf_dict_Nil [simp]: "wf_dict []"
  by (simp add: wf_dict_def)

lemma dict_get_set [simp, dict_simps]: "dict_get (dict_set d k v) k' = (if k' = k then Some v else dict_get d k')"
  by (induction d k v rule: dict_set.induct) (auto simp: dict_get_def)

lemma dict_get_del [simp, dict_simps]: "dict_get (dict_del d k) k' = (if k' = k then None else dict_get d k')"
  by (induction d) (auto simp: dict_get_def dict_del_def)

lemma dict_get_Nil [simp, dict_simps]: "dict_get [] k = None"
  by (simp add: dict_get_def)

lemma dict_get_None: "dict_get d k = None \<longleftrightarrow> k \<notin> set (dict_keys d)"
  by (simp add: dict_get_def dict_keys_def map_of_eq_None_iff)

lemma dict_get_in: "dict_get d k = Some v \<Longrightarrow> (k, v) \<in> set d"
  by (simp add: dict_get_def map_of_SomeD)

lemma dict_get_iff: "wf_dict d \<Longrightarrow> dict_get d k = Some v \<longleftrightarrow> (k, v) \<in> set d"
  by (simp add: dict_get_def wf_dict_def map_of_eq_Some_iff)

lemma in_filtered_keys:
  "wf_dict d \<Longrightarrow> k \<in> set (map fst (filter (\<lambda>p. P (snd p)) d)) \<longleftrightarrow> (\<exists>v. dict_get d k = Some v \<and> P v)"
  by (force simp: dict_get_iff)

lemma set_dict_set: "wf_dict d \<Longrightarrow> set (dict_set d k v) = {p \<in> set d. fst p \<noteq> k} \<union> {(k, v)}"
  by (induction d k v rule: dict_set.induct) (auto simp: wf_dict_def image_iff)

lemma values_dict_set: "set (dict_values (dict_set d k v)) \<subseteq> insert v (set (dict_values d))"
  by (induction d k v rule: dict_set.induct) (auto simp: dict_values_def)

lemma dict_get_append: "dict_get (d @ e) k = (case dict_get d k of None \<Rightarrow> dict_get e k | Some v \<Rightarrow> Some v)"
  by (simp add: dict_get_def map_add_def split: option.splits)

lemma dict_set_same: "dict_get d k = Some v \<Longrightarrow> dict_set d k v = d"
  by (induction d k v rule: dict_set.induct) (auto simp: dict_get_def split: if_splits)

lemma dict_del_absent: "k \<notin> set (dict_keys d) \<Longrightarrow> dict_del d k = d"
  by (induction d) (auto simp: dict_keys_def dict_del_def)

lemma dict_set_absent: "k \<notin> set (dict_keys d) \<Longrightarrow> dict_set d k v = d @ [(k, v)]"
  by (induction d k v rule: dict_set.induct) (auto simp: dict_keys_def)

lemma dict_del_set: "dict_del (dict_set d k v) k = dict_del d k"
  by (induction d k v rule: dict_set.induct) (auto simp: dict_del_def)

section \<open>The contract of an ordered map\<close>

locale ordered_map =
  fixes get :: "'m \<Rightarrow> 'k \<Rightarrow> 'v option"
    and assign :: "'m \<Rightarrow> 'k \<Rightarrow> 'v \<Rightarrow> 'm"
    and del :: "'m \<Rightarrow> 'k \<Rightarrow> 'm"
    and keys :: "'m \<Rightarrow> 'k list"
    and inv :: "'m \<Rightarrow> bool"
  assumes get_assign: "get (assign d k v) k' = (if k' = k then Some v else get d k')"
    and get_del: "get (del d k) k' = (if k' = k then None else get d k')"
    and keys_get: "k \<in> set (keys d) \<longleftrightarrow> get d k \<noteq> None"
    and keys_assign: "keys (assign d k v) = (if k \<in> set (keys d) then keys d else keys d @ [k])"
    and keys_del: "keys (del d k) = filter (\<lambda>x. x \<noteq> k) (keys d)"
    and inv_assign: "inv d \<Longrightarrow> inv (assign d k v)"
    and inv_del: "inv d \<Longrightarrow> inv (del d k)"
begin

lemma get_assigns:
  "get (foldl (\<lambda>d p. assign d (fst p) (snd p)) d kvs) k =
     (case map_of (rev kvs) k of Some v \<Rightarrow> Some v | None \<Rightarrow> get d k)"
  by (induction kvs arbitrary: d) (auto simp: get_assign map_add_def split: option.splits)

lemma inv_assigns: "inv d \<Longrightarrow> inv (foldl (\<lambda>d p. assign d (fst p) (snd p)) d kvs)"
  by (induction kvs arbitrary: d) (auto simp: inv_assign)

lemma get_dels: "get (foldl del d ks) k = (if k \<in> set ks then None else get d k)"
  by (induction ks arbitrary: d) (auto simp: get_del)

lemma keys_dels: "keys (foldl del d ks) = filter (\<lambda>x. x \<notin> set ks) (keys d)"
  by (induction ks arbitrary: d) (auto simp: keys_del intro: filter_cong)

lemma inv_dels: "inv d \<Longrightarrow> inv (foldl del d ks)"
  by (induction ks arbitrary: d) (auto simp: inv_del)

lemma set_keys_assigns:
  "set (keys (foldl (\<lambda>d p. assign d (fst p) (snd p)) d kvs)) = set (keys d) \<union> fst ` set kvs"
  by (induction kvs arbitrary: d) (auto simp: keys_assign)

end

interpretation pd: ordered_map dict_get dict_set dict_del dict_keys wf_dict
  by unfold_locales (simp_all add: keys_dict_set keys_dict_del dict_get_None)

lemma wf_dict_of [simp]: "wf_dict (dict_of kvs)"
  unfolding dict_of_def by (rule pd.inv_assigns) simp

lemma dict_get_of: "dict_get (dict_of kvs) k = map_of (rev kvs) k"
  by (simp add: dict_of_def pd.get_assigns split: option.split)

lemma dict_of_distinct: "distinct (map fst kvs) \<Longrightarrow> dict_of kvs = kvs"
proof -
  have "distinct (map fst (d @ kvs)) \<Longrightarrow> foldl (\<lambda>d p. dict_set d (fst p) (snd p)) d kvs = d @ kvs" for d
  proof (induction kvs arbitrary: d)
    case Nil
    then show ?case by simp
  next
    case (Cons p kvs)
    then have "fst p \<notin> set (dict_keys d)" by (auto simp: dict_keys_def)
    then have "dict_set d (fst p) (snd p) = d @ [p]" by (simp add: dict_set_absent)
    with Cons show ?case by simp
  qed
  from this [of "[]"] show "distinct (map fst kvs) \<Longrightarrow> ?thesis" by (simp add: dict_of_def)
qed

section \<open>Deleting and mapping whole dictionaries\<close>

definition dict_dels :: "('k, 'v) dict \<Rightarrow> 'k list \<Rightarrow> ('k, 'v) dict" where
  "dict_dels d ks = foldl dict_del d ks"

lemma dict_dels_filter: "dict_dels d ks = filter (\<lambda>p. fst p \<notin> set ks) d"
proof (induction ks arbitrary: d)
  case Nil
  then show ?case by (simp add: dict_dels_def)
next
  case (Cons k ks)
  have "dict_dels d (k # ks) = dict_dels (dict_del d k) ks" by (simp add: dict_dels_def)
  also have "\<dots> = filter (\<lambda>p. fst p \<notin> set ks) (dict_del d k)" by (rule Cons)
  also have "\<dots> = filter (\<lambda>p. fst p \<notin> set (k # ks)) d"
    by (auto simp: dict_del_def intro: filter_cong)
  finally show ?case .
qed

lemma dict_get_dels: "dict_get (dict_dels d ks) k = (if k \<in> set ks then None else dict_get d k)"
  by (simp add: dict_dels_def pd.get_dels)

lemma wf_dict_dels [simp]: "wf_dict d \<Longrightarrow> wf_dict (dict_dels d ks)"
  by (simp add: dict_dels_def pd.inv_dels)

definition dict_map :: "('v \<Rightarrow> 'w) \<Rightarrow> ('k, 'v) dict \<Rightarrow> ('k, 'w) dict" where
  "dict_map f d = map (\<lambda>(k, v). (k, f v)) d"

lemma dict_get_map [simp, dict_simps]: "dict_get (dict_map f d) k = map_option f (dict_get d k)"
  by (simp add: dict_get_def dict_map_def map_of_map)

lemma dict_keys_map [simp]: "dict_keys (dict_map f d) = dict_keys d"
  by (induction d) (auto simp: dict_keys_def dict_map_def)

lemma wf_dict_map [simp]: "wf_dict (dict_map f d) = wf_dict d"
  using dict_keys_map [of f d] by (simp add: wf_dict_def dict_keys_def)

section \<open>\<open>itertools.groupby\<close>\<close>

text \<open>The maximal runs of consecutive elements with the same key.\<close>

fun groupby :: "('a \<Rightarrow> 'k) \<Rightarrow> 'a list \<Rightarrow> ('k \<times> 'a list) list" where
  "groupby f [] = []"
| "groupby f (x # xs) =
     (case groupby f xs of
        [] \<Rightarrow> [(f x, [x])]
      | (k, g) # gs \<Rightarrow> if k = f x then (k, x # g) # gs else (f x, [x]) # (k, g) # gs)"

lemma groupby_concat: "concat (map snd (groupby f xs)) = xs"
  by (induction xs) (auto split: list.splits)

lemma groupby_group: "(k, g) \<in> set (groupby f xs) \<Longrightarrow> g \<noteq> [] \<and> (\<forall>x \<in> set g. f x = k)"
proof (induction xs arbitrary: k g)
  case Nil
  then show ?case by simp
next
  case (Cons x xs)
  show ?case
  proof (cases "groupby f xs")
    case Nil
    with Cons.prems show ?thesis by simp
  next
    case (Cons p gs)
    obtain k' g' where p: "p = (k', g')" by (cases p)
    have old: "g' \<noteq> [] \<and> (\<forall>y \<in> set g'. f y = k')" using Cons.IH [of k' g'] Cons p by simp
    have "(k, g) \<in> set gs \<Longrightarrow> ?thesis" using Cons.IH [of k g] Cons by simp
    with Cons.prems Cons p old show ?thesis by (auto split: if_splits)
  qed
qed

lemma groupby_Nil_iff [simp]: "groupby f xs = [] \<longleftrightarrow> xs = []"
  by (cases xs) (auto split: list.splits)

lemma groupby_member: "x \<in> set xs \<Longrightarrow> \<exists>g. (f x, g) \<in> set (groupby f xs) \<and> x \<in> set g"
proof -
  assume "x \<in> set xs"
  then have "x \<in> set (concat (map snd (groupby f xs)))" by (simp only: groupby_concat)
  then obtain k g where "(k, g) \<in> set (groupby f xs)" "x \<in> set g" by auto
  moreover from groupby_group [OF this(1)] this(2) have "k = f x" by auto
  ultimately show ?thesis by blast
qed

end
