(* ===== verification/Py_Float.thy ===== *)
theory Py_Float
  imports Prelude
begin

text \<open>
  Python's floats where the modelled code computes with them: an IEEE double is its exact
  rational value, and every operation rounds the exact result to the nearest value with a
  53-bit significand, ties to even (\<open>fl\<close>). The code only divides counts and scales
  percentages, so the exponent range (overflow, subnormals) is not modelled.
  \<open>round(v, 5)\<close> and the format \<open>:.5f\<close> round the exact value of the double to five
  decimals, ties to even. The theory ends with \<open>ratio\<close> (libs/shared/shared/helpers/numeric.py),
  the coverage percentage as a string.
\<close>

section \<open>Rounding to integers, ties to even\<close>

definition rhe :: "rat \<Rightarrow> int" where
  "rhe r = (let f = \<lfloor>r\<rfloor>; d = r - of_int f in
     if d < 1/2 then f else if d > 1/2 then f + 1 else if even f then f else f + 1)"

lemma rhe_error: "\<bar>of_int (rhe r) - r\<bar> \<le> 1/2"
proof -
  have "of_int \<lfloor>r\<rfloor> \<le> r" "r < of_int \<lfloor>r\<rfloor> + 1" by linarith+
  then show ?thesis by (auto simp: rhe_def Let_def)
qed

lemma rhe_of_int [simp]: "rhe (of_int n) = n"
  by (simp add: rhe_def)

lemma rhe_mono: "r \<le> s \<Longrightarrow> rhe r \<le> rhe s"
proof -
  assume le: "r \<le> s"
  then have fl: "\<lfloor>r\<rfloor> \<le> \<lfloor>s\<rfloor>" by (rule floor_mono)
  show ?thesis
  proof (cases "\<lfloor>r\<rfloor> = \<lfloor>s\<rfloor>")
    case True
    with le show ?thesis by (auto simp: rhe_def Let_def)
  next
    case False
    with fl have "\<lfloor>r\<rfloor> + 1 \<le> \<lfloor>s\<rfloor>" by simp
    moreover have "rhe r \<le> \<lfloor>r\<rfloor> + 1" "\<lfloor>s\<rfloor> \<le> rhe s" by (auto simp: rhe_def Let_def)
    ultimately show ?thesis by linarith
  qed
qed

lemma rhe_near: "\<bar>r - of_int n\<bar> < 1/2 \<Longrightarrow> rhe r = n"
proof -
  assume near: "\<bar>r - of_int n\<bar> < 1/2"
  have "\<bar>of_int (rhe r) - r\<bar> \<le> 1/2" by (rule rhe_error)
  with near have "\<bar>of_int (rhe r) - (of_int n :: rat)\<bar> < 1" by linarith
  then have "of_int \<bar>rhe r - n\<bar> < (1 :: rat)" by simp
  then show ?thesis by linarith
qed

lemma rhe_bounds: "of_int a \<le> r \<Longrightarrow> r \<le> of_int b \<Longrightarrow> a \<le> rhe r \<and> rhe r \<le> b"
  using rhe_mono [of "of_int a" r] rhe_mono [of r "of_int b"] by simp

section \<open>Rounding to doubles\<close>

fun bit_length :: "nat \<Rightarrow> nat" where
  "bit_length n = (if n = 0 then 0 else Suc (bit_length (n div 2)))"

declare bit_length.simps [simp del]

lemma bit_length_upper: "n < 2 ^ bit_length n"
proof (induction n rule: bit_length.induct)
  case (1 n)
  show ?case
  proof (cases "n = 0")
    case True
    then show ?thesis by (simp add: bit_length.simps)
  next
    case False
    with 1 have "n div 2 < 2 ^ bit_length (n div 2)" by simp
    then have "n < 2 * 2 ^ bit_length (n div 2)" by linarith
    with False show ?thesis by (simp add: bit_length.simps [of n])
  qed
qed

lemma bit_length_lower: "0 < n \<Longrightarrow> 2 ^ bit_length n \<le> 2 * n"
proof (induction n rule: bit_length.induct)
  case (1 n)
  show ?case
  proof (cases "n div 2 = 0")
    case True
    with 1 show ?thesis by (simp add: bit_length.simps [of n] bit_length.simps [of 0])
  next
    case False
    with 1 have "2 ^ bit_length (n div 2) \<le> 2 * (n div 2)" by simp
    then have "2 * 2 ^ bit_length (n div 2) \<le> 2 * n" by linarith
    with 1 show ?thesis by (simp add: bit_length.simps [of n])
  qed
qed

text \<open>The binary exponent of a positive rational.\<close>

definition ilog2 :: "rat \<Rightarrow> int" where
  "ilog2 r =
     (let pq = quotient_of r;
          k = int (bit_length (nat (fst pq))) - int (bit_length (nat (snd pq)))
      in if 2 powi k \<le> r then k else k - 1)"

text \<open>The nearest double to a rational, ties to even.\<close>

definition fl_pos :: "rat \<Rightarrow> rat" where
  "fl_pos r = (let e = ilog2 r - 52 in of_int (rhe (r / 2 powi e)) * 2 powi e)"

definition fl :: "rat \<Rightarrow> rat" where
  "fl r = (if r = 0 then 0 else if 0 < r then fl_pos r else - fl_pos (- r))"

section \<open>Rounding to a number of significant digits\<close>

text \<open>
  What binary and decimal floating point share: the exponent of a positive rational comes from the
  numbers of digits of its numerator and denominator, and rounding keeps \<open>prec + 1\<close> digits.
\<close>

lemma quotient_pos:
  assumes "0 < r"
  obtains p q :: nat where "quotient_of r = (int p, int q)" "0 < p" "0 < q" "r = of_nat p / of_nat q"
proof -
  obtain a b where ab: "quotient_of r = (a, b)" by (cases "quotient_of r")
  have b: "0 < b" using quotient_of_denom_pos [OF ab] .
  have r: "r = of_int a / of_int b" by (rule quotient_of_div [OF ab])
  with assms b have a: "0 < a" by (simp add: zero_less_divide_iff)
  have "quotient_of r = (int (nat a), int (nat b))" using ab a b by simp
  moreover have "r = of_nat (nat a) / of_nat (nat b)" using r a b by simp
  moreover have "0 < nat a" "0 < nat b" using a b by simp_all
  ultimately show thesis using that by blast
qed

locale digit_count =
  fixes base :: nat and digits :: "nat \<Rightarrow> nat" and ilog :: "rat \<Rightarrow> int"
  assumes base: "2 \<le> base"
    and digits_upper: "n < base ^ digits n"
    and digits_lower: "0 < n \<Longrightarrow> base ^ digits n \<le> base * n"
    and ilog: "ilog r =
      (let pq = quotient_of r; k = int (digits (nat (fst pq))) - int (digits (nat (snd pq)))
       in if of_nat base powi k \<le> r then k else k - 1)"
begin

lemma base_gt1: "(1 :: rat) < of_nat base"
  using base by simp

lemma base_powi_pos [simp]: "(0 :: rat) < of_nat base powi k"
  using base by simp

lemma digits_bounds:
  "(of_nat n :: rat) < of_nat base ^ digits n" "0 < n \<Longrightarrow> (of_nat base :: rat) ^ digits n \<le> of_nat base * of_nat n"
  using digits_upper [of n] digits_lower [of n] by (simp_all flip: of_nat_power of_nat_mult)

lemma ilog_bounds:
  assumes "0 < r"
  shows "of_nat base powi ilog r \<le> r" "r < of_nat base powi (ilog r + 1)"
proof -
  obtain p q :: nat where pq: "quotient_of r = (int p, int q)" "0 < p" "0 < q" "r = of_nat p / of_nat q"
    using quotient_pos [OF assms] .
  let ?b = "of_nat base :: rat"
  define k where "k = int (digits p) - int (digits q)"
  have nz: "?b \<noteq> 0" using base by simp
  have pw: "?b powi k = ?b ^ digits p / ?b ^ digits q" using nz by (simp add: k_def power_int_diff)
  have qpos: "0 < (of_nat q :: rat)" and bpos: "0 < ?b" using pq(3) base by simp_all
  have "r < ?b powi (k + 1)"
  proof -
    have "of_nat p * ?b ^ digits q < ?b ^ digits p * (?b * of_nat q)"
      using digits_bounds(1) [of p] digits_bounds(2) [OF pq(3)] qpos bpos by (intro mult_less_le_imp_less) auto
    then have "r < ?b * (?b ^ digits p / ?b ^ digits q)" using qpos bpos by (simp add: pq(4) field_simps)
    then show ?thesis using pw nz by (simp add: power_int_add mult.commute)
  qed
  moreover have "?b powi (k - 1) \<le> r"
  proof -
    have "?b ^ digits p * of_nat q \<le> (?b * of_nat p) * ?b ^ digits q"
      using digits_bounds(2) [OF pq(2)] digits_bounds(1) [of q] bpos by (intro mult_mono) auto
    then have "?b ^ digits p / ?b ^ digits q \<le> ?b * r" using qpos bpos by (simp add: pq(4) field_simps)
    then show ?thesis using pw nz bpos by (simp add: power_int_diff pos_divide_le_eq mult.commute)
  qed
  moreover have "ilog r = (if ?b powi k \<le> r then k else k - 1)" by (simp add: ilog pq(1) k_def)
  ultimately show "?b powi ilog r \<le> r" "r < ?b powi (ilog r + 1)" by simp_all
qed

lemma powi_less_iff: "(of_nat base :: rat) powi a < of_nat base powi b \<longleftrightarrow> a < b"
  using power_int_strict_increasing [OF _ base_gt1, of a b] power_int_increasing [OF _ less_imp_le [OF base_gt1], of b a]
  by (metis linorder_not_le)

lemma ilog_mono: "0 < r \<Longrightarrow> r \<le> s \<Longrightarrow> ilog r \<le> ilog s"
proof -
  assume "0 < r" "r \<le> s"
  then have "of_nat base powi ilog r < (of_nat base :: rat) powi (ilog s + 1)"
    using ilog_bounds(1) [of r] ilog_bounds(2) [of s] by linarith
  then show ?thesis by (simp add: powi_less_iff)
qed

end

locale significand = digit_count +
  fixes prec :: nat and rnd :: "rat \<Rightarrow> rat"
  assumes rnd: "0 < r \<Longrightarrow> rnd r =
    (let e = ilog r - int prec in of_int (rhe (r / of_nat base powi e)) * of_nat base powi e)"
begin

lemma scaled_bounds:
  assumes "0 < r"
  shows "of_nat base ^ prec \<le> r / of_nat base powi (ilog r - int prec)"
    "r / of_nat base powi (ilog r - int prec) < of_nat base ^ (prec + 1)"
proof -
  let ?b = "of_nat base :: rat"
  have e: "?b powi (ilog r - int prec) = ?b powi ilog r / ?b ^ prec" "?b powi (ilog r + 1) = ?b powi ilog r * ?b"
    using base by (simp_all add: power_int_diff power_int_add)
  have pos: "0 < ?b ^ prec" using base by simp
  show "?b ^ prec \<le> r / ?b powi (ilog r - int prec)"
    using ilog_bounds(1) [OF assms] pos unfolding e by (simp add: field_simps)
  show "r / ?b powi (ilog r - int prec) < ?b ^ (prec + 1)"
    using ilog_bounds(2) [OF assms] pos unfolding e by (simp add: field_simps)
qed

lemma rnd_range:
  assumes "0 < r"
  shows "of_nat base powi ilog r \<le> rnd r" "rnd r \<le> of_nat base powi (ilog r + 1)"
proof -
  let ?b = "of_nat base :: rat" and ?s = "r / of_nat base powi (ilog r - int prec)"
  have "int base ^ prec \<le> rhe ?s \<and> rhe ?s \<le> int base ^ (prec + 1)"
    using scaled_bounds [OF assms] by (intro rhe_bounds) auto
  then have b: "?b ^ prec \<le> of_int (rhe ?s)" "of_int (rhe ?s) \<le> ?b ^ (prec + 1)"
    by (metis of_int_le_iff of_int_of_nat_eq of_int_power)+
  have eqs: "?b ^ prec * ?b powi (ilog r - int prec) = ?b powi ilog r"
    "?b ^ (prec + 1) * ?b powi (ilog r - int prec) = ?b powi (ilog r + 1)"
    using base by (simp_all add: power_int_diff power_int_add)
  have fp: "rnd r = of_int (rhe ?s) * ?b powi (ilog r - int prec)" by (simp add: rnd [OF assms] Let_def)
  show "?b powi ilog r \<le> rnd r"
    unfolding fp eqs(1) [symmetric] using b(1) by (rule mult_right_mono) (simp add: less_imp_le)
  show "rnd r \<le> ?b powi (ilog r + 1)"
    unfolding fp eqs(2) [symmetric] using b(2) by (rule mult_right_mono) (simp add: less_imp_le)
qed

lemma rnd_pos: "0 < r \<Longrightarrow> 0 < rnd r"
  using rnd_range(1) [of r] base_powi_pos [of "ilog r"] by linarith

lemma rnd_mono:
  assumes r: "0 < r" and le: "r \<le> s"
  shows "rnd r \<le> rnd s"
proof (cases "ilog r = ilog s")
  case True
  let ?u = "of_nat base powi (ilog s - int prec) :: rat"
  have "r / ?u \<le> s / ?u" using le by (intro divide_right_mono) (auto simp: less_imp_le)
  then have "rhe (r / ?u) \<le> rhe (s / ?u)" by (rule rhe_mono)
  then show ?thesis using r le by (simp add: rnd Let_def True mult_right_mono less_imp_le)
next
  case False
  have s: "0 < s" using r le by simp
  have "ilog r + 1 \<le> ilog s" using ilog_mono [OF r le] False by simp
  then have "(of_nat base :: rat) powi (ilog r + 1) \<le> of_nat base powi ilog s"
    using base_gt1 by (intro power_int_increasing) auto
  then show ?thesis using rnd_range(2) [OF r] rnd_range(1) [OF s] by linarith
qed

lemma rnd_error:
  assumes "0 < r"
  shows "\<bar>rnd r - r\<bar> \<le> r / (2 * of_nat base ^ prec)"
proof -
  let ?b = "of_nat base :: rat"
  define u where "u = ?b powi (ilog r - int prec)"
  have u: "0 < u" by (simp add: u_def)
  have "\<bar>of_int (rhe (r / u)) - r / u\<bar> * u \<le> 1 / 2 * u"
    using rhe_error [of "r / u"] u by (intro mult_right_mono) auto
  then have "\<bar>(of_int (rhe (r / u)) - r / u) * u\<bar> \<le> u / 2" using u by (simp add: abs_mult)
  then have "\<bar>rnd r - r\<bar> \<le> u / 2" using u by (simp add: rnd [OF assms] Let_def u_def [symmetric] left_diff_distrib)
  also have "u / 2 \<le> r / (2 * ?b ^ prec)"
  proof -
    have "u = ?b powi ilog r / ?b ^ prec" using base by (simp add: u_def power_int_diff)
    then show ?thesis using ilog_bounds(1) [OF assms] base by (simp add: field_simps)
  qed
  finally show ?thesis .
qed

text \<open>A number with at most \<open>prec + 1\<close> digits at some exponent is kept.\<close>

lemma rnd_exact:
  assumes "0 < n" "n < int base ^ (prec + 1)" "r = of_int n * of_nat base powi k"
  shows "rnd r = r"
proof -
  let ?b = "of_nat base :: rat"
  have nz: "?b \<noteq> 0" using base by simp
  have r: "0 < r" using assms by simp
  have "r < ?b ^ (prec + 1) * ?b powi k"
    using assms(2,3) by (simp del: power_Suc) (metis of_int_less_iff of_int_of_nat_eq of_int_power)
  also have "\<dots> = ?b powi (int prec + 1 + k)" using nz by (simp add: power_int_add)
  finally have "?b powi ilog r < ?b powi (int prec + 1 + k)" using ilog_bounds(1) [OF r] by linarith
  then have "0 \<le> k - (ilog r - int prec)" by (simp add: powi_less_iff)
  then obtain j where j: "k = ilog r - int prec + int j" by (metis nat_0_le add.commute diff_add_cancel)
  define e where "e = ilog r - int prec"
  have bk: "?b powi k = ?b powi e * ?b ^ j" using nz j by (simp add: e_def power_int_add)
  then have rj: "r = of_int (n * int base ^ j) * ?b powi e" using assms(3) by simp
  then have "r / ?b powi e = of_int (n * int base ^ j)" using nz by simp
  then have "rhe (r / ?b powi e) = n * int base ^ j" by (simp only: rhe_of_int)
  then have "rnd r = of_int (n * int base ^ j) * ?b powi e" by (simp add: rnd [OF r] Let_def e_def)
  also have "\<dots> = r" by (rule rj [symmetric])
  finally show ?thesis .
qed

end

interpretation bin: significand 2 bit_length ilog2 52 fl_pos
  by unfold_locales (simp_all add: bit_length_upper bit_length_lower ilog2_def fl_pos_def)

lemma fl_nonneg_mono: "0 \<le> r \<Longrightarrow> r \<le> s \<Longrightarrow> fl r \<le> fl s"
  using bin.rnd_mono [of r s] bin.rnd_pos [of s] by (auto simp: fl_def)

lemma fl_zero [simp]: "fl 0 = 0"
  by (simp add: fl_def)

lemma fl_error:
  assumes "0 \<le> r"
  shows "\<bar>fl r - r\<bar> \<le> r / 2 ^ 53"
  using assms bin.rnd_error [of r] by (cases "r = 0") (simp_all add: fl_def)

text \<open>Integers below \<open>2 ^ 53\<close> are doubles.\<close>

lemma fl_of_nat:
  assumes "n < 2 ^ 53"
  shows "fl (of_nat n) = of_nat n"
proof (cases "n = 0")
  case False
  moreover have "int n < 2 ^ 53" using assms by (simp add: zless_nat_eq_int_zless [symmetric] nat_power_eq)
  ultimately show ?thesis using bin.rnd_exact [of "int n" "of_nat n" 0] by (simp add: fl_def)
qed simp

section \<open>\<open>round(v, 5)\<close>, \<open>:.5f\<close> and \<open>ratio\<close>\<close>

definition py_round5 :: "rat \<Rightarrow> rat" where
  "py_round5 v = fl (of_int (rhe (v * 10 ^ 5)) / 10 ^ 5)"

text \<open>A multiple of 0.00001, given by its numerator, with five decimals.\<close>

definition fixed5 :: "int \<Rightarrow> string" where
  "fixed5 n =
     (let m = nat \<bar>n\<bar>; frac = nat_str (m mod 10 ^ 5)
      in (if n < 0 then ''-'' else []) @ nat_str (m div 10 ^ 5) @ ''.''
         @ replicate (5 - length frac) (CHR ''0'') @ frac)"

definition format_5f :: "rat \<Rightarrow> string" where
  "format_5f v = fixed5 (rhe (v * 10 ^ 5))"

definition maxint :: "string \<Rightarrow> int res" where
  "maxint s = (if length s > 5 then Inr 99999 else py_int s)"

text \<open>
  The two divisions and the scaling are float operations, each rounded. Neither count is
  negative where the code calls \<open>ratio\<close>; the sign of a rounded negative zero is not modelled.
\<close>

definition ratio :: "int \<Rightarrow> int \<Rightarrow> string" where
  "ratio x y =
     (if x = y then ''100''
      else if x = 0 \<or> y = 0 then ''0''
      else format_5f (py_round5 (fl (fl (fl (of_int x) / fl (of_int y)) * 100))))"

text \<open>The number that \<open>ratio\<close> prints, in units of 0.00001 percent.\<close>

definition pct5 :: "int \<Rightarrow> int \<Rightarrow> int" where
  "pct5 x y = rhe (fl (fl (fl (of_int x) / fl (of_int y)) * 100) * 10 ^ 5)"

lemma fl_int: "0 \<le> x \<Longrightarrow> x < 2 ^ 53 \<Longrightarrow> fl (of_int x) = of_int x"
proof -
  assume x: "0 \<le> x" "x < 2 ^ 53"
  then have "nat x < 2 ^ 53" by (simp add: nat_less_iff)
  from fl_of_nat [OF this] x show ?thesis by simp
qed

lemma fl_numeral [simp]: "fl 1 = 1" "fl 100 = 100"
  using fl_of_nat [of 1] fl_of_nat [of 100] by simp_all

lemma quot_bounds:
  assumes "0 \<le> x" "x \<le> y" "0 < y" "y < 2 ^ 53"
  shows "0 \<le> fl (fl (of_int x) / fl (of_int y))" "fl (fl (of_int x) / fl (of_int y)) \<le> 1"
proof -
  have q: "0 \<le> (of_int x :: rat) / of_int y" "(of_int x :: rat) / of_int y \<le> 1"
    using assms by (simp_all add: divide_le_eq)
  from fl_nonneg_mono [OF _ q(1)] fl_nonneg_mono [OF q]
  show "0 \<le> fl (fl (of_int x) / fl (of_int y))" "fl (fl (of_int x) / fl (of_int y)) \<le> 1"
    using assms by (simp_all add: fl_int)
qed

lemma pct5_bounds:
  assumes "0 \<le> x" "x \<le> y" "0 < y" "y < 2 ^ 53"
  shows "0 \<le> pct5 x y" "pct5 x y \<le> 10 ^ 7"
proof -
  let ?q = "fl (fl (of_int x) / fl (of_int y))"
  have "0 \<le> ?q * 100" "?q * 100 \<le> 100" using quot_bounds [OF assms] by simp_all
  then have "0 \<le> fl (?q * 100)" "fl (?q * 100) \<le> 100"
    using fl_nonneg_mono [of 0 "?q * 100"] fl_nonneg_mono [of "?q * 100" 100] by simp_all
  then have "0 \<le> rhe (fl (?q * 100) * 10 ^ 5) \<and> rhe (fl (?q * 100) * 10 ^ 5) \<le> 10 ^ 7"
    by (intro rhe_bounds) auto
  then show "0 \<le> pct5 x y" "pct5 x y \<le> 10 ^ 7" by (simp_all add: pct5_def)
qed

lemma pct5_mono:
  assumes "0 \<le> x" "x \<le> x'" "x' \<le> y" "0 < y" "y < 2 ^ 53"
  shows "pct5 x y \<le> pct5 x' y"
proof -
  have "fl (fl (of_int x) / fl (of_int y)) \<le> fl (fl (of_int x') / fl (of_int y))"
    using assms by (intro fl_nonneg_mono) (simp_all add: fl_int divide_right_mono)
  then have "fl (fl (fl (of_int x) / fl (of_int y)) * 100) \<le> fl (fl (fl (of_int x') / fl (of_int y)) * 100)"
    using assms quot_bounds(1) [of x y] by (intro fl_nonneg_mono) simp_all
  then show ?thesis unfolding pct5_def by (intro rhe_mono) simp
qed

lemma abs_sum3_le:
  fixes t :: rat
  assumes "t = a + b + c" "\<bar>a\<bar> \<le> A" "\<bar>c\<bar> \<le> C" "A + B + C \<le> D" "\<bar>b\<bar> \<le> B"
  shows "\<bar>t\<bar> \<le> D"
  using assms by linarith

lemma pct5_accurate:
  assumes "0 < x" "x < y" "y < 2 ^ 53"
  shows "\<bar>of_int (pct5 x y) / 10 ^ 5 - 100 * (of_int x / of_int y)\<bar> \<le> (50001 / 10 ^ 10 :: rat)"
proof -
  define q :: rat where "q = of_int x / of_int y"
  define u where "u = fl q"
  define v where "v = fl (u * 100)"
  have q: "0 \<le> q" "q \<le> 1" using assms by (simp_all add: q_def divide_le_eq)
  have u01: "0 \<le> u" "u \<le> 1"
    using fl_nonneg_mono [OF _ q(1)] fl_nonneg_mono [OF q] by (simp_all add: u_def)
  have "\<bar>u - q\<bar> \<le> q / 2 ^ 53" unfolding u_def by (rule fl_error [OF q(1)])
  with q have e1: "\<bar>u - q\<bar> \<le> 1 / 2 ^ 53" by (simp add: field_simps)
  have "\<bar>v - u * 100\<bar> \<le> (u * 100) / 2 ^ 53" unfolding v_def using u01 by (intro fl_error) simp
  with u01 have e2: "\<bar>v - u * 100\<bar> \<le> 100 / 2 ^ 53" by (simp add: field_simps)
  have e3: "\<bar>of_int (rhe (v * 10 ^ 5)) - v * 10 ^ 5\<bar> \<le> 1/2" by (rule rhe_error)
  have p: "pct5 x y = rhe (v * 10 ^ 5)"
    using assms by (simp add: pct5_def v_def u_def q_def fl_int)
  have "of_int (pct5 x y) / 10 ^ 5 - 100 * q
      = (of_int (rhe (v * 10 ^ 5)) - v * 10 ^ 5) / 10 ^ 5 + (v - u * 100) + 100 * (u - q)"
    by (simp add: p field_simps)
  moreover have "\<bar>(of_int (rhe (v * 10 ^ 5)) - v * 10 ^ 5) / 10 ^ 5\<bar> \<le> 1 / (2 * 10 ^ 5)"
    using e3 by (simp add: abs_divide field_simps)
  moreover have "\<bar>100 * (u - q)\<bar> \<le> 100 / 2 ^ 53"
    unfolding abs_mult using mult_left_mono [OF e1, of 100] by simp
  moreover have "1 / (2 * 10 ^ 5) + 100 / 2 ^ 53 + 100 / 2 ^ 53 \<le> (50001 / 10 ^ 10 :: rat)" by simp
  ultimately show ?thesis using e2 unfolding q_def [symmetric] by (rule abs_sum3_le)
qed

text \<open>Formatting the rounded double prints exactly the rounded number.\<close>

lemma round5_exact:
  assumes "0 \<le> n" "n \<le> 10 ^ 7"
  shows "rhe (fl (of_int n / 10 ^ 5) * 10 ^ 5) = n"
proof (rule rhe_near)
  let ?r = "of_int n / 10 ^ 5 :: rat"
  have "0 \<le> ?r" using assms by simp
  then have "\<bar>fl ?r - ?r\<bar> \<le> ?r / 2 ^ 53" by (rule fl_error)
  also have "?r / 2 ^ 53 \<le> 1 / 10 ^ 10" using assms by (simp add: field_simps)
  finally have "\<bar>fl ?r - ?r\<bar> \<le> 1 / 10 ^ 10" .
  then have "\<bar>fl ?r * 10 ^ 5 - of_int n\<bar> \<le> 1 / 10 ^ 5" by (simp add: abs_le_iff field_simps)
  then show "\<bar>fl ?r * 10 ^ 5 - of_int n\<bar> < 1 / 2" by (simp add: abs_le_iff)
qed

lemma ratio_pct5:
  assumes "0 < x" "x < y" "y < 2 ^ 53"
  shows "ratio x y = fixed5 (pct5 x y)"
proof -
  have "0 \<le> pct5 x y" "pct5 x y \<le> 10 ^ 7" using pct5_bounds [of x y] assms by simp_all
  from round5_exact [OF this] show ?thesis
    using assms by (simp add: ratio_def format_5f_def py_round5_def pct5_def)
qed


section \<open>Properties\<close>

text \<open>
  C25. For counts below 2^53 the double arithmetic of \<open>ratio\<close> prints the percentage
  with an error of at most 5.0001e-6, that is, correctly rounded to five decimals but for
  0.0001 units of the last place; and a file of fewer than 19,990,000 lines that is not fully
  covered is never reported as 100.00000.
\<close>

theorem ratio_accurate:
  assumes "0 < x" "x < y" "y < 2 ^ 53"
  shows "\<exists>n. ratio x y = fixed5 n \<and> 0 \<le> n \<and> n \<le> 10 ^ 7 \<and>
    \<bar>of_int n / 10 ^ 5 - 100 * (of_int x / of_int y)\<bar> \<le> (50001 / 10 ^ 10 :: rat) \<and> (y < 19990000 \<longrightarrow> n < 10 ^ 7)"
proof -
  let ?n = "pct5 x y"
  have b: "0 \<le> ?n" "?n \<le> 10 ^ 7" using pct5_bounds [of x y] assms by simp_all
  note acc = pct5_accurate [OF assms]
  have "?n < 10 ^ 7" if "y < 19990000"
  proof (rule ccontr)
    assume "\<not> ?n < 10 ^ 7"
    with b have "?n = 10 ^ 7" by simp
    then have "of_int ?n / 10 ^ 5 = (100 :: rat)" by simp
    with acc have "\<bar>100 - 100 * (of_int x / of_int y)\<bar> \<le> (50001 / 10 ^ 10 :: rat)" by metis
    then have "100 - 100 * (of_int x / of_int y) \<le> (50001 / 10 ^ 10 :: rat)" by linarith
    moreover have "(of_int x / of_int y :: rat) \<le> 1 - 1 / of_int y"
    proof -
      have "(of_int x :: rat) \<le> of_int (y - 1)" using assms(2) by (simp only: of_int_le_iff)
      then show ?thesis using assms by (simp add: divide_simps)
    qed
    ultimately have "100 * (1 / of_int y) \<le> (50001 / 10 ^ 10 :: rat)" by linarith
    then have "(100 :: rat) / of_int y \<le> 50001 / 10 ^ 10" by simp
    moreover have "(50001 / 10 ^ 10 :: rat) < 100 / 19990000" by simp
    moreover have "(100 :: rat) / 19990000 \<le> 100 / of_int y"
      using that assms by (intro divide_left_mono) simp_all
    ultimately show False by linarith
  qed
  then show ?thesis using ratio_pct5 [OF assms] b acc by blast
qed

theorem ratio_accurate_witness:
  "\<exists>n. ratio 2 3 = fixed5 n \<and> \<bar>of_int n / 10 ^ 5 - 200 / 3\<bar> \<le> (50001 / 10 ^ 10 :: rat) \<and> n < 10 ^ 7"
  using ratio_accurate [of 2 3] by auto

end
