(* ===== verification/Path_Map.thy ===== *)
theory Path_Map
  imports Py_String Py_Dict Py_Float "HOL-Library.Sublist"
begin

text \<open>
  The tree of the files of a repository, against which the paths of coverage reports are resolved
  (apps/worker/helpers/pathmap.py), with the part of \<open>difflib.SequenceMatcher\<close> that ranks several
  candidates. A lookup can change the tree: \<open>_recursive_lookup\<close> extends a list of results that may be
  the \<open>full_paths\<close> of a node. So the lookup returns the tree it leaves behind.
\<close>

section \<open>\<open>difflib.SequenceMatcher(None, a, b).ratio()\<close>\<close>

text \<open>
  Characters that occur in more than one percent of a second sequence of at least 200 characters
  are \<open>popular\<close> and start no match.
\<close>

definition popular :: "string \<Rightarrow> char \<Rightarrow> bool" where
  "popular b c \<longleftrightarrow> 200 \<le> length b \<and> length b div 100 + 1 < length (filter ((=) c) b)"

text \<open>
  One row of \<open>find_longest_match\<close>: \<open>old\<close> holds for every index of \<open>b\<close> the length of the match
  that ends there and at the previous character of \<open>a\<close>; the best match is \<open>(i, j, size)\<close>.
\<close>

fun match_row :: "(char \<Rightarrow> bool) \<Rightarrow> char \<Rightarrow> nat \<Rightarrow> nat \<Rightarrow> nat \<Rightarrow> nat list \<Rightarrow> string \<Rightarrow> nat \<times> nat \<times> nat \<Rightarrow> nat list \<times> nat \<times> nat \<times> nat" where
  "match_row pop x i j diag old [] best = ([], best)"
| "match_row pop x i j diag old (y # b) best =
     (let k = (if x = y \<and> \<not> pop y then diag + 1 else 0);
          best' = (if snd (snd best) < k then (i + 1 - k, j + 1 - k, k) else best);
          (row, res) = match_row pop x i (j + 1) (case old of [] \<Rightarrow> 0 | d # _ \<Rightarrow> d) (drop 1 old) b best'
      in (k # row, res))"

fun match_rows :: "(char \<Rightarrow> bool) \<Rightarrow> nat \<Rightarrow> string \<Rightarrow> nat list \<Rightarrow> string \<Rightarrow> nat \<times> nat \<times> nat \<Rightarrow> nat \<times> nat \<times> nat" where
  "match_rows pop i [] old b best = best"
| "match_rows pop i (x # a) old b best =
     (let (row, best') = match_row pop x i 0 0 old b best in match_rows pop (i + 1) a row b best')"

fun extend_left :: "string \<Rightarrow> string \<Rightarrow> nat \<Rightarrow> nat \<Rightarrow> nat \<Rightarrow> nat \<times> nat \<times> nat" where
  "extend_left a b i j k =
     (if 0 < i \<and> 0 < j \<and> a ! (i - 1) = b ! (j - 1) then extend_left a b (i - 1) (j - 1) (k + 1) else (i, j, k))"

declare extend_left.simps [simp del]

definition find_longest_match :: "(char \<Rightarrow> bool) \<Rightarrow> string \<Rightarrow> string \<Rightarrow> nat \<times> nat \<times> nat" where
  "find_longest_match pop a b =
     (let (i, j, k) = match_rows pop 0 a [] b (0, 0, 0);
          (i', j', k') = extend_left a b i j k
      in (i', j', k' + common_prefix (drop (i' + k') a) (drop (j' + k') b)))"

lemma match_row_bound:
  assumes "match_row pop x i j diag old b best = (row, bi, bj, bk)"
    and "diag \<le> i" "\<forall>k \<in> set old. k \<le> i" "fst best + snd (snd best) \<le> i + 1"
  shows "(\<forall>k \<in> set row. k \<le> i + 1) \<and> bi + bk \<le> i + 1"
  using assms
proof (induction b arbitrary: j diag old best row)
  case Nil
  then show ?case by auto
next
  case (Cons y b)
  let ?k = "if x = y \<and> \<not> pop y then diag + 1 else 0"
  let ?best = "if snd (snd best) < ?k then (i + 1 - ?k, j + 1 - ?k, ?k) else best"
  let ?diag = "case old of [] \<Rightarrow> 0 | d # _ \<Rightarrow> d"
  obtain row' where r: "match_row pop x i (j + 1) ?diag (drop 1 old) b ?best = (row', bi, bj, bk)" "row = ?k # row'"
    using Cons.prems(1) by (auto simp: Let_def split: prod.splits)
  have "(\<forall>k \<in> set row'. k \<le> i + 1) \<and> bi + bk \<le> i + 1"
    by (rule Cons.IH [OF r(1)]) (use Cons.prems in \<open>auto split: list.splits dest: in_set_dropD\<close>)
  then show ?case using r(2) Cons.prems(2) by auto
qed

lemma match_rows_bound:
  "\<forall>k \<in> set old. k \<le> i \<Longrightarrow> fst best + snd (snd best) \<le> i \<Longrightarrow>
   match_rows pop i a old b best = (bi, bj, bk) \<Longrightarrow> bi + bk \<le> i + length a"
proof (induction pop i a old b best rule: match_rows.induct)
  case (1 pop i old b best)
  then show ?case by simp
next
  case (2 pop i x a old b best)
  obtain row ci cj ck where r: "match_row pop x i 0 0 old b best = (row, ci, cj, ck)"
    by (metis prod.exhaust)
  have "(\<forall>k \<in> set row. k \<le> i + 1) \<and> ci + ck \<le> i + 1"
    by (rule match_row_bound [OF r]) (use 2 in auto)
  with 2 r show ?case by auto
qed

lemma extend_left_sum: "extend_left a b i j k = (i', j', k') \<Longrightarrow> i' + k' = i + k"
proof (induction a b i j k rule: extend_left.induct)
  case (1 a b i j k)
  then show ?case by (cases "0 < i \<and> 0 < j \<and> a ! (i - 1) = b ! (j - 1)") (auto simp: extend_left.simps [of a b i j k])
qed

lemma common_prefix_le: "common_prefix xs ys \<le> length xs"
  by (induction xs ys rule: common_prefix.induct) auto

text \<open>The match lies within the first string, which gives the termination of the search.\<close>

lemma find_longest_match_bound: "find_longest_match pop a b = (i, j, k) \<Longrightarrow> i + k \<le> length a"
proof -
  assume f: "find_longest_match pop a b = (i, j, k)"
  obtain i0 j0 k0 where r: "match_rows pop 0 a [] b (0, 0, 0) = (i0, j0, k0)" by (metis prod.exhaust)
  obtain i' j' k' where e: "extend_left a b i0 j0 k0 = (i', j', k')" by (metis prod.exhaust)
  have "i0 + k0 \<le> length a" using match_rows_bound [OF _ _ r] by simp
  with extend_left_sum [OF e] have "i' + k' \<le> length a" by simp
  with f r e common_prefix_le [of "drop (i' + k') a" "drop (j' + k') b"] show ?thesis
    by (auto simp: find_longest_match_def Let_def)
qed

text \<open>The number of matching characters: the sizes of all matching blocks.\<close>

function matched :: "(char \<Rightarrow> bool) \<Rightarrow> string \<Rightarrow> string \<Rightarrow> nat" where
  "matched pop a b =
     (case find_longest_match pop a b of (i, j, k) \<Rightarrow>
        if k = 0 then 0
        else k + matched pop (take i a) (take j b) + matched pop (drop (i + k) a) (drop (j + k) b))"
  by pat_completeness auto
termination
  by (relation "measure (\<lambda>(pop, a, b). length a)")
    (auto dest!: sym [of _ "find_longest_match _ _ _"] find_longest_match_bound)

declare matched.simps [simp del]

text \<open>\<open>2.0 * matches / length\<close> in double precision; 1.0 for two empty strings.\<close>

definition sm_ratio :: "string \<Rightarrow> string \<Rightarrow> rat" where
  "sm_ratio a b =
     (let n = length a + length b
      in if n = 0 then 1 else fl (of_nat (2 * matched (popular b) a b) / of_nat n))"

section \<open>Cleaning and comparing paths\<close>

definition clean_path_str :: "string list \<Rightarrow> string \<Rightarrow> string res" where
  "clean_path_str cwd path =
     relpath cwd (replace_str [CHR 0x5C] ''/'' (replace_str [CHR 0x5C, CHR '' ''] '' ''
       (replace_str [CHR 0x0D] [] (replace_str ''**/'' [] (strip path)))))"

definition path_parts :: "string \<Rightarrow> string list" where
  "path_parts p = split_all (CHR ''/'') p"

definition check_ancestors :: "string \<Rightarrow> string \<Rightarrow> nat \<Rightarrow> bool" where
  "check_ancestors path mtch ancestors =
     (let pl = lower path; ml = lower mtch
      in pl = ml \<or>
         (length (path_parts ml) < length (path_parts pl) \<and> endswith pl ml) \<or>
         endswith ml (join_with (CHR ''/'') (last_n (ancestors + 1) (path_parts pl))))"

fun best_match_from :: "string \<Rightarrow> rat \<times> string \<Rightarrow> string list \<Rightarrow> rat \<times> string" where
  "best_match_from path best [] = best"
| "best_match_from path best (p # ps) =
     (let r = sm_ratio path p in best_match_from path (if fst best < r then (r, p) else best) ps)"

definition get_best_match :: "string \<Rightarrow> string list \<Rightarrow> string" where
  "get_best_match path possibilities = snd (best_match_from path (-1, []) possibilities)"

section \<open>The tree\<close>

datatype node = Node (full_paths: "string list") (children: "(string \<times> node) list")

definition empty_node :: node where
  "empty_node = Node [] []"

fun node_insert :: "string list \<Rightarrow> string \<Rightarrow> node \<Rightarrow> node" where
  "node_insert [] path (Node fs cs) = Node (fs @ [path]) cs"
| "node_insert (c # comps) path (Node fs cs) =
     Node fs (dict_set cs (lower c)
       (node_insert comps path (case dict_get cs (lower c) of None \<Rightarrow> empty_node | Some n \<Rightarrow> n)))"

definition tree_insert :: "node \<Rightarrow> string \<Rightarrow> node" where
  "tree_insert tree path = node_insert (rev (path_parts path)) path tree"

definition Tree :: "string list \<Rightarrow> node" where
  "Tree paths = foldl tree_insert empty_node paths"

text \<open>\<open>_drill\<close>: down a straight branch to the first node with paths.\<close>

fun drill :: "node \<Rightarrow> string list option" where
  "drill (Node fs [(k, Node fs' cs')]) = (if fs' \<noteq> [] then Some fs' else drill (Node fs' cs'))"
| "drill _ = None"

text \<open>
  \<open>_recursive_lookup\<close> from \<open>node\<close>. The list \<open>results\<close> of the code is the \<open>full_paths\<close> list of the
  deepest node on the way that has any, or a fresh list above the first such node. The result has
  the paths by which the list of the caller is extended (the list is shared, so the node that owns it
  is extended too), the list of a node at or below a child if there is one, and the node afterwards.
\<close>

fun recursive_lookup :: "node \<Rightarrow> string list \<Rightarrow> bool \<Rightarrow> bool \<Rightarrow> string list \<times> string list option \<times> node" where
  "recursive_lookup (Node fs cs) [] at_end mtch =
     (if \<not> at_end \<and> mtch then (case drill (Node fs cs) of None \<Rightarrow> [] | Some ps \<Rightarrow> ps) else [], None, Node fs cs)"
| "recursive_lookup (Node fs cs) (c # comps) at_end mtch =
     (case dict_get cs (lower c) of
        None \<Rightarrow> (if \<not> at_end \<and> mtch then (case drill (Node fs cs) of None \<Rightarrow> [] | Some ps \<Rightarrow> ps) else [], None, Node fs cs)
      | Some child \<Rightarrow>
          (case recursive_lookup child comps (full_paths child \<noteq> []) True of
             (ext, own, Node fs' cs') \<Rightarrow>
               if own \<noteq> None then ([], own, Node fs (dict_set cs (lower c) (Node fs' cs')))
               else if full_paths child \<noteq> []
                 then ([], Some (fs' @ ext), Node fs (dict_set cs (lower c) (Node (fs' @ ext) cs')))
                 else (ext, None, Node fs (dict_set cs (lower c) (Node fs' cs')))))"

text \<open>\<open>min(xs, key=f)\<close>: the first element with the least key.\<close>

fun min_by :: "('a \<Rightarrow> int) \<Rightarrow> 'a \<Rightarrow> 'a list \<Rightarrow> 'a" where
  "min_by f x [] = x"
| "min_by f x (y # ys) = min_by f (if f y < f x then y else x) ys"

definition closest_length :: "nat \<Rightarrow> string list \<Rightarrow> string" where
  "closest_length ancestors results =
     (let lens = map length results;
          best = min_by (\<lambda>x. \<bar>int x - int ancestors\<bar>) (hd lens) (tl lens)
      in hd (filter (\<lambda>x. length x = best) results))"

text \<open>\<open>lookup\<close>: the candidate chosen among the results, and the tree afterwards.\<close>

definition pick :: "string \<Rightarrow> nat option \<Rightarrow> string list \<Rightarrow> string option" where
  "pick path ancestors results =
     (case results of
        [] \<Rightarrow> None
      | [r] \<Rightarrow> Some r
      | _ \<Rightarrow>
          (case ancestors of
             Some n \<Rightarrow>
               if startswith (replace_str ''.'' [] path) ''/'' \<and> n \<noteq> 0 then Some (closest_length n results)
               else Some (get_best_match path (rev results))
           | None \<Rightarrow> Some (get_best_match path (rev results))))"

definition lookup :: "node \<Rightarrow> string \<Rightarrow> nat option \<Rightarrow> string option \<times> node" where
  "lookup tree path ancestors =
     (case recursive_lookup tree (rev (path_parts path)) False False of
        (ext, own, tree') \<Rightarrow> (pick path ancestors (case own of None \<Rightarrow> ext | Some rs \<Rightarrow> rs), tree'))"

definition resolve_path :: "string list \<Rightarrow> node \<Rightarrow> string \<Rightarrow> nat option \<Rightarrow> (string option \<times> node) res" where
  "resolve_path cwd tree path ancestors =
     bind_res (clean_path_str cwd path) (\<lambda>p.
       case lookup tree p ancestors of
         (None, tree') \<Rightarrow> Inr (None, tree')
       | (Some hit, tree') \<Rightarrow>
           (if hit = [] then Inr (None, tree')
            else (case ancestors of
                Some n \<Rightarrow> Inr (if n \<noteq> 0 \<and> \<not> check_ancestors p hit n then None else Some hit, tree')
              | None \<Rightarrow> Inr (Some hit, tree'))))"

section \<open>Lemmas\<close>

text \<open>The key of a path in the tree: its components from the right, in lower case.\<close>

definition rkey :: "string \<Rightarrow> string list" where
  "rkey p = map lower (rev (path_parts p))"

lemma sm_ratio_nonneg: "0 \<le> sm_ratio a b"
proof -
  have "0 \<le> fl q" if "0 \<le> q" for q using fl_nonneg_mono [of 0 q] that by simp
  then show ?thesis by (simp add: sm_ratio_def Let_def)
qed

lemma best_match_from_in:
  "0 \<le> fst best \<and> snd best \<in> A \<or> fst best < 0 \<and> ps \<noteq> [] \<Longrightarrow> set ps \<subseteq> A \<Longrightarrow> snd (best_match_from path best ps) \<in> A"
proof (induction path best ps rule: best_match_from.induct)
  case (1 path best)
  then show ?case by auto
next
  case (2 path best p ps)
  have "0 \<le> sm_ratio path p" by (rule sm_ratio_nonneg)
  with 2 show ?case by (auto simp: Let_def)
qed

lemma get_best_match_in: "ps \<noteq> [] \<Longrightarrow> get_best_match path ps \<in> set ps"
  unfolding get_best_match_def by (rule best_match_from_in) simp_all

lemma min_by_in: "min_by f x ys \<in> set (x # ys)"
proof (induction f x ys rule: min_by.induct)
  case (2 f x y ys)
  then show ?case by (cases "f y < f x") auto
qed simp

lemma closest_length_in: "results \<noteq> [] \<Longrightarrow> closest_length n results \<in> set results"
proof -
  assume "results \<noteq> []"
  then have "min_by (\<lambda>x. \<bar>int x - int n\<bar>) (hd (map length results)) (tl (map length results)) \<in> set (map length results)"
    (is "?best \<in> _") using min_by_in [of _ "hd (map length results)" "tl (map length results)"] by simp
  then have "filter (\<lambda>x. length x = ?best) results \<noteq> []" by (auto simp: filter_empty_conv)
  then have "hd (filter (\<lambda>x. length x = ?best) results) \<in> set (filter (\<lambda>x. length x = ?best) results)" by (rule hd_in_set)
  then show ?thesis by (simp add: closest_length_def Let_def)
qed

lemma pick_in: "pick path anc rs = Some hit \<Longrightarrow> hit \<in> set rs"
  using closest_length_in [of rs] get_best_match_in [of "rev rs" path]
  by (auto simp: pick_def split: list.splits option.splits if_splits)

lemma pick_one [simp]: "pick path anc [r] = Some r"
  by (simp add: pick_def)

subsection \<open>Every path stays below its key\<close>

fun node_ok :: "string set \<Rightarrow> string list \<Rightarrow> node \<Rightarrow> bool" where
  "node_ok toc ks (Node fs cs) \<longleftrightarrow>
     (\<forall>p \<in> set fs. p \<in> toc \<and> prefix ks (rkey p)) \<and> wf_dict cs \<and> (\<forall>(k, n) \<in> set cs. node_ok toc (ks @ [k]) n)"

lemma node_ok_child: "node_ok toc ks (Node fs cs) \<Longrightarrow> dict_get cs k = Some n \<Longrightarrow> node_ok toc (ks @ [k]) n"
  by (auto dest!: dict_get_in)

lemma node_ok_set_child:
  "node_ok toc ks (Node fs cs) \<Longrightarrow> node_ok toc (ks @ [k]) n \<Longrightarrow> node_ok toc ks (Node fs (dict_set cs k n))"
  by (auto simp: set_dict_set)

lemma node_ok_empty [simp]: "node_ok toc ks empty_node"
  by (simp add: empty_node_def)

lemma node_ok_insert:
  "node_ok toc ks n \<Longrightarrow> p \<in> toc \<Longrightarrow> rkey p = ks @ map lower comps \<Longrightarrow> node_ok toc ks (node_insert comps p n)"
proof (induction comps p n arbitrary: ks rule: node_insert.induct)
  case (1 path fs cs)
  then show ?case by auto
next
  case (2 c comps path fs cs)
  let ?child = "case dict_get cs (lower c) of None \<Rightarrow> empty_node | Some n \<Rightarrow> n"
  have "node_ok toc (ks @ [lower c]) ?child"
    using 2(2) node_ok_child by (auto split: option.split simp del: node_ok.simps)
  then have "node_ok toc (ks @ [lower c]) (node_insert comps path ?child)" using 2 by simp
  with 2(2) show ?case by (simp only: node_insert.simps node_ok_set_child)
qed

lemma node_ok_Tree: "node_ok (set paths) [] (Tree paths)"
proof -
  have ins: "node_ok A [] (tree_insert n p)" if "node_ok A [] n" "p \<in> A" for A n p
    using that by (simp add: tree_insert_def rkey_def node_ok_insert)
  have "node_ok A [] (foldl tree_insert n ps)" if "set ps \<subseteq> A" "node_ok A [] n" for A n ps
    using that by (induction ps arbitrary: n) (simp_all add: ins)
  then show ?thesis by (simp add: Tree_def)
qed

lemma drill_ok: "node_ok toc ks n \<Longrightarrow> drill n = Some ps \<Longrightarrow> \<forall>p \<in> set ps. p \<in> toc \<and> prefix ks (rkey p)"
proof (induction n arbitrary: ks rule: drill.induct)
  case (1 fs k fs' cs')
  then have c: "node_ok toc (ks @ [k]) (Node fs' cs')" by simp
  show ?case
  proof (cases "fs' = []")
    case True
    with 1(1) [OF _ c] 1(3) have "\<forall>p \<in> set ps. p \<in> toc \<and> prefix (ks @ [k]) (rkey p)" by simp
    then show ?thesis by (auto dest: append_prefixD)
  next
    case False
    with 1 c show ?thesis by (auto dest: append_prefixD)
  qed
qed simp_all

lemma recursive_lookup_ok:
  assumes "recursive_lookup n comps e m = (ext, own, n')" "node_ok toc ks n"
  shows "node_ok toc ks n' \<and> (\<forall>p \<in> set ext. p \<in> toc \<and> prefix ks (rkey p)) \<and>
    (\<not> m \<longrightarrow> (\<forall>p \<in> set ext. comps \<noteq> [] \<and> prefix (ks @ [lower (hd comps)]) (rkey p))) \<and>
    (\<forall>rs. own = Some rs \<longrightarrow> comps \<noteq> [] \<and> (\<forall>p \<in> set rs. p \<in> toc \<and> prefix (ks @ [lower (hd comps)]) (rkey p)))"
  using assms
proof (induction n comps e m arbitrary: ks ext own n' rule: recursive_lookup.induct)
  case (1 fs cs e m)
  then show ?case using drill_ok [OF 1(2)] by (auto split: if_splits option.splits)
next
  case (2 fs cs c comps e m)
  show ?case
  proof (cases "dict_get cs (lower c)")
    case None
    with 2(2) show ?thesis using drill_ok [OF 2(3)] 2(3) by (auto split: if_splits option.splits)
  next
    case (Some child)
    obtain x o1 fs' cs' where r: "recursive_lookup child comps (full_paths child \<noteq> []) True = (x, o1, Node fs' cs')"
      by (metis prod.exhaust node.exhaust)
    note IH = 2(1) [OF Some r node_ok_child [OF 2(3) Some]]
    have old: "\<forall>p \<in> set fs'. p \<in> toc \<and> prefix (ks @ [lower c]) (rkey p)" using IH by simp
    have sub: "prefix (ks @ [lower c]) q \<Longrightarrow> prefix ks q" for q by (rule append_prefixD)
    have sub2: "prefix (ks @ [a, b]) q \<Longrightarrow> prefix (ks @ [a]) q" for a b q
      using append_prefixD [of "ks @ [a]" "[b]" q] by simp
    have ok1: "node_ok toc ks (Node fs (dict_set cs (lower c) (Node fs' cs')))"
      using IH by (intro node_ok_set_child [OF 2(3)]) simp
    have ok2: "node_ok toc ks (Node fs (dict_set cs (lower c) (Node (fs' @ x) cs')))"
      using IH by (intro node_ok_set_child [OF 2(3)]) auto
    show ?thesis
    proof (cases o1)
      case (Some rs)
      then have "\<forall>p \<in> set rs. p \<in> toc \<and> prefix (ks @ [lower c]) (rkey p)" using IH sub2 by fastforce
      then show ?thesis using Some 2(2) \<open>dict_get cs (lower c) = Some child\<close> r ok1 by auto
    next
      case None
      then show ?thesis using 2(2) Some r IH ok1 ok2 old
        by (auto split: if_splits dest: sub simp del: node_ok.simps)
    qed
  qed
qed

lemma lookup_ok:
  assumes "lookup n path anc = (res, n')" "node_ok toc [] n"
  shows "node_ok toc [] n' \<and> (\<forall>hit. res = Some hit \<longrightarrow> hit \<in> toc \<and> prefix [lower (last (path_parts path))] (rkey hit))"
proof -
  obtain ext own where r: "recursive_lookup n (rev (path_parts path)) False False = (ext, own, n')"
    "res = pick path anc (case own of None \<Rightarrow> ext | Some rs \<Rightarrow> rs)"
    using assms(1) by (auto simp: lookup_def split: prod.splits)
  have hd: "hd (rev (path_parts path)) = last (path_parts path)" by (simp add: hd_rev path_parts_def)
  have "hit \<in> toc \<and> prefix [lower (last (path_parts path))] (rkey hit)" if "res = Some hit" for hit
  proof -
    have "hit \<in> set (case own of None \<Rightarrow> ext | Some rs \<Rightarrow> rs)" using that r(2) by (intro pick_in) simp
    then show ?thesis using recursive_lookup_ok [OF r(1) assms(2)] hd by (cases own) auto
  qed
  then show ?thesis using recursive_lookup_ok [OF r(1) assms(2)] by blast
qed

lemma lookups_ok:
  "node_ok toc [] n \<Longrightarrow> node_ok toc [] (foldl (\<lambda>t q. snd (lookup t (fst q) (snd q))) n qs)"
proof (induction qs arbitrary: n)
  case (Cons q qs)
  have "node_ok toc [] (snd (lookup n (fst q) (snd q)))"
    using lookup_ok [OF prod.collapse [symmetric] Cons.prems] by blast
  with Cons show ?case by simp
qed simp

lemma prefix_rkey_last: "prefix [x] (rkey hit) \<longleftrightarrow> lower (last (path_parts hit)) = x"
proof -
  have "rkey hit = lower (last (path_parts hit)) # map lower (rev (butlast (path_parts hit)))"
    using append_butlast_last_id [of "path_parts hit"]
    unfolding rkey_def by (metis list.simps(9) path_parts_def rev_eq_Cons_iff split_all_nonempty rev_rev_ident)
  then show ?thesis by auto
qed

subsection \<open>What a fresh tree holds\<close>

fun paths_at :: "node \<Rightarrow> string list \<Rightarrow> string list" where
  "paths_at (Node fs cs) [] = fs"
| "paths_at (Node fs cs) (k # ks) = (case dict_get cs k of None \<Rightarrow> [] | Some n \<Rightarrow> paths_at n ks)"

lemma paths_at_empty [simp]: "paths_at empty_node ks = []"
  by (cases ks) (simp_all add: empty_node_def)

lemma paths_at_insert:
  "paths_at (node_insert comps p n) ks = paths_at n ks @ (if ks = map lower comps then [p] else [])"
proof (induction comps p n arbitrary: ks rule: node_insert.induct)
  case (1 path fs cs)
  then show ?case by (cases ks) auto
next
  case (2 c comps path fs cs)
  show ?case
  proof (cases ks)
    case Nil
    then show ?thesis by simp
  next
    case (Cons k ks')
    then show ?thesis using 2 by (auto split: option.splits)
  qed
qed

lemma paths_at_Tree: "paths_at (Tree paths) ks = filter (\<lambda>p. rkey p = ks) paths"
proof -
  have "paths_at (foldl tree_insert n ps) ks = paths_at n ks @ filter (\<lambda>p. rkey p = ks) ps" for n ps
    by (induction ps arbitrary: n) (auto simp: tree_insert_def paths_at_insert rkey_def)
  then show ?thesis by (simp add: Tree_def)
qed

lemma full_paths_at: "full_paths n = paths_at n []"
  by (cases n) simp

lemma recursive_lookup_exact:
  "comps \<noteq> [] \<Longrightarrow> paths_at n (map lower comps) \<noteq> [] \<Longrightarrow>
   \<exists>n'. recursive_lookup n comps e m = ([], Some (paths_at n (map lower comps)), n')"
proof (induction comps arbitrary: n e m)
  case Nil
  then show ?case by simp
next
  case (Cons c comps)
  obtain fs cs where n: "n = Node fs cs" by (cases n)
  with Cons.prems obtain child where child: "dict_get cs (lower c) = Some child" by (auto split: option.splits)
  show ?case
  proof (cases comps)
    case Nil
    obtain fs' cs' where c': "child = Node fs' cs'" by (cases child)
    with Nil Cons.prems n child show ?thesis by auto
  next
    case (Cons c2 comps')
    with Cons.IH [of child "full_paths child \<noteq> []" True] Cons.prems n child obtain n' where
      "recursive_lookup child comps (full_paths child \<noteq> []) True = ([], Some (paths_at child (map lower comps)), n')"
      by auto
    with n child show ?thesis by (cases n') auto
  qed
qed

section \<open>Properties\<close>

text \<open>
  Whatever was looked up before, a path resolves only to a file of the repository, and to one
  whose file name is that of the given path up to case. (The tree may have been changed by the
  earlier lookups.)
\<close>

theorem lookup_in_toc:
  assumes "lookup (foldl (\<lambda>t q. snd (lookup t (fst q) (snd q))) (Tree toc) queries) path ancestors = (Some hit, t')"
  shows "hit \<in> set toc \<and> lower (last (path_parts hit)) = lower (last (path_parts path))"
  using lookup_ok [OF assms lookups_ok [OF node_ok_Tree]] by (simp add: prefix_rkey_last)

theorem lookup_in_toc_witness:
  "\<exists>t'. lookup (Tree [''src/foo/mod.rs'', ''src/foo/bar/mod.rs'']) ''ci/src/foo/MOD.rs'' (Some 1) = (Some ''src/foo/mod.rs'', t')
     \<and> ''src/foo/mod.rs'' \<in> set [''src/foo/mod.rs'', ''src/foo/bar/mod.rs'']"
proof -
  let ?toc = "[''src/foo/mod.rs'', ''src/foo/bar/mod.rs'']"
  have l: "fst (lookup (Tree ?toc) ''ci/src/foo/MOD.rs'' (Some 1)) = Some ''src/foo/mod.rs''" by code_simp
  then obtain t' where t: "lookup (Tree ?toc) ''ci/src/foo/MOD.rs'' (Some 1) = (Some ''src/foo/mod.rs'', t')"
    by (metis prod.collapse)
  with lookup_in_toc [of ?toc "[]" _ _ _ t'] show ?thesis by auto
qed

text \<open>
  A path that is in the repository, up to case, and is the only one of its spelling resolves to
  itself.
\<close>

theorem lookup_exact:
  assumes "p \<in> set toc" "distinct toc" "lower path = lower p" "\<forall>q \<in> set toc. lower q = lower p \<longrightarrow> q = p"
  shows "fst (lookup (Tree toc) path ancestors) = Some p"
proof -
  have key: "rkey q = rkey r \<longleftrightarrow> lower q = lower r" for q r
  proof -
    have lp: "map lower (path_parts s) = path_parts (lower s)" for s
    proof (induction s)
      case (Cons c s)
      obtain w ws where "split_all (CHR ''/'') s = w # ws" by (cases "split_all (CHR ''/'') s") auto
      with Cons show ?case by (auto simp: path_parts_def lower_def split: list.splits)
    qed (simp add: path_parts_def lower_def)
    have "rkey q = rkey r \<longleftrightarrow> path_parts (lower q) = path_parts (lower r)"
      unfolding rkey_def rev_map [symmetric] by (simp add: lp)
    also have "\<dots> \<longleftrightarrow> lower q = lower r" unfolding path_parts_def by (metis join_split)
    finally show ?thesis .
  qed
  have "filter (\<lambda>q. rkey q = rkey path) toc = filter (\<lambda>q. q = p) toc"
    using assms by (intro filter_cong) (auto simp: key)
  also have "\<dots> = [p]" using assms(1,2) by (induction toc) (auto simp: filter_empty_conv)
  finally have "paths_at (Tree toc) (rkey path) = [p]" by (simp add: paths_at_Tree)
  with recursive_lookup_exact [of "rev (path_parts path)" "Tree toc" False False] show ?thesis
    by (auto simp: lookup_def rkey_def path_parts_def)
qed

theorem lookup_exact_witness:
  "fst (lookup (Tree [''src/a.py'', ''a.py'']) ''SRC/a.py'' (Some 1)) = Some ''src/a.py''"
  by (rule lookup_exact) code_simp+

text \<open>
  Resolving a path can change what later paths resolve to: in a repository with the files
  \<open>b.py\<close> and \<open>x/a/b.py\<close> the path \<open>x/z/b.py\<close> resolves to \<open>b.py\<close>, but after \<open>a/b.py\<close> was
  resolved it does not resolve at all, as the list of paths of the node of \<open>b.py\<close> was extended.
\<close>

theorem resolve_changes_tree:
  "(let t = Tree [''b.py'', ''x/a/b.py'']
    in map_res fst (resolve_path [''app''] t ''x/z/b.py'' (Some 1)) = Inr (Some ''b.py'') \<and>
       map_res fst (bind_res (resolve_path [''app''] t ''a/b.py'' (Some 1))
         (\<lambda>(_, t'). resolve_path [''app''] t' ''x/z/b.py'' (Some 1))) = Inr None)"
  by code_simp

end
