(* ===== verification/Report_Types.thy ===== *)
theory Report_Types
  imports Py_Float Py_Dict
begin

text \<open>
  The data of a coverage report (libs/shared/shared/reports/types.py): the coverage value of
  a line, \<open>LineSession\<close>, \<open>ReportLine\<close>, \<open>ReportTotals\<close>, \<open>Change\<close> and \<open>NetworkFile\<close>, with
  the database encoding of totals.
\<close>

section \<open>Coverage values\<close>

text \<open>
  A line's coverage is whatever a language processor or an old report put there: nothing, a
  boolean, a hit count (-1 marks a skipped line), a \<open>Fraction\<close>, a branch string such as
  \<open>''1/2''\<close>, or a list of partials \<open>[start, end, hits]\<close> whose start or end may be missing.
\<close>

type_synonym partial = "int option \<times> int option \<times> int"

datatype cov =
    CovNone
  | CovBool bool
  | CovInt int
  | CovFrac rat
  | CovStr string
  | CovList "partial list"

text \<open>The number a value compares as: \<open>True == 1\<close> and \<open>False == 0\<close> in Python.\<close>

fun cov_num :: "cov \<Rightarrow> rat option" where
  "cov_num (CovBool b) = Some (if b then 1 else 0)"
| "cov_num (CovInt i) = Some (of_int i)"
| "cov_num (CovFrac q) = Some q"
| "cov_num _ = None"

text \<open>Python's \<open>==\<close> and truth value on coverage values.\<close>

definition cov_eq :: "cov \<Rightarrow> cov \<Rightarrow> bool" where
  "cov_eq a b = (case (cov_num a, cov_num b) of (Some x, Some y) \<Rightarrow> x = y | _ \<Rightarrow> a = b)"

definition cov_is :: "cov \<Rightarrow> rat \<Rightarrow> bool" where
  "cov_is a x \<longleftrightarrow> cov_num a = Some x"

fun cov_truthy :: "cov \<Rightarrow> bool" where
  "cov_truthy CovNone = False"
| "cov_truthy (CovBool b) = b"
| "cov_truthy (CovInt i) = (i \<noteq> 0)"
| "cov_truthy (CovFrac q) = (q \<noteq> 0)"
| "cov_truthy (CovStr s) = (s \<noteq> [])"
| "cov_truthy (CovList ps) = (ps \<noteq> [])"

lemma cov_is_simps [simp]:
  "cov_is (CovInt i) x \<longleftrightarrow> of_int i = x"
  "cov_is (CovBool b) x \<longleftrightarrow> (if b then 1 else 0) = x"
  "cov_is (CovFrac q) x \<longleftrightarrow> q = x"
  "\<not> cov_is CovNone x"
  "\<not> cov_is (CovStr s) x"
  "\<not> cov_is (CovList ps) x"
  by (auto simp: cov_is_def)

lemma cov_eq_refl [simp]: "cov_eq a a"
  by (auto simp: cov_eq_def split: option.split)

text \<open>Branch identifiers: numbers, or strings such as \<open>''0:jump''\<close>.\<close>

datatype branch_id = BrInt int | BrStr string

text \<open>Cyclomatic complexity: a number, or a pair (covered, total).\<close>

datatype complexity = CxInt int | CxPair int int

section \<open>Sessions of a line, and lines\<close>

record line_session =
  ls_id :: int
  ls_coverage :: cov
  ls_branches :: "branch_id list option"
  ls_partials :: "partial list option"
  ls_complexity :: "complexity option"

definition LineSession :: "int \<Rightarrow> cov \<Rightarrow> branch_id list option \<Rightarrow> partial list option \<Rightarrow> complexity option \<Rightarrow> line_session" where
  "LineSession i c br pa cx = \<lparr>ls_id = i, ls_coverage = c, ls_branches = br, ls_partials = pa, ls_complexity = cx\<rparr>"

lemma LineSession_simps [simp]:
  "ls_id (LineSession i c br pa cx) = i"
  "ls_coverage (LineSession i c br pa cx) = c"
  "ls_branches (LineSession i c br pa cx) = br"
  "ls_partials (LineSession i c br pa cx) = pa"
  "ls_complexity (LineSession i c br pa cx) = cx"
  by (simp_all add: LineSession_def)

record report_line =
  rl_coverage :: cov
  rl_type :: "string option"
  rl_sessions :: "line_session list"
  rl_complexity :: "complexity option"

text \<open>
  \<open>ReportLine.create\<close>: its sessions are already \<open>LineSession\<close> objects, which are always true,
  so the filter and the conversion of the comprehension leave them as they are.
\<close>

definition ReportLine_create :: "cov \<Rightarrow> string option \<Rightarrow> line_session list \<Rightarrow> complexity option \<Rightarrow> report_line" where
  "ReportLine_create c ty ss cx = \<lparr>rl_coverage = c, rl_type = ty, rl_sessions = ss, rl_complexity = cx\<rparr>"

lemma ReportLine_create_simps [simp]:
  "rl_coverage (ReportLine_create c ty ss cx) = c"
  "rl_type (ReportLine_create c ty ss cx) = ty"
  "rl_sessions (ReportLine_create c ty ss cx) = ss"
  "rl_complexity (ReportLine_create c ty ss cx) = cx"
  by (simp_all add: ReportLine_create_def)

text \<open>\<open>a or b\<close> on optional strings: the empty string is false.\<close>

definition str_or :: "string option \<Rightarrow> string option \<Rightarrow> string option" where
  "str_or a b = (case a of Some (c # s) \<Rightarrow> a | _ \<Rightarrow> b)"

text \<open>
  The tuple forms that are serialised: a session is a pair unless it carries more, and an empty
  list of sessions is written as nothing.
\<close>

datatype session_tuple =
    STPair int cov
  | STFull int cov "branch_id list option" "partial list option" "complexity option"

definition LineSession_astuple :: "line_session \<Rightarrow> session_tuple" where
  "LineSession_astuple s =
     (if ls_branches s = None \<and> ls_partials s = None \<and> ls_complexity s = None
      then STPair (ls_id s) (ls_coverage s)
      else STFull (ls_id s) (ls_coverage s) (ls_branches s) (ls_partials s) (ls_complexity s))"

text \<open>\<open>LineSession(*sess)\<close>, with the defaults of \<open>__init__\<close>.\<close>

fun LineSession_of_tuple :: "session_tuple \<Rightarrow> line_session" where
  "LineSession_of_tuple (STPair i c) = LineSession i c None None None"
| "LineSession_of_tuple (STFull i c br pa cx) = LineSession i c br pa cx"

type_synonym line_tuple = "cov \<times> string option \<times> session_tuple list option \<times> unit option \<times> complexity option"

definition ReportLine_astuple :: "report_line \<Rightarrow> line_tuple" where
  "ReportLine_astuple l =
     (rl_coverage l, rl_type l,
      (if rl_sessions l \<noteq> [] then Some (map LineSession_astuple (rl_sessions l)) else None),
      None, rl_complexity l)"

text \<open>\<open>ReportLine.create(*line)\<close> on such a tuple.\<close>

definition ReportLine_of_tuple :: "line_tuple \<Rightarrow> report_line" where
  "ReportLine_of_tuple t =
     (case t of (c, ty, ss, _, cx) \<Rightarrow>
        ReportLine_create c ty (case ss of None \<Rightarrow> [] | Some xs \<Rightarrow> map LineSession_of_tuple xs) cx)"

section \<open>Totals\<close>

text \<open>
  The value of a field in the tuple form of \<open>ReportTotals\<close>. The coverage is a string
  (\<open>''98.76543''\<close>, \<open>''100''\<close>, \<open>''0''\<close>), nothing, the default \<open>0\<close>, or a float in a difference of totals.
\<close>

datatype fval = VNone | VInt int | VStr string | VFloat rat

record report_totals =
  t_files :: int
  t_lines :: int
  t_hits :: int
  t_misses :: int
  t_partials :: int
  t_coverage :: fval
  t_branches :: int
  t_methods :: int
  t_messages :: int
  t_sessions :: int
  t_complexity :: "int option"
  t_complexity_total :: "int option"
  t_diff :: int

definition zero_totals :: report_totals where
  "zero_totals = \<lparr>t_files = 0, t_lines = 0, t_hits = 0, t_misses = 0, t_partials = 0,
     t_coverage = VInt 0, t_branches = 0, t_methods = 0, t_messages = 0, t_sessions = 0,
     t_complexity = Some 0, t_complexity_total = Some 0, t_diff = 0\<rparr>"

definition default_totals :: report_totals where
  "default_totals = \<lparr>t_files = 0, t_lines = 0, t_hits = 0, t_misses = 0, t_partials = 0,
     t_coverage = VNone, t_branches = 0, t_methods = 0, t_messages = 0, t_sessions = 0,
     t_complexity = Some 0, t_complexity_total = Some 0, t_diff = 0\<rparr>"

definition opt_fval :: "int option \<Rightarrow> fval" where
  "opt_fval x = (case x of None \<Rightarrow> VNone | Some i \<Rightarrow> VInt i)"

definition totals_astuple :: "report_totals \<Rightarrow> fval list" where
  "totals_astuple t =
     [VInt (t_files t), VInt (t_lines t), VInt (t_hits t), VInt (t_misses t), VInt (t_partials t),
      t_coverage t, VInt (t_branches t), VInt (t_methods t), VInt (t_messages t),
      VInt (t_sessions t), opt_fval (t_complexity t), opt_fval (t_complexity_total t), VInt (t_diff t)]"

text \<open>\<open>v in (''0'', 0)\<close>.\<close>

definition is_zero_field :: "fval \<Rightarrow> bool" where
  "is_zero_field v = (case v of VStr s \<Rightarrow> s = ''0'' | VInt i \<Rightarrow> i = 0 | VFloat q \<Rightarrow> q = 0 | VNone \<Rightarrow> False)"

definition to_database :: "report_totals \<Rightarrow> fval list" where
  "to_database t = rev (dropWhile is_zero_field (rev (totals_astuple t)))"

text \<open>
  \<open>ReportTotals(*fields)\<close>: the missing fields take the dataclass's defaults. \<open>None\<close> of the
  model stands for too many arguments, or for a value of a type that the record cannot hold.
\<close>

definition int_field :: "fval \<Rightarrow> int option" where
  "int_field v = (case v of VInt i \<Rightarrow> Some i | _ \<Rightarrow> None)"

definition cx_field :: "fval \<Rightarrow> int option option" where
  "cx_field v = (case v of VInt i \<Rightarrow> Some (Some i) | VNone \<Rightarrow> Some None | _ \<Rightarrow> None)"

definition ReportTotals :: "fval list \<Rightarrow> report_totals option" where
  "ReportTotals fs =
     (if 13 < length fs then None
      else
        let g = fs @ replicate (13 - length fs) (VInt 0)
        in (case (int_field (g ! 0), int_field (g ! 1), int_field (g ! 2), int_field (g ! 3),
                  int_field (g ! 4), int_field (g ! 6), int_field (g ! 7), int_field (g ! 8),
                  int_field (g ! 9), cx_field (g ! 10), cx_field (g ! 11), int_field (g ! 12)) of
              (Some f, Some n, Some h, Some m, Some p, Some b, Some d, Some M, Some s, Some C, Some N, Some x) \<Rightarrow>
                Some \<lparr>t_files = f, t_lines = n, t_hits = h, t_misses = m, t_partials = p,
                  t_coverage = g ! 5, t_branches = b, t_methods = d, t_messages = M, t_sessions = s,
                  t_complexity = C, t_complexity_total = N, t_diff = x\<rparr>
            | _ \<Rightarrow> None))"

section \<open>Changes and network files\<close>

record change =
  ch_path :: string
  ch_new :: bool
  ch_deleted :: bool
  ch_in_diff :: "bool option"
  ch_old_path :: "string option"
  ch_totals :: "report_totals option"

record network_file =
  nf_totals :: report_totals
  nf_diff_totals :: "report_totals option"

text \<open>The second component is the placeholder of the deprecated session totals, always \<open>None\<close>.\<close>

definition network_file_astuple :: "network_file \<Rightarrow> fval list \<times> unit option \<times> fval list option" where
  "network_file_astuple nf =
     (totals_astuple (nf_totals nf), None, map_option totals_astuple (nf_diff_totals nf))"

definition make_network_file :: "report_totals option \<Rightarrow> report_totals option \<Rightarrow> network_file" where
  "make_network_file totals diff =
     \<lparr>nf_totals = (case totals of Some t \<Rightarrow> t | None \<Rightarrow> zero_totals), nf_diff_totals = diff\<rparr>"

section \<open>The database encoding of totals\<close>

lemma ReportTotals_astuple: "ReportTotals (totals_astuple t) = Some t"
  by (simp add: ReportTotals_def totals_astuple_def int_field_def cx_field_def opt_fval_def
      split: option.split)

lemma is_zero_field_simps [simp]:
  "is_zero_field VNone = False"
  "is_zero_field (VInt i) = (i = 0)"
  "is_zero_field (VStr s) = (s = ''0'')"
  "is_zero_field (opt_fval x) = (x = Some 0)"
  by (auto simp: is_zero_field_def opt_fval_def split: option.split)

lemma field_simps_fval [simp]:
  "int_field (VInt i) = Some i"
  "cx_field (VInt i) = Some (Some i)"
  "cx_field (opt_fval x) = Some x"
  by (auto simp: int_field_def cx_field_def opt_fval_def split: option.split)

section \<open>Round trips\<close>

lemma LineSession_roundtrip [simp]: "LineSession_of_tuple (LineSession_astuple s) = s"
  by (cases s) (auto simp: LineSession_astuple_def LineSession_def)

text \<open>
  A line survives its serialised tuple: \<open>ReportLine.create\<close> on \<open>line.astuple()\<close> gives the line
  back, whichever of its sessions carry branches, partials or complexity.
\<close>

theorem ReportLine_tuple_roundtrip: "ReportLine_of_tuple (ReportLine_astuple l) = l"
  by (cases l) (auto simp: ReportLine_astuple_def ReportLine_of_tuple_def ReportLine_create_def comp_def)

text \<open>
  Totals survive the database encoding, which drops trailing zero fields: reading
  \<open>to_database()\<close> back gives the same totals, except that a coverage of \<open>''0''\<close> (or 0.0) at the
  end of the tuple comes back as the number 0.
\<close>

theorem to_database_roundtrip:
  "ReportTotals (to_database t) = Some t \<or>
   is_zero_field (t_coverage t) \<and> ReportTotals (to_database t) = Some (t\<lparr>t_coverage := VInt 0\<rparr>)"
  by (cases t) (auto simp: to_database_def totals_astuple_def ReportTotals_def)

end
