(* ===== verification/Merge.thy ===== *)
theory Merge
  imports Report_Types
begin

text \<open>
  The merge algebra of coverage (libs/shared/shared/utils/merge.py): merging two coverage
  values, branch strings, partials, the sessions of a line, and whole lines; the
  classification of a value as hit, miss or partial. The functions return \<open>res\<close>: the code
  raises on values of the wrong shape (a branch string without numbers, an empty list of
  sessions), and every such raise is a branch here.

  Where the code turns a set into a list (\<open>list(set(a) & set(b))\<close>) Python fixes no order; the
  model keeps the order of the first list. The code only takes the length of such a list or
  turns it back into a set.
\<close>

section \<open>Line types\<close>

datatype line_type_t = LT_skipped | LT_hit | LT_miss | LT_partial

text \<open>\<open>LineType\<close> is an \<open>IntEnum\<close>: its members compare as these numbers.\<close>

fun line_type_value :: "line_type_t \<Rightarrow> int" where
  "line_type_value LT_skipped = -1"
| "line_type_value LT_hit = 0"
| "line_type_value LT_miss = 1"
| "line_type_value LT_partial = 2"

instantiation line_type_t :: linorder
begin

definition less_eq_line_type_t :: "line_type_t \<Rightarrow> line_type_t \<Rightarrow> bool" where
  "less_eq_line_type_t a b \<longleftrightarrow> line_type_value a \<le> line_type_value b"

definition less_line_type_t :: "line_type_t \<Rightarrow> line_type_t \<Rightarrow> bool" where
  "less_line_type_t a b \<longleftrightarrow> line_type_value a < line_type_value b"

instance
proof
  fix x y :: line_type_t
  show "x \<le> y \<Longrightarrow> y \<le> x \<Longrightarrow> x = y"
    by (cases x; cases y) (simp_all add: less_eq_line_type_t_def)
qed (auto simp: less_eq_line_type_t_def less_line_type_t_def)

end

definition branch_type :: "string \<Rightarrow> line_type_t res" where
  "branch_type b =
     (case split_once (CHR ''/'') b of
        None \<Rightarrow> bind_res (py_int b) (\<lambda>n. Inr (if n = 0 then LT_miss else LT_hit))
      | Some (b1, b2) \<Rightarrow> Inr (if b1 = b2 then LT_hit else if b1 = ''0'' then LT_miss else LT_partial))"

definition line_type :: "cov \<Rightarrow> line_type_t option res" where
  "line_type l =
     (if l = CovBool True then Inr (Some LT_partial)
      else (case l of
        CovStr b \<Rightarrow> map_res Some (branch_type b)
      | _ \<Rightarrow>
          if cov_is l (-1) then Inr (Some LT_skipped)
          else if l = CovBool False then Inr None
          else (case l of
            CovFrac q \<Rightarrow> Inr (Some (if q = 0 then LT_miss else if q \<ge> 1 then LT_hit else LT_partial))
          | _ \<Rightarrow>
              if cov_truthy l then Inr (Some LT_hit)
              else if l \<noteq> CovNone then Inr (Some LT_miss)
              else Inr None)))"

section \<open>Branches and partials\<close>

definition frac_str :: "int \<Rightarrow> int \<Rightarrow> string" where
  "frac_str a b = int_str a @ CHR ''/'' # int_str b"

text \<open>\<open>x, y = b.split("/", 1)\<close>.\<close>

definition unpack_branch :: "cov \<Rightarrow> (string \<times> string) res" where
  "unpack_branch b =
     (case b of
        CovStr s \<Rightarrow> (case split_once (CHR ''/'') s of None \<Rightarrow> Inl ValueError | Some p \<Rightarrow> Inr p)
      | _ \<Rightarrow> Inl AttributeError)"

definition is_pos_int :: "cov \<Rightarrow> bool" where
  "is_pos_int b = (case b of CovInt i \<Rightarrow> i > 0 | _ \<Rightarrow> False)"

text \<open>\<open>b in (0, None, True)\<close>.\<close>

definition in_zero_none_true :: "cov \<Rightarrow> bool" where
  "in_zero_none_true b \<longleftrightarrow> cov_is b 0 \<or> b = CovNone \<or> cov_is b 1"

definition is_cov_list :: "cov \<Rightarrow> bool" where
  "is_cov_list b = (case b of CovList _ \<Rightarrow> True | _ \<Rightarrow> False)"

definition merge_branch :: "cov \<Rightarrow> cov \<Rightarrow> cov res" where
  "merge_branch b1 b2 =
     (if cov_eq b1 b2 then Inr b1
      else if cov_is b1 (-1) \<or> cov_is b2 (-1) then Inr (CovInt (-1))
      else if is_pos_int b1 then Inr b1
      else if is_pos_int b2 then Inr b2
      else if in_zero_none_true b1 then Inr b2
      else if in_zero_none_true b2 then Inr b1
      else if is_cov_list b1 then Inr b1
      else if is_cov_list b2 then Inr b2
      else
        bind_res (unpack_branch b1) (\<lambda>(br1, br2).
          if br1 = br2 then Inr b1
          else bind_res (unpack_branch b2) (\<lambda>(br3, br4).
            if br3 = br4 then Inr b2
            else
              bind_res (py_int br1) (\<lambda>n1. bind_res (py_int br3) (\<lambda>n3.
              bind_res (py_int br2) (\<lambda>n2. bind_res (py_int br4) (\<lambda>n4.
                Inr (CovStr ((if n1 > n3 then br1 else br3) @ CHR ''/'' # (if n2 > n4 then br2 else br4))))))))))"

definition opt_or_0 :: "int option \<Rightarrow> int" where
  "opt_or_0 x = (case x of None \<Rightarrow> 0 | Some i \<Rightarrow> i)"

text \<open>\<open>fl[x].append(c)\<close> on a \<open>defaultdict(list)\<close>, for every column \<open>x\<close> of a range.\<close>

definition append_at :: "(int, int list) dict \<Rightarrow> int \<Rightarrow> int \<Rightarrow> (int, int list) dict" where
  "append_at cols x c = dict_set cols x ((case dict_get cols x of None \<Rightarrow> [] | Some cs \<Rightarrow> cs) @ [c])"

definition append_range :: "(int, int list) dict \<Rightarrow> int list \<Rightarrow> int \<Rightarrow> (int, int list) dict" where
  "append_range cols xs c = foldl (\<lambda>d x. append_at d x c) cols xs"

definition ifg :: "int \<Rightarrow> int \<Rightarrow> int \<Rightarrow> partial" where
  "ifg s e c = (Some s, Some (if e > s then e else s + 1), c)"

definition fill_closed :: "(int, int list) dict \<Rightarrow> partial list \<Rightarrow> (int, int list) dict" where
  "fill_closed cols np = foldl (\<lambda>d (s, e, c).
     case e of None \<Rightarrow> d | Some e' \<Rightarrow> append_range d [opt_or_0 s..e'] c) cols np"

definition fill_open :: "int \<Rightarrow> (int, int list) dict \<Rightarrow> partial list \<Rightarrow> (int, int list) dict" where
  "fill_open mx cols np = foldl (\<lambda>d (s, e, c).
     case e of None \<Rightarrow> append_range d [opt_or_0 s..mx - 1] c | Some _ \<Rightarrow> d) cols np"

definition columns_of :: "partial list \<Rightarrow> (int, int list) dict" where
  "columns_of np =
     (let cols = fill_closed [] np;
          mx = (if cols = [] then 0 else Max (set (dict_keys cols)) + 1)
      in fill_open mx cols np)"

definition segments_of :: "(int, int list) dict \<Rightarrow> partial list" where
  "segments_of cols =
     map (\<lambda>(c, g). ifg (fst (hd g)) (fst (last g)) c)
       (groupby snd (sort_key fst (map (\<lambda>(x, cs). (x, Max (set cs))) cols)))"

text \<open>
  The last test of the code builds a list whose elements evaluate \<open>max(ks)\<close>: with an
  open-ended partial and no column at all, that raises \<open>ValueError\<close>.
\<close>

definition merge_partial_line :: "partial list \<Rightarrow> partial list \<Rightarrow> partial list res" where
  "merge_partial_line p1 p2 =
     (if p1 = [] \<or> p2 = [] then Inr (if p1 \<noteq> [] then p1 else p2)
      else
        let np = p1 @ p2 in
        if length np = 1 then Inr np
        else
          let cols = columns_of np; pp = segments_of cols in
          if \<exists>p \<in> set np. fst (snd p) = None then
            (if cols = [] then Inl ValueError
             else Inr (butlast pp @ [(fst (last pp), None, snd (snd (last pp)))]))
          else Inr pp)"

definition partials_to_line :: "partial list \<Rightarrow> cov" where
  "partials_to_line ps =
     (if length ps = 1 then CovInt (snd (snd (hd ps)))
      else CovStr (frac_str (int (length (filter (\<lambda>p. snd (snd p) > 0) ps))) (int (length ps))))"

section \<open>Merging coverage values\<close>

text \<open>
  \<open>cast_ints_float\<close>: the merge only looks at the type of the cast value. A boolean is an
  \<open>int\<close>, so it casts to a float, too; an integer beyond the range of a double raises.
\<close>

datatype pytype = TFloat | TFraction | TStr | TList | TNoneType

definition cast_ints_float :: "cov \<Rightarrow> pytype res" where
  "cast_ints_float v =
     (case v of
        CovBool _ \<Rightarrow> Inr TFloat
      | CovInt i \<Rightarrow> if \<bar>i\<bar> < 2 ^ 1024 - 2 ^ 970 then Inr TFloat else Inl OverflowError
      | CovFrac _ \<Rightarrow> Inr TFraction
      | CovStr _ \<Rightarrow> Inr TStr
      | CovList _ \<Rightarrow> Inr TList
      | CovNone \<Rightarrow> Inr TNoneType)"

text \<open>\<open>l1.split("/")[-1]\<close>.\<close>

definition last_split :: "cov \<Rightarrow> string res" where
  "last_split l = (case l of CovStr s \<Rightarrow> Inr (last (split_all (CHR ''/'') s)) | _ \<Rightarrow> Inl AttributeError)"

text \<open>
  The string case, after the casts: \<open>bm\<close> is the argument \<open>branches_missing\<close>, \<open>None\<close> for
  anything that is not a list.
\<close>

definition merge_str :: "cov \<Rightarrow> pytype \<Rightarrow> cov \<Rightarrow> pytype \<Rightarrow> branch_id list option \<Rightarrow> cov res" where
  "merge_str l1 t1 l2 t2 bm =
     (let l = (if t1 = TFloat then l2 else l1);
          m = (if t1 = TFloat then (if cov_truthy l1 then Some [] else None)
               else if t2 = TFloat then (if cov_truthy l2 then Some [] else None)
               else bm)
      in (case m of
            Some [] \<Rightarrow> bind_res (last_split l) (\<lambda>x. Inr (CovStr (x @ CHR ''/'' # x)))
          | Some (b # bs) \<Rightarrow>
              bind_res (last_split l) (\<lambda>x. bind_res (py_int x) (\<lambda>target.
                let bf = target - int (length (b # bs))
                in Inr (CovStr (frac_str (if bf > 0 then bf else 0) target))))
          | None \<Rightarrow> merge_branch l l2))"

text \<open>
  The last branch of the code calls \<open>merge_coverage\<close> again on values without lists; the
  branch for booleans before it is never reached, because the casts leave no boolean.
\<close>

lemma partials_to_line_no_list [simp]: "\<not> is_cov_list (partials_to_line ps)"
  by (simp add: partials_to_line_def is_cov_list_def)

function merge_coverage :: "cov \<Rightarrow> cov \<Rightarrow> branch_id list option \<Rightarrow> cov res" where
  "merge_coverage l1 l2 bm =
     (if l1 = CovNone \<or> l2 = CovNone then Inr (if l1 \<noteq> CovNone then l1 else l2)
      else if cov_is l1 (-1) \<or> cov_is l2 (-1) then Inr (CovInt (-1))
      else
        bind_res (cast_ints_float l1) (\<lambda>t1. bind_res (cast_ints_float l2) (\<lambda>t2.
          if t1 \<in> {TFloat, TFraction} \<and> t2 \<in> {TFloat, TFraction} then
            Inr (if the (cov_num l1) \<ge> the (cov_num l2) then l1 else l2)
          else if t1 = TStr \<or> t2 = TStr then merge_str l1 t1 l2 t2 bm
          else
            (case (l1, l2) of
               (CovList p1, CovList p2) \<Rightarrow> map_res CovList (merge_partial_line p1 p2)
             | (CovList p1, _) \<Rightarrow> merge_coverage (partials_to_line p1) l2 None
             | (_, CovList p2) \<Rightarrow> merge_coverage l1 (partials_to_line p2) None
             | _ \<Rightarrow> Inl TypeError))))"
  by pat_completeness auto
termination
  by (relation "measure (\<lambda>(l1, l2, bm). (if is_cov_list l1 then 1 else 0) + (if is_cov_list l2 then 1 else 0))")
    (auto simp: is_cov_list_def [of "CovList _"])

declare merge_coverage.simps [simp del]

definition merge_all :: "cov list \<Rightarrow> branch_id list option \<Rightarrow> cov res" where
  "merge_all covs missing =
     (case covs of
        [] \<Rightarrow> Inl IndexError
      | c # cs \<Rightarrow> foldl_res (\<lambda>acc x. merge_coverage acc x missing) c cs)"

section \<open>Merging the sessions of a line\<close>

text \<open>
  The loop of \<open>merge_missed_branches\<close>; \<open>missed\<close> is the set so far, \<open>None\<close> before the first
  session that lists its missed branches.
\<close>

fun missed_loop :: "line_session list \<Rightarrow> branch_id list option \<Rightarrow> branch_id list option res" where
  "missed_loop [] missed = Inr missed"
| "missed_loop (s # ss) missed =
     (case ls_branches s of
        None \<Rightarrow>
          bind_res (line_type (ls_coverage s)) (\<lambda>t.
            if t = Some LT_hit then Inr (Some []) else missed_loop ss missed)
      | Some bs \<Rightarrow>
          (case missed of
             None \<Rightarrow> missed_loop ss (Some (remdups bs))
           | Some mb \<Rightarrow>
               let mb' = filter (\<lambda>b. b \<in> set bs) mb
               in if mb' = [] then Inr (Some []) else missed_loop ss (Some mb')))"

definition merge_missed_branches :: "line_session list \<Rightarrow> branch_id list option res" where
  "merge_missed_branches ss =
     (if ss = [] \<or> \<not> (\<exists>s \<in> set ss. ls_branches s \<noteq> None) then Inr None
      else missed_loop ss None)"

definition get_coverage_from_sessions :: "line_session list \<Rightarrow> cov res" where
  "get_coverage_from_sessions ss =
     bind_res (merge_missed_branches ss) (\<lambda>mb. merge_all (map ls_coverage ss) mb)"

text \<open>\<open>(c or 0)\<close> and \<open>(c or (0, 0))[i]\<close> for a complexity \<open>c\<close>.\<close>

definition cx_or_0 :: "complexity option \<Rightarrow> int res" where
  "cx_or_0 c = (case c of None \<Rightarrow> Inr 0 | Some (CxInt i) \<Rightarrow> Inr i | Some (CxPair _ _) \<Rightarrow> Inl TypeError)"

definition cx_pair :: "complexity option \<Rightarrow> (int \<times> int) res" where
  "cx_pair c =
     (case c of
        None \<Rightarrow> Inr (0, 0)
      | Some (CxInt i) \<Rightarrow> if i = 0 then Inr (0, 0) else Inl TypeError
      | Some (CxPair a b) \<Rightarrow> Inr (a, b))"

definition get_complexity_from_sessions :: "line_session list \<Rightarrow> complexity option res" where
  "get_complexity_from_sessions ss =
     (case ss of
        [] \<Rightarrow> Inl IndexError
      | s # _ \<Rightarrow>
          (case ls_complexity s of
             None \<Rightarrow> Inr None
           | Some (CxInt _) \<Rightarrow>
               bind_res (traverse (\<lambda>x. cx_or_0 (ls_complexity x)) ss) (\<lambda>is. Inr (Some (CxInt (Max (set is)))))
           | Some (CxPair _ _) \<Rightarrow>
               bind_res (traverse (\<lambda>x. cx_pair (ls_complexity x)) ss) (\<lambda>ps.
                 Inr (Some (CxPair (Max (set (map fst ps))) (Max (set (map snd ps))))))))"

definition merge_line_session_branches :: "line_session \<Rightarrow> line_session \<Rightarrow> branch_id list option res" where
  "merge_line_session_branches s1 s2 =
     (case (ls_branches s1, ls_branches s2) of
        (None, None) \<Rightarrow> Inr None
      | (None, Some b2) \<Rightarrow>
          bind_res (line_type (ls_coverage s1)) (\<lambda>t. Inr (Some (if t = Some LT_hit then [] else b2)))
      | (Some b1, None) \<Rightarrow>
          bind_res (line_type (ls_coverage s2)) (\<lambda>t. Inr (Some (if t = Some LT_hit then [] else b1)))
      | (Some b1, Some b2) \<Rightarrow> Inr (Some (filter (\<lambda>b. b \<in> set b2) (remdups b1))))"

text \<open>
  \<open>sorted(s1p + s2p, key=lambda p: p[0])\<close>: a missing start cannot be compared, so that a
  list of two or more partials with one raises \<open>TypeError\<close>.
\<close>

definition sort_partials :: "partial list \<Rightarrow> partial list res" where
  "sort_partials ps =
     (if 2 \<le> length ps \<and> (\<exists>p \<in> set ps. fst p = None) then Inl TypeError
      else Inr (sort_key (\<lambda>p. opt_or_0 (fst p)) ps))"

definition merge_session_partials :: "partial list option \<Rightarrow> partial list option \<Rightarrow> partial list option res" where
  "merge_session_partials p1 p2 =
     (case (p1, p2) of
        (Some (a # as), Some q) \<Rightarrow> map_res Some (sort_partials ((a # as) @ q))
      | (Some [], Some (b # bs)) \<Rightarrow> map_res Some (sort_partials (b # bs))
      | (Some (a # as), None) \<Rightarrow> Inr (Some (a # as))
      | (None, Some (b # bs)) \<Rightarrow> Inr (Some (b # bs))
      | _ \<Rightarrow> Inr None)"

definition merge_line_session :: "line_session \<Rightarrow> line_session \<Rightarrow> line_session res" where
  "merge_line_session s1 s2 =
     bind_res (merge_line_session_branches s1 s2) (\<lambda>mb.
     bind_res (merge_session_partials (ls_partials s1) (ls_partials s2)) (\<lambda>partials.
     bind_res (merge_coverage (ls_coverage s1) (ls_coverage s2) mb) (\<lambda>c.
       Inr (LineSession (ls_id s1) c mb partials None))))"

text \<open>
  The sessions of the two lines by id, as dictionaries; the common ids are merged in the
  order of the first dictionary (Python's order of the set \<open>intersection\<close> is unspecified, and
  every id is merged on its own).
\<close>

definition merge_common :: "(int, line_session) dict \<Rightarrow> (int, line_session) dict \<Rightarrow> (int, line_session) dict res" where
  "merge_common d1 d2 =
     traverse (\<lambda>(i, s). case dict_get d2 i of
         None \<Rightarrow> Inr (i, s)
       | Some s' \<Rightarrow> map_res (Pair i) (merge_line_session s s')) d1"

definition sessions_dict :: "line_session list \<Rightarrow> (int, line_session) dict" where
  "sessions_dict ss = dict_of (map (\<lambda>s. (ls_id s, s)) ss)"

definition merge_sessions :: "line_session list \<Rightarrow> line_session list \<Rightarrow> line_session list res" where
  "merge_sessions s1 s2 =
     (if s1 = [] \<or> s2 = [] then Inr (if s1 \<noteq> [] then s1 else s2)
      else if ls_id ` set s1 \<inter> ls_id ` set s2 = {} then Inr (s1 @ s2)
      else
        let d1 = sessions_dict s1; d2 = sessions_dict s2
        in bind_res (merge_common d1 d2) (\<lambda>d.
             Inr (dict_values d @ dict_values (dict_dels d2 (dict_keys d1)))))"

section \<open>Merging lines\<close>

definition merge_line :: "report_line option \<Rightarrow> report_line option \<Rightarrow> bool \<Rightarrow> bool \<Rightarrow> report_line option res" where
  "merge_line l1 l2 joined is_disjoint =
     (case (l1, l2) of
        (None, _) \<Rightarrow> Inr l2
      | (_, None) \<Rightarrow> Inr l1
      | (Some a, Some b) \<Rightarrow>
          if joined \<and> is_disjoint then
            Inr (Some (ReportLine_create CovNone (str_or (rl_type a) (rl_type b))
              (rl_sessions a @ rl_sessions b) None))
          else
            bind_res (merge_sessions (rl_sessions a) (rl_sessions b)) (\<lambda>ss.
            bind_res (if joined then get_coverage_from_sessions ss else Inr (rl_coverage a)) (\<lambda>c.
            bind_res (if joined then get_complexity_from_sessions ss else Inr (rl_complexity a)) (\<lambda>cx.
              Inr (Some (ReportLine_create c (str_or (rl_type a) (rl_type b)) ss cx))))))"

section \<open>Coverage values: the merge is a maximum\<close>

lemma cast_small: "\<bar>i\<bar> < 2 ^ 1023 \<Longrightarrow> cast_ints_float (CovInt i) = Inr TFloat"
proof -
  assume "\<bar>i\<bar> < 2 ^ 1023"
  also have "(2::int) ^ 1023 \<le> 2 ^ 1024 - 2 ^ 970" by simp
  finally show ?thesis by (simp add: cast_ints_float_def)
qed

lemma merge_coverage_ints:
  assumes "\<bar>a\<bar> < 2 ^ 1023" "\<bar>b\<bar> < 2 ^ 1023"
  shows "merge_coverage (CovInt a) (CovInt b) bm = Inr (CovInt (if a = -1 \<or> b = -1 then -1 else max a b))"
  using assms by (subst merge_coverage.simps) (simp add: cast_small max_def)

lemma merge_coverage_None [simp]:
  "merge_coverage CovNone c bm = Inr c" "merge_coverage c CovNone bm = Inr c"
  by (subst merge_coverage.simps; simp)+

lemma merge_all_ints:
  assumes "\<And>i. i \<in> set is \<Longrightarrow> 0 \<le> i \<and> i < 2 ^ 1023" "is \<noteq> []"
  shows "merge_all (map CovInt is) bm = Inr (CovInt (Max (set is)))"
proof -
  have fold: "foldl_res (\<lambda>acc x. merge_coverage acc x bm) (CovInt a) (map CovInt xs) = Inr (CovInt (Max (insert a (set xs))))"
    if "\<forall>i \<in> insert a (set xs). 0 \<le> i \<and> i < 2 ^ 1023" for a xs
    using that
  proof (induction xs arbitrary: a)
    case Nil
    then show ?case by simp
  next
    case (Cons x xs)
    have m: "merge_coverage (CovInt a) (CovInt x) bm = Inr (CovInt (max a x))"
      using Cons.prems by (subst merge_coverage_ints) auto
    have "foldl_res (\<lambda>acc x. merge_coverage acc x bm) (CovInt (max a x)) (map CovInt xs)
        = Inr (CovInt (Max (insert (max a x) (set xs))))"
      by (rule Cons.IH) (use Cons.prems in auto)
    then show ?case by (cases "xs = []") (simp_all add: m max.assoc)
  qed
  from assms(2) obtain a xs where "is = a # xs" by (cases "is") auto
  with fold [of a xs] assms(1) show ?thesis by (simp add: merge_all_def)
qed

section \<open>Missed branches: the merge is an intersection\<close>

definition missed_spec :: "line_session list \<Rightarrow> branch_id set" where
  "missed_spec ss =
     (if \<exists>s \<in> set ss. ls_branches s = None \<and> line_type (ls_coverage s) = Inr (Some LT_hit) then {}
      else {b. \<forall>s \<in> set ss. \<forall>bs. ls_branches s = Some bs \<longrightarrow> b \<in> set bs})"


definition missed_inter :: "line_session list \<Rightarrow> branch_id list option \<Rightarrow> branch_id set" where
  "missed_inter ss missed = missed_spec ss \<inter> (case missed of None \<Rightarrow> UNIV | Some x \<Rightarrow> set x)"

lemma missed_spec_Cons:
  "missed_spec (s # ss) =
     (case ls_branches s of
        None \<Rightarrow> if line_type (ls_coverage s) = Inr (Some LT_hit) then {} else missed_spec ss
      | Some bs \<Rightarrow> missed_spec ss \<inter> set bs)"
  by (auto simp: missed_spec_def split: option.splits)

lemma missed_loop_spec:
  assumes "\<forall>s \<in> set ss. ls_branches s = None \<longrightarrow> is_ok (line_type (ls_coverage s))"
    and "missed \<noteq> None \<or> (\<exists>s \<in> set ss. ls_branches s \<noteq> None)"
  shows "\<exists>m. missed_loop ss missed = Inr (Some m) \<and> set m = missed_inter ss missed"
  using assms
proof (induction ss missed rule: missed_loop.induct)
  case (1 missed)
  then show ?case by (auto simp: missed_spec_def missed_inter_def)
next
  case (2 s ss missed)
  show ?case
  proof (cases "ls_branches s")
    case None
    with 2 obtain t where t: "line_type (ls_coverage s) = Inr t" by (auto simp: is_ok_iff)
    show ?thesis
    proof (cases "t = Some LT_hit")
      case True
      with None t show ?thesis by (simp add: missed_inter_def missed_spec_Cons)
    next
      case False
      with "2.IH"(1) [OF None t False] "2.prems" None t
      show ?thesis by (simp add: missed_inter_def missed_spec_Cons)
    qed
  next
    case (Some bs)
    show ?thesis
    proof (cases missed)
      case None
      with "2.IH"(2) [OF Some None] "2.prems" Some
      show ?thesis by (auto simp: missed_inter_def missed_spec_Cons)
    next
      case m: (Some mb)
      show ?thesis
      proof (cases "filter (\<lambda>b. b \<in> set bs) mb = []")
        case True
        then have "set mb \<inter> set bs = {}" by (auto simp: filter_empty_conv)
        with True m Some show ?thesis by (auto simp: missed_inter_def missed_spec_Cons Let_def)
      next
        case False
        with "2.IH"(3) [OF Some m refl False] "2.prems" Some m
        show ?thesis by (auto simp: missed_inter_def missed_spec_Cons Let_def)
      qed
    qed
  qed
qed

section \<open>Partials: the merge is the maximum of every column\<close>

definition hits_at :: "(int, int list) dict \<Rightarrow> int \<Rightarrow> int set" where
  "hits_at cols x = (case dict_get cols x of None \<Rightarrow> {} | Some cs \<Rightarrow> set cs)"

definition wf_columns :: "(int, int list) dict \<Rightarrow> bool" where
  "wf_columns cols \<longleftrightarrow> wf_dict cols \<and> (\<forall>x. dict_get cols x \<noteq> Some [])"

lemma hits_at_append: "hits_at (append_at cols x c) y = hits_at cols y \<union> (if y = x then {c} else {})"
  by (cases "dict_get cols x") (auto simp: hits_at_def append_at_def)

lemma wf_columns_append: "wf_columns cols \<Longrightarrow> wf_columns (append_at cols x c)"
  by (auto simp: wf_columns_def append_at_def pd.inv_assign)

lemma append_range_columns:
  "hits_at (append_range cols xs c) y = hits_at cols y \<union> (if y \<in> set xs then {c} else {})"
  "wf_columns cols \<Longrightarrow> wf_columns (append_range cols xs c)"
  by (induction xs arbitrary: cols) (auto simp: append_range_def hits_at_append wf_columns_append)

lemma fill_closed_hits:
  "hits_at (fill_closed cols np) x =
     hits_at cols x \<union> {c. \<exists>s e. (s, Some e, c) \<in> set np \<and> opt_or_0 s \<le> x \<and> x \<le> e}"
proof (induction np arbitrary: cols)
  case Nil
  then show ?case by (simp add: fill_closed_def)
next
  case (Cons p np)
  obtain s e c where p: "p = (s, e, c)" by (cases p)
  have "fill_closed cols (p # np) =
      fill_closed (case e of None \<Rightarrow> cols | Some e' \<Rightarrow> append_range cols [opt_or_0 s..e'] c) np"
    by (simp add: fill_closed_def p)
  then show ?case by (cases e) (auto simp: Cons.IH append_range_columns p)
qed

lemma fill_open_hits:
  "hits_at (fill_open mx cols np) x =
     hits_at cols x \<union> {c. \<exists>s. (s, None, c) \<in> set np \<and> opt_or_0 s \<le> x \<and> x < mx}"
proof (induction np arbitrary: cols)
  case Nil
  then show ?case by (simp add: fill_open_def)
next
  case (Cons p np)
  obtain s e c where p: "p = (s, e, c)" by (cases p)
  have "fill_open mx cols (p # np) =
      fill_open mx (case e of None \<Rightarrow> append_range cols [opt_or_0 s..mx - 1] c | Some _ \<Rightarrow> cols) np"
    by (simp add: fill_open_def p)
  then show ?case by (cases e) (auto simp: Cons.IH append_range_columns p)
qed

lemma fill_wf:
  "wf_columns cols \<Longrightarrow> wf_columns (fill_closed cols np)"
  "wf_columns cols \<Longrightarrow> wf_columns (fill_open mx cols np)"
  by (induction np arbitrary: cols)
    (auto simp: fill_closed_def fill_open_def append_range_columns split: option.splits)

text \<open>The end of the last column that a partial with an end covers; an open-ended partial runs up to it.\<close>

definition closed_end :: "partial list \<Rightarrow> int" where
  "closed_end np = (let cols = fill_closed [] np in if cols = [] then 0 else Max (set (dict_keys cols)) + 1)"

definition column_hits :: "partial list \<Rightarrow> int \<Rightarrow> int set" where
  "column_hits np x =
     {c. \<exists>s e. (s, e, c) \<in> set np \<and> opt_or_0 s \<le> x \<and> (case e of None \<Rightarrow> x < closed_end np | Some e' \<Rightarrow> x \<le> e')}"

lemma columns_of_hits: "hits_at (columns_of np) x = column_hits np x"
proof -
  have "columns_of np = fill_open (closed_end np) (fill_closed [] np) np"
    by (simp add: columns_of_def closed_end_def Let_def)
  then have "hits_at (columns_of np) x = {c. \<exists>s e. (s, Some e, c) \<in> set np \<and> opt_or_0 s \<le> x \<and> x \<le> e}
      \<union> {c. \<exists>s. (s, None, c) \<in> set np \<and> opt_or_0 s \<le> x \<and> x < closed_end np}"
    by (simp add: fill_open_hits fill_closed_hits hits_at_def [of "[]"])
  then show ?thesis by (force simp: column_hits_def split: option.splits)
qed

lemma columns_of_wf: "wf_columns (columns_of np)"
  by (simp add: columns_of_def Let_def fill_wf wf_columns_def [of "[]"])

definition column_list :: "(int, int list) dict \<Rightarrow> (int \<times> int) list" where
  "column_list cols = sort_key fst (map (\<lambda>(x, cs). (x, Max (set cs))) cols)"

lemma column_list_member:
  assumes "wf_columns cols"
  shows "(x, m) \<in> set (column_list cols) \<longleftrightarrow> hits_at cols x \<noteq> {} \<and> m = Max (hits_at cols x)"
proof -
  have "(x, m) \<in> set (column_list cols) \<longleftrightarrow> (\<exists>cs. dict_get cols x = Some cs \<and> m = Max (set cs))"
    using assms by (force simp: column_list_def wf_columns_def dict_get_iff image_iff)
  also have "\<dots> \<longleftrightarrow> hits_at cols x \<noteq> {} \<and> m = Max (hits_at cols x)"
    using assms by (auto simp: hits_at_def wf_columns_def split: option.splits)
  finally show ?thesis .
qed

lemma column_list_sorted:
  assumes "wf_columns cols"
  shows "sorted_wrt (<) (map fst (column_list cols))"
proof -
  have "map fst (map (\<lambda>(x, cs). (x, Max (set cs))) cols) = dict_keys cols"
    by (auto simp: dict_keys_def)
  then have "distinct (map fst (map (\<lambda>(x, cs). (x, Max (set cs))) cols))"
    using assms by (simp only: wf_columns_def wf_dict_def dict_keys_def)
  then have "distinct (map fst (column_list cols))"
    unfolding column_list_def by (simp only: distinct_map distinct_sort set_sort)
  moreover have "sorted (map fst (column_list cols))"
    by (simp add: column_list_def)
  ultimately show ?thesis by (simp add: strict_sorted_iff)
qed

text \<open>A partial covers a column, and what the segments of a merged line promise.\<close>

definition covers :: "partial \<Rightarrow> int \<Rightarrow> bool" where
  "covers p x = (case p of (s, e, c) \<Rightarrow> opt_or_0 s \<le> x \<and> (case e of None \<Rightarrow> True | Some e' \<Rightarrow> x \<le> e'))"

definition segments_ok :: "(int \<Rightarrow> int set) \<Rightarrow> partial list \<Rightarrow> bool" where
  "segments_ok hits r \<longleftrightarrow>
     (\<forall>x. hits x \<noteq> {} \<longrightarrow> (\<exists>p \<in> set r. covers p x \<and> snd (snd p) = Max (hits x))) \<and>
     (\<forall>p \<in> set r. hits (opt_or_0 (fst p)) \<noteq> {} \<and> snd (snd p) = Max (hits (opt_or_0 (fst p)))) \<and>
     sorted_wrt (<) (map (\<lambda>p. opt_or_0 (fst p)) r)"

lemma segments_of_ok:
  assumes "wf_columns cols"
  shows "segments_ok (hits_at cols) (segments_of cols)"
proof -
  let ?L = "column_list cols" and ?G = "groupby snd (column_list cols)"
  have L: "sorted_wrt (<) (map fst (concat (map snd ?G)))"
    by (simp add: groupby_concat column_list_sorted [OF assms])
  have seg: "segments_of cols = map (\<lambda>(c, g). ifg (fst (hd g)) (fst (last g)) c) ?G"
    by (simp add: segments_of_def column_list_def)
  have g: "sorted_wrt (<) (map fst g) \<and> g \<noteq> [] \<and> set g \<subseteq> set ?L \<and> (\<forall>q \<in> set g. snd q = c)" if "(c, g) \<in> set ?G" for c g
  proof -
    have "g \<in> set (map snd ?G)" using that by force
    moreover have "set g \<subseteq> set (concat (map snd ?G))" using that by force
    ultimately show ?thesis using concat_part [OF L] groupby_group [OF that] by (simp add: groupby_concat)
  qed
  have cov: "\<exists>p \<in> set (segments_of cols). covers p x \<and> snd (snd p) = Max (hits_at cols x)" if "hits_at cols x \<noteq> {}" for x
  proof -
    from that have "(x, Max (hits_at cols x)) \<in> set ?L" by (simp add: column_list_member [OF assms])
    from groupby_member [OF this, of snd] obtain g where
      gx: "(Max (hits_at cols x), g) \<in> set ?G" "(x, Max (hits_at cols x)) \<in> set g" by auto
    note hd_le_last [of fst g, OF conjunct1 [OF g [OF gx(1)]] gx(2)]
    then have "covers (ifg (fst (hd g)) (fst (last g)) (Max (hits_at cols x))) x"
      by (auto simp: covers_def ifg_def opt_or_0_def)
    moreover have "ifg (fst (hd g)) (fst (last g)) (Max (hits_at cols x)) \<in> set (segments_of cols)"
      using gx(1) by (force simp: seg)
    ultimately show ?thesis by (intro bexI) (auto simp: ifg_def)
  qed
  have own: "hits_at cols (opt_or_0 (fst p)) \<noteq> {} \<and> snd (snd p) = Max (hits_at cols (opt_or_0 (fst p)))"
    if "p \<in> set (segments_of cols)" for p
  proof -
    from that obtain c h where h: "(c, h) \<in> set ?G" "p = ifg (fst (hd h)) (fst (last h)) c"
      by (auto simp: seg)
    have "hd h \<in> set h" using g [OF h(1)] by simp
    then have "(fst (hd h), c) \<in> set ?L" using g [OF h(1)] by (metis prod.collapse subsetD)
    then show ?thesis by (simp add: column_list_member [OF assms] h(2) ifg_def opt_or_0_def)
  qed
  have "sorted_wrt (<) (map (\<lambda>g. fst (hd g)) (map snd ?G))"
    by (rule concat_heads [OF L]) (use g in auto)
  moreover have "map (\<lambda>p. opt_or_0 (fst p)) (segments_of cols) = map (\<lambda>g. fst (hd g)) (map snd ?G)"
    by (auto simp: seg ifg_def opt_or_0_def)
  ultimately show ?thesis using cov own by (simp add: segments_ok_def)
qed

text \<open>Opening the end of the last segment keeps what the segments promise.\<close>

lemma segments_ok_open:
  assumes "segments_ok hits r" "r \<noteq> []"
  shows "segments_ok hits (butlast r @ [(fst (last r), None, snd (snd (last r)))])"
proof -
  obtain q s e c where r: "r = q @ [(s, e, c)]" using assms(2)
    by (metis append_butlast_last_id prod_cases3)
  have "covers (s, e, c) x \<Longrightarrow> covers (s, None, c) x" for x by (simp add: covers_def)
  with assms(1) r show ?thesis by (fastforce simp: segments_ok_def)
qed

lemma columns_of_empty: "columns_of np = [] \<longleftrightarrow> (\<forall>x. column_hits np x = {})"
proof
  assume "columns_of np = []"
  then show "\<forall>x. column_hits np x = {}" by (simp add: columns_of_hits [symmetric] hits_at_def)
next
  assume none: "\<forall>x. column_hits np x = {}"
  show "columns_of np = []"
  proof (rule ccontr)
    assume "columns_of np \<noteq> []"
    then obtain x cs r where "columns_of np = (x, cs) # r" by (cases "columns_of np") auto
    then have "dict_get (columns_of np) x = Some cs" by (simp add: dict_get_def)
    moreover have "cs \<noteq> []" using calculation columns_of_wf [of np] by (auto simp: wf_columns_def)
    ultimately have "hits_at (columns_of np) x \<noteq> {}" by (simp add: hits_at_def)
    with none show False by (simp add: columns_of_hits)
  qed
qed

lemma merge_partial_line_raises:
  "merge_partial_line p1 p2 = Inl e \<longleftrightarrow>
     e = ValueError \<and> p1 \<noteq> [] \<and> p2 \<noteq> [] \<and> (\<exists>p \<in> set (p1 @ p2). fst (snd p) = None) \<and>
     (\<forall>x. column_hits (p1 @ p2) x = {})"
proof -
  have "p1 \<noteq> [] \<Longrightarrow> p2 \<noteq> [] \<Longrightarrow> \<not> length (p1 @ p2) = 1" by (cases p1; cases p2) auto
  then show ?thesis
    by (auto simp: merge_partial_line_def Let_def columns_of_empty [symmetric])
qed

lemma closed_end_all_open: "\<forall>p \<in> set np. fst (snd p) = None \<Longrightarrow> closed_end np = 0"
proof -
  assume "\<forall>p \<in> set np. fst (snd p) = None"
  then have "fill_closed d np = d" for d
    by (induction np arbitrary: d) (auto simp: fill_closed_def)
  then show ?thesis by (simp add: closed_end_def)
qed

lemma column_hits_all_open:
  assumes "\<forall>p \<in> set np. fst (snd p) = None \<and> 0 \<le> opt_or_0 (fst p)"
  shows "column_hits np x = {}"
proof -
  have "closed_end np = 0" using assms closed_end_all_open [of np] by simp
  with assms show ?thesis by (fastforce simp: column_hits_def split: option.splits)
qed

section \<open>Sessions: the merge is by id\<close>

definition session_of :: "line_session list \<Rightarrow> int \<Rightarrow> line_session option" where
  "session_of ss i = dict_get (sessions_dict ss) i"

definition distinct_ids :: "line_session list \<Rightarrow> bool" where
  "distinct_ids ss \<longleftrightarrow> distinct (map ls_id ss)"

definition keyed :: "(int, line_session) dict \<Rightarrow> bool" where
  "keyed d \<longleftrightarrow> wf_dict d \<and> (\<forall>(i, s) \<in> set d. ls_id s = i)"

lemma sessions_dict_distinct: "distinct_ids ss \<Longrightarrow> sessions_dict ss = map (\<lambda>s. (ls_id s, s)) ss"
  by (simp add: sessions_dict_def distinct_ids_def dict_of_distinct comp_def)

lemma session_of_iff: "distinct_ids ss \<Longrightarrow> session_of ss i = Some s \<longleftrightarrow> s \<in> set ss \<and> ls_id s = i"
proof -
  assume d: "distinct_ids ss"
  have "wf_dict (sessions_dict ss)" by (simp add: sessions_dict_def)
  from dict_get_iff [OF this] show ?thesis
    by (auto simp: session_of_def sessions_dict_distinct [OF d])
qed

lemma session_of_None: "session_of ss i = None \<longleftrightarrow> i \<notin> ls_id ` set ss"
  by (force simp: session_of_def sessions_dict_def dict_get_of map_of_eq_None_iff)

lemma keyed_sessions_dict: "distinct_ids ss \<Longrightarrow> keyed (sessions_dict ss)"
  by (auto simp: keyed_def sessions_dict_distinct wf_dict_def distinct_ids_def comp_def)

lemma keyed_values: "keyed d \<Longrightarrow> map (\<lambda>s. (ls_id s, s)) (dict_values d) = d"
  by (auto simp: keyed_def dict_values_def intro!: map_idI)

lemma merge_line_session_id: "merge_line_session a b = Inr m \<Longrightarrow> ls_id m = ls_id a"
  by (auto simp: merge_line_session_def)

text \<open>How the session of an id arises from the two sides.\<close>

definition merged_session :: "line_session option \<Rightarrow> line_session option \<Rightarrow> line_session option \<Rightarrow> bool" where
  "merged_session a b m =
     (case (a, b) of
        (Some s, Some s') \<Rightarrow> (case m of None \<Rightarrow> False | Some t \<Rightarrow> merge_line_session s s' = Inr t)
      | (Some s, None) \<Rightarrow> m = Some s
      | (None, _) \<Rightarrow> m = b)"

lemma merge_common_get:
  assumes "merge_common d1 d2 = Inr d" "keyed d1"
  shows "dict_keys d = dict_keys d1" "keyed d"
    "dict_get d1 i \<noteq> None \<Longrightarrow> merged_session (dict_get d1 i) (dict_get d2 i) (dict_get d i)"
proof -
  have "dict_keys d = dict_keys d1 \<and> ((\<forall>(i, s) \<in> set d1. ls_id s = i) \<longrightarrow> (\<forall>(i, s) \<in> set d. ls_id s = i)) \<and>
      (\<forall>i. dict_get d1 i \<noteq> None \<longrightarrow> merged_session (dict_get d1 i) (dict_get d2 i) (dict_get d i))"
    using assms(1)
  proof (induction d1 arbitrary: d)
    case Nil
    then show ?case by (simp add: merge_common_def)
  next
    case (Cons p d1)
    obtain j s where p: "p = (j, s)" by (cases p)
    from Cons.prems obtain t e where d: "d = (j, t) # e" and e: "merge_common d1 d2 = Inr e"
      and t: "merged_session (Some s) (dict_get d2 j) (Some t)"
      by (auto simp: merge_common_def p merged_session_def split: option.splits)
    have "ls_id s = j \<Longrightarrow> ls_id t = j"
      using t by (auto simp: merged_session_def merge_line_session_id split: option.splits)
    with Cons.IH [OF e] t show ?case by (auto simp: d p dict_keys_def dict_get_def)
  qed
  with assms(2) show "dict_keys d = dict_keys d1" "keyed d"
    "dict_get d1 i \<noteq> None \<Longrightarrow> merged_session (dict_get d1 i) (dict_get d2 i) (dict_get d i)"
    by (auto simp: keyed_def wf_dict_def dict_keys_def)
qed

lemma merge_sessions_lookup:
  assumes "distinct_ids s1" "distinct_ids s2" "merge_sessions s1 s2 = Inr r"
  shows "distinct_ids r" "merged_session (session_of s1 i) (session_of s2 i) (session_of r i)"
proof -
  have "distinct_ids r \<and> merged_session (session_of s1 i) (session_of s2 i) (session_of r i)"
  proof (cases "s1 = [] \<or> s2 = []")
    case True
    have "session_of [] i = None" by (simp add: session_of_None)
    with True assms show ?thesis
      by (auto simp: merge_sessions_def merged_session_def split: if_splits option.splits)
  next
    case ne: False
    show ?thesis
    proof (cases "ls_id ` set s1 \<inter> ls_id ` set s2 = {}")
      case True
      with ne assms have r: "r = s1 @ s2" "distinct_ids (s1 @ s2)"
        by (auto simp: merge_sessions_def distinct_ids_def split: if_splits)
      have "session_of (s1 @ s2) i = (case session_of s1 i of None \<Rightarrow> session_of s2 i | Some s \<Rightarrow> Some s)"
        using assms r by (simp add: session_of_def sessions_dict_distinct dict_get_append cong: option.case_cong)
      moreover have "session_of s1 i = None \<or> session_of s2 i = None"
        using True by (auto simp: session_of_None)
      ultimately show ?thesis using r by (auto simp: merged_session_def split: option.splits)
    next
      case False
      let ?d1 = "sessions_dict s1" and ?d2 = "sessions_dict s2"
      let ?e = "dict_dels ?d2 (dict_keys ?d1)"
      from False ne assms obtain d where d: "merge_common ?d1 ?d2 = Inr d"
        and r: "r = dict_values d @ dict_values ?e"
        by (auto simp: merge_sessions_def Let_def split: if_splits)
      have k: "keyed ?d1" "keyed ?d2" by (simp_all add: keyed_sessions_dict assms)
      note mc = merge_common_get [OF d k(1)]
      have e: "keyed ?e" using k(2) wf_dict_dels [of ?d2 "dict_keys ?d1"] by (auto simp: keyed_def dict_dels_filter)
      have m: "map (\<lambda>s. (ls_id s, s)) r = d @ ?e" by (simp add: r keyed_values [OF mc(2)] keyed_values [OF e])
      have "distinct (map fst (d @ ?e))"
        using mc(1,2) e by (auto simp: keyed_def wf_dict_def dict_dels_filter dict_keys_def) force
      then have dist: "distinct_ids r"
        by (simp add: distinct_ids_def flip: m) (simp add: comp_def)
      have "session_of r i = (case dict_get d i of None \<Rightarrow> dict_get ?e i | Some s \<Rightarrow> Some s)"
        using dist by (simp add: session_of_def sessions_dict_distinct m dict_get_append)
      moreover have "dict_get d i = None \<longleftrightarrow> dict_get ?d1 i = None" by (simp add: dict_get_None mc(1))
      moreover have "dict_get ?e i = (if dict_get ?d1 i = None then dict_get ?d2 i else None)"
        using dict_get_dels [of ?d2 "dict_keys ?d1" i] dict_get_None [of ?d1 i] by simp
      ultimately have "merged_session (session_of s1 i) (session_of s2 i) (session_of r i)"
        using mc(3) [of i] by (cases "dict_get ?d1 i") (auto simp: session_of_def merged_session_def split: option.splits)
      with dist show ?thesis by simp
    qed
  qed
  then show "distinct_ids r" "merged_session (session_of s1 i) (session_of s2 i) (session_of r i)" by simp_all
qed


section \<open>Lines whose sessions count hits\<close>

text \<open>The hit count of a session that carries nothing else, \<open>None\<close> for any other session.\<close>

definition hits_of :: "line_session \<Rightarrow> int" where
  "hits_of s = (case ls_coverage s of CovInt i \<Rightarrow> i | _ \<Rightarrow> 0)"

definition counts_hits :: "line_session \<Rightarrow> bool" where
  "counts_hits s \<longleftrightarrow> ls_coverage s = CovInt (hits_of s) \<and> 0 \<le> hits_of s \<and> hits_of s < 2 ^ 1023 \<and>
     ls_branches s = None \<and> ls_partials s = None \<and> ls_complexity s = None"

lemma merge_line_session_hits:
  assumes "counts_hits a" "counts_hits b"
  shows "merge_line_session a b = Inr (LineSession (ls_id a) (CovInt (max (hits_of a) (hits_of b))) None None None)"
  using assms
  by (simp add: counts_hits_def merge_line_session_def merge_line_session_branches_def
      merge_session_partials_def merge_coverage_ints)

lemma hits_of_LineSession [simp]:
  "hits_of (LineSession i (CovInt n) None None None) = n"
  "counts_hits (LineSession i (CovInt n) None None None) \<longleftrightarrow> 0 \<le> n \<and> n < 2 ^ 1023"
  by (auto simp: hits_of_def counts_hits_def)

lemma merge_sessions_total:
  assumes "\<And>a b. a \<in> set s1 \<Longrightarrow> b \<in> set s2 \<Longrightarrow> is_ok (merge_line_session a b)"
  shows "\<exists>r. merge_sessions s1 s2 = Inr r"
proof -
  have v: "i = ls_id s \<and> s \<in> set ss" if "(i, s) \<in> set (sessions_dict ss)" for i s ss
  proof -
    have "dict_get (sessions_dict ss) i = Some s" using that by (simp add: dict_get_iff sessions_dict_def)
    then show ?thesis by (auto simp: sessions_dict_def dict_get_of dest!: map_of_SomeD)
  qed
  have "\<exists>y. (case dict_get (sessions_dict s2) i of None \<Rightarrow> Inr (i, s) | Some s' \<Rightarrow> map_res (Pair i) (merge_line_session s s')) = Inr y"
    if "(i, s) \<in> set (sessions_dict s1)" for i s
    using v [OF that] v [of i _ s2] assms
    by (fastforce split: option.split simp: is_ok_iff dest: dict_get_in)
  then have "\<exists>d. merge_common (sessions_dict s1) (sessions_dict s2) = Inr d"
    unfolding merge_common_def by (intro traverse_ok) auto
  then show ?thesis by (auto simp: merge_sessions_def Let_def)
qed


lemma merge_sessions_ids:
  assumes "distinct_ids s1" "distinct_ids s2" "merge_sessions s1 s2 = Inr r"
  shows "ls_id ` set r = ls_id ` set s1 \<union> ls_id ` set s2"
proof -
  have mem: "i \<in> ls_id ` set ss \<longleftrightarrow> session_of ss i \<noteq> None" for i ss by (simp add: session_of_None)
  have "session_of r i \<noteq> None \<longleftrightarrow> session_of s1 i \<noteq> None \<or> session_of s2 i \<noteq> None" for i
    using merge_sessions_lookup(2) [OF assms, of i]
    by (cases "session_of s1 i"; cases "session_of s2 i"; cases "session_of r i") (auto simp: merged_session_def)
  then show ?thesis by (intro set_eqI) (simp only: Un_iff mem)
qed

lemma merged_session_hits:
  assumes "merged_session (session_of s1 i) (session_of s2 i) (session_of r i)"
    and "distinct_ids s1" "distinct_ids s2" "distinct_ids r" "\<forall>s \<in> set s1 \<union> set s2. counts_hits s"
  shows "t \<in> set r \<Longrightarrow> ls_id t = i \<Longrightarrow> counts_hits t \<and> hits_of t \<in> hits_of ` (set s1 \<union> set s2)"
    and "s \<in> set s1 \<union> set s2 \<Longrightarrow> ls_id s = i \<Longrightarrow> \<exists>t \<in> set r. hits_of s \<le> hits_of t"
proof -
  consider (left) a where "a \<in> set s1" "ls_id a = i" "session_of s2 i = None" "session_of r i = Some a"
      "session_of s1 i = Some a"
    | (right) b where "b \<in> set s2" "ls_id b = i" "session_of s1 i = None" "session_of r i = Some b"
      "session_of s2 i = Some b"
    | (both) a b where "a \<in> set s1" "b \<in> set s2" "session_of s1 i = Some a" "session_of s2 i = Some b"
      "session_of r i = Some (LineSession i (CovInt (max (hits_of a) (hits_of b))) None None None)"
    | (neither) "session_of s1 i = None" "session_of s2 i = None" "session_of r i = None"
    using assms
    by (cases "session_of s1 i"; cases "session_of s2 i"; cases "session_of r i")
      (auto simp: merged_session_def session_of_iff merge_line_session_hits)
  note cases = this
  show "counts_hits t \<and> hits_of t \<in> hits_of ` (set s1 \<union> set s2)" if "t \<in> set r" "ls_id t = i"
  proof -
    have t: "session_of r i = Some t" using that assms(4) by (simp add: session_of_iff)
    show ?thesis
      by (rule cases) (use t assms(5) in \<open>auto simp: max_def counts_hits_def [of "LineSession _ _ _ _ _"]
          counts_hits_def\<close>)
  qed
  show "\<exists>t \<in> set r. hits_of s \<le> hits_of t" if "s \<in> set s1 \<union> set s2" "ls_id s = i"
  proof -
    have s: "session_of s1 i = Some s \<or> session_of s2 i = Some s"
      using that assms(2,3) by (auto simp: session_of_iff)
    have r: "session_of r i = Some t \<Longrightarrow> t \<in> set r" for t using assms(4) by (simp add: session_of_iff)
    have "\<exists>t. session_of r i = Some t \<and> hits_of s \<le> hits_of t"
      by (rule cases) (use s in auto)
    with r show ?thesis by blast
  qed
qed

lemma merge_sessions_hits:
  assumes "\<forall>s \<in> set s1 \<union> set s2. counts_hits s" "distinct_ids s1" "distinct_ids s2" "s1 \<noteq> [] \<or> s2 \<noteq> []"
  shows "\<exists>r. merge_sessions s1 s2 = Inr r \<and> r \<noteq> [] \<and> distinct_ids r \<and> (\<forall>s \<in> set r. counts_hits s) \<and>
    ls_id ` set r = ls_id ` set s1 \<union> ls_id ` set s2 \<and>
    Max (hits_of ` set r) = Max (hits_of ` (set s1 \<union> set s2))"
proof -
  obtain r where r: "merge_sessions s1 s2 = Inr r"
    using merge_sessions_total [of s1 s2] assms(1) merge_line_session_hits by fastforce
  note lk = merge_sessions_lookup [OF assms(2,3) r] and ids = merge_sessions_ids [OF assms(2,3) r]
  note hits = merged_session_hits [OF lk(2) assms(2,3) lk(1) assms(1)]
  have ne: "r \<noteq> []" using ids assms(4) by auto
  have "Max (hits_of ` set r) = Max (hits_of ` (set s1 \<union> set s2))"
  proof (rule antisym)
    show "Max (hits_of ` set r) \<le> Max (hits_of ` (set s1 \<union> set s2))"
      using hits(1) ne assms(4) by (intro Max_mono) auto
    show "Max (hits_of ` (set s1 \<union> set s2)) \<le> Max (hits_of ` set r)"
    proof (rule Max.boundedI)
      fix h assume "h \<in> hits_of ` (set s1 \<union> set s2)"
      then obtain t where "t \<in> set r" "h \<le> hits_of t" using hits(2) by blast
      then show "h \<le> Max (hits_of ` set r)" by (meson Max_ge List.finite_set finite_imageI imageI order_trans)
    qed (use assms(4) in auto)
  qed
  with r ne lk(1) ids hits(1) show ?thesis by blast
qed

section \<open>Properties\<close>

lemma cov_num_numeric: "cov_num l = Some q \<Longrightarrow> is_ok (cast_ints_float l) \<Longrightarrow> cast_ints_float l = Inr (case l of CovFrac _ \<Rightarrow> TFraction | _ \<Rightarrow> TFloat)"
  by (cases l) (auto simp: cast_ints_float_def split: if_splits)

text \<open>
  Merging two numeric coverage values (hit counts, fractions, booleans; an integer within the
  range of a double) returns the one with the larger value, and a skipped line (-1) on either side
  makes the merged line skipped.
\<close>

theorem merge_coverage_numeric:
  assumes "cov_num l1 = Some x" "cov_num l2 = Some y" "is_ok (cast_ints_float l1)" "is_ok (cast_ints_float l2)"
  shows "\<exists>c. merge_coverage l1 l2 bm = Inr c \<and>
    (if x = -1 \<or> y = -1 then c = CovInt (-1) else (c = l1 \<or> c = l2) \<and> cov_num c = Some (max x y))"
proof -
  have "l1 \<noteq> CovNone" "l2 \<noteq> CovNone" using assms by auto
  moreover have "cast_ints_float l1 = Inr TFloat \<or> cast_ints_float l1 = Inr TFraction"
    "cast_ints_float l2 = Inr TFloat \<or> cast_ints_float l2 = Inr TFraction"
    using cov_num_numeric [OF assms(1,3)] cov_num_numeric [OF assms(2,4)] by (auto split: cov.splits)
  ultimately show ?thesis using assms
    by (subst merge_coverage.simps) (auto simp: cov_is_def max_def)
qed

theorem merge_coverage_numeric_witness:
  "\<exists>c. merge_coverage (CovInt 3) (CovFrac (7 / 2)) None = Inr c \<and> (c = CovInt 3 \<or> c = CovFrac (7 / 2)) \<and> cov_num c = Some (7 / 2)"
  using merge_coverage_numeric [of "CovInt 3" 3 "CovFrac (7 / 2)" "7 / 2" None]
  by (simp add: cast_ints_float_def max_def)

lemma last_split_frac: "last_split (CovStr (frac_str a b)) = Inr (int_str b)"
  using split_join [of "[int_str a, int_str b]" "CHR ''/''"]
  by (simp add: last_split_def frac_str_def)

lemma unpack_frac: "unpack_branch (CovStr (frac_str a b)) = Inr (int_str a, int_str b)"
  by (simp add: unpack_branch_def frac_str_def split_once_append)

lemma frac_str_inject: "frac_str a b = frac_str c d \<longleftrightarrow> a = c \<and> b = d"
proof -
  have "split_once (CHR ''/'') (frac_str x y) = Some (int_str x, int_str y)" for x y
    by (simp add: frac_str_def split_once_append)
  then show ?thesis by (metis int_str_inject option.inject prod.inject)
qed

lemma merge_branch_frac:
  "merge_branch (CovStr (frac_str a b)) (CovStr (frac_str c d)) =
     Inr (CovStr (if a = b then frac_str a b else if c = d then frac_str c d else frac_str (max a c) (max b d)))"
  by (auto simp: merge_branch_def cov_eq_def is_pos_int_def in_zero_none_true_def is_cov_list_def unpack_frac
      frac_str_inject int_str_inject frac_str_def [symmetric] frac_str_def [of "max a c" "max b d"] max_def)

text \<open>
  Merging two branch strings \<open>a/b\<close> and \<open>c/d\<close>. When the sessions say which branches are still
  missed, the result has the first string's total and all but the missed branches as covered,
  never less than none; when they do not, a fully covered side wins and otherwise the larger
  count of either side is taken.
\<close>

theorem merge_coverage_branches:
  "merge_coverage (CovStr (frac_str a b)) (CovStr (frac_str c d)) bm =
     Inr (CovStr (case bm of
        Some [] \<Rightarrow> frac_str b b
      | Some missed \<Rightarrow> frac_str (max 0 (b - int (length missed))) b
      | None \<Rightarrow> if a = b then frac_str a b else if c = d then frac_str c d else frac_str (max a c) (max b d)))"
proof -
  have "merge_coverage (CovStr (frac_str a b)) (CovStr (frac_str c d)) bm =
      merge_str (CovStr (frac_str a b)) TStr (CovStr (frac_str c d)) TStr bm"
    by (subst merge_coverage.simps) (simp add: cast_ints_float_def)
  moreover have "0 < x \<Longrightarrow> max 0 x = x" "\<not> 0 < x \<Longrightarrow> max 0 x = 0" for x :: int by auto
  ultimately show ?thesis
    by (cases bm; cases "the bm")
      (simp_all add: merge_str_def last_split_frac merge_branch_frac Let_def flip: frac_str_def)
qed

text \<open>
  The missed branches of a line's sessions are the branches that every session which lists its
  missed branches has missed, and none when a session without branch data hit the line; the
  result is nothing exactly when no session lists branches.
\<close>

theorem merge_missed_branches_intersection:
  assumes "\<forall>s \<in> set ss. ls_branches s = None \<longrightarrow> is_ok (line_type (ls_coverage s))"
  shows "if \<exists>s \<in> set ss. ls_branches s \<noteq> None
    then \<exists>m. merge_missed_branches ss = Inr (Some m) \<and> set m = missed_spec ss
    else merge_missed_branches ss = Inr None"
  using missed_loop_spec [OF assms, of None] by (auto simp: merge_missed_branches_def missed_inter_def)

theorem merge_missed_branches_witness:
  "\<exists>m. merge_missed_branches
      [LineSession 0 (CovStr ''1/3'') (Some [BrInt 1, BrInt 2]) None None,
       LineSession 1 (CovInt 0) None None None,
       LineSession 2 (CovStr ''1/3'') (Some [BrInt 2, BrInt 3]) None None] = Inr (Some m) \<and> set m = {BrInt 2}"
proof -
  let ?ss = "[LineSession 0 (CovStr ''1/3'') (Some [BrInt 1, BrInt 2]) None None,
       LineSession 1 (CovInt 0) None None None,
       LineSession 2 (CovStr ''1/3'') (Some [BrInt 2, BrInt 3]) None None]"
  have "missed_spec ?ss = {BrInt 2}" by (auto simp: missed_spec_def line_type_def)
  then show ?thesis
    using merge_missed_branches_intersection [of ?ss] by (simp add: line_type_def)
qed

text \<open>
  Merging two lists of partials keeps the best hit count of every column: each column that some
  partial covers lies in a merged segment whose count is the maximum over the partials that
  cover it, each segment starts at such a column with that column's count, and the segments'
  starts increase.
\<close>

theorem merge_partial_line_max:
  assumes "p1 \<noteq> []" "p2 \<noteq> []" "merge_partial_line p1 p2 = Inr r"
  shows "segments_ok (column_hits (p1 @ p2)) r"
proof -
  let ?C = "columns_of (p1 @ p2)"
  have ok: "segments_ok (column_hits (p1 @ p2)) (segments_of ?C)"
  proof -
    have "hits_at ?C = column_hits (p1 @ p2)" by (rule ext) (rule columns_of_hits)
    with segments_of_ok [OF columns_of_wf, of "p1 @ p2"] show ?thesis by simp
  qed
  have "\<not> length (p1 @ p2) = 1" using assms by (cases p1; cases p2) auto
  moreover have "?C \<noteq> [] \<Longrightarrow> segments_of ?C \<noteq> []"
    by (simp add: segments_of_def sort_key_Nil_iff)
  ultimately show ?thesis
    using assms segments_ok_open [OF ok] ok by (auto simp: merge_partial_line_def Let_def split: if_splits)
qed

theorem merge_partial_line_witness:
  "segments_ok (column_hits [(Some 1, Some 4, 0), (Some 3, None, 2)]) [(Some 1, Some 2, 0), (Some 3, None, 2)]"
proof -
  have "merge_partial_line [(Some 1, Some 4, 0)] [(Some 3, None, 2)] = Inr [(Some 1, Some 2, 0), (Some 3, None, 2)]"
    by code_simp
  then show ?thesis
    using merge_partial_line_max [of "[(Some 1, Some 4, 0)]" "[(Some 3, None, 2)]" "[(Some 1, Some 2, 0), (Some 3, None, 2)]"]
    by simp
qed

text \<open>
  Merging two non-empty lists of partials raises \<open>ValueError\<close> when none of the partials has an
  end column (\<open>max([])\<close> over the columns of the line), although each list alone is valid.
\<close>

theorem merge_partial_line_open_ended:
  assumes "p1 \<noteq> []" "p2 \<noteq> []" "\<forall>p \<in> set (p1 @ p2). fst (snd p) = None \<and> 0 \<le> opt_or_0 (fst p)"
  shows "merge_partial_line p1 p2 = Inl ValueError"
proof -
  have "\<exists>p \<in> set (p1 @ p2). fst (snd p) = None" using assms by (cases p1) auto
  with assms column_hits_all_open [OF assms(3)] show ?thesis by (simp add: merge_partial_line_raises)
qed

theorem merge_partial_line_open_ended_witness:
  "merge_partial_line [(Some 1, None, 1)] [(Some 3, None, 0)] = Inl ValueError"
  by (rule merge_partial_line_open_ended) (auto simp: opt_or_0_def)

text \<open>
  Merging the sessions of two lines is a merge by session id: ids stay unique, an id of one side
  only keeps its session, and an id of both sides has the merge of its two sessions.
\<close>

theorem merge_sessions_by_id:
  assumes "distinct_ids s1" "distinct_ids s2" "merge_sessions s1 s2 = Inr r"
  shows "distinct_ids r \<and> ls_id ` set r = ls_id ` set s1 \<union> ls_id ` set s2 \<and>
    (\<forall>i. merged_session (session_of s1 i) (session_of s2 i) (session_of r i))"
  using merge_sessions_lookup [OF assms] merge_sessions_ids [OF assms] by simp

theorem merge_sessions_by_id_witness:
  "distinct_ids [LineSession 0 (CovInt 1) None None None, LineSession 1 (CovInt 2) None None None] \<and>
   merged_session (session_of [LineSession 0 (CovInt 1) None None None] 1)
     (session_of [LineSession 1 (CovInt 2) None None None] 1)
     (session_of [LineSession 0 (CovInt 1) None None None, LineSession 1 (CovInt 2) None None None] 1)"
  using merge_sessions_by_id [of "[LineSession 0 (CovInt 1) None None None]" "[LineSession 1 (CovInt 2) None None None]"
    "[LineSession 0 (CovInt 1) None None None, LineSession 1 (CovInt 2) None None None]"]
  by (simp add: distinct_ids_def merge_sessions_def)

text \<open>
  C24. Joining two lines whose sessions count hits always succeeds: the merged line's coverage is the
  largest hit count of any session of either line, and its session ids are those of both lines.
\<close>

theorem merge_line_best_hits:
  assumes "\<forall>s \<in> set (rl_sessions a) \<union> set (rl_sessions b). counts_hits s"
    and "distinct_ids (rl_sessions a)" "distinct_ids (rl_sessions b)" "rl_sessions a \<noteq> []"
  shows "\<exists>l. merge_line (Some a) (Some b) True False = Inr (Some l) \<and>
    rl_coverage l = CovInt (Max (hits_of ` (set (rl_sessions a) \<union> set (rl_sessions b)))) \<and>
    distinct_ids (rl_sessions l) \<and> ls_id ` set (rl_sessions l) = ls_id ` set (rl_sessions a) \<union> ls_id ` set (rl_sessions b)"
proof -
  from merge_sessions_hits [OF assms(1,2,3)] assms(4) obtain r where
    r: "merge_sessions (rl_sessions a) (rl_sessions b) = Inr r" "r \<noteq> []" "distinct_ids r"
      "\<forall>s \<in> set r. counts_hits s" "ls_id ` set r = ls_id ` set (rl_sessions a) \<union> ls_id ` set (rl_sessions b)"
      "Max (hits_of ` set r) = Max (hits_of ` (set (rl_sessions a) \<union> set (rl_sessions b)))" by auto
  have "merge_missed_branches r = Inr None" using r(4) by (auto simp: merge_missed_branches_def counts_hits_def)
  moreover have "map ls_coverage r = map CovInt (map hits_of r)" using r(4) by (auto simp: counts_hits_def)
  moreover have "merge_all (map CovInt (map hits_of r)) None = Inr (CovInt (Max (set (map hits_of r))))"
    using r(2,4) by (intro merge_all_ints) (auto simp: counts_hits_def)
  ultimately have "get_coverage_from_sessions r = Inr (CovInt (Max (hits_of ` set r)))"
    by (simp add: get_coverage_from_sessions_def del: map_map)
  moreover have "get_complexity_from_sessions r = Inr None"
    using r(2,4) by (cases r) (auto simp: get_complexity_from_sessions_def counts_hits_def)
  ultimately show ?thesis using r by (simp add: merge_line_def)
qed

theorem merge_line_best_hits_witness:
  "\<exists>l. merge_line
      (Some (ReportLine_create (CovInt 0) None [LineSession 0 (CovInt 0) None None None] None))
      (Some (ReportLine_create (CovInt 3) None [LineSession 0 (CovInt 3) None None None, LineSession 1 (CovInt 2) None None None] None))
      True False = Inr (Some l) \<and> rl_coverage l = CovInt 3"
  using merge_line_best_hits [of "ReportLine_create (CovInt 0) None [LineSession 0 (CovInt 0) None None None] None"
      "ReportLine_create (CovInt 3) None [LineSession 0 (CovInt 3) None None None, LineSession 1 (CovInt 2) None None None] None"]
  by (auto simp: distinct_ids_def)

end
