(* ===== verification/Totals.thy ===== *)
theory Totals
  imports Merge
begin

text \<open>
  Totals over lines (libs/shared/shared/reports/totals.py) and over totals
  (libs/shared/shared/utils/totals.py). The report's totals are the sums of its files' totals;
  the theorems show that they are the totals of all lines together.
\<close>

section \<open>Totals of lines\<close>

text \<open>The counters of the loop of \<open>get_line_totals\<close>.\<close>

record line_counts =
  n_hits :: int
  n_misses :: int
  n_partials :: int
  n_branches :: int
  n_methods :: int
  n_complexity :: int
  n_complexity_total :: int

definition no_lines :: line_counts where
  "no_lines = \<lparr>n_hits = 0, n_misses = 0, n_partials = 0, n_branches = 0, n_methods = 0,
     n_complexity = 0, n_complexity_total = 0\<rparr>"

definition count_coverage :: "line_type_t option \<Rightarrow> line_counts \<Rightarrow> line_counts" where
  "count_coverage ct k =
     (case ct of
        Some LT_hit \<Rightarrow> k\<lparr>n_hits := n_hits k + 1\<rparr>
      | Some LT_miss \<Rightarrow> k\<lparr>n_misses := n_misses k + 1\<rparr>
      | Some LT_partial \<Rightarrow> k\<lparr>n_partials := n_partials k + 1\<rparr>
      | _ \<Rightarrow> k)"

definition count_type :: "string option \<Rightarrow> line_counts \<Rightarrow> line_counts" where
  "count_type ty k =
     (if ty = Some ''b'' then k\<lparr>n_branches := n_branches k + 1\<rparr>
      else if ty = Some ''m'' then k\<lparr>n_methods := n_methods k + 1\<rparr>
      else k)"

definition count_complexity :: "complexity option \<Rightarrow> line_counts \<Rightarrow> line_counts" where
  "count_complexity cx k =
     (case cx of
        Some (CxInt i) \<Rightarrow> k\<lparr>n_complexity := n_complexity k + i\<rparr>
      | Some (CxPair c n) \<Rightarrow> k\<lparr>n_complexity := n_complexity k + c, n_complexity_total := n_complexity_total k + n\<rparr>
      | None \<Rightarrow> k)"

definition count_line :: "line_counts \<Rightarrow> report_line \<Rightarrow> line_counts res" where
  "count_line k line =
     bind_res (line_type (rl_coverage line)) (\<lambda>ct.
       Inr (count_complexity (rl_complexity line) (count_type (rl_type line) (count_coverage ct k))))"

definition coverage_of :: "int \<Rightarrow> int \<Rightarrow> fval" where
  "coverage_of hits lines = (if lines \<noteq> 0 then VStr (ratio hits lines) else VNone)"

definition totals_of_counts :: "line_counts \<Rightarrow> report_totals" where
  "totals_of_counts k =
     (let n = n_hits k + n_misses k + n_partials k
      in \<lparr>t_files = 0, t_lines = n, t_hits = n_hits k, t_misses = n_misses k, t_partials = n_partials k,
          t_coverage = coverage_of (n_hits k) n, t_branches = n_branches k, t_methods = n_methods k,
          t_messages = 0, t_sessions = 0, t_complexity = Some (n_complexity k),
          t_complexity_total = Some (n_complexity_total k), t_diff = 0\<rparr>)"

definition get_line_totals :: "report_line list \<Rightarrow> report_totals res" where
  "get_line_totals lines = map_res totals_of_counts (foldl_res count_line no_lines lines)"

section \<open>Sums of totals\<close>

text \<open>
  \<open>_sum\<close> on the column of an optional integer: nothing when the first total has none;
  otherwise the sum, where the fallback of the exception handler skips the totals without one.
\<close>

definition sum_col :: "int option list \<Rightarrow> int option" where
  "sum_col xs =
     (case xs of
        [] \<Rightarrow> None
      | None # _ \<Rightarrow> None
      | Some _ # _ \<Rightarrow> Some (sum_list (map opt_or_0 xs)))"

text \<open>
  \<open>agg_totals\<close>: the columns of the totals are summed one by one; the number of files and the
  coverage are then overwritten.
\<close>

definition agg_totals :: "report_totals list \<Rightarrow> report_totals" where
  "agg_totals ts =
     (if ts = [] then default_totals
      else
        let col = (\<lambda>f. sum_list (map f ts))
        in \<lparr>t_files = int (length ts), t_lines = col t_lines, t_hits = col t_hits,
            t_misses = col t_misses, t_partials = col t_partials,
            t_coverage = coverage_of (col t_hits) (col t_lines),
            t_branches = col t_branches, t_methods = col t_methods, t_messages = col t_messages,
            t_sessions = col t_sessions, t_complexity = sum_col (map t_complexity ts),
            t_complexity_total = sum_col (map t_complexity_total ts), t_diff = col t_diff\<rparr>)"

text \<open>\<open>sum(map(attrgetter(...)))\<close> raises \<open>TypeError\<close> on a total without complexity.\<close>

definition sum_strict :: "int option list \<Rightarrow> int res" where
  "sum_strict xs = (if None \<in> set xs then Inl TypeError else Inr (sum_list (map opt_or_0 xs)))"

definition sum_totals :: "report_totals list \<Rightarrow> report_totals res" where
  "sum_totals ts =
     (case ts of
        [] \<Rightarrow> Inr default_totals
      | t # _ \<Rightarrow>
          let col = (\<lambda>f. sum_list (map f ts))
          in bind_res (sum_strict (map t_complexity ts)) (\<lambda>cx.
             bind_res (sum_strict (map t_complexity_total ts)) (\<lambda>cxt.
               Inr \<lparr>t_files = int (length ts), t_lines = col t_lines, t_hits = col t_hits,
                 t_misses = col t_misses, t_partials = col t_partials,
                 t_coverage = coverage_of (col t_hits) (col t_lines),
                 t_branches = col t_branches, t_methods = col t_methods, t_messages = col t_messages,
                 t_sessions = t_sessions t, t_complexity = Some cx, t_complexity_total = Some cxt, t_diff = 0\<rparr>)))"

section \<open>Counting is additive\<close>

definition add_counts :: "line_counts \<Rightarrow> line_counts \<Rightarrow> line_counts" where
  "add_counts a b =
     \<lparr>n_hits = n_hits a + n_hits b, n_misses = n_misses a + n_misses b,
      n_partials = n_partials a + n_partials b, n_branches = n_branches a + n_branches b,
      n_methods = n_methods a + n_methods b, n_complexity = n_complexity a + n_complexity b,
      n_complexity_total = n_complexity_total a + n_complexity_total b\<rparr>"

lemma add_counts_no_lines [simp]: "add_counts k no_lines = k" "add_counts no_lines k = k"
  by (simp_all add: add_counts_def no_lines_def)

lemma add_counts_assoc: "add_counts (add_counts a b) c = add_counts a (add_counts b c)"
  by (simp add: add_counts_def add.assoc)

lemma count_parts_add:
  "count_coverage ct (add_counts k j) = add_counts k (count_coverage ct j)"
  "count_type ty (add_counts k j) = add_counts k (count_type ty j)"
  "count_complexity cx (add_counts k j) = add_counts k (count_complexity cx j)"
  by (simp_all add: count_coverage_def count_type_def count_complexity_def add_counts_def
      split: option.split line_type_t.split complexity.split)

lemma count_line_add:
  "count_line k l = map_res (add_counts k) (count_line no_lines l)"
proof -
  have "count_line (add_counts k no_lines) l = map_res (add_counts k) (count_line no_lines l)"
    by (cases "line_type (rl_coverage l)") (simp_all add: count_line_def count_parts_add del: add_counts_no_lines)
  then show ?thesis by simp
qed

lemma count_lines_add:
  "foldl_res count_line k ls = map_res (add_counts k) (foldl_res count_line no_lines ls)"
proof (induction ls arbitrary: k)
  case Nil
  then show ?case by simp
next
  case (Cons l ls)
  show ?case
  proof (cases "count_line no_lines l")
    case (Inl e)
    then show ?thesis by (simp add: count_line_add [of k])
  next
    case (Inr a)
    have "foldl_res count_line k (l # ls) = map_res (add_counts (add_counts k a)) (foldl_res count_line no_lines ls)"
      by (simp add: count_line_add [of k] Inr Cons.IH [of "add_counts k a"])
    moreover have "foldl_res count_line no_lines (l # ls) = map_res (add_counts a) (foldl_res count_line no_lines ls)"
      by (simp add: Inr Cons.IH [of a])
    ultimately show ?thesis
      by (cases "foldl_res count_line no_lines ls") (simp_all add: add_counts_assoc del: foldl_res.simps)
  qed
qed

text \<open>The counts of a file's lines, when every coverage value can be classified.\<close>

definition counts_of :: "report_line list \<Rightarrow> line_counts res" where
  "counts_of ls = foldl_res count_line no_lines ls"

lemma counts_of_append:
  "counts_of (xs @ ys) = bind_res (counts_of xs) (\<lambda>a. map_res (add_counts a) (counts_of ys))"
proof (cases "foldl_res count_line no_lines xs")
  case (Inl e)
  then show ?thesis by (simp add: counts_of_def foldl_res_append)
next
  case (Inr a)
  then show ?thesis by (simp add: counts_of_def foldl_res_append count_lines_add [of a ys])
qed

lemma get_line_totals_counts: "get_line_totals ls = map_res totals_of_counts (counts_of ls)"
  by (simp add: get_line_totals_def counts_of_def)

lemma totals_of_counts_simps [simp]:
  "t_lines (totals_of_counts k) = n_hits k + n_misses k + n_partials k"
  "t_hits (totals_of_counts k) = n_hits k"
  "t_misses (totals_of_counts k) = n_misses k"
  "t_partials (totals_of_counts k) = n_partials k"
  "t_branches (totals_of_counts k) = n_branches k"
  "t_methods (totals_of_counts k) = n_methods k"
  "t_messages (totals_of_counts k) = 0"
  "t_sessions (totals_of_counts k) = 0"
  "t_complexity (totals_of_counts k) = Some (n_complexity k)"
  "t_complexity_total (totals_of_counts k) = Some (n_complexity_total k)"
  "t_diff (totals_of_counts k) = 0"
  "t_coverage (totals_of_counts k) = coverage_of (n_hits k) (n_hits k + n_misses k + n_partials k)"
  by (simp_all add: totals_of_counts_def Let_def)

definition sum_counts :: "line_counts list \<Rightarrow> line_counts" where
  "sum_counts ks = foldr add_counts ks no_lines"

lemma counts_of_concat:
  "traverse counts_of lss = Inr ks \<Longrightarrow> counts_of (concat lss) = Inr (sum_counts ks)"
  by (induction lss arbitrary: ks) (auto simp: sum_counts_def counts_of_append counts_of_def [of "[]"])

lemma sum_counts_fields:
  "n_hits (sum_counts ks) = sum_list (map n_hits ks)"
  "n_misses (sum_counts ks) = sum_list (map n_misses ks)"
  "n_partials (sum_counts ks) = sum_list (map n_partials ks)"
  "n_branches (sum_counts ks) = sum_list (map n_branches ks)"
  "n_methods (sum_counts ks) = sum_list (map n_methods ks)"
  "n_complexity (sum_counts ks) = sum_list (map n_complexity ks)"
  "n_complexity_total (sum_counts ks) = sum_list (map n_complexity_total ks)"
  by (induction ks) (simp_all add: sum_counts_def add_counts_def no_lines_def)

lemma sum_list_const_zero [simp]: "sum_list (map (\<lambda>x. 0 :: int) xs) = 0"
  by (induction xs) simp_all

lemma sum_col_Some [simp]: "xs \<noteq> [] \<Longrightarrow> sum_col (map (\<lambda>x. Some (f x)) xs) = Some (sum_list (map f xs))"
  by (cases xs) (simp_all add: sum_col_def opt_or_0_def comp_def)

lemma agg_totals_counts:
  "ks \<noteq> [] \<Longrightarrow> agg_totals (map totals_of_counts ks) =
     (totals_of_counts (sum_counts ks))\<lparr>t_files := int (length ks)\<rparr>"
  by (simp add: agg_totals_def Let_def comp_def totals_of_counts_def sum_counts_fields sum_list_addf)

section \<open>Properties\<close>

lemma agg_of_lines:
  assumes "lss \<noteq> []" "traverse get_line_totals lss = Inr ts"
  shows "\<exists>t. get_line_totals (concat lss) = Inr t \<and> agg_totals ts = t\<lparr>t_files := int (length lss)\<rparr>"
proof -
  from assms(2) obtain ks where ks: "traverse counts_of lss = Inr ks" "ts = map totals_of_counts ks"
    by (induction lss arbitrary: ts) (fastforce simp: get_line_totals_counts)+
  then have "length ks = length lss" by (auto simp: traverse_Inr_iff dest: list_all2_lengthD)
  moreover from this assms(1) have "ks \<noteq> []" by auto
  ultimately show ?thesis
    using ks agg_totals_counts [of ks] counts_of_concat [OF ks(1)] by (simp add: get_line_totals_counts)
qed

text \<open>The type of a line, for the lines that count.\<close>

definition counted_as :: "line_type_t \<Rightarrow> report_line \<Rightarrow> bool" where
  "counted_as ty l \<longleftrightarrow> line_type (rl_coverage l) = Inr (Some ty)"

lemma count_parts_fields [simp]:
  "n_hits (count_coverage ct k) = n_hits k + (if ct = Some LT_hit then 1 else 0)"
  "n_misses (count_coverage ct k) = n_misses k + (if ct = Some LT_miss then 1 else 0)"
  "n_partials (count_coverage ct k) = n_partials k + (if ct = Some LT_partial then 1 else 0)"
  "n_hits (count_type ty k) = n_hits k" "n_misses (count_type ty k) = n_misses k"
  "n_partials (count_type ty k) = n_partials k"
  "n_hits (count_complexity cx k) = n_hits k" "n_misses (count_complexity cx k) = n_misses k"
  "n_partials (count_complexity cx k) = n_partials k"
  by (auto simp: count_coverage_def count_type_def count_complexity_def
      split: option.split line_type_t.split complexity.split)

lemma counts_of_spec:
  "counts_of ls = Inr k \<Longrightarrow>
    n_hits k = int (length (filter (counted_as LT_hit) ls)) \<and>
    n_misses k = int (length (filter (counted_as LT_miss) ls)) \<and>
    n_partials k = int (length (filter (counted_as LT_partial) ls))"
proof (induction ls arbitrary: k rule: rev_induct)
  case Nil
  then show ?case by (auto simp: counts_of_def no_lines_def)
next
  case (snoc l ls)
  from snoc.prems obtain j ct where j: "counts_of ls = Inr j" and ct: "line_type (rl_coverage l) = Inr ct"
    and k: "count_line j l = Inr k"
    by (cases "line_type (rl_coverage l)")
      (auto simp: counts_of_def foldl_res_append count_line_def)
  from k ct snoc.IH [OF j] show ?case
    by (auto simp: count_line_def counted_as_def)
qed

lemma counted_bound:
  "length (filter (counted_as LT_hit) ls) + length (filter (counted_as LT_miss) ls) +
   length (filter (counted_as LT_partial) ls) \<le> length ls"
  by (induction ls) (auto simp: counted_as_def)

text \<open>
  The totals of a list of lines count the lines that are hits, misses and partials; the number
  of lines is their sum, skipped and unclassified lines are in none of them, and the coverage
  is nothing exactly when no line counts. Every list of lines whose branch strings are well
  formed has totals.
\<close>

theorem get_line_totals_counts_lines:
  assumes "\<forall>l \<in> set ls. is_ok (line_type (rl_coverage l))"
  shows "\<exists>t. get_line_totals ls = Inr t \<and>
    t_hits t = int (length (filter (counted_as LT_hit) ls)) \<and>
    t_misses t = int (length (filter (counted_as LT_miss) ls)) \<and>
    t_partials t = int (length (filter (counted_as LT_partial) ls)) \<and>
    t_lines t = t_hits t + t_misses t + t_partials t \<and>
    (t_coverage t = VNone \<longleftrightarrow> t_lines t = 0)"
proof -
  have "\<exists>k. counts_of ls = Inr k \<and> True"
    unfolding counts_of_def
    by (rule foldl_res_total) (use assms in \<open>auto simp: count_line_def is_ok_iff Let_def\<close>)
  then obtain k where "counts_of ls = Inr k" by auto
  then show ?thesis using counts_of_spec [of ls k]
    by (auto simp: get_line_totals_counts coverage_of_def)
qed

theorem get_line_totals_counts_lines_witness:
  "\<exists>t. get_line_totals [ReportLine_create (CovInt 0) None [] None, ReportLine_create (CovStr ''1/2'') None [] None,
      ReportLine_create (CovInt (-1)) None [] None] = Inr t \<and> t_lines t = 2 \<and> t_partials t = 1"
  using get_line_totals_counts_lines [of "[ReportLine_create (CovInt 0) None [] None,
      ReportLine_create (CovStr ''1/2'') None [] None, ReportLine_create (CovInt (-1)) None [] None]"]
  by (auto simp: line_type_def branch_type_def counted_as_def)

end
