(* ===== verification/Diff.thy ===== *)
theory Diff
  imports Totals
begin

text \<open>
  Diffs and the coverage of a diff (libs/shared/shared/reports/diff.py). The protocols
  \<open>AbstractReportFile\<close> and \<open>AbstractReport\<close> of the source are the locales below; the theories
  of \<open>ReportFile\<close>, \<open>FilteredReportFile\<close>, \<open>Report\<close> and \<open>FilteredReport\<close> interpret them.

  Generators are lists here. The code evaluates them lazily, so that when a diff makes several
  steps raise, the code may meet another of these exceptions first.
\<close>

section \<open>Diffs\<close>

text \<open>
  A segment's header is a list of numbers as strings (old line, old length, new line, new
  length); its lines start with \<open>+\<close>, \<open>-\<close> or a blank.
\<close>

record diff_segment =
  seg_header :: "string list"
  seg_lines :: "string list"

record diff_file =
  df_type :: string
  df_before :: "string option"
  df_segments :: "diff_segment list"
  df_totals :: "report_totals option"

record raw_diff =
  rd_files :: "(string, diff_file) dict"
  rd_totals :: "report_totals option"

record calculated_diff =
  cd_general :: report_totals
  cd_files :: "(string, report_totals) dict"

text \<open>\<open>int(segment["header"][2]) or 1\<close>.\<close>

definition segment_start :: "diff_segment \<Rightarrow> int res" where
  "segment_start seg =
     (if length (seg_header seg) \<le> 2 then Inl IndexError
      else bind_res (py_int (seg_header seg ! 2)) (\<lambda>n. Inr (if n = 0 then 1 else n)))"

text \<open>\<open>line[0]\<close>.\<close>

definition first_char :: "string \<Rightarrow> char res" where
  "first_char l = (case l of [] \<Rightarrow> Inl IndexError | c # _ \<Rightarrow> Inr c)"

text \<open>The numbers, from \<open>start\<close>, of the added lines among the lines that are not removed.\<close>

fun added_from :: "int \<Rightarrow> string list \<Rightarrow> int list res" where
  "added_from i [] = Inr []"
| "added_from i (l # ls) =
     bind_res (first_char l) (\<lambda>c.
       if c = CHR ''-'' then added_from i ls
       else bind_res (added_from (i + 1) ls) (\<lambda>ns. Inr (if c = CHR ''+'' then i # ns else ns)))"

definition relevant_lines :: "diff_segment \<Rightarrow> int list res" where
  "relevant_lines seg = bind_res (segment_start seg) (\<lambda>start. added_from start (seg_lines seg))"

section \<open>The coverage of a diff\<close>

text \<open>\<open>(x for x in xs if x)\<close> on optional lines; a \<open>ReportLine\<close> is always true.\<close>

definition somes :: "'a option list \<Rightarrow> 'a list" where
  "somes xs = map the (filter (\<lambda>x. x \<noteq> None) xs)"

lemma somes_simps [simp]: "somes [] = []" "somes (None # xs) = somes xs" "somes (Some x # xs) = x # somes xs"
  "somes (xs @ ys) = somes xs @ somes ys"
  by (simp_all add: somes_def)

lemma set_somes: "x \<in> set (somes xs) \<longleftrightarrow> Some x \<in> set xs"
  by (induction xs) (auto simp: somes_def)

definition calculate_file_diff :: "(int \<Rightarrow> report_line option res) \<Rightarrow> diff_segment list \<Rightarrow> report_totals res" where
  "calculate_file_diff get segments =
     bind_res (traverse relevant_lines segments) (\<lambda>nss.
     bind_res (traverse get (concat nss)) (\<lambda>lines.
       get_line_totals (somes lines)))"

text \<open>
  \<open>calculate_report_diff\<close>: \<open>rget\<close> is the report's \<open>get\<close>, \<open>truthy\<close> the truth value of a file and
  \<open>fget\<close> its \<open>get\<close>.
\<close>

definition diff_file_totals ::
  "(string \<Rightarrow> 'f option) \<Rightarrow> ('f \<Rightarrow> bool res) \<Rightarrow> ('f \<Rightarrow> int \<Rightarrow> report_line option res) \<Rightarrow>
   (string, report_totals) dict \<Rightarrow> string \<times> diff_file \<Rightarrow> (string, report_totals) dict res" where
  "diff_file_totals rget truthy fget files entry =
     (case entry of (path, data) \<Rightarrow>
        if df_type data \<in> {''modified'', ''new''} then
          (case rget path of
             None \<Rightarrow> Inr files
           | Some file \<Rightarrow>
               bind_res (truthy file) (\<lambda>b.
                 if b then
                   bind_res (calculate_file_diff (fget file) (df_segments data)) (\<lambda>t.
                     Inr (dict_set files path t))
                 else Inr files))
        else Inr files)"

definition calculate_report_diff ::
  "(string \<Rightarrow> 'f option) \<Rightarrow> ('f \<Rightarrow> bool res) \<Rightarrow> ('f \<Rightarrow> int \<Rightarrow> report_line option res) \<Rightarrow>
   raw_diff \<Rightarrow> calculated_diff res" where
  "calculate_report_diff rget truthy fget diff =
     bind_res (foldl_res (diff_file_totals rget truthy fget) [] (rd_files diff)) (\<lambda>files.
     bind_res (sum_totals (dict_values files)) (\<lambda>totals.
       Inr \<lparr>cd_general =
              (if t_lines totals = 0
               then totals\<lparr>t_coverage := VNone, t_complexity := None, t_complexity_total := None\<rparr>
               else totals),
            cd_files = files\<rparr>))"

section \<open>Relevant lines\<close>

lemma added_from_total:
  "\<forall>l \<in> set ls. l \<noteq> [] \<Longrightarrow> \<exists>ns. added_from i ls = Inr ns"
proof (induction ls arbitrary: i)
  case Nil
  then show ?case by simp
next
  case (Cons l ls)
  obtain c r where l: "l = c # r" using Cons.prems by (cases l) auto
  obtain a b where "added_from i ls = Inr a" "added_from (i + 1) ls = Inr b"
    using Cons.IH [of i] Cons.IH [of "i + 1"] Cons.prems by auto
  then show ?case by (simp add: l first_char_def)
qed

text \<open>The lines of the new version of a segment: everything but the removed lines.\<close>

definition new_side :: "string list \<Rightarrow> string list" where
  "new_side ls = filter (\<lambda>l. \<not> startswith l ''-'') ls"

lemma startswith_char: "startswith (c # s) [d] \<longleftrightarrow> c = d"
  by (auto simp: startswith_def)

lemma numbered_Suc:
  "{i + int k | k. k < Suc n \<and> P k} = (if P 0 then {i} else {}) \<union> {i + 1 + int k | k. k < n \<and> P (Suc k)}"
proof (rule set_eqI)
  fix x
  have "(\<exists>k. x = i + int k \<and> k < Suc n \<and> P k) \<longleftrightarrow>
      (x = i \<and> P 0) \<or> (\<exists>k. x = i + int (Suc k) \<and> k < n \<and> P (Suc k))"
    by (metis add_0_right less_Suc_eq_0_disj not0_implies_Suc of_nat_0 Suc_less_eq zero_less_Suc)
  then show "x \<in> {i + int k | k. k < Suc n \<and> P k} \<longleftrightarrow>
      x \<in> (if P 0 then {i} else {}) \<union> {i + 1 + int k | k. k < n \<and> P (Suc k)}"
    by (auto simp: algebra_simps)
qed

lemma added_from_spec:
  "added_from i ls = Inr ns \<Longrightarrow>
     sorted_wrt (<) ns \<and>
     set ns = {i + int k | k. k < length (new_side ls) \<and> startswith (new_side ls ! k) ''+''}"
proof (induction i ls arbitrary: ns rule: added_from.induct)
  case (1 i)
  then show ?case by (simp add: new_side_def)
next
  case (2 i l ls)
  from "2.prems" obtain c r where l: "l = c # r" by (cases l) (auto simp: first_char_def)
  show ?case
  proof (cases "c = CHR ''-''")
    case True
    with "2.prems" l have "added_from i ls = Inr ns" by (simp add: first_char_def)
    from "2.IH"(1) [OF _ True this] l True show ?thesis
      by (simp add: first_char_def new_side_def startswith_char)
  next
    case False
    with "2.prems" l obtain ms where ms: "added_from (i + 1) ls = Inr ms"
      and ns: "ns = (if c = CHR ''+'' then i # ms else ms)" by (auto simp: first_char_def)
    have IH: "sorted_wrt (<) ms"
      "set ms = {i + 1 + int k | k. k < length (new_side ls) \<and> startswith (new_side ls ! k) ''+''}"
      using "2.IH"(2) [OF _ False ms] l by (auto simp: first_char_def)
    have side: "new_side (l # ls) = l # new_side ls" using l False by (simp add: new_side_def startswith_char)
    have "{i + int k | k. k < length (l # new_side ls) \<and> startswith ((l # new_side ls) ! k) ''+''}
        = (if c = CHR ''+'' then {i} else {}) \<union> set ms"
      using numbered_Suc [of i "length (new_side ls)" "\<lambda>k. startswith ((l # new_side ls) ! k) ''+''"]
      by (simp add: IH(2) l startswith_char)
    moreover have "\<forall>m \<in> set ms. i < m" by (auto simp: IH(2))
    ultimately show ?thesis using IH(1) by (auto simp: side ns)
  qed
qed

text \<open>Which totals the diff of a report holds for a path of the diff.\<close>

definition diff_entry ::
  "(string \<Rightarrow> 'f option) \<Rightarrow> ('f \<Rightarrow> bool res) \<Rightarrow> ('f \<Rightarrow> int \<Rightarrow> report_line option res) \<Rightarrow>
   diff_file \<Rightarrow> string \<Rightarrow> report_totals option \<Rightarrow> bool" where
  "diff_entry rget truthy fget data path t \<longleftrightarrow>
     (if df_type data \<in> {''modified'', ''new''} \<and> (\<exists>f. rget path = Some f \<and> truthy f = Inr True)
      then \<exists>f u. rget path = Some f \<and> calculate_file_diff (fget f) (df_segments data) = Inr u \<and> t = Some u
      else t = None)"

section \<open>The protocols\<close>

text \<open>\<open>AbstractReportFile\<close>: lines are numbered from 1, and the diff is computed from \<open>get\<close>.\<close>

locale abstract_report_file =
  fixes get :: "'f \<Rightarrow> int \<Rightarrow> report_line option res"
    and calculate_diff :: "'f \<Rightarrow> diff_segment list \<Rightarrow> report_totals res"
  assumes get_range: "n < 1 \<Longrightarrow> get f n = Inl ValueError"
    and diff_from_get: "calculate_diff f segs = calculate_file_diff (get f) segs"
begin

text \<open>Two files that agree on the added lines have the same coverage of the diff.\<close>

lemma diff_ext:
  assumes "traverse relevant_lines segs = Inr nss" "\<And>n. n \<in> set (concat nss) \<Longrightarrow> get f n = get g n"
  shows "calculate_diff f segs = calculate_diff g segs"
proof -
  have "traverse (get f) (concat nss) = traverse (get g) (concat nss)"
    by (rule traverse_cong) (use assms(2) in auto)
  with assms(1) show ?thesis by (simp add: diff_from_get calculate_file_diff_def)
qed

text \<open>The coverage of a diff counts no more lines than the diff adds.\<close>

lemma diff_lines_bound:
  assumes "calculate_diff f segs = Inr t" "traverse relevant_lines segs = Inr nss"
  shows "0 \<le> t_lines t \<and> t_lines t \<le> int (length (concat nss))"
proof -
  from assms obtain ls where ls: "traverse (get f) (concat nss) = Inr ls" "get_line_totals (somes ls) = Inr t"
    by (auto simp: diff_from_get calculate_file_diff_def)
  then obtain k where k: "counts_of (somes ls) = Inr k" "t = totals_of_counts k"
    by (auto simp: get_line_totals_counts)
  let ?n = "\<lambda>ty. length (filter (counted_as ty) (somes ls))"
  have sum: "?n LT_hit + ?n LT_miss + ?n LT_partial \<le> length (somes ls)"
    by (rule counted_bound)
  have "length (somes ls) \<le> length ls" by (simp add: somes_def)
  moreover have "length ls = length (concat nss)" using ls(1) by (auto simp: traverse_Inr_iff dest: list_all2_lengthD)
  ultimately show ?thesis using sum counts_of_spec [OF k(1)] k(2) by simp
qed

end

text \<open>\<open>AbstractReport\<close>: a lookup by path whose files follow the protocol of a file.\<close>

locale abstract_report = abstract_report_file fget fdiff
  for fget :: "'f \<Rightarrow> int \<Rightarrow> report_line option res"
    and fdiff :: "'f \<Rightarrow> diff_segment list \<Rightarrow> report_totals res" +
  fixes rget :: "'r \<Rightarrow> string \<Rightarrow> 'f option"
    and truthy :: "'f \<Rightarrow> bool res"
    and report_diff :: "'r \<Rightarrow> raw_diff \<Rightarrow> calculated_diff res"
  assumes report_diff_def: "report_diff r d = calculate_report_diff (rget r) truthy fget d"
begin

lemma diff_files_fold:
  assumes "foldl_res (diff_file_totals (rget r) truthy fget) acc entries = Inr files"
    and "distinct (map fst entries)" "\<forall>p \<in> fst ` set entries. dict_get acc p = None"
  shows "(\<forall>(p, data) \<in> set entries. diff_entry (rget r) truthy fget data p (dict_get files p)) \<and>
    (\<forall>p. p \<notin> fst ` set entries \<longrightarrow> dict_get files p = dict_get acc p)"
  using assms
proof (induction entries arbitrary: acc)
  case Nil
  then show ?case by simp
next
  case (Cons e es)
  obtain p data where e: "e = (p, data)" by (cases e)
  from Cons.prems(1) obtain acc' where
    step: "diff_file_totals (rget r) truthy fget acc (p, data) = Inr acc'"
    and rest: "foldl_res (diff_file_totals (rget r) truthy fget) acc' es = Inr files" by (auto simp: e)
  have other: "q \<noteq> p \<Longrightarrow> dict_get acc' q = dict_get acc q" for q
    using step by (auto simp: diff_file_totals_def split: if_splits option.splits)
  have own: "diff_entry (rget r) truthy fget data p (dict_get acc' p)"
    using step Cons.prems(3)
    by (auto simp: diff_file_totals_def diff_entry_def e split: if_splits option.splits
        dest!: arg_cong [of "dict_set _ _ _" _ "\<lambda>d. dict_get d p"])
  have "(\<forall>(q, dt) \<in> set es. diff_entry (rget r) truthy fget dt q (dict_get files q)) \<and>
      (\<forall>q. q \<notin> fst ` set es \<longrightarrow> dict_get files q = dict_get acc' q)"
  proof (rule Cons.IH [OF rest])
    show "distinct (map fst es)" using Cons.prems(2) by simp
    show "\<forall>q \<in> fst ` set es. dict_get acc' q = None"
    proof
      fix q assume q: "q \<in> fst ` set es"
      then have "q \<noteq> p" using Cons.prems(2) e by auto
      with q Cons.prems(3) other show "dict_get acc' q = None" by auto
    qed
  qed
  with own other Cons.prems(2) show ?case by (auto simp: e)
qed

lemma report_diff_files:
  assumes "report_diff r d = Inr cd" "wf_dict (rd_files d)" "dict_get (rd_files d) p = Some data"
  shows "diff_entry (rget r) truthy fget data p (dict_get (cd_files cd) p)"
proof -
  from assms(1) obtain files where
    f: "foldl_res (diff_file_totals (rget r) truthy fget) [] (rd_files d) = Inr files" and "cd_files cd = files"
    by (auto simp: report_diff_def calculate_report_diff_def)
  moreover have "(p, data) \<in> set (rd_files d)" using assms(3) by (rule dict_get_in)
  ultimately show ?thesis
    using diff_files_fold [OF f] assms(2) by (auto simp: wf_dict_def dict_keys_def)
qed

end

end
