(* ===== verification/Report_File.thy ===== *)
theory Report_File
  imports Diff
begin

text \<open>
  \<open>ReportFile\<close> (libs/shared/shared/reports/reportfile.py): the lines of one file, with the caches
  of its totals and of the ids of the sessions in it. The state here is the one after
  \<open>_lines\<close> has decoded the raw chunk (JSON, an external decoder), so that a line is \<open>None\<close> or a
  \<open>ReportLine\<close>. Line numbers count from 1. Assigning an attribute of a Python object is an
  update of the record that is returned; reading \<open>totals\<close> of a file that is not returned leaves its
  cache as it was, which \<open>rf_total_cached\<close> shows to be unobservable.
\<close>

section \<open>State\<close>

datatype eof_t = EofInt int | EofStr string

record ignore =
  ig_eof :: "eof_t option"
  ig_lines :: "int list"

text \<open>\<open>a < b\<close> on strings: by character code, from the left.\<close>

fun str_less :: "string \<Rightarrow> string \<Rightarrow> bool" where
  "str_less s [] = False"
| "str_less [] (c # t) = True"
| "str_less (c # s) (d # t) =
     (if c = d then str_less s t else (of_char c :: nat) < of_char d)"

definition ignore_to_func :: "ignore \<Rightarrow> int \<Rightarrow> bool" where
  "ignore_to_func ig lno =
     (case ig_eof ig of
        Some (EofInt n) \<Rightarrow> n \<noteq> 0 \<and> lno > n \<or> lno \<in> set (ig_lines ig)
      | Some (EofStr s) \<Rightarrow> s \<noteq> [] \<and> str_less s (int_str lno) \<or> lno \<in> set (ig_lines ig)
      | None \<Rightarrow> lno \<in> set (ig_lines ig))"

record report_file =
  rf_name :: string
  rf_lines :: "report_line option list"
  rf_totals :: "report_totals option"
  rf_diff_totals :: "report_totals option"
  rf_present :: "int set option"
  rf_ignore :: "ignore option"

definition ReportFile :: "string \<Rightarrow> report_totals option \<Rightarrow> report_line option list \<Rightarrow> report_totals option \<Rightarrow> ignore option \<Rightarrow> report_file" where
  "ReportFile name totals lines diff_totals ig =
     \<lparr>rf_name = name, rf_lines = lines, rf_totals = totals, rf_diff_totals = diff_totals,
      rf_present = None, rf_ignore = ig\<rparr>"

definition ignored :: "report_file \<Rightarrow> int \<Rightarrow> bool" where
  "ignored f lno = (case rf_ignore f of None \<Rightarrow> False | Some ig \<Rightarrow> ignore_to_func ig lno)"

definition rf_invalidate_caches :: "report_file \<Rightarrow> report_file" where
  "rf_invalidate_caches f = f\<lparr>rf_totals := None, rf_diff_totals := None, rf_present := None\<rparr>"

section \<open>Reading\<close>

text \<open>\<open>lines\<close>: the lines with coverage and their numbers.\<close>

fun enum_lines :: "int \<Rightarrow> 'a option list \<Rightarrow> (int \<times> 'a) list" where
  "enum_lines n [] = []"
| "enum_lines n (None # ls) = enum_lines (n + 1) ls"
| "enum_lines n (Some l # ls) = (n, l) # enum_lines (n + 1) ls"

definition rf_items :: "report_file \<Rightarrow> (int \<times> report_line) list" where
  "rf_items f = enum_lines 1 (rf_lines f)"

definition line_session_ids :: "report_line \<Rightarrow> int set" where
  "line_session_ids l = ls_id ` set (rl_sessions l)"

definition session_ids_in :: "report_line option list \<Rightarrow> int set" where
  "session_ids_in ls = (\<Union>l \<in> set (somes ls). line_session_ids l)"

definition rf_present_sessions :: "report_file \<Rightarrow> int set" where
  "rf_present_sessions f = (case rf_present f of Some s \<Rightarrow> s | None \<Rightarrow> session_ids_in (rf_lines f))"

definition rf_total :: "report_file \<Rightarrow> report_totals res" where
  "rf_total f =
     (case rf_totals f of Some t \<Rightarrow> Inr t | None \<Rightarrow> get_line_totals (map snd (rf_items f)))"

text \<open>\<open>__len__\<close>, \<open>eof\<close>, \<open>__bool__\<close>.\<close>

definition rf_len :: "report_file \<Rightarrow> int" where
  "rf_len f = int (length (filter (\<lambda>l. l \<noteq> None) (rf_lines f)))"

definition rf_eof :: "report_file \<Rightarrow> int" where
  "rf_eof f = int (length (rf_lines f)) + 1"

definition rf_bool :: "report_file \<Rightarrow> bool res" where
  "rf_bool f = map_res (\<lambda>t. t_lines t > 0) (rf_total f)"

definition rf_get :: "report_file \<Rightarrow> int \<Rightarrow> report_line option res" where
  "rf_get f lno =
     (if lno < 1 then Inl ValueError
      else Inr (if nat (lno - 1) < length (rf_lines f) then rf_lines f ! nat (lno - 1) else None))"

definition rf_getitem :: "report_file \<Rightarrow> int \<Rightarrow> report_line res" where
  "rf_getitem f lno =
     (if lno < 1 then Inl ValueError
      else bind_res (rf_get f lno) (\<lambda>l. case l of None \<Rightarrow> Inl IndexError | Some x \<Rightarrow> Inr x))"

definition rf_contains :: "report_file \<Rightarrow> int \<Rightarrow> bool res" where
  "rf_contains f lno = map_res (\<lambda>l. l \<noteq> None) (rf_get f lno)"

text \<open>\<open>xs[a:b]\<close> for any integers \<open>a\<close> and \<open>b\<close>, and the numbered lines of such a slice.\<close>

definition slice_bound :: "int \<Rightarrow> 'a list \<Rightarrow> nat" where
  "slice_bound i xs =
     (let n = int (length xs) in nat (if i < 0 then max 0 (i + n) else min i n))"

definition py_slice :: "int \<Rightarrow> int \<Rightarrow> 'a list \<Rightarrow> 'a list" where
  "py_slice a b xs = drop (slice_bound a xs) (take (slice_bound b xs) xs)"

definition rf_getslice :: "report_file \<Rightarrow> int \<Rightarrow> int \<Rightarrow> (int \<times> report_line) list" where
  "rf_getslice f start stop = enum_lines start (py_slice (start - 1) (stop - 1) (rf_lines f))"

definition rf_calculate_diff :: "report_file \<Rightarrow> diff_segment list \<Rightarrow> report_totals res" where
  "rf_calculate_diff f segments = calculate_file_diff (rf_get f) segments"

section \<open>Writing lines\<close>

text \<open>Extend the list of lines up to \<open>lno\<close> and put \<open>x\<close> at line \<open>lno\<close>.\<close>

definition put_line :: "int \<Rightarrow> report_line option \<Rightarrow> report_line option list \<Rightarrow> report_line option list" where
  "put_line lno x ls =
     (ls @ replicate (nat (lno - int (length ls))) None)[nat (lno - 1) := x]"

definition rf_setitem :: "report_file \<Rightarrow> int \<Rightarrow> report_line \<Rightarrow> report_file res" where
  "rf_setitem f lno line =
     (if lno < 1 then Inl ValueError
      else if ignored f lno then Inr f
      else Inr (rf_invalidate_caches (f\<lparr>rf_lines := put_line lno (Some line) (rf_lines f)\<rparr>)))"

definition rf_delitem :: "report_file \<Rightarrow> int \<Rightarrow> report_file res" where
  "rf_delitem f lno =
     (if lno < 1 then Inl ValueError
      else Inr (rf_invalidate_caches (f\<lparr>rf_lines := put_line lno None (rf_lines f)\<rparr>)))"

definition rf_append :: "report_file \<Rightarrow> int \<Rightarrow> report_line \<Rightarrow> (bool \<times> report_file) res" where
  "rf_append f lno line =
     (if lno < 1 then Inl ValueError
      else if ignored f lno then Inr (False, f)
      else
        bind_res (rf_get f lno) (\<lambda>old.
        bind_res (case old of None \<Rightarrow> Inr (Some line) | Some _ \<Rightarrow> merge_line old (Some line) True False) (\<lambda>new.
          Inr (True, rf_invalidate_caches (f\<lparr>rf_lines := put_line lno new (rf_lines f)\<rparr>)))))"

section \<open>Merging files\<close>

text \<open>\<open>merge_line\<close> over \<open>zip_longest(self, other_file)\<close>.\<close>

fun merge_file_lines ::
  "bool \<Rightarrow> bool \<Rightarrow> report_line option list \<Rightarrow> report_line option list \<Rightarrow> report_line option list res" where
  "merge_file_lines j d [] [] = Inr []"
| "merge_file_lines j d [] (b # bs) =
     bind_res (merge_line None b j d) (\<lambda>x. bind_res (merge_file_lines j d [] bs) (\<lambda>xs. Inr (x # xs)))"
| "merge_file_lines j d (a # as) [] =
     bind_res (merge_line a None j d) (\<lambda>x. bind_res (merge_file_lines j d as []) (\<lambda>xs. Inr (x # xs)))"
| "merge_file_lines j d (a # as) (b # bs) =
     bind_res (merge_line a b j d) (\<lambda>x. bind_res (merge_file_lines j d as bs) (\<lambda>xs. Inr (x # xs)))"

text \<open>The two rules for Ruby files compare the totals of both files.\<close>

definition same_lines_misses :: "report_totals \<Rightarrow> report_totals \<Rightarrow> bool" where
  "same_lines_misses t u \<longleftrightarrow> t_lines u = t_lines t \<and> t_misses u = t_misses t"

definition all_missed :: "report_totals \<Rightarrow> bool" where
  "all_missed t \<longleftrightarrow> t_lines t = t_misses t"

definition rf_merge :: "report_file \<Rightarrow> report_file option \<Rightarrow> bool \<Rightarrow> bool \<Rightarrow> (bool option \<times> report_file) res" where
  "rf_merge f other joined is_disjoint =
     (case other of
        None \<Rightarrow> Inr (None, f)
      | Some g \<Rightarrow>
          let full = bind_res (merge_file_lines joined is_disjoint (rf_lines f) (rf_lines g)) (\<lambda>ls.
                Inr (Some True, rf_invalidate_caches (f\<lparr>rf_lines := ls\<rparr>)))
          in if \<not> endswith (rf_name f) ''.rb'' then full
             else
               bind_res (rf_total f) (\<lambda>t. bind_res (rf_total g) (\<lambda>u.
                 if all_missed t \<and> \<not> same_lines_misses t u then
                   Inr (Some True, rf_invalidate_caches (f\<lparr>rf_lines := rf_lines g\<rparr>))
                 else if all_missed u \<and> \<not> same_lines_misses t u then
                   Inr (Some False, f\<lparr>rf_totals := Some t\<rparr>)
                 else full)))"

section \<open>Diffs\<close>

text \<open>The loop over the lines of one segment; \<open>Some r\<close> is an early return.\<close>

fun adjusts_lines :: "report_file \<Rightarrow> report_file \<Rightarrow> int \<Rightarrow> string list \<Rightarrow> bool res" where
  "adjusts_lines f future pos [] = Inr False"
| "adjusts_lines f future pos (l # ls) =
     bind_res (first_char l) (\<lambda>c.
       if c = CHR ''-'' then
         bind_res (rf_contains f pos) (\<lambda>b. if b then Inr True else adjusts_lines f future pos ls)
       else if c = CHR ''+'' then
         bind_res (rf_contains future pos) (\<lambda>b. if b then Inr True else adjusts_lines f future (pos + 1) ls)
       else adjusts_lines f future (pos + 1) ls)"

fun rf_does_diff_adjust :: "report_file \<Rightarrow> report_file \<Rightarrow> diff_segment list \<Rightarrow> bool res" where
  "rf_does_diff_adjust f future [] = Inr False"
| "rf_does_diff_adjust f future (s # ss) =
     bind_res (segment_start s) (\<lambda>pos.
     bind_res (adjusts_lines f future pos (seg_lines s)) (\<lambda>b.
       if b then Inr True else rf_does_diff_adjust f future ss))"

text \<open>
  \<open>list.insert\<close> and \<open>list.pop\<close> for any integer position. An exception in the middle of
  \<open>shift_lines_by_diff\<close> is caught and logged, and the lines stay as they are at that moment:
  the second component of the loop's result says whether it ran to its end.
\<close>

definition py_insert :: "int \<Rightarrow> 'a \<Rightarrow> 'a list \<Rightarrow> 'a list" where
  "py_insert i x xs = (let k = slice_bound i xs in take k xs @ x # drop k xs)"

definition py_pop :: "int \<Rightarrow> 'a list \<Rightarrow> 'a list option" where
  "py_pop i xs =
     (let j = (if i < 0 then i + int (length xs) else i)
      in if 0 \<le> j \<and> j < int (length xs) then Some (take (nat j) xs @ drop (Suc (nat j)) xs) else None)"

fun shift_segment :: "'a option list \<Rightarrow> int \<Rightarrow> string list \<Rightarrow> 'a option list \<times> bool" where
  "shift_segment ls pos [] = (ls, True)"
| "shift_segment ls pos (l # rest) =
     (case l of
        [] \<Rightarrow> (ls, False)
      | c # _ \<Rightarrow>
          if c = CHR ''-'' then
            (if int (length ls) > pos then
               (case py_pop pos ls of None \<Rightarrow> (ls, False) | Some ls' \<Rightarrow> shift_segment ls' pos rest)
             else shift_segment ls pos rest)
          else if c = CHR ''+'' then shift_segment (py_insert pos None ls) (pos + 1) rest
          else shift_segment ls (pos + 1) rest)"

fun shift_segments :: "'a option list \<Rightarrow> diff_segment list \<Rightarrow> 'a option list" where
  "shift_segments ls [] = ls"
| "shift_segments ls (s # ss) =
     (case segment_start s of
        Inl _ \<Rightarrow> ls
      | Inr start \<Rightarrow>
          (case shift_segment ls (start - 1) (seg_lines s) of
             (ls', False) \<Rightarrow> ls'
           | (ls', True) \<Rightarrow> shift_segments ls' ss))"

definition rf_shift_lines_by_diff :: "report_file \<Rightarrow> diff_segment list \<Rightarrow> report_file" where
  "rf_shift_lines_by_diff f segments =
     rf_invalidate_caches (f\<lparr>rf_lines := shift_segments (rf_lines f) segments\<rparr>)"

section \<open>Deleting sessions\<close>

definition line_without_multiple_sessions :: "report_line \<Rightarrow> int set \<Rightarrow> report_line option res" where
  "line_without_multiple_sessions line ids =
     (let ss = filter (\<lambda>s. ls_id s \<notin> ids) (rl_sessions line)
      in if ss = [] then Inr None
         else bind_res (merge_all (map ls_coverage ss) None) (\<lambda>c.
           Inr (Some (line\<lparr>rl_sessions := ss, rl_coverage := c\<rparr>))))"

definition delete_from_line :: "int set \<Rightarrow> report_file \<Rightarrow> int \<times> report_line \<Rightarrow> report_file res" where
  "delete_from_line ids f item =
     (case item of (lno, line) \<Rightarrow>
        if \<exists>s \<in> set (rl_sessions line). ls_id s \<in> ids then
          bind_res (line_without_multiple_sessions line ids) (\<lambda>new.
            case new of None \<Rightarrow> rf_delitem f lno | Some l \<Rightarrow> rf_setitem f lno l)
        else Inr f)"

definition rf_delete_multiple_sessions :: "report_file \<Rightarrow> int set \<Rightarrow> report_file res" where
  "rf_delete_multiple_sessions f ids =
     (let current = rf_present_sessions f; new = current - ids
      in if current = new then Inr (f\<lparr>rf_present := Some current\<rparr>)
         else
           let f1 = rf_invalidate_caches f
           in if new = {} then Inr (f1\<lparr>rf_lines := []\<rparr>)
              else bind_res (foldl_res (delete_from_line ids) f1 (rf_items f1)) (\<lambda>f2.
                Inr (f2\<lparr>rf_present := Some new\<rparr>)))"

section \<open>Lines by number\<close>

lemma enum_lines_somes [simp]: "map snd (enum_lines n ls) = somes ls"
  by (induction n ls rule: enum_lines.induct) simp_all

lemma set_enum_lines:
  "(k, l) \<in> set (enum_lines n ls) \<longleftrightarrow> n \<le> k \<and> nat (k - n) < length ls \<and> ls ! nat (k - n) = Some l"
proof (induction n ls arbitrary: k rule: enum_lines.induct)
  case (1 n)
  then show ?case by simp
next
  case (2 n ls)
  have "nat (k - n) = Suc (nat (k - (n + 1)))" if "n < k" using that by simp
  with 2 show ?case by (cases "n = k"; cases "n < k") auto
next
  case (3 n l' ls)
  have "nat (k - n) = Suc (nat (k - (n + 1)))" if "n < k" using that by simp
  with 3 show ?case by (cases "n = k"; cases "n < k") auto
qed

lemma rf_total_lines: "rf_totals f = None \<Longrightarrow> rf_total f = get_line_totals (somes (rf_lines f))"
  by (simp add: rf_total_def rf_items_def)

text \<open>The caches agree with the lines.\<close>

definition caches_ok :: "report_file \<Rightarrow> bool" where
  "caches_ok f \<longleftrightarrow>
     (\<forall>t. rf_totals f = Some t \<longrightarrow> get_line_totals (somes (rf_lines f)) = Inr t) \<and>
     (\<forall>s. rf_present f = Some s \<longrightarrow> s = session_ids_in (rf_lines f))"

lemma length_put_line [simp]:
  "1 \<le> lno \<Longrightarrow> length (put_line lno x ls) = max (length ls) (nat lno)"
  by (simp add: put_line_def)

lemma nth_put_line:
  "1 \<le> lno \<Longrightarrow> k < max (length ls) (nat lno) \<Longrightarrow>
    put_line lno x ls ! k = (if k = nat (lno - 1) then x else if k < length ls then ls ! k else None)"
  by (auto simp: put_line_def nth_append nth_list_update)

definition line_at :: "'a option list \<Rightarrow> int \<Rightarrow> 'a option" where
  "line_at ls lno = (if 1 \<le> lno \<and> nat (lno - 1) < length ls then ls ! nat (lno - 1) else None)"

lemma rf_get_line_at: "1 \<le> lno \<Longrightarrow> rf_get f lno = Inr (line_at (rf_lines f) lno)"
  by (simp add: rf_get_def line_at_def)

lemma line_at_put:
  "1 \<le> lno \<Longrightarrow> line_at (put_line lno x ls) n = (if n = lno then x else line_at ls n)"
  by (auto simp: line_at_def nth_put_line)

lemma set_enum_line_at: "(k, l) \<in> set (enum_lines 1 ls) \<longleftrightarrow> line_at ls k = Some l"
  by (auto simp: set_enum_lines line_at_def)

lemma somes_line_at: "l \<in> set (somes ls) \<longleftrightarrow> (\<exists>n. line_at ls n = Some l)"
proof -
  have "l \<in> set (somes ls) \<longleftrightarrow> l \<in> snd ` set (enum_lines 1 ls)"
    by (simp only: enum_lines_somes [of 1 ls, symmetric] set_map)
  also have "\<dots> \<longleftrightarrow> (\<exists>n. (n, l) \<in> set (enum_lines 1 ls))" by force
  finally show ?thesis by (simp only: set_enum_line_at)
qed

lemma session_ids_line_at: "i \<in> session_ids_in ls \<longleftrightarrow> (\<exists>n l. line_at ls n = Some l \<and> i \<in> line_session_ids l)"
  unfolding session_ids_in_def by (metis UN_iff somes_line_at)

lemma line_at_Nil [simp]: "line_at [] n = None"
  by (simp add: line_at_def)

lemma line_at_Cons: "line_at (x # xs) n = (if n = 1 then x else if n < 1 then None else line_at xs (n - 1))"
proof (cases "n \<le> 1")
  case True
  then show ?thesis by (auto simp: line_at_def)
next
  case False
  then have "nat (n - 1) = Suc (nat (n - 1 - 1))" by simp
  with False show ?thesis by (simp add: line_at_def)
qed

lemma merge_line_None [simp]: "merge_line None l j d = Inr l" "merge_line l None j d = Inr l"
  by (simp_all add: merge_line_def split: option.split)

lemma merge_file_lines_at:
  "merge_file_lines j d xs ys = Inr zs \<Longrightarrow>
     length zs = max (length xs) (length ys) \<and> (\<forall>n. merge_line (line_at xs n) (line_at ys n) j d = Inr (line_at zs n))"
proof (induction j d xs ys arbitrary: zs rule: merge_file_lines.induct)
  case (4 j d a as b bs)
  from "4.prems" obtain x xs where x: "merge_line a b j d = Inr x" "merge_file_lines j d as bs = Inr xs" "zs = x # xs"
    by auto
  from "4.IH" [OF x(1,2)] x show ?case by (simp add: line_at_Cons)
qed (auto simp: line_at_Cons)

section \<open>Deleted sessions\<close>

definition touches :: "int set \<Rightarrow> report_line \<Rightarrow> bool" where
  "touches ids l \<longleftrightarrow> (\<exists>s \<in> set (rl_sessions l). ls_id s \<in> ids)"

lemma invalidate_simps [simp]:
  "rf_lines (rf_invalidate_caches f) = rf_lines f" "rf_ignore (rf_invalidate_caches f) = rf_ignore f"
  "rf_totals (rf_invalidate_caches f) = None" "rf_present (rf_invalidate_caches f) = None"
  "rf_name (rf_invalidate_caches f) = rf_name f"
  by (simp_all add: rf_invalidate_caches_def)

lemma delete_from_line_at:
  assumes "delete_from_line ids f (k, l) = Inr g" "1 \<le> k" "\<not> ignored f k"
  shows "rf_ignore g = rf_ignore f \<and> rf_name g = rf_name f \<and>
    (if touches ids l then rf_totals g = None \<and> line_without_multiple_sessions l ids = Inr (line_at (rf_lines g) k)
     else g = f) \<and>
    (\<forall>n. n \<noteq> k \<longrightarrow> line_at (rf_lines g) n = line_at (rf_lines f) n)"
proof (cases "touches ids l")
  case True
  with assms(1) obtain new where new: "line_without_multiple_sessions l ids = Inr new"
    and g: "(case new of None \<Rightarrow> rf_delitem f k | Some l \<Rightarrow> rf_setitem f k l) = Inr g"
    by (auto simp: delete_from_line_def touches_def)
  have "g = rf_invalidate_caches (f\<lparr>rf_lines := put_line k new (rf_lines f)\<rparr>)"
    using g assms(2,3) by (cases new) (auto simp: rf_delitem_def rf_setitem_def)
  with True new assms(2) show ?thesis by (simp add: line_at_put)
next
  case False
  with assms(1) show ?thesis by (auto simp: delete_from_line_def touches_def)
qed

lemma delete_fold_at:
  assumes "foldl_res (delete_from_line ids) f items = Inr g" "distinct (map fst items)"
    and "\<forall>(k, l) \<in> set items. 1 \<le> k \<and> \<not> ignored f k"
  shows "rf_ignore g = rf_ignore f \<and> rf_name g = rf_name f \<and>
    (rf_totals f = None \<longrightarrow> rf_totals g = None) \<and>
    (\<forall>k l. (k, l) \<in> set items \<and> touches ids l \<longrightarrow> line_without_multiple_sessions l ids = Inr (line_at (rf_lines g) k)) \<and>
    (\<forall>n. \<not> (\<exists>l. (n, l) \<in> set items \<and> touches ids l) \<longrightarrow> line_at (rf_lines g) n = line_at (rf_lines f) n)"
  using assms
proof (induction items arbitrary: f)
  case Nil
  then show ?case by simp
next
  case (Cons it items)
  obtain k l where it: "it = (k, l)" by (cases it)
  from Cons.prems(1) obtain h where h: "delete_from_line ids f (k, l) = Inr h"
    and rest: "foldl_res (delete_from_line ids) h items = Inr g" by (auto simp: it)
  have k: "1 \<le> k" "\<not> ignored f k" using Cons.prems(3) it by auto
  note step = delete_from_line_at [OF h k]
  have ign: "ignored h n = ignored f n" for n using step by (simp add: ignored_def)
  have IH: "rf_ignore g = rf_ignore h \<and> rf_name g = rf_name h \<and>
    (rf_totals h = None \<longrightarrow> rf_totals g = None) \<and>
    (\<forall>k l. (k, l) \<in> set items \<and> touches ids l \<longrightarrow> line_without_multiple_sessions l ids = Inr (line_at (rf_lines g) k)) \<and>
    (\<forall>n. \<not> (\<exists>l. (n, l) \<in> set items \<and> touches ids l) \<longrightarrow> line_at (rf_lines g) n = line_at (rf_lines h) n)"
    by (rule Cons.IH [OF rest]) (use Cons.prems(2,3) ign in auto)
  have notin: "(k, l') \<notin> set items" for l' using Cons.prems(2) it by force
  show ?case
  proof (intro conjI allI impI)
    fix k' l' assume kl: "(k', l') \<in> set (it # items) \<and> touches ids l'"
    show "line_without_multiple_sessions l' ids = Inr (line_at (rf_lines g) k')"
    proof (cases "(k', l') \<in> set items")
      case True
      with IH kl show ?thesis by blast
    next
      case False
      with kl it have "k' = k" "l' = l" "touches ids l" by auto
      moreover have "line_at (rf_lines g) k = line_at (rf_lines h) k" using IH notin by blast
      ultimately show ?thesis using step by simp
    qed
  next
    fix n assume "\<not> (\<exists>l. (n, l) \<in> set (it # items) \<and> touches ids l)"
    then show "line_at (rf_lines g) n = line_at (rf_lines f) n"
      using IH step it by (cases "n = k") (auto split: if_splits)
  qed (use IH step in \<open>auto split: if_splits\<close>)
qed

lemma distinct_enum_lines: "distinct (map fst (enum_lines n ls)) \<and> (\<forall>k \<in> fst ` set (enum_lines n ls). n \<le> k)"
  by (induction n ls rule: enum_lines.induct) force+

text \<open>What deleting sessions leaves of a line.\<close>

definition remaining_sessions :: "int set \<Rightarrow> report_line \<Rightarrow> line_session list" where
  "remaining_sessions ids l = filter (\<lambda>s. ls_id s \<notin> ids) (rl_sessions l)"

lemma line_without_ids:
  assumes "line_without_multiple_sessions l ids = Inr r"
  shows "case r of None \<Rightarrow> remaining_sessions ids l = [] | Some l' \<Rightarrow>
    remaining_sessions ids l \<noteq> [] \<and> rl_sessions l' = remaining_sessions ids l \<and> rl_type l' = rl_type l \<and>
    rl_complexity l' = rl_complexity l \<and> merge_all (map ls_coverage (remaining_sessions ids l)) None = Inr (rl_coverage l')"
  using assms by (auto simp: line_without_multiple_sessions_def remaining_sessions_def Let_def split: if_splits)

definition stores_no_ignored :: "report_file \<Rightarrow> bool" where
  "stores_no_ignored f \<longleftrightarrow> (\<forall>n l. (n, l) \<in> set (rf_items f) \<longrightarrow> \<not> ignored f n)"

definition lines_without :: "int set \<Rightarrow> report_file \<Rightarrow> report_file \<Rightarrow> bool" where
  "lines_without ids f g \<longleftrightarrow>
     (\<forall>n. case line_at (rf_lines f) n of None \<Rightarrow> line_at (rf_lines g) n = None
       | Some l \<Rightarrow> if touches ids l then line_without_multiple_sessions l ids = Inr (line_at (rf_lines g) n)
           else line_at (rf_lines g) n = Some l)"

lemma delete_sessions_cases:
  assumes "rf_delete_multiple_sessions f ids = Inr g" "caches_ok f" "stores_no_ignored f"
  shows "(session_ids_in (rf_lines f) \<inter> ids = {} \<and> g = f\<lparr>rf_present := Some (session_ids_in (rf_lines f))\<rparr>) \<or>
    (session_ids_in (rf_lines f) \<subseteq> ids \<and> g = (rf_invalidate_caches f)\<lparr>rf_lines := []\<rparr>) \<or>
    (rf_present g = Some (session_ids_in (rf_lines f) - ids) \<and> rf_totals g = None \<and> lines_without ids f g)"
proof -
  let ?old = "session_ids_in (rf_lines f)"
  have cur: "rf_present_sessions f = ?old"
    using assms(2) by (auto simp: rf_present_sessions_def caches_ok_def split: option.split)
  show ?thesis
  proof (cases "?old = ?old - ids \<or> ?old - ids = {}")
    case True
    with assms(1) show ?thesis by (auto simp: rf_delete_multiple_sessions_def Let_def cur split: if_splits)
  next
    case False
    let ?f1 = "rf_invalidate_caches f"
    from False assms(1) obtain h where h: "foldl_res (delete_from_line ids) ?f1 (rf_items ?f1) = Inr h"
      and g: "g = h\<lparr>rf_present := Some (?old - ids)\<rparr>"
      by (auto simp: rf_delete_multiple_sessions_def Let_def cur)
    have items: "rf_items ?f1 = enum_lines 1 (rf_lines f)" by (simp add: rf_items_def)
    have ok: "\<forall>(k, l) \<in> set (rf_items ?f1). 1 \<le> k \<and> \<not> ignored ?f1 k"
      using assms(3) distinct_enum_lines [of 1 "rf_lines f"]
      by (force simp: stores_no_ignored_def rf_items_def ignored_def)
    have "distinct (map fst (rf_items ?f1))" using distinct_enum_lines [of 1 "rf_lines f"] by (simp add: items)
    note d = delete_fold_at [OF h this ok]
    have "lines_without ids f g"
      using d by (auto simp: lines_without_def items set_enum_line_at g split: option.split)
    with d show ?thesis by (simp add: g)
  qed
qed

lemma delete_sessions_ids:
  assumes "rf_delete_multiple_sessions f ids = Inr g" "caches_ok f" "stores_no_ignored f"
  shows "session_ids_in (rf_lines g) = session_ids_in (rf_lines f) - ids" "caches_ok g"
proof -
  let ?old = "session_ids_in (rf_lines f)"
  consider (none) "?old \<inter> ids = {}" "g = f\<lparr>rf_present := Some ?old\<rparr>"
    | (all) "?old \<subseteq> ids" "g = (rf_invalidate_caches f)\<lparr>rf_lines := []\<rparr>"
    | (some) "rf_present g = Some (?old - ids)" "rf_totals g = None" "lines_without ids f g"
    using delete_sessions_cases [OF assms] by argo
  then have "session_ids_in (rf_lines g) = ?old - ids \<and> caches_ok g"
  proof cases
    case none
    with assms(2) show ?thesis by (auto simp: caches_ok_def)
  next
    case all
    then show ?thesis by (auto simp: caches_ok_def session_ids_in_def)
  next
    case some
    have line: "(\<exists>l'. line_at (rf_lines g) n = Some l' \<and> i \<in> line_session_ids l') \<longleftrightarrow>
        (\<exists>l. line_at (rf_lines f) n = Some l \<and> i \<in> line_session_ids l - ids)" for n i
    proof (cases "line_at (rf_lines f) n")
      case None
      with some(3) show ?thesis by (auto simp: lines_without_def dest: spec [of _ n])
    next
      case (Some l)
      show ?thesis
      proof (cases "touches ids l")
        case True
        with Some some(3) have "line_without_multiple_sessions l ids = Inr (line_at (rf_lines g) n)"
          by (auto simp: lines_without_def dest: spec [of _ n])
        from line_without_ids [OF this] Some show ?thesis
          by (auto simp: line_session_ids_def remaining_sessions_def filter_empty_conv split: option.splits)
      next
        case False
        with Some some(3) have "line_at (rf_lines g) n = Some l" by (auto simp: lines_without_def dest: spec [of _ n])
        with False Some show ?thesis by (auto simp: touches_def line_session_ids_def)
      qed
    qed
    have "i \<in> session_ids_in (rf_lines g) \<longleftrightarrow> i \<in> ?old - ids" for i
      unfolding session_ids_line_at Diff_iff using line by auto
    then have "session_ids_in (rf_lines g) = ?old - ids" by blast
    with some show ?thesis by (simp add: caches_ok_def)
  qed
  then show "session_ids_in (rf_lines g) = ?old - ids" "caches_ok g" by simp_all
qed

section \<open>Diffs of a file\<close>

text \<open>
  The reference for shifting: the effect of a segment's lines on the lines from its start on. A
  removed line drops a line, an added line has no coverage yet, and any other line is kept.
\<close>

fun patch :: "'a option list \<Rightarrow> string list \<Rightarrow> 'a option list" where
  "patch xs [] = xs"
| "patch xs (l # ls) =
     (if startswith l ''-'' then patch (tl xs) ls
      else if startswith l ''+'' then None # patch xs ls
      else (case xs of [] \<Rightarrow> patch [] ls | x # xs' \<Rightarrow> x # patch xs' ls))"

lemma shift_segment_patch:
  "0 \<le> pos \<Longrightarrow> \<forall>l \<in> set ls. l \<noteq> [] \<Longrightarrow>
     shift_segment L pos ls = (take (nat pos) L @ patch (drop (nat pos) L) ls, True)"
proof (induction L pos ls rule: shift_segment.induct)
  case (1 L pos)
  then show ?case by simp
next
  case (2 L pos l rest)
  then obtain c r where l: "l = c # r" by (cases l) auto
  have rest: "\<forall>l \<in> set rest. l \<noteq> []" using "2.prems" by simp
  have next_pos: "nat (pos + 1) = Suc (nat pos)" "0 \<le> pos + 1" using "2.prems" by simp_all
  consider (minus) "c = CHR ''-''" | (plus) "c = CHR ''+''" | (other) "c \<noteq> CHR ''-''" "c \<noteq> CHR ''+''" by auto
  then show ?case
  proof cases
    case minus
    show ?thesis
    proof (cases "int (length L) > pos")
      case True
      then have "nat pos < length L" using "2.prems"(1) by simp
      then obtain x where d: "drop (nat pos) L = x # drop (Suc (nat pos)) L" by (simp add: Cons_nth_drop_Suc [symmetric])
      have pop: "py_pop pos L = Some (take (nat pos) L @ drop (Suc (nat pos)) L)"
        using True "2.prems"(1) by (simp add: py_pop_def)
      have "shift_segment (take (nat pos) L @ drop (Suc (nat pos)) L) pos rest =
          (take (nat pos) L @ patch (drop (Suc (nat pos)) L) rest, True)"
        using "2.IH"(1) [OF l minus True pop "2.prems"(1) rest] \<open>nat pos < length L\<close> by simp
      with True minus pop l d show ?thesis by (simp add: startswith_char)
    next
      case False
      then have d: "drop (nat pos) L = []" by simp
      with "2.IH"(2) [OF l minus False "2.prems"(1) rest] False minus l show ?thesis
        by (simp add: startswith_char)
    qed
  next
    case plus
    let ?k = "min (nat pos) (length L)"
    have ins: "py_insert pos None L = take ?k L @ None # drop ?k L"
      using "2.prems"(1) by (auto simp: py_insert_def slice_bound_def min_def Let_def)
    have "take (Suc (nat pos)) (py_insert pos None L) = take (nat pos) L @ [None]"
      "drop (Suc (nat pos)) (py_insert pos None L) = drop (nat pos) L"
      by (auto simp: ins min_def take_Cons' drop_Cons')
    with "2.IH"(3) [OF l _ plus next_pos(2) rest] plus l next_pos(1) show ?thesis
      by (simp add: startswith_char)
  next
    case other
    have "take (Suc (nat pos)) L @ patch (drop (Suc (nat pos)) L) rest =
        take (nat pos) L @ (case drop (nat pos) L of [] \<Rightarrow> patch [] rest | x # xs' \<Rightarrow> x # patch xs' rest)"
    proof (cases "nat pos < length L")
      case True
      then show ?thesis by (simp add: Cons_nth_drop_Suc [symmetric] take_Suc_conv_app_nth)
    next
      case False
      then show ?thesis by simp
    qed
    with "2.IH"(4) [OF l other next_pos(2) rest] other l next_pos(1) show ?thesis
      by (simp add: startswith_char)
  qed
qed

definition apply_hunk :: "'a option list \<Rightarrow> diff_segment \<Rightarrow> 'a option list" where
  "apply_hunk L s =
     (case segment_start s of
        Inl _ \<Rightarrow> L
      | Inr n \<Rightarrow> take (nat (n - 1)) L @ patch (drop (nat (n - 1)) L) (seg_lines s))"

definition wf_segment :: "diff_segment \<Rightarrow> bool" where
  "wf_segment s \<longleftrightarrow> (case segment_start s of Inl _ \<Rightarrow> False | Inr n \<Rightarrow> 1 \<le> n) \<and> [] \<notin> set (seg_lines s)"

lemma wf_segmentD: "wf_segment s \<Longrightarrow> \<exists>n. segment_start s = Inr n \<and> 1 \<le> n \<and> (\<forall>l \<in> set (seg_lines s). l \<noteq> [])"
  by (auto simp: wf_segment_def split: sum.splits)

lemma shift_segments_patch:
  "\<forall>s \<in> set segs. wf_segment s \<Longrightarrow> shift_segments L segs = foldl apply_hunk L segs"
proof (induction segs arbitrary: L)
  case Nil
  then show ?case by simp
next
  case (Cons s segs)
  then obtain n where n: "segment_start s = Inr n" "1 \<le> n" "\<forall>l \<in> set (seg_lines s). l \<noteq> []"
    using wf_segmentD by (metis list.set_intros(1))
  then have "shift_segment L (n - 1) (seg_lines s) = (apply_hunk L s, True)"
    by (simp add: shift_segment_patch apply_hunk_def)
  with Cons n show ?case by simp
qed

text \<open>The lines of a segment that \<open>does_diff_adjust_tracked_lines\<close> looks at, with their position.\<close>

fun diff_events :: "int \<Rightarrow> string list \<Rightarrow> (bool \<times> int) list" where
  "diff_events pos [] = []"
| "diff_events pos (l # ls) =
     (if startswith l ''-'' then (False, pos) # diff_events pos ls
      else if startswith l ''+'' then (True, pos) # diff_events (pos + 1) ls
      else diff_events (pos + 1) ls)"

definition tracked_event :: "report_file \<Rightarrow> report_file \<Rightarrow> bool \<times> int \<Rightarrow> bool" where
  "tracked_event f future e = (line_at (rf_lines (if fst e then future else f)) (snd e) \<noteq> None)"

lemma adjusts_lines_iff:
  "1 \<le> pos \<Longrightarrow> \<forall>l \<in> set ls. l \<noteq> [] \<Longrightarrow>
     adjusts_lines f g pos ls = Inr (\<exists>e \<in> set (diff_events pos ls). tracked_event f g e)"
proof (induction f g pos ls rule: adjusts_lines.induct)
  case (1 f g pos)
  then show ?case by simp
next
  case (2 f g pos l ls)
  then obtain c r where l: "l = c # r" by (cases l) auto
  from 2 show ?case
    by (auto simp: l first_char_def startswith_char rf_contains_def rf_get_line_at tracked_event_def)
qed

definition segment_events :: "diff_segment \<Rightarrow> (bool \<times> int) list" where
  "segment_events s = (case segment_start s of Inl _ \<Rightarrow> [] | Inr n \<Rightarrow> diff_events n (seg_lines s))"

section \<open>The protocol of a file\<close>

interpretation rf: abstract_report_file rf_get rf_calculate_diff
  by unfold_locales (simp_all add: rf_get_def rf_calculate_diff_def fun_eq_iff)

lemma rf_total_cached: "caches_ok f \<Longrightarrow> rf_total f = get_line_totals (somes (rf_lines f))"
  by (auto simp: caches_ok_def rf_total_def rf_items_def split: option.split)


section \<open>Properties\<close>

text \<open>
  Merging another file into a file merges line by line: when the file is not a Ruby file, line n
  of the result is the merge of line n of both (a missing line is neutral), for the length of
  the longer file, and the caches are cleared.
\<close>

theorem rf_merge_pointwise:
  assumes "\<not> endswith (rf_name f) ''.rb''" "rf_merge f (Some g) joined is_disjoint = Inr (r, h)"
  shows "r = Some True \<and> rf_totals h = None \<and> rf_present h = None \<and>
    length (rf_lines h) = max (length (rf_lines f)) (length (rf_lines g)) \<and>
    (\<forall>n. merge_line (line_at (rf_lines f) n) (line_at (rf_lines g) n) joined is_disjoint = Inr (line_at (rf_lines h) n))"
proof -
  from assms obtain ls where ls: "merge_file_lines joined is_disjoint (rf_lines f) (rf_lines g) = Inr ls"
    and "r = Some True" "h = rf_invalidate_caches (f\<lparr>rf_lines := ls\<rparr>)"
    by (auto simp: rf_merge_def Let_def)
  with merge_file_lines_at [OF ls] show ?thesis by simp
qed

theorem rf_merge_pointwise_witness:
  "\<exists>h. rf_merge (ReportFile ''a.py'' None [Some (ReportLine_create (CovInt 1) None [LineSession 0 (CovInt 1) None None None] None)] None None)
      (Some (ReportFile ''a.py'' None [None, Some (ReportLine_create (CovInt 0) None [LineSession 1 (CovInt 0) None None None] None)] None None)) True False
      = Inr (Some True, h) \<and> length (rf_lines h) = 2"
proof -
  let ?f = "ReportFile ''a.py'' None [Some (ReportLine_create (CovInt 1) None [LineSession 0 (CovInt 1) None None None] None)] None None"
  let ?g = "ReportFile ''a.py'' None [None, Some (ReportLine_create (CovInt 0) None [LineSession 1 (CovInt 0) None None None] None)] None None"
  have n: "\<not> endswith (rf_name ?f) ''.rb''" by (simp add: ReportFile_def endswith_def)
  then obtain h where h: "rf_merge ?f (Some ?g) True False = Inr (Some True, h)"
    by (simp add: rf_merge_def ReportFile_def merge_line_def Let_def)
  with rf_merge_pointwise [OF n h] show ?thesis by (simp add: ReportFile_def)
qed

text \<open>
  Deleting sessions from a file removes exactly these sessions: afterwards the sessions present in
  the lines are the old ones without the deleted ones, and the caches (totals and present
  sessions) are right again.
\<close>

theorem rf_delete_sessions_present:
  assumes "rf_delete_multiple_sessions f ids = Inr g" "caches_ok f" "stores_no_ignored f"
  shows "session_ids_in (rf_lines g) = session_ids_in (rf_lines f) - ids \<and> caches_ok g"
  using delete_sessions_ids [OF assms] by simp

theorem rf_delete_sessions_present_witness:
  "\<exists>g. rf_delete_multiple_sessions (ReportFile ''a.py'' None
      [Some (ReportLine_create (CovInt 1) None [LineSession 0 (CovInt 1) None None None, LineSession 1 (CovInt 0) None None None] None)] None None) {0} = Inr g
     \<and> session_ids_in (rf_lines g) = {1} \<and> caches_ok g"
proof -
  let ?f = "ReportFile ''a.py'' None
      [Some (ReportLine_create (CovInt 1) None [LineSession 0 (CovInt 1) None None None, LineSession 1 (CovInt 0) None None None] None)] None None"
  have p: "session_ids_in (rf_lines ?f) = {0, 1}" by (auto simp: ReportFile_def session_ids_in_def line_session_ids_def)
  have c: "caches_ok ?f" "stores_no_ignored ?f"
    by (simp_all add: ReportFile_def caches_ok_def stores_no_ignored_def ignored_def)
  have "{0::int, 1} \<noteq> {1}" "insert 0 {1::int} - {0} = {1}" by auto
  then obtain g where g: "rf_delete_multiple_sessions ?f {0} = Inr g"
    by (simp add: rf_delete_multiple_sessions_def rf_present_sessions_def ReportFile_def p [unfolded ReportFile_def, simplified]
        Let_def rf_items_def delete_from_line_def line_without_multiple_sessions_def merge_all_def rf_setitem_def ignored_def)
  with rf_delete_sessions_present [OF g c] p show ?thesis by auto
qed

text \<open>
  C20. Every operation that changes the lines of a file leaves its caches consistent with the lines:
  a cached total is the total of the lines, and the cached session ids are those of the lines.
\<close>

theorem rf_operations_keep_caches:
  assumes "caches_ok f"
  shows "(rf_setitem f n l = Inr g \<longrightarrow> caches_ok g) \<and> (rf_delitem f n = Inr g \<longrightarrow> caches_ok g) \<and>
    (rf_append f n l = Inr (b, g) \<longrightarrow> caches_ok g) \<and> (rf_merge f h j d = Inr (r, g) \<longrightarrow> caches_ok g) \<and>
    caches_ok (rf_shift_lines_by_diff f segs) \<and>
    (stores_no_ignored f \<longrightarrow> rf_delete_multiple_sessions f ids = Inr g \<longrightarrow> caches_ok g)"
proof -
  have inv: "caches_ok (rf_invalidate_caches x)" for x by (simp add: caches_ok_def)
  have "rf_merge f h j d = Inr (r, g) \<Longrightarrow> caches_ok g"
    using assms inv rf_total_cached [OF assms]
    by (auto simp: rf_merge_def Let_def caches_ok_def split: option.splits if_splits)
  then show ?thesis
    using assms inv delete_sessions_ids(2) [of f ids g]
    by (auto simp: rf_setitem_def rf_delitem_def rf_append_def rf_shift_lines_by_diff_def split: if_splits)
qed

theorem rf_operations_keep_caches_witness:
  "\<exists>g. rf_setitem (ReportFile ''a.py'' None [] None None) 2 (ReportLine_create (CovInt 1) None [] None) = Inr g \<and>
     rf_lines g = [None, Some (ReportLine_create (CovInt 1) None [] None)] \<and> caches_ok g"
proof -
  let ?f = "ReportFile ''a.py'' None [] None None" and ?l = "ReportLine_create (CovInt 1) None [] None"
  have c: "caches_ok ?f" by (simp add: caches_ok_def ReportFile_def)
  obtain g where g: "rf_setitem ?f 2 ?l = Inr g" "rf_lines g = [None, Some ?l]"
    by (simp add: rf_setitem_def ReportFile_def ignored_def put_line_def numeral_2_eq_2)
  with rf_operations_keep_caches [OF c, of 2 ?l g] show ?thesis by blast
qed

text \<open>
  Shifting the lines of a file by a diff applies the diff as a patch to the list of lines: hunk by
  hunk, removed lines lose their coverage record, added lines come in without one, and all other
  lines keep theirs.
\<close>

theorem rf_shift_is_patch:
  assumes "\<forall>s \<in> set segs. wf_segment s"
  shows "rf_lines (rf_shift_lines_by_diff f segs) = foldl apply_hunk (rf_lines f) segs"
  using shift_segments_patch [OF assms] by (simp add: rf_shift_lines_by_diff_def)

theorem rf_shift_is_patch_witness:
  "rf_lines (rf_shift_lines_by_diff (ReportFile ''a.py'' None [Some (ReportLine_create (CovInt 1) None [] None), None] None None)
      [\<lparr>seg_header = [''1'', ''1'', ''1'', ''2''], seg_lines = [''+x'', '' y'']\<rparr>])
   = [None, Some (ReportLine_create (CovInt 1) None [] None), None]"
proof -
  let ?s = "\<lparr>seg_header = [''1'', ''1'', ''1'', ''2''], seg_lines = [''+x'', '' y'']\<rparr>"
  have s: "segment_start ?s = Inr 1" by code_simp
  have "wf_segment ?s" by (simp add: wf_segment_def s)
  then show ?thesis
    using rf_shift_is_patch [of "[?s]" "ReportFile ''a.py'' None [Some (ReportLine_create (CovInt 1) None [] None), None] None None"]
    by (simp add: apply_hunk_def s ReportFile_def startswith_def)
qed

text \<open>
  \<open>does_diff_adjust_tracked_lines\<close> answers whether a removed line of the diff is tracked in the file
  or an added line is tracked in the future file, where every line of a hunk, removed ones
  included, is looked up at its position in the new version of the file.
\<close>

theorem rf_does_diff_adjust_iff:
  assumes "\<forall>s \<in> set segs. wf_segment s"
  shows "rf_does_diff_adjust f future segs =
    Inr (\<exists>s \<in> set segs. \<exists>e \<in> set (segment_events s). tracked_event f future e)"
  using assms
proof (induction segs)
  case Nil
  then show ?case by simp
next
  case (Cons s segs)
  then obtain n where n: "segment_start s = Inr n" "1 \<le> n" "\<forall>l \<in> set (seg_lines s). l \<noteq> []"
    using wf_segmentD by (metis list.set_intros(1))
  then have "segment_events s = diff_events n (seg_lines s)" by (simp add: segment_events_def)
  with Cons n show ?case by (auto simp: adjusts_lines_iff)
qed

theorem rf_does_diff_adjust_iff_witness:
  "rf_does_diff_adjust (ReportFile ''a.py'' None [Some (ReportLine_create (CovInt 1) None [] None)] None None)
     (ReportFile ''a.py'' None [] None None) [\<lparr>seg_header = [''1'', ''1'', ''1'', ''0''], seg_lines = [''-x'']\<rparr>] = Inr True"
proof -
  let ?s = "\<lparr>seg_header = [''1'', ''1'', ''1'', ''0''], seg_lines = [''-x'']\<rparr>"
  have s: "segment_start ?s = Inr 1" by code_simp
  have "wf_segment ?s" by (simp add: wf_segment_def s)
  then show ?thesis
    using rf_does_diff_adjust_iff [of "[?s]" "ReportFile ''a.py'' None [Some (ReportLine_create (CovInt 1) None [] None)] None None"
        "ReportFile ''a.py'' None [] None None"]
    by (simp add: segment_events_def s tracked_event_def ReportFile_def startswith_def line_at_def)
qed

text \<open>
  A tracked line that a diff removes can go unnoticed: the positions of removed lines do not advance,
  so that of two consecutive removed lines only the first is looked up. Here line 4 is tracked,
  the diff removes lines 3 and 4, and the answer is that no tracked line changes.
\<close>

theorem rf_does_diff_adjust_misses_removed:
  "rf_does_diff_adjust
     (ReportFile ''a.py'' None [None, None, None, Some (ReportLine_create (CovInt 1) None [] None)] None None)
     (ReportFile ''a.py'' None [] None None)
     [\<lparr>seg_header = [''3'', ''2'', ''3'', ''0''], seg_lines = [''-x'', ''-y'']\<rparr>] = Inr False"
  by code_simp

text \<open>
  Three uploads of a Ruby file merged with the deferred (disjoint) merge lose the first two: after
  the first merge the common lines have no coverage yet, the file counts no lines and no misses,
  and the rule for fully missed Ruby files replaces its lines by those of the third upload.
\<close>

theorem rf_merge_ruby_disjoint_loses_sessions:
  "(case rf_merge (ReportFile ''a.rb'' None [Some (ReportLine_create (CovInt 1) None [LineSession 0 (CovInt 1) None None None] None)] None None)
       (Some (ReportFile ''a.rb'' None [Some (ReportLine_create (CovInt 1) None [LineSession 1 (CovInt 1) None None None] None)] None None)) True True of
      Inr (_, f) \<Rightarrow>
        (case rf_merge f (Some (ReportFile ''a.rb'' None [Some (ReportLine_create (CovInt 1) None [LineSession 2 (CovInt 1) None None None] None)] None None)) True True of
           Inr (_, g) \<Rightarrow> map (map_option (\<lambda>l. map ls_id (rl_sessions l))) (rf_lines g)
         | Inl _ \<Rightarrow> [])
    | Inl _ \<Rightarrow> []) = [Some [2]]"
  by (simp add: rf_merge_def ReportFile_def endswith_def rf_total_def rf_items_def get_line_totals_def count_line_def
      line_type_def count_coverage_def count_type_def count_complexity_def no_lines_def totals_of_counts_def
      all_missed_def same_lines_misses_def merge_line_def rf_invalidate_caches_def Let_def)

end
