(* ===== verification/Py_Json.thy ===== *)
theory Py_Json
  imports Py_Dict
begin

text \<open>
  JSON and YAML values as Python holds them after decoding: the values of configuration
  files, of session attributes and of other data that the code passes around without looking
  into it. Dictionaries keep the order of insertion.
\<close>

datatype json =
    JNull
  | JBool bool
  | JInt int
  | JFloat rat
  | JStr string
  | JList "json list"
  | JObj "(string \<times> json) list"

text \<open>Python's truth value.\<close>

fun j_truthy :: "json \<Rightarrow> bool" where
  "j_truthy JNull = False"
| "j_truthy (JBool b) = b"
| "j_truthy (JInt i) = (i \<noteq> 0)"
| "j_truthy (JFloat q) = (q \<noteq> 0)"
| "j_truthy (JStr s) = (s \<noteq> [])"
| "j_truthy (JList xs) = (xs \<noteq> [])"
| "j_truthy (JObj kvs) = (kvs \<noteq> [])"

text \<open>\<open>a or b\<close>.\<close>

definition j_or :: "json \<Rightarrow> json \<Rightarrow> json" where
  "j_or a b = (if j_truthy a then a else b)"

text \<open>\<open>d.get(key, default)\<close> for a dictionary; \<open>None\<close> of the model when \<open>d\<close> is no dictionary.\<close>

fun j_get :: "json \<Rightarrow> string \<Rightarrow> json option" where
  "j_get (JObj kvs) k = Some (case dict_get kvs k of None \<Rightarrow> JNull | Some v \<Rightarrow> v)"
| "j_get _ k = None"

fun is_obj :: "json \<Rightarrow> bool" where
  "is_obj (JObj _) = True"
| "is_obj _ = False"

end
