(* ===== verification/Sessions.thy ===== *)
theory Sessions
  imports Report_Types Py_Json
begin

text \<open>
  Upload sessions of a report (libs/shared/shared/utils/sessions.py): the attributes of an
  upload, its kind (uploaded or carried forward), and the encoding that is stored with a report.
  Attributes that the code only stores and passes on are JSON values.
\<close>

datatype session_type = ST_uploaded | ST_carriedforward

fun session_type_value :: "session_type \<Rightarrow> string" where
  "session_type_value ST_uploaded = ''uploaded''"
| "session_type_value ST_carriedforward = ''carriedforward''"

definition session_type_from_string :: "string option \<Rightarrow> session_type option" where
  "session_type_from_string v =
     (if v = Some ''uploaded'' then Some ST_uploaded
      else if v = Some ''carriedforward'' then Some ST_carriedforward
      else None)"

record session =
  ss_id :: "int option"
  ss_totals :: "report_totals option"
  ss_time :: json
  ss_archive :: json
  ss_flags :: "string list option"
  ss_provider :: json
  ss_build :: json
  ss_job :: json
  ss_url :: json
  ss_state :: json
  ss_env :: json
  ss_name :: "string option"
  ss_session_type :: session_type
  ss_session_extras :: "(string, json) dict"

text \<open>The encoded form: the one-letter keys of \<open>_encode\<close>, and the long names of old reports.\<close>

record session_fields =
  sf_t :: "fval list option"
  sf_d :: json
  sf_a :: json
  sf_f :: "string list option"
  sf_c :: json
  sf_n :: json
  sf_j :: json
  sf_u :: json
  sf_p :: json
  sf_e :: json
  sf_N :: "string option"
  sf_st :: "string option"
  sf_se :: "(string, json) dict option"

definition no_fields :: session_fields where
  "no_fields = \<lparr>sf_t = None, sf_d = JNull, sf_a = JNull, sf_f = None, sf_c = JNull, sf_n = JNull, sf_j = JNull,
     sf_u = JNull, sf_p = JNull, sf_e = JNull, sf_N = None, sf_st = None, sf_se = None\<rparr>"

text \<open>\<open>a or b\<close> on optional lists: the empty list is false.\<close>

definition list_or :: "'a list option \<Rightarrow> 'a list option \<Rightarrow> 'a list option" where
  "list_or a b = (case a of Some (x # xs) \<Rightarrow> a | _ \<Rightarrow> b)"

text \<open>\<open>parse_totals\<close>: an error of the model when the fields do not make totals.\<close>

definition parse_totals :: "fval list option \<Rightarrow> report_totals option res" where
  "parse_totals t =
     (case t of
        Some (v # vs) \<Rightarrow> (case ReportTotals (v # vs) of None \<Rightarrow> Inl TypeError | Some x \<Rightarrow> Inr (Some x))
      | _ \<Rightarrow> Inr None)"

text \<open>The arguments beyond the encoded fields, \<open>kwargs\<close>, only matter for the long names of old reports.\<close>

definition parse_session :: "int option \<Rightarrow> session_fields \<Rightarrow> session_fields \<Rightarrow> session res" where
  "parse_session i a kw =
     bind_res (parse_totals (list_or (sf_t a) (sf_t kw))) (\<lambda>t.
       Inr \<lparr>ss_id = i, ss_totals = t, ss_time = j_or (sf_d a) (sf_d kw), ss_archive = j_or (sf_a a) (sf_a kw),
         ss_flags = list_or (sf_f a) (sf_f kw), ss_provider = j_or (sf_c a) (sf_c kw),
         ss_build = j_or (sf_n a) (sf_n kw), ss_job = j_or (sf_j a) (sf_j kw), ss_url = j_or (sf_u a) (sf_u kw),
         ss_state = j_or (sf_p a) (sf_p kw), ss_env = j_or (sf_e a) (sf_e kw), ss_name = str_or (sf_N a) (sf_N kw),
         ss_session_type = (case session_type_from_string (sf_st a) of None \<Rightarrow> ST_uploaded | Some ty \<Rightarrow> ty),
         ss_session_extras = (case sf_se a of None \<Rightarrow> [] | Some e \<Rightarrow> e)\<rparr>)"

definition encode_session :: "session \<Rightarrow> session_fields" where
  "encode_session s =
     \<lparr>sf_t = map_option totals_astuple (ss_totals s), sf_d = ss_time s, sf_a = ss_archive s, sf_f = ss_flags s,
      sf_c = ss_provider s, sf_n = ss_build s, sf_j = ss_job s, sf_u = ss_url s, sf_p = ss_state s,
      sf_e = ss_env s, sf_N = ss_name s, sf_st = Some (session_type_value (ss_session_type s)),
      sf_se = Some (ss_session_extras s)\<rparr>"

section \<open>Round trip\<close>

text \<open>Reading a session back turns every false value (0, the empty string, list or dictionary) into none.\<close>

definition or_null :: "json \<Rightarrow> json" where
  "or_null v = j_or v JNull"

definition normal_session :: "session \<Rightarrow> session" where
  "normal_session s =
     s\<lparr>ss_time := or_null (ss_time s), ss_archive := or_null (ss_archive s), ss_flags := list_or (ss_flags s) None,
       ss_provider := or_null (ss_provider s), ss_build := or_null (ss_build s), ss_job := or_null (ss_job s),
       ss_url := or_null (ss_url s), ss_state := or_null (ss_state s), ss_env := or_null (ss_env s),
       ss_name := str_or (ss_name s) None\<rparr>"

lemma session_type_roundtrip [simp]: "session_type_from_string (Some (session_type_value t)) = Some t"
  by (cases t) (simp_all add: session_type_from_string_def)

lemma parse_totals_astuple [simp]:
  "parse_totals (list_or (map_option totals_astuple t) None) = Inr t"
proof (cases t)
  case None
  then show ?thesis by (simp add: parse_totals_def list_or_def)
next
  case (Some u)
  obtain v vs where "totals_astuple u = v # vs" by (simp add: totals_astuple_def)
  with Some ReportTotals_astuple [of u] show ?thesis by (simp add: parse_totals_def list_or_def)
qed

text \<open>
  A session that is encoded with a report and parsed back is the same session with its false
  values turned into none: the totals, the flags, the kind and the extras of the session survive.
\<close>

theorem session_roundtrip:
  "parse_session (ss_id s) (encode_session s) no_fields = Inr (normal_session s)"
  by (simp add: parse_session_def encode_session_def no_fields_def normal_session_def or_null_def)

end
