(* ===== verification/Report.thy ===== *)
theory Report
  imports Report_File Sessions
begin

text \<open>
  \<open>Report\<close> (libs/shared/shared/reports/resources.py): the files of a commit by path, the upload
  sessions by id, and the cached totals. Files added to a report are values here; in the code
  the report holds the very object it was given, so that a later change of a report's file is
  also seen through the report it came from.
\<close>

section \<open>State\<close>

record report =
  r_sessions :: "(int, session) dict"
  r_totals :: "report_totals option"
  r_files :: "(string, report_file) dict"
  r_diff_totals :: "report_totals option"

definition empty_report :: report where
  "empty_report = \<lparr>r_sessions = [], r_totals = None, r_files = [], r_diff_totals = None\<rparr>"

definition r_invalidate_caches :: "report \<Rightarrow> report" where
  "r_invalidate_caches r = r\<lparr>r_totals := None\<rparr>"

definition r_is_empty :: "report \<Rightarrow> bool" where
  "r_is_empty r = (r_files r = [])"

definition r_file_list :: "report \<Rightarrow> report_file list" where
  "r_file_list r = dict_values (r_files r)"

definition r_get :: "report \<Rightarrow> string \<Rightarrow> report_file option" where
  "r_get r filename = dict_get (r_files r) filename"

definition r_getitem :: "report \<Rightarrow> string \<Rightarrow> report_file res" where
  "r_getitem r filename = (case r_get r filename of None \<Rightarrow> Inl IndexError | Some f \<Rightarrow> Inr f)"

definition r_contains :: "report \<Rightarrow> string \<Rightarrow> bool" where
  "r_contains r filename = (filename \<in> set (dict_keys (r_files r)))"

definition r_delitem :: "report \<Rightarrow> string \<Rightarrow> report res" where
  "r_delitem r filename =
     (if r_contains r filename then Inr (r\<lparr>r_files := dict_del (r_files r) filename\<rparr>) else Inl KeyError)"

section \<open>Totals and the network\<close>

definition r_process_totals :: "report \<Rightarrow> report_totals res" where
  "r_process_totals r =
     map_res (\<lambda>ts. (agg_totals ts)\<lparr>t_sessions := int (length (r_sessions r))\<rparr>)
       (traverse rf_total (r_file_list r))"

definition r_total :: "report \<Rightarrow> report_totals res" where
  "r_total r = (case r_totals r of Some t \<Rightarrow> Inr t | None \<Rightarrow> r_process_totals r)"

definition r_network :: "report \<Rightarrow> (string \<times> network_file) list res" where
  "r_network r =
     traverse (\<lambda>(name, f). map_res (\<lambda>t. (name, make_network_file (Some t) (rf_diff_totals f))) (rf_total f)) (r_files r)"

definition r_get_file_totals :: "report \<Rightarrow> string \<Rightarrow> report_totals option res" where
  "r_get_file_totals r path = (case r_get r path of None \<Rightarrow> Inr None | Some f \<Rightarrow> map_res Some (rf_total f))"

section \<open>Flags\<close>

text \<open>Sorting strings, by insertion.\<close>

fun str_insort :: "string \<Rightarrow> string list \<Rightarrow> string list" where
  "str_insort s [] = [s]"
| "str_insort s (t # ts) = (if str_less t s then t # str_insort s ts else s # t # ts)"

definition str_sort :: "string list \<Rightarrow> string list" where
  "str_sort ss = foldr str_insort ss []"

text \<open>The attributes of \<open>Flag\<close> (helpers/flag.py) beside the report it belongs to.\<close>

record flag =
  fg_name :: string
  fg_carriedforward :: bool
  fg_carriedforward_from :: json

definition flags_or_nil :: "session \<Rightarrow> string list" where
  "flags_or_nil s = (case ss_flags s of None \<Rightarrow> [] | Some fs \<Rightarrow> fs)"

definition session_flag :: "session \<Rightarrow> string \<Rightarrow> flag" where
  "session_flag s name =
     \<lparr>fg_name = name, fg_carriedforward = (ss_session_type s = ST_carriedforward),
      fg_carriedforward_from =
        (case dict_get (ss_session_extras s) ''carriedforward_from'' of None \<Rightarrow> JNull | Some v \<Rightarrow> v)\<rparr>"

definition r_flags :: "report \<Rightarrow> (string, flag) dict" where
  "r_flags r =
     foldl (\<lambda>d s. foldl (\<lambda>d' name. dict_set d' name (session_flag s name)) d (flags_or_nil s)) []
       (dict_values (r_sessions r))"

definition r_get_flag_names :: "report \<Rightarrow> string list" where
  "r_get_flag_names r = str_sort (remdups (concat (map flags_or_nil (dict_values (r_sessions r)))))"

definition r_get_uploaded_flags :: "report \<Rightarrow> string set" where
  "r_get_uploaded_flags r =
     (\<Union>s \<in> set (dict_values (r_sessions r)).
        if ss_session_type s = ST_uploaded then set (flags_or_nil s) else {})"

section \<open>Adding files and sessions\<close>

definition r_append :: "report \<Rightarrow> report_file option \<Rightarrow> bool \<Rightarrow> bool \<Rightarrow> (bool \<times> report) res" where
  "r_append r file joined is_disjoint =
     (case file of
        None \<Rightarrow> Inr (False, r)
      | Some f \<Rightarrow>
          if rf_len f = 0 then Inr (False, r)
          else if rf_name f = [] then Inl AssertionError
          else
            (case dict_get (r_files r) (rf_name f) of
               Some g \<Rightarrow>
                 bind_res (rf_merge g (Some f) joined is_disjoint) (\<lambda>(_, g').
                   Inr (True, r_invalidate_caches (r\<lparr>r_files := dict_set (r_files r) (rf_name f) g'\<rparr>)))
             | None \<Rightarrow>
                 Inr (True, r_invalidate_caches (r\<lparr>r_files := dict_set (r_files r) (rf_name f) f\<rparr>))))"

text \<open>\<open>rename\<close>: a new name that is empty or \<open>None\<close> drops the file.\<close>

definition r_rename :: "report \<Rightarrow> string \<Rightarrow> string option \<Rightarrow> report res" where
  "r_rename r old new =
     (case dict_get (r_files r) old of
        None \<Rightarrow> Inl KeyError
      | Some f \<Rightarrow>
          let files = dict_del (r_files r) old
          in Inr (r_invalidate_caches (r\<lparr>r_files :=
               (case new of
                  Some (c # cs) \<Rightarrow> dict_set files (c # cs) (f\<lparr>rf_name := c # cs\<rparr>)
                | _ \<Rightarrow> files)\<rparr>)))"

definition r_resolve_paths :: "report \<Rightarrow> (string \<times> string option) list \<Rightarrow> report res" where
  "r_resolve_paths r paths =
     foldl_res (\<lambda>r (old, new). if r_contains r old then r_rename r old new else Inr r) r paths"

text \<open>The first number from \<open>n\<close> on that is not the id of a session.\<close>

function next_free :: "int list \<Rightarrow> int \<Rightarrow> int" where
  "next_free ks n = (if n \<in> set ks then next_free ks (n + 1) else n)"
  by pat_completeness auto
termination
proof (relation "measure (\<lambda>(ks, n). card {k \<in> set ks. n \<le> k})", goal_cases)
  case 1
  then show ?case by simp
next
  case (2 ks n)
  then have "{k \<in> set ks. n + 1 \<le> k} \<subset> {k \<in> set ks. n \<le> k}" by force
  then show ?case by (simp add: psubset_card_mono)
qed

declare next_free.simps [simp del]

definition r_next_session_number :: "report \<Rightarrow> int" where
  "r_next_session_number r = next_free (dict_keys (r_sessions r)) (int (length (r_sessions r)))"

text \<open>
  \<open>add_session\<close>: the cached totals are adjusted, not cleared. A session without an id added with
  \<open>use_id_from_session\<close>, which the code would store under the key \<open>None\<close>, is an error of the model.
\<close>

definition r_add_session :: "report \<Rightarrow> session \<Rightarrow> bool \<Rightarrow> (int \<times> session \<times> report) res" where
  "r_add_session r s use_id =
     bind_res (if use_id then (case ss_id s of None \<Rightarrow> Inl KeyError | Some i \<Rightarrow> Inr i)
               else Inr (r_next_session_number r)) (\<lambda>sid.
       Inr (sid, s, r\<lparr>r_sessions := dict_set (r_sessions r) sid s,
         r_totals := map_option (\<lambda>t. t\<lparr>t_sessions := (if use_id then t_sessions t + 1 else sid + 1)\<rparr>) (r_totals r)\<rparr>))"

section \<open>Merging reports\<close>

definition r_merge_file :: "bool \<Rightarrow> bool \<Rightarrow> report \<Rightarrow> report_file \<Rightarrow> report res" where
  "r_merge_file joined is_disjoint r f =
     (if rf_name f = [] then Inr r else map_res snd (r_append r (Some f) joined is_disjoint))"

definition r_merge :: "report \<Rightarrow> report option \<Rightarrow> bool \<Rightarrow> bool \<Rightarrow> report res" where
  "r_merge r new_report joined is_disjoint =
     (case new_report of
        None \<Rightarrow> Inr r
      | Some n \<Rightarrow>
          if r_is_empty n then Inr r
          else foldl_res (r_merge_file joined is_disjoint) r (r_file_list n))"

text \<open>\<open>finish_merge\<close> completes the lines that a disjoint merge left without coverage.\<close>

definition finish_line :: "report_line \<Rightarrow> report_line res" where
  "finish_line l =
     (if rl_coverage l = CovNone then
        bind_res (get_coverage_from_sessions (rl_sessions l)) (\<lambda>c.
        bind_res (get_complexity_from_sessions (rl_sessions l)) (\<lambda>cx.
          Inr (l\<lparr>rl_coverage := c, rl_complexity := cx\<rparr>)))
      else Inr l)"

definition finish_opt :: "report_line option \<Rightarrow> report_line option res" where
  "finish_opt l = (case l of None \<Rightarrow> Inr None | Some x \<Rightarrow> map_res Some (finish_line x))"

definition finish_file :: "report_file \<Rightarrow> report_file res" where
  "finish_file f = map_res (\<lambda>ls. f\<lparr>rf_lines := ls\<rparr>) (traverse finish_opt (rf_lines f))"

definition r_finish_merge :: "report \<Rightarrow> report res" where
  "r_finish_merge r =
     map_res (\<lambda>fs. r\<lparr>r_files := fs\<rparr>) (traverse (\<lambda>(name, f). map_res (Pair name) (finish_file f)) (r_files r))"

section \<open>Deleting and renumbering sessions\<close>

definition r_pop_session :: "report \<Rightarrow> int \<Rightarrow> report res" where
  "r_pop_session r sid =
     (if sid \<in> set (dict_keys (r_sessions r)) then Inr (r\<lparr>r_sessions := dict_del (r_sessions r) sid\<rparr>)
      else Inl KeyError)"

text \<open>
  \<open>delete_multiple_sessions\<close>; the set of ids is a list without repetitions, in the order of
  Python's iteration. Every file is stripped and tested before the empty ones are deleted by name.
\<close>

definition strip_file :: "int set \<Rightarrow> string \<times> report_file \<Rightarrow> (string \<times> report_file) res" where
  "strip_file ids entry = map_res (Pair (fst entry)) (rf_delete_multiple_sessions (snd entry) ids)"

definition r_delete_multiple_sessions :: "report \<Rightarrow> int list \<Rightarrow> report res" where
  "r_delete_multiple_sessions r ids =
     bind_res (foldl_res r_pop_session r ids) (\<lambda>r1.
     bind_res (traverse (strip_file (set ids)) (r_files r1)) (\<lambda>files.
     bind_res (traverse (\<lambda>(_, f). map_res (\<lambda>b. (rf_name f, b)) (rf_bool f)) files) (\<lambda>kept.
     bind_res (foldl_res r_delitem (r1\<lparr>r_files := files\<rparr>) (map fst (filter (\<lambda>p. \<not> snd p) kept))) (\<lambda>r2.
       Inr (r_invalidate_caches r2)))))"

definition renumber_line :: "int \<Rightarrow> int \<Rightarrow> report_line \<Rightarrow> report_line" where
  "renumber_line old new l =
     l\<lparr>rl_sessions := map (\<lambda>s. if ls_id s = old then s\<lparr>ls_id := new\<rparr> else s) (rl_sessions l)\<rparr>"

text \<open>
  The last statement of the loop of \<open>change_sessionid\<close> assigns \<open>file.__present_sessions\<close> from
  within the class \<open>Report\<close>, which is another attribute (\<open>_Report__present_sessions\<close>) than
  the cache of the file: the cache stays empty.
\<close>

definition renumber_file :: "int \<Rightarrow> int \<Rightarrow> report_file \<Rightarrow> report_file" where
  "renumber_file old new f =
     rf_invalidate_caches (f\<lparr>rf_lines := map (map_option (renumber_line old new)) (rf_lines f)\<rparr>)"

definition r_change_sessionid :: "report \<Rightarrow> int \<Rightarrow> int \<Rightarrow> report res" where
  "r_change_sessionid r old new =
     (case dict_get (r_sessions r) old of
        None \<Rightarrow> Inl KeyError
      | Some s \<Rightarrow>
          Inr (r_invalidate_caches (r\<lparr>
            r_sessions := dict_set (dict_del (r_sessions r) old) new (s\<lparr>ss_id := Some new\<rparr>),
            r_files := dict_map (renumber_file old new) (r_files r)\<rparr>)))"

section \<open>Diffs\<close>

definition r_calculate_diff :: "report \<Rightarrow> raw_diff \<Rightarrow> calculated_diff res" where
  "r_calculate_diff r diff = calculate_report_diff (r_get r) rf_bool rf_get diff"

definition save_file_totals :: "raw_diff \<times> report \<Rightarrow> string \<times> report_totals \<Rightarrow> (raw_diff \<times> report) res" where
  "save_file_totals st entry =
     (case (st, entry) of ((diff, r), (filename, t)) \<Rightarrow>
        (case (dict_get (rd_files diff) filename, dict_get (r_files r) filename) of
           (None, _) \<Rightarrow> Inl TypeError
         | (_, None) \<Rightarrow> Inl KeyError
         | (Some data, Some f) \<Rightarrow>
             let t' = (if t_lines t = 0
                       then t\<lparr>t_coverage := VNone, t_complexity := None, t_complexity_total := None\<rparr> else t)
             in Inr (diff\<lparr>rd_files := dict_set (rd_files diff) filename (data\<lparr>df_totals := Some t\<rparr>)\<rparr>,
                     r\<lparr>r_files := dict_set (r_files r) filename (f\<lparr>rf_diff_totals := Some t'\<rparr>)\<rparr>)))"

definition r_save_diff_calculation :: "report \<Rightarrow> raw_diff \<Rightarrow> calculated_diff \<Rightarrow> (raw_diff \<times> report) res" where
  "r_save_diff_calculation r diff res =
     foldl_res save_file_totals
       (diff\<lparr>rd_totals := Some (cd_general res)\<rparr>, r\<lparr>r_diff_totals := Some (cd_general res)\<rparr>) (cd_files res)"

definition r_apply_diff :: "report \<Rightarrow> raw_diff option \<Rightarrow> bool \<Rightarrow> (report_totals option \<times> raw_diff option \<times> report) res" where
  "r_apply_diff r diff save =
     (case diff of
        None \<Rightarrow> Inr (None, None, r)
      | Some d \<Rightarrow>
          if rd_files d = [] then Inr (None, Some d, r)
          else bind_res (r_calculate_diff r d) (\<lambda>res.
            bind_res (if save then r_save_diff_calculation r d res else Inr (d, r)) (\<lambda>(d', r').
              Inr (Some (cd_general res), Some d', r'))))"

definition r_shift_file :: "report \<Rightarrow> string \<times> diff_file \<Rightarrow> report" where
  "r_shift_file r entry =
     (case entry of (path, data) \<Rightarrow>
        (case dict_get (r_files r) path of
           Some f \<Rightarrow>
             if df_type data = ''modified''
             then r\<lparr>r_files := dict_set (r_files r) path (rf_shift_lines_by_diff f (df_segments data))\<rparr>
             else r
         | None \<Rightarrow> r))"

definition r_shift_lines_by_diff :: "report \<Rightarrow> raw_diff option \<Rightarrow> report" where
  "r_shift_lines_by_diff r diff =
     (case diff of None \<Rightarrow> r | Some d \<Rightarrow> foldl r_shift_file r (rd_files d))"

text \<open>
  \<open>does_diff_adjust_tracked_lines\<close> shifts the lines of files of the future report in place, so
  that the future report is part of the result; \<open>walk(future_diff, ...)\<close> gives nothing when a
  key is missing.
\<close>

definition future_state :: "raw_diff option \<Rightarrow> string \<Rightarrow> string option" where
  "future_state future_diff path =
     (case future_diff of None \<Rightarrow> None | Some d \<Rightarrow> map_option df_type (dict_get (rd_files d) path))"

definition shift_future :: "report \<Rightarrow> raw_diff option \<Rightarrow> string \<Rightarrow> report" where
  "shift_future future future_diff path =
     (case future_diff of
        None \<Rightarrow> future
      | Some d \<Rightarrow>
          (case (dict_get (rd_files d) path, dict_get (r_files future) path) of
             (Some data, Some f) \<Rightarrow>
               future\<lparr>r_files := dict_set (r_files future) path (rf_shift_lines_by_diff f (df_segments data))\<rparr>
           | _ \<Rightarrow> future))"

fun r_adjust_loop :: "report \<Rightarrow> report \<Rightarrow> raw_diff option \<Rightarrow> (string \<times> diff_file) list \<Rightarrow> (bool \<times> report) res" where
  "r_adjust_loop r future fd [] = Inr (False, future)"
| "r_adjust_loop r future fd ((path, data) # rest) =
     (let st = future_state fd path;
          in_past = r_contains r path;
          in_future = (st \<noteq> Some ''deleted'' \<and> r_contains future path)
      in if df_type data = ''deleted'' \<and> in_past then Inr (True, future)
         else if df_type data = ''new'' \<and> in_future then Inr (True, future)
         else if df_type data = ''modified'' then
           (if in_past \<and> in_future then
              let future' = (if st = Some ''modified'' then shift_future future fd path else future)
              in (case (r_get r path, r_get future' path) of
                    (Some f, Some g) \<Rightarrow>
                      bind_res (rf_does_diff_adjust f g (df_segments data)) (\<lambda>b.
                        if b then Inr (True, future') else r_adjust_loop r future' fd rest)
                  | _ \<Rightarrow> Inl KeyError)
            else if in_past \<noteq> in_future then Inr (True, future)
            else r_adjust_loop r future fd rest)
         else r_adjust_loop r future fd rest)"

definition r_does_diff_adjust :: "report \<Rightarrow> raw_diff option \<Rightarrow> report \<Rightarrow> raw_diff option \<Rightarrow> (bool \<times> report) res" where
  "r_does_diff_adjust r diff future future_diff =
     (case diff of None \<Rightarrow> Inr (False, future) | Some d \<Rightarrow> r_adjust_loop r future future_diff (rd_files d))"

section \<open>Well-formed reports\<close>

definition wf_report :: "report \<Rightarrow> bool" where
  "wf_report r \<longleftrightarrow> wf_dict (r_sessions r) \<and> wf_dict (r_files r) \<and>
     (\<forall>(name, f) \<in> set (r_files r). rf_name f = name \<and> name \<noteq> [])"

lemma wf_report_get: "wf_report r \<Longrightarrow> dict_get (r_files r) p = Some f \<Longrightarrow> rf_name f = p \<and> p \<noteq> []"
  by (auto simp: wf_report_def dest!: dict_get_in)

lemma wf_report_files:
  "wf_report r \<longleftrightarrow> wf_dict (r_sessions r) \<and> wf_dict (r_files r) \<and>
     (\<forall>p f. dict_get (r_files r) p = Some f \<longrightarrow> rf_name f = p \<and> p \<noteq> [])"
  by (auto simp: wf_report_def dict_get_iff) blast+

lemma rf_merge_name: "rf_merge f g j d = Inr (b, h) \<Longrightarrow> rf_name h = rf_name f"
  by (auto simp: rf_merge_def Let_def split: option.splits if_splits)

lemma invalidate_report_simps [simp]:
  "r_files (r_invalidate_caches r) = r_files r" "r_sessions (r_invalidate_caches r) = r_sessions r"
  "r_totals (r_invalidate_caches r) = None"
  by (simp_all add: r_invalidate_caches_def)

lemma r_append_files:
  assumes "r_append r (Some f) j d = Inr (b, r')"
  shows "r_sessions r' = r_sessions r \<and>
    (if rf_len f = 0 then r' = r else rf_name f \<noteq> [] \<and> r_totals r' = None \<and>
      (\<exists>h. r_files r' = dict_set (r_files r) (rf_name f) h \<and>
        (case dict_get (r_files r) (rf_name f) of None \<Rightarrow> h = f | Some g \<Rightarrow> \<exists>x. rf_merge g (Some f) j d = Inr (x, h))))"
  using assms by (auto simp: r_append_def split: option.splits if_splits)

lemma wf_append:
  assumes "wf_report r" "r_append r fo j d = Inr (b, r')"
  shows "wf_report r'"
proof (cases fo)
  case None
  with assms show ?thesis by (simp add: r_append_def)
next
  case (Some f)
  note a = r_append_files [OF assms(2) [unfolded Some]]
  show ?thesis
  proof (cases "rf_len f = 0")
    case True
    with a assms(1) show ?thesis by simp
  next
    case False
    with a obtain h where h: "r_files r' = dict_set (r_files r) (rf_name f) h" and n: "rf_name f \<noteq> []"
      and c: "case dict_get (r_files r) (rf_name f) of None \<Rightarrow> h = f | Some g \<Rightarrow> \<exists>x. rf_merge g (Some f) j d = Inr (x, h)"
      by auto
    have "rf_name h = rf_name f"
      using c wf_report_get [OF assms(1)] rf_merge_name by (fastforce split: option.splits)
    with assms(1) a h n show ?thesis by (auto simp: wf_report_files pd.inv_assign)
  qed
qed

lemma wf_merge: "wf_report r \<Longrightarrow> r_merge r n j d = Inr r' \<Longrightarrow> wf_report r'"
proof -
  assume wf: "wf_report r" and m: "r_merge r n j d = Inr r'"
  show "wf_report r'"
  proof (cases n)
    case None
    with wf m show ?thesis by (simp add: r_merge_def)
  next
    case (Some n')
    show ?thesis
    proof (cases "r_is_empty n'")
      case True
      with wf m Some show ?thesis by (simp add: r_merge_def)
    next
      case False
      with m Some have "foldl_res (r_merge_file j d) r (r_file_list n') = Inr r'" by (simp add: r_merge_def)
      then show ?thesis
        by (rule foldl_res_invariant) (use wf wf_append in \<open>auto simp: r_merge_file_def split: if_splits\<close>)
    qed
  qed
qed

lemma wf_rename: "wf_report r \<Longrightarrow> r_rename r old new = Inr r' \<Longrightarrow> wf_report r'"
  by (auto simp: r_rename_def Let_def wf_report_files pd.inv_assign pd.inv_del split: option.splits list.splits if_splits)
    blast+

lemma wf_resolve: "wf_report r \<Longrightarrow> r_resolve_paths r paths = Inr r' \<Longrightarrow> wf_report r'"
  unfolding r_resolve_paths_def
  by (erule foldl_res_invariant) (auto split: if_splits dest: wf_rename)

lemma wf_add_session: "wf_report r \<Longrightarrow> r_add_session r s u = Inr (i, s', r') \<Longrightarrow> wf_report r'"
  by (auto simp: r_add_session_def wf_report_def pd.inv_assign)

lemma wf_delitem: "wf_report r \<Longrightarrow> r_delitem r p = Inr r' \<Longrightarrow> wf_report r'"
  by (fastforce simp: r_delitem_def wf_report_files pd.inv_del split: if_splits)

lemma wf_change_sessionid: "wf_report r \<Longrightarrow> r_change_sessionid r a b = Inr r' \<Longrightarrow> wf_report r'"
  by (fastforce simp: r_change_sessionid_def wf_report_files pd.inv_assign pd.inv_del renumber_file_def split: option.splits)

lemma pop_sessions:
  "foldl_res r_pop_session r ids = Inr r1 \<Longrightarrow>
     r_files r1 = r_files r \<and> r_totals r1 = r_totals r \<and> set ids \<subseteq> set (dict_keys (r_sessions r)) \<and> distinct ids \<and>
     r_sessions r1 = dict_dels (r_sessions r) ids"
proof (induction ids arbitrary: r)
  case Nil
  then show ?case by (simp add: dict_dels_def)
next
  case (Cons i ids)
  then have i: "i \<in> set (dict_keys (r_sessions r))"
    and rest: "foldl_res r_pop_session (r\<lparr>r_sessions := dict_del (r_sessions r) i\<rparr>) ids = Inr r1"
    by (cases "i \<in> set (dict_keys (r_sessions r))"; simp add: r_pop_session_def [of r])+
  from Cons.IH [OF rest] i show ?case by (auto simp: dict_dels_def pd.keys_del)
qed

lemma delitems:
  "foldl_res r_delitem r names = Inr r2 \<Longrightarrow> r_sessions r2 = r_sessions r \<and> r_files r2 = dict_dels (r_files r) names"
proof (induction names arbitrary: r)
  case Nil
  then show ?case by (simp add: dict_dels_def)
next
  case (Cons p names)
  then have rest: "foldl_res r_delitem (r\<lparr>r_files := dict_del (r_files r) p\<rparr>) names = Inr r2"
    by (cases "r_contains r p") (simp_all add: r_delitem_def [of r])
  from Cons.IH [OF rest] show ?case by (simp add: dict_dels_def)
qed

lemma rf_delete_name: "rf_delete_multiple_sessions f ids = Inr g \<Longrightarrow> rf_name g = rf_name f"
proof -
  have step: "delete_from_line ids a it = Inr b \<Longrightarrow> rf_name b = rf_name a" for a b it
    by (auto simp: delete_from_line_def rf_delitem_def rf_setitem_def split: prod.splits option.splits if_splits)
  have "foldl_res (delete_from_line ids) a its = Inr b \<Longrightarrow> rf_name b = rf_name a" for a b its
    by (erule foldl_res_invariant [where P = "\<lambda>x. rf_name x = rf_name a"]) (auto dest: step)
  then show "rf_delete_multiple_sessions f ids = Inr g \<Longrightarrow> rf_name g = rf_name f"
    by (fastforce simp: rf_delete_multiple_sessions_def Let_def split: if_splits)
qed


lemma traverse_strip:
  assumes "traverse (strip_file ids) fs = Inr gs"
  shows "list_all2 (\<lambda>(p, f) (q, g). q = p \<and> rf_delete_multiple_sessions f ids = Inr g) fs gs"
  using assms unfolding traverse_Inr_iff
  by (rule list_all2_mono) (auto simp: strip_file_def split: prod.splits)

lemma list_all2_keys: "list_all2 (\<lambda>(p, f) (q, g). q = p \<and> P f g) fs gs \<Longrightarrow> dict_keys gs = dict_keys fs"
  by (induction fs gs rule: list_all2_induct) (auto simp: dict_keys_def)

lemma list_all2_get:
  "list_all2 (\<lambda>(p, f) (q, g). q = p \<and> P f g) fs gs \<Longrightarrow> dict_get gs k = Some g \<Longrightarrow>
     \<exists>f. dict_get fs k = Some f \<and> P f g"
  by (induction fs gs rule: list_all2_induct) (auto simp: dict_get_def split: if_splits)

lemma delete_sessions_files:
  assumes "wf_report r" "r_delete_multiple_sessions r ids = Inr r'"
  shows "r_sessions r' = dict_dels (r_sessions r) ids" "set ids \<subseteq> set (dict_keys (r_sessions r))" "wf_report r'"
    "r_get r' p = Some g \<Longrightarrow> \<exists>f. r_get r p = Some f \<and> rf_delete_multiple_sessions f (set ids) = Inr g \<and> rf_bool g = Inr True"
proof -
  from assms(2) obtain r1 files kept r2 where
    r1: "foldl_res r_pop_session r ids = Inr r1" and files: "traverse (strip_file (set ids)) (r_files r1) = Inr files"
    and kept: "traverse (\<lambda>(_, f). map_res (\<lambda>b. (rf_name f, b)) (rf_bool f)) files = Inr kept"
    and r2: "foldl_res r_delitem (r1\<lparr>r_files := files\<rparr>) (map fst (filter (\<lambda>p. \<not> snd p) kept)) = Inr r2"
    and r': "r' = r_invalidate_caches r2"
    by (auto simp: r_delete_multiple_sessions_def)
  note p1 = pop_sessions [OF r1] and p2 = delitems [OF r2]
  have l2: "list_all2 (\<lambda>(p, f) (q, g). q = p \<and> rf_delete_multiple_sessions f (set ids) = Inr g) (r_files r) files"
    using traverse_strip [OF files] p1 by simp
  have keys: "dict_keys files = dict_keys (r_files r)" using list_all2_keys [OF l2] .
  have rf: "r_files r' = dict_dels files (map fst (filter (\<lambda>p. \<not> snd p) kept))" using p2 r' by simp
  have name: "rf_name g = q \<and> q \<noteq> []" if "dict_get files q = Some g" for q g
    using list_all2_get [OF l2 that] wf_report_get [OF assms(1)] rf_delete_name by fastforce
  have wf_files: "wf_dict files" using keys assms(1) by (simp add: wf_report_def wf_dict_def dict_keys_def)
  show "r_sessions r' = dict_dels (r_sessions r) ids" "set ids \<subseteq> set (dict_keys (r_sessions r))"
    using p1 p2 r' by auto
  then show "wf_report r'"
    using assms(1) wf_files name by (auto simp: wf_report_files rf dict_get_dels split: if_splits)
  show "\<exists>f. r_get r p = Some f \<and> rf_delete_multiple_sessions f (set ids) = Inr g \<and> rf_bool g = Inr True"
    if get: "r_get r' p = Some g"
  proof -
    have g: "dict_get files p = Some g" and out: "p \<notin> set (map fst (filter (\<lambda>p. \<not> snd p) kept))"
      using get by (auto simp: r_get_def rf dict_get_dels split: if_splits)
    have "(p, g) \<in> set files" using g by (rule dict_get_in)
    then obtain b where b: "rf_bool g = Inr b" "(rf_name g, b) \<in> set kept"
      using kept by (force simp: traverse_Inr_iff in_set_conv_nth list_all2_conv_all_nth)
    then have "b" using out name [OF g] by force
    with b list_all2_get [OF l2 g] show ?thesis by (auto simp: r_get_def)
  qed
qed

lemma next_free_fresh: "next_free ks n \<notin> set ks \<and> n \<le> next_free ks n"
proof (induction ks n rule: next_free.induct)
  case (1 ks n)
  then show ?case by (cases "n \<in> set ks") (simp_all add: next_free.simps [of ks n])
qed

lemma merge_files_get:
  assumes "foldl_res (r_merge_file j d) r fs = Inr r'" "wf_report r" "distinct (map rf_name fs)"
  shows "case find (\<lambda>f. rf_name f = p) fs of
      None \<Rightarrow> r_get r' p = r_get r p
    | Some f \<Rightarrow>
        if p = [] \<or> rf_len f = 0 then r_get r' p = r_get r p
        else (case r_get r p of None \<Rightarrow> r_get r' p = Some f
          | Some g \<Rightarrow> \<exists>x h. rf_merge g (Some f) j d = Inr (x, h) \<and> r_get r' p = Some h)"
  using assms
proof (induction fs arbitrary: r)
  case Nil
  then show ?case by simp
next
  case (Cons f fs)
  from Cons.prems(1) obtain s where s: "r_merge_file j d r f = Inr s" and rest: "foldl_res (r_merge_file j d) s fs = Inr r'"
    by auto
  have wf: "wf_report s"
    using s Cons.prems(2) by (auto simp: r_merge_file_def split: if_splits dest: wf_append)
  have step: "if q \<noteq> rf_name f \<or> q = [] \<or> rf_len f = 0 then r_get s q = r_get r q
      else (case r_get r q of None \<Rightarrow> r_get s q = Some f
        | Some g \<Rightarrow> \<exists>x h. rf_merge g (Some f) j d = Inr (x, h) \<and> r_get s q = Some h)" for q
    using s by (auto simp: r_merge_file_def r_get_def split: if_splits option.splits dest!: r_append_files)
  have IH: "case find (\<lambda>f. rf_name f = p) fs of
      None \<Rightarrow> r_get r' p = r_get s p
    | Some f \<Rightarrow>
        if p = [] \<or> rf_len f = 0 then r_get r' p = r_get s p
        else (case r_get s p of None \<Rightarrow> r_get r' p = Some f
          | Some g \<Rightarrow> \<exists>x h. rf_merge g (Some f) j d = Inr (x, h) \<and> r_get r' p = Some h)"
    by (rule Cons.IH [OF rest wf]) (use Cons.prems(3) in simp)
  show ?case
  proof (cases "rf_name f = p")
    case True
    then have "p \<notin> rf_name ` set fs" using Cons.prems(3) by auto
    then have "find (\<lambda>f. rf_name f = p) fs = None" by (auto simp: find_None_iff)
    with IH step [of p] True show ?thesis by (auto split: if_splits option.splits)
  next
    case False
    then have same: "r_get s p = r_get r p" using step [of p] by auto
    from IH [unfolded same] False show ?thesis by (simp split del: if_split)
  qed
qed


lemma find_file: "wf_report n \<Longrightarrow> find (\<lambda>f. rf_name f = p) (r_file_list n) = r_get n p"
proof -
  have "(\<forall>(q, f) \<in> set fs. rf_name f = q) \<Longrightarrow> find (\<lambda>f. rf_name f = p) (dict_values fs) = dict_get fs p" for fs
    by (induction fs) (auto simp: dict_values_def dict_get_def)
  then show "wf_report n \<Longrightarrow> ?thesis" by (force simp: wf_report_def r_file_list_def r_get_def)
qed

lemma distinct_file_names: "wf_report n \<Longrightarrow> distinct (map rf_name (r_file_list n))"
proof -
  assume "wf_report n"
  then have "map rf_name (r_file_list n) = dict_keys (r_files n)"
    by (auto simp: wf_report_def r_file_list_def dict_values_def dict_keys_def)
  with \<open>wf_report n\<close> show ?thesis by (simp add: wf_report_def wf_dict_def dict_keys_def)
qed

section \<open>The deferred merge\<close>

text \<open>
  A line of the deferred merge and the same line merged directly: equal as long as only one report has it, and otherwise the
  sessions in order, without coverage, which \<open>finish_merge\<close> computes from them.
\<close>

definition agree :: "report_line option \<Rightarrow> report_line option \<Rightarrow> bool" where
  "agree d n \<longleftrightarrow> d = n \<and> (\<forall>l. d = Some l \<longrightarrow> rl_coverage l \<noteq> CovNone) \<or>
     (\<exists>x y. d = Some x \<and> n = Some y \<and> rl_coverage x = CovNone \<and> rl_sessions x = rl_sessions y \<and> rl_type x = rl_type y \<and>
       get_coverage_from_sessions (rl_sessions y) = Inr (rl_coverage y) \<and>
       get_complexity_from_sessions (rl_sessions y) = Inr (rl_complexity y))"

lemma merge_line_disjoint_ids:
  assumes "line_session_ids a \<inter> line_session_ids b = {}" "merge_line (Some a) (Some b) True False = Inr (Some r)"
  shows "rl_sessions r = rl_sessions a @ rl_sessions b \<and> rl_type r = str_or (rl_type a) (rl_type b) \<and>
    get_coverage_from_sessions (rl_sessions r) = Inr (rl_coverage r) \<and>
    get_complexity_from_sessions (rl_sessions r) = Inr (rl_complexity r)"
proof -
  have "merge_sessions (rl_sessions a) (rl_sessions b) = Inr (rl_sessions a @ rl_sessions b)"
    using assms(1) by (auto simp: merge_sessions_def line_session_ids_def)
  with assms(2) show ?thesis by (auto simp: merge_line_def)
qed

lemma agree_finish: "agree d n \<Longrightarrow> finish_opt d = Inr n"
  by (auto simp: agree_def finish_opt_def finish_line_def split: option.splits)

lemma agree_self: "\<forall>l. Some l \<in> set ls \<longrightarrow> rl_coverage l \<noteq> CovNone \<Longrightarrow> list_all2 agree ls ls"
  by (auto simp: list_all2_same agree_def)

lemma session_ids_simps:
  "session_ids_in [] = {}" "session_ids_in (None # ls) = session_ids_in ls"
  "session_ids_in (Some l # ls) = line_session_ids l \<union> session_ids_in ls"
  by (auto simp: session_ids_in_def)

text \<open>One more line with other sessions, merged both ways.\<close>

lemma agree_merge:
  assumes "agree d n" "merge_line n x True False = Inr n'" "\<forall>l. x = Some l \<longrightarrow> rl_coverage l \<noteq> CovNone"
    and "\<forall>a b. n = Some a \<and> x = Some b \<longrightarrow> line_session_ids a \<inter> line_session_ids b = {}"
  shows "(\<exists>d'. merge_line d x True True = Inr d' \<and> agree d' n') \<and>
    session_ids_in [n'] \<subseteq> session_ids_in [n] \<union> session_ids_in [x]"
proof (cases "n = None \<or> x = None")
  case True
  with assms(1-3) show ?thesis by (cases x; cases n; cases d) (auto simp: agree_def merge_line_def)
next
  case False
  then obtain a b where ab: "n = Some a" "x = Some b" by auto
  from assms(2) ab obtain r where r: "n' = Some r" by (auto simp: merge_line_def)
  note m = merge_line_disjoint_ids [OF _ assms(2) [unfolded ab r]]
  have dj: "line_session_ids a \<inter> line_session_ids b = {}" using assms(4) ab by blast
  from assms(1) ab(1) obtain c where c: "d = Some c" "rl_sessions c = rl_sessions a" "rl_type c = rl_type a" by (auto simp: agree_def)
  have "agree (Some (ReportLine_create CovNone (str_or (rl_type a) (rl_type b)) (rl_sessions a @ rl_sessions b) None)) n'"
    using m [OF dj] r unfolding agree_def by simp (metis (no_types))
  moreover have "session_ids_in [n'] \<subseteq> session_ids_in [n] \<union> session_ids_in [x]"
    using m [OF dj] ab r by (auto simp: session_ids_simps line_session_ids_def)
  ultimately show ?thesis using c ab by (simp add: merge_line_def)
qed

lemma session_ids_Cons: "session_ids_in (l # ls) = session_ids_in [l] \<union> session_ids_in ls"
  by (cases l) (simp_all add: session_ids_simps)

lemma disjoint_Cons:
  "session_ids_in (a # as) \<inter> session_ids_in (b # cs) = {} \<Longrightarrow>
     session_ids_in as \<inter> session_ids_in cs = {} \<and> (\<forall>u v. a = Some u \<and> b = Some v \<longrightarrow> line_session_ids u \<inter> line_session_ids v = {})"
  by (cases a; cases b) (auto simp: session_ids_simps)

lemma agree_merge_lines:
  "merge_file_lines True False ns xs = Inr ns' \<Longrightarrow> list_all2 agree ds ns \<Longrightarrow>
   \<forall>l. Some l \<in> set xs \<longrightarrow> rl_coverage l \<noteq> CovNone \<Longrightarrow> session_ids_in ns \<inter> session_ids_in xs = {} \<Longrightarrow>
   (\<exists>ds'. merge_file_lines True True ds xs = Inr ds' \<and> list_all2 agree ds' ns') \<and>
   session_ids_in ns' \<subseteq> session_ids_in ns \<union> session_ids_in xs"
proof (induction True False ns xs arbitrary: ds ns' rule: merge_file_lines.induct)
  case 1
  then show ?case by simp
next
  case (2 b cs)
  then obtain ns1 where n: "merge_file_lines True False [] cs = Inr ns1" "ns' = b # ns1" by (auto simp: merge_line_def)
  have cov: "\<forall>l. Some l \<in> set cs \<longrightarrow> rl_coverage l \<noteq> CovNone" "agree b b" using 2(4) by (auto simp: agree_def)
  have "merge_line None b True False = Inr b" by (simp add: merge_line_def)
  from 2(1) [OF this n(1) _ cov(1)] obtain ds' where "merge_file_lines True True [] cs = Inr ds'" "list_all2 agree ds' ns1"
    "session_ids_in ns1 \<subseteq> session_ids_in cs" by (auto simp: session_ids_simps)
  with 2(3) n cov(2) show ?case
    using session_ids_Cons [of b ns1] session_ids_Cons [of b cs] by (auto simp: merge_line_def)
next
  case (3 a as)
  then obtain d ds1 where d: "ds = d # ds1" "agree d a" "list_all2 agree ds1 as" by (auto simp: list_all2_Cons2)
  from 3 obtain ns1 where n: "merge_file_lines True False as [] = Inr ns1" "ns' = a # ns1" by (auto simp: merge_line_def split: option.splits)
  have "merge_line a None True False = Inr a" by (cases a) (simp_all add: merge_line_def)
  from 3(1) [OF this n(1) d(3)] obtain ds' where "merge_file_lines True True ds1 [] = Inr ds'" "list_all2 agree ds' ns1"
    "session_ids_in ns1 \<subseteq> session_ids_in as" by (auto simp: session_ids_simps)
  with d n show ?case
    using session_ids_Cons [of a ns1] session_ids_Cons [of a as] by (auto simp: merge_line_def split: option.splits)
next
  case (4 a as b cs)
  then obtain d ds1 where d: "ds = d # ds1" "agree d a" "list_all2 agree ds1 as" by (auto simp: list_all2_Cons2)
  from 4 obtain n' ns1 where n: "merge_line a b True False = Inr n'" "merge_file_lines True False as cs = Inr ns1" "ns' = n' # ns1" by auto
  note dj = disjoint_Cons [OF 4(5)]
  have cov: "\<forall>l. Some l \<in> set cs \<longrightarrow> rl_coverage l \<noteq> CovNone" "\<forall>l. b = Some l \<longrightarrow> rl_coverage l \<noteq> CovNone" using 4(4) by auto
  from 4(1) [OF n(1,2) d(3) cov(1)] dj obtain ds' where "merge_file_lines True True ds1 cs = Inr ds'" "list_all2 agree ds' ns1"
    "session_ids_in ns1 \<subseteq> session_ids_in as \<union> session_ids_in cs" by blast
  moreover from agree_merge [OF d(2) n(1) cov(2)] dj obtain d' where "merge_line d b True True = Inr d'" "agree d' n'"
    "session_ids_in [n'] \<subseteq> session_ids_in [a] \<union> session_ids_in [b]" by blast
  ultimately show ?case
    using d n session_ids_Cons [of n' ns1] session_ids_Cons [of a as] session_ids_Cons [of b cs] by auto
qed

text \<open>The same for files and reports.\<close>

definition file_ids :: "report_file \<Rightarrow> int set" where
  "file_ids f = session_ids_in (rf_lines f)"

definition files_agree :: "(string, report_file) dict \<Rightarrow> (string, report_file) dict \<Rightarrow> bool" where
  "files_agree ds ns \<longleftrightarrow> list_all2 (\<lambda>(p, f) (q, g). p = q \<and> rf_name f = rf_name g \<and> list_all2 agree (rf_lines f) (rf_lines g)) ds ns"

lemma files_agree_get:
  "files_agree ds ns \<Longrightarrow>
     (case dict_get ns k of
        None \<Rightarrow> dict_get ds k = None
      | Some g \<Rightarrow> \<exists>f. dict_get ds k = Some f \<and> rf_name f = rf_name g \<and> list_all2 agree (rf_lines f) (rf_lines g))"
  unfolding files_agree_def by (induction ds ns rule: list_all2_induct) (auto simp: dict_get_def split: option.splits)

lemma files_agree_set:
  "files_agree ds ns \<Longrightarrow> rf_name f = rf_name g \<Longrightarrow> list_all2 agree (rf_lines f) (rf_lines g) \<Longrightarrow>
   files_agree (dict_set ds k f) (dict_set ns k g)"
  unfolding files_agree_def by (induction ds ns rule: list_all2_induct) auto

text \<open>A file that the merge of reports can defer: no Ruby file, and with a coverage value in every line.\<close>

definition deferrable :: "report_file \<Rightarrow> bool" where
  "deferrable f \<longleftrightarrow> \<not> endswith (rf_name f) ''.rb'' \<and> (\<forall>l. Some l \<in> set (rf_lines f) \<longrightarrow> rl_coverage l \<noteq> CovNone)"

lemma agree_merge_file:
  assumes "rf_merge g (Some x) True False = Inr (b, g')" "rf_name f = rf_name g" "list_all2 agree (rf_lines f) (rf_lines g)"
    and "deferrable x" "rf_name x = rf_name g" "file_ids g \<inter> file_ids x = {}"
  shows "(\<exists>b f'. rf_merge f (Some x) True True = Inr (b, f') \<and> rf_name f' = rf_name g' \<and> list_all2 agree (rf_lines f') (rf_lines g')) \<and>
    file_ids g' \<subseteq> file_ids g \<union> file_ids x"
proof -
  have rb: "\<not> endswith (rf_name g) ''.rb''" "\<not> endswith (rf_name f) ''.rb''" using assms(2,4,5) by (simp_all add: deferrable_def)
  with assms(1) obtain ls where ls: "merge_file_lines True False (rf_lines g) (rf_lines x) = Inr ls" "rf_lines g' = ls" "rf_name g' = rf_name g"
    by (auto simp: rf_merge_def)
  have "\<forall>l. Some l \<in> set (rf_lines x) \<longrightarrow> rl_coverage l \<noteq> CovNone" using assms(4) by (simp add: deferrable_def)
  from agree_merge_lines [OF ls(1) assms(3) this] assms(6) ls rb assms(2) show ?thesis
    by (auto simp: rf_merge_def file_ids_def)
qed

lemma agree_append:
  assumes "r_merge_file True False n x = Inr n'" "files_agree (r_files d) (r_files n)" "r_sessions d = r_sessions n" "wf_report n"
    and "deferrable x" "\<forall>g. dict_get (r_files n) (rf_name x) = Some g \<longrightarrow> file_ids g \<inter> file_ids x = {}"
  shows "(\<exists>d'. r_merge_file True True d x = Inr d' \<and> files_agree (r_files d') (r_files n') \<and> r_sessions d' = r_sessions n') \<and>
    (\<forall>k. k \<noteq> rf_name x \<longrightarrow> dict_get (r_files n') k = dict_get (r_files n) k) \<and>
    (\<forall>g'. dict_get (r_files n') (rf_name x) = Some g' \<longrightarrow>
       file_ids g' \<subseteq> (case dict_get (r_files n) (rf_name x) of None \<Rightarrow> {} | Some g \<Rightarrow> file_ids g) \<union> file_ids x)"
proof (cases "rf_name x = [] \<or> rf_len x = 0")
  case True
  with assms(1-3) show ?thesis by (auto simp: r_merge_file_def r_append_def)
next
  case False
  show ?thesis
  proof (cases "dict_get (r_files n) (rf_name x)")
    case None
    have "dict_get (r_files d) (rf_name x) = None" using files_agree_get [OF assms(2), of "rf_name x"] None by simp
    moreover have "list_all2 agree (rf_lines x) (rf_lines x)" using assms(5) by (intro agree_self) (simp add: deferrable_def)
    ultimately show ?thesis
      using False None assms(1-3) files_agree_set [OF assms(2), of x x "rf_name x"]
      by (auto simp: r_merge_file_def r_append_def dict_get_set)
  next
    case (Some g)
    from files_agree_get [OF assms(2), of "rf_name x"] Some obtain f where f: "dict_get (r_files d) (rf_name x) = Some f"
      "rf_name f = rf_name g" "list_all2 agree (rf_lines f) (rf_lines g)" by auto
    from assms(1) False Some obtain b g' where m: "rf_merge g (Some x) True False = Inr (b, g')"
      and n': "n' = r_invalidate_caches (n\<lparr>r_files := dict_set (r_files n) (rf_name x) g'\<rparr>)"
      by (auto simp: r_merge_file_def r_append_def)
    have name: "rf_name x = rf_name g" using wf_report_get [OF assms(4) Some] by simp
    from agree_merge_file [OF m f(2,3) assms(5) name] assms(6) Some obtain c f' where
      "rf_merge f (Some x) True True = Inr (c, f')" "rf_name f' = rf_name g'" "list_all2 agree (rf_lines f') (rf_lines g')"
      "file_ids g' \<subseteq> file_ids g \<union> file_ids x" by blast
    with False f(1) Some n' assms(3) files_agree_set [OF assms(2), of f' g' "rf_name x"] show ?thesis
      by (auto simp: r_merge_file_def r_append_def dict_get_set)
  qed
qed

definition report_ids :: "report \<Rightarrow> int set" where
  "report_ids r = (\<Union>f \<in> set (r_file_list r). file_ids f)"

lemma report_ids_get: "wf_report r \<Longrightarrow> report_ids r \<subseteq> A \<longleftrightarrow> (\<forall>k f. dict_get (r_files r) k = Some f \<longrightarrow> file_ids f \<subseteq> A)"
  unfolding report_ids_def r_file_list_def dict_values_def wf_report_def by (fastforce simp: dict_get_iff)

lemma agree_files:
  "foldl_res (r_merge_file True False) n fs = Inr n' \<Longrightarrow> files_agree (r_files d) (r_files n) \<Longrightarrow> r_sessions d = r_sessions n \<Longrightarrow>
   wf_report n \<Longrightarrow> \<forall>f \<in> set fs. deferrable f \<Longrightarrow> distinct (map rf_name fs) \<Longrightarrow>
   \<forall>f \<in> set fs. file_ids f \<subseteq> B \<and> (\<forall>g. dict_get (r_files n) (rf_name f) = Some g \<longrightarrow> file_ids g \<inter> file_ids f = {}) \<Longrightarrow>
   \<forall>k g. dict_get (r_files n) k = Some g \<longrightarrow> file_ids g \<subseteq> A \<Longrightarrow> B \<subseteq> A \<Longrightarrow>
   (\<exists>d'. foldl_res (r_merge_file True True) d fs = Inr d' \<and> files_agree (r_files d') (r_files n') \<and> r_sessions d' = r_sessions n') \<and>
   wf_report n' \<and> (\<forall>k g. dict_get (r_files n') k = Some g \<longrightarrow> file_ids g \<subseteq> A)"
proof (induction fs arbitrary: n d)
  case Nil
  then show ?case by simp
next
  case (Cons f fs)
  from Cons.prems(1) obtain n1 where n1: "r_merge_file True False n f = Inr n1" "foldl_res (r_merge_file True False) n1 fs = Inr n'" by auto
  have f: "deferrable f" "\<forall>g. dict_get (r_files n) (rf_name f) = Some g \<longrightarrow> file_ids g \<inter> file_ids f = {}" "file_ids f \<subseteq> A"
    using Cons.prems(5,7,9) by auto
  note a = agree_append [OF n1(1) Cons.prems(2,3,4) f(1,2)]
  from a obtain d1 where d1: "r_merge_file True True d f = Inr d1" "files_agree (r_files d1) (r_files n1)" "r_sessions d1 = r_sessions n1" by blast
  have wf1: "wf_report n1"
    using n1(1) Cons.prems(4) wf_append by (auto simp: r_merge_file_def split: if_splits)
  have others: "\<forall>h \<in> set fs. file_ids h \<subseteq> B \<and> (\<forall>g. dict_get (r_files n1) (rf_name h) = Some g \<longrightarrow> file_ids g \<inter> file_ids h = {})"
  proof
    fix h assume h: "h \<in> set fs"
    have "rf_name h \<noteq> rf_name f" using Cons.prems(6) h by (auto simp: rev_image_eqI)
    with a have "dict_get (r_files n1) (rf_name h) = dict_get (r_files n) (rf_name h)" by blast
    with Cons.prems(7) h show "file_ids h \<subseteq> B \<and> (\<forall>g. dict_get (r_files n1) (rf_name h) = Some g \<longrightarrow> file_ids g \<inter> file_ids h = {})"
      by simp
  qed
  have small: "\<forall>k g. dict_get (r_files n1) k = Some g \<longrightarrow> file_ids g \<subseteq> A"
  proof (intro allI impI)
    fix k g assume g: "dict_get (r_files n1) k = Some g"
    show "file_ids g \<subseteq> A"
    proof (cases "k = rf_name f")
      case True
      with a g have "file_ids g \<subseteq> (case dict_get (r_files n) (rf_name f) of None \<Rightarrow> {} | Some h \<Rightarrow> file_ids h) \<union> file_ids f" by blast
      moreover have "(case dict_get (r_files n) (rf_name f) of None \<Rightarrow> {} | Some h \<Rightarrow> file_ids h) \<subseteq> A"
        using Cons.prems(8) by (simp split: option.split)
      ultimately show ?thesis using f(3) by blast
    next
      case False
      with a g Cons.prems(8) show ?thesis by metis
    qed
  qed
  have rest: "\<forall>h \<in> set fs. deferrable h" "distinct (map rf_name fs)" using Cons.prems(5,6) by auto
  from Cons.IH [OF n1(2) d1(2,3) wf1 rest others small Cons.prems(9)] d1(1) show ?case by simp
qed

lemma agree_report:
  assumes "r_merge n (Some x) True False = Inr n'" "files_agree (r_files d) (r_files n)" "r_sessions d = r_sessions n" "wf_report n"
    and "wf_report x" "\<forall>f \<in> set (r_file_list x). deferrable f" "report_ids n \<subseteq> A" "A \<inter> report_ids x = {}"
  shows "(\<exists>d'. r_merge d (Some x) True True = Inr d' \<and> files_agree (r_files d') (r_files n') \<and> r_sessions d' = r_sessions n') \<and>
    wf_report n' \<and> report_ids n' \<subseteq> A \<union> report_ids x"
proof (cases "r_is_empty x")
  case True
  with assms show ?thesis by (auto simp: r_merge_def)
next
  case False
  with assms(1) have fold: "foldl_res (r_merge_file True False) n (r_file_list x) = Inr n'" by (simp add: r_merge_def)
  have A: "\<forall>k g. dict_get (r_files n) k = Some g \<longrightarrow> file_ids g \<subseteq> A" using assms(7) report_ids_get [OF assms(4)] by blast
  have B: "\<forall>f \<in> set (r_file_list x). file_ids f \<subseteq> report_ids x \<and>
      (\<forall>g. dict_get (r_files n) (rf_name f) = Some g \<longrightarrow> file_ids g \<inter> file_ids f = {})"
    using A assms(8) unfolding report_ids_def by blast
  have "\<forall>k g. dict_get (r_files n) k = Some g \<longrightarrow> file_ids g \<subseteq> A \<union> report_ids x" using A by blast
  note r = agree_files [OF fold assms(2,3,4,6) distinct_file_names [OF assms(5)] B this Un_upper2]
  have "report_ids n' \<subseteq> A \<union> report_ids x" using r report_ids_get [of n' "A \<union> report_ids x"] by blast
  with r False show ?thesis by (simp add: r_merge_def)
qed

fun disjoint_reports :: "report list \<Rightarrow> bool" where
  "disjoint_reports [] = True"
| "disjoint_reports (r # rs) = ((\<forall>x \<in> set rs. report_ids r \<inter> report_ids x = {}) \<and> disjoint_reports rs)"

lemma agree_reports:
  "foldl_res (\<lambda>r x. r_merge r (Some x) True False) n rs = Inr n' \<Longrightarrow> files_agree (r_files d) (r_files n) \<Longrightarrow> r_sessions d = r_sessions n \<Longrightarrow>
   wf_report n \<Longrightarrow> \<forall>x \<in> set rs. wf_report x \<and> (\<forall>f \<in> set (r_file_list x). deferrable f) \<Longrightarrow> disjoint_reports rs \<Longrightarrow>
   report_ids n \<subseteq> A \<Longrightarrow> \<forall>x \<in> set rs. A \<inter> report_ids x = {} \<Longrightarrow>
   \<exists>d'. foldl_res (\<lambda>r x. r_merge r (Some x) True True) d rs = Inr d' \<and> files_agree (r_files d') (r_files n') \<and> r_sessions d' = r_sessions n'"
proof (induction rs arbitrary: n d A)
  case Nil
  then show ?case by simp
next
  case (Cons x rs)
  from Cons.prems(1) obtain n1 where n1: "r_merge n (Some x) True False = Inr n1"
    "foldl_res (\<lambda>r x. r_merge r (Some x) True False) n1 rs = Inr n'" by auto
  have x: "wf_report x" "\<forall>f \<in> set (r_file_list x). deferrable f" "A \<inter> report_ids x = {}" using Cons.prems(5,8) by auto
  from agree_report [OF n1(1) Cons.prems(2,3,4) x(1,2) Cons.prems(7) x(3)] obtain d1 where
    d1: "r_merge d (Some x) True True = Inr d1" "files_agree (r_files d1) (r_files n1)" "r_sessions d1 = r_sessions n1"
    and n1': "wf_report n1" "report_ids n1 \<subseteq> A \<union> report_ids x" by blast
  have rest: "\<forall>x \<in> set rs. wf_report x \<and> (\<forall>f \<in> set (r_file_list x). deferrable f)" "disjoint_reports rs"
    "\<forall>y \<in> set rs. (A \<union> report_ids x) \<inter> report_ids y = {}" using Cons.prems(5,6,8) by auto
  from Cons.IH [OF n1(2) d1(2,3) n1'(1) rest(1,2) n1'(2) rest(3)] d1(1) show ?case by simp
qed

lemma finish_files_agree:
  "files_agree ds ns \<Longrightarrow> \<exists>fs. traverse (\<lambda>(name, f). map_res (Pair name) (finish_file f)) ds = Inr fs \<and>
     map (\<lambda>(p, f). (p, rf_name f, rf_lines f)) fs = map (\<lambda>(p, f). (p, rf_name f, rf_lines f)) ns"
  unfolding files_agree_def
proof (induction ds ns rule: list_all2_induct)
  case (Cons a ds b ns)
  obtain p f where a: "a = (p, f)" by (cases a)
  obtain q g where b: "b = (q, g)" by (cases b)
  have "traverse finish_opt ls = Inr ms" if "list_all2 agree ls ms" for ls ms
    using that by (induction ls ms rule: list_all2_induct) (simp_all add: agree_finish)
  with Cons a b show ?case by (auto simp: finish_file_def)
qed simp

section \<open>Renumbering\<close>

lemma renumber_coverage [simp]:
  "rl_coverage (renumber_line a b l) = rl_coverage l" "rl_type (renumber_line a b l) = rl_type l"
  "rl_complexity (renumber_line a b l) = rl_complexity l"
  by (simp_all add: renumber_line_def)

lemma renumber_ids: "line_session_ids (renumber_line a b l) = (\<lambda>i. if i = a then b else i) ` line_session_ids l"
proof -
  let ?re = "\<lambda>s :: line_session. if ls_id s = a then s\<lparr>ls_id := b\<rparr> else s"
  have "rl_sessions (renumber_line a b l) = map ?re (rl_sessions l)" by (simp add: renumber_line_def)
  then have "line_session_ids (renumber_line a b l) = (\<lambda>s. ls_id (?re s)) ` set (rl_sessions l)"
    unfolding line_session_ids_def by (simp only: set_map image_image)
  also have "\<dots> = (\<lambda>s. if ls_id s = a then b else ls_id s) ` set (rl_sessions l)"
    by (rule image_cong) simp_all
  finally show ?thesis unfolding line_session_ids_def by (simp only: image_image)
qed

lemma somes_map: "somes (map (map_option f) ls) = map f (somes ls)"
  by (induction ls rule: list.induct) (auto simp: somes_def)

lemma count_renumber: "count_line k (renumber_line a b l) = count_line k l"
  by (simp add: count_line_def)

lemma totals_renumber: "get_line_totals (map (renumber_line a b) ls) = get_line_totals ls"
proof -
  have "foldl_res count_line k (map (renumber_line a b) ls) = foldl_res count_line k ls" for k
    by (induction ls arbitrary: k) (simp_all add: count_renumber)
  then show ?thesis by (simp add: get_line_totals_def)
qed

lemma renumber_file_total: "caches_ok f \<Longrightarrow> rf_total (renumber_file a b f) = rf_total f"
  by (simp add: rf_total_cached rf_total_lines renumber_file_def somes_map totals_renumber)

section \<open>The protocol of a report\<close>

interpretation rr: abstract_report rf_get rf_calculate_diff r_get rf_bool r_calculate_diff
  by unfold_locales (simp add: r_calculate_diff_def)

section \<open>Properties\<close>

text \<open>A file with one line, hit or missed in one session, and reports of such files, for examples.\<close>

definition one_line_file :: "string \<Rightarrow> int \<Rightarrow> int \<Rightarrow> report_file" where
  "one_line_file name sid hits =
     ReportFile name None
       [Some (ReportLine_create (CovInt hits) None [LineSession sid (CovInt hits) None None None] None)] None None"

definition plain_session :: "int \<Rightarrow> session" where
  "plain_session i =
     \<lparr>ss_id = Some i, ss_totals = None, ss_time = JNull, ss_archive = JNull, ss_flags = None,
      ss_provider = JNull, ss_build = JNull, ss_job = JNull, ss_url = JNull, ss_state = JNull,
      ss_env = JNull, ss_name = None, ss_session_type = ST_uploaded, ss_session_extras = []\<rparr>"

definition report_of :: "(int, session) dict \<Rightarrow> report_file list \<Rightarrow> report" where
  "report_of ss fs = \<lparr>r_sessions = ss, r_totals = None, r_files = map (\<lambda>f. (rf_name f, f)) fs, r_diff_totals = None\<rparr>"

lemma one_line_file_simps [simp]:
  "rf_name (one_line_file name sid hits) = name"
  "rf_lines (one_line_file name sid hits) =
     [Some (ReportLine_create (CovInt hits) None [LineSession sid (CovInt hits) None None None] None)]"
  "rf_totals (one_line_file name sid hits) = None" "rf_present (one_line_file name sid hits) = None"
  "rf_ignore (one_line_file name sid hits) = None"
  "rf_len (one_line_file name sid hits) = 1"
  by (simp_all add: one_line_file_def ReportFile_def rf_len_def)

lemma one_line_file_ok [simp]: "caches_ok (one_line_file name sid hits)" "stores_no_ignored (one_line_file name sid hits)"
  by (simp_all add: caches_ok_def stores_no_ignored_def ignored_def)

text \<open>
  C1. Merging a report into another works path by path: a path of one report only keeps its file (a file
  without any line is not added), and a path of both has the merge of the two files.
\<close>

theorem report_merge_by_path:
  assumes "wf_report r" "wf_report n" "r_merge r (Some n) joined is_disjoint = Inr r'"
  shows "wf_report r' \<and> r_sessions r' = r_sessions r \<and>
    (case (r_get r p, r_get n p) of
       (g, None) \<Rightarrow> r_get r' p = g
     | (None, Some f) \<Rightarrow> r_get r' p = (if rf_len f = 0 then None else Some f)
     | (Some g, Some f) \<Rightarrow>
         if rf_len f = 0 then r_get r' p = Some g
         else \<exists>x h. rf_merge g (Some f) joined is_disjoint = Inr (x, h) \<and> r_get r' p = Some h)"
proof -
  have wf: "wf_report r'" using assms wf_merge by blast
  show ?thesis
  proof (cases "r_is_empty n")
    case True
    then have "r_get n p = None" by (simp add: r_is_empty_def r_get_def)
    with True assms wf show ?thesis by (auto simp: r_merge_def split: option.splits)
  next
    case False
    with assms(3) have fold: "foldl_res (r_merge_file joined is_disjoint) r (r_file_list n) = Inr r'" by (simp add: r_merge_def)
    have ss: "r_sessions r' = r_sessions r"
      by (rule foldl_res_invariant [OF fold, where P = "\<lambda>x. r_sessions x = r_sessions r"])
        (auto simp: r_merge_file_def split: if_splits dest!: r_append_files)
    have "r_get n [] = None"
      using wf_report_get [OF assms(2), of "[]"] by (cases "r_get n []") (auto simp: r_get_def)
    with merge_files_get [OF fold assms(1) distinct_file_names [OF assms(2)], of p] wf ss show ?thesis
      by (cases "p = []") (auto simp: find_file [OF assms(2)] split: option.splits)
  qed
qed

theorem report_merge_by_path_witness:
  "\<exists>r'. r_merge (report_of [] [one_line_file ''a.py'' 0 1]) (Some (report_of [] [one_line_file ''b.py'' 1 0])) True False = Inr r' \<and>
     r_get r' ''b.py'' = Some (one_line_file ''b.py'' 1 0)"
proof -
  let ?r = "report_of [] [one_line_file ''a.py'' 0 1]" and ?n = "report_of [] [one_line_file ''b.py'' 1 0]"
  have wf: "wf_report ?r" "wf_report ?n" by (simp_all add: wf_report_def report_of_def wf_dict_def)
  obtain r' where r': "r_merge ?r (Some ?n) True False = Inr r'"
    by (simp add: r_merge_def r_is_empty_def report_of_def r_file_list_def dict_values_def r_merge_file_def r_append_def dict_get_def)
  with report_merge_by_path [OF wf r', of "''b.py''"] show ?thesis
    by (simp add: r_get_def report_of_def dict_get_def)
qed

text \<open>
  Every operation that changes the files or sessions of a report keeps it well formed: session ids
  and paths are unique, and every file is stored under its own, non-empty name.
\<close>

theorem report_operations_keep_wf:
  assumes "wf_report r"
  shows "(r_append r fo j d = Inr (b, r') \<longrightarrow> wf_report r') \<and> (r_merge r n j d = Inr r' \<longrightarrow> wf_report r') \<and>
    (r_rename r old new = Inr r' \<longrightarrow> wf_report r') \<and> (r_resolve_paths r paths = Inr r' \<longrightarrow> wf_report r') \<and>
    (r_delitem r p = Inr r' \<longrightarrow> wf_report r') \<and> (r_add_session r s u = Inr (i, s', r') \<longrightarrow> wf_report r') \<and>
    (r_delete_multiple_sessions r ids = Inr r' \<longrightarrow> wf_report r') \<and> (r_change_sessionid r o1 o2 = Inr r' \<longrightarrow> wf_report r')"
  by (auto dest: wf_append [OF assms] wf_merge [OF assms] wf_rename [OF assms] wf_resolve [OF assms]
      wf_delitem [OF assms] wf_add_session [OF assms] wf_change_sessionid [OF assms] delete_sessions_files(3) [OF assms])

theorem report_operations_keep_wf_witness:
  "\<exists>r'. r_rename (report_of [] [one_line_file ''a.py'' 0 1]) ''a.py'' (Some ''b.py'') = Inr r' \<and> wf_report r'"
proof -
  let ?r = "report_of [] [one_line_file ''a.py'' 0 1]"
  have wf: "wf_report ?r" by (simp add: wf_report_def report_of_def wf_dict_def)
  obtain r' where r': "r_rename ?r ''a.py'' (Some ''b.py'') = Inr r'"
    by (simp add: r_rename_def report_of_def dict_get_def Let_def)
  with report_operations_keep_wf [OF wf, of None True True True r' None "''a.py''" "Some ''b.py''" "[]" "[]"
      "plain_session 0" True 0 "plain_session 0" "[]" 0 0] show ?thesis by blast
qed

text \<open>
  C11. Deleting sessions from a report removes them everywhere: their ids are gone from the session
  table (a missing id is an error), the lines of every remaining file refer to none of them, every
  remaining file still has countable lines, and its caches are right.
\<close>

theorem report_delete_sessions:
  assumes "wf_report r" "\<forall>(p, f) \<in> set (r_files r). caches_ok f \<and> stores_no_ignored f"
    and "r_delete_multiple_sessions r ids = Inr r'"
  shows "dict_keys (r_sessions r') = filter (\<lambda>i. i \<notin> set ids) (dict_keys (r_sessions r)) \<and>
    set ids \<subseteq> set (dict_keys (r_sessions r)) \<and>
    (\<forall>p g. r_get r' p = Some g \<longrightarrow> rf_bool g = Inr True \<and> caches_ok g \<and>
      (\<exists>f. r_get r p = Some f \<and> session_ids_in (rf_lines g) = session_ids_in (rf_lines f) - set ids))"
proof -
  note d = delete_sessions_files [OF assms(1,3)]
  have "rf_bool g = Inr True \<and> caches_ok g \<and>
      (\<exists>f. r_get r p = Some f \<and> session_ids_in (rf_lines g) = session_ids_in (rf_lines f) - set ids)"
    if "r_get r' p = Some g" for p g
  proof -
    from d(4) [OF that] obtain f where f: "r_get r p = Some f" "rf_delete_multiple_sessions f (set ids) = Inr g"
      and b: "rf_bool g = Inr True" by blast
    have "(p, f) \<in> set (r_files r)" using f(1) by (auto simp: r_get_def dest: dict_get_in)
    then have "caches_ok f" "stores_no_ignored f" using assms(2) by auto
    with delete_sessions_ids [OF f(2)] f(1) b show ?thesis by blast
  qed
  then show ?thesis using d(1,2) by (simp add: dict_dels_def pd.keys_dels)
qed

theorem report_delete_sessions_witness:
  "\<exists>r'. r_delete_multiple_sessions (report_of [(0, plain_session 0), (1, plain_session 1)] [one_line_file ''a.py'' 0 1]) [0] = Inr r' \<and>
     dict_keys (r_sessions r') = [1] \<and> r_get r' ''a.py'' = None"
proof -
  let ?r = "report_of [(0, plain_session 0), (1, plain_session 1)] [one_line_file ''a.py'' 0 1]"
  have wf: "wf_report ?r" "\<forall>(p, f) \<in> set (r_files ?r). caches_ok f \<and> stores_no_ignored f"
    by (simp_all add: wf_report_def report_of_def wf_dict_def)
  have del: "rf_delete_multiple_sessions (one_line_file ''a.py'' 0 1) {0} =
      Inr ((rf_invalidate_caches (one_line_file ''a.py'' 0 1))\<lparr>rf_lines := []\<rparr>)"
    by (simp add: rf_delete_multiple_sessions_def rf_present_sessions_def session_ids_in_def line_session_ids_def Let_def)
  obtain r' where r': "r_delete_multiple_sessions ?r [0] = Inr r'" "r_get r' ''a.py'' = None"
    by (simp add: r_delete_multiple_sessions_def r_pop_session_def report_of_def dict_keys_def dict_del_def strip_file_def del
        rf_bool_def rf_total_lines get_line_totals_counts counts_of_def no_lines_def r_delitem_def r_contains_def r_get_def)
  with report_delete_sessions [OF wf r'(1)] show ?thesis by (simp add: report_of_def dict_keys_def)
qed

text \<open>
  C15. The deferred merge is equivalent to the direct one: when reports of pairwise different sessions are merged one after the
  other, then merging them with \<open>is_disjoint\<close> and completing the result once with \<open>finish_merge\<close> succeeds as well, and
  gives the same sessions and the same files with the same lines. The reports have no Ruby files, whose
  merge compares totals that a deferred merge does not have yet, and every line has a coverage value.
\<close>

theorem finish_merge_equivalent:
  assumes "foldl_res (\<lambda>r x. r_merge r (Some x) True False) r rs = Inr r1"
    and "\<forall>x \<in> set (r # rs). wf_report x \<and> (\<forall>f \<in> set (r_file_list x). deferrable f)" "disjoint_reports (r # rs)"
  shows "\<exists>d r2. foldl_res (\<lambda>r x. r_merge r (Some x) True True) r rs = Inr d \<and> r_finish_merge d = Inr r2 \<and>
    r_sessions r2 = r_sessions r1 \<and>
    map (\<lambda>(p, f). (p, rf_name f, rf_lines f)) (r_files r2) = map (\<lambda>(p, f). (p, rf_name f, rf_lines f)) (r_files r1)"
proof -
  have "list_all2 agree (rf_lines f) (rf_lines f)" if "(p, f) \<in> set (r_files r)" for p f
    using assms(2) that by (intro agree_self) (force simp: deferrable_def r_file_list_def dict_values_def)
  then have "files_agree (r_files r) (r_files r)" by (auto simp: files_agree_def list_all2_same)
  with agree_reports [OF assms(1), of r "report_ids r"] assms(2,3) obtain d where
    d: "foldl_res (\<lambda>r x. r_merge r (Some x) True True) r rs = Inr d" "files_agree (r_files d) (r_files r1)" "r_sessions d = r_sessions r1"
    by auto
  from finish_files_agree [OF d(2)] d(1,3) show ?thesis by (auto simp: r_finish_merge_def)
qed

theorem finish_merge_equivalent_witness:
  "\<exists>d r2. r_merge (report_of [] [one_line_file ''a.py'' 0 1]) (Some (report_of [] [one_line_file ''a.py'' 1 5])) True True = Inr d \<and>
     r_finish_merge d = Inr r2 \<and>
     map (\<lambda>(p, f). (p, map_option rl_coverage (hd (rf_lines f)))) (r_files r2) = [(''a.py'', Some (CovInt 5))]"
proof -
  let ?r = "\<lambda>i c. report_of [] [one_line_file ''a.py'' i c]"
  have m: "map_res (\<lambda>r. map (\<lambda>(p, f). (p, rf_name f, rf_lines f)) (r_files r)) (r_merge (?r 0 1) (Some (?r 1 5)) True False) =
      Inr [(''a.py'', ''a.py'', [Some (ReportLine_create (CovInt 5) None
        [LineSession 0 (CovInt 1) None None None, LineSession 1 (CovInt 5) None None None] None)])]"
    by (simp add: r_merge_def report_of_def r_is_empty_def r_file_list_def dict_values_def r_merge_file_def r_append_def rf_merge_def
        dict_get_def endswith_def merge_line_def merge_sessions_def get_coverage_from_sessions_def
        merge_missed_branches_def merge_all_def merge_coverage_ints get_complexity_from_sessions_def str_or_def)
  then obtain r1 where r1: "r_merge (?r 0 1) (Some (?r 1 5)) True False = Inr r1"
    by (cases "r_merge (?r 0 1) (Some (?r 1 5)) True False") auto
  have ok: "\<forall>x \<in> set [?r 0 1, ?r 1 5]. wf_report x \<and> (\<forall>f \<in> set (r_file_list x). deferrable f)"
    by (simp add: wf_report_def report_of_def wf_dict_def r_file_list_def dict_values_def deferrable_def endswith_def)
  have dj: "disjoint_reports [?r 0 1, ?r 1 5]"
    by (simp add: report_ids_def file_ids_def report_of_def r_file_list_def dict_values_def session_ids_simps line_session_ids_def)
  have fold: "foldl_res (\<lambda>r x. r_merge r (Some x) True False) (?r 0 1) [?r 1 5] = Inr r1" by (simp add: r1)
  from finish_merge_equivalent [OF fold ok dj] obtain d r2 where
    "r_merge (?r 0 1) (Some (?r 1 5)) True True = Inr d" "r_finish_merge d = Inr r2"
    "map (\<lambda>(p, f). (p, rf_name f, rf_lines f)) (r_files r2) = map (\<lambda>(p, f). (p, rf_name f, rf_lines f)) (r_files r1)"
    by auto
  moreover from m have "map (\<lambda>(p, f). (p, rf_name f, rf_lines f)) (r_files r1) = [(''a.py'', ''a.py'', [Some (ReportLine_create (CovInt 5) None
        [LineSession 0 (CovInt 1) None None None, LineSession 1 (CovInt 5) None None None] None)])]" by (simp add: r1)
  ultimately show ?thesis by (auto simp: map_eq_Cons_conv)
qed

text \<open>
  Renumbering a session moves it in the session table to the new id and renames it in all lines,
  and it changes nothing that the totals depend on.
\<close>

theorem change_sessionid_renames:
  assumes "r_change_sessionid r old new = Inr r'" "r_get r p = Some f" "caches_ok f"
  shows "\<exists>s g. dict_get (r_sessions r) old = Some s \<and> dict_get (r_sessions r') new = Some (s\<lparr>ss_id := Some new\<rparr>) \<and>
    (old \<noteq> new \<longrightarrow> dict_get (r_sessions r') old = None) \<and> r_get r' p = Some g \<and>
    session_ids_in (rf_lines g) = (\<lambda>i. if i = old then new else i) ` session_ids_in (rf_lines f) \<and>
    rf_total g = rf_total f"
proof -
  have "session_ids_in (rf_lines (renumber_file old new f)) = (\<lambda>i. if i = old then new else i) ` session_ids_in (rf_lines f)"
  proof -
    have "somes (rf_lines (renumber_file old new f)) = map (renumber_line old new) (somes (rf_lines f))"
      by (simp add: renumber_file_def somes_map)
    then show ?thesis by (simp only: session_ids_in_def set_map UN_simps(10) renumber_ids image_UN)
  qed
  with assms show ?thesis
    by (auto simp: r_change_sessionid_def r_get_def renumber_file_total split: option.splits)
qed

theorem change_sessionid_renames_witness:
  "\<exists>r' g. r_change_sessionid (report_of [(0, plain_session 0)] [one_line_file ''a.py'' 0 1]) 0 7 = Inr r' \<and>
     r_get r' ''a.py'' = Some g \<and> session_ids_in (rf_lines g) = {7}"
proof -
  let ?r = "report_of [(0, plain_session 0)] [one_line_file ''a.py'' 0 1]"
  obtain r' where r': "r_change_sessionid ?r 0 7 = Inr r'"
    by (simp add: r_change_sessionid_def report_of_def dict_get_def)
  have g: "r_get ?r ''a.py'' = Some (one_line_file ''a.py'' 0 1)" by (simp add: r_get_def report_of_def dict_get_def)
  from change_sessionid_renames [OF r' g] r' show ?thesis by (auto simp: session_ids_in_def line_session_ids_def)
qed

text \<open>
  C39. Adding a session without an id of its own always succeeds: the search for a number ends, the
  number is not the id of an existing session and at least their count, and every other session is kept.
\<close>

theorem add_session_fresh:
  "\<exists>sid r'. r_add_session r s False = Inr (sid, s, r') \<and>
    dict_get (r_sessions r) sid = None \<and> int (length (r_sessions r)) \<le> sid \<and>
    (\<forall>i. dict_get (r_sessions r') i = (if i = sid then Some s else dict_get (r_sessions r) i)) \<and>
    length (r_sessions r') = length (r_sessions r) + 1"
proof -
  let ?sid = "r_next_session_number r"
  obtain r' where r': "r_add_session r s False = Inr (?sid, s, r')" "r_sessions r' = dict_set (r_sessions r) ?sid s"
    by (simp add: r_add_session_def)
  have fresh: "?sid \<notin> set (dict_keys (r_sessions r))" "int (length (r_sessions r)) \<le> ?sid"
    using next_free_fresh by (auto simp: r_next_session_number_def)
  then have "length (dict_set (r_sessions r) ?sid s) = length (r_sessions r) + 1" by (simp add: dict_set_absent)
  with fresh r' show ?thesis by (intro exI [of _ ?sid] exI [of _ r']) (simp add: dict_get_None)
qed

theorem add_session_fresh_witness:
  "\<exists>r'. r_add_session (report_of [(0, plain_session 0), (2, plain_session 2)] []) (plain_session 9) False = Inr (3, plain_session 9, r') \<and>
     dict_get (r_sessions r') 2 = Some (plain_session 2)"
proof -
  let ?r = "report_of [(0, plain_session 0), (2, plain_session 2)] []"
  have n: "r_next_session_number ?r = 3"
    by (simp add: r_next_session_number_def report_of_def dict_keys_def next_free.simps)
  obtain r' where r': "r_add_session ?r (plain_session 9) False = Inr (3, plain_session 9, r')"
    by (simp add: r_add_session_def n)
  from add_session_fresh [of ?r "plain_session 9"] r' show ?thesis by (auto simp: report_of_def dict_get_def)
qed

text \<open>
  The session count in cached totals is wrong after a session is added to a report whose ids have a gap:
  the count is set to the new id plus one, here 4 for the three sessions 0, 2 and 3.
\<close>

theorem add_session_miscounts:
  "(case r_add_session ((report_of [(0, plain_session 0), (2, plain_session 2)] [])\<lparr>r_totals := Some (zero_totals\<lparr>t_sessions := 2\<rparr>)\<rparr>)
        (plain_session 9) False of
      Inr (_, _, r') \<Rightarrow> (map_option t_sessions (r_totals r'), length (r_sessions r'))
    | Inl _ \<Rightarrow> (None, 0)) = (Some 4, 3)"
  by (simp add: r_add_session_def r_next_session_number_def report_of_def dict_keys_def next_free.simps zero_totals_def)

text \<open>
  C22. The totals of a report whose caches are right are the totals of all lines of all its files, with
  the number of files and of sessions filled in.
\<close>

theorem report_totals_of_lines:
  assumes "r_totals r = None" "\<forall>f \<in> set (r_file_list r). caches_ok f" "r_file_list r \<noteq> []" "r_total r = Inr t"
  shows "\<exists>u. get_line_totals (concat (map (\<lambda>f. somes (rf_lines f)) (r_file_list r))) = Inr u \<and>
    t = u\<lparr>t_files := int (length (r_file_list r)), t_sessions := int (length (r_sessions r))\<rparr>"
proof -
  let ?lss = "map (\<lambda>f. somes (rf_lines f)) (r_file_list r)"
  from assms(1,4) obtain ts where ts: "traverse rf_total (r_file_list r) = Inr ts"
    "t = (agg_totals ts)\<lparr>t_sessions := int (length (r_sessions r))\<rparr>"
    by (auto simp: r_total_def r_process_totals_def)
  have "traverse rf_total fs = traverse get_line_totals (map (\<lambda>f. somes (rf_lines f)) fs)" if "\<forall>f \<in> set fs. caches_ok f" for fs
    using that by (induction fs) (simp_all add: rf_total_cached)
  with ts assms(2) have "traverse get_line_totals ?lss = Inr ts" by simp
  from agg_of_lines [OF _ this] assms(3) obtain u where
    "get_line_totals (concat ?lss) = Inr u" "agg_totals ts = u\<lparr>t_files := int (length ?lss)\<rparr>" by auto
  with ts(2) show ?thesis by auto
qed

theorem report_totals_of_lines_witness:
  "\<exists>t. r_total (report_of [(0, plain_session 0)] [one_line_file ''a.py'' 0 1, one_line_file ''b.py'' 0 1]) = Inr t \<and>
     t_files t = 2 \<and> t_hits t = 2 \<and> t_sessions t = 1"
proof -
  let ?r = "report_of [(0, plain_session 0)] [one_line_file ''a.py'' 0 1, one_line_file ''b.py'' 0 1]"
  have r: "r_totals ?r = None" "\<forall>f \<in> set (r_file_list ?r). caches_ok f" "r_file_list ?r \<noteq> []"
    by (simp_all add: report_of_def r_file_list_def dict_values_def)
  obtain t where t: "r_total ?r = Inr t"
    by (simp add: r_total_def r_process_totals_def report_of_def r_file_list_def dict_values_def rf_total_lines
        get_line_totals_counts counts_of_def count_line_def line_type_def)
  from report_totals_of_lines [OF r t] show ?thesis using t
    by (auto simp: report_of_def r_file_list_def dict_values_def get_line_totals_counts counts_of_def count_line_def line_type_def no_lines_def)
qed

text \<open>
  C21. The coverage of a diff of a report: a path of the diff has totals exactly when it is new or modified and
  its file is in the report with countable lines, and these are the totals of the file's added
  lines; they count at most as many lines as the diff adds.
\<close>

theorem report_diff_per_file:
  assumes "r_calculate_diff r d = Inr cd" "wf_dict (rd_files d)" "dict_get (rd_files d) p = Some data"
  shows "diff_entry (r_get r) rf_bool rf_get data p (dict_get (cd_files cd) p) \<and>
    (\<forall>t nss. dict_get (cd_files cd) p = Some t \<longrightarrow> traverse relevant_lines (df_segments data) = Inr nss \<longrightarrow>
      0 \<le> t_lines t \<and> t_lines t \<le> int (length (concat nss)))"
proof -
  have e: "diff_entry (r_get r) rf_bool rf_get data p (dict_get (cd_files cd) p)"
    using rr.report_diff_files [OF assms] .
  moreover have "0 \<le> t_lines t \<and> t_lines t \<le> int (length (concat nss))"
    if "dict_get (cd_files cd) p = Some t" "traverse relevant_lines (df_segments data) = Inr nss" for t nss
  proof -
    from e that(1) obtain f where "rf_calculate_diff f (df_segments data) = Inr t"
      by (auto simp: diff_entry_def rf_calculate_diff_def split: if_splits)
    from rf.diff_lines_bound [OF this that(2)] show ?thesis .
  qed
  ultimately show ?thesis by blast
qed

theorem report_diff_per_file_witness:
  "\<exists>cd t. r_calculate_diff (report_of [] [one_line_file ''a.py'' 0 1])
       \<lparr>rd_files = [(''a.py'', \<lparr>df_type = ''modified'', df_before = None,
          df_segments = [\<lparr>seg_header = [''1'', ''0'', ''1'', ''1''], seg_lines = [''+x'']\<rparr>], df_totals = None\<rparr>)], rd_totals = None\<rparr> = Inr cd \<and>
     dict_get (cd_files cd) ''a.py'' = Some t \<and> t_lines t \<le> 1"
proof -
  let ?s = "\<lparr>seg_header = [''1'', ''0'', ''1'', ''1''], seg_lines = [''+x'']\<rparr>"
  let ?data = "\<lparr>df_type = ''modified'', df_before = None, df_segments = [?s], df_totals = None\<rparr>"
  let ?d = "\<lparr>rd_files = [(''a.py'', ?data)], rd_totals = None\<rparr>"
  let ?r = "report_of [] [one_line_file ''a.py'' 0 1]"
  have start: "segment_start ?s = Inr 1" by code_simp
  then have rel: "traverse relevant_lines (df_segments ?data) = Inr [[1]]"
    by (simp add: relevant_lines_def first_char_def)
  obtain cd t where cd: "r_calculate_diff ?r ?d = Inr cd" "dict_get (cd_files cd) ''a.py'' = Some t"
    using rel
    by (simp add: r_calculate_diff_def calculate_report_diff_def diff_file_totals_def r_get_def report_of_def dict_get_def
        rf_bool_def rf_total_lines get_line_totals_counts counts_of_def count_line_def line_type_def
        calculate_file_diff_def rf_get_def sum_totals_def sum_strict_def Let_def no_lines_def dict_values_def)
  have "wf_dict (rd_files ?d)" "dict_get (rd_files ?d) ''a.py'' = Some ?data" by (simp_all add: wf_dict_def dict_get_def)
  from report_diff_per_file [OF cd(1) this] cd rel show ?thesis by auto
qed

end
