(* ===== verification/Filtered.thy ===== *)
theory Filtered
  imports Report
begin

text \<open>
  Path patterns (libs/shared/shared/utils/match.py) and filtered views of a report
  (libs/shared/shared/reports/filtered.py, \<open>Report.filter\<close>, \<open>Flag\<close>). The regular-expression
  engine is a parameter: \<open>rx p s\<close> says whether \<open>re.compile(p).match(s)\<close> finds a match. The cache of
  \<open>FilteredReportFile\<close> objects of a filtered report is not part of the state: an entry is
  the object that would be built again.
\<close>

section \<open>Matchers\<close>

type_synonym regex_engine = "string \<Rightarrow> string \<Rightarrow> bool"

definition is_negative :: "string \<Rightarrow> bool" where
  "is_negative p \<longleftrightarrow> startswith p ''^!'' \<or> startswith p ''!''"

text \<open>\<open>pattern.replace("!", "")\<close>.\<close>

definition drop_bangs :: "string \<Rightarrow> string" where
  "drop_bangs p = filter (\<lambda>c. c \<noteq> CHR ''!'') p"

definition negatives :: "string list \<Rightarrow> string list" where
  "negatives ps = map drop_bangs (filter (\<lambda>p. p \<noteq> [] \<and> is_negative p) ps)"

definition positives :: "string list \<Rightarrow> string list" where
  "positives ps = filter (\<lambda>p. p \<noteq> [] \<and> \<not> is_negative p) ps"

definition matcher_match :: "regex_engine \<Rightarrow> string list option \<Rightarrow> string \<Rightarrow> bool" where
  "matcher_match rx patterns s =
     (let ps = (case patterns of None \<Rightarrow> [] | Some ps \<Rightarrow> ps)
      in if ps = [] \<or> s \<in> set ps then True
         else if \<exists>p \<in> set (negatives ps). rx p s then False
         else if positives ps \<noteq> [] then \<exists>p \<in> set (positives ps). rx p s
         else True)"

definition matcher_match_any :: "regex_engine \<Rightarrow> string list option \<Rightarrow> string list option \<Rightarrow> bool" where
  "matcher_match_any rx patterns strings =
     (case strings of None \<Rightarrow> False | Some ss \<Rightarrow> \<exists>s \<in> set ss. matcher_match rx patterns s)"

section \<open>Filtered files\<close>

definition contain_any_of_the_flags :: "string list option \<Rightarrow> string list option \<Rightarrow> bool" where
  "contain_any_of_the_flags expected actual =
     (case (expected, actual) of
        (Some e, Some a) \<Rightarrow> set e \<inter> set a \<noteq> {}
      | _ \<Rightarrow> False)"

record filtered_file =
  ff_file :: report_file
  ff_session_ids :: "int set"
  ff_totals :: "report_totals option"
  ff_cached_lines :: "(int \<times> report_line) list option"

definition FilteredReportFile :: "report_file \<Rightarrow> int set \<Rightarrow> filtered_file" where
  "FilteredReportFile f ids = \<lparr>ff_file = f, ff_session_ids = ids, ff_totals = None, ff_cached_lines = None\<rparr>"

definition line_modifier :: "int set \<Rightarrow> report_line \<Rightarrow> report_line option res" where
  "line_modifier ids line =
     (let ss = filter (\<lambda>s. ls_id s \<in> ids) (rl_sessions line)
      in if ss = [] then Inr None
         else
           bind_res (merge_all (map ls_coverage ss) None) (\<lambda>c.
           bind_res (get_complexity_from_sessions ss) (\<lambda>cx.
             Inr (Some (line\<lparr>rl_complexity := cx, rl_sessions := ss, rl_coverage := c\<rparr>)))))"

text \<open>An empty cached list is false, so that it is computed again.\<close>

definition ff_items :: "filtered_file \<Rightarrow> (int \<times> report_line) list res" where
  "ff_items f =
     (case ff_cached_lines f of
        Some (x # xs) \<Rightarrow> Inr (x # xs)
      | _ \<Rightarrow>
          map_res (\<lambda>ls. concat (map (\<lambda>(n, l). case l of None \<Rightarrow> [] | Some x \<Rightarrow> [(n, x)]) ls))
            (traverse (\<lambda>(n, l). map_res (Pair n) (line_modifier (ff_session_ids f) l)) (rf_items (ff_file f))))"

definition ff_get :: "filtered_file \<Rightarrow> int \<Rightarrow> report_line option res" where
  "ff_get f lno =
     bind_res (rf_get (ff_file f) lno) (\<lambda>l.
       case l of None \<Rightarrow> Inr None | Some x \<Rightarrow> line_modifier (ff_session_ids f) x)"

definition ff_total :: "filtered_file \<Rightarrow> report_totals res" where
  "ff_total f =
     (case ff_totals f of
        Some t \<Rightarrow> Inr t
      | None \<Rightarrow> bind_res (ff_items f) (\<lambda>ls. get_line_totals (map snd ls)))"

definition ff_eof :: "filtered_file \<Rightarrow> int" where
  "ff_eof f = rf_eof (ff_file f)"

definition ff_calculate_diff :: "filtered_file \<Rightarrow> diff_segment list \<Rightarrow> report_totals res" where
  "ff_calculate_diff f segments = calculate_file_diff (ff_get f) segments"

section \<open>Filtered reports\<close>

record filtered_report =
  fr_report :: report
  fr_patterns :: "string list option"
  fr_flags :: "string list option"
  fr_totals :: "report_totals option"
  fr_sessions :: "int set option"

definition FilteredReport :: "report \<Rightarrow> string list option \<Rightarrow> string list option \<Rightarrow> filtered_report" where
  "FilteredReport r patterns flags =
     \<lparr>fr_report = r, fr_patterns = patterns, fr_flags = flags, fr_totals = None, fr_sessions = None\<rparr>"

text \<open>\<open>not self.flags\<close>.\<close>

definition no_flags :: "filtered_report \<Rightarrow> bool" where
  "no_flags fr \<longleftrightarrow> fr_flags fr = None \<or> fr_flags fr = Some []"

definition session_ids_to_include :: "filtered_report \<Rightarrow> int set" where
  "session_ids_to_include fr =
     (case fr_sessions fr of
        Some s \<Rightarrow> s
      | None \<Rightarrow>
          if no_flags fr then set (dict_keys (r_sessions (fr_report fr)))
          else set (map fst (filter (\<lambda>(sid, s). contain_any_of_the_flags (fr_flags fr) (ss_flags s)) (r_sessions (fr_report fr)))))"

definition should_include :: "regex_engine \<Rightarrow> filtered_report \<Rightarrow> string \<Rightarrow> bool" where
  "should_include rx fr filename = matcher_match rx (fr_patterns fr) filename"

text \<open>Without flags a filtered report hands out the files of the report itself.\<close>

datatype any_file = Whole report_file | Part filtered_file

definition fr_get :: "regex_engine \<Rightarrow> filtered_report \<Rightarrow> string \<Rightarrow> any_file option" where
  "fr_get rx fr filename =
     (if \<not> should_include rx fr filename then None
      else (case r_get (fr_report fr) filename of
              None \<Rightarrow> None
            | Some f \<Rightarrow>
                if no_flags fr then Some (Whole f)
                else Some (Part (FilteredReportFile f (session_ids_to_include fr)))))"

definition any_get :: "any_file \<Rightarrow> int \<Rightarrow> report_line option res" where
  "any_get a lno = (case a of Whole f \<Rightarrow> rf_get f lno | Part g \<Rightarrow> ff_get g lno)"

definition any_total :: "any_file \<Rightarrow> report_totals res" where
  "any_total a = (case a of Whole f \<Rightarrow> rf_total f | Part g \<Rightarrow> ff_total g)"

text \<open>A \<open>FilteredReportFile\<close> has no truth value of its own and is always true.\<close>

definition any_bool :: "any_file \<Rightarrow> bool res" where
  "any_bool a = (case a of Whole f \<Rightarrow> rf_bool f | Part _ \<Rightarrow> Inr True)"

definition any_calculate_diff :: "any_file \<Rightarrow> diff_segment list \<Rightarrow> report_totals res" where
  "any_calculate_diff a segments = (case a of Whole f \<Rightarrow> rf_calculate_diff f segments | Part g \<Rightarrow> ff_calculate_diff g segments)"

definition fr_files :: "regex_engine \<Rightarrow> filtered_report \<Rightarrow> string list" where
  "fr_files rx fr = filter (should_include rx fr) (dict_keys (r_files (fr_report fr)))"

definition fr_is_empty :: "regex_engine \<Rightarrow> filtered_report \<Rightarrow> bool" where
  "fr_is_empty rx fr = (\<not> (\<exists>f \<in> set (dict_keys (r_files (fr_report fr))). should_include rx fr f))"

definition fr_get_file_totals :: "regex_engine \<Rightarrow> filtered_report \<Rightarrow> string \<Rightarrow> report_totals option res" where
  "fr_get_file_totals rx fr path =
     (if should_include rx fr path then r_get_file_totals (fr_report fr) path else Inr None)"

definition fr_iter_totals :: "regex_engine \<Rightarrow> filtered_report \<Rightarrow> report_totals list res" where
  "fr_iter_totals rx fr =
     map_res (filter (\<lambda>t. t_lines t > 0))
       (traverse (\<lambda>name. case fr_get rx fr name of None \<Rightarrow> Inl AttributeError | Some a \<Rightarrow> any_total a) (fr_files rx fr))"

definition fr_total :: "regex_engine \<Rightarrow> filtered_report \<Rightarrow> report_totals res" where
  "fr_total rx fr =
     (case fr_totals fr of
        Some t \<Rightarrow> Inr t
      | None \<Rightarrow>
          map_res (\<lambda>ts. (agg_totals ts)\<lparr>t_sessions := int (card (session_ids_to_include fr))\<rparr>) (fr_iter_totals rx fr))"

definition fr_network :: "regex_engine \<Rightarrow> filtered_report \<Rightarrow> (string \<times> network_file) list res" where
  "fr_network rx fr =
     map_res concat (traverse (\<lambda>name.
       case fr_get rx fr name of
         None \<Rightarrow> Inr []
       | Some a \<Rightarrow>
           bind_res (any_bool a) (\<lambda>b.
             if b then map_res (\<lambda>t. [(name, make_network_file (Some t) None)]) (any_total a) else Inr []))
       (dict_keys (r_files (fr_report fr))))"

definition fr_calculate_diff :: "regex_engine \<Rightarrow> filtered_report \<Rightarrow> raw_diff \<Rightarrow> calculated_diff res" where
  "fr_calculate_diff rx fr diff = calculate_report_diff (fr_get rx fr) any_bool any_get diff"

text \<open>
  \<open>save_diff_calculation\<close> of a filtered report writes the totals into the diff only (the attribute
  \<open>diff_totals\<close> that it sets on the filtered report is read by nothing).
\<close>

definition fr_save_totals :: "raw_diff \<Rightarrow> string \<times> report_totals \<Rightarrow> raw_diff res" where
  "fr_save_totals diff entry =
     (case dict_get (rd_files diff) (fst entry) of
        None \<Rightarrow> Inl TypeError
      | Some data \<Rightarrow>
          Inr (diff\<lparr>rd_files := dict_set (rd_files diff) (fst entry) (data\<lparr>df_totals := Some (snd entry)\<rparr>)\<rparr>))"

definition fr_apply_diff :: "regex_engine \<Rightarrow> filtered_report \<Rightarrow> raw_diff option \<Rightarrow> bool \<Rightarrow> (report_totals option \<times> raw_diff option) res" where
  "fr_apply_diff rx fr diff save =
     (case diff of
        None \<Rightarrow> Inr (None, None)
      | Some d \<Rightarrow>
          if rd_files d = [] then Inr (None, Some d)
          else bind_res (fr_calculate_diff rx fr d) (\<lambda>res.
            bind_res (if save then foldl_res fr_save_totals (d\<lparr>rd_totals := Some (cd_general res)\<rparr>) (cd_files res) else Inr d) (\<lambda>d'.
              Inr (Some (cd_general res), Some d'))))"

text \<open>\<open>__iter__\<close>.\<close>

definition fr_iter :: "regex_engine \<Rightarrow> filtered_report \<Rightarrow> any_file list" where
  "fr_iter rx fr =
     map (\<lambda>f. if no_flags fr then Whole f else Part (FilteredReportFile f (session_ids_to_include fr)))
       (filter (\<lambda>f. should_include rx fr (rf_name f)) (r_file_list (fr_report fr)))"

section \<open>Filtering a report\<close>

datatype any_report = Full report | Filtered filtered_report

definition r_filter :: "report \<Rightarrow> string list option \<Rightarrow> string list option \<Rightarrow> any_report" where
  "r_filter r paths flags =
     (if paths = None \<and> flags = None then Full r else Filtered (FilteredReport r paths flags))"

definition any_report_total :: "regex_engine \<Rightarrow> any_report \<Rightarrow> report_totals res" where
  "any_report_total rx a = (case a of Full r \<Rightarrow> r_total r | Filtered fr \<Rightarrow> fr_total rx fr)"

text \<open>\<open>Flag.report\<close> and \<open>Flag.totals\<close> of a flag that has no totals of its own.\<close>

definition flag_report :: "report \<Rightarrow> string \<Rightarrow> any_report" where
  "flag_report r name = r_filter r None (Some [name])"

definition flag_totals :: "regex_engine \<Rightarrow> report \<Rightarrow> string \<Rightarrow> report_totals res" where
  "flag_totals rx r name = any_report_total rx (flag_report r name)"

definition flag_apply_diff :: "regex_engine \<Rightarrow> report \<Rightarrow> string \<Rightarrow> raw_diff option \<Rightarrow> report_totals option res" where
  "flag_apply_diff rx r name diff =
     (case flag_report r name of
        Full r' \<Rightarrow> map_res fst (r_apply_diff r' diff False)
      | Filtered fr \<Rightarrow> map_res fst (fr_apply_diff rx fr diff False))"

section \<open>The protocols\<close>

interpretation ff: abstract_report_file ff_get ff_calculate_diff
  by unfold_locales (simp_all add: ff_get_def rf_get_def ff_calculate_diff_def)

lemma any_get_simps [simp]: "any_get (Whole f) = rf_get f" "any_get (Part g) = ff_get g"
  by (simp_all add: any_get_def fun_eq_iff)

interpretation fr: abstract_report any_get any_calculate_diff "fr_get rx" any_bool "fr_calculate_diff rx" for rx
proof unfold_locales
  fix n :: int and a segs
  show "n < 1 \<Longrightarrow> any_get a n = Inl ValueError"
    by (cases a) (simp_all add: rf.get_range ff.get_range)
  show "any_calculate_diff a segs = calculate_file_diff (any_get a) segs"
    by (cases a) (simp_all add: any_calculate_diff_def rf.diff_from_get ff.diff_from_get)
qed (simp add: fr_calculate_diff_def)

section \<open>Lines that count hits\<close>

definition best_line :: "report_line \<Rightarrow> bool" where
  "best_line l \<longleftrightarrow> rl_sessions l \<noteq> [] \<and> (\<forall>s \<in> set (rl_sessions l). counts_hits s) \<and>
     rl_coverage l = CovInt (Max (hits_of ` set (rl_sessions l)))"

definition included :: "int set \<Rightarrow> report_line \<Rightarrow> line_session list" where
  "included ids l = filter (\<lambda>s. ls_id s \<in> ids) (rl_sessions l)"

lemma merge_all_hits:
  assumes "\<forall>s \<in> set ss. counts_hits s" "ss \<noteq> []"
  shows "merge_all (map ls_coverage ss) bm = Inr (CovInt (Max (hits_of ` set ss)))"
proof -
  have "map ls_coverage ss = map CovInt (map hits_of ss)" using assms(1) by (auto simp: counts_hits_def)
  moreover have "merge_all (map CovInt (map hits_of ss)) bm = Inr (CovInt (Max (set (map hits_of ss))))"
    using assms by (intro merge_all_ints) (auto simp: counts_hits_def)
  ultimately show ?thesis by (simp del: map_map)
qed

lemma complexity_hits: "\<forall>s \<in> set ss. counts_hits s \<Longrightarrow> ss \<noteq> [] \<Longrightarrow> get_complexity_from_sessions ss = Inr None"
  by (cases ss) (auto simp: get_complexity_from_sessions_def counts_hits_def)

lemma line_modifier_hits:
  assumes "\<forall>s \<in> set (rl_sessions l). counts_hits s"
  shows "line_modifier ids l =
    Inr (if included ids l = [] then None
         else Some (l\<lparr>rl_complexity := None, rl_sessions := included ids l,
           rl_coverage := CovInt (Max (hits_of ` set (included ids l)))\<rparr>))"
proof -
  have "\<forall>s \<in> set (included ids l). counts_hits s" using assms by (simp add: included_def)
  then show ?thesis
    by (auto simp: line_modifier_def Let_def merge_all_hits complexity_hits included_def [symmetric])
qed

lemma line_modifier_best:
  assumes "best_line l" "line_modifier ids l = Inr (Some m)"
  shows "best_line m \<and> set (rl_sessions m) \<subseteq> set (rl_sessions l) \<and>
    (\<exists>a b. rl_coverage m = CovInt a \<and> rl_coverage l = CovInt b \<and> 0 \<le> a \<and> a \<le> b)"
proof -
  have l: "\<forall>s \<in> set (rl_sessions l). counts_hits s" "rl_sessions l \<noteq> []"
    "rl_coverage l = CovInt (Max (hits_of ` set (rl_sessions l)))" using assms(1) by (auto simp: best_line_def)
  from line_modifier_hits [OF l(1), of ids] assms(2) have m: "included ids l \<noteq> []"
    "m = l\<lparr>rl_complexity := None, rl_sessions := included ids l, rl_coverage := CovInt (Max (hits_of ` set (included ids l)))\<rparr>"
    by (auto split: if_splits)
  have sub: "set (included ids l) \<subseteq> set (rl_sessions l)" by (auto simp: included_def)
  then have "Max (hits_of ` set (included ids l)) \<le> Max (hits_of ` set (rl_sessions l))"
    using m(1) by (intro Max_mono) auto
  moreover have "0 \<le> Max (hits_of ` set (included ids l))"
    using m(1) sub l(1) by (fastforce simp: counts_hits_def Max_ge_iff dest: hd_in_set)
  ultimately show ?thesis using m sub l by (auto simp: best_line_def)
qed

lemma counted_int:
  "rl_coverage l = CovInt h \<Longrightarrow> 0 \<le> h \<Longrightarrow> counted_as LT_hit l = (0 < h) \<and> counted_as LT_miss l = (h = 0) \<and> \<not> counted_as LT_partial l"
  by (auto simp: counted_as_def line_type_def)

lemma best_coverage: "best_line l \<Longrightarrow> \<exists>h \<ge> 0. rl_coverage l = CovInt h"
  by (cases "rl_sessions l") (auto simp: best_line_def counts_hits_def Max_ge_iff)

lemma filtered_counts:
  assumes "\<forall>l \<in> set ls. best_line l" "traverse (line_modifier ids) ls = Inr ms"
  shows "length (filter (counted_as LT_hit) (somes ms)) \<le> length (filter (counted_as LT_hit) ls) \<and>
    length (somes ms) \<le> length ls \<and> (\<forall>m \<in> set (somes ms). best_line m)"
  using assms
proof (induction ls arbitrary: ms)
  case Nil
  then show ?case by simp
next
  case (Cons l ls)
  then obtain m ms' where m: "line_modifier ids l = Inr m" "traverse (line_modifier ids) ls = Inr ms'" "ms = m # ms'" by auto
  note IH = Cons.IH [OF _ m(2)]
  show ?case
  proof (cases m)
    case None
    with IH Cons.prems(1) m(3) show ?thesis by auto
  next
    case (Some x)
    have "best_line l" using Cons.prems(1) by simp
    from line_modifier_best [OF this m(1) [unfolded Some]]
    have x: "best_line x" "counted_as LT_hit x \<Longrightarrow> counted_as LT_hit l" by (auto dest!: counted_int)
    with IH Cons.prems(1) m(3) Some show ?thesis by auto
  qed
qed

lemma best_total:
  assumes "\<forall>l \<in> set ls. best_line l" "get_line_totals ls = Inr t"
  shows "t_hits t = int (length (filter (counted_as LT_hit) ls)) \<and> t_lines t = int (length ls)"
proof -
  from assms(2) obtain k where k: "counts_of ls = Inr k" "t = totals_of_counts k" by (auto simp: get_line_totals_counts)
  have "length (filter (counted_as LT_hit) ls) + length (filter (counted_as LT_miss) ls) + length (filter (counted_as LT_partial) ls) = length ls"
    using assms(1)
  proof (induction ls)
    case Nil
    then show ?case by simp
  next
    case (Cons l ls)
    then obtain h where h: "rl_coverage l = CovInt h" "0 \<le> h" using best_coverage by fastforce
    from counted_int [OF h] h(2) Cons show ?case by auto
  qed
  with counts_of_spec [OF k(1)] k(2) show ?thesis by simp
qed

lemma ff_items_lines:
  assumes "ff_items (FilteredReportFile f ids) = Inr its"
  shows "\<exists>ms. traverse (line_modifier ids) (somes (rf_lines f)) = Inr ms \<and> map snd its = somes ms"
proof -
  have "\<exists>ms. traverse (line_modifier ids) (map snd items) = Inr ms \<and>
      map snd (concat (map (\<lambda>(n, l). case l of None \<Rightarrow> [] | Some x \<Rightarrow> [(n, x)]) ls)) = somes ms"
    if "traverse (\<lambda>(n, l). map_res (Pair n) (line_modifier ids l)) items = Inr ls" for items ls
    using that
  proof (induction items arbitrary: ls)
    case Nil
    then show ?case by simp
  next
    case (Cons it items)
    obtain n l where it: "it = (n, l)" by (cases it)
    from Cons.prems obtain m ls' where m: "line_modifier ids l = Inr m" "ls = (n, m) # ls'"
      "traverse (\<lambda>(n, l). map_res (Pair n) (line_modifier ids l)) items = Inr ls'" by (auto simp: it)
    from Cons.IH [OF m(3)] m(1,2) it show ?case by (cases m) auto
  qed
  from this [of "rf_items f"] assms show ?thesis
    by (auto simp: ff_items_def FilteredReportFile_def rf_items_def)
qed

lemma ff_total_le:
  assumes "\<forall>l \<in> set (somes (rf_lines f)). best_line l" "caches_ok f"
    and "ff_total (FilteredReportFile f ids) = Inr t" "rf_total f = Inr u"
  shows "0 \<le> t_hits t \<and> t_hits t \<le> t_hits u \<and> 0 \<le> t_lines t \<and> t_lines t \<le> t_lines u"
proof -
  from assms(3) obtain its where its: "ff_items (FilteredReportFile f ids) = Inr its" "get_line_totals (map snd its) = Inr t"
    by (auto simp: ff_total_def FilteredReportFile_def)
  from ff_items_lines [OF its(1)] obtain ms where ms: "traverse (line_modifier ids) (somes (rf_lines f)) = Inr ms" "map snd its = somes ms"
    by blast
  note c = filtered_counts [OF assms(1) ms(1)]
  have "get_line_totals (somes (rf_lines f)) = Inr u" using assms(2,4) by (simp add: rf_total_cached)
  from best_total [OF assms(1) this] best_total [of "somes ms" t] c its(2) ms(2) show ?thesis by auto
qed

lemma best_total_nonneg:
  assumes "\<forall>l \<in> set (somes (rf_lines f)). best_line l" "caches_ok f" "rf_total f = Inr u"
  shows "0 \<le> t_hits u \<and> 0 \<le> t_lines u"
  using best_total [OF assms(1)] assms(2,3) by (simp add: rf_total_cached)

lemma sum_filtered_le:
  fixes a :: "'t \<Rightarrow> int"
  assumes "traverse g (filter P xs) = Inr ts" "traverse h xs = Inr us"
    and "\<And>x t u. x \<in> set xs \<Longrightarrow> P x \<Longrightarrow> g x = Inr t \<Longrightarrow> h x = Inr u \<Longrightarrow> a t \<le> a u"
    and "\<And>x u. x \<in> set xs \<Longrightarrow> h x = Inr u \<Longrightarrow> 0 \<le> a u"
  shows "sum_list (map a (filter Q ts)) \<le> sum_list (map a us)"
  using assms
proof (induction xs arbitrary: ts us)
  case Nil
  then show ?case by simp
next
  case (Cons x xs)
  from Cons.prems(2) obtain u us' where u: "h x = Inr u" "traverse h xs = Inr us'" "us = u # us'" by auto
  have nn: "0 \<le> a u" using Cons.prems(4) [of x u] u(1) by simp
  show ?case
  proof (cases "P x")
    case True
    with Cons.prems(1) obtain t ts' where t: "g x = Inr t" "traverse g (filter P xs) = Inr ts'" "ts = t # ts'" by auto
    have "sum_list (map a (filter Q ts')) \<le> sum_list (map a us')"
      by (rule Cons.IH [OF t(2) u(2) Cons.prems(3,4)]) simp_all
    moreover have "a t \<le> a u" using Cons.prems(3) [of x t u] True t(1) u(1) by simp
    ultimately show ?thesis using nn t(3) u(3) by simp
  next
    case False
    have "sum_list (map a (filter Q ts)) \<le> sum_list (map a us')"
      by (rule Cons.IH [OF _ u(2) Cons.prems(3,4)]) (use Cons.prems(1) False in simp_all)
    then show ?thesis using nn u(3) by simp
  qed
qed


lemma fr_iter_totals_pairs:
  assumes "wf_report r"
  shows "fr_iter_totals rx (FilteredReport r ps fs) =
    map_res (filter (\<lambda>t. t_lines t > 0))
      (traverse (\<lambda>(n, f). any_total (if no_flags (FilteredReport r ps fs) then Whole f
          else Part (FilteredReportFile f (session_ids_to_include (FilteredReport r ps fs)))))
        (filter (\<lambda>p. matcher_match rx ps (fst p)) (r_files r)))"
proof -
  let ?fr = "FilteredReport r ps fs"
  have rep: "fr_report ?fr = r" "fr_patterns ?fr = ps" by (simp_all add: FilteredReport_def)
  have "traverse (\<lambda>name. case fr_get rx ?fr name of None \<Rightarrow> Inl AttributeError | Some a \<Rightarrow> any_total a) (fr_files rx ?fr)
      = traverse (\<lambda>p. case fr_get rx ?fr (fst p) of None \<Rightarrow> Inl AttributeError | Some a \<Rightarrow> any_total a)
          (filter (\<lambda>p. matcher_match rx ps (fst p)) (r_files r))"
    by (simp add: fr_files_def should_include_def rep dict_keys_def filter_map traverse_map comp_def case_prod_beta)
  also have "\<dots> = traverse (\<lambda>(n, f). any_total (if no_flags ?fr then Whole f
          else Part (FilteredReportFile f (session_ids_to_include ?fr))))
        (filter (\<lambda>p. matcher_match rx ps (fst p)) (r_files r))"
  proof (rule traverse_cong)
    fix p assume p: "p \<in> set (filter (\<lambda>p. matcher_match rx ps (fst p)) (r_files r))"
    obtain n f where nf: "p = (n, f)" by (cases p)
    have "dict_get (r_files r) n = Some f" using p nf assms by (simp add: wf_report_def dict_get_iff)
    with p nf show "(case fr_get rx ?fr (fst p) of None \<Rightarrow> Inl AttributeError | Some a \<Rightarrow> any_total a)
      = (case p of (n, f) \<Rightarrow> any_total (if no_flags ?fr then Whole f
          else Part (FilteredReportFile f (session_ids_to_include ?fr))))"
      by (simp add: fr_get_def should_include_def rep r_get_def)
  qed simp
  finally show ?thesis by (simp add: fr_iter_totals_def)
qed

section \<open>Properties\<close>




text \<open>
  Filtering by sessions and deleting the other sessions leave the same line: when the kept and the
  deleted ids split the sessions of a line, both give nothing, or lines that differ in the
  complexity only (deleting keeps the complexity of the whole line).
\<close>

theorem filter_agrees_with_delete:
  assumes "\<forall>s \<in> set (rl_sessions l). ls_id s \<in> kept \<longleftrightarrow> ls_id s \<notin> deleted"
    and "line_modifier kept l = Inr a" "line_without_multiple_sessions l deleted = Inr b"
  shows "a = map_option (\<lambda>x. x\<lparr>rl_complexity := rl_complexity (the a)\<rparr>) b \<and> (a = None \<longleftrightarrow> b = None)"
proof -
  have "filter (\<lambda>s. ls_id s \<in> kept) (rl_sessions l) = filter (\<lambda>s. ls_id s \<notin> deleted) (rl_sessions l)"
    using assms(1) by (intro filter_cong) auto
  with assms(2,3) show ?thesis
    by (auto simp: line_modifier_def line_without_multiple_sessions_def Let_def split: if_splits)
qed

theorem filter_agrees_with_delete_witness:
  "\<exists>a. line_modifier {1} (ReportLine_create (CovInt 4) None [LineSession 0 (CovInt 4) None None None, LineSession 1 (CovInt 2) None None None] None) = Inr (Some a) \<and>
     line_without_multiple_sessions (ReportLine_create (CovInt 4) None [LineSession 0 (CovInt 4) None None None, LineSession 1 (CovInt 2) None None None] None) {0} = Inr (Some a)"
proof -
  let ?l = "ReportLine_create (CovInt 4) None [LineSession 0 (CovInt 4) None None None, LineSession 1 (CovInt 2) None None None] None"
  obtain a where a: "line_modifier {1} ?l = Inr (Some a)" "rl_complexity a = None"
    by (simp add: line_modifier_def merge_all_def get_complexity_from_sessions_def Let_def)
  obtain b where b: "line_without_multiple_sessions ?l {0} = Inr (Some b)" "rl_complexity b = None"
    by (simp add: line_without_multiple_sessions_def merge_all_def Let_def)
  have "\<forall>s \<in> set (rl_sessions ?l). ls_id s \<in> {1} \<longleftrightarrow> ls_id s \<notin> {0}" by simp
  from filter_agrees_with_delete [OF this a(1) b(1)] a b show ?thesis by auto
qed

text \<open>
  A filter that includes every session of a line can still show less than the line: the filter merges
  the sessions' branch strings without their missed branches. Here two sessions cover one half of
  the branches each; the line is fully covered, and partial in the filtered report.
\<close>

theorem filter_all_sessions_loses_branches:
  "get_coverage_from_sessions [LineSession 0 (CovStr ''1/2'') (Some [BrInt 1]) None None, LineSession 1 (CovStr ''1/2'') (Some [BrInt 2]) None None]
     = Inr (CovStr ''2/2'') \<and>
   map_res (map_option rl_coverage) (line_modifier {0, 1} (ReportLine_create (CovStr ''2/2'') None
     [LineSession 0 (CovStr ''1/2'') (Some [BrInt 1]) None None, LineSession 1 (CovStr ''1/2'') (Some [BrInt 2]) None None] None))
     = Inr (Some (CovStr ''1/2''))"
  by code_simp

end
