(* ===== verification/User_Yaml.thy ===== *)
theory User_Yaml
  imports Filtered
begin

text \<open>
  Configuration (libs/shared/shared/yaml/user_yaml.py, shared/components, shared/helpers/yaml.py
  and the reader apps/worker/services/yaml/reader.py): access to YAML values, flags and
  components, and the layering of the site's, the owner's and the repository's or commit's YAML.
  The installation's configuration (\<open>get_config\<close>) is an argument.
\<close>

section \<open>Access\<close>

text \<open>\<open>d.get(key, default)\<close> and \<open>d[key]\<close>.\<close>

definition get_or :: "json \<Rightarrow> string \<Rightarrow> json \<Rightarrow> json res" where
  "get_or d k dflt =
     (case d of JObj kvs \<Rightarrow> Inr (case dict_get kvs k of None \<Rightarrow> dflt | Some v \<Rightarrow> v) | _ \<Rightarrow> Inl AttributeError)"

definition get_item :: "json \<Rightarrow> string \<Rightarrow> json res" where
  "get_item d k =
     (case d of
        JObj kvs \<Rightarrow> (case dict_get kvs k of None \<Rightarrow> Inl KeyError | Some v \<Rightarrow> Inr v)
      | _ \<Rightarrow> Inl TypeError)"

text \<open>Iterating over a value: a list's elements (other iterables do not occur as lists of flags).\<close>

definition iter_list :: "json \<Rightarrow> json list res" where
  "iter_list v = (case v of JList xs \<Rightarrow> Inr xs | _ \<Rightarrow> Inl TypeError)"

fun walk_keys :: "json \<Rightarrow> string list \<Rightarrow> json res" where
  "walk_keys d [] = Inr d"
| "walk_keys d (k # ks) = bind_res (get_item d k) (\<lambda>v. walk_keys v ks)"

text \<open>
  \<open>UserYaml.read_yaml_field\<close> does not catch a \<open>TypeError\<close> (a key of something that is no
  dictionary); the reader of the worker, and \<open>walk\<close> of the helpers, do.
\<close>

definition yaml_read_field :: "json \<Rightarrow> string list \<Rightarrow> json \<Rightarrow> json res" where
  "yaml_read_field d keys dflt =
     (case walk_keys d keys of
        Inr v \<Rightarrow> Inr v
      | Inl e \<Rightarrow> if e = AttributeError \<or> e = KeyError then Inr dflt else Inl e)"

definition read_yaml_field :: "json \<Rightarrow> string list \<Rightarrow> json \<Rightarrow> json" where
  "read_yaml_field d keys dflt = (case walk_keys d keys of Inr v \<Rightarrow> v | Inl _ \<Rightarrow> dflt)"

section \<open>Flags and components\<close>

text \<open>The individual flag of a name that says something about carrying forward.\<close>

fun individual_carryforward :: "string \<Rightarrow> json list \<Rightarrow> json option res" where
  "individual_carryforward name [] = Inr None"
| "individual_carryforward name (f # fs) =
     bind_res (get_item f ''name'') (\<lambda>n.
       if n = JStr name then
         bind_res (get_or f ''carryforward'' JNull) (\<lambda>c.
           if c \<noteq> JNull then Inr (Some c) else individual_carryforward name fs)
       else individual_carryforward name fs)"

definition flag_has_carryforward :: "json \<Rightarrow> string \<Rightarrow> json res" where
  "flag_has_carryforward yaml name =
     bind_res (get_or yaml ''flags'' (JObj [])) (\<lambda>flags.
     bind_res (get_or flags name JNull) (\<lambda>legacy.
       if j_truthy legacy then get_or legacy ''carryforward'' JNull
       else
         bind_res (get_or yaml ''flag_management'' (JObj [])) (\<lambda>fm.
         bind_res (bind_res (get_or fm ''individual_flags'' (JList [])) iter_list) (\<lambda>fs.
         bind_res (individual_carryforward name fs) (\<lambda>c.
           case c of
             Some v \<Rightarrow> Inr v
           | None \<Rightarrow>
               bind_res (get_or fm ''default_rules'' (JObj [])) (\<lambda>rules.
                 get_or rules ''carryforward'' (JBool False)))))))"

definition any_carryforward :: "json list \<Rightarrow> bool res" where
  "any_carryforward fs =
     foldl_res (\<lambda>b f. if b then Inr True else map_res j_truthy (get_or f ''carryforward'' JNull)) False fs"

definition obj_values :: "json \<Rightarrow> json list res" where
  "obj_values v = (case v of JObj kvs \<Rightarrow> Inr (map snd kvs) | _ \<Rightarrow> Inl AttributeError)"

definition has_any_carryforward :: "json \<Rightarrow> bool res" where
  "has_any_carryforward yaml =
     bind_res (get_or yaml ''flags'' JNull) (\<lambda>flags.
     bind_res (if j_truthy flags then bind_res (obj_values flags) any_carryforward else Inr False) (\<lambda>b.
       if b then Inr True
       else
         bind_res (get_or yaml ''flag_management'' (JObj [])) (\<lambda>fm.
         bind_res (get_or fm ''default_rules'' (JObj [])) (\<lambda>rules.
         bind_res (get_or rules ''carryforward'' JNull) (\<lambda>c.
           if j_truthy c then Inr True
           else bind_res (bind_res (get_or fm ''individual_flags'' (JList [])) iter_list) any_carryforward)))))"

text \<open>\<open>d.update(e)\<close> on dictionaries.\<close>

definition obj_update :: "(string, json) dict \<Rightarrow> (string, json) dict \<Rightarrow> (string, json) dict" where
  "obj_update d e = foldl (\<lambda>d p. dict_set d (fst p) (snd p)) d e"

fun find_named :: "string \<Rightarrow> json list \<Rightarrow> json option res" where
  "find_named name [] = Inr None"
| "find_named name (f # fs) =
     bind_res (get_item f ''name'') (\<lambda>n. if n = JStr name then Inr (Some f) else find_named name fs)"

definition merge_rules :: "json \<Rightarrow> json \<Rightarrow> json res" where
  "merge_rules general specific =
     (case (general, specific) of
        (JObj g, JObj s) \<Rightarrow> Inr (JObj (obj_update g s))
      | _ \<Rightarrow> Inl AttributeError)"

definition get_flag_configuration :: "json \<Rightarrow> string \<Rightarrow> json option res" where
  "get_flag_configuration yaml name =
     bind_res (get_or yaml ''flags'' (JObj [])) (\<lambda>old.
       case get_item old name of
         Inr v \<Rightarrow> Inr (Some v)
       | Inl e \<Rightarrow>
           if e \<noteq> KeyError then Inl e
           else
             bind_res (get_or yaml ''flag_management'' JNull) (\<lambda>fm.
               if fm = JNull then Inr None
               else
                 bind_res (get_or fm ''default_rules'' (JObj [])) (\<lambda>general.
                 bind_res (bind_res (get_or fm ''individual_flags'' (JList [])) iter_list) (\<lambda>fs.
                 bind_res (find_named name fs) (\<lambda>f.
                   case f of
                     Some s \<Rightarrow> map_res Some (merge_rules general s)
                   | None \<Rightarrow> Inr (Some general))))))"

text \<open>The patterns of a list of paths; a list that is no list of strings is an error of the model.\<close>

fun str_of :: "json \<Rightarrow> string res" where
  "str_of (JStr s) = Inr s"
| "str_of _ = Inl TypeError"

fun paths_from_flags :: "json \<Rightarrow> string list \<Rightarrow> string list \<Rightarrow> string list res" where
  "paths_from_flags yaml [] acc = Inr (remdups acc)"
| "paths_from_flags yaml (f # fs) acc =
     bind_res (get_flag_configuration yaml f) (\<lambda>c.
       case c of
         None \<Rightarrow> paths_from_flags yaml fs acc
       | Some conf \<Rightarrow>
           bind_res (get_or conf ''paths'' JNull) (\<lambda>p.
             if p = JNull then Inr []
             else bind_res (bind_res (iter_list p) (traverse str_of)) (\<lambda>ps. paths_from_flags yaml fs (acc @ ps))))"

definition get_paths_from_flags :: "json \<Rightarrow> string list option \<Rightarrow> string list res" where
  "get_paths_from_flags yaml flags =
     (case flags of None \<Rightarrow> Inr [] | Some fs \<Rightarrow> paths_from_flags yaml fs [])"

record component =
  co_id :: json
  co_name :: json
  co_flag_regexes :: json
  co_paths :: json
  co_statuses :: json

definition component_from_dict :: "(string, json) dict \<Rightarrow> component" where
  "component_from_dict d =
     (let get = (\<lambda>k v. case dict_get d k of None \<Rightarrow> v | Some x \<Rightarrow> x)
      in \<lparr>co_id = get ''component_id'' (JStr []), co_name = get ''name'' (JStr []),
          co_flag_regexes = get ''flag_regexes'' (JList []), co_paths = get ''paths'' (JList []),
          co_statuses = get ''statuses'' (JList [])\<rparr>)"

definition component_display_name :: "component \<Rightarrow> json" where
  "component_display_name c = j_or (co_name c) (j_or (co_id c) (JStr ''default_component''))"

definition component_matching_flags :: "regex_engine \<Rightarrow> string list \<Rightarrow> string list \<Rightarrow> string set" where
  "component_matching_flags rx regexes flags = {f \<in> set flags. \<exists>p \<in> set regexes. rx p f}"

definition one_component :: "json \<Rightarrow> json \<Rightarrow> component res" where
  "one_component rules c =
     (case (rules, c) of
        (JObj d, JObj e) \<Rightarrow> Inr (component_from_dict (obj_update d e))
      | _ \<Rightarrow> Inl TypeError)"

definition get_components :: "json \<Rightarrow> component list res" where
  "get_components yaml =
     bind_res (yaml_read_field yaml [''component_management''] JNull) (\<lambda>defs.
       if \<not> j_truthy defs then Inr []
       else
         bind_res (get_or defs ''default_rules'' (JObj [])) (\<lambda>rules.
         bind_res (bind_res (get_or defs ''individual_components'' (JList [])) iter_list) (\<lambda>cs.
           traverse (one_component rules) cs)))"

text \<open>\<open>default_if_true\<close>: the named settings of a status or notification section.\<close>

definition setting_of :: "string \<times> json \<Rightarrow> (string \<times> json) list" where
  "setting_of entry =
     (case entry of (key, data) \<Rightarrow>
        (case data of
           JBool b \<Rightarrow> if b then [(key, JObj [])] else []
         | JObj kvs \<Rightarrow> if dict_get kvs ''enabled'' = Some (JBool False) then [] else [(key, data)]
         | _ \<Rightarrow> []))"

definition default_if_true :: "json \<Rightarrow> (string \<times> json) list" where
  "default_if_true value =
     (case value of
        JBool True \<Rightarrow> [(''default'', JObj [])]
      | JObj kvs \<Rightarrow> concat (map setting_of kvs)
      | _ \<Rightarrow> [])"

section \<open>Layers\<close>

lemma size_json_member: "(k, v) \<in> set kvs \<Longrightarrow> size v < Suc (size_list (size_prod (\<lambda>_. 0) size) kvs)"
  by (induction kvs) auto

function merge_yamls :: "json \<Rightarrow> json \<Rightarrow> json" where
  "merge_yamls d1 d2 =
     (case (d1, d2) of
        (JObj a, JObj b) \<Rightarrow>
          JObj (obj_update a (map (\<lambda>(k, v).
            (k, merge_yamls (case dict_get a k of None \<Rightarrow> JObj [] | Some x \<Rightarrow> x) v)) b))
      | _ \<Rightarrow> d2)"
  by pat_completeness auto
termination
  by (relation "measure (\<lambda>(d1, d2). size d2)") (auto simp: size_json_member)

declare merge_yamls.simps [simp del]

text \<open>The additional YAML that a share of the owners gets: \<open>percentage\<close> and \<open>override\<close> of each entry.\<close>

fun additional_yaml :: "int \<Rightarrow> int \<Rightarrow> (int \<times> json) list \<Rightarrow> json" where
  "additional_yaml key acc [] = JObj []"
| "additional_yaml key acc ((pct, override) # rest) =
     (if key < acc + pct then override else additional_yaml key (acc + pct) rest)"

definition get_possible_additional_user_yaml :: "(int \<times> json) list \<Rightarrow> int \<Rightarrow> json" where
  "get_possible_additional_user_yaml yamls ownerid = additional_yaml (ownerid mod 100) 0 yamls"

record install_config =
  ic_site :: json
  ic_additional :: "(int \<times> json) list"

text \<open>
  The defaults for owners onboarded after 2024-04-30 (\<open>PATCH_CENTRIC_DEFAULT_CONFIG\<close>) replace whole
  sections of the site's configuration; the date is a number of seconds.
\<close>

definition LEGACY_DEFAULT_SITE_CONFIG :: "(string, json) dict" where
  "LEGACY_DEFAULT_SITE_CONFIG =
     [(''codecov'', JObj [(''require_ci_to_pass'', JBool True), (''notify'', JObj [(''wait_for_ci'', JBool True)])]),
      (''coverage'', JObj [(''precision'', JInt 2), (''round'', JStr ''down''), (''range'', JStr ''60...80''),
         (''status'', JObj [(''project'', JBool True), (''patch'', JBool True), (''changes'', JBool False),
            (''default_rules'', JObj [(''flag_coverage_not_uploaded_behavior'', JStr ''include'')])])]),
      (''comment'', JObj [(''layout'', JStr ''reach,diff,flags,tree,reach''), (''behavior'', JStr ''default''),
         (''show_carryforward_flags'', JBool False)]),
      (''slack_app'', JBool True)]"

definition PATCH_CENTRIC_DEFAULT_CONFIG :: "(string, json) dict" where
  "PATCH_CENTRIC_DEFAULT_CONFIG =
     obj_update LEGACY_DEFAULT_SITE_CONFIG
       [(''coverage'', JObj [(''precision'', JInt 2), (''round'', JStr ''down''), (''range'', JList [JFloat 60, JFloat 80]),
           (''status'', JObj [(''project'', JBool False), (''patch'', JBool True), (''changes'', JBool False),
              (''default_rules'', JObj [(''flag_coverage_not_uploaded_behavior'', JStr ''include'')])])]),
        (''comment'', JObj [(''layout'', JStr ''condensed_header, flags, tree, component''), (''hide_project_coverage'', JBool True),
           (''behavior'', JStr ''default''), (''show_carryforward_flags'', JBool False)])]"

definition PATCH_CENTRIC_DEFAULT_TIME_START :: int where
  "PATCH_CENTRIC_DEFAULT_TIME_START = 1714435200"

definition fix_yaml_defaults :: "json \<Rightarrow> int \<Rightarrow> json res" where
  "fix_yaml_defaults current onboarding =
     (if onboarding > PATCH_CENTRIC_DEFAULT_TIME_START then
        (case current of JObj d \<Rightarrow> Inr (JObj (obj_update d PATCH_CENTRIC_DEFAULT_CONFIG)) | _ \<Rightarrow> Inl AttributeError)
      else Inr current)"

record owner_context =
  oc_ownerid :: "int option"
  oc_onboarding :: "int option"

definition layer :: "json \<Rightarrow> json option \<Rightarrow> json" where
  "layer base over = (case over of None \<Rightarrow> base | Some y \<Rightarrow> merge_yamls base y)"

definition get_final_yaml ::
  "install_config \<Rightarrow> json option \<Rightarrow> json option \<Rightarrow> json option \<Rightarrow> int option \<Rightarrow> owner_context option \<Rightarrow> json res" where
  "get_final_yaml conf owner_yaml repo_yaml commit_yaml ownerid context =
     (let oid = (case ownerid of Some i \<Rightarrow> Some i | None \<Rightarrow> (case context of None \<Rightarrow> None | Some c \<Rightarrow> oc_ownerid c));
          base = (case oid of
              Some i \<Rightarrow> if ic_additional conf \<noteq> []
                then merge_yamls (ic_site conf) (get_possible_additional_user_yaml (ic_additional conf) i)
                else ic_site conf
            | None \<Rightarrow> ic_site conf)
      in bind_res (case context of
             None \<Rightarrow> Inr base
           | Some c \<Rightarrow> (case oc_onboarding c of None \<Rightarrow> Inr base | Some d \<Rightarrow> fix_yaml_defaults base d)) (\<lambda>dflt.
           let owned = layer dflt owner_yaml
           in Inr (case commit_yaml of Some y \<Rightarrow> merge_yamls owned y | None \<Rightarrow> layer owned repo_yaml)))"

section \<open>Layering\<close>

fun wf_json :: "json \<Rightarrow> bool" where
  "wf_json (JObj kvs) \<longleftrightarrow> wf_dict kvs \<and> (\<forall>p \<in> set kvs. wf_json (snd p))"
| "wf_json (JList xs) \<longleftrightarrow> (\<forall>x \<in> set xs. wf_json x)"
| "wf_json _ \<longleftrightarrow> True"

fun ylookup :: "json \<Rightarrow> string list \<Rightarrow> json option" where
  "ylookup d [] = Some d"
| "ylookup (JObj kvs) (k # ks) = (case dict_get kvs k of None \<Rightarrow> None | Some v \<Rightarrow> ylookup v ks)"
| "ylookup _ (k # ks) = None"

text \<open>A YAML is silent on a path: it is a dictionary without the next key, all along the path.\<close>

fun silent :: "json \<Rightarrow> string list \<Rightarrow> bool" where
  "silent (JObj kvs) (k # ks) = (case dict_get kvs k of None \<Rightarrow> True | Some v \<Rightarrow> silent v ks)"
| "silent _ _ = False"

lemma map_of_rev_wf: "wf_dict d \<Longrightarrow> map_of (rev d) k = dict_get d k"
proof -
  assume wf: "wf_dict d"
  then have "wf_dict (rev d)" by (simp add: wf_dict_def rev_map [symmetric])
  with wf have "dict_get (rev d) k = Some v \<longleftrightarrow> dict_get d k = Some v" for v by (simp add: dict_get_iff)
  then show ?thesis unfolding dict_get_def by (metis option.exhaust)
qed

lemma dict_get_update:
  "wf_dict b \<Longrightarrow> dict_get (obj_update a b) k = (case dict_get b k of None \<Rightarrow> dict_get a k | Some v \<Rightarrow> Some v)"
  by (simp add: obj_update_def pd.get_assigns map_of_rev_wf)

lemma dict_get_merged:
  assumes "wf_dict b"
  shows "dict_get (obj_update a (map (\<lambda>(k, v). (k, f k v)) b)) k =
    (case dict_get b k of None \<Rightarrow> dict_get a k | Some v \<Rightarrow> Some (f k v))"
proof -
  have "wf_dict (map (\<lambda>(k, v). (k, f k v)) b)" using assms by (simp add: wf_dict_def comp_def case_prod_beta)
  moreover have "dict_get (map (\<lambda>(k, v). (k, f k v)) b) k = map_option (f k) (dict_get b k)"
    by (induction b) (auto simp: dict_get_def)
  ultimately show ?thesis by (simp add: dict_get_update split: option.split)
qed

lemma merge_obj:
  "merge_yamls (JObj a) (JObj b) =
     JObj (obj_update a (map (\<lambda>(k, v). (k, merge_yamls (case dict_get a k of None \<Rightarrow> JObj [] | Some x \<Rightarrow> x) v)) b))"
  by (simp add: merge_yamls.simps [of "JObj a" "JObj b"])

lemma merge_other: "\<not> is_obj d1 \<or> \<not> is_obj d2 \<Longrightarrow> merge_yamls d1 d2 = d2"
  by (cases d1; cases d2) (simp_all add: merge_yamls.simps)

lemma wf_json_get: "wf_json (JObj b) \<Longrightarrow> dict_get b k = Some v \<Longrightarrow> wf_json v"
  by (force dest: dict_get_in)

lemma merge_leaf:
  "wf_json d2 \<Longrightarrow> ylookup d2 p = Some v \<Longrightarrow> \<not> is_obj v \<Longrightarrow> ylookup (merge_yamls d1 d2) p = Some v"
proof (induction p arbitrary: d1 d2)
  case Nil
  then show ?case by (simp add: merge_other)
next
  case (Cons k ks)
  then obtain b w where b: "d2 = JObj b" "dict_get b k = Some w" "ylookup w ks = Some v"
    by (cases d2) (auto split: option.splits)
  show ?case
  proof (cases "is_obj d1")
    case True
    then obtain a where a: "d1 = JObj a" by (cases d1) auto
    have "ylookup (merge_yamls (case dict_get a k of None \<Rightarrow> JObj [] | Some x \<Rightarrow> x) w) ks = Some v"
      by (rule Cons.IH) (use Cons.prems b wf_json_get in auto)
    with a b Cons.prems(1) show ?thesis by (simp add: merge_obj dict_get_merged)
  next
    case False
    with Cons.prems show ?thesis by (simp add: merge_other)
  qed
qed

lemma silent_nothing: "silent d q \<Longrightarrow> ylookup d q = None"
  by (induction d q rule: silent.induct) (auto split: option.splits)

lemma merge_silent:
  "wf_json d2 \<Longrightarrow> silent d2 p \<Longrightarrow> ylookup (merge_yamls d1 d2) p = ylookup d1 p"
proof (induction p arbitrary: d1 d2)
  case Nil
  then show ?case by simp
next
  case (Cons k ks)
  then obtain b where b: "d2 = JObj b" by (cases d2) auto
  show ?case
  proof (cases "is_obj d1")
    case False
    then have "ylookup d1 (k # ks) = None" "merge_yamls d1 d2 = d2" by (cases d1; simp add: merge_other)+
    then show ?thesis using silent_nothing [OF Cons.prems(2)] by simp
  next
    case True
    then obtain a where a: "d1 = JObj a" by (cases d1) auto
    show ?thesis
    proof (cases "dict_get b k")
      case None
      with a b Cons.prems(1) show ?thesis by (simp add: merge_obj dict_get_merged)
    next
      case (Some w)
      then have w: "wf_json w" "silent w ks" using Cons.prems b wf_json_get by auto
      note IH = Cons.IH [OF w]
      have "ylookup (JObj []) ks = None" using w(2) by (cases ks) auto
      with a b Some IH Cons.prems(1) show ?thesis by (auto simp: merge_obj dict_get_merged split: option.split)
    qed
  qed
qed

text \<open>
  The layers of configuration that apply to a path, the strongest first: the YAML of the commit or, without one, that of the
  repository; the YAML of the owner; and the defaults. The defaults of owners onboarded after the date stand
  for whole sections; otherwise the additional YAML of the installation comes before that of the site.
\<close>

definition user_layers :: "json option \<Rightarrow> json option \<Rightarrow> json option \<Rightarrow> json list" where
  "user_layers owner_yaml repo_yaml commit_yaml =
     (case commit_yaml of Some y \<Rightarrow> [y] | None \<Rightarrow> (case repo_yaml of Some y \<Rightarrow> [y] | None \<Rightarrow> [])) @
     (case owner_yaml of Some y \<Rightarrow> [y] | None \<Rightarrow> [])"

definition onboarded_late :: "owner_context option \<Rightarrow> bool" where
  "onboarded_late context =
     (case context of
        None \<Rightarrow> False
      | Some c \<Rightarrow> (case oc_onboarding c of None \<Rightarrow> False | Some d \<Rightarrow> d > PATCH_CENTRIC_DEFAULT_TIME_START))"

definition install_layers :: "install_config \<Rightarrow> int option \<Rightarrow> owner_context option \<Rightarrow> json list" where
  "install_layers conf ownerid context =
     (case (case ownerid of Some i \<Rightarrow> Some i | None \<Rightarrow> Option.bind context oc_ownerid) of
        None \<Rightarrow> []
      | Some i \<Rightarrow> if ic_additional conf = [] then [] else [get_possible_additional_user_yaml (ic_additional conf) i]) @
     [ic_site conf]"

definition default_layers :: "install_config \<Rightarrow> int option \<Rightarrow> owner_context option \<Rightarrow> string list \<Rightarrow> json list" where
  "default_layers conf ownerid context p =
     (if onboarded_late context \<and> p \<noteq> [] \<and> hd p \<in> set (dict_keys PATCH_CENTRIC_DEFAULT_CONFIG) then [JObj PATCH_CENTRIC_DEFAULT_CONFIG]
      else install_layers conf ownerid context)"

text \<open>The value of the strongest layer that says something about the path, when that is no dictionary.\<close>

fun decided :: "json list \<Rightarrow> string list \<Rightarrow> json option" where
  "decided [] p = None"
| "decided (y # ys) p =
     (if silent y p then decided ys p else (case ylookup y p of None \<Rightarrow> None | Some v \<Rightarrow> if is_obj v then None else Some v))"

text \<open>A YAML that has the values of a list of layers at a path.\<close>

definition follows :: "json \<Rightarrow> json list \<Rightarrow> string list \<Rightarrow> bool" where
  "follows y ys p \<longleftrightarrow> (\<forall>v. decided ys p = Some v \<longrightarrow> ylookup y p = Some v) \<and> ((\<forall>l \<in> set ys. silent l p) \<longrightarrow> ylookup y p = None)"

lemma follows_single: "follows y [y] p"
  by (auto simp: follows_def silent_nothing split: if_splits option.splits)

lemma follows_merge: "follows y ys p \<Longrightarrow> wf_json d \<Longrightarrow> follows (merge_yamls y d) (d # ys) p"
  by (auto simp: follows_def merge_silent merge_leaf split: if_splits option.splits)

lemma patch_defaults_wf: "wf_dict PATCH_CENTRIC_DEFAULT_CONFIG"
  by code_simp

lemma decided_leaf: "decided ys p = Some v \<Longrightarrow> \<not> is_obj v"
  by (induction ys) (auto split: if_splits option.splits)

lemma follows_replaced:
  assumes "follows (JObj d) ys p"
  shows "follows (JObj (obj_update d PATCH_CENTRIC_DEFAULT_CONFIG))
    (if p \<noteq> [] \<and> hd p \<in> set (dict_keys PATCH_CENTRIC_DEFAULT_CONFIG) then [JObj PATCH_CENTRIC_DEFAULT_CONFIG] else ys) p"
proof (cases p)
  case Nil
  with assms decided_leaf [of ys p] show ?thesis by (fastforce simp: follows_def elim: silent.elims)
next
  case (Cons k ks)
  let ?P = PATCH_CENTRIC_DEFAULT_CONFIG
  have get: "ylookup (JObj (obj_update d ?P)) p = (if k \<in> set (dict_keys ?P) then ylookup (JObj ?P) p else ylookup (JObj d) p)"
    using Cons dict_get_None [of ?P k] by (auto simp: dict_get_update [OF patch_defaults_wf] split: option.splits)
  show ?thesis
  proof (cases "k \<in> set (dict_keys ?P)")
    case True
    with follows_single [of "JObj ?P" p] get Cons show ?thesis by (simp add: follows_def)
  next
    case False
    with assms get Cons show ?thesis by (simp add: follows_def)
  qed
qed

lemma follows_install:
  assumes "\<forall>l \<in> set (install_layers conf oid ctx). wf_json l"
  shows "follows (case (case oid of Some i \<Rightarrow> Some i | None \<Rightarrow> (case ctx of None \<Rightarrow> None | Some c \<Rightarrow> oc_ownerid c)) of
      Some i \<Rightarrow> if ic_additional conf \<noteq> [] then merge_yamls (ic_site conf) (get_possible_additional_user_yaml (ic_additional conf) i)
        else ic_site conf
    | None \<Rightarrow> ic_site conf) (install_layers conf oid ctx) p"
  using assms unfolding install_layers_def
  by (cases oid; cases ctx) (auto intro!: follows_merge follows_single split: option.splits)

section \<open>Properties\<close>

text \<open>
  C23. The layers of configuration, whichever of them are there: a value that the YAML of the commit sets (that of the repository,
  if there is none of the commit) is the value of the final YAML; where it is silent, the owner's value is; where the owner's is
  silent, too, the default for owners onboarded after 2024-04-30 in the sections it has, and otherwise the additional YAML of the
  installation and then that of the site. A path on which all layers are silent is not in the final YAML.
\<close>

theorem final_yaml_precedence:
  assumes "get_final_yaml conf own repo com oid ctx = Inr y"
    and "\<forall>l \<in> set (user_layers own repo com @ install_layers conf oid ctx). wf_json l"
  shows "(\<forall>v. decided (user_layers own repo com @ default_layers conf oid ctx p) p = Some v \<longrightarrow> ylookup y p = Some v) \<and>
    ((\<forall>l \<in> set (user_layers own repo com @ default_layers conf oid ctx p). silent l p) \<longrightarrow> ylookup y p = None)"
proof -
  obtain dflt where d: "follows dflt (default_layers conf oid ctx p) p"
    and y: "y = (case com of Some c \<Rightarrow> merge_yamls (layer dflt own) c | None \<Rightarrow> layer (layer dflt own) repo)"
  proof -
    note base = follows_install [of conf oid ctx p]
    from assms base follows_replaced [of _ "install_layers conf oid ctx" p] that show thesis
      unfolding get_final_yaml_def Let_def
      by (auto simp: default_layers_def onboarded_late_def fix_yaml_defaults_def split: option.splits if_splits json.splits)
  qed
  have "follows (layer dflt own) ((case own of Some o1 \<Rightarrow> [o1] | None \<Rightarrow> []) @ default_layers conf oid ctx p) p"
    using d assms(2) by (auto simp: layer_def user_layers_def intro!: follows_merge split: option.splits)
  then have "follows y (user_layers own repo com @ default_layers conf oid ctx p) p"
    using assms(2) unfolding y by (auto simp: layer_def user_layers_def intro!: follows_merge split: option.splits)
  then show ?thesis by (simp only: follows_def)
qed

theorem final_yaml_precedence_witness:
  "\<exists>y. get_final_yaml \<lparr>ic_site = JObj [(''coverage'', JObj [(''precision'', JInt 2), (''round'', JStr ''down'')])], ic_additional = []\<rparr>
        (Some (JObj [(''coverage'', JObj [(''precision'', JInt 1)])]))
        (Some (JObj [(''coverage'', JObj [(''precision'', JInt 4)])])) None None None = Inr y \<and>
     ylookup y [''coverage'', ''precision''] = Some (JInt 4) \<and> ylookup y [''coverage'', ''round''] = Some (JStr ''down'')"
proof -
  let ?conf = "\<lparr>ic_site = JObj [(''coverage'', JObj [(''precision'', JInt 2), (''round'', JStr ''down'')])], ic_additional = []\<rparr>"
  let ?own = "JObj [(''coverage'', JObj [(''precision'', JInt 1)])]" and ?repo = "JObj [(''coverage'', JObj [(''precision'', JInt 4)])]"
  obtain y where y: "get_final_yaml ?conf (Some ?own) (Some ?repo) None None None = Inr y" by (simp add: get_final_yaml_def)
  have wf: "\<forall>l \<in> set (user_layers (Some ?own) (Some ?repo) None @ install_layers ?conf None None). wf_json l"
    by (simp add: user_layers_def install_layers_def wf_dict_def)
  from final_yaml_precedence [OF y wf, of "[''coverage'', ''precision'']"] final_yaml_precedence [OF y wf, of "[''coverage'', ''round'']"] y
  show ?thesis by (simp add: user_layers_def default_layers_def onboarded_late_def install_layers_def dict_get_def)
qed

end
