(* ===== verification/Path_Fixer.thy ===== *)
theory Path_Fixer
  imports Path_Map User_Yaml
begin

text \<open>
  Fixing the paths of coverage reports (apps/worker/services/path_fixer): the path fixes and the path
  patterns of the user configuration, the resolution against the files of the repository, and the
  fixer that also tries the directory of the report. The regular expression engine and the working
  directory are arguments. Where the code iterates over a set, the model has a list in some order.
\<close>

section \<open>Regular expressions\<close>

text \<open>
  \<open>rx_match p s\<close> is \<open>re.compile(p).match(s)\<close> as a truth value; \<open>rx_search p s\<close> is the first match of
  \<open>p\<close> in \<open>s\<close>: the text before it, its groups, and the text after it; \<open>rx_sub p r s\<close> is
  \<open>re.compile(p, re.I | re.M).sub(r, s)\<close>.
\<close>

record path_env =
  pe_cwd :: "string list"
  rx_match :: regex_engine
  rx_search :: "string \<Rightarrow> string \<Rightarrow> (string \<times> string option list \<times> string) option"
  rx_sub :: "string \<Rightarrow> string \<Rightarrow> string \<Rightarrow> string"

section \<open>Path fixes of the user\<close>

text \<open>
  \<open>re.compile("(?<!\.)\*").sub\<close>: every star that does not follow a dot. In the replacement text
  \<open>[^\/\n]+\<close> the escape \<open>\n\<close> is a line feed and \<open>\/\<close> stays.
\<close>

definition glob_text :: string where
  "glob_text = ''[^'' @ [CHR 0x5C] @ ''/'' @ [newline] @ '']+''"

fun star_to_glob :: "char \<Rightarrow> string \<Rightarrow> string" where
  "star_to_glob prev [] = []"
| "star_to_glob prev (c # s) =
     (if c = CHR ''*'' \<and> prev \<noteq> CHR ''.'' then glob_text else [c]) @ star_to_glob c s"

definition fixpaths_regs :: "string \<Rightarrow> string" where
  "fixpaths_regs fix = lstrip_chars ''/'' (star_to_glob (CHR 0x00) (replace_str ''**'' ''.*'' fix))"

record user_path_fixes =
  upf_prefix :: string
  upf_regex :: "string option"
  upf_replacements :: "string list"

definition UserPathFixes :: "string list \<Rightarrow> user_path_fixes res" where
  "UserPathFixes yaml_fixes =
     (let fixes = remdups yaml_fixes;
          prefixes = filter (\<lambda>f. startswith f ''::'') fixes;
          custom = filter (\<lambda>f. \<not> startswith f ''::'') fixes;
          prefix = join_with (CHR ''/'') (map (\<lambda>p. rstrip_chars ''/'' (drop 2 p)) prefixes)
      in if custom = [] then Inr \<lparr>upf_prefix = prefix, upf_regex = None, upf_replacements = []\<rparr>
         else
           let regex = ''^('' @ join_str '')|('' (map (\<lambda>f. fixpaths_regs (hd (split_str ''::'' f))) custom) @ '')''
           in bind_res (traverse (\<lambda>f. case split_str ''::'' f of _ # r # _ \<Rightarrow> Inr r | _ \<Rightarrow> Inl IndexError) custom) (\<lambda>rs.
                Inr \<lparr>upf_prefix = prefix, upf_regex = Some regex, upf_replacements = rs\<rparr>))"

fun replacement_fn :: "string option list \<Rightarrow> string list \<Rightarrow> string res" where
  "replacement_fn (g # gs) (r # rs) = (if g \<noteq> None \<and> g \<noteq> Some [] then Inr r else replacement_fn gs rs)"
| "replacement_fn _ _ = Inl AssertionError"

definition apply_fixes :: "path_env \<Rightarrow> user_path_fixes \<Rightarrow> string \<Rightarrow> bool \<Rightarrow> string res" where
  "apply_fixes env upf path should_add_prefixes =
     (let p = (if should_add_prefixes \<and> upf_prefix upf \<noteq> [] then upf_prefix upf @ CHR ''/'' # path else path)
      in bind_res
           (case upf_regex upf of
              None \<Rightarrow> Inr p
            | Some rx \<Rightarrow>
                (case rx_search env rx p of
                   None \<Rightarrow> Inr p
                 | Some (pre, groups, post) \<Rightarrow>
                     map_res (\<lambda>r. pre @ r @ post) (replacement_fn groups (upf_replacements upf)))) (\<lambda>q.
         Inr (lstrip_chars ''/'' (replace_str ''//'' ''/'' q))))"

section \<open>Path patterns of the user\<close>

definition regexp_match_one :: "path_env \<Rightarrow> string list \<Rightarrow> string \<Rightarrow> bool" where
  "regexp_match_one env patterns path \<longleftrightarrow> (\<exists>p \<in> set patterns. rx_match env p path)"

record user_path_includes =
  upi_patterns :: "string list"
  upi_includes :: "string list"
  upi_include_all :: bool
  upi_excludes :: "string list"

definition UserPathIncludes :: "string list \<Rightarrow> bool \<Rightarrow> user_path_includes" where
  "UserPathIncludes patterns assume_all =
     (if patterns = [] then \<lparr>upi_patterns = [], upi_includes = [], upi_include_all = False, upi_excludes = []\<rparr>
      else
        let includes = filter (\<lambda>p. \<not> startswith p ''!'') patterns;
            excludes = filter (\<lambda>p. startswith p ''!'') patterns;
            all_in = (''.*'' \<in> set patterns \<or> (assume_all \<and> includes = []))
        in \<lparr>upi_patterns = patterns, upi_includes = (if all_in then [] else includes), upi_include_all = all_in,
            upi_excludes = (if ''!.*'' \<in> set patterns then [] else map (drop 1) excludes)\<rparr>)"

definition path_included :: "path_env \<Rightarrow> user_path_includes \<Rightarrow> string \<Rightarrow> bool" where
  "path_included env upi v =
     (if upi_patterns upi = [] then True
      else if v = [] then False
      else if upi_include_all upi then
        (if upi_excludes upi \<noteq> [] then \<not> regexp_match_one env (upi_excludes upi) v else True)
      else if regexp_match_one env (upi_includes upi) v then
        (if upi_excludes upi \<noteq> [] \<and> regexp_match_one env (upi_excludes upi) v then False else True)
      else False)"

section \<open>Known bad paths\<close>

text \<open>The pattern of \<open>remove_known_bad_paths\<close>; \<open>bs\<close> is a backslash and \<open>seg\<close> one path segment.\<close>

definition bs :: string where
  "bs = [CHR 0x5C]"

definition seg :: string where
  "seg = ''[^'' @ bs @ ''/'' @ bs @ ''n]+/''"

definition known_bad_paths :: "string list" where
  "known_bad_paths =
    [''((home|Users)/travis/build/'' @ seg @ seg @ '')'',
     ''((home|Users)/jenkins/jobs/'' @ seg @ ''workspace/)'',
     ''(Users/distiller/'' @ seg @ '')'',
     ''(home/'' @ seg @ ''src/('' @ seg @ ''){3})'',
     ''((home|Users)/'' @ seg @ ''workspace/'' @ seg @ seg @ '')'',
     ''(.*/jenkins/workspace/'' @ seg @ '')'',
     ''((.+/src/)?github'' @ bs @ ''.com/'' @ seg @ seg @ '')'',
     ''('' @ bs @ ''w:/Repos/'' @ seg @ seg @ '')'',
     ''(['' @ bs @ ''w:/]+projects/'' @ seg @ '')'',
     ''('' @ bs @ ''w:/_build/GitHub/'' @ seg @ '')'',
     ''(build/lib'' @ bs @ ''.'' @ seg @ '')'',
     ''(home/circleci/code/)'',
     ''(home/circleci/repo/)'',
     ''(vendor/src/.*)'',
     ''(pipeline/source/)'',
     ''(var/snap-ci/repo/)'',
     ''(home/ubuntu/'' @ seg @ '')'',
     ''(.*/site-packages/[^'' @ bs @ ''/'' @ bs @ ''n]+'' @ bs @ ''.egg/)'',
     ''(.*/site-packages/)'',
     ''(usr/local/lib/'' @ seg @ ''dist-packages/)'',
     ''(.*/slather/spec/fixtures/[^'' @ bs @ ''n]*)'',
     ''(.*/target/generated-sources/[^'' @ bs @ ''n]*)'',
     ''(.*/'' @ bs @ ''.phpenv/.*)'',
     ''(.*/Debug-iphonesimulator/ReactiveCocoa'' @ bs @ ''.build/DerivedSources/RA.*)'',
     ''(usr/include/.*)'',
     ''(.*/handlebars'' @ bs @ ''.js/dist/.*)'',
     ''(node_modules/.*)'',
     ''(bower_components/.*)'',
     ''(.*/lib/clang/.*)'',
     ''(.*['' @ bs @ ''<'' @ bs @ ''>].*)'',
     ''('' @ bs @ ''w'' @ bs @ '':'' @ bs @ ''/)'',
     ''(.*/mac-coverage/build/src/.*)'',
     ''(opt/.*/dist-packages/.*)'',
     ''(.*/iPhoneSimulator.platform/Developer/SDKs/.*)'',
     ''(Applications/Xcode'' @ bs @ ''.app/Contents/Developer/Toolchains/.*)'',
     ''((.*/)?'' @ bs @ ''.?v?(irtual)?'' @ bs @ ''.?envs?(-[^'' @ bs @ ''/'' @ bs @ ''n]+)?/.*/[^'' @ bs @ ''/'' @ bs @ ''n]+'' @ bs @ ''.py$)'',
     ''(Users/'' @ seg @ ''Projects/.*/Pods/.*)'',
     ''(Users/'' @ seg @ ''Projects/'' @ seg @ '')'',
     ''(home/'' @ seg @ seg @ seg @ '')'']"

definition remove_known_bad_paths :: "path_env \<Rightarrow> string \<Rightarrow> string" where
  "remove_known_bad_paths env path =
     rx_sub env (''^('' @ bs @ ''.*'' @ bs @ ''/)*('' @ join_with (CHR ''|'') known_bad_paths @ '')?'') [] path"

section \<open>The path fixer\<close>

definition invert_pattern :: "string \<Rightarrow> string" where
  "invert_pattern s = (if startswith s ''!'' then drop 1 s else CHR ''!'' # s)"

record path_fixer =
  pf_toc :: "string list"
  pf_yaml_fixes :: "string list"
  pf_custom_fixes :: user_path_fixes
  pf_matcher :: user_path_includes
  pf_tree :: "node option"

definition PathFixer :: "string list \<Rightarrow> string list \<Rightarrow> string list \<Rightarrow> bool \<Rightarrow> path_fixer res" where
  "PathFixer yaml_fixes patterns toc disable_defaults =
     map_res (\<lambda>upf. \<lparr>pf_toc = toc, pf_yaml_fixes = yaml_fixes, pf_custom_fixes = upf,
       pf_matcher = UserPathIncludes (remdups patterns) True,
       pf_tree = (if toc \<noteq> [] \<and> \<not> disable_defaults then Some (Tree toc) else None)\<rparr>) (UserPathFixes yaml_fixes)"

text \<open>\<open>x or []\<close> where a list of strings is expected.\<close>

definition str_list :: "json \<Rightarrow> string list res" where
  "str_list v = (if j_truthy v then bind_res (iter_list v) (traverse str_of) else Inr [])"

definition flag_patterns :: "json \<Rightarrow> string \<Rightarrow> string list res" where
  "flag_patterns yaml flag =
     bind_res (get_flag_configuration yaml flag) (\<lambda>c.
     let conf = (case c of Some v \<Rightarrow> if j_truthy v then v else JObj [] | None \<Rightarrow> JObj [])
     in bind_res (bind_res (get_or conf ''ignore'' JNull) str_list) (\<lambda>ig.
        bind_res (bind_res (get_or conf ''paths'' JNull) str_list) (\<lambda>paths.
          Inr (map invert_pattern ig @ paths))))"

definition init_from_user_yaml :: "json \<Rightarrow> string list \<Rightarrow> string list option \<Rightarrow> string list \<Rightarrow> path_fixer res" where
  "init_from_user_yaml yaml toc flags extra_fixes =
     bind_res (str_list (read_yaml_field yaml [''ignore''] JNull)) (\<lambda>ig.
     bind_res (traverse (flag_patterns yaml) (case flags of None \<Rightarrow> [] | Some fs \<Rightarrow> fs)) (\<lambda>pss.
     bind_res (str_list (read_yaml_field yaml [''fixes''] JNull)) (\<lambda>fixes.
       PathFixer (fixes @ extra_fixes) (map invert_pattern ig @ concat pss) toc
         (j_truthy (read_yaml_field yaml [''codecov'', ''disable_default_path_fixes''] JNull)))))"

text \<open>\<open>clean_path\<close>: the fixed path, if any, and the fixer with the tree the resolution left behind.\<close>

definition resolve_in :: "path_env \<Rightarrow> path_fixer \<Rightarrow> string \<Rightarrow> (string option \<times> path_fixer) res" where
  "resolve_in env pf p =
     (case pf_tree pf of
        Some t \<Rightarrow> map_res (\<lambda>(q, t'). (q, pf\<lparr>pf_tree := Some t'\<rparr>)) (resolve_path (pe_cwd env) t p (Some 1))
      | None \<Rightarrow> Inr (Some (if pf_toc pf = [] then remove_known_bad_paths env p else p), pf))"

definition clean_path :: "path_env \<Rightarrow> path_fixer \<Rightarrow> string \<Rightarrow> (string option \<times> path_fixer) res" where
  "clean_path env pf path =
     (if path = [] then Inr (None, pf)
      else
        bind_res (relpath (pe_cwd env) (lstrip_chars ''../'' (lstrip_chars ''./'' (replace_str bs ''/'' path)))) (\<lambda>p1.
        bind_res (if pf_yaml_fixes pf \<noteq> [] then apply_fixes env (pf_custom_fixes pf) p1 False else Inr p1) (\<lambda>p2.
        bind_res (resolve_in env pf p2) (\<lambda>(r, pf').
          case r of
            None \<Rightarrow> Inr (None, pf')
          | Some p3 \<Rightarrow>
              if p3 = [] \<and> pf_tree pf \<noteq> None then Inr (None, pf')
              else
                bind_res (if pf_yaml_fixes pf \<noteq> [] then apply_fixes env (pf_custom_fixes pf) p3 True else Inr p3) (\<lambda>p4.
                  Inr (if path_included env (pf_matcher pf) p4 then Some p4 else None, pf'))))))"

section \<open>The fixer that knows where the report was\<close>

text \<open>
  The parent directory of the report, as \<open>pathlib\<close> computes it: a path with a drive (or a network
  share) stays a Windows path, whose parent is the argument \<open>win_parent\<close>; every other one becomes a POSIX
  path.
\<close>

definition has_drive :: "string \<Rightarrow> bool" where
  "has_drive p =
     (let q = replace_str ''/'' bs p
      in startswith q (bs @ bs) \<or> (\<not> startswith q bs \<and> take 1 (drop 1 q) = '':''))"

definition posix_parent :: "string \<Rightarrow> string" where
  "posix_parent p =
     (let q = replace_str bs ''/'' p;
          parts = filter (\<lambda>c. c \<noteq> [] \<and> c \<noteq> ''.'') (path_parts q);
          up = join_with (CHR ''/'') (butlast parts)
      in if isabs q then CHR ''/'' # up else if up = [] then ''.'' else up)"

record base_path_fixer =
  bf_original :: path_fixer
  bf_base :: "string list"
  bf_resolved :: "((string \<times> string list) \<times> string option) list"

definition BasePathAwarePathFixer :: "(string \<Rightarrow> string) \<Rightarrow> path_fixer \<Rightarrow> string option \<Rightarrow> base_path_fixer" where
  "BasePathAwarePathFixer win_parent pf base =
     \<lparr>bf_original = pf,
      bf_base = (case base of None \<Rightarrow> [] | Some b \<Rightarrow>
        if b = [] then [] else [if has_drive b then win_parent b else posix_parent b]),
      bf_resolved = []\<rparr>"

fun try_bases :: "path_env \<Rightarrow> path_fixer \<Rightarrow> string \<Rightarrow> string list \<Rightarrow> (string option \<times> path_fixer) res" where
  "try_bases env pf path [] = Inr (None, pf)"
| "try_bases env pf path (b # bases) =
     bind_res (clean_path env pf (path_join b path)) (\<lambda>(r, pf').
       if r \<noteq> None then Inr (r, pf') else try_bases env pf' path bases)"

definition try_fix_path :: "path_env \<Rightarrow> base_path_fixer \<Rightarrow> string \<Rightarrow> string list \<Rightarrow> (string option \<times> path_fixer) res" where
  "try_fix_path env bf path bases_to_try =
     bind_res (clean_path env (bf_original bf) path) (\<lambda>(r, pf).
       if r \<noteq> None \<or> (bf_base bf = [] \<and> bases_to_try = []) \<or> pf_toc pf = [] then Inr (r, pf)
       else if isabs path then Inr (r, pf)
       else try_bases env pf path (bf_base bf @ bases_to_try))"

definition fix_path :: "path_env \<Rightarrow> base_path_fixer \<Rightarrow> string \<Rightarrow> string list \<Rightarrow> (string option \<times> base_path_fixer) res" where
  "fix_path env bf path bases_to_try =
     (if path = [] then Inr (None, bf)
      else
        (case dict_get (bf_resolved bf) (path, bases_to_try) of
           Some r \<Rightarrow> Inr (r, bf)
         | None \<Rightarrow>
             bind_res (try_fix_path env bf path bases_to_try) (\<lambda>(r, pf).
               Inr (r, bf\<lparr>bf_original := pf, bf_resolved := dict_set (bf_resolved bf) (path, bases_to_try) r\<rparr>))))"

section \<open>Lemmas\<close>

text \<open>What every fixed path satisfies, and the invariant of the fixers.\<close>

definition good_path :: "path_env \<Rightarrow> path_fixer \<Rightarrow> string \<Rightarrow> bool" where
  "good_path env pf q \<longleftrightarrow> path_included env (pf_matcher pf) q \<and>
     (pf_yaml_fixes pf = [] \<and> pf_tree pf \<noteq> None \<longrightarrow> q \<in> set (pf_toc pf))"

definition pf_ok :: "path_fixer \<Rightarrow> bool" where
  "pf_ok pf \<longleftrightarrow> (\<forall>t. pf_tree pf = Some t \<longrightarrow> node_ok (set (pf_toc pf)) [] t)"

definition same_fixer :: "path_fixer \<Rightarrow> path_fixer \<Rightarrow> bool" where
  "same_fixer pf pf' \<longleftrightarrow> pf_toc pf' = pf_toc pf \<and> pf_yaml_fixes pf' = pf_yaml_fixes pf \<and>
     pf_matcher pf' = pf_matcher pf \<and> (pf_tree pf' = None \<longleftrightarrow> pf_tree pf = None)"

lemma same_fixer_refl [simp]: "same_fixer pf pf"
  by (simp add: same_fixer_def)

lemma same_fixer_trans: "same_fixer a b \<Longrightarrow> same_fixer b c \<Longrightarrow> same_fixer a c"
  by (simp add: same_fixer_def)

lemma good_path_same: "same_fixer pf pf' \<Longrightarrow> good_path env pf' q = good_path env pf q"
  by (simp add: same_fixer_def good_path_def)

lemma resolve_path_ok:
  assumes "resolve_path cwd t path anc = Inr (r, t')" "node_ok toc [] t"
  shows "node_ok toc [] t' \<and> (\<forall>q. r = Some q \<longrightarrow> q \<in> toc)"
proof -
  from assms(1) obtain p where p: "clean_path_str cwd path = Inr p" by (auto simp: resolve_path_def)
  obtain res t1 where l: "lookup t p anc = (res, t1)" by (cases "lookup t p anc")
  from lookup_ok [OF l assms(2)] assms(1) p l show ?thesis
    by (auto simp: resolve_path_def split: option.splits if_splits)
qed

lemma resolve_in_ok:
  assumes "resolve_in env pf p = Inr (r, pf')" "pf_ok pf"
  shows "pf_ok pf' \<and> same_fixer pf pf' \<and> (pf_tree pf \<noteq> None \<longrightarrow> (\<forall>q. r = Some q \<longrightarrow> q \<in> set (pf_toc pf)))"
  using assms resolve_path_ok [of "pe_cwd env" _ p "Some 1" r _ "set (pf_toc pf)"]
  by (auto simp: resolve_in_def pf_ok_def same_fixer_def split: option.splits)

lemma clean_path_ok:
  assumes "clean_path env pf path = Inr (r, pf')" "pf_ok pf"
  shows "pf_ok pf' \<and> same_fixer pf pf' \<and> (\<forall>q. r = Some q \<longrightarrow> good_path env pf q)"
proof (cases "path = []")
  case True
  with assms show ?thesis by (simp add: clean_path_def)
next
  case False
  with assms(1) obtain p2 a where a: "resolve_in env pf p2 = Inr a"
    and rest: "(case a of (r, pf') \<Rightarrow> case r of
            None \<Rightarrow> Inr (None, pf')
          | Some p3 \<Rightarrow>
              if p3 = [] \<and> pf_tree pf \<noteq> None then Inr (None, pf')
              else
                bind_res (if pf_yaml_fixes pf \<noteq> [] then apply_fixes env (pf_custom_fixes pf) p3 True else Inr p3) (\<lambda>p4.
                  Inr (if path_included env (pf_matcher pf) p4 then Some p4 else None, pf'))) = Inr (r, pf')"
    by (simp only: clean_path_def bind_res_eq_Inr if_False) blast
  obtain r2 pf1 where a': "a = (r2, pf1)" by (cases a)
  from resolve_in_ok [OF a [unfolded a'] assms(2)] rest a' show ?thesis
    by (auto simp: good_path_def split: option.splits if_splits)
qed

lemma try_bases_ok:
  "try_bases env pf path bases = Inr (r, pf') \<Longrightarrow> pf_ok pf \<Longrightarrow>
   pf_ok pf' \<and> same_fixer pf pf' \<and> (\<forall>q. r = Some q \<longrightarrow> good_path env pf q)"
proof (induction bases arbitrary: pf)
  case Nil
  then show ?case by simp
next
  case (Cons b bases)
  then obtain r1 pf1 where c: "clean_path env pf (path_join b path) = Inr (r1, pf1)"
    and rest: "(if r1 \<noteq> None then Inr (r1, pf1) else try_bases env pf1 path bases) = Inr (r, pf')" by auto
  note ok = clean_path_ok [OF c Cons.prems(2)]
  show ?case
  proof (cases "r1 = None")
    case True
    with rest have "try_bases env pf1 path bases = Inr (r, pf')" by simp
    from Cons.IH [OF this] ok show ?thesis by (auto intro: same_fixer_trans simp: good_path_same [symmetric])
  next
    case False
    with rest ok show ?thesis by auto
  qed
qed

lemma try_fix_path_ok:
  assumes "try_fix_path env bf path bases = Inr (r, pf')" "pf_ok (bf_original bf)"
  shows "pf_ok pf' \<and> same_fixer (bf_original bf) pf' \<and> (\<forall>q. r = Some q \<longrightarrow> good_path env (bf_original bf) q)"
proof -
  from assms(1) obtain r1 pf1 where c: "clean_path env (bf_original bf) path = Inr (r1, pf1)"
    and rest: "(r1, pf1) = (r, pf') \<or> try_bases env pf1 path (bf_base bf @ bases) = Inr (r, pf')"
    by (auto simp: try_fix_path_def split: if_splits)
  note ok = clean_path_ok [OF c assms(2)]
  from rest show ?thesis
  proof
    assume "(r1, pf1) = (r, pf')"
    with ok show ?thesis by auto
  next
    assume "try_bases env pf1 path (bf_base bf @ bases) = Inr (r, pf')"
    from try_bases_ok [OF this] ok show ?thesis by (auto intro: same_fixer_trans simp: good_path_same [symmetric])
  qed
qed

definition bf_ok :: "path_env \<Rightarrow> path_fixer \<Rightarrow> base_path_fixer \<Rightarrow> bool" where
  "bf_ok env pf bf \<longleftrightarrow> pf_ok (bf_original bf) \<and> same_fixer pf (bf_original bf) \<and>
     (\<forall>k q. dict_get (bf_resolved bf) k = Some (Some q) \<longrightarrow> good_path env pf q)"

lemma fix_path_ok:
  assumes "fix_path env bf path bases = Inr (r, bf')" "bf_ok env pf bf"
  shows "bf_ok env pf bf' \<and> (\<forall>q. r = Some q \<longrightarrow> good_path env pf q)"
proof (cases "path = [] \<or> dict_get (bf_resolved bf) (path, bases) \<noteq> None")
  case True
  with assms show ?thesis by (auto simp: fix_path_def bf_ok_def split: if_splits option.splits)
next
  case False
  with assms(1) obtain pf' where t: "try_fix_path env bf path bases = Inr (r, pf')"
    and bf': "bf' = bf\<lparr>bf_original := pf', bf_resolved := dict_set (bf_resolved bf) (path, bases) r\<rparr>"
    by (auto simp: fix_path_def)
  have "pf_ok (bf_original bf)" "same_fixer pf (bf_original bf)" using assms(2) by (simp_all add: bf_ok_def)
  with try_fix_path_ok [OF t] assms(2) bf' show ?thesis
    by (auto simp: bf_ok_def good_path_same intro: same_fixer_trans split: if_splits)
qed

lemma PathFixer_ok: "PathFixer fixes patterns toc dis = Inr pf \<Longrightarrow> pf_ok pf \<and> pf_toc pf = toc"
  using node_ok_Tree [of toc] by (auto simp: PathFixer_def pf_ok_def split: if_splits)

lemma init_ok: "init_from_user_yaml yaml toc flags extra = Inr pf \<Longrightarrow> pf_ok pf \<and> pf_toc pf = toc"
  by (auto simp: init_from_user_yaml_def dest!: PathFixer_ok)

section \<open>Properties\<close>

text \<open>
  C12. The files that enter a report are those the user wants: every path the fixer returns (whatever it
  was asked before, with its cache and its changing tree) is admitted by the patterns of the
  configuration and the flags, and if the upload lists the files of the repository and the
  configuration has no path fixes, it is one of these files.
\<close>

theorem fixed_paths_wanted:
  assumes "init_from_user_yaml yaml toc flags extra = Inr pf"
    and "foldl_res (\<lambda>bf q. map_res snd (fix_path env bf (fst q) (snd q))) (BasePathAwarePathFixer wp pf base) queries = Inr bf"
    and "fix_path env bf path bases = Inr (Some fixed, bf')"
  shows "path_included env (pf_matcher pf) fixed \<and>
    (pf_yaml_fixes pf = [] \<and> pf_tree pf \<noteq> None \<longrightarrow> fixed \<in> set toc)"
proof -
  note pf = init_ok [OF assms(1)]
  have "bf_ok env pf bf"
  proof (rule foldl_res_invariant [OF assms(2)])
    show "bf_ok env pf (BasePathAwarePathFixer wp pf base)" using pf by (simp add: bf_ok_def BasePathAwarePathFixer_def)
  next
    fix s x s'
    assume "bf_ok env pf s" "map_res snd (fix_path env s (fst x) (snd x)) = Inr s'"
    then show "bf_ok env pf s'" using fix_path_ok by fastforce
  qed
  from fix_path_ok [OF assms(3) this] pf show ?thesis by (simp add: good_path_def)
qed

definition no_regex :: path_env where
  "no_regex = \<lparr>pe_cwd = [''app''], rx_match = (\<lambda>p s. p = s), rx_search = (\<lambda>_ _. None), rx_sub = (\<lambda>_ _ s. s)\<rparr>"

theorem fixed_paths_wanted_witness:
  "\<exists>pf bf'. init_from_user_yaml (JObj []) [''src/a.py''] None [] = Inr pf \<and>
     fix_path no_regex (BasePathAwarePathFixer (\<lambda>s. s) pf (Some ''cov/coverage.xml'')) ''ci/src/a.py'' [] = Inr (Some ''src/a.py'', bf') \<and>
     ''src/a.py'' \<in> set [''src/a.py'']"
proof -
  let ?pf = "\<lparr>pf_toc = [''src/a.py''], pf_yaml_fixes = [], pf_custom_fixes = \<lparr>upf_prefix = [], upf_regex = None, upf_replacements = []\<rparr>,
    pf_matcher = UserPathIncludes [] True, pf_tree = Some (Tree [''src/a.py''])\<rparr>"
  have i: "init_from_user_yaml (JObj []) [''src/a.py''] None [] = Inr ?pf" by code_simp
  have "map_res fst (fix_path no_regex (BasePathAwarePathFixer (\<lambda>s. s) ?pf (Some ''cov/coverage.xml'')) ''ci/src/a.py'' []) = Inr (Some ''src/a.py'')"
    by code_simp
  then obtain bf' where f: "fix_path no_regex (BasePathAwarePathFixer (\<lambda>s. s) ?pf (Some ''cov/coverage.xml'')) ''ci/src/a.py'' [] = Inr (Some ''src/a.py'', bf')"
    by auto
  with fixed_paths_wanted [OF i _ f, of "\<lambda>s. s" "Some ''cov/coverage.xml''" "[]"] i show ?thesis by auto
qed

end
