(* ===== verification/Upload_Format.thy ===== *)
theory Upload_Format
  imports Path_Fixer Report_File
begin

text \<open>
  The format of uploads: the table of contents (apps/worker/services/path_fixer/fixpaths.py), the
  sections of a legacy upload (services/report/parser/legacy.py and types.py), uploads in JSON
  (parser/version_one.py), and the line fixes that an upload may carry (services/report/fixes.py).
  Bytes are characters here; decoding of bytes that are not ASCII is an argument.
\<close>

record codec =
  decode_strict :: "string \<Rightarrow> string res"
  decode_replace :: "string \<Rightarrow> string"

section \<open>The table of contents\<close>

definition is_octal :: "char \<Rightarrow> bool" where
  "is_octal c = char_in 48 55 c"

text \<open>\<open>int(s, 8)\<close> for a text that starts with an octal digit.\<close>

fun octal_digits :: "nat \<Rightarrow> bool \<Rightarrow> string \<Rightarrow> nat option" where
  "octal_digits acc prev [] = (if prev then Some acc else None)"
| "octal_digits acc prev (c # s) =
     (if is_octal c then octal_digits (8 * acc + (of_char c - 48)) True s
      else if c = CHR ''_'' \<and> prev then octal_digits acc False s
      else None)"

text \<open>The bytes of a quoted path; \<open>bytes(rv)\<close> needs every number to be below 256.\<close>

function unquote_bytes :: "string \<Rightarrow> string res" where
  "unquote_bytes [] = Inr []"
| "unquote_bytes (c # s) =
     (if c = CHR 0x5C then
        (case s of
           [] \<Rightarrow> Inl IndexError
         | d # t \<Rightarrow>
             if d = CHR ''r'' then unquote_bytes t
             else if is_octal d then
               (case octal_digits 0 False (rstrip (take 3 s)) of
                  None \<Rightarrow> Inl ValueError
                | Some n \<Rightarrow> bind_res (unquote_bytes (drop 3 s)) (\<lambda>r. if n < 256 then Inr (char_of n # r) else Inl ValueError))
             else map_res ((#) d) (unquote_bytes t))
      else map_res ((#) c) (unquote_bytes s))"
  by pat_completeness auto
termination
  by (relation "measure length") auto

definition unquote_git_path :: "codec \<Rightarrow> string \<Rightarrow> string res" where
  "unquote_git_path cd path = bind_res (unquote_bytes path) (decode_strict cd)"

definition clean_toc_path :: "codec \<Rightarrow> string \<Rightarrow> string res" where
  "clean_toc_path cd path =
     bind_res (if startswith path [CHR 0x22] \<and> endswith path [CHR 0x22]
               then unquote_git_path cd (butlast (drop 1 path)) else Inr path) (\<lambda>p.
     let q = replace_str bs ''/'' (replace_str (bs @ '' '') '' '' p)
     in Inr (if startswith q ''./'' then drop 2 q else q))"

definition clean_toc :: "codec \<Rightarrow> string \<Rightarrow> string list res" where
  "clean_toc cd toc =
     map_res (filter (\<lambda>p. \<not> contains p ''/target/delombok/''))
       (traverse (clean_toc_path cd) (split_all newline (strip toc)))"

section \<open>Legacy uploads\<close>

definition network_separator :: string where
  "network_separator = ''<<<<<< network''"

definition env_separator :: string where
  "env_separator = ''<<<<<< ENV''"

definition eof_separator :: string where
  "eof_separator = ''<<<<<< EOF''"

definition ignore_from_now_on_marker :: string where
  "ignore_from_now_on_marker = ''==FROMNOWONIGNOREDBYCODECOV==>>>''"

definition common_base :: string where
  "common_base = ''<<<<<<''"

definition separator_lines :: "string list" where
  "separator_lines = [network_separator, env_separator, eof_separator]"

text \<open>\<open>s.find(sub, start)\<close>: the first place at or after \<open>start\<close>.\<close>

fun find_in :: "string \<Rightarrow> nat \<Rightarrow> string \<Rightarrow> nat option" where
  "find_in p n [] = (if p = [] then Some n else None)"
| "find_in p n (c # s) = (if startswith (c # s) p then Some n else find_in p (n + 1) s)"

definition find_from :: "string \<Rightarrow> string \<Rightarrow> nat \<Rightarrow> nat option" where
  "find_from s p start = find_in p start (drop start s)"

lemma find_in_ge: "find_in p n s = Some m \<Longrightarrow> n \<le> m"
  by (induction s arbitrary: n) (auto split: if_splits dest: Suc_leD)

lemma find_from_ge: "find_from s p start = Some m \<Longrightarrow> start \<le> m"
  unfolding find_from_def by (rule find_in_ge)

lemma separator_length: "sep \<in> set separator_lines \<Longrightarrow> 0 < length sep"
  by (auto simp: separator_lines_def network_separator_def env_separator_def eof_separator_def)

text \<open>\<open>_find_place_to_cut\<close> from \<open>start\<close>: places and separators.\<close>

function find_place_to_cut :: "string \<Rightarrow> nat \<Rightarrow> (nat \<times> string) list" where
  "find_place_to_cut raw start =
     (if start \<le> length raw then
        (case find_from raw common_base start of
           None \<Rightarrow> []
         | Some np \<Rightarrow>
             (let seps = filter (\<lambda>sep. startswith (drop np raw) sep) separator_lines
              in if seps = [] then find_place_to_cut raw (np + 1)
                 else map (Pair np) seps @ find_place_to_cut raw (np + length (last seps))))
      else [])"
  by pat_completeness auto
termination
proof (relation "measure (\<lambda>(raw, start). length raw + 1 - start)", goal_cases)
  case 1
  show ?case by simp
next
  case (2 raw start np seps)
  then show ?case by (auto dest: find_from_ge)
next
  case (3 raw start np seps)
  then have "last seps \<in> set separator_lines" by (metis filter_is_subset last_in_set subsetD)
  then have "0 < length (last seps)" by (rule separator_length)
  moreover have "start \<le> np" "start \<le> length raw" using 3 by (auto dest: find_from_ge)
  ultimately have "length raw + 1 - (np + length (last seps)) < length raw + 1 - start" by linarith
  then show ?case by simp
qed

declare find_place_to_cut.simps [simp del]

fun between :: "(nat \<times> string) list \<Rightarrow> (nat \<times> nat \<times> string option) list" where
  "between ((p, s) # (q, t) # places) = (p + length s, q, Some t) # between ((q, t) # places)"
| "between _ = []"

definition get_sections_to_cut :: "string \<Rightarrow> (nat \<times> nat \<times> string option) list" where
  "get_sections_to_cut raw =
     (let places = sort_key fst (find_place_to_cut raw 0)
      in if places = [] then [(0, length raw, None)]
         else (0, fst (hd places), Some (snd (hd places))) # between places @
              [(fst (last places) + length (snd (last places)), length raw, None)])"

record upload_section =
  us_contents :: string
  us_filename :: "string option"
  us_footer :: "string option"

text \<open>\<open>string.whitespace\<close>.\<close>

definition is_ws :: "char \<Rightarrow> bool" where
  "is_ws c \<longleftrightarrow> char_in 9 13 c \<or> c = CHR '' ''"

definition path_line :: string where
  "path_line = ''# path=''"

text \<open>The section without surrounding whitespace, and the file name on its first line.\<close>

definition cut_section :: "codec \<Rightarrow> string \<Rightarrow> nat \<times> nat \<times> string option \<Rightarrow> upload_section option res" where
  "cut_section cd raw sect =
     (case sect of (start, stop, separator) \<Rightarrow>
        let sec = take (stop - start) (drop start raw);
            i_start = start + length (takeWhile is_ws sec);
            i_end = stop - length (takeWhile is_ws (rev (dropWhile is_ws sec)))
        in if i_start < i_end then
             (if startswith (drop i_start raw) path_line then
                let first_line = hd (io_lines (drop i_start raw));
                    j = i_start + length first_line;
                    j' = j + length (takeWhile is_ws (take (i_end - j) (drop j raw)))
                in bind_res (decode_strict cd (hd (tl (split_str path_line first_line)))) (\<lambda>name.
                     Inr (Some \<lparr>us_contents = take (i_end - j') (drop j' raw), us_filename = Some (strip name), us_footer = separator\<rparr>))
              else
                Inr (Some \<lparr>us_contents = take (i_end - i_start) (drop i_start raw), us_filename = None, us_footer = separator\<rparr>))
           else Inr None)"

definition cut_sections :: "codec \<Rightarrow> string \<Rightarrow> upload_section list res" where
  "cut_sections cd raw = map_res somes (traverse (cut_section cd raw) (get_sections_to_cut raw))"

record uploaded_file =
  uf_filename :: "string option"
  uf_contents :: string
  uf_labels :: "string list option"

record parsed_upload =
  pu_toc :: "string option"
  pu_env :: "string option"
  pu_files :: "uploaded_file list"
  pu_fixes :: "string option"

definition add_section :: "parsed_upload \<Rightarrow> upload_section \<Rightarrow> parsed_upload" where
  "add_section pu s =
     (if us_footer s = Some network_separator then pu\<lparr>pu_toc := Some (us_contents s)\<rparr>
      else if us_footer s = Some env_separator then pu\<lparr>pu_env := Some (us_contents s)\<rparr>
      else if us_filename s = Some ''fixes'' then pu\<lparr>pu_fixes := Some (us_contents s)\<rparr>
      else pu\<lparr>pu_files := pu_files pu @ [\<lparr>uf_filename = us_filename s, uf_contents = us_contents s, uf_labels = None\<rparr>]\<rparr>)"

definition generate_parsed_report :: "upload_section list \<Rightarrow> parsed_upload" where
  "generate_parsed_report sects = foldl add_section \<lparr>pu_toc = None, pu_env = None, pu_files = [], pu_fixes = None\<rparr> sects"

text \<open>\<open>raw.partition(marker)[0]\<close>.\<close>

definition before_marker :: "string \<Rightarrow> string \<Rightarrow> string" where
  "before_marker marker raw = (case find_from raw marker 0 of None \<Rightarrow> raw | Some n \<Rightarrow> take n raw)"

definition parse_raw_report_from_bytes :: "codec \<Rightarrow> string \<Rightarrow> parsed_upload res" where
  "parse_raw_report_from_bytes cd raw =
     map_res generate_parsed_report (cut_sections cd (before_marker ignore_from_now_on_marker raw))"

definition get_toc :: "codec \<Rightarrow> parsed_upload \<Rightarrow> string list res" where
  "get_toc cd pu = (case pu_toc pu of None \<Rightarrow> Inl AttributeError | Some t \<Rightarrow> clean_toc cd (strip (decode_replace cd t)))"

text \<open>\<open>content\<close>: the readable form of an upload, in the same format; encoding is the identity on ASCII.\<close>

definition name_str :: "string option \<Rightarrow> string" where
  "name_str n = (case n of None \<Rightarrow> ''None'' | Some s \<Rightarrow> s)"

definition file_text :: "uploaded_file \<Rightarrow> string" where
  "file_text f = path_line @ name_str (uf_filename f) @ [newline] @ uf_contents f @ [newline] @ eof_separator @ [newline, newline]"

definition upload_content :: "string list option \<Rightarrow> uploaded_file list \<Rightarrow> string" where
  "upload_content toc files =
     (case toc of None \<Rightarrow> []
      | Some ps \<Rightarrow> concat (map (\<lambda>p. p @ [newline]) ps) @ network_separator @ [newline, newline]) @
     concat (map file_text files)"

definition upload_size :: "uploaded_file list \<Rightarrow> nat" where
  "upload_size files = sum_list (map (\<lambda>f. length (uf_contents f)) files)"

definition get_first_line :: "uploaded_file \<Rightarrow> string" where
  "get_first_line f = (case io_lines (uf_contents f) of [] \<Rightarrow> [] | l # _ \<Rightarrow> l)"

section \<open>Uploads in JSON\<close>

text \<open>
  The decoders \<open>orjson.loads\<close> and \<open>zlib.decompress(base64.b64decode(...))\<close> are arguments. The table of
  contents and the fixes stay JSON values.
\<close>

record json_upload =
  ju_toc :: json
  ju_files :: "uploaded_file list"
  ju_fixes :: json

definition opt_str :: "json \<Rightarrow> string option res" where
  "opt_str v = (case v of JNull \<Rightarrow> Inr None | _ \<Rightarrow> map_res Some (str_of v))"

definition parse_single_coverage_file :: "(string \<Rightarrow> string res) \<Rightarrow> json \<Rightarrow> uploaded_file res" where
  "parse_single_coverage_file inflate f =
     bind_res (get_item f ''format'') (\<lambda>fmt.
     bind_res (bind_res (get_item f ''data'') str_of) (\<lambda>d.
     bind_res (if fmt = JStr ''base64+compressed'' then inflate d else Inr d) (\<lambda>contents.
     bind_res (bind_res (get_item f ''filename'') opt_str) (\<lambda>name.
     bind_res (get_item f ''labels'') (\<lambda>labels.
     bind_res (case labels of JNull \<Rightarrow> Inr None | _ \<Rightarrow> map_res Some (bind_res (iter_list labels) (traverse str_of))) (\<lambda>ls.
       Inr \<lparr>uf_filename = name, uf_contents = contents, uf_labels = ls\<rparr>))))))"

definition parse_version_one :: "(string \<Rightarrow> json res) \<Rightarrow> (string \<Rightarrow> string res) \<Rightarrow> string \<Rightarrow> json_upload res" where
  "parse_version_one loads inflate raw =
     bind_res (loads raw) (\<lambda>data.
     bind_res (get_item data ''network_files'') (\<lambda>toc.
     bind_res (bind_res (bind_res (get_item data ''coverage_files'') iter_list) (traverse (parse_single_coverage_file inflate))) (\<lambda>files.
     bind_res (bind_res (case get_item data ''report_fixes'' of
         Inr v \<Rightarrow> Inr v | Inl e \<Rightarrow> if e = KeyError then get_item data ''path_fixes'' else Inl e) (\<lambda>v. get_item v ''value'')) (\<lambda>fixes.
       Inr \<lparr>ju_toc = toc, ju_files = files, ju_fixes = fixes\<rparr>))))"

section \<open>Line fixes\<close>

text \<open>
  \<open>get_fixes_from_raw\<close> reads the fixes line by line; an exception in a line is swallowed, but what the
  line did before it stays. The variable \<open>lines\<close> of the code refers to the set of the last file
  that was found: \<open>fx_lines\<close> is the key of that file. \<open>fix\<close> is the path fixer with its state.
\<close>

record fix_entry =
  fe_eof :: "int option"
  fe_lines :: "int list option"

type_synonym 'f fixer = "'f \<Rightarrow> string \<Rightarrow> (string option \<times> 'f) res"

record 'f fixes_state =
  fx_fixer :: 'f
  fx_files :: "(string option, fix_entry) dict"
  fx_long :: "(string option, int list \<times> int list) dict"
  fx_cur :: "string option"
  fx_fixed :: "string option option"
  fx_lines :: "string option option"

definition add_lines :: "int list \<Rightarrow> fix_entry \<Rightarrow> fix_entry" where
  "add_lines ns e = e\<lparr>fe_lines := map_option (\<lambda>ls. remdups (ls @ ns)) (fe_lines e)\<rparr>"

definition update_files :: "string option \<Rightarrow> (fix_entry \<Rightarrow> fix_entry) \<Rightarrow> (string option, fix_entry) dict \<Rightarrow> (string option, fix_entry) dict" where
  "update_files k f files = (case dict_get files k of None \<Rightarrow> files | Some e \<Rightarrow> dict_set files k (f e))"

text \<open>\<open>lines.add(n)\<close>, with \<open>lines\<close> unbound before the first file.\<close>

definition add_fix_line :: "int \<Rightarrow> 'f fixes_state \<Rightarrow> 'f fixes_state" where
  "add_fix_line n st = (case fx_lines st of None \<Rightarrow> st | Some k \<Rightarrow> st\<lparr>fx_files := update_files k (add_lines [n]) (fx_files st)\<rparr>)"

fun add_fix_lines :: "'f fixes_state \<Rightarrow> string list \<Rightarrow> 'f fixes_state" where
  "add_fix_lines st [] = st"
| "add_fix_lines st (sp # sps) =
     (case fx_lines st of
        None \<Rightarrow> st
      | Some k \<Rightarrow> (case py_int sp of Inl _ \<Rightarrow> st | Inr n \<Rightarrow> add_fix_lines (add_fix_line n st) sps))"

definition fixes_eof :: "'f fixer \<Rightarrow> 'f fixes_state \<Rightarrow> string \<Rightarrow> 'f fixes_state" where
  "fixes_eof fix st line =
     (case split_max 2 (CHR '' '') line of
        [_, l, filename] \<Rightarrow>
          (case py_int l of
             Inl _ \<Rightarrow> st
           | Inr n \<Rightarrow>
               (case fix (fx_fixer st) filename of
                  Inl _ \<Rightarrow> st
                | Inr (k, f) \<Rightarrow>
                    let e = (case dict_get (fx_files st) k of None \<Rightarrow> \<lparr>fe_eof = None, fe_lines = None\<rparr> | Some e \<Rightarrow> e)
                    in st\<lparr>fx_fixer := f, fx_files := dict_set (fx_files st) k (e\<lparr>fe_eof := Some n\<rparr>)\<rparr>))
      | _ \<Rightarrow> st)"

text \<open>Changing to another file; the flag tells whether the rest of the line is read.\<close>

definition enter_file :: "'f fixer \<Rightarrow> 'f fixes_state \<Rightarrow> string \<Rightarrow> bool \<times> 'f fixes_state" where
  "enter_file fix st filename =
     (if fx_cur st = Some filename then (True, st)
      else
        let st1 = st\<lparr>fx_cur := Some filename\<rparr>
        in case fix (fx_fixer st1) filename of
             Inl _ \<Rightarrow> (False, st1)
           | Inr (k, f) \<Rightarrow>
               let st2 = st1\<lparr>fx_fixer := f, fx_fixed := Some k\<rparr>
               in if k = None \<or> k = Some [] then (False, st2)
                  else
                    (case dict_get (fx_files st2) k of
                       None \<Rightarrow> (True, st2\<lparr>fx_files := dict_set (fx_files st2) k \<lparr>fe_eof = None, fe_lines = Some []\<rparr>, fx_lines := Some k\<rparr>)
                     | Some e \<Rightarrow> if fe_lines e = None then (False, st2) else (True, st2\<lparr>fx_lines := Some k\<rparr>)))"

definition add_long_comment :: "'f fixes_state \<Rightarrow> int \<Rightarrow> bool \<Rightarrow> 'f fixes_state option" where
  "add_long_comment st n is_start =
     (case fx_fixed st of
        None \<Rightarrow> None
      | Some k \<Rightarrow>
          let (starts, stops) = (case dict_get (fx_long st) k of None \<Rightarrow> ([], []) | Some p \<Rightarrow> p)
          in Some (st\<lparr>fx_long := dict_set (fx_long st) k (if is_start then (starts @ [n], stops) else (starts, stops @ [n]))\<rparr>))"

definition fixes_source_line :: "'f fixes_state \<Rightarrow> string \<Rightarrow> string \<Rightarrow> 'f fixes_state" where
  "fixes_source_line st l src =
     (case py_int l of
        Inl _ \<Rightarrow> st
      | Inr n \<Rightarrow>
          let source = strip src
          in case
               (if take 2 source = ''/*'' \<or> contains source ''LCOV_EXCL_START'' then add_long_comment st n True
                else if last_n 2 source = ''*/'' \<or> contains source ''LCOV_EXCL_STOP'' \<or> contains source ''LCOV_EXCL_END''
                  then add_long_comment st n False
                else Some st) of
             None \<Rightarrow> st
           | Some st' \<Rightarrow> add_fix_line n st')"

definition fixes_line :: "'f fixer \<Rightarrow> 'f fixes_state \<Rightarrow> string \<Rightarrow> 'f fixes_state" where
  "fixes_line fix st line =
     (if line = [] then st
      else if take 5 line = ''EOF: '' then fixes_eof fix st line
      else
        (case split_once (CHR '':'') line of
           None \<Rightarrow> st
         | Some (filename, rest) \<Rightarrow>
             (case enter_file fix st filename of
                (False, st') \<Rightarrow> st'
              | (True, st') \<Rightarrow>
                  (case split_once (CHR '':'') rest of
                     None \<Rightarrow> add_fix_lines st' (split_all (CHR '','') rest)
                   | Some (l, src) \<Rightarrow> fixes_source_line st' l src))))"

text \<open>The lines between the start and the end of every long comment, paired in order.\<close>

definition comment_lines :: "int list \<Rightarrow> int list \<Rightarrow> int list" where
  "comment_lines starts stops = concat (map (\<lambda>(a, b). [a + 1..b - 1]) (zip (sort starts) (sort stops)))"

definition close_comments :: "(string option, fix_entry) dict \<Rightarrow> string option \<times> int list \<times> int list \<Rightarrow> (string option, fix_entry) dict res" where
  "close_comments files p =
     (case p of (k, starts, stops) \<Rightarrow>
        if k = None \<or> k = Some [] \<or> starts = [] \<or> stops = [] then Inr files
        else (case dict_get files k of
            None \<Rightarrow> Inl KeyError
          | Some e \<Rightarrow> if fe_lines e = None then Inl KeyError else Inr (update_files k (add_lines (comment_lines starts stops)) files)))"

definition get_fixes_from_raw :: "'f fixer \<Rightarrow> 'f \<Rightarrow> string \<Rightarrow> ((string option, fix_entry) dict \<times> 'f) res" where
  "get_fixes_from_raw fix f content =
     (let st = foldl (fixes_line fix)
            \<lparr>fx_fixer = f, fx_files = [], fx_long = [], fx_cur = None, fx_fixed = None, fx_lines = None\<rparr> (splitlines content)
      in map_res (\<lambda>files. (files, fx_fixer st)) (foldl_res close_comments (fx_files st) (fx_long st)))"

text \<open>The entry of a file as the option \<open>ignore\<close> of \<open>ReportFile\<close>.\<close>

definition ignore_of :: "fix_entry \<Rightarrow> ignore" where
  "ignore_of e = \<lparr>ig_eof = map_option EofInt (fe_eof e), ig_lines = (case fe_lines e of None \<Rightarrow> [] | Some ls \<Rightarrow> ls)\<rparr>"

section \<open>Lemmas\<close>

lemma startswith_contains: "startswith s p \<Longrightarrow> contains s p"
  by (cases s) (auto simp: startswith_def)

text \<open>A text that ends with a line feed and has no separator in it hides none at its end.\<close>

definition block_clean :: "string \<Rightarrow> bool" where
  "block_clean a \<longleftrightarrow> (a = [] \<or> last a = newline) \<and> \<not> contains a common_base"

lemma block_clean_tl: "block_clean (c # a) \<Longrightarrow> block_clean a"
  by (auto simp: block_clean_def common_base_def split: if_splits)

lemma block_clean_start:
  assumes "block_clean (c # a)"
  shows "\<not> startswith ((c # a) @ r) common_base"
proof
  assume s: "startswith ((c # a) @ r) common_base"
  show False
  proof (cases "length common_base \<le> length (c # a)")
    case True
    then have "startswith (c # a) common_base" using s by (simp add: startswith_def del: length_Cons append_Cons)
    then show False using assms by (auto simp: block_clean_def)
  next
    case False
    then have "take (length (c # a)) common_base = c # a"
      using s by (metis append_eq_conv_conj append_take_drop_id less_or_eq_imp_le linorder_le_less_linear min.absorb1 startswith_def take_append take_all_iff take_take)
    moreover have "last (c # a) \<in> set (c # a)" by (rule last_in_set) simp
    ultimately have "last (c # a) \<in> set common_base" by (metis in_set_takeD)
    then show False using assms by (simp add: block_clean_def common_base_def newline_def)
  qed
qed

lemma find_in_block: "block_clean a \<Longrightarrow> find_in common_base n (a @ common_base @ r) = Some (n + length a)"
proof (induction a arbitrary: n)
  case Nil
  have "common_base @ r = CHR ''<'' # drop 1 common_base @ r" by (simp add: common_base_def)
  then show ?case using startswith_append [of common_base r] by (metis append_Nil find_in.simps(2) list.size(3) add_0_right)
next
  case (Cons c a)
  then show ?case using block_clean_start [OF Cons.prems, of "common_base @ r"] block_clean_tl [OF Cons.prems] by simp
qed

lemma find_in_none: "block_clean a \<Longrightarrow> find_in common_base n a = None"
proof (induction a arbitrary: n)
  case Nil
  then show ?case by (simp add: common_base_def)
next
  case (Cons c a)
  then show ?case using block_clean_start [OF Cons.prems, of "[]"] block_clean_tl [OF Cons.prems] by simp
qed

lemma separators_at:
  "filter (\<lambda>s. startswith (eof_separator @ r) s) separator_lines = [eof_separator]"
  "filter (\<lambda>s. startswith (network_separator @ r) s) separator_lines = [network_separator]"
  by (simp_all add: separator_lines_def network_separator_def env_separator_def eof_separator_def startswith_def)

lemma separator_base:
  "eof_separator = common_base @ drop 6 eof_separator" "network_separator = common_base @ drop 6 network_separator"
  by (simp_all add: common_base_def eof_separator_def network_separator_def)

lemma find_place_block:
  assumes "raw = pre @ a @ sep @ r" "block_clean a" "sep = eof_separator \<or> sep = network_separator"
  shows "find_place_to_cut raw (length pre) = (length pre + length a, sep) # find_place_to_cut raw (length pre + length a + length sep)"
proof -
  have "sep = common_base @ drop 6 sep" using assms(3) separator_base by metis
  then have "drop (length pre) raw = a @ common_base @ drop 6 sep @ r" using assms(1) by (metis append.assoc append_eq_conv_conj)
  then have f: "find_from raw common_base (length pre) = Some (length pre + length a)"
    using find_in_block [OF assms(2), of "length pre" "drop 6 sep @ r"] by (simp add: find_from_def)
  have d: "drop (length pre + length a) raw = sep @ r" by (simp add: assms(1))
  have "filter (\<lambda>s. startswith (drop (length pre + length a) raw) s) separator_lines = [sep]"
    unfolding d using assms(3) separators_at by blast
  with f show ?thesis by (subst find_place_to_cut.simps) (simp add: assms(1) Let_def)
qed

lemma find_place_end: "raw = pre @ a \<Longrightarrow> block_clean a \<Longrightarrow> find_place_to_cut raw (length pre) = []"
  using find_in_none [of a "length pre"] by (subst find_place_to_cut.simps) (simp add: find_from_def)

subsection \<open>The text of a list of files\<close>

definition file_head :: "uploaded_file \<Rightarrow> string" where
  "file_head f = path_line @ name_str (uf_filename f) @ [newline] @ uf_contents f @ [newline]"

lemma file_text_head: "file_text f = file_head f @ eof_separator @ [newline, newline]"
  by (simp add: file_text_def file_head_def)

definition gap :: "string \<Rightarrow> bool" where
  "gap g \<longleftrightarrow> g = [] \<or> g = [newline, newline]"

fun places_of :: "nat \<Rightarrow> nat \<Rightarrow> uploaded_file list \<Rightarrow> (nat \<times> string) list" where
  "places_of n g [] = []"
| "places_of n g (f # fs) =
     (let p = n + g + length (file_head f) in (p, eof_separator) # places_of (p + length eof_separator) 2 fs)"

text \<open>Files whose text can be cut out of an upload again.\<close>

definition plain_file :: "codec \<Rightarrow> uploaded_file \<Rightarrow> bool" where
  "plain_file cd f \<longleftrightarrow>
     (\<exists>name. uf_filename f = Some name \<and> newline \<notin> set name \<and> strip (name @ [newline]) = name \<and> name \<noteq> ''fixes'' \<and>
        split_str path_line (path_line @ name @ [newline]) = [[], name @ [newline]] \<and>
        decode_strict cd (name @ [newline]) = Inr (name @ [newline])) \<and>
     uf_contents f \<noteq> [] \<and> \<not> is_ws (hd (uf_contents f)) \<and> \<not> is_ws (last (uf_contents f)) \<and> uf_labels f = None \<and>
     \<not> contains ([newline, newline] @ file_head f) common_base"

lemma gap_head_clean: "gap g \<Longrightarrow> plain_file cd f \<Longrightarrow> block_clean (g @ file_head f)"
  by (auto simp: gap_def plain_file_def block_clean_def file_head_def)

lemma gap_clean: "gap g \<Longrightarrow> block_clean g"
  by (auto simp: gap_def block_clean_def common_base_def newline_def startswith_def)

lemma find_places_files:
  assumes "raw = pre @ g @ concat (map file_text fs)" "gap g" "\<forall>f \<in> set fs. plain_file cd f"
  shows "find_place_to_cut raw (length pre) = places_of (length pre) (length g) fs"
  using assms
proof (induction fs arbitrary: pre g)
  case Nil
  then show ?case using find_place_end gap_clean by simp
next
  case (Cons f fs)
  let ?pre = "pre @ (g @ file_head f) @ eof_separator" and ?g = "[newline, newline]"
  have raw: "raw = pre @ (g @ file_head f) @ eof_separator @ (?g @ concat (map file_text fs))"
    using Cons.prems(1) by (simp add: file_text_head [of f])
  have "block_clean (g @ file_head f)" using Cons.prems by (auto intro: gap_head_clean)
  note find_place_block [OF raw this, simplified]
  moreover have "find_place_to_cut raw (length ?pre) = places_of (length ?pre) (length ?g) fs"
    by (rule Cons.IH) (use raw Cons.prems in \<open>simp_all add: gap_def\<close>)
  ultimately show ?case by (simp add: Let_def add.assoc numeral_2_eq_2)
qed

subsection \<open>Cutting out one file\<close>

lemma io_lines_first: "newline \<notin> set l \<Longrightarrow> hd (io_lines (l @ newline # r)) = l @ [newline]"
proof (induction l)
  case Nil
  then show ?case by simp
next
  case (Cons c l)
  then have "io_lines (l @ newline # r) \<noteq> []" by (cases l) (auto split: list.splits)
  with Cons show ?case by (cases "io_lines (l @ newline # r)") auto
qed

lemma is_ws_newline [simp]: "is_ws newline"
  by (simp add: is_ws_def newline_def char_in_def)

lemma takeWhile_hd: "xs \<noteq> [] \<Longrightarrow> \<not> P (hd xs) \<Longrightarrow> takeWhile P (xs @ ys) = []"
  by (cases xs) auto

lemma cut_file:
  assumes raw: "raw = pre @ g @ file_head f @ post" and g: "gap g" and f: "plain_file cd f"
  shows "cut_section cd raw (length pre, length pre + length g + length (file_head f), sep) =
    Inr (Some \<lparr>us_contents = uf_contents f, us_filename = uf_filename f, us_footer = sep\<rparr>)"
proof -
  from f obtain name where n: "uf_filename f = Some name" "newline \<notin> set name" "strip (name @ [newline]) = name"
    "split_str path_line (path_line @ name @ [newline]) = [[], name @ [newline]]"
    "decode_strict cd (name @ [newline]) = Inr (name @ [newline])" by (auto simp: plain_file_def)
  let ?c = "uf_contents f" and ?first = "path_line @ name @ [newline]"
  have c: "?c \<noteq> []" "\<not> is_ws (hd ?c)" "\<not> is_ws (last ?c)" using f by (auto simp: plain_file_def)
  have head: "file_head f = ?first @ ?c @ [newline]" by (simp add: file_head_def n(1) name_str_def)
  have hash: "takeWhile is_ws (file_head f @ x) = []" for x
    by (simp add: head path_line_def is_ws_def char_in_def)
  have hash': "dropWhile is_ws (file_head f) = file_head f" using hash [of "[]"]
    by (metis append_Nil2 append_Nil takeWhile_dropWhile_id)
  have ws_g: "takeWhile is_ws (g @ x) = g @ takeWhile is_ws x" "dropWhile is_ws (g @ x) = dropWhile is_ws x" for x
    using g by (auto simp: gap_def)
  have sec: "take (length pre + length g + length (file_head f) - length pre) (drop (length pre) raw) = g @ file_head f"
    by (simp add: raw)
  have lead: "length (takeWhile is_ws (g @ file_head f)) = length g" using hash [of "[]"] by (simp add: ws_g)
  have trail: "takeWhile is_ws (rev (dropWhile is_ws (g @ file_head f))) = [newline]"
    using c by (simp add: ws_g hash') (simp add: head takeWhile_hd hd_rev)
  have d1: "drop (length pre + length g) raw = ?first @ ?c @ newline # post" by (simp add: raw head)
  have first: "hd (io_lines (drop (length pre + length g) raw)) = ?first"
    using io_lines_first [of "path_line @ name" "?c @ newline # post"] n(2)
    by (simp add: d1 path_line_def newline_def)
  have d2: "drop (length pre + length g + length ?first) raw = ?c @ newline # post" by (simp add: raw head)
  have len: "length (file_head f) = length ?first + length ?c + 1" by (simp add: head)
  have tw: "takeWhile is_ws (take (length ?c) (?c @ newline # post)) = []" using takeWhile_hd [of ?c is_ws "[]"] c by simp
  have stop: "length pre + length g + length (file_head f) - length [newline] = length pre + length g + (length ?first + length ?c)"
    by (simp add: len)
  have sw: "startswith (drop (length pre + length g) raw) path_line"
    unfolding d1 append.assoc by (rule startswith_append)
  have pos: "length pre + length g < length pre + length g + (length ?first + length ?c)" by simp
  have gt: "length pre + length g + (length ?first + length ?c) - (length pre + length g + length ?first) = length ?c" by simp
  show ?thesis
    unfolding cut_section_def prod.case Let_def sec lead trail stop
    by (simp only: sw pos if_True first n(4) list.sel n(5) bind_res_simps d2 gt tw list.size add_0_right n(3) n(1)) simp
qed

subsection \<open>The sections of an upload\<close>

fun chain :: "nat \<Rightarrow> nat \<Rightarrow> (nat \<times> string) list \<Rightarrow> (nat \<times> nat \<times> string option) list" where
  "chain start n [] = [(start, n, None)]"
| "chain start n ((p, s) # ps) = (start, p, Some s) # chain (p + length s) n ps"

lemma between_chain:
  "ps \<noteq> [] \<Longrightarrow> (a, fst (hd ps), Some (snd (hd ps))) # between ps @ [(fst (last ps) + length (snd (last ps)), n, None)] = chain a n ps"
proof (induction ps arbitrary: a rule: between.induct)
  case (1 p s q t places)
  from "1.IH" [of "p + length s"] show ?case by simp
qed auto

lemma sections_chain:
  assumes "sorted (map fst (find_place_to_cut raw 0))"
  shows "get_sections_to_cut raw = chain 0 (length raw) (find_place_to_cut raw 0)"
  using between_chain [of "find_place_to_cut raw 0" 0 "length raw"] sort_key_id_if_sorted [OF assms]
  by (simp add: get_sections_to_cut_def Let_def)

lemma places_of_ge: "p \<in> set (places_of n g fs) \<Longrightarrow> n \<le> fst p"
  by (induction n g fs rule: places_of.induct) (auto simp: Let_def)

lemma places_of_sorted: "sorted (map fst (places_of n g fs))"
proof (induction n g fs rule: places_of.induct)
  case (2 n g f fs)
  then show ?case by (auto simp: Let_def dest!: places_of_ge)
qed simp

definition section_of :: "uploaded_file \<Rightarrow> upload_section" where
  "section_of f = \<lparr>us_contents = uf_contents f, us_filename = uf_filename f, us_footer = Some eof_separator\<rparr>"

lemma cut_chain:
  assumes "raw = pre @ g @ concat (map file_text fs)" "gap g" "\<forall>f \<in> set fs. plain_file cd f"
  shows "traverse (cut_section cd raw) (chain (length pre) (length raw) (places_of (length pre) (length g) fs)) =
    Inr (map (\<lambda>f. Some (section_of f)) fs @ [None])"
  using assms
proof (induction fs arbitrary: pre g)
  case Nil
  then show ?case by (auto simp: gap_def cut_section_def Let_def)
next
  case (Cons f fs)
  let ?pre = "pre @ g @ file_head f @ eof_separator" and ?g = "[newline, newline]"
  have raw: "raw = pre @ g @ file_head f @ (eof_separator @ ?g @ concat (map file_text fs))"
    using Cons.prems(1) by (simp add: file_text_head [of f])
  have "cut_section cd raw (length pre, length pre + length g + length (file_head f), Some eof_separator) = Inr (Some (section_of f))"
    using cut_file [OF raw Cons.prems(2)] Cons.prems(3) by (simp add: section_of_def)
  moreover have "traverse (cut_section cd raw) (chain (length ?pre) (length raw) (places_of (length ?pre) (length ?g) fs)) =
      Inr (map (\<lambda>f. Some (section_of f)) fs @ [None])"
    by (rule Cons.IH) (use raw Cons.prems in \<open>simp_all add: gap_def\<close>)
  ultimately show ?case by (simp add: Let_def add.assoc numeral_2_eq_2)
qed

lemma add_file_sections:
  assumes "\<forall>f \<in> set fs. plain_file cd f"
  shows "foldl add_section pu (map section_of fs) = pu\<lparr>pu_files := pu_files pu @ fs\<rparr>"
  using assms
proof (induction fs arbitrary: pu)
  case Nil
  then show ?case by simp
next
  case (Cons f fs)
  have "add_section pu (section_of f) = pu\<lparr>pu_files := pu_files pu @ [f]\<rparr>"
    using Cons.prems by (cases f) (auto simp: plain_file_def add_section_def section_of_def network_separator_def env_separator_def eof_separator_def)
  with Cons show ?case by simp
qed

lemma somes_Some [simp]: "somes (map (\<lambda>f. Some (h f)) fs) = map h fs"
  by (induction fs) simp_all

subsection \<open>The table of contents\<close>

definition plain_toc :: "string list \<Rightarrow> bool" where
  "plain_toc ps \<longleftrightarrow> ps \<noteq> [] \<and> (let x = join_with newline ps
     in x \<noteq> [] \<and> \<not> is_ws (hd x) \<and> \<not> is_ws (last x) \<and> \<not> contains (x @ [newline]) common_base \<and> \<not> startswith (x @ [newline]) path_line)"

lemma toc_text: "ps \<noteq> [] \<Longrightarrow> concat (map (\<lambda>p. p @ [newline]) ps) = join_with newline ps @ [newline]"
  by (induction newline ps rule: join_with.induct) auto

lemma not_path_line:
  assumes "\<not> startswith (x @ [newline]) path_line"
  shows "\<not> startswith (x @ newline # r) path_line"
proof
  assume s: "startswith (x @ newline # r) path_line"
  show False
  proof (cases "length path_line \<le> length (x @ [newline])")
    case True
    then have "take (length path_line) (x @ newline # r) = take (length path_line) (x @ [newline])"
      by (simp add: take_Cons')
    with s assms show False by (simp add: startswith_def)
  next
    case False
    then have "newline \<in> set (take (length path_line) (x @ newline # r))" by (simp add: take_Cons')
    then have "newline \<in> set path_line" using s unfolding startswith_def by metis
    then show False by (simp add: path_line_def newline_def)
  qed
qed

lemma cut_toc:
  assumes "plain_toc ps" "raw = (join_with newline ps @ [newline]) @ r"
  shows "cut_section cd raw (0, length (join_with newline ps) + 1, sep) =
    Inr (Some \<lparr>us_contents = join_with newline ps, us_filename = None, us_footer = sep\<rparr>)"
proof -
  let ?x = "join_with newline ps"
  have x: "?x \<noteq> []" "\<not> is_ws (hd ?x)" "\<not> is_ws (last ?x)" using assms(1) by (simp_all add: plain_toc_def Let_def)
  have lead: "takeWhile is_ws (?x @ y) = []" for y using x(1,2) by (rule takeWhile_hd)
  have "dropWhile is_ws (?x @ [newline]) = ?x @ [newline]" using lead [of "[newline]"] by (metis append_Nil takeWhile_dropWhile_id)
  then have trail: "takeWhile is_ws (rev (dropWhile is_ws (?x @ [newline]))) = [newline]"
    using x by (simp add: takeWhile_hd [of "rev ?x" is_ws "[]", simplified] hd_rev)
  have "\<not> startswith raw path_line"
    using assms(2) not_path_line [of ?x r] assms(1) by (simp add: plain_toc_def Let_def)
  then show ?thesis using x(1) lead [of "[newline]"] trail by (simp add: cut_section_def Let_def assms(2))
qed

section \<open>Properties\<close>

text \<open>
  C13. An upload written in the legacy format is read back as it was: the table of contents and every
  uploaded file with its name and its contents. The files have names without line breaks and contents
  that do not start or end with whitespace, and nothing in them looks like a separator or the
  marker that ends an upload.
\<close>

theorem upload_roundtrip:
  assumes "\<forall>f \<in> set files. plain_file cd f" "\<forall>ps. toc = Some ps \<longrightarrow> plain_toc ps"
    and "find_from (upload_content toc files) ignore_from_now_on_marker 0 = None"
  shows "parse_raw_report_from_bytes cd (upload_content toc files) =
    Inr \<lparr>pu_toc = map_option (join_with newline) toc, pu_env = None, pu_files = files, pu_fixes = None\<rparr>"
proof (cases toc)
  case None
  let ?raw = "upload_content None files"
  have raw: "?raw = [] @ [] @ concat (map file_text files)" by (simp add: upload_content_def)
  have p: "find_place_to_cut ?raw 0 = places_of 0 0 files"
    using find_places_files [OF raw _ assms(1)] by (simp add: gap_def)
  have "traverse (cut_section cd ?raw) (get_sections_to_cut ?raw) = Inr (map (\<lambda>f. Some (section_of f)) files @ [None])"
    using cut_chain [OF raw _ assms(1)] sections_chain [of ?raw] by (simp add: p places_of_sorted gap_def)
  then show ?thesis using assms(3) None
    by (simp add: parse_raw_report_from_bytes_def before_marker_def cut_sections_def generate_parsed_report_def add_file_sections [OF assms(1)])
next
  case (Some ps)
  let ?raw = "upload_content (Some ps) files" and ?x = "join_with newline ps" and ?g = "[newline, newline]"
  have toc: "plain_toc ps" "ps \<noteq> []" using assms(2) Some by (auto simp: plain_toc_def)
  have raw: "?raw = (?x @ [newline]) @ network_separator @ (?g @ concat (map file_text files))"
    using toc by (simp add: upload_content_def toc_text)
  then have raw1: "?raw = [] @ (?x @ [newline]) @ network_separator @ (?g @ concat (map file_text files))"
    and raw2: "?raw = ((?x @ [newline]) @ network_separator) @ ?g @ concat (map file_text files)" by simp_all
  let ?pre = "(?x @ [newline]) @ network_separator"
  have clean: "block_clean (?x @ [newline])" using toc(1) by (simp add: plain_toc_def block_clean_def Let_def)
  have "find_place_to_cut ?raw (length ?pre) = places_of (length ?pre) 2 files"
    using find_places_files [OF raw2 _ assms(1)] by (simp add: gap_def numeral_2_eq_2)
  then have p: "find_place_to_cut ?raw 0 = (length ?x + 1, network_separator) # places_of (length ?pre) 2 files"
    using find_place_block [OF raw1 clean] by simp
  have "sorted (map fst (find_place_to_cut ?raw 0))"
    using places_of_sorted [of "length ?pre" 2 files] by (auto simp: p dest!: places_of_ge)
  note sections_chain [OF this]
  moreover have "traverse (cut_section cd ?raw) (chain (length ?pre) (length ?raw) (places_of (length ?pre) 2 files)) =
      Inr (map (\<lambda>f. Some (section_of f)) files @ [None])"
    using cut_chain [OF raw2 _ assms(1)] by (simp add: gap_def numeral_2_eq_2)
  ultimately have "cut_sections cd ?raw =
      Inr (\<lparr>us_contents = ?x, us_filename = None, us_footer = Some network_separator\<rparr> # map section_of files)"
    using cut_toc [OF toc(1) raw, of cd "Some network_separator"] by (simp add: cut_sections_def p)
  then show ?thesis using assms(3) Some
    by (simp add: parse_raw_report_from_bytes_def before_marker_def generate_parsed_report_def add_section_def add_file_sections [OF assms(1)])
qed

theorem upload_roundtrip_witness:
  "parse_raw_report_from_bytes \<lparr>decode_strict = Inr, decode_replace = (\<lambda>s. s)\<rparr>
     (upload_content (Some [''src/a.py'', ''b.py'']) [\<lparr>uf_filename = Some ''cov.xml'', uf_contents = ''<coverage/>'', uf_labels = None\<rparr>]) =
   Inr \<lparr>pu_toc = Some (join_with newline [''src/a.py'', ''b.py'']), pu_env = None,
     pu_files = [\<lparr>uf_filename = Some ''cov.xml'', uf_contents = ''<coverage/>'', uf_labels = None\<rparr>], pu_fixes = None\<rparr>"
proof -
  let ?cd = "\<lparr>decode_strict = Inr, decode_replace = (\<lambda>s. s)\<rparr>"
  let ?f = "\<lparr>uf_filename = Some ''cov.xml'', uf_contents = ''<coverage/>'', uf_labels = None\<rparr> :: uploaded_file"
  have s: "strip (''cov.xml'' @ [newline]) = ''cov.xml''" "\<not> contains ([newline, newline] @ file_head ?f) common_base"
    "split_str path_line (path_line @ ''cov.xml'' @ [newline]) = [[], ''cov.xml'' @ [newline]]"
    "\<not> is_ws (CHR ''<'')" "\<not> is_ws (CHR ''>'')" "newline \<notin> set ''cov.xml''" by code_simp+
  have f: "\<forall>f \<in> set [?f]. plain_file ?cd f" unfolding plain_file_def using s by simp
  have "plain_toc [''src/a.py'', ''b.py'']" by code_simp
  moreover have "find_from (upload_content (Some [''src/a.py'', ''b.py'']) [?f]) ignore_from_now_on_marker 0 = None" by code_simp
  ultimately show ?thesis using upload_roundtrip [OF f, of "Some [''src/a.py'', ''b.py'']"] by simp
qed

text \<open>
  The fixes of a file that the path fixer drops are applied to another file: only the first line of a
  dropped file is skipped, the others are added to the file before it. And a file whose \<open>EOF\<close> line comes
  first makes the fixes of the whole upload fail when it has a long comment.
\<close>

theorem fixes_of_dropped_file:
  "get_fixes_from_raw (\<lambda>_ p. Inr (if p = ''b.c'' then None else Some p, ())) ()
     (''a.c:1'' @ [newline] @ ''b.c:7'' @ [newline] @ ''b.c:8'') =
   Inr ([(Some ''a.c'', \<lparr>fe_eof = None, fe_lines = Some [1, 8]\<rparr>)], ())"
  by code_simp

theorem fixes_eof_first:
  "get_fixes_from_raw (\<lambda>_ p. Inr (Some p, ())) ()
     (''EOF: 10 a.c'' @ [newline] @ ''a.c:1'' @ [newline] @ ''a.c:2:/*'' @ [newline] @ ''a.c:5:*/'') = Inl KeyError"
  by code_simp

end
