(* ===== verification/Report_Builder.thy ===== *)
theory Report_Builder
  imports Upload_Format Report
begin

text \<open>
  Building a report out of an uploaded file (apps/worker/services/report/report_builder.py): the
  builder session that the language processors fill. The path fixer and its state \<open>'f\<close> are a
  parameter of the builder, so that the model of the processors does not depend on it.
\<close>

datatype coverage_type = CT_line | CT_branch | CT_method

fun map_to_string :: "coverage_type \<Rightarrow> string option" where
  "map_to_string CT_line = None"
| "map_to_string CT_branch = Some ''b''"
| "map_to_string CT_method = Some ''m''"

text \<open>The path fixer of a report also gets directories to try before a path.\<close>

type_synonym 'f based_fixer = "'f \<Rightarrow> string \<Rightarrow> string list \<Rightarrow> (string option \<times> 'f) res"

record 'f report_builder =
  bu_yaml :: json
  bu_sessionid :: int
  bu_ignored :: "(string option, fix_entry) dict"
  bu_fix :: "'f based_fixer"

text \<open>A session: the path of the uploaded file, the report so far and the state of the path fixer.\<close>

record 'f builder_session =
  bs_filepath :: string
  bs_report :: report
  bs_fixer :: 'f

definition create_report_builder_session :: "string \<Rightarrow> 'f \<Rightarrow> 'f builder_session" where
  "create_report_builder_session filepath f = \<lparr>bs_filepath = filepath, bs_report = empty_report, bs_fixer = f\<rparr>"

definition path_fix_bases :: "'f report_builder \<Rightarrow> 'f builder_session \<Rightarrow> string \<Rightarrow> string list \<Rightarrow> (string option \<times> 'f builder_session) res" where
  "path_fix_bases bu st path bases = map_res (\<lambda>(p, f). (p, st\<lparr>bs_fixer := f\<rparr>)) (bu_fix bu (bs_fixer st) path bases)"

definition path_fix :: "'f report_builder \<Rightarrow> 'f builder_session \<Rightarrow> string \<Rightarrow> (string option \<times> 'f builder_session) res" where
  "path_fix bu st path = path_fix_bases bu st path []"

definition yaml_field :: "'f report_builder \<Rightarrow> string list \<Rightarrow> json \<Rightarrow> json" where
  "yaml_field bu keys dflt = read_yaml_field (bu_yaml bu) keys dflt"

definition new_file :: "'f report_builder \<Rightarrow> string \<Rightarrow> report_file" where
  "new_file bu path = ReportFile path None [] None (map_option ignore_of (dict_get (bu_ignored bu) (Some path)))"

definition create_coverage_file :: "'f report_builder \<Rightarrow> 'f builder_session \<Rightarrow> string \<Rightarrow> bool \<Rightarrow> (report_file option \<times> 'f builder_session) res" where
  "create_coverage_file bu st path do_fix_path =
     bind_res (if do_fix_path then path_fix bu st path else Inr (Some path, st)) (\<lambda>(p, st').
       Inr (case p of Some q \<Rightarrow> if q = [] then None else Some (new_file bu q) | None \<Rightarrow> None, st'))"

definition create_coverage_line ::
  "'f report_builder \<Rightarrow> cov \<Rightarrow> coverage_type option \<Rightarrow> partial list option \<Rightarrow> branch_id list option \<Rightarrow> complexity option \<Rightarrow> report_line" where
  "create_coverage_line bu c ty partials missing_branches cx =
     ReportLine_create c (case ty of None \<Rightarrow> None | Some t \<Rightarrow> map_to_string t)
       [LineSession (bu_sessionid bu) c missing_branches partials cx] cx"

definition session_append :: "'f builder_session \<Rightarrow> report_file \<Rightarrow> 'f builder_session res" where
  "session_append st f = map_res (\<lambda>(_, r). st\<lparr>bs_report := r\<rparr>) (r_append (bs_report st) (Some f) True False)"

definition session_resolve_paths :: "'f builder_session \<Rightarrow> (string \<times> string option) list \<Rightarrow> 'f builder_session res" where
  "session_resolve_paths st paths = map_res (\<lambda>r. st\<lparr>bs_report := r\<rparr>) (r_resolve_paths (bs_report st) paths)"

section \<open>Shapes that the processors share\<close>

text \<open>\<open>_file.append(ln, create_coverage_line(...))\<close>.\<close>

definition append_line :: "'f report_builder \<Rightarrow> report_file \<Rightarrow> int \<Rightarrow> cov \<Rightarrow> coverage_type option \<Rightarrow> report_file res" where
  "append_line bu f lno c ty = map_res snd (rf_append f lno (create_coverage_line bu c ty None None None))"

text \<open>Create the file of a path, fill it, and append it; a path that is not wanted is skipped.\<close>

definition with_file :: "'f report_builder \<Rightarrow> 'f builder_session \<Rightarrow> string \<Rightarrow> (report_file \<Rightarrow> report_file res) \<Rightarrow> 'f builder_session res" where
  "with_file bu st path body =
     bind_res (create_coverage_file bu st path True) (\<lambda>(f, st').
       case f of
         None \<Rightarrow> Inr st'
       | Some file \<Rightarrow> bind_res (body file) (session_append st'))"

text \<open>\<open>enumerate(xs, start=n)\<close>.\<close>

definition enumerate_from :: "int \<Rightarrow> 'a list \<Rightarrow> (int \<times> 'a) list" where
  "enumerate_from n xs = zip [n..n + int (length xs) - 1] xs"

section \<open>JSON values in reports\<close>

text \<open>
  A JSON value as the coverage of a line. Floats and nested values are no coverage values of the
  model.
\<close>

fun cov_of :: "json \<Rightarrow> cov res" where
  "cov_of JNull = Inr CovNone"
| "cov_of (JBool b) = Inr (CovBool b)"
| "cov_of (JInt i) = Inr (CovInt i)"
| "cov_of (JStr s) = Inr (CovStr s)"
| "cov_of _ = Inl NotModelled"

fun obj_items :: "json \<Rightarrow> (string \<times> json) list res" where
  "obj_items (JObj kvs) = Inr kvs"
| "obj_items _ = Inl AttributeError"

text \<open>\<open>k in v\<close> for a string \<open>k\<close>: a key, an element or a part of a text.\<close>

fun j_in :: "string \<Rightarrow> json \<Rightarrow> bool res" where
  "j_in k (JObj kvs) = Inr (k \<in> set (dict_keys kvs))"
| "j_in k (JList xs) = Inr (JStr k \<in> set xs)"
| "j_in k (JStr s) = Inr (contains s k)"
| "j_in k _ = Inl TypeError"

text \<open>An integer of a report, where the code computes or compares with it; \<open>True\<close> counts as 1.\<close>

fun j_int :: "json \<Rightarrow> int res" where
  "j_int (JInt i) = Inr i"
| "j_int (JBool b) = Inr (if b then 1 else 0)"
| "j_int (JFloat q) = Inl NotModelled"
| "j_int _ = Inl TypeError"

text \<open>\<open>int(v)\<close>.\<close>

fun j_to_int :: "json \<Rightarrow> int res" where
  "j_to_int (JInt i) = Inr i"
| "j_to_int (JBool b) = Inr (if b then 1 else 0)"
| "j_to_int (JFloat q) = Inr (if q < 0 then \<lceil>q\<rceil> else \<lfloor>q\<rfloor>)"
| "j_to_int (JStr s) = py_int s"
| "j_to_int _ = Inl TypeError"

text \<open>Iterating over a dictionary gives its keys.\<close>

definition iter_json :: "json \<Rightarrow> json list res" where
  "iter_json v = (case v of JList xs \<Rightarrow> Inr xs | JObj kvs \<Rightarrow> Inr (map (\<lambda>p. JStr (fst p)) kvs) | JStr s \<Rightarrow> Inr (map (\<lambda>c. JStr [c]) s) | _ \<Rightarrow> Inl TypeError)"

text \<open>A number of a report that the model only handles as an integer.\<close>

definition count_of :: "json \<Rightarrow> int res" where
  "count_of v = (case v of JInt i \<Rightarrow> Inr i | _ \<Rightarrow> Inl NotModelled)"

definition opt_int :: "json \<Rightarrow> int option res" where
  "opt_int v = (case v of JNull \<Rightarrow> Inr None | _ \<Rightarrow> map_res Some (j_int v))"

section \<open>Reports of one session\<close>

text \<open>Every session in the lines of a file is \<open>i\<close>, and its path is wanted.\<close>

definition file_of_session :: "int \<Rightarrow> (string \<Rightarrow> bool) \<Rightarrow> report_file \<Rightarrow> bool" where
  "file_of_session i W f \<longleftrightarrow> session_ids_in (rf_lines f) \<subseteq> {i} \<and> W (rf_name f)"

text \<open>A path fixer with the invariant \<open>J\<close> that returns only wanted paths.\<close>

definition fixer_ok :: "'f fixer \<Rightarrow> ('f \<Rightarrow> bool) \<Rightarrow> (string \<Rightarrow> bool) \<Rightarrow> bool" where
  "fixer_ok fix J W \<longleftrightarrow> (\<forall>x p r y. J x \<longrightarrow> fix x p = Inr (r, y) \<longrightarrow> J y \<and> (\<forall>q. r = Some q \<longrightarrow> W q))"

definition fixers_ok :: "'f based_fixer \<Rightarrow> ('f \<Rightarrow> bool) \<Rightarrow> (string \<Rightarrow> bool) \<Rightarrow> bool" where
  "fixers_ok fix J W \<longleftrightarrow> (\<forall>bases. fixer_ok (\<lambda>x p. fix x p bases) J W)"

text \<open>A builder session whose report has only lines of the session and only wanted paths so far.\<close>

definition building :: "'f report_builder \<Rightarrow> ('f \<Rightarrow> bool) \<Rightarrow> (string \<Rightarrow> bool) \<Rightarrow> 'f builder_session \<Rightarrow> bool" where
  "building bu J W st \<longleftrightarrow> fixers_ok (bu_fix bu) J W \<and> J (bs_fixer st) \<and>
     wf_report (bs_report st) \<and> r_sessions (bs_report st) = [] \<and>
     (\<forall>f \<in> set (dict_values (r_files (bs_report st))). file_of_session (bu_sessionid bu) W f)"

lemma dict_of_values: "set (dict_values (dict_of kvs)) \<subseteq> snd ` set kvs"
proof -
  have "set (dict_values (foldl (\<lambda>d p. dict_set d (fst p) (snd p)) d kvs)) \<subseteq> set (dict_values d) \<union> snd ` set kvs" for d
  proof (induction kvs arbitrary: d)
    case (Cons p kvs)
    from Cons [of "dict_set d (fst p) (snd p)"] values_dict_set [of d "fst p" "snd p"] show ?case by auto
  qed simp
  from this [of "[]"] show ?thesis by (simp add: dict_of_def dict_values_def)
qed

lemma merge_common_ids:
  "merge_common d1 d2 = Inr d \<Longrightarrow> ls_id ` set (dict_values d) = ls_id ` set (dict_values d1)"
proof (induction d1 arbitrary: d)
  case Nil
  then show ?case by (simp add: merge_common_def)
next
  case (Cons p d1)
  obtain j s where p: "p = (j, s)" by (cases p)
  from Cons.prems obtain t e where "d = (j, t) # e" "merge_common d1 d2 = Inr e" "ls_id t = ls_id s"
    by (auto simp: merge_common_def p merge_line_session_id split: option.splits)
  with Cons.IH p show ?case by (auto simp: dict_values_def)
qed

lemma merge_sessions_subset:
  assumes "merge_sessions s1 s2 = Inr r"
  shows "ls_id ` set r \<subseteq> ls_id ` set s1 \<union> ls_id ` set s2"
proof (cases "s1 = [] \<or> s2 = [] \<or> ls_id ` set s1 \<inter> ls_id ` set s2 = {}")
  case True
  with assms show ?thesis by (auto simp: merge_sessions_def split: if_splits)
next
  case False
  let ?d1 = "sessions_dict s1" and ?d2 = "sessions_dict s2"
  obtain d where d: "merge_common ?d1 ?d2 = Inr d" "r = dict_values d @ dict_values (dict_dels ?d2 (dict_keys ?d1))"
    using assms False by (auto simp: merge_sessions_def Let_def)
  have v: "set (dict_values (sessions_dict ss)) \<subseteq> set ss" for ss
    using dict_of_values [of "map (\<lambda>s. (ls_id s, s)) ss"] by (auto simp: sessions_dict_def)
  have "ls_id ` set (dict_values d) \<subseteq> ls_id ` set s1"
    using merge_common_ids [OF d(1)] v [of s1] by (auto simp: dict_values_def)
  moreover have "ls_id ` set (dict_values (dict_dels ?d2 (dict_keys ?d1))) \<subseteq> ls_id ` set s2"
    using v [of s2] by (auto simp: dict_dels_filter dict_values_def)
  ultimately show ?thesis using d(2) by auto
qed

lemma merge_line_subset:
  assumes "merge_line a b j d = Inr (Some l)"
  shows "line_session_ids l \<subseteq> (case a of None \<Rightarrow> {} | Some x \<Rightarrow> line_session_ids x) \<union> (case b of None \<Rightarrow> {} | Some y \<Rightarrow> line_session_ids y)"
proof -
  have "ls_id ` set (rl_sessions l) \<subseteq> ls_id ` set (rl_sessions x) \<union> ls_id ` set (rl_sessions y)"
    if "a = Some x" "b = Some y" for x y
  proof -
    from assms that consider "rl_sessions l = rl_sessions x @ rl_sessions y"
      | "merge_sessions (rl_sessions x) (rl_sessions y) = Inr (rl_sessions l)"
      by (auto simp: merge_line_def split: if_splits)
    then show ?thesis by cases (auto simp: image_Un dest: merge_sessions_subset)
  qed
  with assms show ?thesis by (cases a; cases b) (simp_all add: merge_line_def line_session_ids_def)
qed

lemma session_ids_put:
  "1 \<le> n \<Longrightarrow> session_ids_in (put_line n x ls) \<subseteq> session_ids_in ls \<union> (case x of None \<Rightarrow> {} | Some l \<Rightarrow> line_session_ids l)"
  unfolding subset_iff Un_iff session_ids_line_at by (metis line_at_put option.simps(5))

lemma file_of_session_append:
  assumes "rf_append f n l = Inr (b, g)" "file_of_session i W f" "line_session_ids l \<subseteq> {i}"
  shows "file_of_session i W g"
proof (cases "ignored f n")
  case True
  with assms show ?thesis by (auto simp: rf_append_def split: if_splits)
next
  case False
  with assms(1) obtain old new where n: "1 \<le> n" and old: "rf_get f n = Inr old"
    and new: "(case old of None \<Rightarrow> Inr (Some l) | Some _ \<Rightarrow> merge_line old (Some l) True False) = Inr new"
    and g: "rf_lines g = put_line n new (rf_lines f)" "rf_name g = rf_name f"
    by (auto simp: rf_append_def rf_invalidate_caches_def split: if_splits)
  have "line_session_ids x \<subseteq> {i}" if "old = Some x" for x
  proof -
    have "line_at (rf_lines f) n = Some x" using old that n by (simp add: rf_get_line_at)
    then have "line_session_ids x \<subseteq> session_ids_in (rf_lines f)" using session_ids_line_at by blast
    with assms(2) show ?thesis by (auto simp: file_of_session_def)
  qed
  then have "\<forall>x. new = Some x \<longrightarrow> line_session_ids x \<subseteq> {i}"
    using new assms(3) merge_line_subset [of old "Some l" True False] by (cases old) (force+)
  then show ?thesis using session_ids_put [OF n, of new "rf_lines f"] g assms(2)
    by (auto simp: file_of_session_def split: option.splits)
qed

lemma file_of_session_setitem:
  assumes "rf_setitem f n l = Inr g" "file_of_session i W f" "line_session_ids l \<subseteq> {i}"
  shows "file_of_session i W g"
  using assms session_ids_put [of n "Some l" "rf_lines f"]
  by (auto simp: rf_setitem_def file_of_session_def rf_invalidate_caches_def split: if_splits)

lemma merge_file_lines_subset:
  "merge_file_lines j d us vs = Inr ls \<Longrightarrow> session_ids_in ls \<subseteq> session_ids_in us \<union> session_ids_in vs"
proof (induction j d us vs arbitrary: ls rule: merge_file_lines.induct)
  case (1 j d)
  then show ?case by simp
next
  case (2 j d b vs)
  then obtain x xs where "ls = x # xs" "merge_line None b j d = Inr x" "session_ids_in xs \<subseteq> session_ids_in vs"
    by (fastforce simp: session_ids_in_def)
  then show ?case by (cases x; cases b) (auto simp: session_ids_in_def merge_line_def)
next
  case (3 j d a us)
  then obtain x xs where "ls = x # xs" "merge_line a None j d = Inr x" "session_ids_in xs \<subseteq> session_ids_in us"
    by (fastforce simp: session_ids_in_def)
  then show ?case by (cases x; cases a) (auto simp: session_ids_in_def merge_line_def)
next
  case (4 j d a us b vs)
  then obtain x xs where x: "ls = x # xs" "merge_line a b j d = Inr x" "session_ids_in xs \<subseteq> session_ids_in us \<union> session_ids_in vs"
    by auto
  show ?case
  proof (cases x)
    case None
    with x show ?thesis by (cases a; cases b) (auto simp: session_ids_in_def)
  next
    case (Some l)
    from merge_line_subset [OF x(2) [unfolded Some]] x Some show ?thesis
      by (cases a; cases b) (auto simp: session_ids_in_def)
  qed
qed

lemma file_of_session_merge:
  "rf_merge f (Some g) j d = Inr (x, h) \<Longrightarrow> file_of_session i W f \<Longrightarrow> file_of_session i W g \<Longrightarrow> file_of_session i W h"
  by (auto simp: rf_merge_def file_of_session_def rf_invalidate_caches_def Let_def split: if_splits dest!: merge_file_lines_subset)

lemma append_files_of_session:
  assumes "r_append r (Some f) j d = Inr (b, r')" "\<forall>f \<in> set (dict_values (r_files r)). file_of_session i W f" "file_of_session i W f"
  shows "\<forall>f \<in> set (dict_values (r_files r')). file_of_session i W f"
proof (cases "rf_len f = 0")
  case True
  with r_append_files [OF assms(1)] assms(2) show ?thesis by simp
next
  case False
  with r_append_files [OF assms(1)] obtain h where h: "r_files r' = dict_set (r_files r) (rf_name f) h"
    "case dict_get (r_files r) (rf_name f) of None \<Rightarrow> h = f | Some g \<Rightarrow> \<exists>x. rf_merge g (Some f) j d = Inr (x, h)"
    by auto
  have "file_of_session i W g" if "dict_get (r_files r) (rf_name f) = Some g" for g
    using assms(2) dict_get_in [OF that] by (auto simp: dict_values_def)
  then have "file_of_session i W h" using h(2) assms(3) by (auto split: option.splits dest: file_of_session_merge)
  then show ?thesis using h(1) values_dict_set [of "r_files r" "rf_name f" h] assms(2) by auto
qed

lemma building_append:
  assumes "building bu J W st" "session_append st f = Inr st'" "file_of_session (bu_sessionid bu) W f"
  shows "building bu J W st'"
proof -
  from assms(2) obtain b r where a: "r_append (bs_report st) (Some f) True False = Inr (b, r)" "st' = st\<lparr>bs_report := r\<rparr>"
    by (auto simp: session_append_def)
  show ?thesis
    using append_files_of_session [OF a(1) _ assms(3)] r_append_files [OF a(1)] wf_append [OF _ a(1)] a(2) assms(1)
    unfolding building_def by simp
qed

lemma line_of_session [simp]: "line_session_ids (create_coverage_line bu c ty ps mb cx) = {bu_sessionid bu}"
  by (simp add: create_coverage_line_def line_session_ids_def)

lemma new_file_of_session [simp]: "file_of_session i W (new_file bu p) = W p"
  by (simp add: file_of_session_def new_file_def ReportFile_def session_ids_in_def)

lemma append_line_of_session:
  "append_line bu f n c ty = Inr g \<Longrightarrow> file_of_session (bu_sessionid bu) W f \<Longrightarrow> file_of_session (bu_sessionid bu) W g"
  by (auto simp: append_line_def dest: file_of_session_append)

lemma building_path_fix_bases:
  "path_fix_bases bu st p bases = Inr (r, st') \<Longrightarrow> building bu J W st \<Longrightarrow> building bu J W st' \<and> (\<forall>q. r = Some q \<longrightarrow> W q)"
  by (force simp: path_fix_bases_def building_def fixers_ok_def fixer_ok_def)

lemma building_path_fix:
  "path_fix bu st p = Inr (r, st') \<Longrightarrow> building bu J W st \<Longrightarrow> building bu J W st' \<and> (\<forall>q. r = Some q \<longrightarrow> W q)"
  unfolding path_fix_def by (rule building_path_fix_bases)

lemma building_create_file:
  assumes "create_coverage_file bu st p b = Inr (f, st')" "building bu J W st" "b \<or> W p"
  shows "building bu J W st' \<and> (\<forall>g. f = Some g \<longrightarrow> file_of_session (bu_sessionid bu) W g)"
  using assms building_path_fix [of bu st p _ st' J W] by (auto simp: create_coverage_file_def split: if_splits option.splits)

lemma building_with_file:
  assumes "with_file bu st p body = Inr st'" "building bu J W st"
    and "\<And>f g. body f = Inr g \<Longrightarrow> file_of_session (bu_sessionid bu) W f \<Longrightarrow> file_of_session (bu_sessionid bu) W g"
  shows "building bu J W st'"
proof -
  from assms(1) obtain f st1 where c: "create_coverage_file bu st p True = Inr (f, st1)"
    and r: "(case f of None \<Rightarrow> Inr st1 | Some y \<Rightarrow> bind_res (body y) (session_append st1)) = Inr st'"
    by (auto simp: with_file_def)
  note b = building_create_file [OF c assms(2), simplified]
  show ?thesis
  proof (cases f)
    case (Some y)
    with r obtain g where "body y = Inr g" "session_append st1 g = Inr st'" by auto
    with b Some assms(3) show ?thesis using building_append by blast
  qed (use b r in simp)
qed

lemma foldl_of_session:
  assumes "foldl_res h f xs = Inr g" "file_of_session (bu_sessionid bu) W f"
    and "\<And>f x g. h f x = Inr g \<Longrightarrow> file_of_session (bu_sessionid bu) W f \<Longrightarrow> file_of_session (bu_sessionid bu) W g"
  shows "file_of_session (bu_sessionid bu) W g"
  using assms(1,2) by (rule foldl_res_invariant) (use assms(3) in blast)

lemma building_empty: "fixers_ok (bu_fix bu) J W \<Longrightarrow> J f \<Longrightarrow> building bu J W (create_report_builder_session name f)"
  by (simp add: building_def create_report_builder_session_def empty_report_def wf_report_def dict_values_def)

section \<open>Keeping an invariant\<close>

text \<open>
  \<open>yields P h Q\<close>: from a state with \<open>P\<close>, a computation that does not raise ends in a result with \<open>Q\<close>.
  The rules follow the shapes of which the processors are made.
\<close>

definition yields :: "('a \<Rightarrow> bool) \<Rightarrow> ('a \<Rightarrow> 'b res) \<Rightarrow> ('b \<Rightarrow> bool) \<Rightarrow> bool" where
  "yields P h Q \<longleftrightarrow> (\<forall>x y. P x \<longrightarrow> h x = Inr y \<longrightarrow> Q y)"

named_theorems yields_rules

lemma yieldsI: "(\<And>x y. P x \<Longrightarrow> h x = Inr y \<Longrightarrow> Q y) \<Longrightarrow> yields P h Q"
  by (simp add: yields_def)

lemma yieldsD: "yields P h Q \<Longrightarrow> h x = Inr y \<Longrightarrow> P x \<Longrightarrow> Q y"
  by (simp add: yields_def)

lemma yields_return [yields_rules]: "(\<And>x. P x \<Longrightarrow> Q (h x)) \<Longrightarrow> yields P (\<lambda>x. Inr (h x)) Q"
  by (simp add: yields_def)

lemma yields_raise [yields_rules]: "yields P (\<lambda>x. Inl (e x)) Q"
  by (simp add: yields_def)

lemma yields_read [yields_rules]: "(\<And>v. yields P (\<lambda>x. h v x) Q) \<Longrightarrow> yields P (\<lambda>x. bind_res m (\<lambda>v. h v x)) Q"
  by (auto simp: yields_def)

lemma yields_seq: "yields P f R \<Longrightarrow> yields R g Q \<Longrightarrow> yields P (\<lambda>x. bind_res (f x) g) Q"
  by (auto simp: yields_def)

lemma yields_seq_same [yields_rules]: "yields P f P \<Longrightarrow> yields P g Q \<Longrightarrow> yields P (\<lambda>x. bind_res (f x) g) Q"
  by (rule yields_seq)

lemma yields_map: "yields P f R \<Longrightarrow> (\<And>y. R y \<Longrightarrow> Q (h y)) \<Longrightarrow> yields P (\<lambda>x. map_res h (f x)) Q"
  by (auto simp: yields_def)

lemma yields_if [yields_rules]:
  "(b \<Longrightarrow> yields P f Q) \<Longrightarrow> (\<not> b \<Longrightarrow> yields P g Q) \<Longrightarrow> yields P (\<lambda>x. if b then f x else g x) Q"
  by (auto simp: yields_def)

lemma yields_let [yields_rules]: "yields P (\<lambda>x. h v x) Q \<Longrightarrow> yields P (\<lambda>x. let y = v in h y x) Q"
  by (simp add: Let_def)

lemma yields_prod [yields_rules]: "(\<And>a b. yields P (\<lambda>x. h a b x) Q) \<Longrightarrow> yields P (\<lambda>x. case p of (a, b) \<Rightarrow> h a b x) Q"
  by (cases p) simp

lemma yields_prod_app [yields_rules]: "(\<And>a b. yields P (h a b) Q) \<Longrightarrow> yields P ((case p of (a, b) \<Rightarrow> h a b)) Q"
  by (cases p) simp

lemma yields_option [yields_rules]:
  "yields P f Q \<Longrightarrow> (\<And>v. yields P (\<lambda>x. g v x) Q) \<Longrightarrow> yields P (\<lambda>x. case w of None \<Rightarrow> f x | Some v \<Rightarrow> g v x) Q"
  by (cases w) simp_all

lemma yields_sum [yields_rules]:
  "(\<And>e. yields P (\<lambda>x. f e x) Q) \<Longrightarrow> (\<And>v. yields P (\<lambda>x. g v x) Q) \<Longrightarrow> yields P (\<lambda>x. case w of Inl e \<Rightarrow> f e x | Inr v \<Rightarrow> g v x) Q"
  by (cases w) simp_all

lemma yields_foldl [yields_rules]: "(\<And>v. yields P (\<lambda>x. h x v) P) \<Longrightarrow> yields P (\<lambda>x. foldl_res h x vs) P"
  by (rule yieldsI, rule foldl_res_invariant) (auto dest: yieldsD)

lemma yields_append_line [yields_rules]:
  "yields (file_of_session (bu_sessionid bu) W) (\<lambda>f. append_line bu f n c ty) (file_of_session (bu_sessionid bu) W)"
  by (auto simp: yields_def dest: append_line_of_session)

lemma yields_rf_append:
  "yields (file_of_session (bu_sessionid bu) W) (\<lambda>f. map_res snd (rf_append f n (create_coverage_line bu c ty ps mb cx)))
     (file_of_session (bu_sessionid bu) W)"
  by (auto simp: yields_def dest: file_of_session_append)

lemma yields_with_file [yields_rules]:
  "yields (file_of_session (bu_sessionid bu) W) body (file_of_session (bu_sessionid bu) W) \<Longrightarrow> yields (building bu J W) (\<lambda>st. with_file bu st p body) (building bu J W)"
  unfolding yields_def using building_with_file by blast

text \<open>A session that is being filled together with a file that is not yet part of its report.\<close>

fun pending :: "'f report_builder \<Rightarrow> ('f \<Rightarrow> bool) \<Rightarrow> (string \<Rightarrow> bool) \<Rightarrow> 'f builder_session \<times> report_file option \<Rightarrow> bool" where
  "pending bu J W (st, f) \<longleftrightarrow> building bu J W st \<and> (\<forall>g. f = Some g \<longrightarrow> file_of_session (bu_sessionid bu) W g)"

section \<open>The contract of a language processor\<close>

text \<open>
  Whatever the report, the processor only adds lines of the session of the builder under paths that
  the path fixer returned, and leaves the report well formed and without entries in the table of
  sessions.
\<close>

locale language_processor =
  fixes process :: "'f report_builder \<Rightarrow> 'f builder_session \<Rightarrow> 'c \<Rightarrow> 'f builder_session res"
  assumes keeps_building: "yields (building bu J W) (\<lambda>st. process bu st c) (building bu J W)"
begin

lemma built_report:
  assumes "process bu (create_report_builder_session name f) c = Inr st" "fixers_ok (bu_fix bu) J W" "J f"
  shows "building bu J W st"
  using keeps_building assms(1) building_empty [OF assms(2,3)] by (rule yieldsD)

end

end
