(* ===== verification/Languages_Json.thy ===== *)
theory Languages_Json
  imports Report_Builder
begin

text \<open>
  The processors of coverage reports in JSON (apps/worker/services/report/languages): Salesforce, Elm,
  R, Flow, the Codecov v1 format, Scala, Coveralls, SimpleCov, GAP, coverage.py and Node. Every
  processor has the test whether it understands a report and the translation into report files. The
  decoder and encoder \<open>orjson\<close> are arguments where a processor calls them.
\<close>

text \<open>A path in a report: nothing at all is treated like the empty path, which the fixer drops.\<close>

definition path_of :: "json \<Rightarrow> string res" where
  "path_of v = (case v of JStr s \<Rightarrow> Inr s | _ \<Rightarrow> if j_truthy v then Inl AttributeError else Inr [])"

text \<open>A loop over the items of a report, each of which may add a file.\<close>

definition each_file :: "('a \<Rightarrow> 'f builder_session \<Rightarrow> 'f builder_session res) \<Rightarrow> 'f builder_session \<Rightarrow> 'a list \<Rightarrow> 'f builder_session res" where
  "each_file body st xs = foldl_res (\<lambda>st x. body x st) st xs"

section \<open>Coveralls\<close>

definition coveralls_matches :: "json \<Rightarrow> bool res" where
  "coveralls_matches content = j_in ''source_files'' content"

text \<open>The lines of a list of hit counts, where \<open>null\<close> stands for a line without code.\<close>

definition append_counts :: "'f report_builder \<Rightarrow> (int \<times> json) list \<Rightarrow> report_file \<Rightarrow> report_file res" where
  "append_counts bu lines f =
     foldl_res (\<lambda>f (lno, c). if c = JNull then Inr f else bind_res (cov_of c) (\<lambda>v. append_line bu f lno v None)) f lines"

definition coveralls_file :: "(string \<Rightarrow> json res) \<Rightarrow> 'f report_builder \<Rightarrow> json \<Rightarrow> 'f builder_session \<Rightarrow> 'f builder_session res" where
  "coveralls_file loads bu obj st =
     bind_res (bind_res (get_item obj ''name'') path_of) (\<lambda>name.
     with_file bu st name (\<lambda>f.
       bind_res (get_item obj ''coverage'') (\<lambda>c.
       bind_res (case c of JStr s \<Rightarrow> loads s | _ \<Rightarrow> Inr c) (\<lambda>c'.
       bind_res (iter_json c') (\<lambda>cs. append_counts bu (enumerate_from 1 cs) f)))))"

definition coveralls_from_json :: "(string \<Rightarrow> json res) \<Rightarrow> 'f report_builder \<Rightarrow> 'f builder_session \<Rightarrow> json \<Rightarrow> 'f builder_session res" where
  "coveralls_from_json loads bu st report =
     bind_res (bind_res (get_item report ''source_files'') iter_json) (each_file (coveralls_file loads bu) st)"

section \<open>Elm\<close>

definition elm_matches :: "json \<Rightarrow> bool res" where
  "elm_matches content = Inr (case content of JObj kvs \<Rightarrow> (case dict_get kvs ''coverageData'' of None \<Rightarrow> False | Some v \<Rightarrow> j_truthy v) | _ \<Rightarrow> False)"

definition cx_of :: "json \<Rightarrow> complexity option res" where
  "cx_of v = (case v of JNull \<Rightarrow> Inr None | JInt i \<Rightarrow> Inr (Some (CxInt i)) | _ \<Rightarrow> Inl NotModelled)"

definition elm_append :: "'f report_builder \<Rightarrow> report_file \<Rightarrow> int \<Rightarrow> int \<Rightarrow> complexity option \<Rightarrow> partial list option \<Rightarrow> report_file res" where
  "elm_append bu f lno c cx ps = map_res snd (rf_append f lno (create_coverage_line bu (CovInt c) None ps None cx))"

definition elm_position :: "json \<Rightarrow> string \<Rightarrow> (int \<times> int) res" where
  "elm_position sec k =
     bind_res (get_item sec k) (\<lambda>p.
     bind_res (bind_res (get_item p ''line'') j_int) (\<lambda>l.
     bind_res (bind_res (get_item p ''column'') count_of) (\<lambda>c. Inr (l, c))))"

definition elm_section :: "'f report_builder \<Rightarrow> report_file \<Rightarrow> json \<Rightarrow> report_file res" where
  "elm_section bu f sec =
     bind_res (bind_res (get_or sec ''count'' (JInt 0)) count_of) (\<lambda>c.
     bind_res (bind_res (get_or sec ''complexity'' JNull) cx_of) (\<lambda>cx.
     bind_res (elm_position sec ''from'') (\<lambda>(sl, sc).
     bind_res (elm_position sec ''to'') (\<lambda>(el, ec).
     bind_res (elm_append bu f sl c cx (Some [(Some sc, if el = sl then Some ec else None, c)])) (\<lambda>f1.
       if el > sl then
         bind_res (foldl_res (\<lambda>f lno. elm_append bu f lno c cx None) f1 [sl..el - 1]) (\<lambda>f2.
           elm_append bu f2 sl c cx (Some [(None, Some ec, c)]))
       else Inr f1)))))"

definition elm_from_json :: "'f report_builder \<Rightarrow> 'f builder_session \<Rightarrow> json \<Rightarrow> 'f builder_session res" where
  "elm_from_json bu st json =
     bind_res (bind_res (get_item json ''coverageData'') obj_items) (each_file (\<lambda>(name, data) st.
       bind_res (bind_res (bind_res (get_item json ''moduleMap'') (\<lambda>m. get_item m name)) path_of) (\<lambda>path.
         with_file bu st path (\<lambda>f. bind_res (iter_json data) (foldl_res (elm_section bu) f)))) st)"

section \<open>Flow\<close>

definition flowcover_matches :: "json \<Rightarrow> bool res" where
  "flowcover_matches content = Inr (case content of JObj kvs \<Rightarrow> (case dict_get kvs ''flowStatus'' of None \<Rightarrow> False | Some v \<Rightarrow> j_truthy v) | _ \<Rightarrow> False)"

definition flow_loc :: "'f report_builder \<Rightarrow> int \<Rightarrow> report_file \<Rightarrow> json \<Rightarrow> report_file res" where
  "flow_loc bu c f loc =
     bind_res (elm_position loc ''start'') (\<lambda>(sl, sc).
     bind_res (elm_position loc ''end'') (\<lambda>(el, ec).
       map_res snd (rf_append f sl
         (create_coverage_line bu (CovInt c) None (if sl = el then Some [(Some sc, Some ec, c)] else None) None None))))"

definition flow_locs :: "'f report_builder \<Rightarrow> json \<Rightarrow> string \<Rightarrow> int \<Rightarrow> report_file \<Rightarrow> report_file res" where
  "flow_locs bu exprs key c f = bind_res (bind_res (get_or exprs key (JList [])) iter_json) (foldl_res (flow_loc bu c) f)"

definition flowcover_from_json :: "'f report_builder \<Rightarrow> 'f builder_session \<Rightarrow> json \<Rightarrow> 'f builder_session res" where
  "flowcover_from_json bu st json =
     bind_res (bind_res (get_item json ''files'') obj_items) (each_file (\<lambda>(name, data) st.
       with_file bu st name (\<lambda>f.
         bind_res (get_item data ''expressions'') (\<lambda>exprs.
         bind_res (flow_locs bu exprs ''covered_locs'' 1 f) (flow_locs bu exprs ''uncovered_locs'' 0)))) st)"

section \<open>GAP\<close>

text \<open>\<open>first_line\<close> is decoded when the report is no dictionary; \<open>loads\<close> raises \<open>ValueError\<close> on bad input.\<close>

definition gap_matches :: "(string \<Rightarrow> json res) \<Rightarrow> json option \<Rightarrow> string \<Rightarrow> bool res" where
  "gap_matches loads content first_line =
     (case bind_res (case content of Some (JObj kvs) \<Rightarrow> Inr (JObj kvs) | _ \<Rightarrow> loads first_line) (\<lambda>v.
        bind_res (j_in ''Type'' v) (\<lambda>a. if a then j_in ''File'' v else Inr False)) of
        Inr b \<Rightarrow> Inr b
      | Inl e \<Rightarrow> if e = TypeError \<or> e = ValueError then Inr False else Inl e)"

definition append_pending :: "'f builder_session \<Rightarrow> report_file option \<Rightarrow> 'f builder_session res" where
  "append_pending st f = (case f of None \<Rightarrow> Inr st | Some file \<Rightarrow> session_append st file)"

definition gap_line ::
  "(string \<Rightarrow> json res) \<Rightarrow> codec \<Rightarrow> 'f report_builder \<Rightarrow> 'f builder_session \<times> report_file option \<Rightarrow> string \<Rightarrow> ('f builder_session \<times> report_file option) res" where
  "gap_line loads cd bu s encoded =
     (case s of (st, f) \<Rightarrow>
        let text = rstrip_chars [newline] (decode_replace cd encoded)
        in if text = [] then Inr (st, f)
           else
             bind_res (loads text) (\<lambda>line.
             bind_res (get_item line ''Type'') (\<lambda>ty.
               if ty = JStr ''S'' then
                 bind_res (append_pending st f) (\<lambda>st1.
                 bind_res (bind_res (get_item line ''File'') path_of) (\<lambda>path.
                 bind_res (create_coverage_file bu st1 path True) (\<lambda>(f', st2). Inr (st2, f'))))
               else
                 (case f of
                    None \<Rightarrow> Inr (st, f)
                  | Some file \<Rightarrow>
                      bind_res (bind_res (get_item line ''Line'') j_int) (\<lambda>lno.
                      bind_res (append_line bu file lno (CovInt (if ty = JStr ''R'' then 0 else 1)) None) (\<lambda>file'.
                        Inr (st, Some file')))))))"

definition gap_from_string :: "(string \<Rightarrow> json res) \<Rightarrow> codec \<Rightarrow> 'f report_builder \<Rightarrow> 'f builder_session \<Rightarrow> string \<Rightarrow> 'f builder_session res" where
  "gap_from_string loads cd bu st bytes =
     bind_res (foldl_res (gap_line loads cd bu) (st, None) (io_lines bytes)) (\<lambda>(st', f). append_pending st' f)"

text \<open>A dictionary is encoded again; \<open>BytesIO\<close> of a list is a \<open>TypeError\<close>.\<close>

definition gap_process_json ::
  "(string \<Rightarrow> json res) \<Rightarrow> (json \<Rightarrow> string) \<Rightarrow> codec \<Rightarrow> 'f report_builder \<Rightarrow> 'f builder_session \<Rightarrow> json \<Rightarrow> 'f builder_session res" where
  "gap_process_json loads dumps cd bu st content =
     (case content of JObj kvs \<Rightarrow> gap_from_string loads cd bu st (dumps (JObj kvs)) | JStr s \<Rightarrow> gap_from_string loads cd bu st s | _ \<Rightarrow> Inl TypeError)"

section \<open>coverage.py\<close>

definition pycoverage_matches :: "json \<Rightarrow> bool res" where
  "pycoverage_matches content =
     bind_res (j_in ''meta'' content) (\<lambda>has.
     bind_res (if has then get_item content ''meta'' else Inr (JBool False)) (\<lambda>meta.
     bind_res (j_in ''files'' content) (\<lambda>files.
       if files \<and> is_obj meta then j_in ''show_contexts'' meta else Inr False)))"

definition append_marked :: "'f report_builder \<Rightarrow> (int \<times> int) list \<Rightarrow> report_file \<Rightarrow> report_file res" where
  "append_marked bu marks f =
     foldl_res (\<lambda>f (c, lno). if lno > 0 then append_line bu f lno (CovInt c) None else Inr f) f marks"

definition pycoverage_process :: "'f report_builder \<Rightarrow> 'f builder_session \<Rightarrow> json \<Rightarrow> 'f builder_session res" where
  "pycoverage_process bu st content =
     bind_res (bind_res (get_item content ''files'') obj_items) (each_file (\<lambda>(name, fc) st.
       with_file bu st name (\<lambda>f.
         bind_res (bind_res (bind_res (get_item fc ''executed_lines'') iter_json) (traverse j_int)) (\<lambda>hits.
         bind_res (bind_res (bind_res (get_item fc ''missing_lines'') iter_json) (traverse j_int)) (\<lambda>misses.
           append_marked bu (map (Pair 1) hits @ map (Pair 0) misses) f)))) st)"

section \<open>R\<close>

definition rlang_matches :: "json \<Rightarrow> bool res" where
  "rlang_matches content = Inr (case content of JObj kvs \<Rightarrow> dict_get kvs ''uploader'' = Some (JStr ''R'') | _ \<Rightarrow> False)"

definition rlang_from_json :: "'f report_builder \<Rightarrow> 'f builder_session \<Rightarrow> json \<Rightarrow> 'f builder_session res" where
  "rlang_from_json bu st json =
     bind_res (bind_res (get_item json ''files'') iter_json) (each_file (\<lambda>data st.
       bind_res (bind_res (get_item data ''name'') path_of) (\<lambda>name.
       with_file bu st name (\<lambda>f.
         bind_res (bind_res (get_item data ''coverage'') iter_json) (\<lambda>cs.
           foldl_res (\<lambda>f (lno, c).
             if c = JNull then Inr f else bind_res (j_to_int c) (\<lambda>v. append_line bu f lno (CovInt v) None)) f (enumerate_from 0 cs))))) st)"

section \<open>Salesforce and Scala\<close>

text \<open>A dictionary from line numbers to coverage.\<close>

definition append_line_dict :: "'f report_builder \<Rightarrow> (string \<times> json) list \<Rightarrow> report_file \<Rightarrow> report_file res" where
  "append_line_dict bu lines f =
     foldl_res (\<lambda>f (lno, c). bind_res (py_int lno) (\<lambda>n. bind_res (cov_of c) (\<lambda>v. append_line bu f n v None))) f lines"

definition salesforce_matches :: "json \<Rightarrow> bool res" where
  "salesforce_matches content = (case content of JList (x # xs) \<Rightarrow> j_in ''name'' x | _ \<Rightarrow> Inr False)"

definition salesforce_object :: "'f report_builder \<Rightarrow> json \<Rightarrow> 'f builder_session \<Rightarrow> 'f builder_session res" where
  "salesforce_object bu obj st =
     (if \<not> j_truthy obj then Inr st
      else
        bind_res (get_or obj ''name'' JNull) (\<lambda>name.
        bind_res (if j_truthy name then get_or obj ''lines'' JNull else Inr JNull) (\<lambda>lines.
          if \<not> j_truthy name \<or> \<not> j_truthy lines then Inr st
          else
            bind_res (str_of name) (\<lambda>nm.
            with_file bu st (nm @ (if contains nm ''.'' then [] else ''.cls'')) (\<lambda>f.
              bind_res (obj_items lines) (\<lambda>ls. append_line_dict bu ls f))))))"

definition salesforce_from_json :: "'f report_builder \<Rightarrow> 'f builder_session \<Rightarrow> json \<Rightarrow> 'f builder_session res" where
  "salesforce_from_json bu st json = bind_res (iter_json json) (each_file (salesforce_object bu) st)"

definition scala_matches :: "json \<Rightarrow> bool res" where
  "scala_matches content = j_in ''fileReports'' content"

definition scala_from_json :: "'f report_builder \<Rightarrow> 'f builder_session \<Rightarrow> json \<Rightarrow> 'f builder_session res" where
  "scala_from_json bu st json =
     bind_res (bind_res (get_item json ''fileReports'') iter_json) (each_file (\<lambda>data st.
       bind_res (bind_res (get_item data ''filename'') path_of) (\<lambda>name.
       with_file bu st name (\<lambda>f.
         bind_res (bind_res (get_item data ''coverage'') obj_items) (\<lambda>ls. append_line_dict bu ls f)))) st)"

section \<open>SimpleCov\<close>

definition simplecov_matches :: "json \<Rightarrow> bool res" where
  "simplecov_matches content =
     Inr (case content of
        JObj kvs \<Rightarrow>
          dict_get kvs ''command_name'' = Some (JStr ''RSpec'') \<or>
          (case dict_get kvs ''meta'' of Some (JObj m) \<Rightarrow> ''simplecov_version'' \<in> set (dict_keys m) | _ \<Rightarrow> False)
      | _ \<Rightarrow> False)"

definition simplecov_file :: "'f report_builder \<Rightarrow> json \<Rightarrow> 'f builder_session \<Rightarrow> 'f builder_session res" where
  "simplecov_file bu data st =
     bind_res (bind_res (get_item data ''filename'') path_of) (\<lambda>name.
     with_file bu st name (\<lambda>f.
       bind_res (get_item data ''coverage'') (\<lambda>c.
       bind_res (iter_json (case c of
           JObj kvs \<Rightarrow> (case dict_get kvs ''lines'' of Some v \<Rightarrow> if j_truthy v then v else c | None \<Rightarrow> c)
         | _ \<Rightarrow> c)) (\<lambda>cs.
         foldl_res (\<lambda>f (lno, c).
           bind_res (cov_of (if c = JStr ''ignored'' then JInt (-1) else c)) (\<lambda>v. append_line bu f lno v None)) f (enumerate_from 1 cs)))))"

definition simplecov_from_json :: "'f report_builder \<Rightarrow> 'f builder_session \<Rightarrow> json \<Rightarrow> 'f builder_session res" where
  "simplecov_from_json bu st json = bind_res (bind_res (get_item json ''files'') iter_json) (each_file (simplecov_file bu) st)"

section \<open>Codecov v1\<close>

definition vone_matches :: "json \<Rightarrow> bool res" where
  "vone_matches content =
     bind_res (j_in ''coverage'' content) (\<lambda>a. if a then Inr True
     else bind_res (j_in ''RSpec'' content) (\<lambda>b. if b then Inr True else j_in ''MiniTest'' content))"

text \<open>Lines numbered by the index in a list, or by the keys of a dictionary (integers in text).\<close>

definition counted :: "json list \<Rightarrow> (string \<times> json) list" where
  "counted cs = map (\<lambda>(n, c). (int_str n, c)) (filter (\<lambda>p. snd p \<noteq> JNull) (enumerate_from 1 cs))"

definition list_to_dict :: "json \<Rightarrow> (string \<times> json) list res" where
  "list_to_dict lines =
     (case lines of
        JList xs \<Rightarrow> Inr (if 1 < length xs then counted (tl xs) else [])
      | JObj kvs \<Rightarrow>
          (case dict_get kvs ''lines'' of
             Some (JList xs) \<Rightarrow> Inr (if 1 < length (JNull # xs) then counted xs else [])
           | Some _ \<Rightarrow> Inl TypeError
           | None \<Rightarrow> Inr kvs)
      | JStr s \<Rightarrow> if contains s ''lines'' then Inl TypeError else if s = [] then Inr [] else Inl AttributeError
      | _ \<Rightarrow> Inl TypeError)"

definition vone_line :: "'f report_builder \<Rightarrow> report_file \<Rightarrow> string \<times> json \<Rightarrow> report_file res" where
  "vone_line bu f p =
     (case p of (lno, c) \<Rightarrow>
        (case py_int lno of
           Inl _ \<Rightarrow> Inl CorruptRawReportError
         | Inr n \<Rightarrow>
             if n > 0 then
               bind_res (cov_of (case c of JStr s \<Rightarrow> (case py_int s of Inr i \<Rightarrow> JInt i | Inl _ \<Rightarrow> c) | _ \<Rightarrow> c)) (\<lambda>v.
                 append_line bu f n v (Some (case v of CovStr _ \<Rightarrow> CT_branch | CovBool _ \<Rightarrow> CT_branch | _ \<Rightarrow> CT_line)))
             else Inr f))"

definition vone_from_json :: "'f report_builder \<Rightarrow> 'f builder_session \<Rightarrow> json \<Rightarrow> 'f builder_session res" where
  "vone_from_json bu st json =
     bind_res (get_item json ''coverage'') (\<lambda>c.
       case c of
         JObj kvs \<Rightarrow>
           each_file (\<lambda>(name, lns) st.
             with_file bu st name (\<lambda>f. bind_res (list_to_dict lns) (foldl_res (vone_line bu) f))) st kvs
       | _ \<Rightarrow> Inr st)"

definition vone_process :: "'f report_builder \<Rightarrow> 'f builder_session \<Rightarrow> json \<Rightarrow> 'f builder_session res" where
  "vone_process bu st content =
     bind_res (j_in ''RSpec'' content) (\<lambda>a.
     bind_res (if a then get_item content ''RSpec''
               else bind_res (j_in ''MiniTest'' content) (\<lambda>b. if b then get_item content ''MiniTest'' else Inr content)) (\<lambda>c.
       vone_from_json bu st c))"

section \<open>Node\<close>

text \<open>
  The standard mode of the Node processor. The mode with partials (\<open>enable_partials\<close>) and JSCoverage
  data (\<open>lineData\<close>, whose partials are fractions) are not modelled.
\<close>

definition node_matches :: "json \<Rightarrow> bool res" where
  "node_matches content = Inr (case content of JObj kvs \<Rightarrow> (\<forall>p \<in> set kvs. is_obj (snd p)) | _ \<Rightarrow> False)"

definition must_be_dict :: "json \<Rightarrow> (string \<times> json) list" where
  "must_be_dict v = (case v of JObj kvs \<Rightarrow> kvs | _ \<Rightarrow> [])"

definition location_to_int :: "json \<Rightarrow> int option res" where
  "location_to_int location =
     bind_res (j_in ''loc'' location) (\<lambda>has.
     bind_res (if has then get_item location ''loc'' else Inr location) (\<lambda>loc.
     bind_res (get_or loc ''skip'' JNull) (\<lambda>skip.
       if j_truthy skip then Inr None
       else
         bind_res (get_item loc ''start'') (\<lambda>start.
         bind_res (get_or start ''line'' (JInt 0)) (\<lambda>line.
           if line = JInt 0 \<or> line = JBool False \<or> line = JFloat 0 then Inr None
           else map_res Some (j_to_int line))))))"

text \<open>\<open>xs[i]\<close> for a list in JSON and a non-negative index.\<close>

definition list_item :: "json \<Rightarrow> int \<Rightarrow> json res" where
  "list_item v i = (case v of JList xs \<Rightarrow> if nat i < length xs then Inr (xs ! nat i) else Inl IndexError | JObj _ \<Rightarrow> Inl KeyError | _ \<Rightarrow> Inl TypeError)"

text \<open>The coverage at a location, read only when the location has a line.\<close>

definition node_append ::
  "'f report_builder \<Rightarrow> coverage_type option \<Rightarrow> report_file \<Rightarrow> int option \<Rightarrow> json res \<Rightarrow> report_file res" where
  "node_append bu ty f lno c =
     (case lno of
        Some n \<Rightarrow> if n \<noteq> 0 then bind_res (bind_res c cov_of) (\<lambda>v. append_line bu f n v ty) else Inr f
      | None \<Rightarrow> Inr f)"

definition not_skipped :: "json \<Rightarrow> bool res" where
  "not_skipped v = map_res (\<lambda>s. s \<noteq> JBool True) (get_or v ''skip'' JNull)"

definition node_statement :: "'f report_builder \<Rightarrow> json \<Rightarrow> report_file \<Rightarrow> string \<times> json \<Rightarrow> report_file res" where
  "node_statement bu data f p =
     bind_res (not_skipped (snd p)) (\<lambda>go. if \<not> go then Inr f
     else bind_res (location_to_int (snd p)) (\<lambda>lno.
       node_append bu None f lno (bind_res (get_item data ''s'') (\<lambda>s. get_item s (fst p)))))"

definition node_branch :: "'f report_builder \<Rightarrow> json \<Rightarrow> report_file \<Rightarrow> string \<times> json \<Rightarrow> report_file res" where
  "node_branch bu data f p =
     bind_res (not_skipped (snd p)) (\<lambda>go. if \<not> go then Inr f
     else bind_res (bind_res (get_item (snd p) ''locations'') iter_json) (\<lambda>locs.
       foldl_res (\<lambda>f (lid, location).
         bind_res (location_to_int location) (\<lambda>lno.
           node_append bu (Some CT_branch) f lno
             (bind_res (get_item data ''b'') (\<lambda>b. bind_res (get_item b (fst p)) (\<lambda>hits. list_item hits lid))))) f (enumerate_from 0 locs)))"

definition node_function :: "'f report_builder \<Rightarrow> json \<Rightarrow> report_file \<Rightarrow> string \<times> json \<Rightarrow> report_file res" where
  "node_function bu data f p =
     bind_res (not_skipped (snd p)) (\<lambda>go. if \<not> go then Inr f
     else bind_res (bind_res (get_item (snd p) ''loc'') location_to_int) (\<lambda>lno.
       node_append bu (Some CT_method) f lno (bind_res (get_item data ''f'') (\<lambda>fn. get_item fn (fst p)))))"

definition node_file :: "'f report_builder \<Rightarrow> json \<Rightarrow> report_file \<Rightarrow> report_file res" where
  "node_file bu data0 f =
     bind_res (get_or data0 ''data'' JNull) (\<lambda>inner.
     let data = (if j_truthy inner then inner else data0)
     in bind_res (j_in ''lineData'' data) (\<lambda>jsc. if jsc then Inl NotModelled
     else bind_res (j_in ''linesCovered'' data) (\<lambda>lc.
       if lc then bind_res (bind_res (get_item data ''linesCovered'') obj_items) (\<lambda>ls. append_line_dict bu ls f)
       else
         bind_res (get_or data ''statementMap'' JNull) (\<lambda>sm.
         bind_res (foldl_res (node_statement bu data) f (must_be_dict sm)) (\<lambda>f1.
         bind_res (get_or data ''branchMap'' JNull) (\<lambda>bm.
         bind_res (foldl_res (node_branch bu data) f1 (must_be_dict bm)) (\<lambda>f2.
         bind_res (get_or data ''fnMap'' JNull) (\<lambda>fm.
           foldl_res (node_function bu data) f2 (must_be_dict fm)))))))))"

text \<open>\<open>s.replace(old, new, 1)\<close>.\<close>

fun replace_first :: "string \<Rightarrow> string \<Rightarrow> string \<Rightarrow> string" where
  "replace_first old new [] = []"
| "replace_first old new (c # s) =
     (if startswith (c # s) old then new @ drop (length old) (c # s) else c # replace_first old new s)"

text \<open>\<open>path_fixer(p) or path_fixer(q)\<close>, where an empty path is false.\<close>

definition fix_either :: "'f report_builder \<Rightarrow> 'f builder_session \<Rightarrow> string \<Rightarrow> string \<Rightarrow> (string option \<times> 'f builder_session) res" where
  "fix_either bu st p q =
     bind_res (path_fix bu st p) (\<lambda>(r, st'). if r \<noteq> None \<and> r \<noteq> Some [] then Inr (r, st') else path_fix bu st' q)"

definition node_entry :: "'f report_builder \<Rightarrow> string \<times> json \<Rightarrow> 'f builder_session \<Rightarrow> 'f builder_session res" where
  "node_entry bu p st =
     bind_res (fix_either bu st (fst p) (replace_first ''lib/'' ''src/'' (fst p))) (\<lambda>(name, st1).
       case name of
         None \<Rightarrow> Inr st1
       | Some path \<Rightarrow>
           bind_res (create_coverage_file bu st1 path False) (\<lambda>(f, st2).
             case f of
               None \<Rightarrow> Inl NotModelled
             | Some file \<Rightarrow> bind_res (node_file bu (snd p) file) (session_append st2)))"

definition node_from_json :: "'f report_builder \<Rightarrow> 'f builder_session \<Rightarrow> json \<Rightarrow> 'f builder_session res" where
  "node_from_json bu st report =
     bind_res (obj_items report) (\<lambda>items.
       if j_truthy (yaml_field bu [''parsers'', ''javascript'', ''enable_partials''] (JBool False)) then
         (case items of
            [] \<Rightarrow> Inl StopIteration
          | (name, _) # _ \<Rightarrow> if endswith name ''.js'' then Inl NotModelled else each_file (node_entry bu) st items)
       else each_file (node_entry bu) st items)"

section \<open>The processors satisfy their contract\<close>

lemma yields_each_file [yields_rules]:
  "(\<And>v. yields P (body v) P) \<Longrightarrow> yields P (\<lambda>st. each_file body st vs) P"
  unfolding each_file_def by (rule yields_foldl) simp

lemma yields_counts [yields_rules]:
  "yields (file_of_session (bu_sessionid bu) W) (append_counts bu cs) (file_of_session (bu_sessionid bu) W)"
  unfolding append_counts_def by (intro yields_rules)

lemma yields_line_dict [yields_rules]:
  "yields (file_of_session (bu_sessionid bu) W) (append_line_dict bu ls) (file_of_session (bu_sessionid bu) W)"
  unfolding append_line_dict_def by (intro yields_rules)

interpretation coveralls: language_processor "coveralls_from_json loads"
  unfolding coveralls_from_json_def coveralls_file_def by unfold_locales (intro yields_rules)

lemma yields_elm_append [yields_rules]:
  "yields (file_of_session (bu_sessionid bu) W) (\<lambda>f. elm_append bu f n c cx ps) (file_of_session (bu_sessionid bu) W)"
  unfolding elm_append_def by (rule yields_rf_append)

interpretation elm: language_processor elm_from_json
  unfolding elm_from_json_def elm_section_def by unfold_locales (intro yields_rules)

interpretation flowcover: language_processor flowcover_from_json
  unfolding flowcover_from_json_def flow_locs_def flow_loc_def
  by unfold_locales (intro yields_rules yields_rf_append)

interpretation pycoverage: language_processor pycoverage_process
  unfolding pycoverage_process_def append_marked_def by unfold_locales (intro yields_rules)

interpretation rlang: language_processor rlang_from_json
  unfolding rlang_from_json_def by unfold_locales (intro yields_rules)

interpretation salesforce: language_processor salesforce_from_json
  unfolding salesforce_from_json_def salesforce_object_def by unfold_locales (intro yields_rules)

interpretation scala: language_processor scala_from_json
  unfolding scala_from_json_def by unfold_locales (intro yields_rules)

interpretation simplecov: language_processor simplecov_from_json
  unfolding simplecov_from_json_def simplecov_file_def by unfold_locales (intro yields_rules)

lemma yields_object [yields_rules]:
  "(\<And>kvs. yields P (\<lambda>x. h kvs x) Q) \<Longrightarrow> yields P g Q \<Longrightarrow> yields P (\<lambda>x. case v of JObj kvs \<Rightarrow> h kvs x | _ \<Rightarrow> g x) Q"
  by (cases v) simp_all

interpretation vone: language_processor vone_process
  unfolding vone_process_def vone_from_json_def vone_line_def by unfold_locales (intro yields_rules)

lemma yields_list [yields_rules]:
  "yields P f Q \<Longrightarrow> (\<And>v vs. yields P (\<lambda>x. h v vs x) Q) \<Longrightarrow> yields P (\<lambda>x. case l of [] \<Rightarrow> f x | v # vs \<Rightarrow> h v vs x) Q"
  by (cases l) simp_all

text \<open>A loop over items that carries a state of its own.\<close>

lemma yields_scan:
  "(\<And>v. yields P (\<lambda>s. h s v) P) \<Longrightarrow> (\<And>x. A x \<Longrightarrow> P (start x)) \<Longrightarrow> yields P g Q \<Longrightarrow>
   yields A (\<lambda>x. bind_res (foldl_res h (start x) vs) g) Q"
  using yieldsD [OF yields_foldl] unfolding yields_def bind_res_eq_Inr by metis

lemma yields_node_append [yields_rules]:
  "yields (file_of_session (bu_sessionid bu) W) (\<lambda>f. node_append bu ty f n c) (file_of_session (bu_sessionid bu) W)"
  unfolding node_append_def by (intro yields_rules)

lemma building_fix_either:
  "fix_either bu st p q = Inr (r, st') \<Longrightarrow> building bu J W st \<Longrightarrow> building bu J W st' \<and> (\<forall>q. r = Some q \<longrightarrow> W q)"
  by (auto simp: fix_either_def split: if_splits dest!: building_path_fix)

lemma yields_append [yields_rules]: "file_of_session (bu_sessionid bu) W f \<Longrightarrow> yields (building bu J W) (\<lambda>st. session_append st f) (building bu J W)"
  by (auto simp: yields_def intro: building_append)

lemma yields_node_file: "yields (file_of_session (bu_sessionid bu) W) (node_file bu data) (file_of_session (bu_sessionid bu) W)"
  unfolding node_file_def node_statement_def node_branch_def node_function_def by (intro yields_rules)

lemma yields_node_entry [yields_rules]: "yields (building bu J W) (node_entry bu p) (building bu J W)"
proof (rule yieldsI)
  fix st st'
  assume b: "building bu J W st" and e: "node_entry bu p st = Inr st'"
  from e obtain name st1 where f: "fix_either bu st (fst p) (replace_first ''lib/'' ''src/'' (fst p)) = Inr (name, st1)"
    by (auto simp: node_entry_def)
  from building_fix_either [OF f b] have b1: "building bu J W st1" "\<forall>q. name = Some q \<longrightarrow> W q" by simp_all
  show "building bu J W st'"
  proof (cases name)
    case (Some path)
    with e f obtain y st2 g where y: "create_coverage_file bu st1 path False = Inr (Some y, st2)"
      "node_file bu (snd p) y = Inr g" "session_append st2 g = Inr st'"
      by (auto simp: node_entry_def split: option.splits)
    with building_create_file [OF y(1) b1(1)] b1(2) Some have "file_of_session (bu_sessionid bu) W g"
      using yieldsD [OF yields_node_file y(2)] by blast
    with building_create_file [OF y(1) b1(1)] b1(2) Some y(3) show ?thesis using building_append by blast
  qed (use e f b1 in \<open>simp add: node_entry_def\<close>)
qed

interpretation node: language_processor node_from_json
  unfolding node_from_json_def by unfold_locales (intro yields_rules)

lemma building_pending: "append_pending st f = Inr st' \<Longrightarrow> pending bu J W (st, f) \<Longrightarrow> building bu J W st'"
  by (auto simp: append_pending_def split: option.splits intro: building_append)

lemma yields_pending: "yields (pending bu J W) (\<lambda>(st, f). append_pending st f) (building bu J W)"
  by (auto simp: yields_def simp del: pending.simps dest: building_pending)

lemma gap_line_pending:
  assumes "gap_line loads cd bu (st, f) l = Inr t" "pending bu J W (st, f)"
  shows "pending bu J W t"
proof -
  let ?i = "bu_sessionid bu"
  consider "t = (st, f)"
    | st1 p g st2 where "append_pending st f = Inr st1" "create_coverage_file bu st1 p True = Inr (g, st2)" "t = (st2, g)"
    | y n c g where "f = Some y" "append_line bu y n c None = Inr g" "t = (st, Some g)"
    using assms(1) by (auto simp: gap_line_def Let_def split: if_splits option.splits)
  then show ?thesis
  proof cases
    case 2
    with building_pending [OF 2(1) assms(2)] building_create_file [OF 2(2)] show ?thesis by simp
  next
    case 3
    with assms(2) append_line_of_session [OF 3(2)] show ?thesis by simp
  qed (use assms(2) in simp)
qed

lemma yields_gap [yields_rules]:
  "yields (building bu J W) (\<lambda>st. gap_from_string loads cd bu st text) (building bu J W)"
  unfolding gap_from_string_def
  by (rule yields_scan [where P = "pending bu J W"])
    (auto simp del: pending.simps intro: yieldsI gap_line_pending yields_pending, simp)

interpretation gap: language_processor "gap_from_string loads cd"
  by unfold_locales (rule yields_gap)

interpretation gap_json: language_processor "gap_process_json loads dumps cd"
proof
  fix bu :: "'a report_builder" and c J W
  show "yields (building bu J W) (\<lambda>st. gap_process_json loads dumps cd bu st c) (building bu J W)"
    by (cases c) (simp_all add: gap_process_json_def yields_rules)
qed

section \<open>Properties\<close>

text \<open>
  The closing partial of an Elm section that spans several lines is added to the first line of the
  section, where the partial without a start cannot be sorted among the others.
\<close>

definition plain_builder :: "unit report_builder" where
  "plain_builder = \<lparr>bu_yaml = JObj [], bu_sessionid = 0, bu_ignored = [], bu_fix = (\<lambda>_ p _. Inr (Some p, ()))\<rparr>"

theorem elm_multiline_fails:
  "elm_section plain_builder (new_file plain_builder ''a.elm'')
     (JObj [(''count'', JInt 1), (''from'', JObj [(''line'', JInt 1), (''column'', JInt 4)]), (''to'', JObj [(''line'', JInt 2), (''column'', JInt 9)])]) =
   Inl TypeError"
proof -
  let ?bu = plain_builder
  let ?l = "\<lambda>ps. create_coverage_line ?bu (CovInt 1) None ps None None"
  let ?p = "Some [(Some 4, None, 1)] :: partial list option"
  have m1: "merge_line (Some (?l ?p)) (Some (?l None)) True False = Inr (Some (?l ?p))"
    by (simp add: create_coverage_line_def merge_line_def merge_sessions_def sessions_dict_def dict_of_def merge_common_def dict_get_def
      merge_line_session_def merge_line_session_branches_def merge_session_partials_def merge_coverage_ints dict_values_def dict_keys_def
      get_coverage_from_sessions_def merge_all_def get_complexity_from_sessions_def Let_def
      dict_dels_filter merge_missed_branches_def str_or_def)
  have m2: "merge_line (Some (?l ?p)) (Some (?l (Some [(None, Some 9, 1)]))) True False = Inl TypeError"
    by (simp add: create_coverage_line_def merge_line_def merge_sessions_def sessions_dict_def dict_of_def merge_common_def dict_get_def
      merge_line_session_def merge_line_session_branches_def merge_session_partials_def sort_partials_def Let_def)
  let ?f = "(new_file ?bu ''a.elm'')\<lparr>rf_lines := [Some (?l ?p)]\<rparr>"
  have a0: "elm_append ?bu (new_file ?bu ''a.elm'') 1 1 None ?p = Inr ?f" by code_simp
  have g: "rf_get ?f 1 = Inr (Some (?l ?p))" "\<not> ignored ?f 1"
    "rf_invalidate_caches (?f\<lparr>rf_lines := put_line 1 (Some (?l ?p)) (rf_lines ?f)\<rparr>) = ?f" by code_simp+
  have a1: "elm_append ?bu ?f 1 1 None None = Inr ?f" using g(3) by (simp add: elm_append_def rf_append_def g(1,2) m1)
  have a2: "elm_append ?bu ?f 1 1 None (Some [(None, Some 9, 1)]) = Inl TypeError" by (simp add: elm_append_def rf_append_def g(1,2) m2)
  have r: "[1..1::int] = [1]" by code_simp
  show ?thesis using a0 a1 a2
    by (simp add: elm_section_def elm_position_def get_or_def get_item_def dict_get_def count_of_def cx_of_def r)
qed

end
