(* ===== verification/Py_Decimal.thy ===== *)
theory Py_Decimal
  imports Py_String Py_Float
begin

text \<open>
  Numbers in text and the decimal arithmetic of Python: the syntax that \<open>float\<close> and \<open>Decimal\<close> read, and
  the module \<open>decimal\<close> with its default context (28 significant digits, half to even). A decimal is its
  exact rational value; infinities and NaN are outside the model.
\<close>

section \<open>Reading numbers\<close>

definition is_digits :: "string \<Rightarrow> bool" where
  "is_digits s \<longleftrightarrow> s \<noteq> [] \<and> (\<forall>c \<in> set s. digit_val c \<noteq> None)"

text \<open>An optional sign, digits with an optional point and an optional exponent.\<close>

definition digits_or_empty :: "string \<Rightarrow> nat option" where
  "digits_or_empty s = (if s = [] then Some 0 else if is_digits s then parse_digits 0 False s else None)"

definition mantissa :: "string \<Rightarrow> rat option" where
  "mantissa s =
     (case split_once (CHR ''.'') s of
        None \<Rightarrow> if is_digits s then map_option of_nat (parse_digits 0 False s) else None
      | Some (a, b) \<Rightarrow>
          (if a = [] \<and> b = [] then None
           else (case (digits_or_empty a, digits_or_empty b) of
               (Some n, Some m) \<Rightarrow> Some (of_nat n + of_nat m / 10 ^ length b)
             | _ \<Rightarrow> None)))"

definition exponent :: "string \<Rightarrow> int option" where
  "exponent s =
     (case s of
        [] \<Rightarrow> None
      | c # t \<Rightarrow>
          if c = CHR ''-'' then (if is_digits t then map_option (\<lambda>n. - int n) (parse_digits 0 False t) else None)
          else let u = (if c = CHR ''+'' then t else s) in (if is_digits u then map_option int (parse_digits 0 False u) else None))"

definition unsigned_decimal :: "string \<Rightarrow> rat option" where
  "unsigned_decimal s =
     (case split_once (CHR ''e'') s of
        None \<Rightarrow> mantissa s
      | Some (m, e) \<Rightarrow> (case (mantissa m, exponent e) of (Some x, Some k) \<Rightarrow> Some (x * 10 powi k) | _ \<Rightarrow> None))"

definition drop_sign :: "string \<Rightarrow> bool \<times> string" where
  "drop_sign s =
     (case s of [] \<Rightarrow> (False, []) | c # t \<Rightarrow> if c = CHR ''-'' then (True, t) else if c = CHR ''+'' then (False, t) else (False, s))"

definition special_value :: "string \<Rightarrow> bool" where
  "special_value t \<longleftrightarrow> t = ''inf'' \<or> t = ''infinity'' \<or> startswith t ''nan'' \<or> startswith t ''snan''"

text \<open>\<open>Decimal(s)\<close>: underscores are ignored.\<close>

definition Decimal :: "string \<Rightarrow> rat res" where
  "Decimal s =
     (case drop_sign (filter (\<lambda>c. c \<noteq> CHR ''_'') (lower (strip s))) of (neg, t) \<Rightarrow>
        if special_value t then Inl NotModelled
        else (case unsigned_decimal t of
            None \<Rightarrow> Inl InvalidOperation
          | Some q \<Rightarrow> Inr (if neg then - q else q)))"

text \<open>\<open>float(s)\<close>. Text with underscores, and numbers beyond the range of a double, are not modelled.\<close>

definition py_float :: "string \<Rightarrow> rat res" where
  "py_float s =
     (case drop_sign (lower (strip s)) of (neg, t) \<Rightarrow>
        if special_value t \<or> CHR ''_'' \<in> set t then Inl NotModelled
        else (case unsigned_decimal t of
            None \<Rightarrow> Inl ValueError
          | Some q \<Rightarrow> if 2 ^ 1023 \<le> q then Inl NotModelled else Inr (if neg then - fl q else fl q)))"

section \<open>Decimal arithmetic\<close>

text \<open>The exponent of the leading digit of a positive number, from the lengths of numerator and denominator.\<close>

definition ilog10 :: "rat \<Rightarrow> int" where
  "ilog10 r =
     (case quotient_of r of (n, d) \<Rightarrow>
        let e = int (length (nat_str (nat n))) - int (length (nat_str (nat d)))
        in if 10 powi e \<le> r then e else e - 1)"

text \<open>Rounding a result to 28 significant digits.\<close>

definition dec_round :: "rat \<Rightarrow> rat" where
  "dec_round q =
     (if q = 0 then 0
      else let u = 10 powi (ilog10 \<bar>q\<bar> - 27) in of_int (rhe (q / u)) * u)"

definition dec_minus :: "rat \<Rightarrow> rat \<Rightarrow> rat" where
  "dec_minus a b = dec_round (a - b)"

definition dec_times :: "rat \<Rightarrow> rat \<Rightarrow> rat" where
  "dec_times a b = dec_round (a * b)"

section \<open>Laws of decimal rounding\<close>

lemma nat_str_length: "n < 10 ^ length (nat_str n) \<and> (0 < n \<longrightarrow> 10 ^ length (nat_str n) \<le> 10 * n)"
proof (induction n rule: nat_str.induct)
  case (1 n)
  show ?case
  proof (cases "n < 10")
    case True
    then show ?thesis by (subst (1 2) nat_str.simps) simp
  next
    case False
    let ?L = "length (nat_str (n div 10))"
    have len: "length (nat_str n) = Suc ?L" using False by (subst nat_str.simps) simp
    from 1 [OF False] False have IH: "n div 10 < 10 ^ ?L" "10 ^ ?L \<le> 10 * (n div 10)" by auto
    then have "n < 10 * 10 ^ ?L" by (simp add: div_less_iff_less_mult mult.commute)
    moreover have "10 ^ ?L \<le> n" using IH(2) times_div_less_eq_dividend [of 10 n] by (rule order_trans)
    ultimately show ?thesis unfolding len by simp
  qed
qed

lemma rhe_minus: "rhe (- r) = - rhe r"
proof (cases "r = of_int \<lfloor>r\<rfloor>")
  case True
  then show ?thesis by (metis of_int_minus rhe_of_int)
next
  case False
  then have "of_int \<lfloor>r\<rfloor> < r" "r < of_int \<lfloor>r\<rfloor> + 1" by linarith+
  then have "\<lfloor>- r\<rfloor> = - \<lfloor>r\<rfloor> - 1" by linarith
  then show ?thesis by (auto simp: rhe_def Let_def)
qed

interpretation dec: significand 10 "\<lambda>n. length (nat_str n)" ilog10 27 dec_round
  using nat_str_length by unfold_locales (simp_all add: ilog10_def dec_round_def case_prod_beta Let_def)

lemma dec_round_zero [simp]: "dec_round 0 = 0"
  by (simp add: dec_round_def)

lemma dec_round_minus [simp]: "dec_round (- q) = - dec_round q"
  by (simp add: dec_round_def Let_def rhe_minus)

lemma dec_round_nonneg: "0 \<le> q \<Longrightarrow> 0 \<le> dec_round q"
  using dec.rnd_pos [of q] by (cases "q = 0") (simp_all add: less_imp_le)

lemma dec_round_mono:
  assumes "a \<le> b"
  shows "dec_round a \<le> dec_round b"
proof -
  consider "0 < a" | "a \<le> 0" "0 \<le> b" | "b < 0" by linarith
  then show ?thesis
  proof cases
    case 1
    with assms show ?thesis by (intro dec.rnd_mono) auto
  next
    case 2
    with dec_round_nonneg [of "- a"] dec_round_nonneg [of b] show ?thesis by simp
  next
    case 3
    with assms dec.rnd_mono [of "- b" "- a"] show ?thesis by simp
  qed
qed

text \<open>Numbers with up to 28 digits are exact.\<close>

lemma dec_round_exact:
  assumes "\<bar>n\<bar> < 10 ^ 28"
  shows "dec_round (of_int n * 10 powi k) = of_int n * 10 powi k"
proof -
  consider "0 < n" | "n = 0" | "n < 0" by linarith
  then show ?thesis
  proof cases
    case 1
    with assms dec.rnd_exact [of n _ k] show ?thesis by simp
  next
    case 3
    with assms dec.rnd_exact [of "- n" _ k] dec_round_minus [of "of_int (- n) * 10 powi k"] show ?thesis by simp
  qed simp
qed

lemma dec_minus_mono: "a \<le> a' \<Longrightarrow> b' \<le> b \<Longrightarrow> dec_minus a b \<le> dec_minus a' b'"
  unfolding dec_minus_def by (rule dec_round_mono) simp

end
