(* ===== verification/Languages_Text.thy ===== *)
theory Languages_Text
  imports Languages_Json Py_Decimal
begin

text \<open>
  The processors of textual coverage reports (apps/worker/services/report/languages): LCOV, Go,
  gcov, Lua, D and Xcode. The regular expressions of these processors are simple enough to be
  written as functions.
\<close>

text \<open>The lines of a report, decoded and without the line feed.\<close>

definition text_lines :: "codec \<Rightarrow> string \<Rightarrow> string list" where
  "text_lines cd bytes = map (\<lambda>l. rstrip_chars [newline] (decode_replace cd l)) (io_lines bytes)"

section \<open>LCOV\<close>

text \<open>\<open>int(Decimal(s))\<close>: the special values cannot become an integer.\<close>

definition int_decimal :: "string \<Rightarrow> int res" where
  "int_decimal s =
     (case drop_sign (filter (\<lambda>c. c \<noteq> CHR ''_'') (lower (strip s))) of (neg, t) \<Rightarrow>
        if t = ''inf'' \<or> t = ''infinity'' then Inl OverflowError
        else if startswith t ''nan'' \<or> startswith t ''snan'' then Inl ValueError
        else (case unsigned_decimal t of
            None \<Rightarrow> Inl InvalidOperation
          | Some q \<Rightarrow> Inr (if neg then - \<lfloor>q\<rfloor> else \<lfloor>q\<rfloor>)))"

definition lcov_parse_int :: "string \<Rightarrow> int res" where
  "lcov_parse_int n = (if is_digits n then py_int n else int_decimal n)"

record lcov_state =
  lc_file :: "report_file option"
  lc_js :: bool
  lc_cpp :: bool
  lc_branches :: "(string, (string, int) dict) dict"
  lc_fn_lines :: "string list"
  lc_skip_lines :: "string list"

definition lcov_start :: lcov_state where
  "lcov_start = \<lparr>lc_file = None, lc_js = False, lc_cpp = False, lc_branches = [], lc_fn_lines = [], lc_skip_lines = []\<rparr>"

definition lcov_matches :: "string \<Rightarrow> bool" where
  "lcov_matches content = contains content (newline # ''end_of_record'')"

definition lcov_ignored_methods :: "string list" where
  "lcov_ignored_methods = [''TN'', ''LF'', ''LH'', ''FNF'', ''FNH'', ''BRF'', ''BRH'', ''FNDA'']"

text \<open>A \<open>DA\<close> line: a line number and an execution count.\<close>

definition lcov_da :: "'f report_builder \<Rightarrow> report_file \<Rightarrow> string \<Rightarrow> report_file res" where
  "lcov_da bu f content =
     (case split_max 2 (CHR '','') content of
        line_str # hit # _ \<Rightarrow>
          if line_str \<in> {[], ''undefined''} \<or> hit \<in> {[], ''undefined''} then Inr f
          else if hd line_str \<in> {CHR ''0'', CHR ''n''} \<or> hd hit \<in> {CHR ''='', CHR ''s''} then Inr f
          else
            (case bind_res (py_int line_str) (\<lambda>n. map_res (Pair n) (lcov_parse_int hit)) of
               Inl e \<Rightarrow> if e = ValueError \<or> e = InvalidOperation then Inr f else Inl e
             | Inr (n, c) \<Rightarrow> append_line bu f n (CovInt (max c 0)) None)
      | _ \<Rightarrow> Inr f)"

definition lcov_fn :: "lcov_state \<Rightarrow> string \<Rightarrow> lcov_state" where
  "lcov_fn s content =
     (case split_max 1 (CHR '','') content of
        [line_str, name] \<Rightarrow>
          if lc_cpp s \<and> take 2 name \<in> {''_Z'', ''_G''} then s\<lparr>lc_skip_lines := lc_skip_lines s @ [line_str]\<rparr>
          else s\<lparr>lc_fn_lines := lc_fn_lines s @ [line_str]\<rparr>
      | _ \<Rightarrow> s)"

definition lcov_brda :: "report_file \<Rightarrow> lcov_state \<Rightarrow> string \<Rightarrow> lcov_state" where
  "lcov_brda f s content =
     (case split_max 3 (CHR '','') content of
        [line_str, block, branch, taken] \<Rightarrow>
          if line_str = ''1'' \<and> endswith (rf_name f) ''.ts'' then s
          else if line_str = ''0'' \<or> line_str = [] then s
          else
            let br = (case dict_get (lc_branches s) line_str of None \<Rightarrow> [] | Some d \<Rightarrow> d)
            in s\<lparr>lc_branches := dict_set (lc_branches s) line_str
                   (dict_set br (block @ CHR '':'' # branch) (if taken = ''-'' \<or> taken = ''0'' then 0 else 1))\<rparr>
      | _ \<Rightarrow> s)"

text \<open>One line; \<open>None\<close> when the record has data before it has a wanted file.\<close>

definition lcov_line ::
  "'f report_builder \<Rightarrow> 'f builder_session \<times> lcov_state \<Rightarrow> string \<Rightarrow> ('f builder_session \<times> lcov_state option) res" where
  "lcov_line bu p line =
     (case p of (st, s) \<Rightarrow>
        (case split_once (CHR '':'') line of
           None \<Rightarrow> Inr (st, Some s)
         | Some (method, rest) \<Rightarrow>
             let content = strip rest
             in if method \<in> set lcov_ignored_methods then Inr (st, Some s)
                else if method = ''SF'' then
                  bind_res (create_coverage_file bu st content True) (\<lambda>(f, st').
                    Inr (st', Some (s\<lparr>lc_file := f, lc_js := (last_n 3 content = ''.js''), lc_cpp := (last_n 4 content = ''.cpp'')\<rparr>)))
                else
                  (case lc_file s of
                     None \<Rightarrow> Inr (st, None)
                   | Some f \<Rightarrow>
                       if method = ''DA'' then map_res (\<lambda>f'. (st, Some (s\<lparr>lc_file := Some f'\<rparr>))) (lcov_da bu f content)
                       else if method = ''FN'' \<and> \<not> lc_js s then Inr (st, Some (lcov_fn s content))
                       else if method = ''BRDA'' \<and> \<not> lc_js s then Inr (st, Some (lcov_brda f s content))
                       else Inr (st, Some s))))"

fun lcov_lines :: "'f report_builder \<Rightarrow> 'f builder_session \<Rightarrow> lcov_state \<Rightarrow> string list \<Rightarrow> ('f builder_session \<times> lcov_state option) res" where
  "lcov_lines bu st s [] = Inr (st, Some s)"
| "lcov_lines bu st s (l # ls) =
     bind_res (lcov_line bu (st, s) l) (\<lambda>(st', s').
       case s' of None \<Rightarrow> Inr (st', None) | Some t \<Rightarrow> lcov_lines bu st' t ls)"

text \<open>The line of a branch record: how many of its branches were taken, and which were not.\<close>

definition branch_line :: "'f report_builder \<Rightarrow> coverage_type \<Rightarrow> (string, int) dict \<Rightarrow> report_line" where
  "branch_line bu ty br =
     (let missing = map (\<lambda>p. BrStr (fst p)) (filter (\<lambda>p. snd p = 0) br)
      in create_coverage_line bu (CovStr (frac_str (sum_list (dict_values br)) (int (length br)))) (Some ty) None
           (if missing = [] then None else Some missing) None)"

definition lcov_branch :: "'f report_builder \<Rightarrow> string list \<Rightarrow> report_file \<Rightarrow> string \<times> (string, int) dict \<Rightarrow> report_file res" where
  "lcov_branch bu fn_lines f p =
     (case py_int (fst p) of
        Inl _ \<Rightarrow> Inr f
      | Inr n \<Rightarrow> rf_setitem f n (branch_line bu (if fst p \<in> set fn_lines then CT_method else CT_branch) (snd p)))"

definition lcov_process_file :: "codec \<Rightarrow> 'f report_builder \<Rightarrow> 'f builder_session \<Rightarrow> string \<Rightarrow> (report_file option \<times> 'f builder_session) res" where
  "lcov_process_file cd bu st doc =
     bind_res (lcov_lines bu st lcov_start (text_lines cd doc)) (\<lambda>(st', s').
       case s' of
         None \<Rightarrow> Inr (None, st')
       | Some s \<Rightarrow>
           (case lc_file s of
              None \<Rightarrow> Inr (None, st')
            | Some f \<Rightarrow>
                map_res (\<lambda>f'. (Some f', st'))
                  (foldl_res (lcov_branch bu (lc_fn_lines s)) f (dict_dels (lc_branches s) (lc_skip_lines s)))))"

definition lcov_from_txt :: "codec \<Rightarrow> 'f report_builder \<Rightarrow> 'f builder_session \<Rightarrow> string \<Rightarrow> 'f builder_session res" where
  "lcov_from_txt cd bu st reports =
     each_file (\<lambda>doc st. bind_res (lcov_process_file cd bu st doc) (\<lambda>(f, st'). append_pending st' f)) st
       (split_str (newline # ''end_of_record'') reports)"

section \<open>Go\<close>

record source_location =
  loc_line :: int
  loc_column :: int

record region =
  rg_start :: source_location
  rg_end :: source_location
  rg_hits :: int

definition go_matches :: "string \<Rightarrow> string \<Rightarrow> bool" where
  "go_matches content first_line \<longleftrightarrow> take 6 content = ''mode: '' \<or> contains first_line ''.go:''"

definition parse_location :: "string \<Rightarrow> source_location res" where
  "parse_location s =
     (case split_once (CHR ''.'') s of
        None \<Rightarrow> Inl ValueError
      | Some (l, c) \<Rightarrow> bind_res (py_int l) (\<lambda>l'. bind_res (py_int c) (\<lambda>c'. Inr \<lparr>loc_line = l', loc_column = c'\<rparr>)))"

definition parse_coverage :: "string \<Rightarrow> region res" where
  "parse_coverage line =
     (case split_max 2 (CHR '' '') line of
        [region_str, _, hits] \<Rightarrow>
          (case split_once (CHR '','') region_str of
             None \<Rightarrow> Inl ValueError
           | Some (start, stop) \<Rightarrow>
               bind_res (parse_location start) (\<lambda>a.
               bind_res (parse_location stop) (\<lambda>b.
               bind_res (py_int hits) (\<lambda>h. Inr \<lparr>rg_start = a, rg_end = b, rg_hits = h\<rparr>))))
      | _ \<Rightarrow> Inl ValueError)"

type_synonym go_lines = "(int, partial list) dict"

text \<open>\<open>lines[ln].add(p)\<close> on a dictionary of sets.\<close>

definition add_partial :: "go_lines \<Rightarrow> int \<Rightarrow> partial \<Rightarrow> go_lines" where
  "add_partial d lno p =
     (let ps = (case dict_get d lno of None \<Rightarrow> [] | Some ps \<Rightarrow> ps)
      in dict_set d lno (if p \<in> set ps then ps else ps @ [p]))"

definition add_region :: "go_lines \<Rightarrow> region \<Rightarrow> go_lines" where
  "add_region d r =
     (let sl = loc_line (rg_start r); sc = loc_column (rg_start r);
          el = loc_line (rg_end r); ec = loc_column (rg_end r); h = rg_hits r
      in if sl = el then add_partial d sl (Some sc, Some ec, h)
         else
           let d1 = add_partial d sl (Some sc, None, h);
               d2 = foldl (\<lambda>d n. add_partial d n (Some 0, None, h)) d1 [sl + 1..el - 1]
           in if ec > 2 then add_partial d2 el (None, Some ec, h) else d2)"

definition go_line :: "(string, go_lines) dict \<Rightarrow> string \<Rightarrow> (string, go_lines) dict res" where
  "go_line files line =
     (if line = [] \<or> startswith line ''mode: '' then Inr files
      else
        (case split_once (CHR '':'') line of
           None \<Rightarrow> Inr files
         | Some (filename, rest) \<Rightarrow>
             if rest = [] \<or> endswith rest ''%'' then Inr files
             else
               (case parse_coverage rest of
                  Inl e \<Rightarrow> Inl (if e = ValueError then CorruptRawReportError else e)
                | Inr r \<Rightarrow>
                    let d = (case dict_get files filename of None \<Rightarrow> [] | Some d \<Rightarrow> d)
                    in Inr (dict_set files filename (add_region d r)))))"

definition process_bytes_into_files :: "codec \<Rightarrow> string \<Rightarrow> (string, go_lines) dict res" where
  "process_bytes_into_files cd bytes = foldl_res go_line [] (text_lines cd bytes)"

text \<open>\<open>merge_all\<close> of hit counts.\<close>

definition merge_hits :: "int list \<Rightarrow> int res" where
  "merge_hits cs = bind_res (merge_all (map CovInt cs) None) (\<lambda>v. case v of CovInt i \<Rightarrow> Inr i | _ \<Rightarrow> Inl NotModelled)"

text \<open>The columns of partials with an end, and then of those without one up to the last column.\<close>

definition go_columns :: "partial list \<Rightarrow> (int, int list) dict \<times> int" where
  "go_columns ps =
     (let closed = foldl (\<lambda>d (s, e, c). case e of None \<Rightarrow> d | Some e' \<Rightarrow> append_range d [opt_or_0 s..e' - 1] c) [] ps;
          lc = (if closed \<noteq> [] then Max (set (dict_keys closed)) else Max (set (map (\<lambda>p. opt_or_0 (fst p)) ps))) + 1
      in (foldl (\<lambda>d (s, e, c). case e of None \<Rightarrow> append_range d [opt_or_0 s..lc - 1] c | Some _ \<Rightarrow> d) closed ps, lc))"

definition go_segments :: "(int \<times> int) list \<Rightarrow> (int \<times> int \<times> int) list" where
  "go_segments cols = map (\<lambda>(c, g). (fst (hd g), fst (last g) + 1, c)) (groupby snd (sort_key fst cols))"

definition as_partial :: "int \<times> int \<times> int \<Rightarrow> partial" where
  "as_partial p = (case p of (s, e, c) \<Rightarrow> (Some s, Some e, c))"

definition combine_partials :: "partial list \<Rightarrow> partial list option res" where
  "combine_partials ps =
     (if length ps = 1 then Inr (Some ps)
      else
        (case go_columns ps of (cols, lc) \<Rightarrow>
          bind_res (traverse (\<lambda>(c, hs). map_res (Pair c) (merge_hits hs)) cols) (\<lambda>merged.
            case go_segments merged of
              [] \<Rightarrow> Inr None
            | (s, e, c) # rest \<Rightarrow>
                let results = (if s = 0 \<and> e = 1 then rest else (s, e, c) # rest);
                    eol = map (\<lambda>p. snd (snd p)) (filter (\<lambda>p. fst (snd p) = None) ps)
                in if results = [] then Inr (Some [(Some 0, None, c)])
                   else if eol = [] then Inr (Some (map as_partial results))
                   else
                     map_res (\<lambda>h.
                       Some (case last results of (ls, le, lh) \<Rightarrow>
                         if le = lc \<and> lh = h then map as_partial (butlast results) @ [(Some ls, None, h)]
                         else map as_partial results @ [(Some lc, None, h)])) (merge_hits eol))))"

definition go_cov :: "bool \<Rightarrow> partial list \<Rightarrow> cov res" where
  "go_cov partials_as_hits ps =
     bind_res (combine_partials ps) (\<lambda>c.
     let v = (case c of Some qs \<Rightarrow> if qs = [] then CovInt (Max (set (map (\<lambda>p. snd (snd p)) ps))) else partials_to_line qs
              | None \<Rightarrow> CovInt (Max (set (map (\<lambda>p. snd (snd p)) ps))))
     in if partials_as_hits then map_res (\<lambda>t. if t = Some LT_partial then CovInt 1 else v) (line_type v) else Inr v)"

definition go_from_txt :: "codec \<Rightarrow> 'f report_builder \<Rightarrow> 'f builder_session \<Rightarrow> string \<Rightarrow> 'f builder_session res" where
  "go_from_txt cd bu st bytes =
     (let as_hits = j_truthy (yaml_field bu [''parsers'', ''go'', ''partials_as_hits''] (JBool False))
      in bind_res (process_bytes_into_files cd bytes)
           (each_file (\<lambda>(name, lines) st.
              with_file bu st name (\<lambda>f.
                foldl_res (\<lambda>f (lno, ps). bind_res (go_cov as_hits ps) (\<lambda>v. append_line bu f lno v None)) f lines)) st))"

section \<open>Lua\<close>

definition lua_matches :: "string \<Rightarrow> bool" where
  "lua_matches content \<longleftrightarrow> take 7 content = ''=======''"

text \<open>\<open>re.compile("^=+\n", re.M).split\<close>: the separators are the lines of equal signs that end with a line feed.\<close>

definition is_rule :: "string \<Rightarrow> bool" where
  "is_rule l \<longleftrightarrow> 2 \<le> length l \<and> last l = newline \<and> (\<forall>c \<in> set (butlast l). c = CHR ''='')"

fun split_rules :: "string \<Rightarrow> string list \<Rightarrow> string list" where
  "split_rules acc [] = [acc]"
| "split_rules acc (l # ls) = (if is_rule l then acc # split_rules [] ls else split_rules (acc @ l) ls)"

definition lua_line :: "'f report_builder \<Rightarrow> report_file \<Rightarrow> int \<times> string \<Rightarrow> report_file" where
  "lua_line bu f p =
     (let w = hd (split_all (CHR '' '') (strip (snd p)))
      in case bind_res (if last_n 2 w \<in> {''*0'', ''0''} then Inr 0 else py_int w) (\<lambda>c. append_line bu f (fst p) (CovInt c) None) of
           Inr f' \<Rightarrow> f'
         | Inl _ \<Rightarrow> f)"

text \<open>
  A document without a name adds to the current file. In the code the report may hold that very file
  after it was appended; here the report keeps the file as it was, and the later state is merged
  into it when it is appended again.
\<close>

definition lua_doc ::
  "'f report_builder \<Rightarrow> 'f builder_session \<times> report_file option \<Rightarrow> string \<Rightarrow> ('f builder_session \<times> report_file option) res" where
  "lua_doc bu p doc =
     (case p of (st, f) \<Rightarrow>
        let text = rstrip doc
        in if text = ''Summary'' then Inr (st, None)
           else if endswith text ''.lua'' \<or> endswith text ''.lisp'' then
             map_res (\<lambda>(f', st'). (st', f')) (create_coverage_file bu st text True)
           else
             (case f of
                None \<Rightarrow> Inr (st, None)
              | Some file \<Rightarrow>
                  let file' = foldl (lua_line bu) file (enumerate_from 1 (splitlines text))
                  in map_res (\<lambda>st'. (st', Some file')) (session_append st file')))"

definition lua_from_txt :: "codec \<Rightarrow> 'f report_builder \<Rightarrow> 'f builder_session \<Rightarrow> string \<Rightarrow> 'f builder_session res" where
  "lua_from_txt cd bu st bytes =
     map_res fst (foldl_res (lua_doc bu) (st, None)
       (split_rules [] (io_lines (replace_str [CHR 0x09] '' '' (decode_replace cd bytes)))))"

section \<open>D\<close>

definition dlst_matches :: "string \<Rightarrow> bool" where
  "dlst_matches content \<longleftrightarrow> last_n 7 content = ''covered''"

text \<open>The text from the last line feed on (the last character when there is none).\<close>

definition from_last_newline :: "string \<Rightarrow> string" where
  "from_last_newline s =
     (if newline \<in> set s then newline # rev (takeWhile (\<lambda>c. c \<noteq> newline) (rev s)) else last_n 1 s)"

definition dlst_name :: "codec \<Rightarrow> string \<Rightarrow> string" where
  "dlst_name cd bytes =
     (let name = hd (split_str '' is '' (strip (decode_replace cd (from_last_newline bytes))))
      in if startswith name ''source '' then drop 7 name else name)"

definition dlst_line :: "'f report_builder \<Rightarrow> report_file \<Rightarrow> int \<times> string \<Rightarrow> report_file" where
  "dlst_line bu f p =
     (case bind_res (py_int (strip (hd (split_all (CHR ''|'') (snd p))))) (\<lambda>c. append_line bu f (fst p) (CovInt c) None) of
        Inr f' \<Rightarrow> f'
      | Inl _ \<Rightarrow> f)"

definition dlst_from_string :: "codec \<Rightarrow> 'f report_builder \<Rightarrow> 'f builder_session \<Rightarrow> string \<Rightarrow> 'f builder_session res" where
  "dlst_from_string cd bu st bytes =
     bind_res (if bs_filepath st = [] then Inr (None, st) else path_fix bu st (but_last_n 3 (bs_filepath st) @ ''d'')) (\<lambda>(p, st1).
     with_file bu st1 (case p of Some (c # cs) \<Rightarrow> c # cs | _ \<Rightarrow> dlst_name cd bytes) (\<lambda>f.
       Inr (foldl (dlst_line bu) f (enumerate_from 1 (text_lines cd bytes)))))"

section \<open>gcov\<close>

definition gcov_matches :: "string \<Rightarrow> bool" where
  "gcov_matches content = contains (hd (split_all newline content)) ''0:Source:''"

text \<open>
  The regular expressions: a bracket at the start of a line; a loop or a conditional after
  whitespace, with at most one space before the parenthesis.
\<close>

definition ignored_bracket :: "string \<Rightarrow> bool" where
  "ignored_bracket s \<longleftrightarrow> startswith s ''{'' \<or> startswith s ''}''"

definition keyword_paren :: "string \<Rightarrow> string \<Rightarrow> bool" where
  "keyword_paren k s \<longleftrightarrow> startswith s k \<and>
     (let r = drop (length k) s in startswith r ''('' \<or> (r \<noteq> [] \<and> is_space (hd r) \<and> startswith (tl r) ''(''))"

definition detect_loop :: "string \<Rightarrow> bool" where
  "detect_loop s \<longleftrightarrow> s \<noteq> [] \<and> is_space (hd s) \<and> (keyword_paren ''for'' (lstrip s) \<or> keyword_paren ''while'' (lstrip s))"

definition detect_conditional :: "string \<Rightarrow> bool" where
  "detect_conditional s \<longleftrightarrow> s \<noteq> [] \<and> is_space (hd s) \<and> (keyword_paren ''if'' (lstrip s) \<or> keyword_paren ''} else if'' (lstrip s))"

record gcov_settings =
  gs_methods :: bool
  gs_loops :: bool
  gs_conditions :: bool
  gs_macros :: bool

definition gcov_settings_of :: "json \<Rightarrow> gcov_settings" where
  "gcov_settings_of settings =
     (let flag = (\<lambda>k. j_truthy (read_yaml_field settings [''branch_detection'', k] (JBool False)))
      in \<lparr>gs_methods = flag ''method'', gs_loops = flag ''loop'', gs_conditions = flag ''conditional'', gs_macros = flag ''macro''\<rparr>)"

text \<open>
  The state of the loop. A line number that is no number (\<open>ln\<close> is a string or \<open>None\<close> then) is never a key
  of \<open>lines\<close> and is \<open>None\<close> here. \<open>_cur_line_branch\<close> is the entry of \<open>line_branches\<close> at the current line.
\<close>

record gcov_state =
  gc_ignore :: bool
  gc_ln :: "int option"
  gc_next_is_func :: bool
  gc_data :: string
  gc_detected :: "bool option"
  gc_branches :: "(int, int \<times> int) dict"
  gc_lines :: "(int, int list) dict"
  gc_types :: "(int, coverage_type) dict"

definition gcov_start :: gcov_state where
  "gcov_start = \<lparr>gc_ignore = False, gc_ln = None, gc_next_is_func = False, gc_data = [], gc_detected = None,
     gc_branches = [], gc_lines = [], gc_types = []\<rparr>"

definition count_branch :: "int \<Rightarrow> string \<Rightarrow> gcov_state \<Rightarrow> gcov_state" where
  "count_branch n line s =
     (case (case dict_get (gc_branches s) n of None \<Rightarrow> (0, 0) | Some p \<Rightarrow> p) of (hit, tot) \<Rightarrow>
        s\<lparr>gc_branches := dict_set (gc_branches s) n
          (if \<not> contains line ''taken 0'' \<and> \<not> contains line ''never executed'' then hit + 1 else hit, tot + 1)\<rparr>)"

definition gcov_branch :: "gcov_settings \<Rightarrow> int \<Rightarrow> string \<Rightarrow> gcov_state \<Rightarrow> gcov_state" where
  "gcov_branch gs n line s =
     (case gc_detected s of
        Some False \<Rightarrow> s
      | Some True \<Rightarrow> count_branch n line s
      | None \<Rightarrow>
          let s1 = s\<lparr>gc_detected := Some False\<rparr>;
              typed = s1\<lparr>gc_types := dict_set (gc_types s1) n CT_branch\<rparr>;
              found = (\<lambda>t. count_branch n line (t\<lparr>gc_detected := Some True\<rparr>))
          in if dict_get (gc_types s1) n = Some CT_method \<and> \<not> gs_methods gs then s1
             else if detect_loop (gc_data s1) then (if gs_loops gs then found typed else typed)
             else if detect_conditional (gc_data s1) then (if gs_conditions gs then found typed else typed)
             else if gs_macros gs then found s1
             else s1)"

text \<open>A line of source code with its hits.\<close>

definition gcov_count :: "string \<Rightarrow> string \<Rightarrow> int option" where
  "gcov_count hit data =
     (if hit = ''#####'' then (if startswith (strip data) ''inline'' \<or> startswith (strip data) ''static'' then None else Some 0)
      else if hit = ''====='' then Some 0
      else (case py_int hit of Inr c \<Rightarrow> Some c | Inl _ \<Rightarrow> None))"

definition gcov_source :: "bool \<Rightarrow> string \<Rightarrow> gcov_state \<Rightarrow> gcov_state" where
  "gcov_source swift line s0 =
     (let s = s0\<lparr>gc_detected := None\<rparr>
      in case split_max 2 (CHR '':'') line of
           [a, b, data] \<Rightarrow>
             if strip data = ''}'' \<or> startswith data ''@implementation'' then s
             else
               let hit = (if swift then b else a); l = (if swift then a else b);
                   s1 = s\<lparr>gc_data := data, gc_ln := None\<rparr>
               in if ignored_bracket data \<or> contains hit ''-'' then s1
                  else
                    (case py_int (strip l) of
                       Inl _ \<Rightarrow> s1
                     | Inr n \<Rightarrow>
                         (case gcov_count (strip hit) data of
                            None \<Rightarrow> s1
                          | Some c \<Rightarrow>
                              s1\<lparr>gc_ln := Some n, gc_next_is_func := False,
                                gc_types := dict_set (gc_types s1) n (if gc_next_is_func s1 then CT_method else CT_line),
                                gc_lines := dict_set (gc_lines s1) n ((case dict_get (gc_lines s1) n of None \<Rightarrow> [] | Some cs \<Rightarrow> cs) @ [c])\<rparr>))
         | _ \<Rightarrow> s\<lparr>gc_ln := None\<rparr>)"

definition gcov_line :: "gcov_settings \<Rightarrow> bool \<Rightarrow> gcov_state \<Rightarrow> string \<Rightarrow> gcov_state" where
  "gcov_line gs swift s line =
     (if contains line ''LCOV_EXCL_START'' then s\<lparr>gc_ignore := True\<rparr>
      else if contains line ''LCOV_EXCL_END'' \<or> contains line ''LCOV_EXCL_STOP'' then s\<lparr>gc_ignore := False\<rparr>
      else if gc_ignore s then s
      else if contains line ''LCOV_EXCL_LINE'' then s
      else if take 4 line = ''func'' then s\<lparr>gc_next_is_func := True\<rparr>
      else
        (case (if take 4 line = ''bran'' then gc_ln s else None) of
           Some n \<Rightarrow> if n \<in> set (dict_keys (gc_lines s)) then gcov_branch gs n line s else gcov_source swift line s
         | None \<Rightarrow> if take 4 line = ''call'' then s else gcov_source swift line s))"

definition gcov_emit :: "'f report_builder \<Rightarrow> gcov_state \<Rightarrow> report_file \<Rightarrow> int \<times> int list \<Rightarrow> report_file res" where
  "gcov_emit bu s f p =
     (case p of (n, cs) \<Rightarrow>
        let ty = (case dict_get (gc_types s) n of None \<Rightarrow> CT_line | Some t \<Rightarrow> t)
        in case dict_get (gc_branches s) n of
             Some (a, b) \<Rightarrow> append_line bu f n (CovStr (frac_str a b)) (Some ty)
           | None \<Rightarrow> foldl_res (\<lambda>f c. append_line bu f n (CovInt c) (Some ty)) f cs)"

definition gcov_from_txt :: "codec \<Rightarrow> 'f report_builder \<Rightarrow> 'f builder_session \<Rightarrow> string \<Rightarrow> 'f builder_session res" where
  "gcov_from_txt cd bu st bytes =
     (case text_lines cd bytes of
        [] \<Rightarrow> Inl StopIteration
      | first # lines \<Rightarrow>
          bind_res (let ps = split_all (CHR '':'') first in if 3 < length ps then Inr (lstrip_chars ''./'' (ps ! 3)) else Inl IndexError) (\<lambda>name.
          bind_res (let fp = bs_filepath st
                    in if fp \<noteq> [] \<and> endswith fp (name @ ''.gcov'') then fix_either bu st (but_last_n 5 fp) name
                       else path_fix bu st name) (\<lambda>(fixed, st1).
            case fixed of
              Some (ch # cs) \<Rightarrow>
                let path = ch # cs;
                    gs = gcov_settings_of (yaml_field bu [''parsers'', ''gcov''] JNull);
                    s = foldl (gcov_line gs (endswith path ''.swift'')) gcov_start lines
                in bind_res (foldl_res (gcov_emit bu s) (new_file bu path) (gc_lines s)) (session_append st1)
            | _ \<Rightarrow> Inr st1)))"

section \<open>Xcode\<close>

definition xcode_endings :: "string list" where
  "xcode_endings = [''.h:'', ''.m:'', ''.swift:'', ''.hpp:'', ''.cpp:'', ''.cxx:'', ''.c:'', ''.C:'', ''.cc:'', ''.cxx:'', ''.c++:'']"

definition xcode_names :: "string list" where
  "xcode_names = [''app.coverage.txt'', ''framework.coverage.txt'', ''xctest.coverage.txt'']"

definition xcode_matches :: "string \<Rightarrow> string \<Rightarrow> bool" where
  "xcode_matches first_line name \<longleftrightarrow> (\<exists>e \<in> set xcode_names. endswith name e) \<or> (\<exists>e \<in> set xcode_endings. endswith first_line e)"

definition remove_non_ascii :: "string \<Rightarrow> string" where
  "remove_non_ascii s = filter (char_in 32 126) s"

definition START_PARTIAL :: string where
  "START_PARTIAL = CHR 0x1B # ''[0;41m''"

definition END_PARTIAL :: string where
  "END_PARTIAL = CHR 0x1B # ''[0m''"

definition NAME_COLOR :: string where
  "NAME_COLOR = [CHR 0x1B, CHR 0x1B] @ ''[0;36m''"

lemma replace_first_length: "contains s p \<Longrightarrow> p \<noteq> [] \<Longrightarrow> length (replace_first p [] s) < length s"
  by (induction s) auto

lemma replace_first_le: "length (replace_first p [] s) \<le> length s"
  by (induction s) auto

function partials_loop :: "string \<Rightarrow> partial list \<Rightarrow> partial list" where
  "partials_loop line ps =
     (if contains line START_PARTIAL \<and> contains line END_PARTIAL then
        let sc = int (the (find_in START_PARTIAL 0 line));
            l1 = lstrip_chars [CHR 0x1B] (replace_first START_PARTIAL [] line);
            l2 = lstrip l1;
            offset = int (length l1) - int (length l2);
            ec = (case find_in END_PARTIAL 0 l2 of None \<Rightarrow> -1 | Some n \<Rightarrow> int n)
        in partials_loop (replace_first END_PARTIAL [] l2) (ps @ [(Some (sc + offset), Some (ec + offset), 0)])
      else ps)"
  by pat_completeness auto
termination
proof (relation "measure (\<lambda>(line, ps). length line)", goal_cases)
  case 1
  show ?case by simp
next
  case (2 line ps sc l1 l2 offset ec)
  have "length (replace_first END_PARTIAL [] l2) \<le> length l2" by (rule replace_first_le)
  also have "\<dots> \<le> length l1" using 2 by (simp add: lstrip_def length_dropWhile_le)
  also have "\<dots> \<le> length (replace_first START_PARTIAL [] line)" using 2 by (simp add: lstrip_chars_def length_dropWhile_le)
  also have "\<dots> < length line" using 2 by (intro replace_first_length) (auto simp: START_PARTIAL_def)
  finally show ?case by simp
qed

declare partials_loop.simps [simp del]

definition get_partials_in_line :: "string \<Rightarrow> partial list option" where
  "get_partials_in_line line = (if contains line START_PARTIAL then Some (partials_loop line []) else None)"

text \<open>\<open>int(float(s) * k)\<close>; every failure is caught by the caller.\<close>

definition int_float :: "rat \<Rightarrow> string \<Rightarrow> int res" where
  "int_float k s =
     (case drop_sign (filter (\<lambda>c. c \<noteq> CHR ''_'') (lower (strip s))) of (neg, t) \<Rightarrow>
        (case unsigned_decimal t of
           None \<Rightarrow> Inl ValueError
         | Some q \<Rightarrow>
             let x = fl (fl q * k)
             in if 2 ^ 1024 \<le> fl q \<or> 2 ^ 1024 \<le> x then Inl OverflowError else Inr (if neg then - \<lfloor>x\<rfloor> else \<lfloor>x\<rfloor>)))"

definition xcode_cov :: "string \<Rightarrow> int" where
  "xcode_cov s =
     (case
        (if contains s ''k'' \<or> contains s ''K'' then bind_res (int_float 1000 (replace_str ''k'' [] s)) (\<lambda>n. maxint (int_str n))
         else if contains s ''m'' \<or> contains s ''M'' then Inr 99999
         else bind_res (int_float 1 s) (\<lambda>n. maxint (int_str n))) of
        Inr c \<Rightarrow> c
      | Inl _ \<Rightarrow> 1)"

record 'f xcode_state =
  xc_session :: "'f builder_session"
  xc_file :: "report_file option"
  xc_swapped :: bool

text \<open>A source line; the two columns with line number and hits may be swapped for the rest of the report.\<close>

definition xcode_source :: "'f report_builder \<Rightarrow> 'f xcode_state \<Rightarrow> report_file \<Rightarrow> string list \<Rightarrow> 'f xcode_state res" where
  "xcode_source bu s f parts =
     (if length parts \<le> 1 then Inr s
      else if 2 < length parts \<and> strip (parts ! 2) = ''}'' then Inr s
      else
        (case (case py_int (strip (parts ! (if xc_swapped s then 0 else 1))) of
                 Inr n \<Rightarrow> Some (n, s)
               | Inl _ \<Rightarrow> if parts ! 0 = ''1'' then Some (1, s\<lparr>xc_swapped := True\<rparr>) else None) of
           None \<Rightarrow> Inr s
         | Some (n, s1) \<Rightarrow>
             if length parts \<le> 2 then Inl IndexError
             else
               (case (if parts ! 2 = [] then None else get_partials_in_line (parts ! 2)) of
                  Some (p # ps) \<Rightarrow>
                    map_res (\<lambda>(_, f'). s1\<lparr>xc_file := Some f'\<rparr>)
                      (rf_append f n (create_coverage_line bu (CovInt 0) None (Some (p # ps)) None None))
                | _ \<Rightarrow>
                    let c = strip (replace_str ''E'' [] (parts ! (if xc_swapped s1 then 1 else 0)))
                    in if c = [] then Inr s1
                       else (case append_line bu f n (CovInt (xcode_cov c)) None of
                           Inr f' \<Rightarrow> Inr (s1\<lparr>xc_file := Some f'\<rparr>)
                         | Inl _ \<Rightarrow> Inr s1))))"

definition xcode_line :: "'f report_builder \<Rightarrow> 'f xcode_state \<Rightarrow> string \<Rightarrow> 'f xcode_state res" where
  "xcode_line bu s raw =
     (let text = lstrip_chars '' '' (rstrip_chars '' '' (remove_non_ascii raw))
      in if text = [] \<or> hd text \<in> {CHR ''-'', CHR ''|'', CHR ''w''} then Inr s
         else
           let line = replace_str NAME_COLOR [] text
           in if endswith line '':'' \<and> \<not> contains line ''|'' then
                bind_res (append_pending (xc_session s) (xc_file s)) (\<lambda>st.
                bind_res (create_coverage_file bu st (butlast (drop 1 (replace_str END_PARTIAL [] line))) True) (\<lambda>(f, st').
                  Inr (s\<lparr>xc_session := st', xc_file := f\<rparr>)))
              else
                (case xc_file s of
                   None \<Rightarrow> Inr s
                 | Some f \<Rightarrow> xcode_source bu s f (split_all (CHR ''|'') line)))"

definition xcode_from_txt :: "codec \<Rightarrow> 'f report_builder \<Rightarrow> 'f builder_session \<Rightarrow> string \<Rightarrow> 'f builder_session res" where
  "xcode_from_txt cd bu st bytes =
     bind_res (foldl_res (xcode_line bu) \<lparr>xc_session = st, xc_file = None, xc_swapped = False\<rparr> (text_lines cd bytes)) (\<lambda>s.
       append_pending (xc_session s) (xc_file s))"

section \<open>The processors satisfy their contract\<close>

interpretation go: language_processor "go_from_txt cd"
  unfolding go_from_txt_def by unfold_locales (intro yields_rules)

text \<open>Lines that cannot be read are skipped, so the file after such a loop is always a value.\<close>

lemma foldl_file_of_session:
  "(\<And>f x. file_of_session (bu_sessionid bu) W f \<Longrightarrow> file_of_session (bu_sessionid bu) W (h f x)) \<Longrightarrow> file_of_session (bu_sessionid bu) W f \<Longrightarrow> file_of_session (bu_sessionid bu) W (foldl h f xs)"
  by (induction xs arbitrary: f) auto

lemma dlst_line_of_session:
  "file_of_session (bu_sessionid bu) W f \<Longrightarrow> file_of_session (bu_sessionid bu) W (dlst_line bu f p)"
  by (auto simp: dlst_line_def split: sum.splits dest: append_line_of_session)

interpretation dlst: language_processor "dlst_from_string cd"
proof
  fix bu :: "'a report_builder" and c J W
  let ?P = "building bu J W"
  have "yields ?P (\<lambda>st. if bs_filepath st = [] then Inr (None, st) else path_fix bu st (but_last_n 3 (bs_filepath st) @ ''d'')) (\<lambda>(p, st). ?P st)"
    by (auto simp: yields_def dest: building_path_fix)
  then show "yields ?P (\<lambda>st. dlst_from_string cd bu st c) ?P"
    unfolding dlst_from_string_def
    by (rule yields_seq) (auto intro!: yieldsI dest!: building_with_file intro: foldl_file_of_session dlst_line_of_session)
qed

lemma lua_line_of_session:
  "file_of_session (bu_sessionid bu) W f \<Longrightarrow> file_of_session (bu_sessionid bu) W (lua_line bu f p)"
  by (auto simp: lua_line_def Let_def split: sum.splits dest: append_line_of_session)

lemma lua_doc_pending:
  assumes "lua_doc bu (st, f) doc = Inr t" "pending bu J W (st, f)"
  shows "pending bu J W t"
proof -
  consider "t = (st, None)"
    | p g st2 where "create_coverage_file bu st p True = Inr (g, st2)" "t = (st2, g)"
    | y xs st2 where "f = Some y" "session_append st (foldl (lua_line bu) y xs) = Inr st2" "t = (st2, Some (foldl (lua_line bu) y xs))"
    using assms(1) by (auto simp: lua_doc_def Let_def split: if_splits option.splits)
  then show ?thesis
  proof cases
    case 2
    with assms(2) building_create_file [OF 2(1), of J W] show ?thesis by simp
  next
    case 3
    with assms(2) have "file_of_session (bu_sessionid bu) W (foldl (lua_line bu) y xs)"
      by (auto intro: foldl_file_of_session lua_line_of_session)
    with 3 assms(2) show ?thesis using building_append by auto
  qed (use assms(2) in simp)
qed

lemma yields_pendingI:
  "(\<And>st f t. h (st, f) = Inr t \<Longrightarrow> pending bu J W (st, f) \<Longrightarrow> pending bu J W t) \<Longrightarrow> yields (pending bu J W) h (pending bu J W)"
  by (simp add: yields_def del: pending.simps)

interpretation lua: language_processor "lua_from_txt cd"
  unfolding lua_from_txt_def map_res_def
  by unfold_locales (rule yields_scan, rule yields_pendingI, erule lua_doc_pending, assumption, simp, auto simp: yields_def)

text \<open>LCOV: the current file is part of the state of the loop over the lines of a record.\<close>

lemma lcov_da_of_session:
  "lcov_da bu f content = Inr g \<Longrightarrow> file_of_session (bu_sessionid bu) W f \<Longrightarrow> file_of_session (bu_sessionid bu) W g"
  by (auto simp: lcov_da_def split: list.splits if_splits sum.splits prod.splits dest: append_line_of_session)

lemma lcov_fn_file [simp]: "lc_file (lcov_fn s content) = lc_file s"
  by (simp add: lcov_fn_def split: list.split)

lemma lcov_brda_file [simp]: "lc_file (lcov_brda f s content) = lc_file s"
  by (simp add: lcov_brda_def Let_def split: list.split)

lemma lcov_line_pending:
  assumes "lcov_line bu (st, s) l = Inr (st', w)" "pending bu J W (st, lc_file s)"
  shows "building bu J W st' \<and> (\<forall>s'. w = Some s' \<longrightarrow> pending bu J W (st', lc_file s'))"
proof -
  consider "st' = st" "w = None"
    | s' where "st' = st" "w = Some s'" "lc_file s' = lc_file s"
    | p g s' where "create_coverage_file bu st p True = Inr (g, st')" "w = Some s'" "lc_file s' = g"
    | y c g s' where "lc_file s = Some y" "lcov_da bu y c = Inr g" "st' = st" "w = Some s'" "lc_file s' = Some g"
    using assms(1) by (auto simp: lcov_line_def Let_def split: if_splits option.splits)
  then show ?thesis
  proof cases
    case 3
    with assms(2) building_create_file [OF 3(1), of J W] show ?thesis by simp
  next
    case 4
    with assms(2) lcov_da_of_session [OF 4(2)] show ?thesis by simp
  qed (use assms(2) in simp_all)
qed

lemma lcov_lines_pending:
  "lcov_lines bu st s ls = Inr (st', w) \<Longrightarrow> pending bu J W (st, lc_file s) \<Longrightarrow>
   building bu J W st' \<and> (\<forall>s'. w = Some s' \<longrightarrow> pending bu J W (st', lc_file s'))"
proof (induction ls arbitrary: st s)
  case (Cons l ls)
  from Cons.prems(1) obtain st1 w1 where l: "lcov_line bu (st, s) l = Inr (st1, w1)"
    and r: "(case w1 of None \<Rightarrow> Inr (st1, None) | Some t \<Rightarrow> lcov_lines bu st1 t ls) = Inr (st', w)"
    by auto
  note p = lcov_line_pending [OF l Cons.prems(2)]
  show ?case
  proof (cases w1)
    case (Some t)
    with r have "lcov_lines bu st1 t ls = Inr (st', w)" by simp
    then show ?thesis by (rule Cons.IH) (use p Some in simp)
  qed (use r p in simp)
qed auto

lemma lcov_branch_of_session:
  "lcov_branch bu fns f p = Inr g \<Longrightarrow> file_of_session (bu_sessionid bu) W f \<Longrightarrow> file_of_session (bu_sessionid bu) W g"
  by (auto simp: lcov_branch_def branch_line_def Let_def split: sum.splits dest: file_of_session_setitem)

lemma lcov_process_file_pending:
  assumes "lcov_process_file cd bu st doc = Inr (f, st')" "building bu J W st"
  shows "pending bu J W (st', f)"
proof -
  let ?i = "bu_sessionid bu"
  from assms(1) obtain st1 w where l: "lcov_lines bu st lcov_start (text_lines cd doc) = Inr (st1, w)"
    by (auto simp: lcov_process_file_def)
  have p: "building bu J W st1 \<and> (\<forall>s'. w = Some s' \<longrightarrow> pending bu J W (st1, lc_file s'))"
    using lcov_lines_pending [OF l] assms(2) by (simp add: lcov_start_def)
  show ?thesis
  proof (cases "w = None \<or> lc_file (the w) = None")
    case True
    with assms(1) l p show ?thesis by (cases w) (auto simp: lcov_process_file_def)
  next
    case False
    then obtain s y where s: "w = Some s" "lc_file s = Some y" by auto
    with assms(1) l obtain br g where g: "foldl_res (lcov_branch bu (lc_fn_lines s)) y br = Inr g" "f = Some g" "st' = st1"
      by (auto simp: lcov_process_file_def)
    from s p have "file_of_session (bu_sessionid bu) W y" by simp
    with g(1) have "file_of_session (bu_sessionid bu) W g" by (rule foldl_of_session) (rule lcov_branch_of_session)
    with p g show ?thesis by simp
  qed
qed

interpretation lcov: language_processor "lcov_from_txt cd"
  unfolding lcov_from_txt_def
  by unfold_locales (intro yields_rules yieldsI; auto simp del: pending.simps dest: lcov_process_file_pending building_pending)

text \<open>gcov and Xcode.\<close>

lemma yields_gcov_emit [yields_rules]:
  "yields (file_of_session (bu_sessionid bu) W) (\<lambda>f. gcov_emit bu s f p) (file_of_session (bu_sessionid bu) W)"
  unfolding gcov_emit_def by (intro yields_rules)

lemma yields_gcov_write:
  "yields (\<lambda>(r, st). building bu J W st \<and> (\<forall>q. r = Some q \<longrightarrow> W q))
     (\<lambda>(r, st). case r of
        Some (ch # cs) \<Rightarrow> bind_res (foldl_res (gcov_emit bu (s (ch # cs))) (new_file bu (ch # cs)) (gc_lines (s (ch # cs)))) (session_append st)
      | _ \<Rightarrow> Inr st) (building bu J W)"
proof -
  have "building bu J W st'"
    if b: "building bu J W st" "W p" and g: "foldl_res (gcov_emit bu t) (new_file bu p) ls = Inr g" "session_append st g = Inr st'" for st t p ls g st'
  proof -
    from g(1) have "file_of_session (bu_sessionid bu) W g"
      by (rule foldl_of_session) (simp add: b(2), erule yieldsD [OF yields_gcov_emit])
    with b(1) g(2) show ?thesis using building_append by blast
  qed
  then show ?thesis by (auto simp: yields_def split: option.split list.split)
qed

interpretation gcov: language_processor "gcov_from_txt cd"
proof
  fix bu :: "'a report_builder" and c J W
  let ?P = "building bu J W"
  have f: "yields ?P (\<lambda>st. let fp = bs_filepath st in if fp \<noteq> [] \<and> endswith fp (name @ ''.gcov'') then fix_either bu st (but_last_n 5 fp) name
      else path_fix bu st name) (\<lambda>(r, st). ?P st \<and> (\<forall>q. r = Some q \<longrightarrow> W q))" for name
    by (auto simp: yields_def Let_def dest: building_fix_either building_path_fix)
  show "yields ?P (\<lambda>st. gcov_from_txt cd bu st c) ?P"
    unfolding gcov_from_txt_def
    by (intro yields_list yields_raise yields_read yields_seq [OF f]) (unfold Let_def, rule yields_gcov_write)
qed

lemma xcode_source_pending:
  assumes "xcode_source bu s f parts = Inr t" "pending bu J W (xc_session s, xc_file s)" "xc_file s = Some f"
  shows "pending bu J W (xc_session t, xc_file t)"
proof -
  let ?i = "bu_sessionid bu"
  have f: "file_of_session (bu_sessionid bu) W f" and b: "building bu J W (xc_session s)" using assms(2,3) by simp_all
  let ?ok = "\<lambda>t. building bu J W (xc_session t) \<and> (\<forall>g. xc_file t = Some g \<longrightarrow> file_of_session (bu_sessionid bu) W g)"
  have app: "xc_session s1 = xc_session s \<Longrightarrow> rf_append f n (create_coverage_line bu c ty ps mb cx) = Inr (d, g) \<Longrightarrow> ?ok (s1\<lparr>xc_file := Some g\<rparr>)"
    for s1 n c ty ps mb cx d g
    using f b file_of_session_append [of f n] by simp
  have same: "xc_session s1 = xc_session s \<Longrightarrow> xc_file s1 = xc_file s \<Longrightarrow> ?ok s1" for s1
    using f b assms(3) by simp
  have "?ok t"
  proof (cases "length parts \<le> 1 \<or> (2 < length parts \<and> strip (parts ! 2) = ''}'')")
    case True
    with assms(1) same [of s] show ?thesis by (auto simp: xcode_source_def split: if_splits)
  next
    case False
    let ?n = "case py_int (strip (parts ! (if xc_swapped s then 0 else 1))) of
                 Inr n \<Rightarrow> Some (n, s)
               | Inl _ \<Rightarrow> if parts ! 0 = ''1'' then Some (1, s\<lparr>xc_swapped := True\<rparr>) else None"
    show ?thesis
    proof (cases ?n)
      case None
      with False assms(1) same [of s] show ?thesis by (auto simp: xcode_source_def)
    next
      case (Some ns)
      obtain n s1 where ns: "ns = (n, s1)" by (cases ns)
      have s1: "xc_session s1 = xc_session s" "xc_file s1 = xc_file s"
        using Some ns by (auto split: sum.splits if_splits)
      show ?thesis
        using assms(1) False Some ns same [OF s1] app [OF s1(1)]
        by (auto simp: xcode_source_def append_line_def Let_def split: if_split_asm option.split_asm list.split_asm sum.split_asm)
    qed
  qed
  then show ?thesis by simp
qed

lemma xcode_line_pending:
  assumes "xcode_line bu s l = Inr t" "pending bu J W (xc_session s, xc_file s)"
  shows "pending bu J W (xc_session t, xc_file t)"
proof -
  consider "t = s"
    | st1 p g st2 where "append_pending (xc_session s) (xc_file s) = Inr st1" "create_coverage_file bu st1 p True = Inr (g, st2)"
        "xc_session t = st2" "xc_file t = g"
    | y parts where "xc_file s = Some y" "xcode_source bu s y parts = Inr t"
    using assms(1) by (auto simp: xcode_line_def Let_def split: if_splits option.splits)
  then show ?thesis
  proof cases
    case 2
    with building_pending [OF 2(1) assms(2)] building_create_file [OF 2(2)] show ?thesis by simp
  next
    case 3
    with xcode_source_pending assms(2) show ?thesis by blast
  qed (use assms(2) in simp)
qed

interpretation xcode: language_processor "xcode_from_txt cd"
proof
  fix bu :: "'a report_builder" and c J W
  let ?i = "bu_sessionid bu"
  show "yields (building bu J W) (\<lambda>st. xcode_from_txt cd bu st c) (building bu J W)"
    unfolding xcode_from_txt_def
    by (rule yields_scan [where P = "\<lambda>s. pending bu J W (xc_session s, xc_file s)"])
      (auto simp del: pending.simps intro!: yieldsI dest: xcode_line_pending building_pending, simp)
qed

section \<open>Properties\<close>

lemma contains_set: "contains s p \<Longrightarrow> set p \<subseteq> set s"
proof (induction s)
  case (Cons c s)
  then show ?case using set_take_subset [of "length p" "c # s"] by (auto simp: startswith_def)
qed simp

lemma set_split_all: "w \<in> set (split_all c s) \<Longrightarrow> set w \<subseteq> set s"
  by (induction s arbitrary: w) (force split: if_splits list.splits)+

lemma set_replace_removed: "set (replace_str p [] s) \<subseteq> set s"
proof (induction "length s" arbitrary: s rule: less_induct)
  case less
  show ?case
  proof (cases s)
    case (Cons c t)
    have "set (replace_str p [] (drop (length p) s)) \<subseteq> set s" if "p \<noteq> []"
      using less [of "drop (length p) s"] Cons that set_drop_subset [of "length p" s] by (auto simp del: set_drop_subset)
    moreover have "set (replace_str p [] t) \<subseteq> set t" using less [of t] Cons by simp
    ultimately show ?thesis using Cons by auto
  qed simp
qed

text \<open>
  Xcode marks partially covered regions with escape sequences, and the processor has code to read
  them, but it removes the escape characters from every line first, so that no line has partials.
\<close>

theorem xcode_no_partials:
  "list_all (\<lambda>part. get_partials_in_line part = None)
     (split_all (CHR ''|'') (replace_str NAME_COLOR [] (lstrip_chars '' '' (rstrip_chars '' '' (remove_non_ascii raw)))))"
proof -
  let ?s = "lstrip_chars '' '' (rstrip_chars '' '' (remove_non_ascii raw))"
  have "set ?s \<subseteq> set (remove_non_ascii raw)"
    unfolding lstrip_chars_def rstrip_chars_def by (metis set_dropWhileD set_rev subsetI)
  moreover have "CHR 0x1B \<notin> set (remove_non_ascii raw)" by (simp add: remove_non_ascii_def char_in_def)
  ultimately have "CHR 0x1B \<notin> set part" if "part \<in> set (split_all (CHR ''|'') (replace_str NAME_COLOR [] ?s))" for part
    using set_split_all [OF that] set_replace_removed [of NAME_COLOR ?s] by blast
  then show ?thesis
    by (auto simp: list_all_iff get_partials_in_line_def START_PARTIAL_def dest!: contains_set)
qed

end
