(* ===== verification/Languages_Xml.thy ===== *)
theory Languages_Xml
  imports Languages_Text
begin

text \<open>
  The processors of coverage reports in XML and of Xcode property lists (apps/worker/services/report/languages): Bullseye,
  scoverage, JetBrains, Clover, Mono, OpenCover (C\#), JaCoCo, the two Visual Basic formats, Cobertura and xccoverage. The
  parser of XML (lxml) and of property lists give the trees that the processors get; the dates of the library
  timestring are an argument.
\<close>

section \<open>Elements\<close>

text \<open>An element of lxml: its tag, its attributes, the text before its first child, and its children that are elements.\<close>

datatype xml = Element (el_tag: string) (el_attrib: "(string, string) dict") (el_text: "string option") (el_children: "xml list")

text \<open>The element and all elements below it, in document order; with those above it, the nearest first.\<close>

fun elements :: "xml \<Rightarrow> xml list" where
  "elements (Element t a x cs) = Element t a x cs # concat (map elements cs)"

fun placed_elements :: "xml list \<Rightarrow> xml \<Rightarrow> (xml list \<times> xml) list" where
  "placed_elements up (Element t a x cs) =
     (up, Element t a x cs) # concat (map (placed_elements (Element t a x cs # up)) cs)"

definition xml_iter :: "xml \<Rightarrow> string \<Rightarrow> xml list" where
  "xml_iter e tag = filter (\<lambda>x. el_tag x = tag) (elements e)"

definition xml_placed :: "xml list \<Rightarrow> xml \<Rightarrow> string \<Rightarrow> (xml list \<times> xml) list" where
  "xml_placed up e tag = filter (\<lambda>x. el_tag (snd x) = tag) (placed_elements up e)"

definition xml_iterfind :: "xml \<Rightarrow> string \<Rightarrow> xml list" where
  "xml_iterfind e tag = filter (\<lambda>x. el_tag x = tag) (el_children e)"

definition xml_find :: "xml \<Rightarrow> string \<Rightarrow> xml option" where
  "xml_find e tag = find (\<lambda>x. el_tag x = tag) (el_children e)"

text \<open>\<open>attrib.get(k)\<close> and \<open>attrib[k]\<close>.\<close>

definition attr_get :: "xml \<Rightarrow> string \<Rightarrow> string option" where
  "attr_get e k = dict_get (el_attrib e) k"

definition attr_of :: "xml \<Rightarrow> string \<Rightarrow> string res" where
  "attr_of e k = (case attr_get e k of None \<Rightarrow> Inl KeyError | Some v \<Rightarrow> Inr v)"

definition attr_int :: "xml \<Rightarrow> string \<Rightarrow> int res" where
  "attr_int e k = bind_res (attr_of e k) py_int"

text \<open>\<open>int(attrib.get(k))\<close>: \<open>int(None)\<close> raises.\<close>

definition attr_get_int :: "xml \<Rightarrow> string \<Rightarrow> int res" where
  "attr_get_int e k = (case attr_get e k of None \<Rightarrow> Inl TypeError | Some v \<Rightarrow> py_int v)"

text \<open>\<open>int(attrib.get(k) or 0)\<close>.\<close>

definition attr_int_or_0 :: "xml \<Rightarrow> string \<Rightarrow> int res" where
  "attr_int_or_0 e k = (case attr_get e k of None \<Rightarrow> Inr 0 | Some v \<Rightarrow> if v = [] then Inr 0 else py_int v)"

definition child_text :: "xml \<Rightarrow> string \<Rightarrow> string" where
  "child_text parent element =
     (case xml_find parent element of None \<Rightarrow> [] | Some child \<Rightarrow> (case el_text child of None \<Rightarrow> [] | Some t \<Rightarrow> t))"

definition append_full_line ::
  "'f report_builder \<Rightarrow> report_file \<Rightarrow> int \<Rightarrow> cov \<Rightarrow> coverage_type option \<Rightarrow> partial list option \<Rightarrow> branch_id list option \<Rightarrow> complexity option \<Rightarrow> report_file res" where
  "append_full_line bu f lno c ty ps mb cx = map_res snd (rf_append f lno (create_coverage_line bu c ty ps mb cx))"

definition from_backslashes :: "string \<Rightarrow> string" where
  "from_backslashes s = map (\<lambda>c. if c = CHR 0x5C then CHR ''/'' else c) s"

section \<open>The age of a report\<close>

text \<open>timestring: \<open>Date(v)\<close> as a number, and \<open>date < max_age\<close>.\<close>

record date_lib =
  da_date :: "string option \<Rightarrow> int res"
  da_before :: "int \<Rightarrow> json \<Rightarrow> bool res"

definition expired :: "date_lib \<Rightarrow> string \<Rightarrow> json \<Rightarrow> unit res" where
  "expired D timestamp max_age =
     (if timestamp = [] then Inr ()
      else
        bind_res (da_date D (Some timestamp)) (\<lambda>d.
        bind_res (da_before D d max_age) (\<lambda>b. if b then Inl ReportExpiredException else Inr ())))"

definition with_max_age :: "'f report_builder \<Rightarrow> (json \<Rightarrow> unit res) \<Rightarrow> unit res" where
  "with_max_age bu check =
     (let max_age = yaml_field bu [''codecov'', ''max_report_age''] (JStr ''12h ago'')
      in if j_truthy max_age then check max_age else Inr ())"

section \<open>Bullseye\<close>

definition covxml :: "string \<Rightarrow> string" where
  "covxml tag = ''{https://www.bullseye.com/covxml}'' @ tag"

definition bullseye_matches :: "xml \<Rightarrow> bool" where
  "bullseye_matches content = contains (el_tag content) ''BullseyeCoverage''"

definition bullseye_age :: "date_lib \<Rightarrow> xml \<Rightarrow> json \<Rightarrow> unit res" where
  "bullseye_age D xml max_age =
     (case attr_get xml ''buildId'' of
        None \<Rightarrow> Inl AttributeError
      | Some build_id \<Rightarrow> expired D (join_str '' '' (drop 1 (split_all (CHR ''_'') build_id))) max_age)"

text \<open>The directories of a source file, from the folders around it; the loop reads the tag of the parent of every folder.\<close>

fun folder_path :: "xml list \<Rightarrow> string \<Rightarrow> string res" where
  "folder_path [] filepath = Inl AttributeError"
| "folder_path (p # up) filepath =
     (if el_tag p = covxml ''folder''
      then folder_path up ((case attr_get p ''name'' of None \<Rightarrow> ''None'' | Some n \<Rightarrow> n) @ ''/'' @ filepath)
      else Inr filepath)"

definition bullseye_probe :: "'f report_builder \<Rightarrow> report_file \<Rightarrow> xml \<Rightarrow> report_file res" where
  "bullseye_probe bu f probe =
     bind_res (attr_int probe ''line'') (\<lambda>lno.
     bind_res (attr_of probe ''kind'') (\<lambda>kind.
     bind_res (attr_of probe ''event'') (\<lambda>event.
       append_line bu f lno
         (if event = ''full'' then CovInt 1 else if event = ''none'' then CovInt 0 else CovStr ''1/2'')
         (Some (if kind \<in> {''condition'', ''decision'', ''switch-label''} then CT_branch
                else if kind = ''function'' then CT_method else CT_line)))))"

definition bullseye_src :: "'f report_builder \<Rightarrow> xml list \<times> xml \<Rightarrow> 'f builder_session \<Rightarrow> 'f builder_session res" where
  "bullseye_src bu p st =
     (case p of (up, src) \<Rightarrow>
        bind_res (folder_path up []) (\<lambda>filepath.
        bind_res (case attr_get src ''name'' of None \<Rightarrow> Inl TypeError | Some n \<Rightarrow> Inr (filepath @ n)) (\<lambda>path.
          with_file bu st path (\<lambda>f.
            foldl_res (\<lambda>f fn. foldl_res (bullseye_probe bu) f (xml_iter fn (covxml ''probe''))) f (xml_iter src (covxml ''fn''))))))"

definition bullseye_from_xml :: "date_lib \<Rightarrow> 'f report_builder \<Rightarrow> 'f builder_session \<Rightarrow> xml \<Rightarrow> 'f builder_session res" where
  "bullseye_from_xml D bu st xml =
     bind_res (with_max_age bu (bullseye_age D xml)) (\<lambda>_.
       each_file (\<lambda>(up, folder) st. each_file (bullseye_src bu) st (xml_placed up folder (covxml ''src''))) st
         (xml_placed [] xml (covxml ''folder'')))"

section \<open>Clover\<close>

definition clover_matches :: "xml \<Rightarrow> bool" where
  "clover_matches content \<longleftrightarrow> el_tag content = ''coverage'' \<and> attr_get content ''generated'' \<notin> {None, Some []}"

text \<open>The first \<open>loc\<close> among the metrics that is a number; other files than PHP have no end.\<close>

fun first_loc :: "xml list \<Rightarrow> int option" where
  "first_loc [] = None"
| "first_loc (m # ms) = (case attr_int m ''loc'' of Inr n \<Rightarrow> Some n | Inl _ \<Rightarrow> first_loc ms)"

definition get_end_of_file :: "string \<Rightarrow> xml \<Rightarrow> int option" where
  "get_end_of_file filename xmlfile = (if endswith filename ''.php'' then first_loc (xml_iter xmlfile ''metrics'') else None)"

definition clover_age :: "date_lib \<Rightarrow> xml \<Rightarrow> json \<Rightarrow> unit res" where
  "clover_age D xml max_age =
     (case xml_iter xml ''coverage'' of
        [] \<Rightarrow> Inr ()
      | e # _ \<Rightarrow>
          (case attr_get e ''generated'' of
             None \<Rightarrow> Inl TypeError
           | Some ts \<Rightarrow>
               if contains ts ''-'' then
                 (case split_all (CHR ''-'') ts of
                    a # b # c # _ \<Rightarrow> expired D (b @ ''-'' @ a @ ''-'' @ c) max_age
                  | _ \<Rightarrow> Inl IndexError)
               else expired D ts max_age))"

definition clover_line :: "'f report_builder \<Rightarrow> int option \<Rightarrow> report_file \<Rightarrow> xml \<Rightarrow> report_file res" where
  "clover_line bu eof f line =
     bind_res (attr_int line ''num'') (\<lambda>lno.
       if lno < 1 \<or> (case eof of None \<Rightarrow> False | Some e \<Rightarrow> e \<noteq> 0 \<and> lno > e) then Inr f
       else
         bind_res (attr_of line ''type'') (\<lambda>ty.
           if ty = ''cond'' then
             bind_res (attr_int line ''truecount'') (\<lambda>t.
             bind_res (attr_int line ''falsecount'') (\<lambda>n.
               append_line bu f lno
                 (CovStr (if t = 0 \<and> n = 0 then ''0/2'' else if t = 0 \<or> n = 0 then ''1/2'' else ''2/2'')) (Some CT_branch)))
           else if ty = ''method'' then
             bind_res (attr_int_or_0 line ''count'') (\<lambda>c.
             bind_res (attr_int_or_0 line ''complexity'') (\<lambda>cx.
               append_full_line bu f lno (CovInt c) (Some CT_method) None None (Some (CxInt cx))))
           else
             bind_res (attr_int_or_0 line ''count'') (\<lambda>c. append_line bu f lno (CovInt c) (Some CT_line))))"

definition clover_file :: "'f report_builder \<Rightarrow> xml \<Rightarrow> 'f builder_session \<Rightarrow> 'f builder_session res" where
  "clover_file bu el st =
     bind_res (case attr_get el ''path'' of None \<Rightarrow> attr_of el ''name'' | Some p \<Rightarrow> if p = [] then attr_of el ''name'' else Inr p) (\<lambda>filename.
       if contains filename ''{'' \<or> contains (''/'' @ filename) ''/vendor/'' \<and> endswith filename ''.php'' \<or> xml_find el ''line'' = None
       then Inr st
       else with_file bu st filename (\<lambda>f. foldl_res (clover_line bu (get_end_of_file filename el)) f (xml_iter el ''line'')))"

definition clover_from_xml :: "date_lib \<Rightarrow> 'f report_builder \<Rightarrow> 'f builder_session \<Rightarrow> xml \<Rightarrow> 'f builder_session res" where
  "clover_from_xml D bu st xml =
     bind_res (with_max_age bu (clover_age D xml)) (\<lambda>_. each_file (clover_file bu) st (xml_iter xml ''file''))"

section \<open>Files that are filled in turn\<close>

text \<open>
  Several processors first collect files in a dictionary and append them to the report at the end. The value is \<open>None\<close> for a
  path that is not wanted, where the code stores those too.
\<close>

type_synonym files = "(string, report_file option) dict"

definition file_in :: "files \<Rightarrow> string \<Rightarrow> report_file option" where
  "file_in d k = (case dict_get d k of Some f \<Rightarrow> f | None \<Rightarrow> None)"

text \<open>\<open>_file = create_coverage_file(path)\<close> and, unless it is \<open>None\<close>, \<open>files[key] = _file\<close>.\<close>

definition open_file :: "'f report_builder \<Rightarrow> 'f builder_session \<times> files \<Rightarrow> string \<Rightarrow> string res \<Rightarrow> ('f builder_session \<times> files) res" where
  "open_file bu s path key =
     (case s of (st, d) \<Rightarrow>
        bind_res (create_coverage_file bu st path True) (\<lambda>(f, st').
          case f of
            None \<Rightarrow> Inr (st', d)
          | Some g \<Rightarrow> bind_res key (\<lambda>k. Inr (st', dict_set d k (Some g)))))"

text \<open>The file of a path is created when the path comes up for the first time.\<close>

definition open_once :: "'f report_builder \<Rightarrow> 'f builder_session \<times> files \<Rightarrow> string \<Rightarrow> ('f builder_session \<times> files) res" where
  "open_once bu s path =
     (case s of (st, d) \<Rightarrow>
        if path \<in> set (dict_keys d) then Inr (st, d)
        else bind_res (create_coverage_file bu st path True) (\<lambda>(f, st'). Inr (st', dict_set d path f)))"

definition change_file :: "'f builder_session \<times> files \<Rightarrow> string \<Rightarrow> (report_file \<Rightarrow> report_file res) \<Rightarrow> ('f builder_session \<times> files) res" where
  "change_file s k body =
     (case s of (st, d) \<Rightarrow>
        (case file_in d k of
           None \<Rightarrow> Inr (st, d)
         | Some f \<Rightarrow> bind_res (body f) (\<lambda>g. Inr (st, dict_set d k (Some g)))))"

definition append_files :: "'f builder_session \<times> files \<Rightarrow> 'f builder_session res" where
  "append_files s = (case s of (st, d) \<Rightarrow> foldl_res append_pending st (dict_values d))"

definition collect_files ::
  "('f builder_session \<times> files \<Rightarrow> ('f builder_session \<times> files) res) \<Rightarrow> 'f builder_session \<Rightarrow> 'f builder_session res" where
  "collect_files fill st = bind_res (fill (st, [])) append_files"

section \<open>JetBrains\<close>

definition jetbrains_matches :: "xml \<Rightarrow> bool" where
  "jetbrains_matches content \<longleftrightarrow> el_tag content = ''Root''"

definition jetbrains_statement :: "'f report_builder \<Rightarrow> xml \<Rightarrow> report_file \<Rightarrow> report_file res" where
  "jetbrains_statement bu statement f =
     bind_res (attr_int statement ''Line'') (\<lambda>sl.
     bind_res (attr_int statement ''EndLine'') (\<lambda>el.
     bind_res (attr_int statement ''Column'') (\<lambda>sc.
     bind_res (attr_int statement ''EndColumn'') (\<lambda>ec.
     bind_res (attr_of statement ''Covered'') (\<lambda>covered.
       let c = (if covered = ''True'' then 1 else 0)
       in append_full_line bu f sl (CovInt c) None (if sl = el then Some [(Some sc, Some ec, c)] else None) None None)))))"

definition jetbrains_from_xml :: "'f report_builder \<Rightarrow> 'f builder_session \<Rightarrow> xml \<Rightarrow> 'f builder_session res" where
  "jetbrains_from_xml bu st xml =
     collect_files (\<lambda>s.
       bind_res (foldl_res (\<lambda>s f. bind_res (attr_of f ''Name'') (\<lambda>name. open_file bu s (from_backslashes name) (attr_of f ''Index'')))
         s (xml_iter xml ''File'')) (\<lambda>s.
         foldl_res (\<lambda>s statement. bind_res (attr_of statement ''FileIndex'') (\<lambda>k. change_file s k (jetbrains_statement bu statement)))
           s (xml_iter xml ''Statement''))) st"

section \<open>OpenCover\<close>

definition csharp_matches :: "xml \<Rightarrow> bool" where
  "csharp_matches content \<longleftrightarrow> el_tag content = ''CoverageSession''"

definition build_branch :: "(int, string list) dict \<Rightarrow> xml \<Rightarrow> (int, string list) dict res" where
  "build_branch branches branch =
     bind_res (attr_of branch ''vc'') (\<lambda>vc.
       if vc = ''0'' then
         (case attr_get branch ''sl'' of
            None \<Rightarrow> Inr branches
          | Some sl \<Rightarrow>
              bind_res (py_int sl) (\<lambda>n.
              bind_res (attr_of branch ''offset'') (\<lambda>offset.
                let b = (case attr_get branch ''offsetend'' of None \<Rightarrow> offset | Some e \<Rightarrow> offset @ '':'' @ e);
                    old = (case dict_get branches n of None \<Rightarrow> [] | Some known \<Rightarrow> known)
                in Inr (dict_set branches n (old @ [b])))))
       else Inr branches)"

text \<open>The coverage of a sequence point and whether it is that of a branch.\<close>

definition point_coverage :: "xml \<Rightarrow> int \<Rightarrow> cov \<times> coverage_type" where
  "point_coverage node vc =
     (case attr_get node ''bec'' of
        None \<Rightarrow> (CovInt vc, CT_line)
      | Some bec \<Rightarrow>
          if bec \<noteq> ''0''
          then (CovStr ((case attr_get node ''bev'' of None \<Rightarrow> ''None'' | Some bev \<Rightarrow> bev) @ ''/'' @ bec), CT_branch)
          else (CovInt (if vc > 0 then vc else 0), CT_line))"

definition csharp_point :: "'f report_builder \<Rightarrow> (int, string list) dict \<Rightarrow> report_file \<Rightarrow> xml \<Rightarrow> report_file res" where
  "csharp_point bu branches f node =
     (case (attr_get node ''sl'', attr_get node ''el'') of
        (Some s, Some e) \<Rightarrow>
          if s = [] \<or> e = [] then Inr f
          else
            bind_res (py_int s) (\<lambda>sl.
            bind_res (py_int e) (\<lambda>el.
            bind_res (attr_get_int node ''vc'') (\<lambda>vc.
              let (c, ty) = point_coverage node vc
              in foldl_res (\<lambda>f lno. append_full_line bu f lno c (Some ty) None (map_option (map BrStr) (dict_get branches lno)) None) f
                   (if el > sl then [sl..el] else [sl]))))
      | _ \<Rightarrow> Inr f)"

definition csharp_method :: "'f report_builder \<Rightarrow> xml \<Rightarrow> report_file \<Rightarrow> report_file res" where
  "csharp_method bu method f =
     bind_res (foldl_res build_branch [] (xml_iter method ''BranchPoint'')) (\<lambda>branches.
       foldl_res (csharp_point bu branches) f (xml_iter method ''SequencePoint''))"

definition csharp_from_xml :: "'f report_builder \<Rightarrow> 'f builder_session \<Rightarrow> xml \<Rightarrow> 'f builder_session res" where
  "csharp_from_xml bu st xml =
     collect_files (\<lambda>s.
       bind_res (foldl_res (\<lambda>s f. bind_res (attr_of f ''fullPath'') (\<lambda>name. open_file bu s (from_backslashes name) (attr_of f ''uid'')))
         s (xml_iter xml ''File'')) (\<lambda>s.
         foldl_res (\<lambda>s method.
           case xml_find method ''FileRef'' of
             None \<Rightarrow> Inr s
           | Some fileref \<Rightarrow> bind_res (attr_of fileref ''uid'') (\<lambda>k. change_file s k (csharp_method bu method)))
           s (xml_iter xml ''Method''))) st"

section \<open>Mono\<close>

definition mono_matches :: "xml \<Rightarrow> bool" where
  "mono_matches content \<longleftrightarrow> el_tag content = ''coverage'' \<and> xml_find content ''assembly'' \<noteq> None"

definition mono_statement :: "'f report_builder \<Rightarrow> report_file \<Rightarrow> xml \<Rightarrow> report_file res" where
  "mono_statement bu f line =
     bind_res (attr_int line ''counter'') (\<lambda>c. bind_res (attr_int line ''line'') (\<lambda>lno. append_line bu f lno (CovInt c) None))"

definition mono_from_xml :: "'f report_builder \<Rightarrow> 'f builder_session \<Rightarrow> xml \<Rightarrow> 'f builder_session res" where
  "mono_from_xml bu st xml =
     collect_files (\<lambda>s. foldl_res (\<lambda>s method.
         bind_res (attr_of method ''filename'') (\<lambda>filename.
         bind_res (open_once bu s filename) (\<lambda>s'.
           change_file s' filename (\<lambda>f. foldl_res (mono_statement bu) f (xml_iter method ''statement'')))))
       s (xml_iter xml ''method'')) st"

section \<open>scoverage\<close>

definition scoverage_matches :: "xml \<Rightarrow> bool" where
  "scoverage_matches content \<longleftrightarrow> el_tag content = ''statements''"

definition scoverage_statement :: "'f report_builder \<Rightarrow> xml \<Rightarrow> report_file \<Rightarrow> report_file res" where
  "scoverage_statement bu statement f =
     bind_res (py_int (child_text statement ''line'')) (\<lambda>lno.
       let hits = child_text statement ''count''
       in if child_text statement ''ignored'' = ''true'' then Inr f
          else if child_text statement ''branch'' = ''true'' then append_line bu f lno (CovStr (hits @ ''/2'')) (Some CT_branch)
          else bind_res (maxint hits) (\<lambda>c. append_line bu f lno (CovInt c) None))"

definition scoverage_from_xml :: "'f report_builder \<Rightarrow> 'f builder_session \<Rightarrow> xml \<Rightarrow> 'f builder_session res" where
  "scoverage_from_xml bu st xml =
     collect_files (\<lambda>s. foldl_res (\<lambda>s statement.
         let filename = child_text statement ''source''
         in bind_res (open_once bu s filename) (\<lambda>s'. change_file s' filename (scoverage_statement bu statement)))
       s (xml_iter xml ''statement'')) st"

section \<open>Visual Basic\<close>

definition vb_matches :: "xml \<Rightarrow> bool" where
  "vb_matches content \<longleftrightarrow> el_tag content = ''results''"

definition append_span :: "'f report_builder \<Rightarrow> cov \<Rightarrow> int \<Rightarrow> int \<Rightarrow> report_file \<Rightarrow> report_file res" where
  "append_span bu c a b f = foldl_res (\<lambda>f lno. append_line bu f lno c None) f [a..b]"

definition vb_range :: "'f report_builder \<Rightarrow> xml \<Rightarrow> report_file \<Rightarrow> report_file res" where
  "vb_range bu line f =
     bind_res (attr_of line ''covered'') (\<lambda>t.
     bind_res (attr_int line ''start_line'') (\<lambda>a.
     bind_res (attr_int line ''end_line'') (\<lambda>b.
       append_span bu (if t = ''yes'' then CovInt 1 else if t = ''no'' then CovInt 0 else CovBool True) a b f)))"

definition vb_module :: "'f report_builder \<Rightarrow> 'f builder_session \<times> files \<Rightarrow> xml \<Rightarrow> ('f builder_session \<times> files) res" where
  "vb_module bu s m =
     bind_res (foldl_res (\<lambda>s sf. bind_res (attr_of sf ''path'') (\<lambda>path. open_file bu s (from_backslashes path) (attr_of sf ''id'')))
       s (xml_iter m ''source_file'')) (\<lambda>s'.
       foldl_res (\<lambda>s line. bind_res (attr_of line ''source_id'') (\<lambda>k. change_file s k (vb_range bu line))) s' (xml_iter m ''range''))"

definition vb_from_xml :: "'f report_builder \<Rightarrow> 'f builder_session \<Rightarrow> xml \<Rightarrow> 'f builder_session res" where
  "vb_from_xml bu st xml = collect_files (\<lambda>s. foldl_res (vb_module bu) s (xml_iter xml ''module'')) st"

definition vb2_matches :: "xml \<Rightarrow> bool" where
  "vb2_matches content \<longleftrightarrow> el_tag content = ''CoverageDSPriv''"

definition vb2_line :: "'f report_builder \<Rightarrow> xml \<Rightarrow> report_file \<Rightarrow> report_file res" where
  "vb2_line bu line f =
     (let t = child_text line ''Coverage''
      in bind_res (py_int (child_text line ''LnStart'')) (\<lambda>a.
         bind_res (py_int (child_text line ''LnEnd'')) (\<lambda>b.
           append_span bu (if t = ''0'' then CovInt 1 else if t = ''2'' then CovInt 0 else CovBool True) a b f)))"

definition vb2_from_xml :: "'f report_builder \<Rightarrow> 'f builder_session \<Rightarrow> xml \<Rightarrow> 'f builder_session res" where
  "vb2_from_xml bu st xml =
     collect_files (\<lambda>s.
       bind_res (foldl_res (\<lambda>s source.
           open_file bu s (from_backslashes (child_text source ''SourceFileName'')) (Inr (child_text source ''SourceFileID'')))
         s (xml_iterfind xml ''SourceFileNames'')) (\<lambda>s.
         foldl_res (\<lambda>s line. change_file s (child_text line ''SourceFileID'') (vb2_line bu line)) s (xml_iterfind xml ''Lines''))) st"

section \<open>JaCoCo\<close>

definition jacoco_matches :: "xml \<Rightarrow> bool" where
  "jacoco_matches content \<longleftrightarrow> el_tag content = ''report''"

definition jacoco_age :: "date_lib \<Rightarrow> xml \<Rightarrow> json \<Rightarrow> unit res" where
  "jacoco_age D xml max_age =
     (case xml_iter xml ''sessioninfo'' of
        [] \<Rightarrow> Inr ()
      | e # _ \<Rightarrow> (case attr_get e ''start'' of None \<Rightarrow> Inr () | Some ts \<Rightarrow> expired D ts max_age))"

definition jacoco_project :: "xml \<Rightarrow> string" where
  "jacoco_project xml =
     (case attr_get xml ''name'' of
        None \<Rightarrow> []
      | Some p \<Rightarrow> if contains p '' '' then [] else lstrip_chars ''/'' (rstrip_chars ''/'' p))"

definition fixed :: "string option \<Rightarrow> bool" where
  "fixed p \<longleftrightarrow> p \<noteq> None \<and> p \<noteq> Some []"

definition try_to_fix_path :: "'f report_builder \<Rightarrow> string \<Rightarrow> 'f builder_session \<Rightarrow> string \<Rightarrow> (string option \<times> 'f builder_session) res" where
  "try_to_fix_path bu project st path =
     (if project = [] then path_fix bu st path
      else
        bind_res (path_fix bu st (project @ ''/'' @ path)) (\<lambda>(p, st1).
          if fixed p then Inr (p, st1)
          else
            bind_res (path_fix bu st1 (project @ ''/src/main/java/'' @ path)) (\<lambda>(q, st2).
              if fixed q then Inr (q, st2) else path_fix bu st2 path)))"

text \<open>The complexity of the methods of a class: the first counter of that type of a method with a line.\<close>

type_synonym method_complexity = "(int, int \<times> int) dict"

fun complexity_counter :: "xml list \<Rightarrow> (int \<times> int) option res" where
  "complexity_counter [] = Inr None"
| "complexity_counter (counter # cs) =
     bind_res (attr_of counter ''type'') (\<lambda>ty.
       if ty = ''COMPLEXITY'' then
         bind_res (attr_int counter ''missed'') (\<lambda>m. bind_res (attr_int counter ''covered'') (\<lambda>c. Inr (Some (c, m + c))))
       else complexity_counter cs)"

definition jacoco_method :: "method_complexity \<Rightarrow> xml \<Rightarrow> method_complexity res" where
  "jacoco_method mc method =
     bind_res (case attr_get method ''line'' of None \<Rightarrow> Inr 0 | Some v \<Rightarrow> py_int v) (\<lambda>lno.
       if lno > 0 then
         map_res (\<lambda>x. case x of None \<Rightarrow> mc | Some p \<Rightarrow> dict_set mc lno p) (complexity_counter (xml_iter method ''counter''))
       else Inr mc)"

definition jacoco_class :: "(string, method_complexity) dict \<Rightarrow> xml \<Rightarrow> (string, method_complexity) dict res" where
  "jacoco_class d cls =
     bind_res (attr_of cls ''name'') (\<lambda>name.
       if contains name ''$'' then Inr d
       else
         map_res (dict_set d name)
           (foldl_res jacoco_method (case dict_get d name of None \<Rightarrow> [] | Some mc \<Rightarrow> mc) (xml_iter cls ''method'')))"

definition jacoco_coverage :: "bool \<Rightarrow> xml \<Rightarrow> (cov \<times> coverage_type) res" where
  "jacoco_coverage partials_as_hits line =
     bind_res (attr_of line ''mb'') (\<lambda>mb.
     bind_res (attr_of line ''cb'') (\<lambda>cb.
       if mb = ''0'' \<and> cb = ''0'' then map_res (\<lambda>c. (CovInt c, CT_line)) (attr_int line ''ci'')
       else
         bind_res (if mb \<noteq> ''0'' then bind_res (py_int mb) (\<lambda>m. bind_res (py_int cb) (\<lambda>c. Inr (int_str (m + c)))) else Inr cb) (\<lambda>n.
           let s = cb @ ''/'' @ n
           in bind_res (branch_type s) (\<lambda>t.
                Inr (if t = LT_partial \<and> partials_as_hits then CovInt 1 else CovStr s, CT_branch)))))"

definition jacoco_line :: "'f report_builder \<Rightarrow> bool \<Rightarrow> method_complexity \<Rightarrow> report_file \<Rightarrow> xml \<Rightarrow> report_file res" where
  "jacoco_line bu partials_as_hits mc f line =
     bind_res (jacoco_coverage partials_as_hits line) (\<lambda>(c, ty).
     bind_res (attr_int line ''nr'') (\<lambda>lno.
       if lno > 0 then
         (case dict_get mc lno of
            None \<Rightarrow> append_line bu f lno c (Some ty)
          | Some (a, b) \<Rightarrow> append_full_line bu f lno c (Some CT_method) None None (Some (CxPair a b)))
       else Inr f))"

text \<open>A file under a path that is fixed already; the empty path has no file.\<close>

definition with_fixed_file :: "'f report_builder \<Rightarrow> 'f builder_session \<Rightarrow> string \<Rightarrow> (report_file \<Rightarrow> report_file res) \<Rightarrow> 'f builder_session res" where
  "with_fixed_file bu st path body =
     bind_res (create_coverage_file bu st path False) (\<lambda>(f, st').
       case f of
         None \<Rightarrow> Inl AssertionError
       | Some file \<Rightarrow> bind_res (body file) (session_append st'))"

definition jacoco_source ::
  "'f report_builder \<Rightarrow> bool \<Rightarrow> string \<Rightarrow> string \<Rightarrow> (string, method_complexity) dict \<Rightarrow> xml \<Rightarrow> 'f builder_session \<Rightarrow> 'f builder_session res" where
  "jacoco_source bu partials_as_hits project base_name d source st =
     bind_res (attr_of source ''name'') (\<lambda>name.
       let source_name = base_name @ ''/'' @ name;
           mc = (case dict_get d (hd (split_all (CHR ''.'') source_name)) of None \<Rightarrow> [] | Some mc \<Rightarrow> mc)
       in bind_res (try_to_fix_path bu project st source_name) (\<lambda>(p, st').
            case p of
              None \<Rightarrow> Inr st'
            | Some filename \<Rightarrow>
                with_fixed_file bu st' filename (\<lambda>f. foldl_res (jacoco_line bu partials_as_hits mc) f (xml_iter source ''line''))))"

definition jacoco_package :: "'f report_builder \<Rightarrow> bool \<Rightarrow> string \<Rightarrow> xml \<Rightarrow> 'f builder_session \<Rightarrow> 'f builder_session res" where
  "jacoco_package bu partials_as_hits project package st =
     bind_res (attr_of package ''name'') (\<lambda>base_name.
     bind_res (foldl_res jacoco_class [] (xml_iter package ''class'')) (\<lambda>d.
       each_file (jacoco_source bu partials_as_hits project base_name d) st (xml_iter package ''sourcefile'')))"

definition jacoco_from_xml :: "date_lib \<Rightarrow> 'f report_builder \<Rightarrow> 'f builder_session \<Rightarrow> xml \<Rightarrow> 'f builder_session res" where
  "jacoco_from_xml D bu st xml =
     bind_res (with_max_age bu (jacoco_age D xml)) (\<lambda>_.
       each_file (jacoco_package bu (j_truthy (yaml_field bu [''parsers'', ''jacoco'', ''partials_as_hits''] (JBool False))) (jacoco_project xml))
         st (xml_iter xml ''package''))"

section \<open>Cobertura\<close>

definition cobertura_matches :: "xml \<Rightarrow> bool" where
  "cobertura_matches content \<longleftrightarrow> el_tag content \<in> {''coverage'', ''scoverage''}"

text \<open>\<open>int(value)\<close>, or the integer part of the number when it is written as a float.\<close>

definition cobertura_Int :: "string \<Rightarrow> int res" where
  "cobertura_Int v =
     (case py_int v of
        Inr n \<Rightarrow> Inr n
      | Inl e \<Rightarrow> if e = ValueError then map_res (\<lambda>q. if q < 0 then \<lceil>q\<rceil> else \<lfloor>q\<rfloor>) (py_float v) else Inl e)"

definition cobertura_age :: "date_lib \<Rightarrow> xml \<Rightarrow> json \<Rightarrow> unit res" where
  "cobertura_age D xml max_age =
     (case da_date D (attr_get xml ''timestamp'') of
        Inl e \<Rightarrow> if e = TimestringInvalid then Inr () else Inl e
      | Inr d \<Rightarrow>
          if fixed (attr_get xml ''timestamp'')
          then bind_res (da_before D d max_age) (\<lambda>b. if b then Inl ReportExpiredException else Inr ())
          else Inr ())"

definition get_sources_to_attempt :: "xml \<Rightarrow> string list" where
  "get_sources_to_attempt xml = filter (\<lambda>s. startswith s ''/'') (somes (map el_text (xml_iter xml ''source'')))"

text \<open>The pattern \<open>\(\d+\/\d+\)\<close> at the start of a text, and anywhere in it.\<close>

definition is_decimal :: "char \<Rightarrow> bool" where
  "is_decimal c \<longleftrightarrow> digit_val c \<noteq> None"

definition fraction_at :: "string \<Rightarrow> bool" where
  "fraction_at s =
     (case s of
        [] \<Rightarrow> False
      | c # r \<Rightarrow>
          c = CHR ''('' \<and> takeWhile is_decimal r \<noteq> [] \<and>
          (case dropWhile is_decimal r of
             [] \<Rightarrow> False
           | d # q \<Rightarrow> d = CHR ''/'' \<and> takeWhile is_decimal q \<noteq> [] \<and> startswith (dropWhile is_decimal q) '')''))"

fun has_fraction :: "string \<Rightarrow> bool" where
  "has_fraction [] = False"
| "has_fraction (c # s) \<longleftrightarrow> fraction_at (c # s) \<or> has_fraction s"

definition cobertura_coverage :: "xml \<Rightarrow> (cov \<times> coverage_type) res" where
  "cobertura_coverage line =
     (let branch = (case attr_get line ''branch'' of None \<Rightarrow> [] | Some b \<Rightarrow> b);
          condition_coverage = (case attr_get line ''condition-coverage'' of None \<Rightarrow> [] | Some c \<Rightarrow> c)
      in if lower branch = ''true'' \<and> has_fraction condition_coverage then
           (case split_once (CHR '' '') condition_coverage of
              None \<Rightarrow> Inl IndexError
            | Some (_, t) \<Rightarrow> Inr (CovStr (drop 1 (butlast t)), CT_branch))
         else
           (case attr_get line ''hits'' of
              None \<Rightarrow> Inl TypeError
            | Some hits \<Rightarrow> map_res (\<lambda>n. (CovInt n, CT_line)) (cobertura_Int hits)))"

text \<open>\<open>coverage[0] == "0"\<close>.\<close>

definition starts_with_0 :: "string \<Rightarrow> bool res" where
  "starts_with_0 s = (case s of [] \<Rightarrow> Inl IndexError | c # _ \<Rightarrow> Inr (c = CHR ''0''))"

definition numbered :: "int \<Rightarrow> int \<Rightarrow> string list" where
  "numbered a b = map int_str [a..b - 1]"

text \<open>The conditions that the line lists as not covered.\<close>

definition listed_conditions :: "xml \<Rightarrow> string list res" where
  "listed_conditions line =
     traverse (\<lambda>c. bind_res (attr_of c ''number'') (\<lambda>n. bind_res (attr_of c ''type'') (\<lambda>t. Inr (n @ '':'' @ t))))
       (filter (\<lambda>c. attr_get c ''coverage'' \<noteq> Some ''100%'') (xml_iter line ''condition''))"

definition more_conditions :: "bool \<Rightarrow> cov \<Rightarrow> string list \<Rightarrow> string list res" where
  "more_conditions handle_missing c conditions =
     (case c of
        CovStr s \<Rightarrow>
          (let n = int (length conditions); parts = split_all (CHR ''/'') s
           in if handle_missing then
                (case parts of
                   [covered, all] \<Rightarrow>
                     bind_res (py_int all) (\<lambda>t.
                       if n < t then bind_res (py_int covered) (\<lambda>k. Inr (conditions @ numbered n (t - k))) else Inr conditions)
                 | _ \<Rightarrow> Inl ValueError)
              else
                bind_res (starts_with_0 s) (\<lambda>z.
                  if z then
                    (case parts of
                       _ # all # _ \<Rightarrow> bind_res (py_int all) (\<lambda>t. Inr (if n < t then conditions @ numbered n t else conditions))
                     | _ \<Rightarrow> Inl IndexError)
                  else Inr conditions))
      | _ \<Rightarrow> Inr conditions)"

definition cobertura_missing :: "bool \<Rightarrow> xml \<Rightarrow> cov \<Rightarrow> string list option res" where
  "cobertura_missing handle_missing line c =
     (if fixed (attr_get line ''missing-branches'') then
        (let conditions = split_all (CHR '','') (case attr_get line ''missing-branches'' of None \<Rightarrow> [] | Some t \<Rightarrow> t)
         in Inr (Some (if length conditions > 1 \<and> set conditions = {''exit''} then [''loop'', ''exit''] else conditions)))
      else
        bind_res (listed_conditions line) (\<lambda>conditions.
          map_res (\<lambda>cs. if cs = [] then None else Some cs) (more_conditions handle_missing c conditions)))"

definition cobertura_line :: "'f report_builder \<Rightarrow> bool \<Rightarrow> bool \<Rightarrow> report_file \<Rightarrow> xml \<Rightarrow> report_file res" where
  "cobertura_line bu handle_missing partials_as_hits f line =
     bind_res (attr_of line ''number'') (\<lambda>number.
       if number = ''undefined'' then Inr f
       else
         bind_res (py_int number) (\<lambda>lno.
           if lno > 0 then
             bind_res (cobertura_coverage line) (\<lambda>(c, ty).
             bind_res (cobertura_missing handle_missing line c) (\<lambda>mb.
             bind_res (case c of CovStr s \<Rightarrow> map_res (\<lambda>z. \<not> z \<and> partials_as_hits) (starts_with_0 s) | _ \<Rightarrow> Inr False) (\<lambda>hit.
               if hit then append_full_line bu f lno (CovInt 1) (Some CT_line) None None None
               else append_full_line bu f lno c (Some ty) None (map_option (map BrStr) mb) None)))
           else Inr f))"

definition cobertura_statement :: "'f report_builder \<Rightarrow> report_file \<Rightarrow> xml \<Rightarrow> report_file res" where
  "cobertura_statement bu f stmt =
     (if attr_get stmt ''ignored'' = Some ''true'' then Inr f
      else
        bind_res (bind_res (attr_of stmt ''invocation-count'') cobertura_Int) (\<lambda>c.
        bind_res (attr_int stmt ''line'') (\<lambda>lno.
        bind_res (attr_of stmt ''branch'') (\<lambda>branch.
        bind_res (if branch = ''true'' then Inr CT_branch
                  else map_res (\<lambda>m. if m = [] then CT_line else CT_method) (attr_of stmt ''method'')) (\<lambda>ty.
          append_line bu f lno (CovInt c) (Some ty))))))"

definition cobertura_class :: "'f report_builder \<Rightarrow> bool \<Rightarrow> bool \<Rightarrow> xml \<Rightarrow> 'f builder_session \<Rightarrow> 'f builder_session res" where
  "cobertura_class bu handle_missing partials_as_hits cls st =
     bind_res (attr_of cls ''filename'') (\<lambda>filename.
       if filename = [] then Inr st
       else
         with_fixed_file bu st filename (\<lambda>f.
           bind_res (foldl_res (cobertura_line bu handle_missing partials_as_hits) f (xml_iter cls ''line'')) (\<lambda>f1.
             foldl_res (cobertura_statement bu) f1 (xml_iter cls ''statement''))))"

text \<open>The paths of all classes with what they are fixed to, those of installed packages last (the sort is stable).\<close>

definition cobertura_path ::
  "'f report_builder \<Rightarrow> string list \<Rightarrow> 'f builder_session \<times> (string \<times> string option) list \<Rightarrow> xml \<Rightarrow>
   ('f builder_session \<times> (string \<times> string option) list) res" where
  "cobertura_path bu sources s cls =
     (case s of (st, paths) \<Rightarrow>
        bind_res (attr_of cls ''filename'') (\<lambda>filename.
        bind_res (path_fix_bases bu st filename sources) (\<lambda>(p, st'). Inr (st', paths @ [(filename, p)]))))"

definition in_packages :: "string \<times> string option \<Rightarrow> bool" where
  "in_packages a \<longleftrightarrow> contains (fst a) ''/dist-packages/'' \<or> contains (fst a) ''/site-packages/''"

definition packages_last :: "(string \<times> string option) list \<Rightarrow> (string \<times> string option) list" where
  "packages_last paths = filter (\<lambda>a. \<not> in_packages a) paths @ filter in_packages paths"

definition cobertura_from_xml :: "date_lib \<Rightarrow> 'f report_builder \<Rightarrow> 'f builder_session \<Rightarrow> xml \<Rightarrow> 'f builder_session res" where
  "cobertura_from_xml D bu st xml =
     (let setting_on = (\<lambda>k. j_truthy (yaml_field bu [''parsers'', ''cobertura'', k] (JBool False)));
          classes = xml_iter xml ''class''
      in bind_res (with_max_age bu (cobertura_age D xml)) (\<lambda>_.
         bind_res (each_file (cobertura_class bu (setting_on ''handle_missing_conditions'') (setting_on ''partials_as_hits'')) st classes) (\<lambda>st1.
         bind_res (foldl_res (cobertura_path bu (get_sources_to_attempt xml)) (st1, []) classes) (\<lambda>(st2, paths).
           session_resolve_paths st2 (packages_last paths)))))"

section \<open>Xcode property lists\<close>

definition plist_tag :: string where
  "plist_tag = ''<plist version='' @ [CHR 0x22] @ ''1.0'' @ [CHR 0x22] @ ''>''"

definition xcodeplist_matches :: "string \<Rightarrow> string \<Rightarrow> bool" where
  "xcodeplist_matches content name =
     (if name \<noteq> [] then endswith name ''xccoverage.plist'' else contains content plist_tag \<and> startswith content ''<?xml'')"

text \<open>\<open>v[i]\<close> for a list, from the end for a negative index.\<close>

definition j_index :: "json \<Rightarrow> json \<Rightarrow> json res" where
  "j_index v i =
     (case v of
        JList xs \<Rightarrow>
          bind_res (j_int i) (\<lambda>n.
            let k = (if n < 0 then n + int (length xs) else n)
            in if 0 \<le> k \<and> k < int (length xs) then Inr (xs ! nat k) else Inl IndexError)
      | _ \<Rightarrow> Inl NotModelled)"

text \<open>\<open>v == n\<close> for a number \<open>n\<close>.\<close>

definition j_equals :: "json \<Rightarrow> int \<Rightarrow> bool" where
  "j_equals v n = (case v of JInt i \<Rightarrow> i = n | JBool b \<Rightarrow> (if b then 1 else 0) = n | JFloat q \<Rightarrow> q = of_int n | _ \<Rightarrow> False)"

text \<open>The object that a value refers to by its number, and the elements of an archived array.\<close>

definition follow :: "json \<Rightarrow> json \<Rightarrow> json res" where
  "follow objects v = bind_res (get_item v ''CF$UID'') (j_index objects)"

definition follow_item :: "json \<Rightarrow> json \<Rightarrow> string \<Rightarrow> json res" where
  "follow_item objects v k = bind_res (get_item v k) (follow objects)"

definition ns_objects :: "json \<Rightarrow> json list res" where
  "ns_objects v = bind_res (get_item v ''NS.objects'') iter_json"

definition plist_branch :: "json \<Rightarrow> partial list \<times> int \<Rightarrow> json \<Rightarrow> (partial list \<times> int) res" where
  "plist_branch objects s b =
     (case s of (partials, hits) \<Rightarrow>
        bind_res (follow objects b) (\<lambda>branch.
        bind_res (get_item branch ''len'') (\<lambda>len.
          if j_equals len 2 then Inr (partials, hits)
          else
            bind_res (bind_res (get_item branch ''c'') j_int) (\<lambda>c.
            bind_res (j_int len) (\<lambda>n.
            bind_res (bind_res (get_item branch ''x'') j_int) (\<lambda>x.
              Inr (partials @ [(Some c, Some (c + n), x)], hits + (if x > 0 then 1 else 0))))))))"

definition plist_line :: "'f report_builder \<Rightarrow> json \<Rightarrow> report_file \<Rightarrow> int \<times> json \<Rightarrow> report_file res" where
  "plist_line bu objects f p =
     (case p of (lno, ref) \<Rightarrow>
        bind_res (follow objects ref) (\<lambda>line.
        bind_res (get_item line ''x'') (\<lambda>x.
          if x = JBool False then Inr f
          else
            bind_res (get_item line ''s'') (\<lambda>s.
            bind_res (get_item s ''CF$UID'') (\<lambda>uid.
              if j_equals uid 0 then
                bind_res (bind_res (get_item line ''c'') cov_of) (\<lambda>c. append_full_line bu f lno c (Some CT_line) None None None)
              else
                bind_res (bind_res (j_index objects uid) ns_objects) (\<lambda>branches.
                bind_res (foldl_res (plist_branch objects) ([], 0) branches) (\<lambda>(partials, hits).
                  append_full_line bu f lno (CovStr (int_str hits @ ''/'' @ int_str (int (length partials))))
                    (Some (if partials = [] then CT_line else CT_branch)) (Some partials) None None)))))))"

definition plist_source :: "'f report_builder \<Rightarrow> json \<Rightarrow> json \<Rightarrow> 'f builder_session \<Rightarrow> 'f builder_session res" where
  "plist_source bu objects ref st =
     bind_res (follow objects ref) (\<lambda>source.
     bind_res (bind_res (follow_item objects source ''documentLocation'') path_of) (\<lambda>filename.
       with_file bu st filename (\<lambda>f.
         bind_res (bind_res (follow_item objects source ''lines'') ns_objects) (\<lambda>lines.
           foldl_res (plist_line bu objects) f (enumerate_from 1 lines)))))"

definition xcodeplist_from_xml :: "(string \<Rightarrow> json res) \<Rightarrow> 'f report_builder \<Rightarrow> 'f builder_session \<Rightarrow> string \<Rightarrow> 'f builder_session res" where
  "xcodeplist_from_xml plist_loads bu st xml =
     bind_res (bind_res (plist_loads xml) (\<lambda>v. get_item v ''$objects'')) (\<lambda>objects.
     bind_res (bind_res (j_index objects (JInt 2)) ns_objects) (\<lambda>targets.
       each_file (\<lambda>obj st.
         bind_res (bind_res (bind_res (follow objects obj) (\<lambda>t. follow_item objects t ''sourceFiles'')) ns_objects) (\<lambda>sources.
           each_file (plist_source bu objects) st sources)) st targets))"

section \<open>The processors satisfy their contract\<close>

lemma yields_append_full_line [yields_rules]:
  "yields (file_of_session (bu_sessionid bu) W) (\<lambda>f. append_full_line bu f n c ty ps mb cx) (file_of_session (bu_sessionid bu) W)"
  unfolding append_full_line_def by (rule yields_rf_append)

lemma yields_span [yields_rules]:
  "yields (file_of_session (bu_sessionid bu) W) (append_span bu c a b) (file_of_session (bu_sessionid bu) W)"
  unfolding append_span_def by (intro yields_rules)

interpretation bullseye: language_processor "bullseye_from_xml D"
  unfolding bullseye_from_xml_def bullseye_src_def bullseye_probe_def by unfold_locales (intro yields_rules)

interpretation clover: language_processor "clover_from_xml D"
  unfolding clover_from_xml_def clover_file_def clover_line_def by unfold_locales (intro yields_rules)

interpretation xcodeplist: language_processor "xcodeplist_from_xml plist_loads"
  unfolding xcodeplist_from_xml_def plist_source_def plist_line_def by unfold_locales (intro yields_rules)

text \<open>The session together with the files that are not yet part of its report.\<close>

fun pending_files :: "'f report_builder \<Rightarrow> ('f \<Rightarrow> bool) \<Rightarrow> (string \<Rightarrow> bool) \<Rightarrow> 'f builder_session \<times> files \<Rightarrow> bool" where
  "pending_files bu J W (st, d) \<longleftrightarrow> building bu J W st \<and> (\<forall>g. Some g \<in> set (dict_values d) \<longrightarrow> file_of_session (bu_sessionid bu) W g)"

lemma pending_set:
  "pending_files bu J W (st, d) \<Longrightarrow> (\<And>g. f = Some g \<Longrightarrow> file_of_session (bu_sessionid bu) W g) \<Longrightarrow> pending_files bu J W (st, dict_set d k f)"
  using values_dict_set [of d k f] by auto

lemma pending_session: "pending_files bu J W (st, d) \<Longrightarrow> building bu J W st' \<Longrightarrow> pending_files bu J W (st', d)"
  by simp

lemma yields_open_file [yields_rules]: "yields (pending_files bu J W) (\<lambda>s. open_file bu s p k) (pending_files bu J W)"
proof (rule yieldsI)
  fix s t assume s: "pending_files bu J W s" and t: "open_file bu s p k = Inr t"
  obtain st d where sd: "s = (st, d)" by (cases s)
  with t obtain f st' where c: "create_coverage_file bu st p True = Inr (f, st')"
    and r: "(case f of None \<Rightarrow> Inr (st', d) | Some g \<Rightarrow> bind_res k (\<lambda>k. Inr (st', dict_set d k (Some g)))) = Inr t"
    by (auto simp: open_file_def)
  have "building bu J W st" using s sd by simp
  note b = building_create_file [OF c this, simplified]
  have "pending_files bu J W (st', d)" using s sd b by simp
  from this pending_set [OF this, of f] r b show "pending_files bu J W t"
    by (cases f) (auto simp del: pending_files.simps)
qed

lemma yields_open_once [yields_rules]: "yields (pending_files bu J W) (\<lambda>s. open_once bu s p) (pending_files bu J W)"
proof (rule yieldsI)
  fix s t assume s: "pending_files bu J W s" and t: "open_once bu s p = Inr t"
  obtain st d where sd: "s = (st, d)" by (cases s)
  show "pending_files bu J W t"
  proof (cases "p \<in> set (dict_keys d)")
    case True
    with s t sd show ?thesis by (auto simp: open_once_def)
  next
    case False
    with t sd obtain f st' where c: "create_coverage_file bu st p True = Inr (f, st')" and r: "t = (st', dict_set d p f)"
      by (auto simp: open_once_def)
    note b = building_create_file [OF c, of J W]
    have "pending_files bu J W (st', d)" using s sd b by simp
    from pending_set [OF this, of f] s sd b r show ?thesis by simp
  qed
qed

lemma yields_change_file [yields_rules]:
  assumes "yields (file_of_session (bu_sessionid bu) W) body (file_of_session (bu_sessionid bu) W)"
  shows "yields (pending_files bu J W) (\<lambda>s. change_file s k body) (pending_files bu J W)"
proof (rule yieldsI)
  fix s t assume s: "pending_files bu J W s" and t: "change_file s k body = Inr t"
  obtain st d where sd: "s = (st, d)" by (cases s)
  show "pending_files bu J W t"
  proof (cases "file_in d k")
    case None
    with s t sd show ?thesis by (auto simp: change_file_def)
  next
    case (Some f)
    then have "Some f \<in> set (dict_values d)"
      by (force simp: file_in_def dict_values_def split: option.splits dest!: dict_get_in)
    with s sd have f: "file_of_session (bu_sessionid bu) W f" by simp
    from Some t sd obtain g where g: "body f = Inr g" "t = (st, dict_set d k (Some g))" by (auto simp: change_file_def)
    from yieldsD [OF assms g(1) f] pending_set [of bu J W st d "Some g" k] s sd g(2) show ?thesis by (simp del: pending_files.simps)
  qed
qed

lemma yields_append_files: "yields (pending_files bu J W) append_files (building bu J W)"
proof (rule yieldsI)
  fix s t assume s: "pending_files bu J W s" and t: "append_files s = Inr t"
  obtain st d where sd: "s = (st, d)" by (cases s)
  have "building bu J W u" if "foldl_res append_pending st fs = Inr u" "building bu J W st"
    "\<forall>g. Some g \<in> set fs \<longrightarrow> file_of_session (bu_sessionid bu) W g" for fs st u
    using that
  proof (induction fs arbitrary: st)
    case (Cons f fs)
    from Cons.prems(1) obtain st1 where st1: "append_pending st f = Inr st1" "foldl_res append_pending st1 fs = Inr u" by auto
    have "building bu J W st1"
      using st1(1) Cons.prems(2,3) by (cases f) (auto simp: append_pending_def intro: building_append)
    with Cons.IH [OF st1(2)] Cons.prems(3) show ?case by simp
  qed simp
  with s t sd show "building bu J W t" by (simp add: append_files_def)
qed

lemma yields_files [yields_rules]:
  assumes "yields (pending_files bu J W) h (pending_files bu J W)"
  shows "yields (building bu J W) (collect_files h) (building bu J W)"
proof (rule yieldsI)
  fix st t assume "building bu J W st" "collect_files h st = Inr t"
  then obtain s where "h (st, []) = Inr s" "append_files s = Inr t" "pending_files bu J W (st, [])"
    by (auto simp: collect_files_def dict_values_def)
  then show "building bu J W t" using yieldsD [OF assms] yieldsD [OF yields_append_files] by blast
qed

interpretation jetbrains: language_processor jetbrains_from_xml
  unfolding jetbrains_from_xml_def jetbrains_statement_def by unfold_locales (intro yields_rules)

lemma yields_both [yields_rules]:
  "(\<And>v w. yields P (\<lambda>x. h v w x) Q) \<Longrightarrow> yields P g Q \<Longrightarrow>
   yields P (\<lambda>x. case (a, b) of (Some v, Some w) \<Rightarrow> h v w x | _ \<Rightarrow> g x) Q"
  by (cases a; cases b) simp_all

interpretation csharp: language_processor csharp_from_xml
  unfolding csharp_from_xml_def csharp_method_def csharp_point_def by unfold_locales (intro yields_rules)

interpretation mono: language_processor mono_from_xml
  unfolding mono_from_xml_def mono_statement_def by unfold_locales (intro yields_rules)

interpretation scoverage: language_processor scoverage_from_xml
  unfolding scoverage_from_xml_def scoverage_statement_def by unfold_locales (intro yields_rules)

interpretation vb: language_processor vb_from_xml
  unfolding vb_from_xml_def vb_module_def vb_range_def by unfold_locales (intro yields_rules)

interpretation vb2: language_processor vb2_from_xml
  unfolding vb2_from_xml_def vb2_line_def by unfold_locales (intro yields_rules)

text \<open>Files under paths that are fixed already.\<close>

lemma building_with_fixed_file:
  assumes "with_fixed_file bu st p body = Inr st'" "building bu J W st" "W p"
    and "yields (file_of_session (bu_sessionid bu) W) body (file_of_session (bu_sessionid bu) W)"
  shows "building bu J W st'"
proof -
  from assms(1) obtain f st1 g where c: "create_coverage_file bu st p False = Inr (Some f, st1)" "body f = Inr g" "session_append st1 g = Inr st'"
    by (auto simp: with_fixed_file_def split: option.splits)
  note b = building_create_file [OF c(1) assms(2), simplified, OF assms(3)]
  with yieldsD [OF assms(4) c(2)] c(3) show ?thesis using building_append by blast
qed

lemma building_try_fix:
  assumes "try_to_fix_path bu project st path = Inr (p, st')" "building bu J W st"
  shows "building bu J W st' \<and> (\<forall>q. p = Some q \<longrightarrow> W q)"
  using assms by (auto simp: try_to_fix_path_def split: if_splits dest!: building_path_fix)

lemma yields_jacoco_line [yields_rules]:
  "yields (file_of_session (bu_sessionid bu) W) (\<lambda>f. jacoco_line bu b mc f line) (file_of_session (bu_sessionid bu) W)"
  unfolding jacoco_line_def by (intro yields_rules)

lemma yields_jacoco_source [yields_rules]:
  "yields (building bu J W) (jacoco_source bu b project base d source) (building bu J W)"
proof (rule yieldsI)
  fix st t assume st: "building bu J W st" and t: "jacoco_source bu b project base d source st = Inr t"
  from t obtain name mc p st1 where p: "try_to_fix_path bu project st (base @ ''/'' @ name) = Inr (p, st1)"
    and r: "(case p of None \<Rightarrow> Inr st1 | Some q \<Rightarrow> with_fixed_file bu st1 q (\<lambda>f. foldl_res (jacoco_line bu b mc) f (xml_iter source ''line''))) = Inr t"
    by (auto simp: jacoco_source_def Let_def)
  note b = building_try_fix [OF p st]
  have y: "yields (file_of_session (bu_sessionid bu) W) (\<lambda>f. foldl_res (jacoco_line bu b mc) f (xml_iter source ''line''))
    (file_of_session (bu_sessionid bu) W)" by (intro yields_rules)
  from r b show "building bu J W t" using building_with_fixed_file [OF _ _ _ y] by (cases p) auto
qed

interpretation jacoco: language_processor "jacoco_from_xml D"
  unfolding jacoco_from_xml_def jacoco_package_def by unfold_locales (intro yields_rules)

text \<open>
  Cobertura first stores the files under the paths of the report and renames them at the end: after the renaming only fixed
  paths are left, because every class of the report has been asked for.
\<close>

lemma building_weaken:
  assumes "building bu J W st" "\<And>p. W p \<Longrightarrow> V p"
  shows "building bu J V st"
  using assms unfolding building_def fixers_ok_def fixer_ok_def file_of_session_def by blast

lemma rename_values:
  assumes "r_rename r old new = Inr r'" "\<And>q. new = Some q \<Longrightarrow> W q" "wf_report r"
    and "\<forall>f \<in> set (dict_values (r_files r)). file_of_session i (\<lambda>p. W p \<or> p = old \<or> p \<in> A) f"
  shows "\<forall>f \<in> set (dict_values (r_files r')). file_of_session i (\<lambda>p. W p \<or> p \<in> A) f"
proof -
  from assms(1) obtain f where f: "dict_get (r_files r) old = Some f" by (auto simp: r_rename_def split: option.splits)
  have names: "\<And>p g. (p, g) \<in> set (r_files r) \<Longrightarrow> rf_name g = p" using assms(3) by (auto simp: wf_report_def)
  have of_f: "session_ids_in (rf_lines f) \<subseteq> {i}"
    using assms(4) dict_get_in [OF f] by (force simp: dict_values_def file_of_session_def)
  have rest: "file_of_session i (\<lambda>p. W p \<or> p \<in> A) g" if "g \<in> set (dict_values (dict_del (r_files r) old))" for g
    using that assms(4) names by (fastforce simp: dict_values_def dict_del_def file_of_session_def)
  show ?thesis
  proof (cases "fixed new")
    case False
    with assms(1) f rest show ?thesis by (auto simp: r_rename_def r_invalidate_caches_def fixed_def split: option.splits list.splits)
  next
    case True
    then obtain q where q: "new = Some q" "q \<noteq> []" by (auto simp: fixed_def)
    with assms(1) f have "r_files r' = dict_set (dict_del (r_files r) old) q (f\<lparr>rf_name := q\<rparr>)"
      by (auto simp: r_rename_def r_invalidate_caches_def Let_def split: list.splits)
    moreover have "file_of_session i (\<lambda>p. W p \<or> p \<in> A) (f\<lparr>rf_name := q\<rparr>)"
      using of_f assms(2) [OF q(1)] by (simp add: file_of_session_def)
    ultimately show ?thesis
      using rest values_dict_set [of "dict_del (r_files r) old" q "f\<lparr>rf_name := q\<rparr>"] by (metis insertE subsetD)
  qed
qed

lemma resolved_building:
  assumes "r_resolve_paths r paths = Inr r'" "\<forall>(old, new) \<in> set paths. \<forall>q. new = Some q \<longrightarrow> W q" "wf_report r"
    and "\<forall>f \<in> set (dict_values (r_files r)). file_of_session i (\<lambda>p. W p \<or> p \<in> fst ` set paths) f"
  shows "\<forall>f \<in> set (dict_values (r_files r')). file_of_session i W f"
  using assms unfolding r_resolve_paths_def
proof (induction paths arbitrary: r)
  case (Cons a paths)
  obtain old new where a: "a = (old, new)" by (cases a)
  from Cons.prems(1) a obtain r1 where r1: "(if r_contains r old then r_rename r old new else Inr r) = Inr r1"
    and rest: "foldl_res (\<lambda>r (old, new). if r_contains r old then r_rename r old new else Inr r) r1 paths = Inr r'"
    by auto
  have wf: "wf_report r1" using r1 Cons.prems(3) by (auto split: if_splits dest: wf_rename)
  have "\<forall>f \<in> set (dict_values (r_files r1)). file_of_session i (\<lambda>p. W p \<or> p \<in> fst ` set paths) f"
  proof (cases "r_contains r old")
    case True
    with r1 rename_values [of r old new r1 W i "fst ` set paths"] Cons.prems(2-4) a show ?thesis by simp
  next
    case False
    then have "\<forall>f \<in> set (dict_values (r_files r)). rf_name f \<noteq> old"
      using Cons.prems(3) by (force simp: r_contains_def wf_report_def dict_values_def dict_keys_def)
    with False r1 Cons.prems(4) a show ?thesis by (auto simp: file_of_session_def)
  qed
  from Cons.IH [OF rest _ wf this] Cons.prems(2) a show ?case by simp
qed simp

lemma resolve_sessions: "r_resolve_paths r paths = Inr r' \<Longrightarrow> r_sessions r' = r_sessions r"
  unfolding r_resolve_paths_def
  by (erule foldl_res_invariant [where P = "\<lambda>x. r_sessions x = r_sessions r"])
    (auto simp: r_rename_def r_invalidate_caches_def Let_def split: if_splits option.splits)

lemma set_packages_last [simp]: "set (packages_last paths) = set paths"
  by (auto simp: packages_last_def)

lemma cobertura_paths:
  assumes "fixers_ok (bu_fix bu) J W"
  shows "foldl_res (cobertura_path bu sources) (st, ps) classes = Inr (st', qs) \<Longrightarrow> J (bs_fixer st) \<Longrightarrow>
   \<forall>(old, new) \<in> set ps. \<forall>q. new = Some q \<longrightarrow> W q \<Longrightarrow>
   bs_report st' = bs_report st \<and> J (bs_fixer st') \<and> (\<forall>(old, new) \<in> set qs. \<forall>q. new = Some q \<longrightarrow> W q) \<and>
   fst ` set qs = fst ` set ps \<union> {p. \<exists>c \<in> set classes. attr_of c ''filename'' = Inr p}"
proof (induction classes arbitrary: st ps)
  case Nil
  then show ?case by simp
next
  case (Cons c classes)
  from Cons.prems(1) [unfolded foldl_res.simps] obtain name p st1 where c: "attr_of c ''filename'' = Inr name" "path_fix_bases bu st name sources = Inr (p, st1)"
    and rest: "foldl_res (cobertura_path bu sources) (st1, ps @ [(name, p)]) classes = Inr (st', qs)"
    by (auto simp: cobertura_path_def [of bu sources "(st, ps)" c])
  have "J (bs_fixer st1)" "\<forall>q. p = Some q \<longrightarrow> W q" "bs_report st1 = bs_report st"
    using c(2) assms Cons.prems(2) by (auto simp: path_fix_bases_def fixers_ok_def fixer_ok_def)
  with Cons.IH [OF rest] Cons.prems(3) c(1) show ?case by auto
qed

lemma yields_cobertura_line [yields_rules]:
  "yields (file_of_session (bu_sessionid bu) W) (\<lambda>f. cobertura_line bu a b f line) (file_of_session (bu_sessionid bu) W)"
  unfolding cobertura_line_def by (intro yields_rules)

lemma yields_cobertura_statement [yields_rules]:
  "yields (file_of_session (bu_sessionid bu) W) (\<lambda>f. cobertura_statement bu f stmt) (file_of_session (bu_sessionid bu) W)"
  unfolding cobertura_statement_def by (intro yields_rules)

lemma cobertura_class_building:
  assumes "cobertura_class bu a b c st = Inr st'" "building bu J W st" "\<And>p. attr_of c ''filename'' = Inr p \<Longrightarrow> W p"
  shows "building bu J W st'"
proof -
  let ?body = "\<lambda>f. bind_res (foldl_res (cobertura_line bu a b) f (xml_iter c ''line'')) (\<lambda>f1.
    foldl_res (cobertura_statement bu) f1 (xml_iter c ''statement''))"
  have "yields (file_of_session (bu_sessionid bu) W) ?body (file_of_session (bu_sessionid bu) W)" by (intro yields_rules)
  with assms building_with_fixed_file [of bu st _ ?body st' J W] show ?thesis
    by (auto simp: cobertura_class_def split: if_splits)
qed

lemma cobertura_building:
  assumes "cobertura_from_xml D bu st xml = Inr t" "building bu J W st"
  shows "building bu J W t"
proof -
  let ?names = "{p. \<exists>c \<in> set (xml_iter xml ''class''). attr_of c ''filename'' = Inr p}"
  let ?V = "\<lambda>p. W p \<or> p \<in> ?names"
  from assms(1) obtain a b st1 st2 paths where classes: "each_file (cobertura_class bu a b) st (xml_iter xml ''class'') = Inr st1"
    and paths: "foldl_res (cobertura_path bu (get_sources_to_attempt xml)) (st1, []) (xml_iter xml ''class'') = Inr (st2, paths)"
    and res: "session_resolve_paths st2 (packages_last paths) = Inr t"
    by (auto simp: cobertura_from_xml_def Let_def)
  have "building bu J ?V st" using assms(2) by (rule building_weaken) simp
  with classes have st1: "building bu J ?V st1"
    unfolding each_file_def by (rule foldl_res_invariant) (auto intro: cobertura_class_building)
  have W: "fixers_ok (bu_fix bu) J W" using assms(2) by (simp add: building_def)
  from cobertura_paths [OF W paths] st1
  have p: "bs_report st2 = bs_report st1" "J (bs_fixer st2)" "\<forall>(old, new) \<in> set paths. \<forall>q. new = Some q \<longrightarrow> W q" "fst ` set paths = ?names"
    by (simp_all add: building_def)
  from res obtain r where r: "r_resolve_paths (bs_report st2) (packages_last paths) = Inr r" "t = st2\<lparr>bs_report := r\<rparr>"
    by (auto simp: session_resolve_paths_def)
  from st1 p(1) have b: "wf_report (bs_report st2)" "r_sessions (bs_report st2) = []"
    "\<forall>f \<in> set (dict_values (r_files (bs_report st2))). file_of_session (bu_sessionid bu) ?V f"
    by (simp_all add: building_def)
  have "\<forall>f \<in> set (dict_values (r_files r)). file_of_session (bu_sessionid bu) W f"
    by (rule resolved_building [OF r(1) _ b(1)]) (use p(3,4) b(3) in simp_all)
  with W p(2) wf_resolve [OF b(1) r(1)] resolve_sessions [OF r(1)] b(2) r(2) show ?thesis
    by (simp add: building_def)
qed

interpretation cobertura: language_processor "cobertura_from_xml D"
  by unfold_locales (auto simp: yields_def dest: cobertura_building)

section \<open>Two paths that are fixed to the same file\<close>

text \<open>
  When two classes of a Cobertura report are fixed to the same path, renaming puts the file of the later one in the place of the
  earlier one: its lines are lost, they are not merged.
\<close>

definition two_class_report :: xml where
  "two_class_report =
     (let cls = (\<lambda>name lno. Element ''class'' [(''filename'', name)] None
            [Element ''line'' [(''number'', lno), (''hits'', ''1'')] None []])
      in Element ''coverage'' [] None [cls ''x/a.py'' ''1'', cls ''y/a.py'' ''2''])"

definition one_file_builder :: "unit report_builder" where
  "one_file_builder =
     \<lparr>bu_yaml = JObj [(''codecov'', JObj [(''max_report_age'', JBool False)])], bu_sessionid = 0, bu_ignored = [],
      bu_fix = (\<lambda>_ _ _. Inr (Some ''a.py'', ()))\<rparr>"

lemma cobertura_overwrites:
  "map_res (\<lambda>st. map (\<lambda>f. (rf_name f, map (\<lambda>l. l \<noteq> None) (rf_lines f))) (r_file_list (bs_report st)))
     (cobertura_from_xml \<lparr>da_date = (\<lambda>_. Inl TimestringInvalid), da_before = (\<lambda>_ _. Inr False)\<rparr> one_file_builder
        (create_report_builder_session [] ()) two_class_report) = Inr [(''a.py'', [False, True])]"
  by code_simp

end
