(* ===== verification/Carryforward.thy ===== *)
theory Carryforward
  imports Filtered
begin

text \<open>
  Carrying sessions forward from the report of a parent commit
  (libs/shared/shared/reports/carryforward.py): the name of a carried-forward session, and the
  report that keeps the files and sessions to carry forward.
\<close>

section \<open>Names of carried-forward sessions\<close>

text \<open>The loop that drops the prefixes \<open>CF \<close> and counts them.\<close>

function strip_cf :: "string \<Rightarrow> int \<times> string" where
  "strip_cf s =
     (if startswith s ''CF '' then (case strip_cf (drop 3 s) of (n, t) \<Rightarrow> (n + 1, t)) else (0, s))"
  by pat_completeness auto
termination
proof (relation "measure length", goal_cases)
  case (2 s)
  then have "s \<noteq> []" by (auto simp: startswith_def)
  then show ?case by simp
qed simp

declare strip_cf.simps [simp del]

definition is_digit :: "char \<Rightarrow> bool" where
  "is_digit c = (digit_val c \<noteq> None)"

text \<open>\<open>re.match\<close> of \<open>CF[digits]\<close> at the start: the digits, and the rest of the string.\<close>

definition match_cf :: "string \<Rightarrow> (string \<times> string) option" where
  "match_cf s =
     (if startswith s ''CF['' then
        (case dropWhile is_digit (drop 3 s) of
           c # rest \<Rightarrow> if c = CHR '']'' then Some (takeWhile is_digit (drop 3 s), rest) else None
         | [] \<Rightarrow> None)
      else None)"

definition cf_prefix :: "int \<Rightarrow> string" where
  "cf_prefix n = ''CF['' @ int_str n @ '']''"

definition carriedforward_session_name :: "string option \<Rightarrow> string res" where
  "carriedforward_session_name original =
     (case original of
        None \<Rightarrow> Inr ''Carriedforward''
      | Some name \<Rightarrow>
          if name = [] then Inr ''Carriedforward''
          else if startswith name ''CF '' then
            (case strip_cf name of (count, current) \<Rightarrow> Inr (cf_prefix (count + 1) @ '' - '' @ current))
          else
            (case (if startswith name ''CF'' then match_cf name else None) of
               Some (digits, rest) \<Rightarrow> bind_res (py_int digits) (\<lambda>n. Inr (cf_prefix (n + 1) @ rest))
             | None \<Rightarrow> Inr (cf_prefix 1 @ '' - '' @ name)))"

section \<open>Carry-forward reports\<close>

definition cf_session :: "(string, json) dict option \<Rightarrow> session \<Rightarrow> session res" where
  "cf_session extras s =
     bind_res (carriedforward_session_name (ss_name s)) (\<lambda>name.
       Inr (s\<lparr>ss_session_extras := (case extras of Some (e # es) \<Rightarrow> e # es | _ \<Rightarrow> ss_session_extras s),
              ss_name := Some name, ss_session_type := ST_carriedforward\<rparr>))"

definition cf_mark :: "string list option \<Rightarrow> (string, json) dict option \<Rightarrow> int \<times> session \<Rightarrow> (int \<times> session) res" where
  "cf_mark flags extras entry =
     (case entry of (sid, s) \<Rightarrow>
        if contain_any_of_the_flags flags (ss_flags s) then map_res (Pair sid) (cf_session extras s)
        else Inr (sid, s))"

definition cf_delete_files :: "regex_engine \<Rightarrow> report \<Rightarrow> string list \<Rightarrow> report res" where
  "cf_delete_files rx r paths =
     (if paths = [] then Inr r
      else foldl_res r_delitem r (filter (\<lambda>n. \<not> matcher_match rx (Some paths) n) (dict_keys (r_files r))))"

definition generate_carryforward_report ::
  "regex_engine \<Rightarrow> report \<Rightarrow> string list option \<Rightarrow> string list \<Rightarrow> (string, json) dict option \<Rightarrow> report res" where
  "generate_carryforward_report rx r flags paths extras =
     bind_res (cf_delete_files rx r paths) (\<lambda>r1.
     bind_res (traverse (cf_mark flags extras) (r_sessions r1)) (\<lambda>ss.
       r_delete_multiple_sessions (r1\<lparr>r_sessions := ss\<rparr>)
         (map fst (filter (\<lambda>p. \<not> contain_any_of_the_flags flags (ss_flags (snd p))) (r_sessions r1)))))"

section \<open>Lemmas\<close>

lemma digits_of_nat_str: "takeWhile is_digit (nat_str n @ CHR '']'' # r) = nat_str n"
  "dropWhile is_digit (nat_str n @ CHR '']'' # r) = CHR '']'' # r"
proof -
  have all: "\<forall>c \<in> set (nat_str n). is_digit c" by (auto simp: is_digit_def dest: nat_str_digits)
  have "\<not> is_digit (CHR '']'')" by (simp add: is_digit_def digit_val_def)
  with all show "takeWhile is_digit (nat_str n @ CHR '']'' # r) = nat_str n"
    "dropWhile is_digit (nat_str n @ CHR '']'' # r) = CHR '']'' # r"
    by (auto simp: takeWhile_append dropWhile_append)
qed

lemma cf_again:
  "carriedforward_session_name (Some (cf_prefix (int n) @ r)) = Inr (cf_prefix (int n + 1) @ r)"
proof -
  have p: "cf_prefix (int n) @ r = CHR ''C'' # CHR ''F'' # CHR ''['' # nat_str n @ CHR '']'' # r"
    by (simp add: cf_prefix_def int_str_def)
  have "match_cf (cf_prefix (int n) @ r) = Some (nat_str n, r)"
    unfolding p by (simp add: match_cf_def startswith_def digits_of_nat_str)
  moreover have "py_int (nat_str n) = Inr (int n)" using py_int_int_str [of "int n"] by (simp add: int_str_def)
  moreover have "\<not> startswith (cf_prefix (int n) @ r) ''CF ''" "startswith (cf_prefix (int n) @ r) ''CF''" "(cf_prefix (int n) @ r = []) = False"
    unfolding p by (simp_all add: startswith_def)
  ultimately show ?thesis by (simp add: carriedforward_session_name_def del: append_is_Nil_conv)
qed

lemma traverse_cf_mark:
  "traverse (cf_mark flags extras) ss = Inr ts \<Longrightarrow>
     dict_keys ts = dict_keys ss \<and>
     (\<forall>i. case dict_get ss i of None \<Rightarrow> dict_get ts i = None
       | Some s \<Rightarrow> if contain_any_of_the_flags flags (ss_flags s)
           then \<exists>t. dict_get ts i = Some t \<and> cf_session extras s = Inr t
           else dict_get ts i = Some s)"
proof (induction ss arbitrary: ts)
  case Nil
  then show ?case by simp
next
  case (Cons e ss)
  obtain j s where e: "e = (j, s)" by (cases e)
  from Cons.prems obtain t ts' where t: "cf_mark flags extras (j, s) = Inr t" "traverse (cf_mark flags extras) ss = Inr ts'" "ts = t # ts'"
    by (auto simp: e)
  note IH = Cons.IH [OF t(2)]
  show ?case
  proof (intro conjI allI)
    show "dict_keys ts = dict_keys (e # ss)" using IH t by (auto simp: dict_keys_def e cf_mark_def split: if_splits)
    fix i
    show "case dict_get (e # ss) i of None \<Rightarrow> dict_get ts i = None
       | Some s \<Rightarrow> if contain_any_of_the_flags flags (ss_flags s)
           then \<exists>t. dict_get ts i = Some t \<and> cf_session extras s = Inr t
           else dict_get ts i = Some s"
    proof (cases "i = j")
      case True
      with t show ?thesis by (auto simp: e dict_get_def cf_mark_def split: if_splits)
    next
      case False
      then have "dict_get (e # ss) i = dict_get ss i" "dict_get ts i = dict_get ts' i"
        using t by (auto simp: e dict_get_def cf_mark_def split: if_splits)
      with conjunct2 [OF IH] show ?thesis by presburger
    qed
  qed
qed

text \<open>
  A session as it is carried forward: only its type, its name and, when there are any, its extras change. The name counts how
  often it was carried forward; older reports count by repeating \<open>CF\<close>.
\<close>

definition carried_session :: "(string, json) dict option \<Rightarrow> session \<Rightarrow> session \<Rightarrow> bool" where
  "carried_session extras s t \<longleftrightarrow>
     (\<exists>name. t = s\<lparr>ss_session_extras := (case extras of None \<Rightarrow> ss_session_extras s | Some es \<Rightarrow> if es = [] then ss_session_extras s else es),
         ss_name := Some name, ss_session_type := ST_carriedforward\<rparr> \<and>
       (ss_name s = None \<or> ss_name s = Some [] \<longrightarrow> name = ''Carriedforward'') \<and>
       (\<forall>b. ss_name s = Some b \<and> b \<noteq> [] \<and> \<not> startswith b ''CF'' \<longrightarrow> name = ''CF[1] - '' @ b) \<and>
       (\<forall>n b. ss_name s = Some (''CF['' @ nat_str n @ '']'' @ b) \<longrightarrow> name = ''CF['' @ nat_str (n + 1) @ '']'' @ b) \<and>
       (\<forall>n b. ss_name s = Some (concat (replicate (n + 1) ''CF '') @ b) \<and> \<not> startswith b ''CF '' \<longrightarrow>
          name = ''CF['' @ nat_str (n + 2) @ ''] - '' @ b))"

lemma strip_cf_replicate: "\<not> startswith b ''CF '' \<Longrightarrow> strip_cf (concat (replicate n ''CF '') @ b) = (int n, b)"
  by (induction n) (simp_all add: strip_cf.simps startswith_def)

lemma int_str_nat: "int_str (int n + 1) = nat_str (n + 1)" "int_str (int n + 2) = nat_str (n + 2)" "int_str 1 = nat_str 1"
  by (simp_all add: int_str_def nat_add_distrib)

lemma cf_old_name:
  assumes "\<not> startswith b ''CF ''"
  shows "carriedforward_session_name (Some (concat (replicate (n + 1) ''CF '') @ b)) = Inr (''CF['' @ nat_str (n + 2) @ ''] - '' @ b)"
proof -
  have "startswith (concat (replicate (n + 1) ''CF '') @ b) ''CF ''" by (simp add: startswith_def)
  with strip_cf_replicate [OF assms, of "n + 1"] show ?thesis
    using int_str_nat(2) [of n] by (simp add: carriedforward_session_name_def cf_prefix_def add.commute)
qed

lemma cf_new_name:
  assumes "b \<noteq> []" "\<not> startswith b ''CF''"
  shows "carriedforward_session_name (Some b) = Inr (''CF[1] - '' @ b)"
proof -
  have "\<not> startswith b ''CF ''" using assms(2) by (cases b; cases "tl b") (auto simp: startswith_def)
  moreover have "int_str 1 = ''1''" by code_simp
  ultimately show ?thesis using assms by (simp add: carriedforward_session_name_def cf_prefix_def)
qed

lemma cf_session_carried:
  assumes "cf_session extras s = Inr t"
  shows "carried_session extras s t"
proof -
  from assms obtain name where n: "carriedforward_session_name (ss_name s) = Inr name"
    and t: "t = s\<lparr>ss_session_extras := (case extras of Some (e # es) \<Rightarrow> e # es | _ \<Rightarrow> ss_session_extras s),
       ss_name := Some name, ss_session_type := ST_carriedforward\<rparr>"
    by (auto simp: cf_session_def)
  have x: "(case extras of Some (e # es) \<Rightarrow> e # es | _ \<Rightarrow> ss_session_extras s) =
    (case extras of None \<Rightarrow> ss_session_extras s | Some es \<Rightarrow> if es = [] then ss_session_extras s else es)"
    by (simp split: option.split list.split)
  show ?thesis unfolding carried_session_def
  proof (intro exI [of _ name] conjI allI impI)
    show "name = ''Carriedforward''" if "ss_name s = None \<or> ss_name s = Some []"
      using that n by (auto simp: carriedforward_session_name_def)
    show "name = ''CF[1] - '' @ b" if "ss_name s = Some b \<and> b \<noteq> [] \<and> \<not> startswith b ''CF''" for b
      using that n cf_new_name [of b] by simp
    show "name = ''CF['' @ nat_str (k + 1) @ '']'' @ b" if "ss_name s = Some (''CF['' @ nat_str k @ '']'' @ b)" for k b
      using that n cf_again [of k b] int_str_nat(1) [of k] by (simp add: cf_prefix_def int_str_def)
    show "name = ''CF['' @ nat_str (k + 2) @ ''] - '' @ b"
      if "ss_name s = Some (concat (replicate (k + 1) ''CF '') @ b) \<and> \<not> startswith b ''CF ''" for k b
      using that n cf_old_name [of b k] by simp
  qed (simp add: t x)
qed

lemma cf_files:
  assumes "cf_delete_files rx r paths = Inr r1" "wf_report r"
  shows "r_sessions r1 = r_sessions r" "wf_report r1"
    "r_get r1 p = Some f \<Longrightarrow> r_get r p = Some f \<and> matcher_match rx (Some paths) p"
proof -
  have "r_sessions r1 = r_sessions r \<and> wf_report r1 \<and> (r_get r1 p = Some f \<longrightarrow> r_get r p = Some f \<and> matcher_match rx (Some paths) p)"
  proof (cases "paths = []")
    case True
    with assms show ?thesis by (simp add: cf_delete_files_def matcher_match_def)
  next
    case False
    with assms(1) have fold: "foldl_res r_delitem r (filter (\<lambda>n. \<not> matcher_match rx (Some paths) n) (dict_keys (r_files r))) = Inr r1"
      by (simp add: cf_delete_files_def)
    have wf: "wf_report r1"
      by (rule foldl_res_invariant [OF fold]) (use assms(2) wf_delitem in auto)
    have "r_get r1 p = Some f \<Longrightarrow> dict_get (r_files r) p = Some f \<and> matcher_match rx (Some paths) p"
      using delitems [OF fold] dict_get_None [of "r_files r" p]
      by (auto simp: r_get_def dict_get_dels split: if_splits)
    with wf delitems [OF fold] show ?thesis by (simp add: r_get_def)
  qed
  then show "r_sessions r1 = r_sessions r" "wf_report r1"
    "r_get r1 p = Some f \<Longrightarrow> r_get r p = Some f \<and> matcher_match rx (Some paths) p" by auto
qed

section \<open>Properties\<close>

fun carried_name :: "nat \<Rightarrow> string \<Rightarrow> string res" where
  "carried_name 0 name = Inr name"
| "carried_name (Suc n) name = bind_res (carried_name n name) (\<lambda>s. carriedforward_session_name (Some s))"

text \<open>
  Carrying a session forward again and again only counts: after n times a session name that does not
  start with \<open>CF\<close> reads \<open>CF[n] - name\<close>.
\<close>

theorem carriedforward_name_counts:
  assumes "name \<noteq> []" "\<not> startswith name ''CF''"
  shows "carried_name (Suc n) name = Inr (''CF['' @ int_str (int n + 1) @ ''] - '' @ name)"
proof (induction n)
  case 0
  have "\<not> startswith name ''CF ''" using assms(2) by (cases name; cases "tl name") (auto simp: startswith_def)
  with assms show ?case by (simp add: carriedforward_session_name_def cf_prefix_def)
next
  case (Suc n)
  have "cf_prefix (int (Suc n)) @ '' - '' @ name = ''CF['' @ int_str (int n + 1) @ ''] - '' @ name"
    by (simp add: cf_prefix_def add.commute)
  with cf_again [of "Suc n" "'' - '' @ name"] have
    "carriedforward_session_name (Some (''CF['' @ int_str (int n + 1) @ ''] - '' @ name)) =
      Inr (''CF['' @ int_str (int (Suc n) + 1) @ ''] - '' @ name)" by (simp add: cf_prefix_def add.commute)
  with Suc carried_name.simps(2) [of "Suc n" name] show ?case by (simp del: carried_name.simps)
qed

theorem carriedforward_name_counts_witness:
  "carried_name (Suc 1) ''unit tests'' = Inr ''CF[2] - unit tests''"
proof -
  have "int_str (int 1 + 1) = ''2''" by code_simp
  then show ?thesis using carriedforward_name_counts [of "''unit tests''" 1] by (simp add: startswith_def)
qed

text \<open>
  C14. A carry-forward report keeps exactly the sessions that have one of the flags, each under its old id, marked as
  carried forward, renamed so that the name counts how often it was carried forward, with the given extras if there
  are any, and otherwise as it was; and it keeps only files that match the paths; the lines of its files refer
  to no other session than before, and to none of the dropped ones.
\<close>

theorem carryforward_report_spec:
  assumes "wf_report r" "\<forall>(p, f) \<in> set (r_files r). caches_ok f \<and> stores_no_ignored f"
    and "generate_carryforward_report rx r flags paths extras = Inr r'"
  shows "(\<forall>i. case dict_get (r_sessions r) i of None \<Rightarrow> dict_get (r_sessions r') i = None
      | Some s \<Rightarrow> if contain_any_of_the_flags flags (ss_flags s)
          then \<exists>t. dict_get (r_sessions r') i = Some t \<and> carried_session extras s t
          else dict_get (r_sessions r') i = None) \<and>
    (\<forall>p g. r_get r' p = Some g \<longrightarrow> matcher_match rx (Some paths) p \<and>
      (\<exists>f. r_get r p = Some f \<and> (\<forall>i \<in> session_ids_in (rf_lines g). i \<in> session_ids_in (rf_lines f) \<and>
        (\<forall>s. dict_get (r_sessions r) i = Some s \<longrightarrow> contain_any_of_the_flags flags (ss_flags s)))))"
proof -
  let ?ids = "map fst (filter (\<lambda>p. \<not> contain_any_of_the_flags flags (ss_flags (snd p))) (r_sessions r))"
  from assms(3) obtain r1 ss where r1: "cf_delete_files rx r paths = Inr r1"
    and ss: "traverse (cf_mark flags extras) (r_sessions r1) = Inr ss"
    and del: "r_delete_multiple_sessions (r1\<lparr>r_sessions := ss\<rparr>)
         (map fst (filter (\<lambda>p. \<not> contain_any_of_the_flags flags (ss_flags (snd p))) (r_sessions r1))) = Inr r'"
    by (auto simp: generate_carryforward_report_def)
  have r1s: "r_sessions r1 = r_sessions r" "wf_report r1"
    and r1f: "\<And>p f. r_get r1 p = Some f \<Longrightarrow> r_get r p = Some f \<and> matcher_match rx (Some paths) p"
    using cf_files [OF r1 assms(1)] by auto
  note mark = traverse_cf_mark [OF ss [unfolded r1s(1)]]
  have "wf_dict ss" using mark r1s by (auto simp: wf_report_def wf_dict_def dict_keys_def)
  then have wf: "wf_report (r1\<lparr>r_sessions := ss\<rparr>)" using r1s(2) by (simp add: wf_report_def)
  note d = delete_sessions_files [OF wf del [unfolded r1s(1)], simplified]
  have ids: "i \<in> set ?ids \<longleftrightarrow> (\<exists>s. dict_get (r_sessions r) i = Some s \<and> \<not> contain_any_of_the_flags flags (ss_flags s))" for i
    using assms(1) by (intro in_filtered_keys) (simp add: wf_report_def)
  show ?thesis
  proof (intro conjI allI impI)
    fix i
    have get: "dict_get (r_sessions r') i = (if i \<in> set ?ids then None else dict_get ss i)"
      by (simp add: d(1) dict_get_dels)
    from mark have m: "case dict_get (r_sessions r) i of None \<Rightarrow> dict_get ss i = None
       | Some s \<Rightarrow> if contain_any_of_the_flags flags (ss_flags s)
           then \<exists>t. dict_get ss i = Some t \<and> cf_session extras s = Inr t
           else dict_get ss i = Some s" by blast
    show "case dict_get (r_sessions r) i of None \<Rightarrow> dict_get (r_sessions r') i = None
      | Some s \<Rightarrow> if contain_any_of_the_flags flags (ss_flags s)
          then \<exists>t. dict_get (r_sessions r') i = Some t \<and> carried_session extras s t
          else dict_get (r_sessions r') i = None"
    proof (cases "dict_get (r_sessions r) i")
      case None
      with m get show ?thesis by simp
    next
      case (Some s)
      then have "i \<in> set ?ids \<longleftrightarrow> \<not> contain_any_of_the_flags flags (ss_flags s)" by (simp only: ids) simp
      with Some m get cf_session_carried [of extras s] show ?thesis by (auto split: if_splits)
    qed
  next
    fix p g assume g: "r_get r' p = Some g"
    from d(4) [OF this] obtain f where f: "r_get r1 p = Some f" "rf_delete_multiple_sessions f (set ?ids) = Inr g"
      by (auto simp: r_get_def)
    show "matcher_match rx (Some paths) p" using r1f [OF f(1)] by simp
    have rp: "r_get r p = Some f" using r1f [OF f(1)] by simp
    then have "(p, f) \<in> set (r_files r)" by (auto simp: r_get_def dest: dict_get_in)
    then have "session_ids_in (rf_lines g) = session_ids_in (rf_lines f) - set ?ids"
      using delete_sessions_ids(1) [OF f(2)] assms(2) by auto
    with rp ids show "\<exists>f. r_get r p = Some f \<and> (\<forall>i \<in> session_ids_in (rf_lines g). i \<in> session_ids_in (rf_lines f) \<and>
        (\<forall>s. dict_get (r_sessions r) i = Some s \<longrightarrow> contain_any_of_the_flags flags (ss_flags s)))" by blast
  qed
qed

theorem carryforward_report_spec_witness:
  "\<exists>r' t. generate_carryforward_report (\<lambda>p s. True)
       (report_of [(0, (plain_session 0)\<lparr>ss_flags := Some [''unit'']\<rparr>), (1, plain_session 1)] [one_line_file ''a.py'' 0 1])
       (Some [''unit'']) [] None = Inr r' \<and>
     dict_get (r_sessions r') 0 = Some t \<and> ss_session_type t = ST_carriedforward \<and> ss_name t = Some ''Carriedforward'' \<and> dict_get (r_sessions r') 1 = None"
proof -
  let ?s = "(plain_session 0)\<lparr>ss_flags := Some [''unit'']\<rparr>"
  let ?r = "report_of [(0, ?s), (1, plain_session 1)] [one_line_file ''a.py'' 0 1]"
  have wf: "wf_report ?r" "\<forall>(p, f) \<in> set (r_files ?r). caches_ok f \<and> stores_no_ignored f"
    by (simp_all add: wf_report_def report_of_def wf_dict_def)
  have flags: "contain_any_of_the_flags (Some [''unit'']) (ss_flags ?s)" "\<not> contain_any_of_the_flags (Some [''unit'']) (ss_flags (plain_session 1))"
    by (simp_all add: contain_any_of_the_flags_def plain_session_def)
  obtain t where t: "cf_session None ?s = Inr t"
    by (simp add: cf_session_def carriedforward_session_name_def plain_session_def)
  have del: "rf_delete_multiple_sessions (one_line_file ''a.py'' 0 1) {1} = Inr ((one_line_file ''a.py'' 0 1)\<lparr>rf_present := Some {0}\<rparr>)"
    by (simp add: rf_delete_multiple_sessions_def rf_present_sessions_def session_ids_in_def line_session_ids_def Let_def)
  have "generate_carryforward_report (\<lambda>p s. True) ?r (Some [''unit'']) [] None =
      r_delete_multiple_sessions (?r\<lparr>r_sessions := [(0, t), (1, plain_session 1)]\<rparr>) [1]"
    using flags t by (simp add: generate_carryforward_report_def cf_delete_files_def report_of_def cf_mark_def)
  moreover obtain r' where "r_delete_multiple_sessions (?r\<lparr>r_sessions := [(0, t), (1, plain_session 1)]\<rparr>) [1] = Inr r'"
    by (simp add: r_delete_multiple_sessions_def report_of_def
        r_pop_session_def dict_keys_def dict_del_def strip_file_def del rf_bool_def rf_total_lines
        get_line_totals_counts counts_of_def count_line_def line_type_def no_lines_def)
  ultimately have r': "generate_carryforward_report (\<lambda>p s. True) ?r (Some [''unit'']) [] None = Inr r'" by simp
  from carryforward_report_spec [OF wf r'] have
    s: "case dict_get (r_sessions ?r) i of None \<Rightarrow> dict_get (r_sessions r') i = None
      | Some s \<Rightarrow> if contain_any_of_the_flags (Some [''unit'']) (ss_flags s)
          then \<exists>t. dict_get (r_sessions r') i = Some t \<and> carried_session None s t
          else dict_get (r_sessions r') i = None" for i by blast
  from s [of 0] flags obtain u where u: "dict_get (r_sessions r') 0 = Some u" "carried_session None ?s u"
    by (auto simp: report_of_def dict_get_def)
  from u(2) have "ss_session_type u = ST_carriedforward" "ss_name u = Some ''Carriedforward''"
    by (auto simp: carried_session_def plain_session_def)
  moreover from s [of 1] flags have "dict_get (r_sessions r') 1 = None" by (auto simp: report_of_def dict_get_def)
  ultimately show ?thesis using r' u(1) by blast
qed

end
