(* ===== verification/Rounding.thy ===== *)
theory Rounding
  imports Py_Decimal User_Yaml
begin

text \<open>
  Rounding of coverage for users: apps/worker/helpers/number.py, the functions of
  apps/worker/services/yaml/reader.py that read the precision and the strategy from the configuration,
  the text of a rounded number, and the numbers that users write into the configuration.
\<close>

section \<open>Quantizing decimals\<close>

text \<open>
  \<open>quantize\<close> to \<open>k\<close> decimals with a rounding of rationals to integers: a result of more than 28 digits is an
  \<open>InvalidOperation\<close>.
\<close>

definition dec_quantize :: "int \<Rightarrow> (rat \<Rightarrow> int) \<Rightarrow> rat \<Rightarrow> rat res" where
  "dec_quantize k rnd q =
     (let n = rnd (q * 10 powi k)
      in if 10 ^ 28 \<le> \<bar>n\<bar> then Inl InvalidOperation else Inr (of_int n / 10 powi k))"

definition rounding_mode :: "string \<Rightarrow> rat \<Rightarrow> int" where
  "rounding_mode rounding = (if rounding = ''up'' then ceiling else if rounding = ''down'' then floor else rhe)"

definition precise_round :: "rat \<Rightarrow> int \<Rightarrow> string \<Rightarrow> rat res" where
  "precise_round x precision rounding = dec_quantize precision (rounding_mode rounding) x"

text \<open>\<open>Decimal(coverage)\<close> of a field of totals.\<close>

definition decimal_of :: "fval \<Rightarrow> rat res" where
  "decimal_of v =
     (case v of
        VStr s \<Rightarrow> Decimal s
      | VInt i \<Rightarrow> Inr (of_int i)
      | VFloat q \<Rightarrow> Inr q
      | VNone \<Rightarrow> Inl TypeError)"

section \<open>Settings of the configuration\<close>

text \<open>
  The precision of the configuration, as the exponent of a power of \<open>Decimal("0.1")\<close>: a number. Floats are
  outside the model, and a truth value counts as a number. The strategy is compared with strings only.
\<close>

definition precision_of :: "json \<Rightarrow> int res" where
  "precision_of yaml =
     (case read_yaml_field yaml [''coverage'', ''precision''] (JInt 2) of
        JInt p \<Rightarrow> Inr p
      | JBool b \<Rightarrow> Inr (if b then 1 else 0)
      | JFloat _ \<Rightarrow> Inl NotModelled
      | _ \<Rightarrow> Inl TypeError)"

definition strategy_of :: "json \<Rightarrow> string" where
  "strategy_of yaml =
     (case read_yaml_field yaml [''coverage'', ''round''] (JStr ''nearest'') of JStr s \<Rightarrow> s | _ \<Rightarrow> [])"

definition get_minimum_precision :: "json \<Rightarrow> rat res" where
  "get_minimum_precision yaml = map_res (\<lambda>p. (1 / 10) powi p) (precision_of yaml)"

definition round_number :: "json \<Rightarrow> rat \<Rightarrow> rat res" where
  "round_number yaml x = bind_res (precision_of yaml) (\<lambda>p. precise_round x p (strategy_of yaml))"

text \<open>
  \<open>str(x)\<close> of a float is the shortest decimal that reads back as the same double, and the nearest of
  those: with \<open>k\<close> significant digits the neighbours of the number are the candidates.
\<close>

definition repr_candidates :: "rat \<Rightarrow> nat \<Rightarrow> rat list" where
  "repr_candidates q k =
     (let u = 10 powi (ilog10 q - int k + 1)
      in filter (\<lambda>c. fl c = q) [of_int \<lfloor>q / u\<rfloor> * u, of_int \<lceil>q / u\<rceil> * u])"

fun first_repr :: "rat \<Rightarrow> nat list \<Rightarrow> rat" where
  "first_repr q [] = q"
| "first_repr q (k # ks) =
     (case repr_candidates q k of
        [] \<Rightarrow> first_repr q ks
      | [c] \<Rightarrow> c
      | c # d # _ \<Rightarrow> if d - q < q - c then d else c)"

definition repr_value :: "rat \<Rightarrow> rat" where
  "repr_value q =
     (if q = 0 then 0
      else if q < 0 then - first_repr (- q) [1..<18]
      else first_repr q [1..<18])"

text \<open>\<open>Decimal(str(v).replace("%", ""))\<close> of a value of the configuration.\<close>

definition decimal_setting :: "json \<Rightarrow> rat res" where
  "decimal_setting v =
     (case v of
        JStr s \<Rightarrow> Decimal (replace_str ''%'' [] s)
      | JInt i \<Rightarrow> Inr (of_int i)
      | JFloat q \<Rightarrow> Inr (repr_value q)
      | _ \<Rightarrow> Inl InvalidOperation)"

section \<open>Text of rounded numbers\<close>

text \<open>
  The text of a decimal with coefficient \<open>n\<close> and \<open>p\<close> digits after the point: plain unless the number
  is too small, then with an exponent. A negative number that rounds to zero keeps its sign.
\<close>

definition pad_zeros :: "nat \<Rightarrow> string \<Rightarrow> string" where
  "pad_zeros k s = replicate (k - length s) (CHR ''0'') @ s"

definition plain_decimal :: "nat \<Rightarrow> string \<Rightarrow> string" where
  "plain_decimal p digits =
     (if p = 0 then digits
      else let s = pad_zeros (p + 1) digits in but_last_n p s @ ''.'' @ last_n p s)"

definition scientific :: "int \<Rightarrow> string \<Rightarrow> string" where
  "scientific e digits =
     take 1 digits @ (if length digits = 1 then [] else ''.'' @ drop 1 digits) @ ''E'' @ (if e < 0 then [] else ''+'') @ int_str e"

definition decimal_digits :: "int \<Rightarrow> string \<Rightarrow> string" where
  "decimal_digits p digits =
     (let left = int (length digits) - p
      in if 0 \<le> p \<and> -6 < left then plain_decimal (nat p) digits else scientific (left - 1) digits)"

definition decimal_str :: "bool \<Rightarrow> int \<Rightarrow> rat \<Rightarrow> string" where
  "decimal_str neg p x = (if neg then ''-'' else []) @ decimal_digits p (nat_str (nat \<bar>rhe (x * 10 powi p)\<bar>))"

text \<open>\<open>f"{round_number(yaml, x)}"\<close>, and with \<open>:+\<close>.\<close>

definition rounded_text :: "json \<Rightarrow> rat \<Rightarrow> string res" where
  "rounded_text yaml x =
     bind_res (precision_of yaml) (\<lambda>p. map_res (decimal_str (x < 0) p) (precise_round x p (strategy_of yaml)))"

definition rounded_text_signed :: "json \<Rightarrow> rat \<Rightarrow> string res" where
  "rounded_text_signed yaml x = map_res (\<lambda>s. if x < 0 then s else ''+'' @ s) (rounded_text yaml x)"

lemma rounded_text_ok: "is_ok (rounded_text yaml x) \<longleftrightarrow> is_ok (round_number yaml x)"
  by (cases "precision_of yaml"; cases "precise_round x (projr (precision_of yaml)) (strategy_of yaml)")
    (simp_all add: rounded_text_def round_number_def)

section \<open>Properties\<close>

lemma rounding_mode_bounds:
  "of_int a \<le> r \<Longrightarrow> a \<le> rounding_mode d r" "r \<le> of_int b \<Longrightarrow> rounding_mode d r \<le> b"
  using rhe_mono [of "of_int a" r] rhe_mono [of r "of_int b"]
  by (auto simp: rounding_mode_def le_floor_iff ceiling_le_iff intro: order_trans [OF of_int_floor_le])
    (simp_all add: le_ceiling_iff floor_le_iff)

lemma rounding_mode_of_int [simp]: "rounding_mode d (of_int n) = n"
  by (simp add: rounding_mode_def)

lemma rounding_mode_error:
  fixes r :: rat
  shows "d = ''down'' \<Longrightarrow> of_int (rounding_mode d r) \<le> r \<and> r < of_int (rounding_mode d r) + 1"
    "d = ''up'' \<Longrightarrow> r \<le> of_int (rounding_mode d r) \<and> of_int (rounding_mode d r) < r + 1"
    "d \<noteq> ''down'' \<Longrightarrow> d \<noteq> ''up'' \<Longrightarrow> \<bar>of_int (rounding_mode d r) - r\<bar> \<le> 1 / 2"
  using rhe_error [of r] by (simp_all add: rounding_mode_def) linarith+

text \<open>
  Rounding a coverage to \<open>precision\<close> digits gives a multiple of the last digit; \<open>down\<close> never
  exceeds the number, \<open>up\<close> is never below it, both are off by less than one unit of the
  last digit, and every other strategy by at most half a unit; rounding twice is rounding once.
\<close>

theorem precise_round_error:
  assumes "precise_round x p d = Inr y"
  shows "(\<exists>n. y * 10 powi p = of_int n) \<and>
   (d = ''down'' \<longrightarrow> y \<le> x \<and> x - y < 1 / 10 powi p) \<and>
   (d = ''up'' \<longrightarrow> x \<le> y \<and> y - x < 1 / 10 powi p) \<and>
   (d \<noteq> ''down'' \<and> d \<noteq> ''up'' \<longrightarrow> \<bar>y - x\<bar> \<le> 1 / (2 * 10 powi p)) \<and>
   precise_round y p d = Inr y"
proof -
  define s :: rat where "s = 10 powi p"
  have s: "0 < s" by (simp add: s_def)
  define n where "n = rounding_mode d (x * s)"
  have r: "y = of_int n / s" and b: "\<bar>n\<bar> < 10 ^ 28"
    using assms by (auto simp: precise_round_def dec_quantize_def Let_def n_def s_def split: if_splits)
  have twice: "precise_round (of_int n / s) p d = Inr (of_int n / s)"
    using s b by (simp add: precise_round_def dec_quantize_def Let_def s_def [symmetric])
  have diff: "of_int n / s - x = (of_int n - x * s) / s" using s by (simp add: diff_divide_distrib)
  have diff': "x - of_int n / s = (x * s - of_int n) / s" using s by (simp add: diff_divide_distrib)
  have err: "\<bar>of_int n / s - x\<bar> = \<bar>of_int n - x * s\<bar> / s" using s by (simp only: diff abs_divide abs_of_pos)
  note e = rounding_mode_error [of d "x * s", folded n_def]
  have "d \<noteq> ''down'' \<Longrightarrow> d \<noteq> ''up'' \<Longrightarrow> \<bar>of_int n / s - x\<bar> \<le> 1 / (2 * s)"
    unfolding err using e(3) s by (simp add: field_simps)
  moreover have "d = ''down'' \<Longrightarrow> of_int n / s \<le> x \<and> x - of_int n / s < 1 / s"
    using e(1) s by (simp add: pos_divide_le_eq diff' divide_less_cancel)
  moreover have "d = ''up'' \<Longrightarrow> x \<le> of_int n / s \<and> of_int n / s - x < 1 / s"
    using e(2) s by (simp add: pos_le_divide_eq diff divide_less_cancel)
  moreover have "\<exists>m. of_int n / s * s = (of_int m :: rat)" using s by auto
  ultimately show ?thesis unfolding s_def [symmetric] r twice by blast
qed

theorem precise_round_error_witness:
  "precise_round (200 / 3) 2 ''down'' = Inr (6666 / 100) \<and> precise_round (6666 / 100) 2 ''down'' = Inr (6666 / 100)"
proof -
  have "precise_round (200 / 3) 2 ''down'' = Inr (6666 / 100)" by code_simp
  with precise_round_error [OF this] show ?thesis by simp
qed

lemma abs_scaled: "\<bar>x\<bar> * 10 powi p = \<bar>x * 10 powi p :: rat\<bar>"
  by (simp add: abs_mult)

lemma precise_round_overflow:
  assumes "10 ^ 28 \<le> \<bar>x\<bar> * 10 powi p"
  shows "precise_round x p d = Inl InvalidOperation"
  using assms rounding_mode_bounds(1) [of "10 ^ 28" "x * 10 powi p" d] rounding_mode_bounds(2) [of "x * 10 powi p" "- (10 ^ 28)" d]
  unfolding abs_scaled by (auto simp: precise_round_def dec_quantize_def Let_def abs_if split: if_splits)

lemma precise_round_ok:
  assumes "\<bar>x\<bar> * 10 powi p \<le> 10 ^ 28 - 1"
  shows "\<exists>y. precise_round x p d = Inr y"
proof -
  have "\<bar>rounding_mode d (x * 10 powi p)\<bar> \<le> 10 ^ 28 - 1"
    using assms rounding_mode_bounds(1) [of "- (10 ^ 28 - 1)" "x * 10 powi p" d] rounding_mode_bounds(2) [of "x * 10 powi p" "10 ^ 28 - 1" d]
    unfolding abs_scaled by (auto simp: abs_le_iff)
  then show ?thesis by (auto simp: precise_round_def dec_quantize_def Let_def)
qed

text \<open>Percentages and their sums can be shown with up to 25 decimals.\<close>

lemma percentage_in_range:
  assumes "\<bar>x\<bar> \<le> 900" "p \<le> 25"
  shows "\<bar>x\<bar> * 10 powi p \<le> (10 ^ 28 - 1 :: rat)"
proof -
  have "\<bar>x\<bar> * 10 powi p \<le> 900 * 10 powi (25 :: int)"
    using assms by (intro mult_mono power_int_increasing) auto
  also have "\<dots> \<le> 10 ^ 28 - 1" by simp
  finally show ?thesis .
qed

lemma percentage_text:
  assumes "precision_of yaml = Inr p" "p \<le> 25" "\<bar>x\<bar> \<le> 900"
  obtains t where "rounded_text yaml x = Inr t"
  using precise_round_ok [OF percentage_in_range [OF assms(3,2)], of "strategy_of yaml"] assms(1) by (auto simp: rounded_text_def)

lemma percentage_rounded:
  assumes "precision_of yaml = Inr p" "p \<le> 25" "\<bar>x\<bar> \<le> 900"
  obtains y where "round_number yaml x = Inr y"
  using precise_round_ok [OF percentage_in_range [OF assms(3,2)], of "strategy_of yaml"] assms(1) by (auto simp: round_number_def)

lemma dec_round_bound:
  assumes "\<bar>x\<bar> \<le> of_int n" "n < 10 ^ 28"
  shows "\<bar>dec_round x\<bar> \<le> of_int n"
proof -
  have "(0 :: rat) \<le> of_int n" using assms(1) by linarith
  then have "0 \<le> n" by simp
  with assms have "dec_round (of_int n) = of_int n" using dec_round_exact [of n 0] by simp
  with assms(1) dec_round_mono [of x "of_int n"] dec_round_mono [of "- of_int n" x] show ?thesis by (simp add: abs_le_iff)
qed

lemma dec_minus_bound: "\<bar>a\<bar> + \<bar>b\<bar> \<le> of_int n \<Longrightarrow> n < 10 ^ 28 \<Longrightarrow> \<bar>dec_minus a b\<bar> \<le> of_int n"
  unfolding dec_minus_def by (rule dec_round_bound) linarith+

text \<open>
  Rounding fails when the number is \<open>10 ^ 28\<close> units of the last digit or more, whatever the strategy (so that a
  coverage of ten percent cannot be shown with 27 decimals), and it succeeds up to \<open>10 ^ 28 - 1\<close> units.
\<close>

theorem precise_round_range:
  "(10 ^ 28 \<le> \<bar>x\<bar> * 10 powi p \<longrightarrow> precise_round x p d = Inl InvalidOperation) \<and>
   (\<bar>x\<bar> * 10 powi p \<le> 10 ^ 28 - 1 \<longrightarrow> (\<exists>y. precise_round x p d = Inr y))"
  using precise_round_overflow precise_round_ok by blast

theorem precise_round_range_witness:
  "precise_round (50 + 1 / 4) 27 ''nearest'' = Inl InvalidOperation \<and> (\<exists>y. precise_round (50 + 1 / 4) 5 ''nearest'' = Inr y)"
  using precise_round_range [of "50 + 1 / 4" 27 "''nearest''"] precise_round_range [of "50 + 1 / 4" 5 "''nearest''"] by simp

end
