(* ===== verification/Merging.thy ===== *)
theory Merging
  imports Carryforward Rounding
begin

text \<open>
  Merging the intermediate reports of uploads into the master report of a commit
  (apps/worker/services/processing/merging.py), and the
  records that update the uploads in the database. The database session itself is not modelled: the
  result of \<open>update_uploads\<close> is the list of rows it writes.
\<close>

section \<open>Merging intermediate reports\<close>

record intermediate_report =
  im_upload_id :: int
  im_report :: report

record merge_result =
  mr_session_mapping :: "(int, int) dict"
  mr_deleted_sessions :: "int list"

definition get_joined_flag :: "json \<Rightarrow> string list \<Rightarrow> bool" where
  "get_joined_flag yaml flags =
     (\<not> (\<exists>f \<in> set flags. read_yaml_field yaml [''flags'', f, ''joined''] JNull = JBool False))"

text \<open>\<open>next(iter(report.sessions))\<close>.\<close>

definition first_session_id :: "report \<Rightarrow> int res" where
  "first_session_id r = (case r_sessions r of [] \<Rightarrow> Inl StopIteration | (i, _) # _ \<Rightarrow> Inr i)"

text \<open>The flags among \<open>flags\<close> that carry forward; sets of flags are lists here.\<close>

definition carryforward_flags :: "json \<Rightarrow> string list \<Rightarrow> string list res" where
  "carryforward_flags yaml flags =
     map_res (\<lambda>vs. map fst (filter (\<lambda>p. j_truthy (snd p)) vs))
       (traverse (\<lambda>f. map_res (Pair f) (flag_has_carryforward yaml f)) flags)"

definition carriedforward_by :: "string list \<Rightarrow> session \<Rightarrow> bool" where
  "carriedforward_by fs s \<longleftrightarrow> ss_session_type s = ST_carriedforward \<and> (\<exists>f \<in> set (flags_or_nil s). f \<in> set fs)"

definition clear_carryforward_sessions :: "report \<Rightarrow> string list \<Rightarrow> json \<Rightarrow> (int list \<times> report) res" where
  "clear_carryforward_sessions r flags yaml =
     bind_res (carryforward_flags yaml flags) (\<lambda>cf.
       if cf = [] then Inr ([], r)
       else
         let ids = map fst (filter (\<lambda>p. carriedforward_by cf (snd p)) (r_sessions r))
         in if ids = [] then Inr ([], r)
            else map_res (Pair ids) (r_delete_multiple_sessions r ids))"

definition upload_flags :: "intermediate_report \<Rightarrow> string list res" where
  "upload_flags im =
     (if r_is_empty (im_report im) then Inr []
      else (case r_sessions (im_report im) of [] \<Rightarrow> Inl StopIteration | (_, s) # _ \<Rightarrow> Inr (flags_or_nil s)))"

definition clear_all_carryforward_sessions :: "json \<Rightarrow> report \<Rightarrow> intermediate_report list \<Rightarrow> (int list \<times> report) res" where
  "clear_all_carryforward_sessions yaml master ims =
     (if r_is_empty master then Inr ([], master)
      else bind_res (traverse upload_flags ims) (\<lambda>fss.
        let flags = remdups (concat fss)
        in if flags = [] then Inr ([], master) else clear_carryforward_sessions master flags yaml))"

definition merge_one :: "json \<Rightarrow> report \<times> (int, int) dict \<Rightarrow> intermediate_report \<Rightarrow> (report \<times> (int, int) dict) res" where
  "merge_one yaml st im =
     (case st of (master, mapping) \<Rightarrow>
        if r_is_empty (im_report im) then Inr (master, mapping)
        else
          bind_res (first_session_id (im_report im)) (\<lambda>old.
            let new = r_next_session_number master;
                mapping' = dict_set mapping (im_upload_id im) new
            in if r_is_empty master \<and> old = new then Inr (im_report im, mapping')
               else
                 bind_res (r_change_sessionid (im_report im) old new) (\<lambda>r.
                 bind_res (case dict_get (r_sessions r) new of None \<Rightarrow> Inl KeyError | Some s \<Rightarrow> Inr s) (\<lambda>s.
                 bind_res (r_add_session master s True) (\<lambda>(_, s', master').
                 bind_res (r_merge master' (Some r) (get_joined_flag yaml (flags_or_nil s')) False) (\<lambda>master''.
                   Inr (master'', mapping')))))))"

definition merge_reports :: "json \<Rightarrow> report \<Rightarrow> intermediate_report list \<Rightarrow> (report \<times> merge_result) res" where
  "merge_reports yaml master ims =
     bind_res (clear_all_carryforward_sessions yaml master ims) (\<lambda>(deleted, master').
     bind_res (foldl_res (merge_one yaml) (master', []) ims) (\<lambda>(result, mapping).
       Inr (result, \<lparr>mr_session_mapping = mapping, mr_deleted_sessions = deleted\<rparr>)))"

section \<open>Updating the uploads\<close>

record upload_totals =
  ut_upload_id :: int
  ut_branches :: int
  ut_coverage :: rat
  ut_hits :: int
  ut_lines :: int
  ut_methods :: int
  ut_misses :: int
  ut_partials :: int
  ut_files :: int

definition make_upload_totals :: "int \<Rightarrow> string \<Rightarrow> int \<Rightarrow> report_totals \<Rightarrow> upload_totals res" where
  "make_upload_totals precision rounding upload_id t =
     bind_res (if t_coverage t = VNone then Inr 0
               else bind_res (decimal_of (t_coverage t)) (\<lambda>x. precise_round x precision rounding)) (\<lambda>c.
       Inr \<lparr>ut_upload_id = upload_id, ut_branches = t_branches t, ut_coverage = c, ut_hits = t_hits t,
         ut_lines = t_lines t, ut_methods = t_methods t, ut_misses = t_misses t, ut_partials = t_partials t,
         ut_files = t_files t\<rparr>)"

record processing_result =
  pr_upload_id :: int
  pr_successful :: bool
  pr_error :: "(string \<times> json) option"

datatype upload_state = US_processed | US_error

record upload_update =
  uu_id :: int
  uu_state :: upload_state
  uu_order_number :: "int option"

record upload_rows =
  ur_deleted :: "(int \<times> int list) option"
  ur_updates :: "upload_update list"
  ur_errors :: "(int \<times> string \<times> json) list"
  ur_totals :: "upload_totals list"

text \<open>
  One turn of the loop. A result that is not successful and has no key \<open>error\<close> raises
  \<open>KeyError\<close>; \<open>reports\<close> maps upload ids to the intermediate reports.
\<close>

definition update_upload ::
  "int \<Rightarrow> string \<Rightarrow> (int, report) dict \<Rightarrow> (int, int) dict \<Rightarrow> upload_rows \<Rightarrow> processing_result \<Rightarrow> upload_rows res" where
  "update_upload precision rounding reports mapping rows res =
     (let i = pr_upload_id res;
          row = (\<lambda>st. \<lparr>uu_id = i, uu_state = st, uu_order_number = dict_get mapping i\<rparr>)
      in if pr_successful res then
           bind_res (case dict_get reports i of
               None \<Rightarrow> Inr []
             | Some r \<Rightarrow> bind_res (r_total r) (\<lambda>t. map_res (\<lambda>u. [u]) (make_upload_totals precision rounding i t))) (\<lambda>ts.
             Inr (rows\<lparr>ur_updates := ur_updates rows @ [row US_processed], ur_totals := ur_totals rows @ ts\<rparr>))
         else
           (case pr_error res of
              None \<Rightarrow> Inl KeyError
            | Some (code, params) \<Rightarrow>
                Inr (rows\<lparr>ur_updates := ur_updates rows @ [row US_error],
                          ur_errors := ur_errors rows @ [(i, code, params)]\<rparr>)))"

text \<open>
  The column \<open>Upload.report_id\<close> of an upload is the parameter \<open>report_id_of\<close>; no row makes
  \<open>first()[0]\<close> a \<open>TypeError\<close>. \<open>ur_deleted\<close> holds the arguments of \<open>delete_uploads_by_sessionid\<close>,
  which runs before everything else is written.
\<close>

definition sessions_to_remove :: "(int \<Rightarrow> int option) \<Rightarrow> merge_result \<Rightarrow> (int \<times> int list) option res" where
  "sessions_to_remove report_id_of mr =
     (if mr_deleted_sessions mr = [] then Inr None
      else (case dict_keys (mr_session_mapping mr) of
          [] \<Rightarrow> Inl StopIteration
        | i # _ \<Rightarrow> (case report_id_of i of
              None \<Rightarrow> Inl TypeError
            | Some report_id \<Rightarrow> Inr (Some (report_id, mr_deleted_sessions mr)))))"

definition update_uploads ::
  "(int \<Rightarrow> int option) \<Rightarrow> int \<Rightarrow> string \<Rightarrow> processing_result list \<Rightarrow> intermediate_report list \<Rightarrow> merge_result \<Rightarrow> upload_rows res" where
  "update_uploads report_id_of precision rounding results ims mr =
     bind_res (sessions_to_remove report_id_of mr) (\<lambda>deleted.
       foldl_res (update_upload precision rounding (dict_of (map (\<lambda>im. (im_upload_id im, im_report im)) ims)) (mr_session_mapping mr))
         \<lparr>ur_deleted = deleted, ur_updates = [], ur_errors = [], ur_totals = []\<rparr> results)"

text \<open>
  \<open>delete_uploads_by_sessionid\<close> of apps/worker/services/report/__init__.py on the four tables it
  touches; the rows of the dependent tables are given by their upload id and the rest of the row.
\<close>

record upload_row =
  up_id :: int
  up_report_id :: int
  up_upload_type :: string
  up_order_number :: "int option"

record 'a upload_tables =
  tb_uploads :: "upload_row list"
  tb_errors :: "(int \<times> 'a) list"
  tb_totals :: "(int \<times> 'a) list"
  tb_flag_memberships :: "(int \<times> 'a) list"

definition delete_uploads_by_sessionid :: "int \<Rightarrow> int list \<Rightarrow> 'a upload_tables \<Rightarrow> 'a upload_tables" where
  "delete_uploads_by_sessionid report_id session_ids tb =
     (let ids = map up_id (filter (\<lambda>u. up_report_id u = report_id \<and> up_upload_type u = session_type_value ST_carriedforward \<and>
                  (\<exists>n. up_order_number u = Some n \<and> n \<in> set session_ids)) (tb_uploads tb));
          keep = filter (\<lambda>p. fst p \<notin> set ids)
      in \<lparr>tb_uploads = filter (\<lambda>u. up_id u \<notin> set ids) (tb_uploads tb), tb_errors = keep (tb_errors tb),
          tb_totals = keep (tb_totals tb), tb_flag_memberships = keep (tb_flag_memberships tb)\<rparr>)"

section \<open>Lemmas\<close>

definition upload_ok :: "intermediate_report \<Rightarrow> bool" where
  "upload_ok im \<longleftrightarrow> wf_report (im_report im) \<and> (r_is_empty (im_report im) \<or> (\<exists>s. r_sessions (im_report im) = [(0, s)]))"

lemma r_merge_sessions:
  assumes "r_merge r n j d = Inr r'"
  shows "r_sessions r' = r_sessions r"
proof (cases n)
  case None
  with assms show ?thesis by (simp add: r_merge_def)
next
  case (Some m)
  show ?thesis
  proof (cases "r_is_empty m")
    case True
    with Some assms show ?thesis by (simp add: r_merge_def)
  next
    case False
    with Some assms have "foldl_res (r_merge_file j d) r (r_file_list m) = Inr r'" by (simp add: r_merge_def)
    then show ?thesis
      by (rule foldl_res_invariant) (auto simp: r_merge_file_def split: if_splits dest!: r_append_files)
  qed
qed

definition mapping_inv :: "int list \<Rightarrow> report \<times> (int, int) dict \<Rightarrow> bool" where
  "mapping_inv old st \<longleftrightarrow> (case st of (master, mapping) \<Rightarrow>
     wf_report master \<and> distinct (dict_values mapping) \<and> set (dict_values mapping) \<inter> set old = {} \<and>
     set (dict_keys (r_sessions master)) = set old \<union> set (dict_values mapping))"

lemma next_session_fresh: "r_next_session_number r \<notin> set (dict_keys (r_sessions r))"
  using next_free_fresh by (simp add: r_next_session_number_def)

lemma next_session_zero: "r_next_session_number r = 0 \<Longrightarrow> r_sessions r = []"
  using next_free_fresh [of "dict_keys (r_sessions r)" "int (length (r_sessions r))"]
  by (simp add: r_next_session_number_def)

lemma dict_set_new_values: "k \<notin> set (dict_keys d) \<Longrightarrow> dict_values (dict_set d k v) = dict_values d @ [v]"
  by (simp add: dict_set_absent dict_values_def)

lemma merge_one_step:
  assumes "merge_one yaml (master, mapping) im = Inr (master', mapping')" "upload_ok im"
    and "mapping_inv old (master, mapping)" "im_upload_id im \<notin> set (dict_keys mapping)"
  shows "mapping_inv old (master', mapping') \<and>
    dict_keys mapping' = dict_keys mapping @ (if r_is_empty (im_report im) then [] else [im_upload_id im])"
proof (cases "r_is_empty (im_report im)")
  case True
  with assms show ?thesis by (simp add: merge_one_def)
next
  case False
  let ?new = "r_next_session_number master" and ?r = "im_report im"
  from False assms(2) obtain s where s: "r_sessions ?r = [(0, s)]" and wf: "wf_report ?r" by (auto simp: upload_ok_def)
  have m': "mapping' = dict_set mapping (im_upload_id im) ?new"
    using assms(1) False s by (auto simp: merge_one_def first_session_id_def Let_def split: if_splits option.splits)
  have keys: "dict_keys mapping' = dict_keys mapping @ [im_upload_id im]" "dict_values mapping' = dict_values mapping @ [?new]"
    using assms(4) m' by (simp_all add: pd.keys_assign dict_set_new_values)
  have fresh: "?new \<notin> set old" "?new \<notin> set (dict_values mapping)"
    using next_session_fresh [of master] assms(3) by (auto simp: mapping_inv_def)
  have main: "wf_report master' \<and> set (dict_keys (r_sessions master')) = set (dict_keys (r_sessions master)) \<union> {?new}"
  proof (cases "r_is_empty master \<and> 0 = ?new")
    case True
    then have "master' = ?r" "r_sessions master = []"
      using assms(1) False s next_session_zero [of master] by (auto simp: merge_one_def first_session_id_def Let_def)
    with True s wf show ?thesis by (simp add: dict_keys_def)
  next
    case no: False
    from assms(1) False s no obtain r t j t' mm where
      r: "r_change_sessionid ?r 0 ?new = Inr r" and t: "dict_get (r_sessions r) ?new = Some t"
      and add: "r_add_session master t True = Inr (j, t', mm)"
      and merge: "r_merge mm (Some r) (get_joined_flag yaml (flags_or_nil t')) False = Inr master'"
      by (auto simp: merge_one_def first_session_id_def Let_def split: option.splits)
    have "ss_id t = Some ?new" using r t s by (auto simp: r_change_sessionid_def split: option.splits)
    then have "r_sessions mm = dict_set (r_sessions master) ?new t" using add by (auto simp: r_add_session_def)
    moreover have "wf_report mm" using add assms(3) wf_add_session by (auto simp: mapping_inv_def)
    ultimately show ?thesis
      using r_merge_sessions [OF merge] wf_merge [OF _ merge] by (auto simp: pd.keys_assign)
  qed
  with keys fresh assms(3) False show ?thesis by (auto simp: mapping_inv_def)
qed

lemma merge_loop:
  assumes "foldl_res (merge_one yaml) (master, mapping) ims = Inr (master', mapping')" "\<forall>im \<in> set ims. upload_ok im"
    and "mapping_inv old (master, mapping)" "distinct (dict_keys mapping @ map im_upload_id ims)"
  shows "mapping_inv old (master', mapping') \<and>
    dict_keys mapping' = dict_keys mapping @ map im_upload_id (filter (\<lambda>im. \<not> r_is_empty (im_report im)) ims)"
  using assms
proof (induction ims arbitrary: master mapping)
  case Nil
  then show ?case by simp
next
  case (Cons im ims)
  from Cons.prems(1) obtain m1 p1 where st: "merge_one yaml (master, mapping) im = Inr (m1, p1)"
    and rest: "foldl_res (merge_one yaml) (m1, p1) ims = Inr (master', mapping')" by auto
  have ok: "upload_ok im" "im_upload_id im \<notin> set (dict_keys mapping)" using Cons.prems(2,4) by auto
  note step = merge_one_step [OF st ok(1) Cons.prems(3) ok(2)]
  have d: "distinct (dict_keys p1 @ map im_upload_id ims)" using step Cons.prems(4) by auto
  have IH: "mapping_inv old (master', mapping') \<and>
    dict_keys mapping' = dict_keys p1 @ map im_upload_id (filter (\<lambda>im. \<not> r_is_empty (im_report im)) ims)"
    by (rule Cons.IH [OF rest]) (use Cons.prems(2) step d in auto)
  with step show ?case by auto
qed

lemma clear_sessions:
  assumes "clear_carryforward_sessions r flags yaml = Inr (ids, r')" "wf_report r"
  shows "wf_report r' \<and> r_sessions r' = dict_dels (r_sessions r) ids \<and> set ids \<subseteq> set (dict_keys (r_sessions r)) \<and>
    (\<exists>cf. carryforward_flags yaml flags = Inr cf \<and>
      (\<forall>i. i \<in> set ids \<longleftrightarrow> (\<exists>s. dict_get (r_sessions r) i = Some s \<and> carriedforward_by cf s)))"
proof -
  from assms(1) obtain cf where cf: "carryforward_flags yaml flags = Inr cf" by (auto simp: clear_carryforward_sessions_def)
  let ?ids = "map fst (filter (\<lambda>p. carriedforward_by cf (snd p)) (r_sessions r))"
  have mem: "i \<in> set ?ids \<longleftrightarrow> (\<exists>s. dict_get (r_sessions r) i = Some s \<and> carriedforward_by cf s)" for i
    using assms(2) by (intro in_filtered_keys) (simp add: wf_report_def)
  have none: "\<not> carriedforward_by [] s" for s by (simp add: carriedforward_by_def)
  show ?thesis
  proof (cases "cf = [] \<or> ?ids = []")
    case True
    then have "ids = []" "r' = r" using assms(1) cf by (auto simp: clear_carryforward_sessions_def Let_def split: if_splits)
    moreover have "\<forall>i. \<not> (\<exists>s. dict_get (r_sessions r) i = Some s \<and> carriedforward_by cf s)"
      using True mem none by (metis empty_iff list.set(1))
    ultimately show ?thesis using assms(2) cf by (auto simp: dict_dels_def)
  next
    case False
    then have "ids = ?ids" "r_delete_multiple_sessions r ids = Inr r'"
      using assms(1) cf by (auto simp: clear_carryforward_sessions_def Let_def)
    with delete_sessions_files [OF assms(2) this(2)] cf mem show ?thesis by simp
  qed
qed

lemma clear_all:
  assumes "clear_all_carryforward_sessions yaml master ims = Inr (ids, r')" "wf_report master"
  shows "wf_report r' \<and> r_sessions r' = dict_dels (r_sessions master) ids \<and> set ids \<subseteq> set (dict_keys (r_sessions master))"
proof (cases "r_is_empty master")
  case True
  with assms show ?thesis by (auto simp: clear_all_carryforward_sessions_def dict_dels_def)
next
  case False
  with assms(1) obtain fss where fss: "traverse upload_flags ims = Inr fss" by (auto simp: clear_all_carryforward_sessions_def)
  show ?thesis
  proof (cases "remdups (concat fss) = []")
    case True
    with assms False fss show ?thesis by (auto simp: clear_all_carryforward_sessions_def dict_dels_def)
  next
    case ne: False
    then have "clear_carryforward_sessions master (remdups (concat fss)) yaml = Inr (ids, r')"
      using assms(1) False fss unfolding clear_all_carryforward_sessions_def Let_def by (auto simp del: remdups_eq_nil_iff remdups_eq_nil_right_iff concat_eq_Nil_conv)
    from clear_sessions [OF this assms(2)] show ?thesis by blast
  qed
qed

section \<open>Properties\<close>

text \<open>
  C2. Merging the reports of uploads into a master report gives every non-empty upload its own, new
  session: the mapping covers exactly these uploads, its session ids are distinct, were not in use
  in the master report (after the replaced carried-forward sessions were deleted), and together
  with the remaining sessions of the master they are the sessions of the result.
\<close>

theorem merge_reports_sessions:
  assumes "merge_reports yaml master ims = Inr (result, mr)" "wf_report master"
    and "\<forall>im \<in> set ims. upload_ok im" "distinct (map im_upload_id ims)"
  shows "wf_report result \<and>
    dict_keys (mr_session_mapping mr) = map im_upload_id (filter (\<lambda>im. \<not> r_is_empty (im_report im)) ims) \<and>
    distinct (dict_values (mr_session_mapping mr)) \<and>
    set (dict_values (mr_session_mapping mr)) \<inter> (set (dict_keys (r_sessions master)) - set (mr_deleted_sessions mr)) = {} \<and>
    set (dict_keys (r_sessions result)) =
      (set (dict_keys (r_sessions master)) - set (mr_deleted_sessions mr)) \<union> set (dict_values (mr_session_mapping mr))"
proof -
  from assms(1) obtain m1 mapping where
    c: "clear_all_carryforward_sessions yaml master ims = Inr (mr_deleted_sessions mr, m1)"
    and l: "foldl_res (merge_one yaml) (m1, []) ims = Inr (result, mr_session_mapping mr)"
    by (auto simp: merge_reports_def)
  note cl = clear_all [OF c assms(2)]
  let ?old = "dict_keys (r_sessions m1)"
  have old: "set ?old = set (dict_keys (r_sessions master)) - set (mr_deleted_sessions mr)"
    using cl by (auto simp: dict_dels_def pd.keys_dels)
  have "mapping_inv ?old (m1, [])" using cl by (simp add: mapping_inv_def dict_values_def)
  from merge_loop [OF l assms(3) this] assms(4) show ?thesis
    by (auto simp: mapping_inv_def old [symmetric] dict_keys_def [of "[]"])
qed

theorem merge_reports_sessions_witness:
  "\<exists>result mr. merge_reports (JObj []) (report_of [(0, plain_session 0)] [one_line_file ''a.py'' 0 1])
       [\<lparr>im_upload_id = 7, im_report = report_of [(0, plain_session 0)] [one_line_file ''b.py'' 0 1]\<rparr>] = Inr (result, mr) \<and>
     set (dict_keys (r_sessions result)) = {0, 1}"
proof -
  let ?m = "report_of [(0, plain_session 0)] [one_line_file ''a.py'' 0 1]"
  let ?r = "report_of [(0, plain_session 0)] [one_line_file ''b.py'' 0 1]"
  let ?im = "\<lparr>im_upload_id = 7, im_report = ?r\<rparr>"
  have wf: "wf_report ?m" "wf_report ?r" by (simp_all add: wf_report_def report_of_def wf_dict_def)
  have ok: "\<forall>im \<in> set [?im]. upload_ok im" using wf by (simp add: upload_ok_def report_of_def)
  have n: "r_next_session_number ?m = 1" by (simp add: r_next_session_number_def report_of_def dict_keys_def next_free.simps)
  have len: "rf_len (renumber_file 0 1 (one_line_file ''b.py'' 0 1)) = 1"
    by (simp add: rf_len_def renumber_file_def)
  have name: "rf_name (renumber_file 0 1 (one_line_file ''b.py'' 0 1)) = ''b.py''" by (simp add: renumber_file_def)
  have "\<exists>result mr. merge_reports (JObj []) ?m [?im] = Inr (result, mr)"
    using n len name
    by (simp add: merge_reports_def clear_all_carryforward_sessions_def upload_flags_def r_is_empty_def report_of_def flags_or_nil_def
        plain_session_def merge_one_def first_session_id_def r_change_sessionid_def dict_get_def dict_del_def r_add_session_def
        r_merge_def r_file_list_def dict_values_def r_merge_file_def r_append_def dict_map_def r_invalidate_caches_def Let_def)
  then obtain result mr where m: "merge_reports (JObj []) ?m [?im] = Inr (result, mr)" by blast
  from m have "mr_deleted_sessions mr = []"
    by (auto simp: merge_reports_def clear_all_carryforward_sessions_def upload_flags_def r_is_empty_def report_of_def flags_or_nil_def plain_session_def Let_def)
  moreover have "mr_session_mapping mr = [(7, 1)]"
    using m n by (auto simp: merge_reports_def clear_all_carryforward_sessions_def upload_flags_def r_is_empty_def report_of_def flags_or_nil_def
        plain_session_def merge_one_def first_session_id_def Let_def)
  ultimately show ?thesis using merge_reports_sessions [OF m wf(1) ok] m by (auto simp: report_of_def dict_keys_def dict_values_def)
qed

end
