(* ===== verification/Upload_Processing.thy ===== *)
theory Upload_Processing
  imports Languages_Xml Merging
begin

text \<open>
  Processing an upload: recognising the format of every uploaded file and running its processor
  (apps/worker/services/report/report_processor.py), and building one report out of all files of an
  upload (raw_upload_processor.py). The decoders of JSON, XML and property lists and the library of
  dates are arguments.
\<close>

section \<open>Recognising and processing one file\<close>

datatype parsed_report = PTxt string | PPlist string | PJson json | PXml xml

text \<open>
  A processor for reports of type \<open>'c\<close>: its test (given the report, the first line and the name) and its
  translation. Raising \<open>CorruptRawReportError\<close> means that the file is skipped.
\<close>

type_synonym ('c, 'f) processor =
  "('c \<Rightarrow> string \<Rightarrow> string \<Rightarrow> bool res) \<times> ('f report_builder \<Rightarrow> 'f builder_session \<Rightarrow> 'c \<Rightarrow> 'f builder_session res)"

record report_libs =
  rl_codec :: codec
  rl_loads :: "string \<Rightarrow> json res"
  rl_dumps :: "json \<Rightarrow> string"
  rl_parse_xml :: "string \<Rightarrow> xml option"
  rl_plist_loads :: "string \<Rightarrow> json res"
  rl_dates :: date_lib

text \<open>\<open>rl_parse_xml\<close> gives a tree with children, or nothing.\<close>

definition report_type_matching :: "report_libs \<Rightarrow> uploaded_file \<Rightarrow> string \<Rightarrow> parsed_report res" where
  "report_type_matching libs file first_line =
     (let name = (case uf_filename file of None \<Rightarrow> [] | Some n \<Rightarrow> n); raw = uf_contents file
      in if (\<exists>e \<in> set xcode_endings. endswith first_line e) \<or> (\<exists>e \<in> set xcode_names. endswith name e) then Inr (PTxt raw)
         else if contains raw plist_tag \<or> endswith name ''.plist'' then Inr (PPlist raw)
         else if raw = [] then Inr (PTxt raw)
         else
           (case rl_loads libs raw of
              Inr (JObj kvs) \<Rightarrow> Inr (PJson (JObj kvs))
            | Inr (JList xs) \<Rightarrow> Inr (PJson (JList xs))
            | r \<Rightarrow>
                (case r of
                   Inl e \<Rightarrow> if e = ValueError then Inr (case rl_parse_xml libs raw of Some x \<Rightarrow> PXml x | None \<Rightarrow> PTxt raw) else Inl e
                 | Inr _ \<Rightarrow> Inr (case rl_parse_xml libs raw of Some x \<Rightarrow> PXml x | None \<Rightarrow> PTxt raw))))"

definition txt_processors :: "report_libs \<Rightarrow> (string, 'f) processor list" where
  "txt_processors libs =
     [(\<lambda>c first name. Inr (lcov_matches c), lcov_from_txt (rl_codec libs)),
      (\<lambda>c first name. Inr (gcov_matches c), gcov_from_txt (rl_codec libs)),
      (\<lambda>c first name. Inr (lua_matches c), lua_from_txt (rl_codec libs)),
      (\<lambda>c first name. gap_matches (rl_loads libs) None first, gap_from_string (rl_loads libs) (rl_codec libs)),
      (\<lambda>c first name. Inr (dlst_matches c), dlst_from_string (rl_codec libs)),
      (\<lambda>c first name. Inr (go_matches c first), go_from_txt (rl_codec libs)),
      (\<lambda>c first name. Inr (xcode_matches first name), xcode_from_txt (rl_codec libs))]"

definition json_processors :: "report_libs \<Rightarrow> (json, 'f) processor list" where
  "json_processors libs =
     [(\<lambda>c first name. salesforce_matches c, salesforce_from_json),
      (\<lambda>c first name. elm_matches c, elm_from_json),
      (\<lambda>c first name. rlang_matches c, rlang_from_json),
      (\<lambda>c first name. flowcover_matches c, flowcover_from_json),
      (\<lambda>c first name. vone_matches c, vone_process),
      (\<lambda>c first name. scala_matches c, scala_from_json),
      (\<lambda>c first name. coveralls_matches c, coveralls_from_json (rl_loads libs)),
      (\<lambda>c first name. simplecov_matches c, simplecov_from_json),
      (\<lambda>c first name. gap_matches (rl_loads libs) (Some c) first, gap_process_json (rl_loads libs) (rl_dumps libs) (rl_codec libs)),
      (\<lambda>c first name. pycoverage_matches c, pycoverage_process),
      (\<lambda>c first name. node_matches c, node_from_json)]"

definition xml_processors :: "report_libs \<Rightarrow> (xml, 'f) processor list" where
  "xml_processors libs =
     [(\<lambda>c first name. Inr (bullseye_matches c), bullseye_from_xml (rl_dates libs)),
      (\<lambda>c first name. Inr (scoverage_matches c), scoverage_from_xml),
      (\<lambda>c first name. Inr (jetbrains_matches c), jetbrains_from_xml),
      (\<lambda>c first name. Inr (clover_matches c), clover_from_xml (rl_dates libs)),
      (\<lambda>c first name. Inr (mono_matches c), mono_from_xml),
      (\<lambda>c first name. Inr (csharp_matches c), csharp_from_xml),
      (\<lambda>c first name. Inr (jacoco_matches c), jacoco_from_xml (rl_dates libs)),
      (\<lambda>c first name. Inr (vb_matches c), vb_from_xml),
      (\<lambda>c first name. Inr (vb2_matches c), vb2_from_xml),
      (\<lambda>c first name. Inr (cobertura_matches c), cobertura_from_xml (rl_dates libs))]"

definition plist_processors :: "report_libs \<Rightarrow> (string, 'f) processor list" where
  "plist_processors libs = [(\<lambda>c first name. Inr (xcodeplist_matches c name), xcodeplist_from_xml (rl_plist_loads libs))]"

text \<open>
  The first processor that accepts the file. Of a corrupt report nothing is kept; the model also
  forgets what it did to the tree of the path fixer.
\<close>

fun run_processors ::
  "('c, 'f) processor list \<Rightarrow> 'c \<Rightarrow> string \<Rightarrow> string \<Rightarrow> 'f report_builder \<Rightarrow> 'f \<Rightarrow> (report option \<times> 'f) res" where
  "run_processors [] c first name bu f = Inr (None, f)"
| "run_processors ((accepts, process) # ps) c first name bu f =
     bind_res (accepts c first name) (\<lambda>b.
       if b then
         (case process bu (create_report_builder_session name f) c of
            Inr st \<Rightarrow> Inr (Some (bs_report st), bs_fixer st)
          | Inl e \<Rightarrow> if e = CorruptRawReportError then Inr (None, f) else Inl e)
       else run_processors ps c first name bu f)"

definition process_report :: "report_libs \<Rightarrow> uploaded_file \<Rightarrow> 'f report_builder \<Rightarrow> 'f \<Rightarrow> (report option \<times> 'f) res" where
  "process_report libs file bu f =
     (let name = (case uf_filename file of None \<Rightarrow> [] | Some n \<Rightarrow> n);
          first = remove_non_ascii (decode_replace (rl_codec libs) (get_first_line file));
          raw = uf_contents file
      in if contains raw ''<classycle '' \<and> contains raw ''</classycle>'' then Inr (None, f)
         else
           bind_res (report_type_matching libs file first) (\<lambda>parsed.
             case parsed of
               PPlist s \<Rightarrow> run_processors (plist_processors libs) s first name bu f
             | PXml x \<Rightarrow> run_processors (xml_processors libs) x first name bu f
             | PTxt s \<Rightarrow> if last_n 11 s = ''has no code'' then Inr (None, f) else run_processors (txt_processors libs) s first name bu f
             | PJson j \<Rightarrow> if j_truthy j then run_processors (json_processors libs) j first name bu f else Inr (None, f)))"

section \<open>Processing an upload\<close>

definition session_env :: "string \<Rightarrow> json" where
  "session_env env =
     JObj (dict_of (map (\<lambda>(k, v). (k, JStr v)) (somes (map (split_once (CHR ''='')) (split_all newline env)))))"

definition skip_files :: "uploaded_file list \<Rightarrow> string list" where
  "skip_files files = (if \<exists>f \<in> set files. uf_filename f = Some ''coverage/coverage.json'' then [''coverage/coverage.lcov''] else [])"

text \<open>
  One uploaded file: its report becomes the report of the upload, or the smaller of the two is
  merged into the larger one. The original path fixer is shared between the files.
\<close>

definition process_file ::
  "report_libs \<Rightarrow> path_env \<Rightarrow> (string \<Rightarrow> string) \<Rightarrow> json \<Rightarrow> (string option, fix_entry) dict \<Rightarrow> string list \<Rightarrow>
   report \<times> path_fixer \<Rightarrow> uploaded_file \<Rightarrow> (report \<times> path_fixer) res" where
  "process_file libs env win_parent yaml ignored_lines skip s file =
     (case s of (r, pf) \<Rightarrow>
        if (case uf_filename file of None \<Rightarrow> False | Some n \<Rightarrow> n \<in> set skip) \<or> uf_contents file = [] then Inr (r, pf)
        else
          let bu = \<lparr>bu_yaml = yaml, bu_sessionid = 0, bu_ignored = ignored_lines, bu_fix = fix_path env\<rparr>
          in bind_res (process_report libs file bu (BasePathAwarePathFixer win_parent pf (uf_filename file))) (\<lambda>(res, bf).
               let pf' = bf_original bf
               in case res of
                    None \<Rightarrow> Inr (r, pf')
                  | Some new \<Rightarrow>
                      if r_is_empty new then Inr (r, pf')
                      else if r_is_empty r then Inr (new, pf')
                      else if length (r_files new) > length (r_files r) then map_res (\<lambda>m. (m, pf')) (r_merge new (Some r) True False)
                      else map_res (\<lambda>m. (m, pf')) (r_merge r (Some new) True False)))"

definition set_env :: "codec \<Rightarrow> parsed_upload \<Rightarrow> session \<Rightarrow> session" where
  "set_env cd pu s = (case pu_env pu of None \<Rightarrow> s | Some e \<Rightarrow> s\<lparr>ss_env := session_env (decode_replace cd e)\<rparr>)"

definition upload_fixes :: "codec \<Rightarrow> path_env \<Rightarrow> parsed_upload \<Rightarrow> path_fixer \<Rightarrow> ((string option, fix_entry) dict \<times> path_fixer) res" where
  "upload_fixes cd env pu pf =
     (case pu_fixes pu of None \<Rightarrow> Inr ([], pf) | Some t \<Rightarrow> get_fixes_from_raw (clean_path env) pf (decode_replace cd t))"

text \<open>The session is stored in the report, so its totals are set there, too.\<close>

definition finish_upload :: "report \<Rightarrow> session \<Rightarrow> report res" where
  "finish_upload r s =
     (if r_is_empty r then Inl ReportEmptyError
      else
        bind_res (r_add_session r s True) (\<lambda>(sid, s', r1).
        bind_res (r_total r1) (\<lambda>t.
          Inr (r1\<lparr>r_totals := Some t, r_sessions := dict_set (r_sessions r1) sid (s'\<lparr>ss_totals := Some t\<rparr>)\<rparr>))))"

definition process_raw_upload ::
  "report_libs \<Rightarrow> path_env \<Rightarrow> (string \<Rightarrow> string) \<Rightarrow> json \<Rightarrow> parsed_upload \<Rightarrow> session \<Rightarrow> report res" where
  "process_raw_upload libs env win_parent yaml pu sess =
     (let cd = rl_codec libs
      in bind_res (case pu_toc pu of None \<Rightarrow> Inr [] | Some _ \<Rightarrow> get_toc cd pu) (\<lambda>toc.
         bind_res (init_from_user_yaml yaml toc (ss_flags sess) []) (\<lambda>pf.
         bind_res (upload_fixes cd env pu pf) (\<lambda>(ignored_lines, pf1).
         bind_res (foldl_res (process_file libs env win_parent yaml ignored_lines (skip_files (pu_files pu))) (empty_report, pf1) (pu_files pu)) (\<lambda>(r, _).
           finish_upload r ((set_env cd pu sess)\<lparr>ss_id := Some (r_next_session_number empty_report)\<rparr>))))))"

section \<open>Lemmas\<close>

lemma add_fix_line_fixer [simp]: "fx_fixer (add_fix_line n st) = fx_fixer st"
  by (simp add: add_fix_line_def split: option.split)

lemma add_fix_lines_fixer [simp]: "fx_fixer (add_fix_lines st sps) = fx_fixer st"
  by (induction sps arbitrary: st) (simp_all split: option.split sum.split)

lemma add_long_comment_fixer: "add_long_comment st n b = Some st' \<Longrightarrow> fx_fixer st' = fx_fixer st"
  by (auto simp: add_long_comment_def Let_def split: option.splits prod.splits)

lemma fixes_source_line_fixer [simp]: "fx_fixer (fixes_source_line st l src) = fx_fixer st"
  by (simp add: fixes_source_line_def Let_def add_long_comment_fixer split: sum.split option.split)

text \<open>Reading the fixes only asks the path fixer.\<close>

lemma enter_file_fixer:
  assumes "fixer_ok fix J W" "J (fx_fixer st)"
  shows "J (fx_fixer (snd (enter_file fix st filename)))"
proof -
  have "J f" if "fix (fx_fixer st) filename = Inr (k, f)" for k f
    using assms that unfolding fixer_ok_def by blast
  with assms(2) show ?thesis by (simp add: enter_file_def Let_def split: sum.split option.split)
qed

lemma fixes_eof_fixer:
  assumes "fixer_ok fix J W" "J (fx_fixer st)"
  shows "J (fx_fixer (fixes_eof fix st line))"
proof -
  have "J f" if "fix (fx_fixer st) filename = Inr (k, f)" for filename k f
    using assms that unfolding fixer_ok_def by blast
  with assms(2) show ?thesis by (simp add: fixes_eof_def Let_def split: sum.split list.split)
qed

lemma fixes_line_fixer:
  assumes "fixer_ok fix J W" "J (fx_fixer st)"
  shows "J (fx_fixer (fixes_line fix st line))"
proof -
  have "J (fx_fixer st')" if "enter_file fix st filename = (b, st')" for filename b st'
    using enter_file_fixer [OF assms, of filename] that by simp
  with assms(2) fixes_eof_fixer [OF assms] show ?thesis
    by (simp add: fixes_line_def split: option.split prod.split bool.split)
qed

lemma get_fixes_fixer:
  assumes "get_fixes_from_raw fix f content = Inr (ig, f')" "fixer_ok fix J W" "J f"
  shows "J f'"
proof -
  have "J (fx_fixer (foldl (fixes_line fix) st ls))" if "J (fx_fixer st)" for st ls
    using that by (induction ls arbitrary: st) (simp_all add: fixes_line_fixer [OF assms(2)])
  with assms(1,3) show ?thesis by (auto simp: get_fixes_from_raw_def Let_def)
qed

text \<open>The path fixers keep the invariants of \<open>Path_Fixer\<close>.\<close>

definition fixer_of :: "path_fixer \<Rightarrow> path_fixer \<Rightarrow> bool" where
  "fixer_of pf pf' \<longleftrightarrow> pf_ok pf' \<and> same_fixer pf pf'"

lemma clean_path_fixer: "fixer_ok (clean_path env) (fixer_of pf) (good_path env pf)"
  unfolding fixer_ok_def fixer_of_def
  by (auto dest!: clean_path_ok intro: same_fixer_trans simp: good_path_same)

lemma fix_path_fixer: "fixers_ok (fix_path env) (bf_ok env pf) (good_path env pf)"
  unfolding fixers_ok_def fixer_ok_def using fix_path_ok by blast

lemmas all_processors =
  lcov.language_processor_axioms gcov.language_processor_axioms lua.language_processor_axioms
  gap.language_processor_axioms dlst.language_processor_axioms go.language_processor_axioms
  xcode.language_processor_axioms salesforce.language_processor_axioms elm.language_processor_axioms
  rlang.language_processor_axioms flowcover.language_processor_axioms vone.language_processor_axioms
  scala.language_processor_axioms coveralls.language_processor_axioms simplecov.language_processor_axioms
  gap_json.language_processor_axioms pycoverage.language_processor_axioms node.language_processor_axioms
  bullseye.language_processor_axioms scoverage.language_processor_axioms jetbrains.language_processor_axioms
  clover.language_processor_axioms mono.language_processor_axioms csharp.language_processor_axioms
  jacoco.language_processor_axioms vb.language_processor_axioms vb2.language_processor_axioms
  cobertura.language_processor_axioms xcodeplist.language_processor_axioms

lemma txt_processors_ok: "\<forall>p \<in> set (txt_processors libs). language_processor (snd p)"
  by (simp add: txt_processors_def all_processors)

lemma json_processors_ok: "\<forall>p \<in> set (json_processors libs). language_processor (snd p)"
  by (simp add: json_processors_def all_processors)

lemma xml_processors_ok: "\<forall>p \<in> set (xml_processors libs). language_processor (snd p)"
  by (simp add: xml_processors_def all_processors)

lemma plist_processors_ok: "\<forall>p \<in> set (plist_processors libs). language_processor (snd p)"
  by (simp add: plist_processors_def all_processors)

lemma run_processors_built:
  "run_processors ps c first name bu f = Inr (res, f') \<Longrightarrow> \<forall>p \<in> set ps. language_processor (snd p) \<Longrightarrow>
   fixers_ok (bu_fix bu) J W \<Longrightarrow> J f \<Longrightarrow>
   J f' \<and> (\<forall>r. res = Some r \<longrightarrow> (\<exists>st. building bu J W st \<and> bs_report st = r))"
proof (induction ps)
  case (Cons p ps)
  obtain accepts process where p: "p = (accepts, process)" by (cases p)
  from Cons.prems(1) p obtain b where b: "accepts c first name = Inr b" by auto
  show ?case
  proof (cases b)
    case False
    with Cons b p show ?thesis by simp
  next
    case True
    have "building bu J W st" if "process bu (create_report_builder_session name f) c = Inr st" for st
      using language_processor.built_report [of process bu name f c st J W] that Cons.prems p by simp
    with Cons.prems(1,4) b True p show ?thesis
      by (auto simp: building_def split: sum.splits if_splits)
  qed
qed simp

text \<open>What the processors that are not modelled have to satisfy.\<close>

lemma process_report_built:
  assumes "process_report libs y bu f = Inr (res, f')" "fixers_ok (bu_fix bu) J W" "J f"
  shows "J f' \<and> (\<forall>r. res = Some r \<longrightarrow> (\<exists>st. building bu J W st \<and> bs_report st = r))"
proof (cases "contains (uf_contents y) ''<classycle '' \<and> contains (uf_contents y) ''</classycle>''")
  case True
  with assms(1,3) show ?thesis by (auto simp: process_report_def)
next
  case False
  let ?first = "remove_non_ascii (decode_replace (rl_codec libs) (get_first_line y))"
  let ?name = "case uf_filename y of None \<Rightarrow> [] | Some n \<Rightarrow> n"
  from False assms(1) obtain parsed where m: "report_type_matching libs y ?first = Inr parsed"
    by (auto simp: process_report_def Let_def)
  note run = run_processors_built [OF _ _ assms(2,3)]
  note e = assms(1) [unfolded process_report_def Let_def if_not_P [OF False] m bind_res_simps]
  show ?thesis
  proof (cases parsed)
    case (PTxt s)
    with e have "res = None \<and> f' = f \<or> run_processors (txt_processors libs) s ?first ?name bu f = Inr (res, f')"
      by (auto split: if_splits)
    then show ?thesis by (elim disjE) (use assms(3) in simp, rule run [OF _ txt_processors_ok])
  next
    case (PJson s)
    with e have "res = None \<and> f' = f \<or> run_processors (json_processors libs) s ?first ?name bu f = Inr (res, f')"
      by (auto split: if_splits)
    then show ?thesis by (elim disjE) (use assms(3) in simp, rule run [OF _ json_processors_ok])
  next
    case (PPlist s)
    with e have "run_processors (plist_processors libs) s ?first ?name bu f = Inr (res, f')" by simp
    then show ?thesis by (rule run [OF _ plist_processors_ok])
  next
    case (PXml s)
    with e have "run_processors (xml_processors libs) s ?first ?name bu f = Inr (res, f')" by simp
    then show ?thesis by (rule run [OF _ xml_processors_ok])
  qed
qed

text \<open>The report of the files so far, and the shared path fixer.\<close>

definition collected :: "path_env \<Rightarrow> path_fixer \<Rightarrow> report \<times> path_fixer \<Rightarrow> bool" where
  "collected env pf s \<longleftrightarrow> wf_report (fst s) \<and> r_sessions (fst s) = [] \<and> fixer_of pf (snd s) \<and>
     (\<forall>f \<in> set (dict_values (r_files (fst s))). file_of_session 0 (good_path env pf) f)"

lemma merge_files_of_session:
  assumes "r_merge r (Some n) j d = Inr r'" "\<forall>f \<in> set (dict_values (r_files r)). file_of_session i W f"
    and "\<forall>f \<in> set (dict_values (r_files n)). file_of_session i W f"
  shows "\<forall>f \<in> set (dict_values (r_files r')). file_of_session i W f"
proof -
  have "\<forall>f \<in> set (dict_values (r_files r')). file_of_session i W f"
    if "foldl_res (r_merge_file j d) r fs = Inr r'" "\<forall>f \<in> set fs. file_of_session i W f" "\<forall>f \<in> set (dict_values (r_files r)). file_of_session i W f" for fs r
    using that
  proof (induction fs arbitrary: r)
    case (Cons f fs)
    from Cons.prems(1) obtain r1 where r1: "r_merge_file j d r f = Inr r1" "foldl_res (r_merge_file j d) r1 fs = Inr r'" by auto
    have "\<forall>f \<in> set (dict_values (r_files r1)). file_of_session i W f"
      using r1(1) Cons.prems(2,3) append_files_of_session [of r f j d _ r1 i W] by (auto simp: r_merge_file_def split: if_splits)
    with Cons.IH [OF r1(2)] Cons.prems(2) show ?case by simp
  qed simp
  with assms show ?thesis by (auto simp: r_merge_def r_file_list_def split: if_splits)
qed

lemma process_file_collected:
  assumes "process_file libs env wp yaml ig skip s y = Inr s'" "collected env pf s"
  shows "collected env pf s'"
proof (cases "(case uf_filename y of None \<Rightarrow> False | Some n \<Rightarrow> n \<in> set skip) \<or> uf_contents y = []")
  case True
  with assms show ?thesis by (cases s) (simp add: process_file_def)
next
  case False
  obtain r pf0 where s: "s = (r, pf0)" by (cases s)
  let ?bu = "\<lparr>bu_yaml = yaml, bu_sessionid = 0, bu_ignored = ig, bu_fix = fix_path env\<rparr>"
  let ?bf = "BasePathAwarePathFixer wp pf0 (uf_filename y)"
  note e = assms(1) [unfolded process_file_def s prod.case Let_def if_not_P [OF False]]
  from e obtain res bf where p: "process_report libs y ?bu ?bf = Inr (res, bf)" by auto
  have "bf_ok env pf ?bf"
    using assms(2) s by (simp add: collected_def fixer_of_def bf_ok_def BasePathAwarePathFixer_def)
  with process_report_built [OF p, of "bf_ok env pf" "good_path env pf"]
  have b: "bf_ok env pf bf" "\<forall>n. res = Some n \<longrightarrow> (\<exists>st. building ?bu (bf_ok env pf) (good_path env pf) st \<and> bs_report st = n)"
    by (simp_all add: fix_path_fixer)
  have pf': "fixer_of pf (bf_original bf)" using b(1) by (simp add: bf_ok_def fixer_of_def)
  show ?thesis
  proof (cases res)
    case None
    with e p have "s' = (r, bf_original bf)" by simp
    with assms(2) s pf' show ?thesis by (simp add: collected_def)
  next
    case (Some n)
    with b(2) have n: "collected env pf (n, bf_original bf)" using pf' by (auto simp: collected_def building_def)
    have r: "collected env pf (r, bf_original bf)" using assms(2) s pf' by (simp add: collected_def)
    have m: "collected env pf (x, bf_original bf)" if "r_merge u (Some v) True False = Inr x" "collected env pf (u, bf_original bf)" "collected env pf (v, bf_original bf)" for u v x
      using that(2,3) wf_merge [OF _ that(1)] r_merge_sessions [OF that(1)] merge_files_of_session [OF that(1), of 0 "good_path env pf"]
      unfolding collected_def fst_conv snd_conv by simp
    from e p Some consider "s' = (r, bf_original bf)" | "s' = (n, bf_original bf)"
      | x where "r_merge n (Some r) True False = Inr x" "s' = (x, bf_original bf)"
      | x where "r_merge r (Some n) True False = Inr x" "s' = (x, bf_original bf)"
      by (auto split: if_splits)
    then show ?thesis by cases (use n r m in auto)
  qed
qed

lemma finish_upload_session:
  assumes "finish_upload r s = Inr r'" "wf_report r" "r_sessions r = []" "ss_id s = Some 0"
  shows "wf_report r' \<and> \<not> r_is_empty r' \<and> r_files r' = r_files r \<and>
    (\<exists>t. r_totals r' = Some t \<and> r_sessions r' = [(0, s\<lparr>ss_totals := Some t\<rparr>)])"
  using assms by (auto simp: finish_upload_def r_add_session_def wf_report_def r_is_empty_def wf_dict_def split: if_splits)

text \<open>
  C3. The report that an upload is turned into, for the text, JSON, XML and property list formats: exactly one session,
  numbered 0, whose totals are the totals of the report; at least one file; in every line of every
  file only this session; and only paths that the configuration admits and, if the upload lists
  the files of the repository and the configuration has no path fixes, only files of the
  repository. Such a report is what the merging of the reports of a commit expects.
\<close>

theorem processed_upload:
  assumes "process_raw_upload libs env wp yaml pu sess = Inr r"
  shows "wf_report r \<and> \<not> r_is_empty r \<and>
    (\<exists>s t. r_sessions r = [(0, s)] \<and> ss_id s = Some 0 \<and> ss_flags s = ss_flags sess \<and> ss_totals s = Some t \<and> r_totals r = Some t) \<and>
    (\<exists>toc pf. (case pu_toc pu of None \<Rightarrow> toc = [] | Some _ \<Rightarrow> get_toc (rl_codec libs) pu = Inr toc) \<and>
      init_from_user_yaml yaml toc (ss_flags sess) [] = Inr pf \<and>
      (\<forall>f \<in> set (r_file_list r). session_ids_in (rf_lines f) \<subseteq> {0} \<and> path_included env (pf_matcher pf) (rf_name f) \<and>
         (pf_yaml_fixes pf = [] \<and> pf_tree pf \<noteq> None \<longrightarrow> rf_name f \<in> set toc)))"
proof -
  let ?cd = "rl_codec libs"
  let ?sess = "(set_env ?cd pu sess)\<lparr>ss_id := Some (r_next_session_number empty_report)\<rparr>"
  from assms obtain toc pf ig pf1 r0 pf2 where toc: "(case pu_toc pu of None \<Rightarrow> Inr [] | Some _ \<Rightarrow> get_toc ?cd pu) = Inr toc"
    and pf: "init_from_user_yaml yaml toc (ss_flags sess) [] = Inr pf"
    and fx: "upload_fixes ?cd env pu pf = Inr (ig, pf1)"
    and loop: "foldl_res (process_file libs env wp yaml ig (skip_files (pu_files pu))) (empty_report, pf1) (pu_files pu) = Inr (r0, pf2)"
    and fin: "finish_upload r0 ?sess = Inr r"
    by (auto simp: process_raw_upload_def Let_def)
  have pf0: "fixer_of pf pf" "pf_toc pf = toc" using init_ok [OF pf] by (simp_all add: fixer_of_def)
  then have "fixer_of pf pf1"
    using fx get_fixes_fixer [OF _ clean_path_fixer] by (auto simp: upload_fixes_def split: option.splits)
  then have "collected env pf (empty_report, pf1)"
    by (simp add: collected_def wf_report_def empty_report_def dict_values_def wf_dict_def)
  with loop have c: "collected env pf (r0, pf2)"
    by (rule foldl_res_invariant) (rule process_file_collected)
  have sid: "ss_id ?sess = Some 0" "ss_flags ?sess = ss_flags sess"
    by (simp_all add: r_next_session_number_def empty_report_def next_free.simps dict_keys_def set_env_def split: option.split)
  from c finish_upload_session [OF fin _ _ sid(1)] sid have
    "wf_report r \<and> \<not> r_is_empty r \<and> r_files r = r_files r0"
    "\<exists>s t. r_sessions r = [(0, s)] \<and> ss_id s = Some 0 \<and> ss_flags s = ss_flags sess \<and> ss_totals s = Some t \<and> r_totals r = Some t"
    by (auto simp: collected_def)
  moreover from c have "\<forall>f \<in> set (dict_values (r_files r0)). session_ids_in (rf_lines f) \<subseteq> {0} \<and> good_path env pf (rf_name f)"
    by (simp add: collected_def file_of_session_def)
  ultimately show ?thesis using toc pf pf0(2)
    by (intro conjI exI [of _ toc] exI [of _ pf]) (auto simp: good_path_def r_file_list_def split: option.splits)
qed

text \<open>Libraries for two concrete reports: one line of LCOV and a Cobertura document with one class.\<close>

definition sample_libs :: report_libs where
  "sample_libs =
     \<lparr>rl_codec = \<lparr>decode_strict = Inr, decode_replace = (\<lambda>s. s)\<rparr>, rl_loads = (\<lambda>_. Inl ValueError), rl_dumps = (\<lambda>_. []),
      rl_parse_xml = (\<lambda>s. if startswith s ''<'' then
          Some (Element ''coverage'' [] None
            [Element ''class'' [(''filename'', ''a.py'')] None [Element ''line'' [(''number'', ''2''), (''hits'', ''1'')] None []]])
        else None),
      rl_plist_loads = (\<lambda>_. Inl ValueError),
      rl_dates = \<lparr>da_date = (\<lambda>_. Inl TimestringInvalid), da_before = (\<lambda>_ _. Inr False)\<rparr>\<rparr>"

definition sample_upload :: parsed_upload where
  "sample_upload = \<lparr>pu_toc = Some ''a.py'', pu_env = None, pu_files =
     [\<lparr>uf_filename = Some ''c'', uf_contents = ''SF:a.py'' @ [newline] @ ''DA:1,3'' @ [newline] @ ''end_of_record'' @ [newline],
        uf_labels = None\<rparr>,
      \<lparr>uf_filename = Some ''d.xml'', uf_contents = ''<coverage/>'', uf_labels = None\<rparr>], pu_fixes = None\<rparr>"

theorem processed_upload_witness:
  "\<exists>r. process_raw_upload sample_libs no_regex (\<lambda>s. s) (JObj []) sample_upload (plain_session 7) = Inr r \<and>
     (\<exists>s. r_sessions r = [(0, s)]) \<and> (\<forall>f \<in> set (r_file_list r). session_ids_in (rf_lines f) \<subseteq> {0}) \<and>
     map (\<lambda>f. (rf_name f, length (rf_lines f))) (r_file_list r) = [(''a.py'', 2)]"
proof -
  let ?p = "process_raw_upload sample_libs no_regex (\<lambda>s. s) (JObj []) sample_upload (plain_session 7)"
  let ?q = "\<lambda>r. map (\<lambda>f. (rf_name f, length (rf_lines f))) (r_file_list r)"
  have m: "map_res ?q ?p = Inr [(''a.py'', 2)]" by code_simp
  then obtain r where r: "?p = Inr r" by (cases ?p) (simp_all only: map_res_simps, simp)
  from m have "?q r = [(''a.py'', 2)]" unfolding r by simp
  moreover from processed_upload [OF r] have "\<exists>s. r_sessions r = [(0, s)]" "\<forall>f \<in> set (r_file_list r). session_ids_in (rf_lines f) \<subseteq> {0}"
    by blast+
  ultimately show ?thesis using r by (intro exI [where x = r] conjI)
qed

end
