(* ===== verification/Processing_State.thy ===== *)
theory Processing_State
  imports Prelude
begin

text \<open>
  The processing state of a commit (apps/worker/services/processing/state.py): two Redis sets of
  upload ids, and the decisions taken from their sizes. Redis is a service: its commands are a
  record of functions on a database, and the locale \<open>redis_sets\<close> says what the code relies on.
  A step relation interleaves the tasks that work on the state (tasks/upload.py,
  services/processing/processing.py, tasks/upload_finisher.py): receiving a batch of uploads,
  starting the processing task of an upload (again), marking it as processed, clearing uploads after an error, and the finisher of a batch, which
  merges, and later reads the sizes and decides whether to start the postprocessing.
\<close>

section \<open>Redis\<close>

record 'db redis =
  sadd :: "string \<Rightarrow> int list \<Rightarrow> 'db \<Rightarrow> 'db"
  srem :: "string \<Rightarrow> int list \<Rightarrow> 'db \<Rightarrow> int \<times> 'db"
  smove :: "string \<Rightarrow> string \<Rightarrow> int \<Rightarrow> 'db \<Rightarrow> bool \<times> 'db"
  scard :: "string \<Rightarrow> 'db \<Rightarrow> int"
  srandmember :: "string \<Rightarrow> int \<Rightarrow> 'db \<Rightarrow> int list"

locale redis_sets =
  fixes R :: "'db redis" and members :: "string \<Rightarrow> 'db \<Rightarrow> int set"
  assumes sadd_members: "members k (sadd R k' ids db) = (if k = k' then members k db \<union> set ids else members k db)"
    and srem_members: "members k (snd (srem R k' ids db)) = (if k = k' then members k db - set ids else members k db)"
    and smove_result: "fst (smove R src dst i db) \<longleftrightarrow> i \<in> members src db"
    and smove_members: "src \<noteq> dst \<Longrightarrow> members k (snd (smove R src dst i db)) =
      (if i \<in> members src db
       then (if k = src then members k db - {i} else if k = dst then members k db \<union> {i} else members k db)
       else members k db)"
    and scard_members: "scard R k db = int (card (members k db))"
    and finite_members: "finite (members k db)"
    and srandmember_members: "set (srandmember R k n db) \<subseteq> members k db"
      "0 \<le> n \<Longrightarrow> card (set (srandmember R k n db)) = min (nat n) (card (members k db))"

section \<open>The state and its operations\<close>

definition MERGE_BATCH_SIZE :: int where
  "MERGE_BATCH_SIZE = 10"

record upload_numbers =
  un_processing :: int
  un_processed :: int

definition should_perform_merge :: "upload_numbers \<Rightarrow> bool" where
  "should_perform_merge u \<longleftrightarrow> un_processing u = 0 \<or> un_processed u \<ge> MERGE_BATCH_SIZE"

definition should_trigger_postprocessing :: "upload_numbers \<Rightarrow> bool" where
  "should_trigger_postprocessing u \<longleftrightarrow> un_processing u = 0 \<and> un_processed u = 0"

record processing_state =
  ps_repoid :: int
  ps_commitsha :: string

definition redis_key :: "processing_state \<Rightarrow> string \<Rightarrow> string" where
  "redis_key ps st =
     ''upload-processing-state/'' @ int_str (ps_repoid ps) @ ''/'' @ ps_commitsha ps @ ''/'' @ st"

definition get_upload_numbers :: "'db redis \<Rightarrow> processing_state \<Rightarrow> 'db \<Rightarrow> upload_numbers" where
  "get_upload_numbers R ps db =
     \<lparr>un_processing = scard R (redis_key ps ''processing'') db, un_processed = scard R (redis_key ps ''processed'') db\<rparr>"

definition mark_uploads_as_processing :: "'db redis \<Rightarrow> processing_state \<Rightarrow> int list \<Rightarrow> 'db \<Rightarrow> 'db" where
  "mark_uploads_as_processing R ps ids db = sadd R (redis_key ps ''processing'') ids db"

text \<open>The number of removed uploads goes to a metrics counter.\<close>

definition clear_in_progress_uploads :: "'db redis \<Rightarrow> processing_state \<Rightarrow> int list \<Rightarrow> 'db \<Rightarrow> 'db" where
  "clear_in_progress_uploads R ps ids db = snd (srem R (redis_key ps ''processing'') ids db)"

definition mark_upload_as_processed :: "'db redis \<Rightarrow> processing_state \<Rightarrow> int \<Rightarrow> 'db \<Rightarrow> 'db" where
  "mark_upload_as_processed R ps i db =
     (case smove R (redis_key ps ''processing'') (redis_key ps ''processed'') i db of
        (res, db') \<Rightarrow> if res then db' else sadd R (redis_key ps ''processed'') [i] db')"

definition mark_uploads_as_merged :: "'db redis \<Rightarrow> processing_state \<Rightarrow> int list \<Rightarrow> 'db \<Rightarrow> 'db" where
  "mark_uploads_as_merged R ps ids db = snd (srem R (redis_key ps ''processed'') ids db)"

definition get_uploads_for_merging :: "'db redis \<Rightarrow> processing_state \<Rightarrow> 'db \<Rightarrow> int set" where
  "get_uploads_for_merging R ps db = set (srandmember R (redis_key ps ''processed'') MERGE_BATCH_SIZE db)"

section \<open>The tasks on a commit\<close>

text \<open>
  A finisher waits for the uploads of its batch; has merged them; decided that it is the last and waits for the lock of the
  postprocessing; does the postprocessing. It ends with the postprocessing done, without it because other
  uploads are left, without it because another finisher has the lock, or with an error (an exception, a time limit, or a
  lock that could not be had after all retries).
\<close>

datatype finisher =
    FWaiting "int list"
  | FMerged "int list"
  | FTriggering "int list"
  | FPostprocessing "int list"
  | FDone
  | FSkipped
  | FLockError
  | FFailed "int list"

record 'db commit_state =
  cs_db :: 'db
  cs_received :: "int set"
  cs_finishers :: "finisher list"
  cs_lock :: "nat option"

fun finisher_ids :: "finisher \<Rightarrow> int list" where
  "finisher_ids (FWaiting ids) = ids"
| "finisher_ids (FMerged ids) = ids"
| "finisher_ids (FTriggering ids) = ids"
| "finisher_ids (FPostprocessing ids) = ids"
| "finisher_ids (FFailed ids) = ids"
| "finisher_ids _ = []"

fun running :: "finisher \<Rightarrow> bool" where
  "running FDone = False"
| "running FSkipped = False"
| "running FLockError = False"
| "running (FFailed _) = False"
| "running _ = True"

text \<open>The uploads of the finishers that have not merged them and may never do.\<close>

definition unmerged :: "finisher \<Rightarrow> bool" where
  "unmerged f = (case f of FWaiting ids \<Rightarrow> True | FFailed ids \<Rightarrow> True | _ \<Rightarrow> False)"

definition waiting_ids :: "finisher list \<Rightarrow> int set" where
  "waiting_ids fs = (\<Union>f \<in> set fs. case f of FWaiting ids \<Rightarrow> set ids | _ \<Rightarrow> {})"

definition unmerged_ids :: "finisher list \<Rightarrow> int set" where
  "unmerged_ids fs = {i. \<exists>f \<in> set fs. unmerged f \<and> i \<in> set (finisher_ids f)}"

definition in_processing :: "(string \<Rightarrow> 'db \<Rightarrow> int set) \<Rightarrow> processing_state \<Rightarrow> 'db \<Rightarrow> int set" where
  "in_processing members ps db = members (redis_key ps ''processing'') db"

definition in_processed :: "(string \<Rightarrow> 'db \<Rightarrow> int set) \<Rightarrow> processing_state \<Rightarrow> 'db \<Rightarrow> int set" where
  "in_processed members ps db = members (redis_key ps ''processed'') db"

definition set_finisher :: "nat \<Rightarrow> finisher \<Rightarrow> 'db commit_state \<Rightarrow> 'db commit_state" where
  "set_finisher n f c = c\<lparr>cs_finishers := (cs_finishers c)[n := f]\<rparr>"

inductive task_step ::
  "'db redis \<Rightarrow> (string \<Rightarrow> 'db \<Rightarrow> int set) \<Rightarrow> processing_state \<Rightarrow> 'db commit_state \<Rightarrow> 'db commit_state \<Rightarrow> bool"
  for R members ps where
  receive: "ids \<noteq> [] \<Longrightarrow> set ids \<inter> cs_received c = {} \<Longrightarrow>
    task_step R members ps c
      (c\<lparr>cs_db := mark_uploads_as_processing R ps ids (cs_db c), cs_received := cs_received c \<union> set ids,
         cs_finishers := cs_finishers c @ [FWaiting ids]\<rparr>)"
| restart: "i \<in> waiting_ids (cs_finishers c) \<Longrightarrow>
    task_step R members ps c (c\<lparr>cs_db := mark_uploads_as_processing R ps [i] (cs_db c)\<rparr>)"
| process: "i \<in> waiting_ids (cs_finishers c) \<Longrightarrow>
    task_step R members ps c (c\<lparr>cs_db := mark_upload_as_processed R ps i (cs_db c)\<rparr>)"
| clear: "task_step R members ps c (c\<lparr>cs_db := clear_in_progress_uploads R ps ids (cs_db c)\<rparr>)"
| merge: "n < length (cs_finishers c) \<Longrightarrow> cs_finishers c ! n = FWaiting ids \<Longrightarrow>
    set ids \<inter> in_processing members ps (cs_db c) = {} \<Longrightarrow>
    task_step R members ps c (set_finisher n (FMerged ids) (c\<lparr>cs_db := mark_uploads_as_merged R ps ids (cs_db c)\<rparr>))"
| check: "n < length (cs_finishers c) \<Longrightarrow> cs_finishers c ! n = FMerged ids \<Longrightarrow>
    task_step R members ps c
      (set_finisher n (if should_trigger_postprocessing (get_upload_numbers R ps (cs_db c)) then FTriggering ids else FSkipped) c)"
| acquire: "n < length (cs_finishers c) \<Longrightarrow> cs_finishers c ! n = FTriggering ids \<Longrightarrow> cs_lock c = None \<Longrightarrow>
    task_step R members ps c (set_finisher n (FPostprocessing ids) (c\<lparr>cs_lock := Some n\<rparr>))"
| refuse: "n < length (cs_finishers c) \<Longrightarrow> cs_finishers c ! n = FTriggering ids \<Longrightarrow> cs_lock c \<noteq> None \<Longrightarrow>
    task_step R members ps c (set_finisher n FLockError c)"
| finish: "n < length (cs_finishers c) \<Longrightarrow> cs_finishers c ! n = FPostprocessing ids \<Longrightarrow>
    task_step R members ps c (set_finisher n FDone (c\<lparr>cs_lock := (if cs_lock c = Some n then None else cs_lock c)\<rparr>))"
| expire: "task_step R members ps c (c\<lparr>cs_lock := None\<rparr>)"
| fail: "n < length (cs_finishers c) \<Longrightarrow> running (cs_finishers c ! n) \<Longrightarrow>
    task_step R members ps c
      (set_finisher n (FFailed (finisher_ids (cs_finishers c ! n))) (c\<lparr>cs_lock := (if cs_lock c = Some n then None else cs_lock c)\<rparr>))"
| killed: "n < length (cs_finishers c) \<Longrightarrow> running (cs_finishers c ! n) \<Longrightarrow>
    task_step R members ps c (set_finisher n (FFailed (finisher_ids (cs_finishers c ! n))) c)"

inductive reachable ::
  "'db redis \<Rightarrow> (string \<Rightarrow> 'db \<Rightarrow> int set) \<Rightarrow> processing_state \<Rightarrow> 'db commit_state \<Rightarrow> bool"
  for R members ps where
  start: "in_processing members ps db = {} \<Longrightarrow> in_processed members ps db = {} \<Longrightarrow>
    reachable R members ps \<lparr>cs_db = db, cs_received = {}, cs_finishers = [], cs_lock = None\<rparr>"
| step: "reachable R members ps c \<Longrightarrow> task_step R members ps c c' \<Longrightarrow> reachable R members ps c'"

inductive_cases task_stepE: "task_step R members ps c c'"

text \<open>
  The invariant: an upload is in one of the sets only while the finisher of its batch has not merged it; the lock belongs to a
  finisher in the postprocessing, or to one that failed in it; not all finishers have passed the postprocessing on to another.
\<close>

definition passed_on :: "finisher \<Rightarrow> bool" where
  "passed_on f = (f = FSkipped \<or> f = FLockError)"

definition may_hold :: "finisher \<Rightarrow> bool" where
  "may_hold f = (case f of FPostprocessing ids \<Rightarrow> True | FFailed ids \<Rightarrow> True | _ \<Rightarrow> False)"

definition lock_ok :: "finisher list \<Rightarrow> nat option \<Rightarrow> bool" where
  "lock_ok fs l = (\<forall>m. l = Some m \<longrightarrow> m < length fs \<and> may_hold (fs ! m))"

definition state_inv :: "(string \<Rightarrow> 'db \<Rightarrow> int set) \<Rightarrow> processing_state \<Rightarrow> 'db commit_state \<Rightarrow> bool" where
  "state_inv members ps c \<longleftrightarrow>
     in_processing members ps (cs_db c) \<union> in_processed members ps (cs_db c) \<subseteq> unmerged_ids (cs_finishers c) \<and>
     lock_ok (cs_finishers c) (cs_lock c) \<and>
     (cs_finishers c \<noteq> [] \<longrightarrow> (\<exists>f \<in> set (cs_finishers c). \<not> passed_on f))"

section \<open>Effects on the two sets\<close>

lemma redis_keys_differ [simp]:
  "redis_key ps ''processing'' \<noteq> redis_key ps ''processed''"
  "redis_key ps ''processed'' \<noteq> redis_key ps ''processing''"
  by (simp_all add: redis_key_def)

lemma waiting_unmerged: "waiting_ids fs \<subseteq> unmerged_ids fs"
proof
  fix i assume "i \<in> waiting_ids fs"
  then obtain f where f: "f \<in> set fs" "i \<in> (case f of FWaiting ids \<Rightarrow> set ids | _ \<Rightarrow> {})" by (auto simp: waiting_ids_def)
  from f(2) have "unmerged f \<and> i \<in> set (finisher_ids f)" by (simp add: unmerged_def split: finisher.splits)
  with f(1) show "i \<in> unmerged_ids fs" by (auto simp: unmerged_ids_def)
qed

lemma waiting_append: "waiting_ids (fs @ [FWaiting ids]) = waiting_ids fs \<union> set ids"
  by (auto simp: waiting_ids_def)

lemma unmerged_append: "unmerged_ids (fs @ [FWaiting ids]) = unmerged_ids fs \<union> set ids"
  by (auto simp: unmerged_ids_def unmerged_def)

lemma nth_update: "xs[i := x] ! j = (if i = j \<and> i < length xs then x else xs ! j)"
  by (cases "i < length xs") (auto simp: nth_list_update list_update_beyond)

lemma set_list_update: "n < length xs \<Longrightarrow> set xs \<subseteq> insert (xs ! n) (set (xs[n := x]))"
proof
  fix y assume "n < length xs" "y \<in> set xs"
  then obtain i where "i < length xs" "y = xs ! i" by (auto simp: in_set_conv_nth)
  then show "y \<in> insert (xs ! n) (set (xs[n := x]))" by (cases "i = n") (auto simp: in_set_conv_nth nth_update intro!: exI [of _ i])
qed

lemma unmerged_update:
  assumes "n < length fs"
  shows "unmerged_ids fs \<subseteq> unmerged_ids (fs[n := f]) \<union> (if unmerged (fs ! n) then set (finisher_ids (fs ! n)) else {})"
  using set_list_update [OF assms] by (auto simp: unmerged_ids_def)

text \<open>A finisher that ends with an error keeps its uploads; one that goes on after merging had none left.\<close>

lemma unmerged_kept:
  assumes "n < length fs" "unmerged (fs ! n) \<longrightarrow> unmerged f \<and> finisher_ids f = finisher_ids (fs ! n)"
  shows "unmerged_ids fs \<subseteq> unmerged_ids (fs[n := f])"
proof -
  have "f \<in> set (fs[n := f])" using assms(1) by (rule set_update_memI)
  with assms(2) have "(if unmerged (fs ! n) then set (finisher_ids (fs ! n)) else {}) \<subseteq> unmerged_ids (fs[n := f])"
    by (auto simp: unmerged_ids_def)
  with unmerged_update [OF assms(1), of f] show ?thesis by blast
qed

lemma not_passed_update: "n < length fs \<Longrightarrow> \<not> passed_on f \<Longrightarrow> \<exists>f' \<in> set (fs[n := f]). \<not> passed_on f'"
  using set_update_memI by (metis)

lemma lock_update: "lock_ok fs l \<Longrightarrow> may_hold f \<Longrightarrow> lock_ok (fs[n := f]) l"
  by (auto simp: lock_ok_def nth_update)

lemma lock_other: "lock_ok fs l \<Longrightarrow> l \<noteq> Some n \<Longrightarrow> lock_ok (fs[n := f]) l"
  by (auto simp: lock_ok_def nth_update)

lemma lock_not_mine: "lock_ok fs l \<Longrightarrow> \<not> may_hold (fs ! n) \<Longrightarrow> lock_ok (fs[n := f]) l"
  by (rule lock_other) (auto simp: lock_ok_def)

lemma set_finisher_sel [simp]:
  "cs_db (set_finisher n f c) = cs_db c" "cs_finishers (set_finisher n f c) = (cs_finishers c)[n := f]" "cs_lock (set_finisher n f c) = cs_lock c"
  "cs_received (set_finisher n f c) = cs_received c"
  by (simp_all add: set_finisher_def)

context redis_sets
begin

lemma numbers: "un_processing (get_upload_numbers R ps db) = int (card (in_processing members ps db))"
  "un_processed (get_upload_numbers R ps db) = int (card (in_processed members ps db))"
  by (simp_all add: get_upload_numbers_def scard_members in_processing_def in_processed_def)

lemma trigger_iff:
  "should_trigger_postprocessing (get_upload_numbers R ps db) \<longleftrightarrow>
     in_processing members ps db = {} \<and> in_processed members ps db = {}"
  by (simp add: should_trigger_postprocessing_def numbers) (simp add: in_processing_def in_processed_def finite_members)

lemma processing_effect:
  "in_processing members ps (mark_uploads_as_processing R ps ids db) = in_processing members ps db \<union> set ids"
  "in_processed members ps (mark_uploads_as_processing R ps ids db) = in_processed members ps db"
  by (simp_all add: mark_uploads_as_processing_def in_processing_def in_processed_def sadd_members)

lemma clear_effect:
  "in_processing members ps (clear_in_progress_uploads R ps ids db) = in_processing members ps db - set ids"
  "in_processed members ps (clear_in_progress_uploads R ps ids db) = in_processed members ps db"
  by (simp_all add: clear_in_progress_uploads_def in_processing_def in_processed_def srem_members)

lemma processed_effect:
  "in_processing members ps (mark_upload_as_processed R ps i db) = in_processing members ps db - {i}"
  "in_processed members ps (mark_upload_as_processed R ps i db) = in_processed members ps db \<union> {i}"
proof -
  let ?k = "redis_key ps ''processing''" and ?l = "redis_key ps ''processed''"
  obtain res db' where s: "smove R ?k ?l i db = (res, db')" by (cases "smove R ?k ?l i db")
  have res: "res \<longleftrightarrow> i \<in> members ?k db" using smove_result [of ?k ?l i db] s by simp
  have mem: "members k db' = (if i \<in> members ?k db then (if k = ?k then members k db - {i}
      else if k = ?l then members k db \<union> {i} else members k db) else members k db)" for k
    using smove_members [where src = ?k and dst = ?l and k = k and i = i and db = db] s by simp
  have "mark_upload_as_processed R ps i db = (if res then db' else sadd R ?l [i] db')"
    by (simp add: mark_upload_as_processed_def s)
  then show "in_processing members ps (mark_upload_as_processed R ps i db) = in_processing members ps db - {i}"
    "in_processed members ps (mark_upload_as_processed R ps i db) = in_processed members ps db \<union> {i}"
    by (cases res; simp add: in_processing_def in_processed_def sadd_members mem res; auto)+
qed

lemma merged_effect:
  "in_processing members ps (mark_uploads_as_merged R ps ids db) = in_processing members ps db"
  "in_processed members ps (mark_uploads_as_merged R ps ids db) = in_processed members ps db - set ids"
  by (simp_all add: mark_uploads_as_merged_def in_processing_def in_processed_def srem_members)

lemmas effects = processing_effect clear_effect processed_effect merged_effect

lemma failed_keeps_inv:
  assumes "n < length (cs_finishers c)" "state_inv members ps c" "l = cs_lock c \<or> l = None"
  shows "state_inv members ps (set_finisher n (FFailed (finisher_ids (cs_finishers c ! n))) (c\<lparr>cs_lock := l\<rparr>))"
proof -
  let ?f = "FFailed (finisher_ids (cs_finishers c ! n))"
  have "lock_ok ((cs_finishers c)[n := ?f]) l" using assms lock_update [of "cs_finishers c" "cs_lock c" ?f n] by (auto simp: state_inv_def may_hold_def lock_ok_def)
  moreover have "unmerged_ids (cs_finishers c) \<subseteq> unmerged_ids ((cs_finishers c)[n := ?f])"
    using unmerged_kept [OF assms(1), of ?f] by (simp add: unmerged_def)
  moreover have "\<exists>f \<in> set ((cs_finishers c)[n := ?f]). \<not> passed_on f" using not_passed_update [OF assms(1), of ?f] by (simp add: passed_on_def)
  ultimately show ?thesis using assms(2) by (auto simp: state_inv_def)
qed

lemma step_keeps_inv: "task_step R members ps c c' \<Longrightarrow> state_inv members ps c \<Longrightarrow> state_inv members ps c'"
proof (induction rule: task_step.induct)
  case (receive ids c)
  have "lock_ok (cs_finishers c @ [FWaiting ids]) (cs_lock c)" using receive.prems by (auto simp: state_inv_def lock_ok_def nth_append)
  with receive show ?case by (auto simp: state_inv_def effects unmerged_append passed_on_def)
next
  case (restart i c)
  then show ?case using waiting_unmerged by (auto simp: state_inv_def effects)
next
  case (process i c)
  then show ?case using waiting_unmerged by (auto simp: state_inv_def effects)
next
  case (clear c ids)
  then show ?case by (auto simp: state_inv_def effects)
next
  case (merge n c ids)
  have "lock_ok ((cs_finishers c)[n := FMerged ids]) (cs_lock c)"
    using merge by (intro lock_not_mine) (simp_all add: state_inv_def may_hold_def)
  moreover have "unmerged_ids (cs_finishers c) \<subseteq> unmerged_ids ((cs_finishers c)[n := FMerged ids]) \<union> set ids"
    using unmerged_update [OF merge(1), of "FMerged ids"] merge(2) by (simp add: unmerged_def)
  moreover have "\<exists>f \<in> set ((cs_finishers c)[n := FMerged ids]). \<not> passed_on f"
    using not_passed_update [OF merge(1)] by (simp add: passed_on_def)
  ultimately show ?case using merge by (auto simp: state_inv_def effects)
next
  case (check n c ids)
  let ?f = "if should_trigger_postprocessing (get_upload_numbers R ps (cs_db c)) then FTriggering ids else FSkipped"
  have u: "unmerged_ids (cs_finishers c) \<subseteq> unmerged_ids ((cs_finishers c)[n := ?f])"
    using unmerged_kept [OF check(1)] check(2) by (simp add: unmerged_def)
  have "\<exists>f \<in> set ((cs_finishers c)[n := ?f]). \<not> passed_on f"
  proof (cases "should_trigger_postprocessing (get_upload_numbers R ps (cs_db c))")
    case True
    then show ?thesis using not_passed_update [OF check(1), of "FTriggering ids"] by (simp add: passed_on_def)
  next
    case False
    then have "unmerged_ids (cs_finishers c) \<noteq> {}" using check(3) by (auto simp: trigger_iff state_inv_def)
    with u have "unmerged_ids ((cs_finishers c)[n := ?f]) \<noteq> {}" by blast
    then show ?thesis by (auto simp: unmerged_ids_def unmerged_def passed_on_def split: finisher.splits)
  qed
  moreover have "lock_ok ((cs_finishers c)[n := ?f]) (cs_lock c)"
    using check by (intro lock_not_mine) (simp_all add: state_inv_def may_hold_def)
  ultimately show ?case using check u by (auto simp: state_inv_def)
next
  case (acquire n c ids)
  have "unmerged_ids (cs_finishers c) \<subseteq> unmerged_ids ((cs_finishers c)[n := FPostprocessing ids])"
    using unmerged_kept [OF acquire(1)] acquire(2) by (simp add: unmerged_def)
  moreover have "\<exists>f \<in> set ((cs_finishers c)[n := FPostprocessing ids]). \<not> passed_on f"
    using not_passed_update [OF acquire(1)] by (simp add: passed_on_def)
  ultimately show ?case using acquire by (auto simp: state_inv_def lock_ok_def may_hold_def)
next
  case (refuse n c ids)
  from refuse obtain m where m: "cs_lock c = Some m" "m < length (cs_finishers c)" "may_hold (cs_finishers c ! m)"
    by (auto simp: state_inv_def lock_ok_def)
  have "n \<noteq> m" using m refuse(2) by (auto simp: may_hold_def)
  then have "cs_finishers c ! m \<in> set ((cs_finishers c)[n := FLockError])"
    using m(2) by (metis length_list_update nth_list_update_neq nth_mem)
  then have "\<exists>f \<in> set ((cs_finishers c)[n := FLockError]). \<not> passed_on f"
    using m(3) by (intro bexI [of _ "cs_finishers c ! m"]) (auto simp: passed_on_def may_hold_def)
  moreover have "unmerged_ids (cs_finishers c) \<subseteq> unmerged_ids ((cs_finishers c)[n := FLockError])"
    using unmerged_kept [OF refuse(1)] refuse(2) by (simp add: unmerged_def)
  moreover have "lock_ok ((cs_finishers c)[n := FLockError]) (cs_lock c)"
    using refuse by (intro lock_not_mine) (simp_all add: state_inv_def may_hold_def)
  ultimately show ?case using refuse by (auto simp: state_inv_def)
next
  case (finish n c ids)
  let ?l = "if cs_lock c = Some n then None else cs_lock c"
  have "lock_ok ((cs_finishers c)[n := FDone]) ?l" using finish.prems lock_other [of "cs_finishers c" ?l n] by (auto simp: state_inv_def lock_ok_def)
  moreover have "unmerged_ids (cs_finishers c) \<subseteq> unmerged_ids ((cs_finishers c)[n := FDone])"
    using unmerged_kept [OF finish(1)] finish(2) by (simp add: unmerged_def)
  moreover have "\<exists>f \<in> set ((cs_finishers c)[n := FDone]). \<not> passed_on f" using not_passed_update [OF finish(1)] by (simp add: passed_on_def)
  ultimately show ?case using finish by (auto simp: state_inv_def)
next
  case (expire c)
  then show ?case by (auto simp: state_inv_def lock_ok_def)
next
  case (fail n c)
  then show ?case using failed_keeps_inv [OF fail(1,3), of "if cs_lock c = Some n then None else cs_lock c"] by simp
next
  case (killed n c)
  then show ?case using failed_keeps_inv [OF killed(1,3), of "cs_lock c"] by simp
qed

lemma reachable_inv: "reachable R members ps c \<Longrightarrow> state_inv members ps c"
proof (induction rule: reachable.induct)
  case (start db)
  then show ?case by (simp add: state_inv_def lock_ok_def)
next
  case (step c c')
  then show ?case using step_keeps_inv by blast
qed

lemma all_done:
  assumes "reachable R members ps c" "cs_finishers c \<noteq> []" "\<forall>f \<in> set (cs_finishers c). \<not> running f"
  shows "(\<exists>ids. FFailed ids \<in> set (cs_finishers c)) \<or>
    FDone \<in> set (cs_finishers c) \<and> in_processing members ps (cs_db c) = {} \<and> in_processed members ps (cs_db c) = {}"
proof (cases "\<exists>ids. FFailed ids \<in> set (cs_finishers c)")
  case False
  have inv: "state_inv members ps c" using reachable_inv [OF assms(1)] .
  then obtain f where f: "f \<in> set (cs_finishers c)" "\<not> passed_on f" using assms(2) by (auto simp: state_inv_def)
  with assms(3) False have "f = FDone" by (cases f) (auto simp: passed_on_def)
  moreover have "\<not> unmerged g" if "g \<in> set (cs_finishers c)" for g
  proof -
    have "\<not> running g" "\<forall>ids. g \<noteq> FFailed ids" using that False assms(3) by auto
    then show ?thesis by (auto simp: unmerged_def split: finisher.splits)
  qed
  then have "unmerged_ids (cs_finishers c) = {}" by (auto simp: unmerged_ids_def)
  ultimately show ?thesis using f inv by (auto simp: state_inv_def)
qed simp

text \<open>Two batches whose finishers merge before either of them reads the sizes of the sets.\<close>

lemma two_merged:
  assumes "in_processing members ps db = {}" "in_processed members ps db = {}"
  shows "\<exists>d. reachable R members ps \<lparr>cs_db = d, cs_received = {1, 2}, cs_finishers = [FMerged [1], FMerged [2]], cs_lock = None\<rparr> \<and>
    should_trigger_postprocessing (get_upload_numbers R ps d)"
proof -
  let ?p1 = "mark_uploads_as_processing R ps [1] db"
  let ?p2 = "mark_uploads_as_processing R ps [2] ?p1"
  let ?p4 = "mark_upload_as_processed R ps 2 (mark_upload_as_processed R ps 1 ?p2)"
  let ?p6 = "mark_uploads_as_merged R ps [2] (mark_uploads_as_merged R ps [1] ?p4)"
  let ?c = "\<lambda>d fs. \<lparr>cs_db = d, cs_received = {1, 2}, cs_finishers = fs, cs_lock = None\<rparr>"
  note st = reachable.step [of R members ps]
  have "reachable R members ps \<lparr>cs_db = db, cs_received = {}, cs_finishers = [], cs_lock = None\<rparr>" by (rule reachable.start [OF assms])
  from st [OF this task_step.receive [of "[1]"]]
  have "reachable R members ps \<lparr>cs_db = ?p1, cs_received = {1}, cs_finishers = [FWaiting [1]], cs_lock = None\<rparr>" by simp
  from st [OF this task_step.receive [of "[2]"]]
  have "reachable R members ps (?c ?p2 [FWaiting [1], FWaiting [2]])" by (simp add: insert_commute)
  from st [OF this task_step.process [of 1]]
  have "reachable R members ps (?c (mark_upload_as_processed R ps 1 ?p2) [FWaiting [1], FWaiting [2]])" by (simp add: waiting_ids_def)
  from st [OF this task_step.process [of 2]]
  have "reachable R members ps (?c ?p4 [FWaiting [1], FWaiting [2]])" by (simp add: waiting_ids_def)
  from st [OF this task_step.merge [of 0 _ "[1]"]]
  have "reachable R members ps (?c (mark_uploads_as_merged R ps [1] ?p4) [FMerged [1], FWaiting [2]])"
    by (simp add: effects assms set_finisher_def)
  from st [OF this task_step.merge [of 1 _ "[2]"]]
  have r6: "reachable R members ps (?c ?p6 [FMerged [1], FMerged [2]])" by (simp add: effects assms set_finisher_def)
  have "in_processing members ps ?p6 = {}" "in_processed members ps ?p6 = {}" by (auto simp: effects assms)
  then have "should_trigger_postprocessing (get_upload_numbers R ps ?p6)" by (simp add: trigger_iff)
  with r6 show ?thesis by blast
qed

lemma two_triggers:
  assumes "in_processing members ps db = {}" "in_processed members ps db = {}"
  shows "\<exists>c. reachable R members ps c \<and> cs_finishers c = [FDone, FDone]"
proof -
  from two_merged [OF assms] obtain d where
    r: "reachable R members ps \<lparr>cs_db = d, cs_received = {1, 2}, cs_finishers = [FMerged [1], FMerged [2]], cs_lock = None\<rparr>"
    and tr: "should_trigger_postprocessing (get_upload_numbers R ps d)" by blast
  let ?c = "\<lambda>fs l. \<lparr>cs_db = d, cs_received = {1, 2}, cs_finishers = fs, cs_lock = l\<rparr>"
  note st = reachable.step [of R members ps]
  from st [OF r task_step.check [of 0 _ "[1]"]] tr
  have "reachable R members ps (?c [FTriggering [1], FMerged [2]] None)" by (simp add: set_finisher_def)
  from st [OF this task_step.check [of 1 _ "[2]"]] tr
  have "reachable R members ps (?c [FTriggering [1], FTriggering [2]] None)" by (simp add: set_finisher_def)
  from st [OF this task_step.acquire [of 0 _ "[1]"]]
  have "reachable R members ps (?c [FPostprocessing [1], FTriggering [2]] (Some 0))" by (simp add: set_finisher_def)
  from st [OF this task_step.finish [of 0 _ "[1]"]]
  have "reachable R members ps (?c [FDone, FTriggering [2]] None)" by (simp add: set_finisher_def)
  from st [OF this task_step.acquire [of 1 _ "[2]"]]
  have "reachable R members ps (?c [FDone, FPostprocessing [2]] (Some 1))" by (simp add: set_finisher_def)
  from st [OF this task_step.finish [of 1 _ "[2]"]]
  have "reachable R members ps (?c [FDone, FDone] None)" by (simp add: set_finisher_def)
  then show ?thesis by (intro exI [of _ "?c [FDone, FDone] None"]) simp
qed

end

section \<open>A Redis in memory\<close>

text \<open>
  Redis sets as a table of duplicate-free lists: the documented behaviour of the commands, with
  the first members as the random sample.
\<close>

type_synonym redis_db = "string \<Rightarrow> int list"

definition mem_members :: "string \<Rightarrow> redis_db \<Rightarrow> int set" where
  "mem_members k db = set (db k)"

definition mem_redis :: "redis_db redis" where
  "mem_redis =
     \<lparr>sadd = (\<lambda>k ids db. db(k := remdups (db k @ ids))),
      srem = (\<lambda>k ids db. (int (card (set (db k) \<inter> set ids)), db(k := filter (\<lambda>i. i \<notin> set ids) (db k)))),
      smove = (\<lambda>src dst i db.
        if i \<in> set (db src)
        then (True, (db(src := filter (\<lambda>j. j \<noteq> i) (db src)))(dst := remdups (filter (\<lambda>j. j \<noteq> i) (db dst) @ [i])))
        else (False, db)),
      scard = (\<lambda>k db. int (card (set (db k)))),
      srandmember = (\<lambda>k n db. take (nat n) (remdups (db k)))\<rparr>"

interpretation mem: redis_sets mem_redis mem_members
proof unfold_locales
  fix k :: string and n :: int and db :: redis_db
  show "set (srandmember mem_redis k n db) \<subseteq> mem_members k db"
    using set_take_subset [of "nat n" "remdups (db k)"] by (simp add: mem_redis_def mem_members_def)
  show "0 \<le> n \<Longrightarrow> card (set (srandmember mem_redis k n db)) = min (nat n) (card (mem_members k db))"
    by (simp add: mem_redis_def mem_members_def distinct_card length_remdups_card_conv min.commute)
qed (auto simp: mem_redis_def mem_members_def)

section \<open>Properties\<close>

text \<open>
  C4. The postprocessing of a commit is not forgotten: whatever the interleaving of the tasks and the order in which they get the lock, once the
  finishers of all batches have ended, one of them has done the postprocessing and both sets of uploads are empty,
  unless one of the finishers ended with an error (an exception, a time limit, a killed worker or a lock not to be had).
\<close>

theorem postprocessing_triggered:
  assumes "redis_sets R members" "reachable R members ps c"
    and "cs_finishers c \<noteq> []" "\<forall>f \<in> set (cs_finishers c). \<not> running f"
  shows "(\<exists>ids. FFailed ids \<in> set (cs_finishers c)) \<or>
    FDone \<in> set (cs_finishers c) \<and> in_processing members ps (cs_db c) = {} \<and> in_processed members ps (cs_db c) = {}"
  using redis_sets.all_done [OF assms] .

theorem postprocessing_triggered_witness:
  "\<exists>c. reachable mem_redis mem_members \<lparr>ps_repoid = 1, ps_commitsha = ''abc''\<rparr> c \<and> (\<forall>f \<in> set (cs_finishers c). \<not> running f) \<and>
     (\<nexists>ids. FFailed ids \<in> set (cs_finishers c)) \<and> FDone \<in> set (cs_finishers c)"
proof -
  obtain c where c: "reachable mem_redis mem_members \<lparr>ps_repoid = 1, ps_commitsha = ''abc''\<rparr> c" "cs_finishers c = [FDone, FDone]"
    using mem.two_triggers [of "\<lparr>ps_repoid = 1, ps_commitsha = ''abc''\<rparr>" "\<lambda>_. []"]
    by (auto simp: in_processing_def in_processed_def mem_members_def)
  from postprocessing_triggered [OF mem.redis_sets_axioms c(1)] c show ?thesis by auto
qed

text \<open>
  The postprocessing can run twice: the finishers of two batches both merge before either of them
  reads the sizes of the sets, and then both find them empty. (The sizes are read outside the lock
  under which a finisher merges.)
\<close>

theorem postprocessing_can_trigger_twice:
  "\<exists>c. reachable mem_redis mem_members ps c \<and> cs_finishers c = [FDone, FDone]"
  using mem.two_triggers [of ps "\<lambda>_. []"] by (simp add: in_processing_def in_processed_def mem_members_def)

text \<open>
  A finisher that fails before it has merged leaves its uploads in the sets: the finisher of the other batch then skips the
  postprocessing, and it is never done.
\<close>

lemma failed_finisher_blocks:
  "\<exists>c. reachable mem_redis mem_members ps c \<and> cs_finishers c = [FFailed [1], FSkipped]"
proof -
  let ?p1 = "mark_uploads_as_processing mem_redis ps [1] (\<lambda>_. [])"
  let ?p2 = "mark_uploads_as_processing mem_redis ps [2] ?p1"
  let ?p4 = "mark_upload_as_processed mem_redis ps 2 (mark_upload_as_processed mem_redis ps 1 ?p2)"
  let ?p5 = "mark_uploads_as_merged mem_redis ps [2] ?p4"
  let ?c = "\<lambda>d fs. \<lparr>cs_db = d, cs_received = {1, 2}, cs_finishers = fs, cs_lock = None\<rparr>"
  note st = reachable.step [of mem_redis mem_members ps]
  have e: "in_processing mem_members ps (\<lambda>_. []) = {}" "in_processed mem_members ps (\<lambda>_. []) = {}"
    by (simp_all add: in_processing_def in_processed_def mem_members_def)
  have "reachable mem_redis mem_members ps \<lparr>cs_db = \<lambda>_. [], cs_received = {}, cs_finishers = [], cs_lock = None\<rparr>" by (rule reachable.start [OF e])
  from st [OF this task_step.receive [of "[1]"]]
  have "reachable mem_redis mem_members ps \<lparr>cs_db = ?p1, cs_received = {1}, cs_finishers = [FWaiting [1]], cs_lock = None\<rparr>" by simp
  from st [OF this task_step.receive [of "[2]"]]
  have "reachable mem_redis mem_members ps (?c ?p2 [FWaiting [1], FWaiting [2]])" by (simp add: insert_commute)
  from st [OF this task_step.process [of 1]]
  have "reachable mem_redis mem_members ps (?c (mark_upload_as_processed mem_redis ps 1 ?p2) [FWaiting [1], FWaiting [2]])" by (simp add: waiting_ids_def)
  from st [OF this task_step.process [of 2]]
  have "reachable mem_redis mem_members ps (?c ?p4 [FWaiting [1], FWaiting [2]])" by (simp add: waiting_ids_def)
  from st [OF this task_step.fail [of 0]]
  have "reachable mem_redis mem_members ps (?c ?p4 [FFailed [1], FWaiting [2]])" by (simp add: set_finisher_def)
  from st [OF this task_step.merge [of 1 _ "[2]"]]
  have r: "reachable mem_redis mem_members ps (?c ?p5 [FFailed [1], FMerged [2]])" by (simp add: mem.effects e set_finisher_def)
  have "1 \<in> in_processed mem_members ps ?p5" by (simp add: mem.effects e)
  then have "\<not> should_trigger_postprocessing (get_upload_numbers mem_redis ps ?p5)" by (auto simp: mem.trigger_iff)
  with st [OF r task_step.check [of 1 _ "[2]"]]
  have "reachable mem_redis mem_members ps (?c ?p5 [FFailed [1], FSkipped])" by (simp add: set_finisher_def)
  then show ?thesis by (intro exI [of _ "?c ?p5 [FFailed [1], FSkipped]"]) simp
qed

end
