(* ===== verification/Changes.thy ===== *)
theory Changes
  imports Report Py_Decimal
begin

text \<open>
  Unexpected coverage changes between two reports (apps/worker/services/comparison/changes.py): the
  offsets that a diff gives to the lines of a file, the lines whose coverage changed outside of the
  diff, and the changes of a whole report.

  The code collects file names in sets, whose order Python does not specify; here they are lists in
  the order of the reports.
\<close>

section \<open>Offsets of a diff\<close>

text \<open>\<open>int(header[0] if header[0] and header[0] != " " else 1) or 1\<close>.\<close>

definition base_start :: "diff_segment \<Rightarrow> int res" where
  "base_start seg =
     (case seg_header seg of
        [] \<Rightarrow> Inl IndexError
      | h # _ \<Rightarrow> map_res (\<lambda>n. if n = 0 then 1 else n) (if h \<noteq> [] \<and> h \<noteq> '' '' then py_int h else Inr 1))"

record segment_offsets =
  so_offsets :: "(int, int) dict"
  so_additions :: "int list"
  so_removals :: "int list"

text \<open>\<open>offsets[k] += v\<close> on a \<open>defaultdict(int)\<close>.\<close>

definition bump :: "(int, int) dict \<Rightarrow> int \<Rightarrow> int \<Rightarrow> (int, int) dict" where
  "bump d k v = dict_set d k ((case dict_get d k of None \<Rightarrow> 0 | Some n \<Rightarrow> n) + v)"

text \<open>The loop over the lines of a segment; \<open>offl\<close> and \<open>offr\<close> are \<open>offset_l\<close> and \<open>offset_r\<close>.\<close>

fun offset_lines :: "int \<Rightarrow> int \<Rightarrow> int \<Rightarrow> int \<Rightarrow> string list \<Rightarrow> segment_offsets \<Rightarrow> segment_offsets res" where
  "offset_lines starting_diff lno offl offr [] s = Inr s"
| "offset_lines starting_diff lno offl offr (line # ls) s =
     bind_res (first_char line) (\<lambda>c.
       if c = CHR ''-'' then
         offset_lines starting_diff (lno + 1) offl (offr - 1) ls
           (s\<lparr>so_removals := so_removals s @ [lno + offl - starting_diff], so_offsets := bump (so_offsets s) (lno + offr) 1\<rparr>)
       else if c = CHR ''+'' then
         offset_lines starting_diff (lno + 1) (offl - 1) offr ls
           (s\<lparr>so_additions := so_additions s @ [lno + offr], so_offsets := bump (so_offsets s) (lno + offr) (-1)\<rparr>)
       else offset_lines starting_diff (lno + 1) offl offr ls s)"

definition offset_segment :: "segment_offsets \<Rightarrow> diff_segment \<Rightarrow> segment_offsets res" where
  "offset_segment s seg =
     bind_res (segment_start seg) (\<lambda>start.
     bind_res (base_start seg) (\<lambda>bstart.
       offset_lines (start - bstart) start 0 0 (seg_lines seg) s))"

definition no_offsets :: segment_offsets where
  "no_offsets = \<lparr>so_offsets = [], so_additions = [], so_removals = []\<rparr>"

definition get_segment_offsets :: "diff_segment list \<Rightarrow> segment_offsets res" where
  "get_segment_offsets segments =
     map_res (\<lambda>s. s\<lparr>so_offsets := filter (\<lambda>p. snd p \<noteq> 0) (so_offsets s)\<rparr>) (foldl_res offset_segment no_offsets segments)"

section \<open>Changed lines of a file\<close>

definition line_has_changed :: "report_line \<Rightarrow> report_line \<Rightarrow> bool res" where
  "line_has_changed before after =
     bind_res (line_type (rl_coverage before)) (\<lambda>a. bind_res (line_type (rl_coverage after)) (\<lambda>b. Inr (a \<noteq> b)))"

text \<open>A line that changed: its number and its coverage before and after.\<close>

type_synonym changed_line = "int \<times> cov \<times> cov"

definition compare_line :: "int \<Rightarrow> report_line option \<Rightarrow> report_line option \<Rightarrow> changed_line option res" where
  "compare_line lno base_line head_line =
     (case (base_line, head_line) of
        (Some b, Some h) \<Rightarrow> map_res (\<lambda>ch. if ch then Some (lno, rl_coverage b, rl_coverage h) else None) (line_has_changed b h)
      | (Some b, None) \<Rightarrow> Inr (Some (lno, rl_coverage b, CovNone))
      | (None, Some h) \<Rightarrow> Inr (Some (lno, CovNone, rl_coverage h))
      | (None, None) \<Rightarrow> Inr None)"

text \<open>The loop over the line numbers, with the variable \<open>base_ln\<close>, which stays 0 when there are no offsets.\<close>

fun changed_loop :: "report_file option \<Rightarrow> report_file \<Rightarrow> (int, int) dict \<Rightarrow> int list \<Rightarrow> int \<Rightarrow> int list \<Rightarrow> changed_line list res" where
  "changed_loop base head offsets skip base_ln [] = Inr []"
| "changed_loop base head offsets skip base_ln (lno # lns) =
     (let base_ln' = (if offsets = [] then base_ln else base_ln + 1 + (case dict_get offsets lno of None \<Rightarrow> 0 | Some v \<Rightarrow> v))
      in bind_res
           (if lno \<in> set skip then Inr None
            else
              bind_res (case base of None \<Rightarrow> Inr None | Some b \<Rightarrow> rf_get b (if base_ln' = 0 then lno else base_ln')) (\<lambda>bl.
              bind_res (rf_get head lno) (\<lambda>hl. compare_line lno bl hl))) (\<lambda>ch.
         bind_res (changed_loop base head offsets skip base_ln' lns) (\<lambda>rest.
           Inr (case ch of None \<Rightarrow> rest | Some x \<Rightarrow> x # rest))))"

definition last_line :: "report_file option \<Rightarrow> report_file \<Rightarrow> segment_offsets \<Rightarrow> int" where
  "last_line base head so =
     (let eof = (case base of None \<Rightarrow> 0 | Some b \<Rightarrow> rf_eof b)
      in max eof (max (eof + int (length (so_additions so)) - int (length (so_removals so))) (rf_eof head)))"

definition iter_changed_lines :: "report_file option \<Rightarrow> report_file \<Rightarrow> diff_file option \<Rightarrow> changed_line list res" where
  "iter_changed_lines base head diff =
     (case diff of
        None \<Rightarrow> changed_loop base head [] [] 0 [1..last_line base head no_offsets]
      | Some d \<Rightarrow>
          if df_type d = ''modified'' then
            bind_res (get_segment_offsets (df_segments d)) (\<lambda>so.
              changed_loop base head (so_offsets so) (so_additions so) 0 [1..last_line base head so])
          else Inr [])"

text \<open>With \<open>yield_line_numbers\<close>.\<close>

definition iter_changed_numbers :: "report_file option \<Rightarrow> report_file \<Rightarrow> diff_file option \<Rightarrow> int list res" where
  "iter_changed_numbers base head diff = map_res (map fst) (iter_changed_lines base head diff)"

section \<open>Totals of changes\<close>

definition get_totals_from_list :: "cov list \<Rightarrow> report_totals res" where
  "get_totals_from_list cs =
     map_res (\<lambda>ts. zero_totals\<lparr>t_hits := int (count_list ts (Some LT_hit)), t_misses := int (count_list ts (Some LT_miss)),
         t_partials := int (count_list ts (Some LT_partial))\<rparr>) (traverse line_type cs)"

definition trunc_rat :: "rat \<Rightarrow> int" where
  "trunc_rat q = (if q < 0 then \<lceil>q\<rceil> else \<lfloor>q\<rfloor>)"

text \<open>\<open>float(v)\<close> and \<open>int(float(v or 0))\<close> of a field of totals.\<close>

definition float_field :: "fval \<Rightarrow> rat res" where
  "float_field v = (case v of VNone \<Rightarrow> Inl TypeError | VInt i \<Rightarrow> Inr (fl (of_int i)) | VStr s \<Rightarrow> py_float s | VFloat q \<Rightarrow> Inr q)"

definition int_float_field :: "fval \<Rightarrow> int res" where
  "int_float_field v = (if v = VNone \<or> v = VStr [] then Inr 0 else map_res trunc_rat (float_field v))"

text \<open>Python's \<open>==\<close> on fields and on totals.\<close>

definition fval_num :: "fval \<Rightarrow> rat option" where
  "fval_num v = (case v of VInt i \<Rightarrow> Some (of_int i) | VFloat q \<Rightarrow> Some q | _ \<Rightarrow> None)"

definition fval_eq :: "fval \<Rightarrow> fval \<Rightarrow> bool" where
  "fval_eq a b = (case (fval_num a, fval_num b) of (Some x, Some y) \<Rightarrow> x = y | _ \<Rightarrow> a = b)"

definition totals_eq :: "report_totals \<Rightarrow> report_totals \<Rightarrow> bool" where
  "totals_eq a b = list_all2 fval_eq (totals_astuple a) (totals_astuple b)"

text \<open>The result of \<open>diff_totals\<close>: \<open>False\<close>, \<open>True\<close>, \<open>None\<close> or totals.\<close>

datatype totals_diff = FileDeleted | FileNew | SameTotals | TotalsDiff report_totals

text \<open>The fields that are subtracted: all but the sessions, which shifts the fields after them.\<close>

definition diff_fields :: "nat list" where
  "diff_fields = [0, 1, 2, 3, 4, 5, 6, 7, 8, 10, 11]"

definition diff_tuple :: "report_totals \<Rightarrow> report_totals \<Rightarrow> fval list res" where
  "diff_tuple base head =
     traverse (\<lambda>i. bind_res (int_float_field (totals_astuple head ! i)) (\<lambda>h.
       bind_res (int_float_field (totals_astuple base ! i)) (\<lambda>b. Inr (VInt (h - b))))) diff_fields"

definition coverage_change :: "report_totals \<Rightarrow> report_totals \<Rightarrow> report_totals option \<Rightarrow> report_totals \<Rightarrow> rat res" where
  "coverage_change base head absolute diff =
     (case absolute of
        Some a \<Rightarrow>
          if t_coverage a \<noteq> VNone then
            let hits = t_hits a + t_hits diff
            in bind_res (py_float (ratio hits (hits + t_misses a + t_misses diff + t_partials a + t_partials diff))) (\<lambda>x.
               bind_res (float_field (t_coverage a)) (\<lambda>y. Inr (fl (x - y))))
          else bind_res (float_field (t_coverage head)) (\<lambda>x. bind_res (float_field (t_coverage base)) (\<lambda>y. Inr (fl (x - y))))
      | None \<Rightarrow> bind_res (float_field (t_coverage head)) (\<lambda>x. bind_res (float_field (t_coverage base)) (\<lambda>y. Inr (fl (x - y)))))"

definition diff_totals :: "report_totals option \<Rightarrow> report_totals option \<Rightarrow> report_totals option \<Rightarrow> totals_diff res" where
  "diff_totals base head absolute =
     (case (base, head) of
        (_, None) \<Rightarrow> Inr FileDeleted
      | (None, Some _) \<Rightarrow> Inr FileNew
      | (Some b, Some h) \<Rightarrow>
          if totals_eq b h then Inr SameTotals
          else
            bind_res (diff_tuple b h) (\<lambda>fs.
              case ReportTotals fs of
                None \<Rightarrow> Inl TypeError
              | Some diff \<Rightarrow> bind_res (coverage_change b h absolute diff) (\<lambda>c. Inr (TotalsDiff (diff\<lparr>t_coverage := VFloat c\<rparr>)))))"

section \<open>Changes of a report\<close>

definition new_change :: "string \<Rightarrow> change" where
  "new_change path = \<lparr>ch_path = path, ch_new = True, ch_deleted = False, ch_in_diff = None, ch_old_path = None, ch_totals = None\<rparr>"

definition deleted_change :: "string \<Rightarrow> change" where
  "deleted_change path = \<lparr>ch_path = path, ch_new = False, ch_deleted = True, ch_in_diff = None, ch_old_path = None, ch_totals = None\<rparr>"

text \<open>\<open>d.get("before") or k\<close>.\<close>

definition before_or :: "diff_file \<Rightarrow> string \<Rightarrow> string" where
  "before_or d k = (case df_before d of Some (c # cs) \<Rightarrow> c # cs | _ \<Rightarrow> k)"

definition moved_files :: "raw_diff option \<Rightarrow> string list" where
  "moved_files diff =
     (case diff of None \<Rightarrow> [] | Some d \<Rightarrow> filter (\<lambda>b. b \<noteq> []) (somes (map df_before (dict_values (rd_files d)))))"

definition diff_keys :: "raw_diff option \<Rightarrow> string list" where
  "diff_keys diff = (case diff of None \<Rightarrow> [] | Some d \<Rightarrow> dict_keys (rd_files d))"

text \<open>\<open>base_files - head_files - diff_keys - moved_files\<close>, and the same for the files of the head.\<close>

definition unaccounted_files :: "report \<Rightarrow> report \<Rightarrow> raw_diff option \<Rightarrow> string list" where
  "unaccounted_files r other diff =
     filter (\<lambda>n. n \<notin> set (dict_keys (r_files other)) \<and> n \<notin> set (diff_keys diff) \<and> n \<notin> set (moved_files diff)) (dict_keys (r_files r))"

definition diff_of_file :: "raw_diff option \<Rightarrow> string \<Rightarrow> diff_file option" where
  "diff_of_file diff name = (case diff of None \<Rightarrow> None | Some d \<Rightarrow> dict_get (rd_files d) name)"

text \<open>
  \<open>diff["segments"]\<close>: the diffs of the providers have no such key for deleted and binary files.
\<close>

definition diff_segments :: "diff_file \<Rightarrow> diff_segment list res" where
  "diff_segments d = (if df_type d = ''deleted'' \<or> df_type d = ''binary'' then Inl KeyError else Inr (df_segments d))"

text \<open>What the code does with a file of the head: skip it, note it as new, or compare its lines.\<close>

datatype head_action = SkipFile | AddNew | CompareFile

definition head_file_action :: "report_file option \<Rightarrow> report_file \<Rightarrow> diff_file option \<Rightarrow> head_action res" where
  "head_file_action base_file head_file diff =
     bind_res (case base_file of None \<Rightarrow> Inr False | Some b \<Rightarrow> rf_bool b) (\<lambda>present.
       if present then Inr CompareFile
       else
         (case diff of
            None \<Rightarrow> Inr AddNew
          | Some d \<Rightarrow>
              if df_type d = ''new'' then Inr SkipFile
              else
                bind_res (bind_res (diff_segments d) get_segment_offsets) (\<lambda>so.
                  Inr (if \<exists>p \<in> set (rf_items head_file). fst p \<notin> set (so_additions so) then AddNew else CompareFile))))"

definition file_change :: "report_file option \<Rightarrow> report_file \<Rightarrow> diff_file option \<Rightarrow> change option res" where
  "file_change base_file head_file diff =
     bind_res (iter_changed_lines base_file head_file diff) (\<lambda>lines.
       if lines = [] then Inr None
       else
         bind_res (get_totals_from_list (map (\<lambda>l. fst (snd l)) lines)) (\<lambda>b.
         bind_res (get_totals_from_list (map (\<lambda>l. snd (snd l)) lines)) (\<lambda>h.
         bind_res (case base_file of None \<Rightarrow> Inl AttributeError | Some f \<Rightarrow> rf_total f) (\<lambda>absolute.
         bind_res (diff_totals (Some b) (Some h) (Some absolute)) (\<lambda>td.
         bind_res (case td of SameTotals \<Rightarrow> Inr None | TotalsDiff t \<Rightarrow> Inr (Some t) | _ \<Rightarrow> Inl TypeError) (\<lambda>t.
           Inr (Some \<lparr>ch_path = rf_name head_file, ch_new = False, ch_deleted = False, ch_in_diff = Some (diff \<noteq> None),
             ch_old_path = (case diff of None \<Rightarrow> None | Some d \<Rightarrow> df_before d), ch_totals = t\<rparr>)))))))"

text \<open>The loop over the files of the head; its state are the changes and the new files so far.\<close>

definition head_file_step ::
  "report \<Rightarrow> raw_diff option \<Rightarrow> string list \<Rightarrow> change list \<times> string list \<Rightarrow> report_file \<Rightarrow> (change list \<times> string list) res" where
  "head_file_step base diff missing s f =
     (case s of (changes, new) \<Rightarrow>
        if rf_name f \<in> set missing \<or> rf_name f \<in> set new then Inr (changes, new)
        else
          let d = diff_of_file diff (rf_name f);
              b = r_get base (case d of None \<Rightarrow> rf_name f | Some df \<Rightarrow> before_or df (rf_name f))
          in bind_res (head_file_action b f d) (\<lambda>act.
               case act of
                 SkipFile \<Rightarrow> Inr (changes, new)
               | AddNew \<Rightarrow> Inr (changes, new @ [rf_name f])
               | CompareFile \<Rightarrow> map_res (\<lambda>c. (case c of None \<Rightarrow> changes | Some ch \<Rightarrow> changes @ [ch], new)) (file_change b f d)))"

text \<open>Files of the diff that the base report has and the head report lacks, by their name in the base.\<close>

definition vanished_base_files :: "report \<Rightarrow> report \<Rightarrow> raw_diff \<Rightarrow> (string, string \<times> diff_file) dict" where
  "vanished_base_files base head diff =
     dict_of (map (\<lambda>(k, d). (before_or d k, (k, d)))
       (filter (\<lambda>(k, d). r_get head k = None \<and> r_get base (before_or d k) \<noteq> None) (rd_files diff)))"

definition vanished_change :: "report \<Rightarrow> string \<times> string \<times> diff_file \<Rightarrow> change option res" where
  "vanished_change base v =
     (case v of (base_name, head_name, d) \<Rightarrow>
        if df_type d = ''deleted'' then Inr None
        else
          (case r_get base base_name of
             None \<Rightarrow> Inl AttributeError
           | Some f \<Rightarrow>
               bind_res (bind_res (diff_segments d) get_segment_offsets) (\<lambda>so.
                 Inr (if \<exists>p \<in> set (rf_items f). fst p \<notin> set (so_removals so) then Some (deleted_change head_name) else None))))"

definition get_changes :: "report option \<Rightarrow> report option \<Rightarrow> raw_diff option \<Rightarrow> change list option res" where
  "get_changes base_report head_report diff =
     (case (base_report, head_report) of
        (Some base, Some head) \<Rightarrow>
          let missing = unaccounted_files base head diff
          in bind_res (foldl_res (head_file_step base diff missing) ([], unaccounted_files head base diff) (r_file_list head)) (\<lambda>(changes, new).
             bind_res (case diff of None \<Rightarrow> Inr [] | Some d \<Rightarrow> traverse (vanished_change base) (vanished_base_files base head d)) (\<lambda>vanished.
               Inr (Some (changes @ somes vanished @ map deleted_change missing @ map new_change new))))
      | _ \<Rightarrow> Inr None)"


section \<open>What the offsets mean\<close>

text \<open>
  The offset of a line, the added lines and the first line after a hunk, as functions of the hunk's
  position in the new file.
\<close>

fun hunk_offset :: "int \<Rightarrow> string list \<Rightarrow> int \<Rightarrow> int" where
  "hunk_offset pos [] k = 0"
| "hunk_offset pos (l # ls) k =
     (if startswith l ''-'' then (if k = pos then 1 else 0) + hunk_offset pos ls k
      else if startswith l ''+'' then (if k = pos then -1 else 0) + hunk_offset (pos + 1) ls k
      else hunk_offset (pos + 1) ls k)"

fun hunk_additions :: "int \<Rightarrow> string list \<Rightarrow> int list" where
  "hunk_additions pos [] = []"
| "hunk_additions pos (l # ls) =
     (if startswith l ''-'' then hunk_additions pos ls
      else if startswith l ''+'' then pos # hunk_additions (pos + 1) ls
      else hunk_additions (pos + 1) ls)"

definition hunk_end :: "int \<Rightarrow> string list \<Rightarrow> int" where
  "hunk_end pos ls = pos + int (length (filter (\<lambda>l. \<not> startswith l ''-'') ls))"

lemma hunk_end_simps [simp]:
  "hunk_end pos [] = pos"
  "hunk_end pos (l # ls) = (if startswith l ''-'' then hunk_end pos ls else hunk_end (pos + 1) ls)"
  by (simp_all add: hunk_end_def)

lemma hunk_end_ge: "pos \<le> hunk_end pos ls"
  by (simp add: hunk_end_def)

lemma hunk_offset_outside: "k < pos \<or> hunk_end pos ls < k \<Longrightarrow> hunk_offset pos ls k = 0"
proof (induction ls arbitrary: pos)
  case (Cons l ls)
  then show ?case using hunk_end_ge [of pos ls] hunk_end_ge [of "pos + 1" ls] by auto
qed simp

lemma hunk_additions_range: "n \<in> set (hunk_additions pos ls) \<Longrightarrow> pos \<le> n \<and> n < hunk_end pos ls"
proof (induction ls arbitrary: pos)
  case (Cons l ls)
  then show ?case using hunk_end_ge [of pos ls] hunk_end_ge [of "pos + 1" ls] by (fastforce split: if_splits)
qed simp

lemma sum_from_next:
  fixes g :: "int \<Rightarrow> int"
  assumes "pos \<le> n"
  shows "sum g {pos..n} = g pos + sum g {pos + 1..n}"
proof -
  have "{pos..n} = insert pos {pos + 1..n}" using assms by auto
  then show ?thesis by simp
qed

lemma line_at_append:
  "line_at (xs @ ys) n = (if n \<le> int (length xs) then line_at xs n else line_at ys (n - int (length xs)))"
proof (cases "n \<le> int (length xs)")
  case False
  then have "nat (n - 1) - length xs = nat (n - int (length xs) - 1)" by simp
  with False show ?thesis by (auto simp: line_at_def nth_append)
qed (auto simp: line_at_def nth_append)

lemma line_at_drop: "1 \<le> n \<Longrightarrow> line_at (drop k L) n = line_at L (n + int k)"
proof -
  assume "1 \<le> n"
  then have "nat (n + int k - 1) = k + nat (n - 1)" by simp
  with \<open>1 \<le> n\<close> show ?thesis by (auto simp: line_at_def)
qed

lemma line_at_beyond: "int (length L) < n \<Longrightarrow> line_at L n = None"
  by (auto simp: line_at_def)

lemma patch_Nil: "line_at (patch [] ls) n = None"
  by (induction ls arbitrary: n) (simp_all add: line_at_Cons)

lemma sum_outside:
  fixes g :: "int \<Rightarrow> int"
  assumes "\<And>k. e < k \<Longrightarrow> g k = 0" "e \<le> n"
  shows "sum g {1..n} = sum g {1..e}"
  using assms by (intro sum.mono_neutral_right) auto

text \<open>Applying a hunk moves the line at \<open>n\<close> from where the offsets up to \<open>n\<close> point.\<close>

lemma patch_at:
  assumes "pos \<le> n" "n \<notin> set (hunk_additions pos ls)"
  shows "0 \<le> n - pos + sum (hunk_offset pos ls) {pos..n} \<and>
    line_at (patch xs ls) (n - pos + 1) = line_at xs (n - pos + sum (hunk_offset pos ls) {pos..n} + 1)"
  using assms
proof (induction ls arbitrary: pos xs)
  case Nil
  then show ?case by simp
next
  case (Cons l ls)
  let ?S = "\<lambda>p. sum (hunk_offset p ls) {p..n}"
  consider (minus) "startswith l ''-''" | (plus) "\<not> startswith l ''-''" "startswith l ''+''"
    | (other) "\<not> startswith l ''-''" "\<not> startswith l ''+''" by blast
  then show ?case
  proof cases
    case minus
    have "sum (hunk_offset pos (l # ls)) {pos..n} = 1 + ?S pos"
      using minus Cons.prems(1) by (simp add: sum.distrib)
    with Cons.IH [of pos "tl xs"] Cons.prems minus show ?thesis
      by (cases xs) (auto simp: line_at_Cons algebra_simps)
  next
    case plus
    then have n: "n \<noteq> pos" "pos + 1 \<le> n" "n \<notin> set (hunk_additions (pos + 1) ls)" using Cons.prems by auto
    have "sum (hunk_offset pos (l # ls)) {pos..n} = -1 + sum (hunk_offset (pos + 1) ls) {pos..n}"
      using plus Cons.prems(1) by (simp add: sum.distrib)
    also have "sum (hunk_offset (pos + 1) ls) {pos..n} = ?S (pos + 1)"
      using sum_from_next [OF Cons.prems(1)] by (simp add: hunk_offset_outside)
    finally have S: "sum (hunk_offset pos (l # ls)) {pos..n} = ?S (pos + 1) - 1" by simp
    have "line_at (patch xs (l # ls)) (n - pos + 1) = line_at (patch xs ls) (n - (pos + 1) + 1)"
      using plus n by (simp add: line_at_Cons)
    with Cons.IH [OF n(2,3), of xs] show ?thesis unfolding S by (simp add: algebra_simps)
  next
    case other
    have S: "sum (hunk_offset pos (l # ls)) {pos..n} = ?S (pos + 1)"
      using other sum_from_next [OF Cons.prems(1), of "hunk_offset (pos + 1) ls"] by (simp add: hunk_offset_outside)
    show ?thesis
    proof (cases "n = pos")
      case True
      with S other show ?thesis by (cases xs) (simp_all add: line_at_Cons patch_Nil)
    next
      case False
      with Cons.prems other have n: "pos + 1 \<le> n" "n \<notin> set (hunk_additions (pos + 1) ls)" by auto
      with S Cons.IH [OF n, of "tl xs"] other False show ?thesis
        by (cases xs) (auto simp: line_at_Cons patch_Nil algebra_simps)
    qed
  qed
qed

text \<open>The hunks of a diff follow each other in the new file.\<close>

fun ordered_hunks :: "int \<Rightarrow> diff_segment list \<Rightarrow> bool" where
  "ordered_hunks e [] = True"
| "ordered_hunks e (s # ss) =
     (case segment_start s of Inl _ \<Rightarrow> False | Inr n \<Rightarrow> e \<le> n \<and> ordered_hunks (hunk_end n (seg_lines s)) ss)"

definition hunk_of :: "diff_segment \<Rightarrow> int" where
  "hunk_of s = (case segment_start s of Inl _ \<Rightarrow> 0 | Inr n \<Rightarrow> n)"

definition offset_of :: "diff_segment list \<Rightarrow> int \<Rightarrow> int" where
  "offset_of segs k = sum_list (map (\<lambda>s. hunk_offset (hunk_of s) (seg_lines s) k) segs)"

definition additions_of :: "diff_segment list \<Rightarrow> int list" where
  "additions_of segs = concat (map (\<lambda>s. hunk_additions (hunk_of s) (seg_lines s)) segs)"

lemma ordered_hunksD:
  "ordered_hunks e (s # ss) \<Longrightarrow> \<exists>n. segment_start s = Inr n \<and> hunk_of s = n \<and> e \<le> n \<and> ordered_hunks (hunk_end n (seg_lines s)) ss"
  by (auto simp: hunk_of_def split: sum.splits)

lemma ordered_hunks_mono: "ordered_hunks e segs \<Longrightarrow> e' \<le> e \<Longrightarrow> ordered_hunks e' segs"
  by (cases segs) (auto split: sum.splits)

lemma offset_of_before: "ordered_hunks e segs \<Longrightarrow> k < e \<Longrightarrow> offset_of segs k = 0"
proof (induction segs arbitrary: e)
  case (Cons s segs)
  then obtain n where n: "hunk_of s = n" "e \<le> n" "ordered_hunks (hunk_end n (seg_lines s)) segs"
    using ordered_hunksD by blast
  with Cons.IH [OF n(3)] Cons.prems hunk_end_ge [of n "seg_lines s"] show ?case
    by (simp add: offset_of_def hunk_offset_outside)
qed (simp add: offset_of_def)

lemma additions_of_after: "ordered_hunks e segs \<Longrightarrow> n \<in> set (additions_of segs) \<Longrightarrow> e \<le> n"
proof (induction segs arbitrary: e)
  case (Cons s segs)
  then obtain m where m: "hunk_of s = m" "e \<le> m" "ordered_hunks (hunk_end m (seg_lines s)) segs"
    using ordered_hunksD by blast
  from Cons.prems(2) m(1) consider "n \<in> set (hunk_additions m (seg_lines s))" | "n \<in> set (additions_of segs)"
    by (auto simp: additions_of_def)
  then show ?case
  proof cases
    case 1
    with hunk_additions_range m(2) show ?thesis by fastforce
  next
    case 2
    from Cons.IH [OF m(3) this] hunk_end_ge [of m "seg_lines s"] m(2) show ?thesis by simp
  qed
qed (simp add: additions_of_def)

text \<open>A single hunk on a whole file.\<close>

lemma apply_hunk_at:
  assumes "segment_start s = Inr m" "1 \<le> m" "1 \<le> n" "n \<notin> set (hunk_additions m (seg_lines s))"
  shows "line_at (apply_hunk L s) n = line_at L (n + sum (hunk_offset m (seg_lines s)) {1..n}) \<and>
    (m \<le> n \<longrightarrow> m \<le> n + sum (hunk_offset m (seg_lines s)) {1..n})"
proof (cases "n < m")
  case True
  then have z: "sum (hunk_offset m (seg_lines s)) {1..n} = 0" by (simp add: hunk_offset_outside)
  have "line_at (apply_hunk L s) n = line_at L n"
    using True assms(1) by (auto simp: apply_hunk_def line_at_append patch_Nil) (auto simp: line_at_def)
  with z True show ?thesis by simp
next
  case False
  then have mn: "m \<le> n" by simp
  have "{1..n} = {1..m - 1} \<union> {m..n}" using mn assms(2) by auto
  then have S: "sum (hunk_offset m (seg_lines s)) {1..n} = sum (hunk_offset m (seg_lines s)) {m..n}"
    by (simp add: sum.union_disjoint hunk_offset_outside)
  note p = patch_at [OF mn assms(4), of "drop (nat (m - 1)) L"]
  let ?k = "n + sum (hunk_offset m (seg_lines s)) {m..n}"
  have k: "m \<le> ?k" using p by simp
  have "line_at (apply_hunk L s) n = line_at L ?k"
  proof (cases "nat (m - 1) \<le> length L")
    case True
    then have "line_at (apply_hunk L s) n = line_at (patch (drop (nat (m - 1)) L) (seg_lines s)) (n - m + 1)"
      using assms(1,2) mn by (simp add: apply_hunk_def line_at_append diff_diff_eq2 algebra_simps)
    with p k assms(2) show ?thesis by (simp add: line_at_drop algebra_simps)
  next
    case False
    then have "int (length L) < n" using mn by linarith
    with False have "line_at (apply_hunk L s) n = None" using assms(1) by (simp add: apply_hunk_def line_at_append patch_Nil)
    moreover have "line_at L ?k = None"
    proof -
      have "int (length L) < ?k" using False k by linarith
      then show ?thesis by (rule line_at_beyond)
    qed
    ultimately show ?thesis by simp
  qed
  with S k show ?thesis by simp
qed

text \<open>All hunks of a diff: the line at \<open>n\<close> comes from where all offsets up to \<open>n\<close> point.\<close>

lemma apply_hunks_at:
  assumes "ordered_hunks e segs" "1 \<le> e" "1 \<le> n" "n \<notin> set (additions_of segs)"
  shows "line_at (foldl apply_hunk L segs) n = line_at L (n + sum (offset_of segs) {1..n}) \<and>
    (e \<le> n \<longrightarrow> e \<le> n + sum (offset_of segs) {1..n})"
  using assms
proof (induction segs arbitrary: e L)
  case Nil
  then show ?case by (simp add: offset_of_def)
next
  case (Cons s segs)
  then obtain m where m: "segment_start s = Inr m" "hunk_of s = m" "e \<le> m" "ordered_hunks (hunk_end m (seg_lines s)) segs"
    using ordered_hunksD by blast
  let ?e = "hunk_end m (seg_lines s)" and ?h = "hunk_offset m (seg_lines s)"
  have e: "m \<le> ?e" by (rule hunk_end_ge)
  have n: "n \<notin> set (hunk_additions m (seg_lines s))" "n \<notin> set (additions_of segs)"
    using Cons.prems(4) m(2) by (auto simp: additions_of_def)
  have split: "sum (offset_of (s # segs)) {1..n} = sum ?h {1..n} + sum (offset_of segs) {1..n}"
    using m(2) by (simp add: offset_of_def sum.distrib)
  note IH = Cons.IH [OF m(4) _ Cons.prems(3) n(2), of "apply_hunk L s"]
  show ?case
  proof (cases "n < ?e")
    case True
    then have "sum (offset_of segs) {1..n} = 0" using offset_of_before [OF m(4)] by simp
    moreover have "sum ?h {1..n} = 0" if "n < m" using that by (simp add: hunk_offset_outside)
    ultimately show ?thesis
      using IH apply_hunk_at [OF m(1) _ Cons.prems(3) n(1), of L] e m(3) Cons.prems(2) split by (cases "n < m") auto
  next
    case False
    let ?n = "n + sum (offset_of segs) {1..n}"
    from IH False e m(3) Cons.prems(2) have n': "?e \<le> ?n"
      and l: "line_at (foldl apply_hunk (apply_hunk L s) segs) n = line_at (apply_hunk L s) ?n" by auto
    have "?n \<notin> set (hunk_additions m (seg_lines s))" using hunk_additions_range [of ?n m "seg_lines s"] n' by auto
    with apply_hunk_at [OF m(1), of ?n L] n' e m(3) Cons.prems(2)
    have h: "line_at (apply_hunk L s) ?n = line_at L (?n + sum ?h {1..?n})" "m \<le> ?n + sum ?h {1..?n}" by auto
    have "sum ?h {1..?n} = sum ?h {1..n}"
      using n' False sum_outside [of ?e ?h ?n] sum_outside [of ?e ?h n] by (simp add: hunk_offset_outside)
    with h l split m(3) show ?thesis by (simp add: algebra_simps)
  qed
qed

section \<open>The offsets of the code\<close>

definition offset_at :: "(int, int) dict \<Rightarrow> int \<Rightarrow> int" where
  "offset_at d k = (case dict_get d k of None \<Rightarrow> 0 | Some v \<Rightarrow> v)"

lemma offset_at_bump: "offset_at (bump d k v) j = offset_at d j + (if j = k then v else 0)"
  by (simp add: offset_at_def bump_def split: option.split)

lemma wf_bump [simp]: "wf_dict d \<Longrightarrow> wf_dict (bump d k v)"
  by (simp add: bump_def)

lemma offset_at_nonzero: "wf_dict d \<Longrightarrow> offset_at (filter (\<lambda>p. snd p \<noteq> 0) d) k = offset_at d k"
proof (induction d)
  case (Cons p d)
  then have "fst p \<notin> fst ` set d" by (simp add: wf_dict_def)
  then have "map_of (filter (\<lambda>p. snd p \<noteq> 0) d) (fst p) = None" by (auto simp: map_of_eq_None_iff)
  with Cons show ?case by (cases p) (auto simp: offset_at_def dict_get_def wf_dict_def)
qed (simp add: offset_at_def)

lemma offset_lines_spec:
  assumes "\<forall>l \<in> set ls. l \<noteq> []" "wf_dict (so_offsets s)"
  shows "\<exists>s'. offset_lines sd lno offl offr ls s = Inr s' \<and> wf_dict (so_offsets s') \<and>
    so_additions s' = so_additions s @ hunk_additions (lno + offr) ls \<and>
    (\<forall>k. offset_at (so_offsets s') k = offset_at (so_offsets s) k + hunk_offset (lno + offr) ls k)"
  using assms
proof (induction ls arbitrary: lno offl offr s)
  case (Cons l ls)
  then obtain c r where l: "l = c # r" by (cases l) auto
  let ?m = "s\<lparr>so_removals := so_removals s @ [lno + offl - sd], so_offsets := bump (so_offsets s) (lno + offr) 1\<rparr>"
  let ?p = "s\<lparr>so_additions := so_additions s @ [lno + offr], so_offsets := bump (so_offsets s) (lno + offr) (-1)\<rparr>"
  from Cons.IH [of ?m "lno + 1" offl "offr - 1"] Cons.IH [of ?p "lno + 1" "offl - 1" offr] Cons.IH [of s "lno + 1" offl offr] Cons.prems
  show ?case by (simp add: l first_char_def startswith_char offset_at_bump algebra_simps)
qed simp

definition wf_hunk :: "diff_segment \<Rightarrow> bool" where
  "wf_hunk s \<longleftrightarrow> wf_segment s \<and> is_ok (base_start s)"

lemma offset_segments_spec:
  assumes "\<forall>s \<in> set segs. wf_hunk s" "wf_dict (so_offsets s)"
  shows "\<exists>s'. foldl_res offset_segment s segs = Inr s' \<and> wf_dict (so_offsets s') \<and>
    so_additions s' = so_additions s @ additions_of segs \<and>
    (\<forall>k. offset_at (so_offsets s') k = offset_at (so_offsets s) k + offset_of segs k)"
  using assms
proof (induction segs arbitrary: s)
  case Nil
  then show ?case by (simp add: additions_of_def offset_of_def)
next
  case (Cons g segs)
  then have g: "wf_segment g" "is_ok (base_start g)" by (simp_all add: wf_hunk_def)
  from wf_segmentD [OF g(1)] obtain n where n: "segment_start g = Inr n" "\<forall>l \<in> set (seg_lines g). l \<noteq> []" by blast
  from g(2) obtain b where b: "base_start g = Inr b" by (auto simp: is_ok_iff)
  from offset_lines_spec [OF n(2) Cons.prems(2), of "n - b" n 0 0] obtain s1 where
    s1: "offset_segment s g = Inr s1" "wf_dict (so_offsets s1)"
      "so_additions s1 = so_additions s @ hunk_additions n (seg_lines g)"
      "\<forall>k. offset_at (so_offsets s1) k = offset_at (so_offsets s) k + hunk_offset n (seg_lines g) k"
    by (auto simp: offset_segment_def n(1) b)
  from Cons.IH [OF _ s1(2)] Cons.prems(1) s1 n(1) show ?case
    by (auto simp: additions_of_def offset_of_def hunk_of_def)
qed

lemma get_segment_offsets_spec:
  assumes "\<forall>s \<in> set segs. wf_hunk s"
  shows "\<exists>so. get_segment_offsets segs = Inr so \<and> so_additions so = additions_of segs \<and>
    (\<forall>k. offset_at (so_offsets so) k = offset_of segs k)"
proof -
  from offset_segments_spec [OF assms, of no_offsets] obtain s where
    "foldl_res offset_segment no_offsets segs = Inr s" "wf_dict (so_offsets s)" "so_additions s = additions_of segs"
    "\<forall>k. offset_at (so_offsets s) k = offset_of segs k"
    by (auto simp: no_offsets_def wf_dict_def offset_at_def)
  then show ?thesis by (auto simp: get_segment_offsets_def offset_at_nonzero)
qed

section \<open>The lines that are compared\<close>

lemma upto_Cons: "i \<le> j \<Longrightarrow> [i..j] = i # [i + 1..j]"
  by (simp add: upto.simps)

lemma collect_step:
  "bind_res c (\<lambda>ch. bind_res (map_res somes (traverse f xs)) (\<lambda>rest. Inr (case ch of None \<Rightarrow> rest | Some x \<Rightarrow> x # rest))) =
    map_res somes (bind_res c (\<lambda>y. bind_res (traverse f xs) (\<lambda>ys. Inr (y # ys))))"
  by (cases c; cases "traverse f xs") (auto split: option.split)

text \<open>The loop reads line \<open>n\<close> of the head and line \<open>n\<close> plus all offsets up to \<open>n\<close> of the base.\<close>

lemma changed_loop_spec:
  assumes "\<And>k. i \<le> k \<Longrightarrow> k \<le> j \<Longrightarrow> k \<notin> set skip \<Longrightarrow> 1 \<le> k + sum (offset_at offs) {1..k}"
    and "1 \<le> i" "base_ln = (if offs = [] then 0 else i - 1 + sum (offset_at offs) {1..i - 1})"
  shows "changed_loop (Some b) h offs skip base_ln [i..j] =
    map_res somes (traverse (\<lambda>n. compare_line n (line_at (rf_lines b) (n + sum (offset_at offs) {1..n})) (line_at (rf_lines h) n))
      (filter (\<lambda>n. n \<notin> set skip) [i..j]))"
  using assms
proof (induction "nat (j - i + 1)" arbitrary: i base_ln)
  case 0
  then show ?case by simp
next
  case (Suc x)
  then have ij: "i \<le> j" by simp
  let ?S = "sum (offset_at offs) {1..i}"
  have S: "?S = sum (offset_at offs) {1..i - 1} + offset_at offs i"
  proof -
    have "{1..i} = insert i {1..i - 1}" using Suc.prems(2) by auto
    then show ?thesis by simp
  qed
  let ?b = "if offs = [] then base_ln else base_ln + 1 + (case dict_get offs i of None \<Rightarrow> 0 | Some v \<Rightarrow> v)"
  have b: "?b = (if offs = [] then 0 else i + ?S)"
    using Suc.prems(3) S by (simp add: offset_at_def)
  have IH: "changed_loop (Some b) h offs skip ?b [i + 1..j] =
    map_res somes (traverse (\<lambda>n. compare_line n (line_at (rf_lines b) (n + sum (offset_at offs) {1..n})) (line_at (rf_lines h) n))
      (filter (\<lambda>n. n \<notin> set skip) [i + 1..j]))"
    by (rule Suc.hyps(1)) (use Suc.hyps(2) Suc.prems(1,2) b in auto)
  have z: "offs = [] \<Longrightarrow> ?S = 0" by (simp add: offset_at_def)
  show ?case
  proof (cases "i \<in> set skip")
    case True
    with IH show ?thesis by (simp add: upto_Cons [OF ij] Let_def)
  next
    case False
    with Suc.prems(1) [of i] ij have "1 \<le> i + ?S" by simp
    then have g: "rf_get b (if ?b = 0 then i else ?b) = Inr (line_at (rf_lines b) (i + ?S))"
      "rf_get h i = Inr (line_at (rf_lines h) i)"
      using b z Suc.prems(2) by (auto simp: rf_get_line_at)
    show ?thesis
      unfolding upto_Cons [OF ij] changed_loop.simps Let_def option.case g bind_res_simps if_not_P [OF False] IH collect_step
        filter.simps if_P [OF False] traverse.simps ..
  qed
qed

section \<open>Expected changes\<close>

text \<open>Two lines that count as unchanged, and a file of the head whose coverage is explained by the diff.\<close>

definition same_kind :: "report_line option \<Rightarrow> report_line option \<Rightarrow> bool" where
  "same_kind a b =
     (case (a, b) of
        (None, None) \<Rightarrow> True
      | (Some x, Some y) \<Rightarrow> is_ok (line_type (rl_coverage x)) \<and> line_type (rl_coverage x) = line_type (rl_coverage y)
      | _ \<Rightarrow> False)"

lemma compare_same_kind: "same_kind a b \<Longrightarrow> compare_line n a b = Inr None"
proof (cases a; cases b)
  fix x y assume "same_kind a b" and ab: "a = Some x" "b = Some y"
  then obtain t where "line_type (rl_coverage x) = Inr t" "line_type (rl_coverage y) = Inr t"
    by (cases "line_type (rl_coverage x)") (simp_all add: same_kind_def)
  with ab show ?thesis by (simp add: compare_line_def line_has_changed_def)
qed (simp_all add: same_kind_def compare_line_def)

text \<open>Two files whose lines are of the same kind, except for the lines in \<open>skip\<close>.\<close>

definition same_lines :: "int list \<Rightarrow> report_line option list \<Rightarrow> report_line option list \<Rightarrow> bool" where
  "same_lines skip a b =
     list_all (\<lambda>n. n \<in> set skip \<or> same_kind (line_at a n) (line_at b n)) [1..int (max (length a) (length b))]"

lemma same_linesD:
  assumes "same_lines skip a b" "n \<notin> set skip"
  shows "same_kind (line_at a n) (line_at b n)"
proof (cases "1 \<le> n \<and> n \<le> int (max (length a) (length b))")
  case True
  with assms show ?thesis by (auto simp: same_lines_def list_all_iff)
next
  case False
  then have "line_at a n = None" "line_at b n = None" by (auto simp: line_at_def)
  then show ?thesis by (simp add: same_kind_def)
qed

definition file_explained :: "report_file option \<Rightarrow> report_file \<Rightarrow> diff_file option \<Rightarrow> bool" where
  "file_explained base head diff =
     (case (base, diff) of
        (None, None) \<Rightarrow> False
      | (Some b, None) \<Rightarrow> rf_bool b = Inr True \<and> same_lines [] (rf_lines b) (rf_lines head)
      | (None, Some d) \<Rightarrow> df_type d = ''new''
      | (Some b, Some d) \<Rightarrow>
          rf_bool b = Inr True \<and> df_type d = ''modified'' \<and> list_all wf_hunk (df_segments d) \<and> ordered_hunks 1 (df_segments d) \<and>
          same_lines (additions_of (df_segments d)) (rf_lines (rf_shift_lines_by_diff b (df_segments d))) (rf_lines head))"

lemma traverse_None: "(\<And>x. x \<in> set xs \<Longrightarrow> f x = Inr None) \<Longrightarrow> map_res somes (traverse f xs) = Inr []"
  by (induction xs) auto

lemma iter_changed_plain:
  "iter_changed_lines (Some b) h None =
     map_res somes (traverse (\<lambda>n. compare_line n (line_at (rf_lines b) n) (line_at (rf_lines h) n)) [1..last_line (Some b) h no_offsets])"
  using changed_loop_spec [of 1 "last_line (Some b) h no_offsets" "[]" "[]" 0 b h]
  by (simp add: iter_changed_lines_def offset_at_def)

text \<open>The lines that \<open>iter_changed_lines\<close> compares, in terms of the shifted file.\<close>

lemma iter_changed_shifted:
  assumes "df_type d = ''modified''" "\<forall>s \<in> set (df_segments d). wf_hunk s" "ordered_hunks 1 (df_segments d)"
  shows "\<exists>so. get_segment_offsets (df_segments d) = Inr so \<and> so_additions so = additions_of (df_segments d) \<and>
    iter_changed_lines (Some b) h (Some d) =
      map_res somes (traverse (\<lambda>n. compare_line n (line_at (rf_lines (rf_shift_lines_by_diff b (df_segments d))) n) (line_at (rf_lines h) n))
        (filter (\<lambda>n. n \<notin> set (so_additions so)) [1..last_line (Some b) h so]))"
proof -
  let ?segs = "df_segments d"
  from get_segment_offsets_spec [OF assms(2)] obtain so where so: "get_segment_offsets ?segs = Inr so"
    "so_additions so = additions_of ?segs" "\<And>k. offset_at (so_offsets so) k = offset_of ?segs k" by blast
  have sums: "sum (offset_at (so_offsets so)) {1..n} = sum (offset_of ?segs) {1..n}" for n by (simp add: so(3))
  have L: "rf_lines (rf_shift_lines_by_diff b ?segs) = foldl apply_hunk (rf_lines b) ?segs"
    using shift_segments_patch [of ?segs "rf_lines b"] assms(2) by (simp add: rf_shift_lines_by_diff_def wf_hunk_def)
  note at = apply_hunks_at [OF assms(3), of _ "rf_lines b", simplified]
  have "changed_loop (Some b) h (so_offsets so) (so_additions so) 0 [1..last_line (Some b) h so] =
    map_res somes (traverse (\<lambda>n. compare_line n (line_at (rf_lines b) (n + sum (offset_at (so_offsets so)) {1..n})) (line_at (rf_lines h) n))
      (filter (\<lambda>n. n \<notin> set (so_additions so)) [1..last_line (Some b) h so]))"
    by (rule changed_loop_spec) (use at in \<open>auto simp: sums so(2)\<close>)
  also have "\<dots> = map_res somes (traverse (\<lambda>n. compare_line n (line_at (rf_lines (rf_shift_lines_by_diff b ?segs)) n) (line_at (rf_lines h) n))
      (filter (\<lambda>n. n \<notin> set (so_additions so)) [1..last_line (Some b) h so]))"
    unfolding L by (intro arg_cong [of _ _ "map_res somes"] traverse_cong refl) (use at in \<open>auto simp: sums so(2)\<close>)
  finally show ?thesis using so(1,2) assms(1) by (simp add: iter_changed_lines_def)
qed

lemma file_explained_unchanged:
  assumes "file_explained base head diff" "base \<noteq> None"
  shows "head_file_action base head diff = Inr CompareFile" "file_change base head diff = Inr None"
proof -
  have "iter_changed_lines base head diff = Inr []"
  proof (cases diff)
    case None
    with assms obtain b where b: "base = Some b" "same_lines [] (rf_lines b) (rf_lines head)"
      by (auto simp: file_explained_def)
    show ?thesis unfolding b(1) None iter_changed_plain
      by (rule traverse_None) (rule compare_same_kind [OF same_linesD [OF b(2)]], simp)
  next
    case (Some d)
    with assms obtain b where b: "base = Some b" and d: "df_type d = ''modified''" "\<forall>s \<in> set (df_segments d). wf_hunk s"
      "ordered_hunks 1 (df_segments d)" and same: "same_lines (additions_of (df_segments d)) (rf_lines (rf_shift_lines_by_diff b (df_segments d))) (rf_lines head)"
      by (auto simp: file_explained_def list_all_iff)
    from iter_changed_shifted [OF d, of b head] obtain so where so: "so_additions so = additions_of (df_segments d)"
      and lines: "iter_changed_lines (Some b) head (Some d) =
        map_res somes (traverse (\<lambda>n. compare_line n (line_at (rf_lines (rf_shift_lines_by_diff b (df_segments d))) n) (line_at (rf_lines head) n))
          (filter (\<lambda>n. n \<notin> set (so_additions so)) [1..last_line (Some b) head so]))" by blast
    show ?thesis unfolding b Some lines by (rule traverse_None) (use same_linesD [OF same] so in \<open>auto intro!: compare_same_kind\<close>)
  qed
  then show "file_change base head diff = Inr None" by (simp add: file_change_def)
  show "head_file_action base head diff = Inr CompareFile"
    using assms by (auto simp: head_file_action_def file_explained_def split: option.splits if_splits)
qed

lemma new_file_skipped: "file_explained None head diff \<Longrightarrow> head_file_action None head diff = Inr SkipFile"
  by (auto simp: file_explained_def head_file_action_def split: option.splits)

lemma changed_loop_no_base:
  "(\<And>n. n \<in> set ns \<Longrightarrow> n \<notin> set skip \<Longrightarrow> rf_get h n = Inr None) \<Longrightarrow> changed_loop None h offs skip b ns = Inr []"
  by (induction ns arbitrary: b) (simp_all add: Let_def compare_line_def)

text \<open>A report whose files are all explained by the diff.\<close>

definition base_of :: "report \<Rightarrow> raw_diff option \<Rightarrow> string \<Rightarrow> report_file option" where
  "base_of base diff name =
     r_get base (case diff_of_file diff name of None \<Rightarrow> name | Some d \<Rightarrow> before_or d name)"

definition report_explained :: "report \<Rightarrow> report \<Rightarrow> raw_diff option \<Rightarrow> bool" where
  "report_explained base head diff \<longleftrightarrow>
     list_all (\<lambda>f. file_explained (base_of base diff (rf_name f)) f (diff_of_file diff (rf_name f))) (r_file_list head) \<and>
     unaccounted_files base head diff = [] \<and>
     list_all (\<lambda>(k, d). r_get head k = None \<longrightarrow> df_type d = ''deleted'') (case diff of None \<Rightarrow> [] | Some d \<Rightarrow> rd_files d)"

lemma head_file_step_explained:
  assumes "file_explained (base_of base diff (rf_name f)) f (diff_of_file diff (rf_name f))"
  shows "head_file_step base diff missing s f = Inr s"
proof (cases "base_of base diff (rf_name f)")
  case None
  with assms new_file_skipped show ?thesis by (cases s) (auto simp: head_file_step_def base_of_def [symmetric] Let_def)
next
  case (Some b)
  with assms file_explained_unchanged [of "Some b"] show ?thesis
    by (cases s) (auto simp: head_file_step_def base_of_def [symmetric] Let_def)
qed

lemma foldl_res_stays: "(\<And>x s. x \<in> set xs \<Longrightarrow> f s x = Inr s) \<Longrightarrow> foldl_res f s xs = Inr s"
  by (induction xs) auto

lemma explained_no_new:
  assumes "wf_report head" "report_explained base head diff"
  shows "unaccounted_files head base diff = []"
proof (rule ccontr)
  assume "unaccounted_files head base diff \<noteq> []"
  then obtain n f where n: "(n, f) \<in> set (r_files head)" "n \<notin> set (dict_keys (r_files base))" "n \<notin> set (diff_keys diff)"
    by (auto simp: unaccounted_files_def filter_empty_conv dict_keys_def)
  then have "rf_name f = n" "f \<in> set (r_file_list head)" using assms(1) by (force simp: wf_report_def r_file_list_def dict_values_def)+
  moreover have "diff_of_file diff n = None" "r_get base n = None"
    using n by (auto simp: diff_of_file_def diff_keys_def r_get_def dict_get_None split: option.splits)
  ultimately show False using assms(2) by (auto simp: report_explained_def list_all_iff base_of_def file_explained_def split: option.splits)
qed

lemma set_dict_of: "set (dict_of kvs) \<subseteq> set kvs"
proof
  fix p assume "p \<in> set (dict_of kvs)"
  then have "map_of (rev kvs) (fst p) = Some (snd p)"
    using dict_get_iff [OF wf_dict_of, of kvs "fst p" "snd p"] by (simp add: dict_get_of)
  then show "p \<in> set kvs" by (auto dest: map_of_SomeD)
qed

lemma explained_no_vanished:
  assumes "report_explained base head (Some d)"
  shows "\<exists>xs. traverse (vanished_change base) (vanished_base_files base head d) = Inr xs \<and> somes xs = []"
proof -
  have "df_type e = ''deleted''" if "(b, k, e) \<in> set (vanished_base_files base head d)" for b k e
    using subsetD [OF set_dict_of that [unfolded vanished_base_files_def]] assms
    by (auto simp: report_explained_def list_all_iff)
  then have "map_res somes (traverse (vanished_change base) (vanished_base_files base head d)) = Inr []"
    by (intro traverse_None) (auto simp: vanished_change_def)
  then show ?thesis by auto
qed

lemma no_changes_when_explained:
  assumes "wf_report head" "report_explained base head diff"
  shows "get_changes (Some base) (Some head) diff = Inr (Some [])"
proof -
  have "foldl_res (head_file_step base diff []) ([], []) (r_file_list head) = Inr ([], [])"
    by (rule foldl_res_stays) (use assms(2) head_file_step_explained in \<open>auto simp: report_explained_def list_all_iff\<close>)
  moreover have "unaccounted_files base head diff = []" using assms(2) by (simp add: report_explained_def)
  ultimately show ?thesis
    using explained_no_new [OF assms] explained_no_vanished [of base head] assms(2)
    by (cases diff) (auto simp: get_changes_def Let_def)
qed

section \<open>Properties\<close>

text \<open>A base file of three lines, of which a diff replaces the second by two lines.\<close>

definition covered :: "int \<Rightarrow> report_line" where
  "covered n = ReportLine_create (CovInt n) None [] None"

definition sample_base :: report_file where
  "sample_base = ReportFile ''a.py'' (Some (zero_totals\<lparr>t_lines := 3\<rparr>)) [Some (covered 1), Some (covered 0), Some (covered 1)] None None"

definition sample_head :: report_file where
  "sample_head = ReportFile ''a.py'' None
     [Some (covered 1), Some (covered 0), None, Some (covered 1)] None None"

definition sample_diff :: diff_file where
  "sample_diff = \<lparr>df_type = ''modified'', df_before = None,
     df_segments = [\<lparr>seg_header = [''1'', ''3'', ''1'', ''4''], seg_lines = ['' a'', ''-b'', ''+c'', ''+d'', '' e'']\<rparr>], df_totals = None\<rparr>"


text \<open>
  C7. Comparing a file with its version in the base report through a diff is comparing it line by line
  with the base file shifted by that diff, without the lines the diff adds: the offsets that the
  code computes for every line are those of applying the diff as a patch.
\<close>

theorem changes_compare_shifted_base:
  assumes "df_type d = ''modified''" "\<forall>s \<in> set (df_segments d). wf_hunk s" "ordered_hunks 1 (df_segments d)"
  shows "\<exists>so. get_segment_offsets (df_segments d) = Inr so \<and>
    iter_changed_lines (Some b) h (Some d) =
      map_res somes (traverse (\<lambda>n. compare_line n (line_at (rf_lines (rf_shift_lines_by_diff b (df_segments d))) n) (line_at (rf_lines h) n))
        (filter (\<lambda>n. n \<notin> set (so_additions so)) [1..last_line (Some b) h so]))"
  using iter_changed_shifted [OF assms] by blast

theorem changes_compare_shifted_base_witness:
  "iter_changed_lines (Some sample_base) sample_head (Some sample_diff) = Inr []"
proof -
  have h: "df_type sample_diff = ''modified''" "\<forall>s \<in> set (df_segments sample_diff). wf_hunk s" "ordered_hunks 1 (df_segments sample_diff)"
    by code_simp+
  have "get_segment_offsets (df_segments sample_diff) = Inr \<lparr>so_offsets = [(3, -1)], so_additions = [2, 3], so_removals = [2]\<rparr>"
    by code_simp
  moreover have "map_res somes (traverse (\<lambda>n. compare_line n (line_at (rf_lines (rf_shift_lines_by_diff sample_base (df_segments sample_diff))) n)
      (line_at (rf_lines sample_head) n)) (filter (\<lambda>n. n \<notin> set [2, 3]) [1..last_line (Some sample_base) sample_head
      \<lparr>so_offsets = [(3, -1)], so_additions = [2, 3], so_removals = [2]\<rparr>])) = Inr []"
    by code_simp
  ultimately show ?thesis using changes_compare_shifted_base [OF h, of sample_base sample_head] by simp
qed

text \<open>
  A report has no unexpected changes when the diff explains it: every file of the head is new in the
  diff, or has lines of the same kind as the base file shifted by its diff outside of the added
  lines; every file of the base is in the head or in the diff; and the files that the head lacks are deleted
  by the diff.
\<close>

theorem explained_report_no_changes:
  assumes "wf_report head" "report_explained base head diff"
  shows "get_changes (Some base) (Some head) diff = Inr (Some [])"
  by (rule no_changes_when_explained [OF assms])

theorem explained_report_no_changes_witness:
  "get_changes (Some (report_of [] [sample_base])) (Some (report_of [] [sample_head]))
     (Some \<lparr>rd_files = [(''a.py'', sample_diff)], rd_totals = None\<rparr>) = Inr (Some [])"
proof (rule explained_report_no_changes)
  show "wf_report (report_of [] [sample_head])" by (simp add: wf_report_def report_of_def wf_dict_def sample_head_def ReportFile_def)
  show "report_explained (report_of [] [sample_base]) (report_of [] [sample_head])
      (Some \<lparr>rd_files = [(''a.py'', sample_diff)], rd_totals = None\<rparr>)"
    by code_simp
qed

text \<open>
  Reading the totals of a base file that does not exist cannot happen: a file without a version in
  the base report is only compared when the diff adds all of its lines, and then has no changed lines.
\<close>

theorem compare_without_base:
  assumes "head_file_action None head diff = Inr CompareFile"
  shows "file_change None head diff = Inr None"
proof -
  from assms obtain d where d: "diff = Some d" by (cases diff) (auto simp: head_file_action_def)
  show ?thesis
  proof (cases "df_type d = ''modified''")
    case True
    with assms d obtain so where so: "get_segment_offsets (df_segments d) = Inr so"
      and added: "\<forall>p \<in> set (rf_items head). fst p \<in> set (so_additions so)"
      by (auto simp: head_file_action_def diff_segments_def split: if_splits)
    have "changed_loop None head (so_offsets so) (so_additions so) 0 [1..last_line None head so] = Inr []"
    proof (rule changed_loop_no_base)
      fix n assume n: "n \<in> set [1..last_line None head so]" "n \<notin> set (so_additions so)"
      with added have "n \<notin> fst ` set (rf_items head)" by auto
      then have "line_at (rf_lines head) n = None" unfolding rf_items_def by (cases "line_at (rf_lines head) n") (force simp: set_enum_line_at [symmetric])+
      with n show "rf_get head n = Inr None" by (simp add: rf_get_line_at)
    qed
    with True so d show ?thesis by (simp add: file_change_def iter_changed_lines_def)
  qed (simp add: d file_change_def iter_changed_lines_def)
qed

theorem compare_without_base_witness:
  "file_change None (ReportFile ''a.py'' None [None, Some (covered 1)] None None) (Some sample_diff) = Inr None"
  by (rule compare_without_base) code_simp

section \<open>Deviations\<close>

text \<open>
  The difference of totals leaves out the sessions and passes the other fields by position, so that the
  difference of the complexities lands in the sessions.
\<close>

lemma diff_totals_shifts_complexity:
  "\<exists>t. diff_totals (Some zero_totals) (Some (zero_totals\<lparr>t_complexity := Some 1\<rparr>)) None = Inr (TotalsDiff t) \<and>
    t_sessions t = 1 \<and> t_complexity t = Some 0"
  by (simp add: diff_totals_def totals_eq_def totals_astuple_def zero_totals_def opt_fval_def fval_eq_def fval_num_def diff_tuple_def
      diff_fields_def int_float_field_def float_field_def trunc_rat_def coverage_change_def ReportTotals_def int_field_def cx_field_def numeral_eq_Suc)

text \<open>A binary file of the diff that only the head report covers makes the comparison raise a \<open>KeyError\<close>.\<close>

lemma binary_file_raises:
  "get_changes (Some (report_of [] [])) (Some (report_of [] [sample_head]))
     (Some \<lparr>rd_files = [(''a.py'', \<lparr>df_type = ''binary'', df_before = None, df_segments = [], df_totals = None\<rparr>)], rd_totals = None\<rparr>) = Inl KeyError"
  by code_simp

end
