(* ===== verification/File_Comparison.thy ===== *)
theory File_Comparison
  imports Changes
begin

text \<open>
  The comparison of a file for the web application (apps/codecov-api/services/comparison.py): the traversal
  of two versions of a file along a diff, the visitors that compare lines and summarise changes, the
  segments that are displayed, and the comparisons of pull requests.

  The traversal is a loop that may not end (\<open>partial_function\<close>, with \<^const>\<open>None\<close> for a run that never stops).
  Lines of a report file are decoded; \<open>line[0]\<close> is the coverage of the line.
\<close>

section \<open>Traversal\<close>

text \<open>What a visitor is called with.\<close>

record visit =
  v_base :: "int option"
  v_head :: "int option"
  v_value :: "string option"
  v_is_diff :: bool

record traverse_manager =
  tm_head_eof :: int
  tm_base_eof :: int
  tm_segments :: "diff_segment list"
  tm_src :: "string list"
  tm_base_ln :: int
  tm_head_ln :: int

definition is_added :: "string option \<Rightarrow> bool" where
  "is_added v = (case v of Some (c # _) \<Rightarrow> c = CHR ''+'' | _ \<Rightarrow> False)"

definition is_removed :: "string option \<Rightarrow> bool" where
  "is_removed v = (case v of Some (c # _) \<Rightarrow> c = CHR ''-'' | _ \<Rightarrow> False)"

text \<open>\<open>int(segment["header"][i])\<close> and \<open>int(segment["header"][i] or 1)\<close>.\<close>

definition header_start :: "diff_segment \<Rightarrow> nat \<Rightarrow> int res" where
  "header_start s i = (if i < length (seg_header s) then py_int (seg_header s ! i) else Inl IndexError)"

definition header_count :: "diff_segment \<Rightarrow> nat \<Rightarrow> int res" where
  "header_count s i =
     (if i < length (seg_header s) then (if seg_header s ! i = [] then Inr 1 else py_int (seg_header s ! i)) else Inl IndexError)"

definition FileComparisonTraverseManager :: "int \<Rightarrow> int \<Rightarrow> diff_segment list \<Rightarrow> string list \<Rightarrow> traverse_manager res" where
  "FileComparisonTraverseManager head_eof base_eof segs src =
     map_res (\<lambda>(b, h). \<lparr>tm_head_eof = head_eof, tm_base_eof = base_eof, tm_segments = segs, tm_src = src, tm_base_ln = b, tm_head_ln = h\<rparr>)
       (case segs of
          [] \<Rightarrow> Inr (1, 1)
        | s # _ \<Rightarrow> bind_res (header_start s 0) (\<lambda>b. map_res (\<lambda>h. (min 1 b, min 1 h)) (header_start s 2)))"

definition traverse_finished :: "traverse_manager \<Rightarrow> bool" where
  "traverse_finished m =
     (tm_segments m = [] \<and>
      (if tm_src m \<noteq> [] then int (length (tm_src m)) < tm_head_ln m
       else tm_head_eof m \<le> tm_head_ln m \<and> tm_base_eof m \<le> tm_base_ln m))"

text \<open>\<open>start <= ln < start + count\<close>, where the count is only read when the first comparison holds.\<close>

definition within_offset :: "diff_segment \<Rightarrow> nat \<Rightarrow> int \<Rightarrow> bool res" where
  "within_offset s i n =
     bind_res (header_start s i) (\<lambda>start.
       if start \<le> n then map_res (\<lambda>c. n < start + c) (header_count s (i + 1)) else Inr False)"

definition traversing_diff :: "traverse_manager \<Rightarrow> bool res" where
  "traversing_diff m =
     (case tm_segments m of
        [] \<Rightarrow> Inr False
      | s # _ \<Rightarrow> bind_res (within_offset s 0 (tm_base_ln m)) (\<lambda>b. map_res (\<lambda>h. b \<or> h) (within_offset s 2 (tm_head_ln m))))"

text \<open>Indexing a list, from the end for negative numbers.\<close>

definition py_nth :: "'a list \<Rightarrow> int \<Rightarrow> 'a res" where
  "py_nth xs i =
     (if 0 \<le> i \<and> i < int (length xs) then Inr (xs ! nat i)
      else if i < 0 \<and> - int (length xs) \<le> i then Inr (xs ! nat (int (length xs) + i))
      else Inl IndexError)"

definition pop_line :: "traverse_manager \<Rightarrow> (string option \<times> traverse_manager) res" where
  "pop_line m =
     bind_res (traversing_diff m) (\<lambda>d.
       if d then
         (case tm_segments m of
            s # ss \<Rightarrow>
              (case seg_lines s of
                 [] \<Rightarrow> Inl IndexError
               | l # ls \<Rightarrow> Inr (Some l, m\<lparr>tm_segments := s\<lparr>seg_lines := ls\<rparr> # ss\<rparr>))
          | [] \<Rightarrow> Inr (None, m))
       else if tm_src m \<noteq> [] then map_res (\<lambda>v. (Some v, m)) (py_nth (tm_src m) (tm_head_ln m - 1))
       else Inr (None, m))"

text \<open>One round of the loop: the call of the visitors and the state after it.\<close>

definition drop_segment :: "traverse_manager \<Rightarrow> traverse_manager" where
  "drop_segment m =
     (case tm_segments m of
        s # ss \<Rightarrow> if seg_lines s = [] then m\<lparr>tm_segments := ss\<rparr> else m
      | [] \<Rightarrow> m)"

definition traverse_step :: "traverse_manager \<Rightarrow> (visit \<times> traverse_manager) res" where
  "traverse_step m =
     bind_res (pop_line m) (\<lambda>(v, m1).
     bind_res (traversing_diff m1) (\<lambda>d.
       let added = d \<and> is_added v;
           removed = d \<and> is_removed v
       in Inr (\<lparr>v_base = if added then None else Some (tm_base_ln m1), v_head = if removed then None else Some (tm_head_ln m1),
                v_value = v, v_is_diff = d\<rparr>,
               drop_segment (if added then m1\<lparr>tm_head_ln := tm_head_ln m1 + 1\<rparr>
                             else if removed then m1\<lparr>tm_base_ln := tm_base_ln m1 + 1\<rparr>
                             else m1\<lparr>tm_head_ln := tm_head_ln m1 + 1, tm_base_ln := tm_base_ln m1 + 1\<rparr>))))"

partial_function (option) traverse_apply :: "('s \<Rightarrow> visit \<Rightarrow> 's res) \<Rightarrow> traverse_manager \<Rightarrow> 's \<Rightarrow> 's res option" where
  "traverse_apply visitor m s =
     (if traverse_finished m then Some (Inr s)
      else
        (case traverse_step m of
           Inl e \<Rightarrow> Some (Inl e)
         | Inr (v, m') \<Rightarrow>
             (case visitor s v of
                Inl e \<Rightarrow> Some (Inl e)
              | Inr s' \<Rightarrow> traverse_apply visitor m' s')))"

declare traverse_apply.simps [code]

section \<open>Visitors\<close>

text \<open>\<open>_lines[ln - 1]\<close>: line 0 is the last line of the file.\<close>

definition get_line :: "report_file option \<Rightarrow> int option \<Rightarrow> report_line option" where
  "get_line f n =
     (case (f, n) of
        (Some f, Some n) \<Rightarrow> (case py_nth (rf_lines f) (n - 1) of Inl _ \<Rightarrow> None | Inr l \<Rightarrow> l)
      | _ \<Rightarrow> None)"

record line_comparison =
  lc_base_line :: "report_line option"
  lc_head_line :: "report_line option"
  lc_base_ln :: "int option"
  lc_head_ln :: "int option"
  lc_value :: string
  lc_is_diff :: bool

definition create_line_comparison :: "report_file option \<Rightarrow> report_file option \<Rightarrow> line_comparison list \<Rightarrow> visit \<Rightarrow> line_comparison list" where
  "create_line_comparison base head ls v =
     (case v_value v of
        None \<Rightarrow> ls
      | Some x \<Rightarrow>
          ls @ [\<lparr>lc_base_line = get_line base (v_base v), lc_head_line = get_line head (v_head v), lc_base_ln = v_base v, lc_head_ln = v_head v,
                 lc_value = x, lc_is_diff = v_is_diff v\<rparr>])"

text \<open>The summary is a \<open>Counter\<close>; \<open>coverage_type_map\<close> has no entry for skipped lines.\<close>

definition coverage_type_map :: "line_type_t option \<Rightarrow> string res" where
  "coverage_type_map t =
     (case t of
        Some LT_hit \<Rightarrow> Inr ''hits''
      | Some LT_miss \<Rightarrow> Inr ''misses''
      | Some LT_partial \<Rightarrow> Inr ''partials''
      | _ \<Rightarrow> Inl KeyError)"

definition counter_add :: "(string, int) dict \<Rightarrow> string \<Rightarrow> int \<Rightarrow> (string, int) dict" where
  "counter_add c k n = dict_set c k ((case dict_get c k of None \<Rightarrow> 0 | Some v \<Rightarrow> v) + n)"

definition update_summary :: "(string, int) dict \<Rightarrow> line_type_t option \<Rightarrow> line_type_t option \<Rightarrow> (string, int) dict res" where
  "update_summary c b h =
     bind_res (coverage_type_map b) (\<lambda>kb.
     map_res (\<lambda>kh. counter_add (counter_add c kb (-1)) kh 1) (coverage_type_map h))"

definition summarise_lines :: "(string, int) dict \<Rightarrow> report_line option \<Rightarrow> report_line option \<Rightarrow> (string, int) dict res" where
  "summarise_lines c base_line head_line =
     (case (base_line, head_line) of
        (Some b, Some h) \<Rightarrow>
          bind_res (line_type (rl_coverage b)) (\<lambda>tb.
          bind_res (line_type (rl_coverage h)) (\<lambda>th.
            if tb = th then Inr c else update_summary c tb th))
      | _ \<Rightarrow> Inr c)"

definition create_change_summary :: "report_file option \<Rightarrow> report_file option \<Rightarrow> (string, int) dict \<Rightarrow> visit \<Rightarrow> (string, int) dict res" where
  "create_change_summary base head c v =
     (if is_added (v_value v) \<or> is_removed (v_value v) then Inr c
      else summarise_lines c (get_line base (v_base v)) (get_line head (v_head v)))"


section \<open>Compared lines\<close>

definition lc_added :: "line_comparison \<Rightarrow> bool" where
  "lc_added l = (lc_is_diff l \<and> is_added (Some (lc_value l)))"

definition lc_removed :: "line_comparison \<Rightarrow> bool" where
  "lc_removed l = (lc_is_diff l \<and> is_removed (Some (lc_value l)))"

definition lc_number :: "line_comparison \<Rightarrow> int option \<times> int option" where
  "lc_number l = (if lc_added l then None else lc_base_ln l, if lc_removed l then None else lc_head_ln l)"

definition line_coverage :: "bool \<Rightarrow> report_line option \<Rightarrow> line_type_t option res" where
  "line_coverage absent l = (if absent then Inr None else case l of None \<Rightarrow> Inr None | Some x \<Rightarrow> line_type (rl_coverage x))"

definition lc_coverage :: "line_comparison \<Rightarrow> (line_type_t option \<times> line_type_t option) res" where
  "lc_coverage l =
     bind_res (line_coverage (lc_added l) (lc_base_line l)) (\<lambda>b.
     map_res (\<lambda>h. (b, h)) (line_coverage (lc_removed l) (lc_head_line l)))"

definition lc_head_line_sessions :: "line_comparison \<Rightarrow> line_session list option" where
  "lc_head_line_sessions l = map_option rl_sessions (lc_head_line l)"

definition hit_sessions :: "line_session list \<Rightarrow> int list res" where
  "hit_sessions ss =
     map_res (\<lambda>ts. map (ls_id \<circ> fst) (filter (\<lambda>p. snd p = Some LT_hit) (zip ss ts))) (traverse (\<lambda>s. line_type (ls_coverage s)) ss)"

definition lc_hit_count :: "line_comparison \<Rightarrow> int option res" where
  "lc_hit_count l =
     (case lc_head_line_sessions l of
        None \<Rightarrow> Inr None
      | Some ss \<Rightarrow> map_res (\<lambda>ids. if 0 < length ids then Some (int (length ids)) else None) (hit_sessions ss))"

definition lc_hit_session_ids :: "line_comparison \<Rightarrow> int list option res" where
  "lc_hit_session_ids l =
     (case lc_head_line_sessions l of
        None \<Rightarrow> Inr None
      | Some ss \<Rightarrow> map_res (\<lambda>ids. if 0 < length ids then Some ids else None) (hit_sessions ss))"

section \<open>Segments\<close>

definition padding_lines :: nat where
  "padding_lines = 3"

definition line_distance :: nat where
  "line_distance = 6"

definition coverage_differs :: "line_comparison \<Rightarrow> bool res" where
  "coverage_differs l = map_res (\<lambda>(b, h). b \<noteq> h) (lc_coverage l)"

definition of_interest :: "line_comparison \<Rightarrow> bool res" where
  "of_interest l = map_res (\<lambda>d. d \<or> lc_added l \<or> lc_removed l) (coverage_differs l)"

definition line_numbers :: "line_comparison list \<Rightarrow> nat list res" where
  "line_numbers ls = map_res (\<lambda>bs. map fst (filter snd (zip [0..<length ls] bs))) (traverse of_interest ls)"

definition segment_step :: "nat list list \<times> nat option \<Rightarrow> nat \<Rightarrow> nat list list \<times> nat option" where
  "segment_step st n =
     (case st of (groups, latest) \<Rightarrow>
        (if (case latest of None \<Rightarrow> True | Some l \<Rightarrow> n - l \<le> line_distance)
         then butlast groups @ [last groups @ [n]] else groups @ [[n]],
         Some n))"

definition segmented_lines :: "nat list \<Rightarrow> nat list list" where
  "segmented_lines ns = (if ns = [] then [] else fst (foldl segment_step ([[]], None) ns))"

text \<open>The first and the last line of the segment of a group, of \<open>n\<close> lines.\<close>

definition segment_range :: "nat \<Rightarrow> nat list \<Rightarrow> nat \<times> nat" where
  "segment_range n grp = (hd grp - padding_lines, min (last grp + padding_lines) (n - 1))"

definition segment_ranges :: "line_comparison list \<Rightarrow> (nat \<times> nat) list res" where
  "segment_ranges ls = map_res (\<lambda>ns. map (segment_range (length ls)) (segmented_lines ns)) (line_numbers ls)"

definition slice :: "'a list \<Rightarrow> nat \<times> nat \<Rightarrow> 'a list" where
  "slice xs r = take (snd r + 1 - fst r) (drop (fst r) xs)"

definition Segment_segments :: "line_comparison list option \<Rightarrow> line_comparison list list res" where
  "Segment_segments lines =
     (case lines of None \<Rightarrow> Inr [] | Some ls \<Rightarrow> map_res (map (slice ls)) (segment_ranges ls))"

definition segment_header :: "line_comparison list \<Rightarrow> int \<times> int \<times> int \<times> int" where
  "segment_header ls =
     (let added = int (length (filter lc_added ls));
          removed = int (length (filter (\<lambda>l. \<not> lc_added l \<and> lc_removed l) ls));
          context = int (length (filter (\<lambda>l. \<not> lc_added l \<and> \<not> lc_removed l) ls))
      in (case somes (map (fst \<circ> lc_number) ls) of [] \<Rightarrow> 0 | n # _ \<Rightarrow> n, context + removed,
          case somes (map (snd \<circ> lc_number) ls) of [] \<Rightarrow> 0 | n # _ \<Rightarrow> n, context + added))"

definition has_diff_changes :: "line_comparison list \<Rightarrow> bool" where
  "has_diff_changes ls = list_ex (\<lambda>l. lc_added l \<or> lc_removed l) ls"

definition unintended_change :: "line_comparison \<Rightarrow> bool res" where
  "unintended_change l = map_res (\<lambda>d. \<not> (lc_added l \<or> lc_removed l) \<and> d) (coverage_differs l)"

fun has_unintended_changes :: "line_comparison list \<Rightarrow> bool res" where
  "has_unintended_changes [] = Inr False"
| "has_unintended_changes (l # ls) = bind_res (unintended_change l) (\<lambda>u. if u then Inr True else has_unintended_changes ls)"

definition remove_unintended_changes :: "line_comparison list \<Rightarrow> line_comparison list res" where
  "remove_unintended_changes ls =
     map_res (\<lambda>us. map fst (filter (\<lambda>p. \<not> snd p) (zip ls us))) (traverse unintended_change ls)"

section \<open>Compared files\<close>

definition MAX_DIFF_SIZE :: int where
  "MAX_DIFF_SIZE = 170"

record file_comparison =
  fcmp_base_file :: "report_file option"
  fcmp_head_file :: "report_file option"
  fcmp_diff_data :: "diff_file option"
  fcmp_src :: "string list"
  fcmp_bypass_max_diff :: bool
  fcmp_should_search_for_changes :: "bool option"

definition fcmp_segments :: "file_comparison \<Rightarrow> diff_segment list" where
  "fcmp_segments fc = (case fcmp_diff_data fc of None \<Rightarrow> [] | Some d \<Rightarrow> df_segments d)"

definition total_diff_length :: "file_comparison \<Rightarrow> int" where
  "total_diff_length fc = sum_list (map (int \<circ> length \<circ> seg_lines) (fcmp_segments fc))"

definition both_visitors ::
  "report_file option \<Rightarrow> report_file option \<Rightarrow> (string, int) dict \<times> line_comparison list \<Rightarrow> visit \<Rightarrow> ((string, int) dict \<times> line_comparison list) res" where
  "both_visitors base head st v =
     map_res (\<lambda>c. (c, create_line_comparison base head (snd st) v)) (create_change_summary base head (fst st) v)"

definition calculated_changes_and_lines :: "file_comparison \<Rightarrow> ((string, int) dict \<times> line_comparison list) res option" where
  "calculated_changes_and_lines fc =
     (if fcmp_diff_data fc \<noteq> None \<or> fcmp_src fc \<noteq> [] \<or> fcmp_should_search_for_changes fc \<noteq> Some False then
        (case FileComparisonTraverseManager
                (case fcmp_head_file fc of None \<Rightarrow> 0 | Some f \<Rightarrow> rf_eof f) (case fcmp_base_file fc of None \<Rightarrow> 0 | Some f \<Rightarrow> rf_eof f)
                (fcmp_segments fc) (fcmp_src fc) of
           Inl e \<Rightarrow> Some (Inl e)
         | Inr m \<Rightarrow> traverse_apply (both_visitors (fcmp_base_file fc) (fcmp_head_file fc)) m ([], []))
      else Some (Inr ([], [])))"

definition change_summary :: "file_comparison \<Rightarrow> (string, int) dict res option" where
  "change_summary fc = map_option (map_res fst) (calculated_changes_and_lines fc)"

definition summary_has_changes :: "(string, int) dict \<Rightarrow> bool" where
  "summary_has_changes c = list_ex (\<lambda>n. n \<noteq> 0) (dict_values c)"

definition has_changes :: "file_comparison \<Rightarrow> bool res option" where
  "has_changes fc = map_option (map_res summary_has_changes) (change_summary fc)"

definition fcmp_lines :: "file_comparison \<Rightarrow> line_comparison list option res option" where
  "fcmp_lines fc =
     (if MAX_DIFF_SIZE < total_diff_length fc \<and> \<not> fcmp_bypass_max_diff fc then Some (Inr None)
      else map_option (map_res (Some \<circ> snd)) (calculated_changes_and_lines fc))"

definition file_segments :: "file_comparison \<Rightarrow> line_comparison list list res option" where
  "file_segments fc = map_option (\<lambda>r. bind_res r Segment_segments) (fcmp_lines fc)"

section \<open>Comparisons of commits and pull requests\<close>

text \<open>The reports, the diff of the provider and, with \<open>with_src\<close>, the content of the file are arguments.\<close>

definition base_file_of :: "report option \<Rightarrow> raw_diff \<Rightarrow> string \<Rightarrow> report_file option" where
  "base_file_of base diff name =
     (case base of
        None \<Rightarrow> None
      | Some b \<Rightarrow>
          (case (r_get b name, dict_get (rd_files diff) name) of
             (None, Some d) \<Rightarrow> (case df_before d of None \<Rightarrow> None | Some n \<Rightarrow> r_get b n)
           | (f, _) \<Rightarrow> f))"

definition get_file_comparison :: "report option \<Rightarrow> report \<Rightarrow> raw_diff \<Rightarrow> string option \<Rightarrow> bool \<Rightarrow> string \<Rightarrow> file_comparison" where
  "get_file_comparison base head diff content bypass name =
     \<lparr>fcmp_base_file = base_file_of base diff name, fcmp_head_file = r_get head name, fcmp_diff_data = dict_get (rd_files diff) name,
      fcmp_src = (case content of None \<Rightarrow> [] | Some t \<Rightarrow> splitlines t), fcmp_bypass_max_diff = bypass, fcmp_should_search_for_changes = None\<rparr>"

definition has_cff_sessions :: "(int, session) dict \<Rightarrow> bool" where
  "has_cff_sessions ss = list_ex (\<lambda>s. ss_session_type s = ST_carriedforward) (dict_values ss)"

text \<open>\<open>None\<close> for a report that could not be read.\<close>

definition has_different_number_of_sessions :: "report option \<Rightarrow> report option \<Rightarrow> bool" where
  "has_different_number_of_sessions head base =
     (case (head, base) of
        (Some h, Some b) \<Rightarrow>
          \<not> has_cff_sessions (r_sessions h) \<and> \<not> has_cff_sessions (r_sessions b) \<and> length (r_sessions h) \<noteq> length (r_sessions b)
      | _ \<Rightarrow> False)"

text \<open>A pull request comparison restricts the search for changes to the files that Redis names.\<close>

definition pull_file_comparison :: "string list option \<Rightarrow> report option \<Rightarrow> report \<Rightarrow> raw_diff \<Rightarrow> string option \<Rightarrow> bool \<Rightarrow> string \<Rightarrow> file_comparison" where
  "pull_file_comparison files_with_changes base head diff content bypass name =
     (get_file_comparison base head diff content bypass name)
       \<lparr>fcmp_should_search_for_changes := map_option (\<lambda>fs. name \<in> set fs) files_with_changes\<rparr>"

text \<open>The names that \<open>files\<close> stores in Redis after all files were compared.\<close>

definition files_with_changes :: "(string \<Rightarrow> file_comparison) \<Rightarrow> string list \<Rightarrow> string list res option" where
  "files_with_changes compare names =
     foldl (\<lambda>acc n.
       (case acc of
          Some (Inr ns) \<Rightarrow> map_option (map_res (\<lambda>c. if c \<noteq> [] then ns @ [n] else ns)) (change_summary (compare n))
        | _ \<Rightarrow> acc)) (Some (Inr [])) names"

text \<open>\<open>walk(yaml, ("codecov", "allow_pseudo_compare"), default) and bool(compared_to)\<close>.\<close>

definition yaml_walk :: "json \<Rightarrow> string list \<Rightarrow> json \<Rightarrow> json" where
  "yaml_walk y ks els = (case foldl (\<lambda>j k. case j of Some v \<Rightarrow> j_get v k | None \<Rightarrow> None) (Some y) ks of None \<Rightarrow> els | Some v \<Rightarrow> v)"

definition is_pseudo_comparison :: "json \<Rightarrow> json \<Rightarrow> string option \<Rightarrow> bool" where
  "is_pseudo_comparison yaml site_default compared_to =
     (j_truthy (yaml_walk yaml [''codecov'', ''allow_pseudo_compare''] site_default) \<and> compared_to \<noteq> None \<and> compared_to \<noteq> Some [])"

text \<open>The second component is the head report, which looking for adjusted lines changes.\<close>

definition pseudo_diff_adjusts_tracked_lines ::
  "bool \<Rightarrow> string option \<Rightarrow> string option \<Rightarrow> report option \<Rightarrow> report \<Rightarrow> raw_diff option \<Rightarrow> raw_diff option \<Rightarrow> (bool \<times> report) res" where
  "pseudo_diff_adjusts_tracked_lines pseudo pull_base compared_to base head pseudo_diff diff =
     (case base of
        Some b \<Rightarrow>
          if pseudo \<and> pull_base \<noteq> compared_to \<and> (case pseudo_diff of None \<Rightarrow> False | Some d \<Rightarrow> rd_files d \<noteq> [])
          then r_does_diff_adjust b pseudo_diff head diff
          else Inr (False, head)
      | None \<Rightarrow> Inr (False, head))"

definition update_base_report_with_pseudo_diff :: "report \<Rightarrow> raw_diff option \<Rightarrow> report" where
  "update_base_report_with_pseudo_diff base pseudo_diff = r_shift_lines_by_diff base pseudo_diff"

text \<open>Timestamps are instants; a timestamp without a zone is in UTC.\<close>

definition last_updated_before :: "int \<Rightarrow> int option \<Rightarrow> bool" where
  "last_updated_before updated_at timestamp = (case timestamp of None \<Rightarrow> False | Some t \<Rightarrow> updated_at < t)"

definition needs_recompute :: "int \<Rightarrow> int option \<Rightarrow> int option \<Rightarrow> bool" where
  "needs_recompute updated_at compare_commit base_commit =
     (last_updated_before updated_at compare_commit \<or> last_updated_before updated_at base_commit)"

section \<open>Impacted files\<close>

text \<open>Totals with their coverage, \<open>100 * hits / n\<close> as a float; coverage letters are \<open>h\<close>, \<open>m\<close> and \<open>p\<close>.\<close>

record impacted_totals =
  it_hits :: int
  it_misses :: int
  it_partials :: int
  it_coverage :: "rat option"

definition ImpactedFile_Totals :: "int \<Rightarrow> int \<Rightarrow> int \<Rightarrow> impacted_totals" where
  "ImpactedFile_Totals hits misses partials =
     \<lparr>it_hits = hits, it_misses = misses, it_partials = partials,
      it_coverage = (let n = hits + misses + partials in if 0 < n then Some (fl (of_int (100 * hits) / of_int n)) else None)\<rparr>"

record impacted =
  im_base_name :: "string option"
  im_head_name :: "string option"
  im_file_was_added_by_diff :: bool
  im_file_was_removed_by_diff :: bool
  im_base_coverage :: "impacted_totals option"
  im_head_coverage :: "impacted_totals option"
  im_added_diff_coverage :: "(int \<times> string) list option"
  im_removed_diff_coverage :: "(int \<times> string) list option"
  im_unexpected_line_changes :: "((int \<times> string option) \<times> (int \<times> string option)) list option"

definition opt_list :: "'a list option \<Rightarrow> 'a list" where
  "opt_list x = (case x of None \<Rightarrow> [] | Some xs \<Rightarrow> xs)"

definition im_has_diff :: "impacted \<Rightarrow> bool" where
  "im_has_diff f =
     (opt_list (im_added_diff_coverage f) \<noteq> [] \<or> opt_list (im_removed_diff_coverage f) \<noteq> [] \<or>
      im_file_was_added_by_diff f \<or> im_file_was_removed_by_diff f)"

definition im_has_changes :: "impacted \<Rightarrow> bool" where
  "im_has_changes f = (opt_list (im_unexpected_line_changes f) \<noteq> [])"

definition unintended_misses_count :: "impacted \<Rightarrow> int" where
  "unintended_misses_count f = int (length (filter (\<lambda>(_, _, c). c = Some ''m'') (opt_list (im_unexpected_line_changes f))))"

definition direct_misses_count :: "impacted \<Rightarrow> int" where
  "direct_misses_count f = int (length (filter (\<lambda>(_, c). c = ''m'') (opt_list (im_added_diff_coverage f))))"

definition misses_count :: "impacted \<Rightarrow> int" where
  "misses_count f = direct_misses_count f + unintended_misses_count f"

definition count_cov :: "string \<Rightarrow> (int \<times> string) list \<Rightarrow> int" where
  "count_cov c ls = int (length (filter (\<lambda>p. snd p = c) ls))"

definition im_patch_coverage :: "impacted \<Rightarrow> impacted_totals option" where
  "im_patch_coverage f =
     (let ls = opt_list (im_added_diff_coverage f)
      in if ls = [] then None else Some (ImpactedFile_Totals (count_cov ''h'' ls) (count_cov ''m'' ls) (count_cov ''p'' ls)))"

text \<open>A coverage of 0 is false.\<close>

definition true_coverage :: "impacted_totals option \<Rightarrow> rat option" where
  "true_coverage t = (case t of None \<Rightarrow> None | Some t \<Rightarrow> (case it_coverage t of Some c \<Rightarrow> if c = 0 then None else Some c | None \<Rightarrow> None))"

definition change_coverage :: "impacted \<Rightarrow> rat option" where
  "change_coverage f =
     (case (true_coverage (im_base_coverage f), true_coverage (im_head_coverage f)) of
        (Some b, Some h) \<Rightarrow> Some (if b \<le> h then fl (h - b) else - fl (b - h))
      | _ \<Rightarrow> None)"

definition im_file_name :: "impacted \<Rightarrow> string option" where
  "im_file_name f = (case im_head_name f of Some (c # cs) \<Rightarrow> Some (last (split_all (CHR ''/'') (c # cs))) | _ \<Rightarrow> None)"

definition find_impacted_file :: "impacted list \<Rightarrow> string \<Rightarrow> impacted option" where
  "find_impacted_file fs path = find (\<lambda>f. im_head_name f = Some path) fs"

definition impacted_files_with_unintended_changes :: "impacted list \<Rightarrow> impacted list" where
  "impacted_files_with_unintended_changes fs = filter im_has_changes fs"

definition impacted_files_with_direct_changes :: "impacted list \<Rightarrow> impacted list" where
  "impacted_files_with_direct_changes fs = filter (\<lambda>f. im_has_diff f \<or> \<not> im_has_changes f) fs"

section \<open>The alignment that a diff describes\<close>

text \<open>
  The reference: outside of the hunks both versions advance together, in a hunk an added line advances the
  head only and a removed line the base only.
\<close>

fun hunk_visits :: "int \<Rightarrow> int \<Rightarrow> string list \<Rightarrow> visit list" where
  "hunk_visits b h [] = []"
| "hunk_visits b h (l # ls) =
     (if startswith l ''+'' then \<lparr>v_base = None, v_head = Some h, v_value = Some l, v_is_diff = True\<rparr> # hunk_visits b (h + 1) ls
      else if startswith l ''-'' then \<lparr>v_base = Some b, v_head = None, v_value = Some l, v_is_diff = True\<rparr> # hunk_visits (b + 1) h ls
      else \<lparr>v_base = Some b, v_head = Some h, v_value = Some l, v_is_diff = True\<rparr> # hunk_visits (b + 1) (h + 1) ls)"

definition source_line :: "string list \<Rightarrow> int \<Rightarrow> string option" where
  "source_line src n = (if src = [] then None else Some (src ! nat (n - 1)))"

fun plain_visits :: "string list \<Rightarrow> int \<Rightarrow> int \<Rightarrow> nat \<Rightarrow> visit list" where
  "plain_visits src b h n =
     (if n = 0 then []
      else \<lparr>v_base = Some b, v_head = Some h, v_value = source_line src h, v_is_diff = False\<rparr> # plain_visits src (b + 1) (h + 1) (n - 1))"

declare plain_visits.simps [simp del]

lemma plain_visits_simps [simp]:
  "plain_visits src b h 0 = []"
  "plain_visits src b h (Suc n) =
     \<lparr>v_base = Some b, v_head = Some h, v_value = source_line src h, v_is_diff = False\<rparr> # plain_visits src (b + 1) (h + 1) n"
  by (simp_all add: plain_visits.simps [of src b h])

definition base_len :: "string list \<Rightarrow> int" where
  "base_len ls = int (length (filter (\<lambda>l. \<not> startswith l ''+'') ls))"

definition head_len :: "string list \<Rightarrow> int" where
  "head_len ls = int (length (filter (\<lambda>l. \<not> startswith l ''-'') ls))"

text \<open>A hunk without lines in one version names the line before it.\<close>

definition hunk_pos :: "diff_segment \<Rightarrow> nat \<Rightarrow> int" where
  "hunk_pos s i =
     (case (header_start s i, header_count s (i + 1)) of
        (Inr n, Inr c) \<Rightarrow> if c = 0 then n + 1 else n
      | _ \<Rightarrow> 0)"

definition hunk_ok :: "diff_segment \<Rightarrow> bool" where
  "hunk_ok s =
     (seg_lines s \<noteq> [] \<and> [] \<notin> set (seg_lines s) \<and> is_ok (header_start s 0) \<and> is_ok (header_start s 2) \<and>
      header_count s 1 = Inr (base_len (seg_lines s)) \<and> header_count s 3 = Inr (head_len (seg_lines s)))"

text \<open>The hunks follow each other, and their distances agree in both versions.\<close>

fun aligned :: "int \<Rightarrow> int \<Rightarrow> diff_segment list \<Rightarrow> bool" where
  "aligned b h [] = True"
| "aligned b h (s # ss) =
     (hunk_ok s \<and> b \<le> hunk_pos s 0 \<and> hunk_pos s 0 - b = hunk_pos s 2 - h \<and>
      aligned (hunk_pos s 0 + base_len (seg_lines s)) (hunk_pos s 2 + head_len (seg_lines s)) ss)"

definition rest_length :: "string list \<Rightarrow> int \<Rightarrow> int \<Rightarrow> int \<Rightarrow> int \<Rightarrow> nat" where
  "rest_length src head_eof base_eof b h =
     (if src \<noteq> [] then nat (int (length src) - h + 1) else nat (max (head_eof - h) (base_eof - b)))"

fun diff_visits :: "string list \<Rightarrow> int \<Rightarrow> int \<Rightarrow> int \<Rightarrow> int \<Rightarrow> diff_segment list \<Rightarrow> visit list" where
  "diff_visits src he be b h [] = plain_visits src b h (rest_length src he be b h)"
| "diff_visits src he be b h (s # ss) =
     plain_visits src b h (nat (hunk_pos s 0 - b)) @ hunk_visits (hunk_pos s 0) (hunk_pos s 2) (seg_lines s) @
     diff_visits src he be (hunk_pos s 0 + base_len (seg_lines s)) (hunk_pos s 2 + head_len (seg_lines s)) ss"

section \<open>The traversal follows the alignment\<close>

text \<open>The loop runs through some visits.\<close>

inductive runs :: "traverse_manager \<Rightarrow> visit list \<Rightarrow> traverse_manager \<Rightarrow> bool" where
  runs_Nil: "runs m [] m"
| runs_Cons: "\<not> traverse_finished m \<Longrightarrow> traverse_step m = Inr (v, m1) \<Longrightarrow> runs m1 vs m2 \<Longrightarrow> runs m (v # vs) m2"

lemma runs_append: "runs m vs m1 \<Longrightarrow> runs m1 ws m2 \<Longrightarrow> runs m (vs @ ws) m2"
  by (induction rule: runs.induct) (auto intro: runs.intros)

lemma traverse_apply_runs:
  "runs m vs m' \<Longrightarrow> traverse_apply f m s = (case foldl_res f s vs of Inl e \<Rightarrow> Some (Inl e) | Inr s' \<Rightarrow> traverse_apply f m' s')"
proof (induction arbitrary: s rule: runs.induct)
  case (runs_Cons m v m1 vs m2)
  from runs_Cons.hyps show ?case
    by (subst traverse_apply.simps) (cases "f s v"; simp add: runs_Cons.IH)
qed simp

lemma is_added_startswith [simp]: "is_added (Some l) = startswith l ''+''" "is_removed (Some l) = startswith l ''-''"
  by (auto simp: is_added_def is_removed_def startswith_def split: list.split)

lemma startswith_exclusive: "startswith l ''+'' \<Longrightarrow> \<not> startswith l ''-''"
  by (auto simp: startswith_def)

lemma header_count_lines [simp]: "header_start (s\<lparr>seg_lines := ls\<rparr>) i = header_start s i" "header_count (s\<lparr>seg_lines := ls\<rparr>) i = header_count s i"
  by (simp_all add: header_start_def header_count_def)

lemma within_offset_lines [simp]: "within_offset (s\<lparr>seg_lines := ls\<rparr>) i n = within_offset s i n"
  unfolding within_offset_def header_count_lines ..

text \<open>Where a line is within a hunk, in terms of the position of the hunk.\<close>

lemma within_offset_pos:
  assumes "is_ok (header_start s i)" "header_count s (i + 1) = Inr c" "0 \<le> c"
  shows "within_offset s i n = Inr (hunk_pos s i \<le> n \<and> n < hunk_pos s i + c)"
  using assms by (auto simp: within_offset_def hunk_pos_def is_ok_iff)

lemma within_base:
  "hunk_ok s \<Longrightarrow> within_offset s 0 n = Inr (hunk_pos s 0 \<le> n \<and> n < hunk_pos s 0 + base_len (seg_lines s))"
  by (rule within_offset_pos) (simp_all add: hunk_ok_def base_len_def)

lemma within_head:
  "hunk_ok s \<Longrightarrow> within_offset s 2 n = Inr (hunk_pos s 2 \<le> n \<and> n < hunk_pos s 2 + head_len (seg_lines s))"
  by (rule within_offset_pos) (simp_all add: hunk_ok_def head_len_def)

lemma len_simps [simp]:
  "base_len [] = 0" "head_len [] = 0" "0 \<le> base_len ls" "0 \<le> head_len ls"
  "base_len (l # ls) = (if startswith l ''+'' then base_len ls else 1 + base_len ls)"
  "head_len (l # ls) = (if startswith l ''-'' then head_len ls else 1 + head_len ls)"
  "base_len (ls @ ks) = base_len ls + base_len ks" "head_len (ls @ ks) = head_len ls + head_len ks"
  by (simp_all add: base_len_def head_len_def)


lemma len_pos [simp]: "0 < 1 + base_len ls" "0 < 1 + head_len ls"
  by (simp_all add: base_len_def head_len_def)

definition at_lines :: "traverse_manager \<Rightarrow> diff_segment list \<Rightarrow> int \<Rightarrow> int \<Rightarrow> traverse_manager" where
  "at_lines m segs b h = m\<lparr>tm_segments := segs, tm_base_ln := b, tm_head_ln := h\<rparr>"

lemma at_lines_simps [simp]:
  "tm_segments (at_lines m segs b h) = segs" "tm_base_ln (at_lines m segs b h) = b" "tm_head_ln (at_lines m segs b h) = h"
  "tm_src (at_lines m segs b h) = tm_src m" "tm_head_eof (at_lines m segs b h) = tm_head_eof m" "tm_base_eof (at_lines m segs b h) = tm_base_eof m"
  "(at_lines m segs b h)\<lparr>tm_segments := segs'\<rparr> = at_lines m segs' b h" "(at_lines m segs b h)\<lparr>tm_base_ln := b'\<rparr> = at_lines m segs b' h"
  "(at_lines m segs b h)\<lparr>tm_head_ln := h'\<rparr> = at_lines m segs b h'"
  "(at_lines m segs b h)\<lparr>tm_base_ln := b', tm_head_ln := h'\<rparr> = at_lines m segs b' h'"
  by (simp_all add: at_lines_def)

lemma drop_segment_at [simp]:
  "drop_segment (at_lines m (s # ss) b h) = at_lines m (if seg_lines s = [] then ss else s # ss) b h"
  "drop_segment (at_lines m [] b h) = at_lines m [] b h"
  by (simp_all add: drop_segment_def)

text \<open>A step inside of a hunk.\<close>

lemma hunk_step:
  assumes "hunk_ok s" "seg_lines s = done @ l # ls"
  shows "traverse_step (at_lines m (s\<lparr>seg_lines := l # ls\<rparr> # ss) (hunk_pos s 0 + base_len done) (hunk_pos s 2 + head_len done)) =
    Inr (hd (hunk_visits (hunk_pos s 0 + base_len done) (hunk_pos s 2 + head_len done) (l # ls)),
      at_lines m (if ls = [] then ss else s\<lparr>seg_lines := ls\<rparr> # ss) (hunk_pos s 0 + base_len (done @ [l])) (hunk_pos s 2 + head_len (done @ [l])))"
proof -
  have "traversing_diff (at_lines m (s\<lparr>seg_lines := ks\<rparr> # ss) (hunk_pos s 0 + base_len done) (hunk_pos s 2 + head_len done)) = Inr True" for ks
    using assms startswith_exclusive [of l] by (simp add: traversing_diff_def within_base within_head)
  then show ?thesis
    using startswith_exclusive [of l] by (simp add: traverse_step_def pop_line_def Let_def add.assoc)
qed

lemma runs_hunk:
  assumes "hunk_ok s" "seg_lines s = done @ ls" "ls \<noteq> []"
  shows "runs (at_lines m (s\<lparr>seg_lines := ls\<rparr> # ss) (hunk_pos s 0 + base_len done) (hunk_pos s 2 + head_len done))
    (hunk_visits (hunk_pos s 0 + base_len done) (hunk_pos s 2 + head_len done) ls)
    (at_lines m ss (hunk_pos s 0 + base_len (seg_lines s)) (hunk_pos s 2 + head_len (seg_lines s)))"
  using assms(2,3)
proof (induction ls arbitrary: "done")
  case (Cons l ls)
  let ?b = "\<lambda>d. hunk_pos s 0 + base_len d" and ?h = "\<lambda>d. hunk_pos s 2 + head_len d"
  let ?m = "at_lines m (if ls = [] then ss else s\<lparr>seg_lines := ls\<rparr> # ss) (?b (done @ [l])) (?h (done @ [l]))"
  have rest: "runs ?m (hunk_visits (?b (done @ [l])) (?h (done @ [l])) ls) (at_lines m ss (?b (seg_lines s)) (?h (seg_lines s)))"
  proof (cases "ls = []")
    case True
    with Cons.prems(1) show ?thesis by (simp add: runs_Nil)
  next
    case False
    with Cons.IH [of "done @ [l]"] Cons.prems(1) show ?thesis by simp
  qed
  have visits: "hunk_visits (?b done) (?h done) (l # ls) =
      hd (hunk_visits (?b done) (?h done) (l # ls)) # hunk_visits (?b (done @ [l])) (?h (done @ [l])) ls"
    using startswith_exclusive [of l] by (simp add: add.assoc)
  show ?case
    by (subst visits, rule runs_Cons [OF _ hunk_step [OF assms(1) Cons.prems(1)] rest]) (simp add: traverse_finished_def)
qed simp

text \<open>Steps outside of the hunks.\<close>

lemma plain_step:
  assumes "case segs of [] \<Rightarrow> True | s # _ \<Rightarrow> hunk_ok s \<and> b < hunk_pos s 0 \<and> h < hunk_pos s 2"
    and "tm_src m \<noteq> [] \<Longrightarrow> 1 \<le> h \<and> h \<le> int (length (tm_src m))"
  shows "traverse_step (at_lines m segs b h) =
    Inr (\<lparr>v_base = Some b, v_head = Some h, v_value = source_line (tm_src m) h, v_is_diff = False\<rparr>, at_lines m segs (b + 1) (h + 1))"
proof -
  have "traversing_diff (at_lines m segs b h) = Inr False"
    using assms(1) by (cases segs) (simp_all add: traversing_diff_def within_base within_head)
  moreover have "py_nth (tm_src m) (h - 1) = Inr (tm_src m ! nat (h - 1))" if "tm_src m \<noteq> []"
    using assms(2) [OF that] by (auto simp: py_nth_def)
  moreover have "drop_segment (at_lines m segs b' h') = at_lines m segs b' h'" for b' h'
    using assms(1) by (cases segs) (simp_all add: hunk_ok_def)
  ultimately show ?thesis by (simp add: traverse_step_def pop_line_def source_line_def Let_def del: bind_res_eq_Inr)
qed

lemma runs_plain:
  assumes "case segs of [] \<Rightarrow> n \<le> rest_length (tm_src m) (tm_head_eof m) (tm_base_eof m) b h
      | s # _ \<Rightarrow> hunk_ok s \<and> b + int n \<le> hunk_pos s 0 \<and> h + int n \<le> hunk_pos s 2"
    and "tm_src m \<noteq> [] \<Longrightarrow> 1 \<le> h \<and> (n = 0 \<or> h + int n \<le> int (length (tm_src m)) + 1)"
  shows "runs (at_lines m segs b h) (plain_visits (tm_src m) b h n) (at_lines m segs (b + int n) (h + int n))"
  using assms
proof (induction n arbitrary: b h)
  case (Suc n)
  have "\<not> traverse_finished (at_lines m segs b h)"
    using Suc.prems(1) by (cases segs) (auto simp: traverse_finished_def rest_length_def split: if_splits)
  moreover have "runs (at_lines m segs (b + 1) (h + 1)) (plain_visits (tm_src m) (b + 1) (h + 1) n)
      (at_lines m segs (b + 1 + int n) (h + 1 + int n))"
    by (rule Suc.IH) (use Suc.prems in \<open>auto simp: rest_length_def split: list.splits if_splits\<close>)
  moreover have "case segs of [] \<Rightarrow> True | s # _ \<Rightarrow> hunk_ok s \<and> b < hunk_pos s 0 \<and> h < hunk_pos s 2"
    using Suc.prems(1) by (cases segs) auto
  moreover have "1 \<le> h \<and> h \<le> int (length (tm_src m))" if "tm_src m \<noteq> []"
    using Suc.prems(2) [OF that] by simp
  ultimately show ?case
    using runs_Cons [OF _ plain_step, of m segs b h] by (simp add: add.assoc)
qed (simp add: runs_Nil)


lemma runs_diff:
  assumes "aligned b h segs" "tm_src m \<noteq> [] \<Longrightarrow> 1 \<le> h \<and> (\<forall>s \<in> set segs. hunk_pos s 2 \<le> int (length (tm_src m)) + 1)"
  shows "\<exists>m'. runs (at_lines m segs b h) (diff_visits (tm_src m) (tm_head_eof m) (tm_base_eof m) b h segs) m' \<and> traverse_finished m'"
  using assms
proof (induction segs arbitrary: b h)
  case Nil
  let ?n = "rest_length (tm_src m) (tm_head_eof m) (tm_base_eof m) b h"
  have "runs (at_lines m [] b h) (plain_visits (tm_src m) b h ?n) (at_lines m [] (b + int ?n) (h + int ?n))"
    by (rule runs_plain) (use Nil in \<open>auto simp: rest_length_def\<close>)
  moreover have "traverse_finished (at_lines m [] (b + int ?n) (h + int ?n))"
    by (auto simp: traverse_finished_def rest_length_def)
  ultimately show ?case by auto
next
  case (Cons s segs)
  let ?n = "nat (hunk_pos s 0 - b)" and ?b = "hunk_pos s 0" and ?h = "hunk_pos s 2"
  from Cons.prems(1) have s: "hunk_ok s" "b \<le> ?b" "?b - b = ?h - h" and segs: "aligned (?b + base_len (seg_lines s)) (?h + head_len (seg_lines s)) segs"
    by simp_all
  then have n: "b + int ?n = ?b" "h + int ?n = ?h" by linarith+
  have "runs (at_lines m (s # segs) b h) (plain_visits (tm_src m) b h ?n) (at_lines m (s # segs) (b + int ?n) (h + int ?n))"
    by (rule runs_plain) (use s n Cons.prems(2) in auto)
  moreover from s(1) have "runs (at_lines m (s # segs) ?b ?h) (hunk_visits ?b ?h (seg_lines s))
      (at_lines m segs (?b + base_len (seg_lines s)) (?h + head_len (seg_lines s)))"
    using runs_hunk [of s "[]" "seg_lines s" m segs] by (simp add: hunk_ok_def)
  moreover have "h \<le> ?h + head_len (seg_lines s)" using s len_simps(4) [of "seg_lines s"] by linarith
  with Cons.prems(2) have "1 \<le> ?h + head_len (seg_lines s) \<and> (\<forall>s \<in> set segs. hunk_pos s 2 \<le> int (length (tm_src m)) + 1)"
    if "tm_src m \<noteq> []" using that by auto
  then have "\<exists>m'. runs (at_lines m segs (?b + base_len (seg_lines s)) (?h + head_len (seg_lines s)))
      (diff_visits (tm_src m) (tm_head_eof m) (tm_base_eof m) (?b + base_len (seg_lines s)) (?h + head_len (seg_lines s)) segs) m' \<and> traverse_finished m'"
    by (rule Cons.IH [OF segs])
  ultimately show ?case unfolding n by (auto intro: runs_append)
qed


text \<open>A diff between two non-empty versions of a file.\<close>

definition regular_diff :: "diff_segment list \<Rightarrow> bool" where
  "regular_diff segs =
     (aligned 1 1 segs \<and> (case segs of [] \<Rightarrow> True | s # _ \<Rightarrow> header_start s 0 \<noteq> Inr 0 \<and> header_start s 2 \<noteq> Inr 0))"

lemma manager_regular:
  assumes "regular_diff segs"
  obtains m where "FileComparisonTraverseManager he be segs src = Inr (at_lines m segs 1 1)" "tm_src m = src" "tm_head_eof m = he" "tm_base_eof m = be"
proof -
  let ?m = "\<lparr>tm_head_eof = he, tm_base_eof = be, tm_segments = segs, tm_src = src, tm_base_ln = 1, tm_head_ln = 1\<rparr>"
  have "FileComparisonTraverseManager he be segs src = Inr ?m"
  proof (cases segs)
    case (Cons s ss)
    with assms obtain x y where "header_start s 0 = Inr x" "header_start s 2 = Inr y" and ok: "hunk_ok s" "1 \<le> hunk_pos s 0" "1 \<le> hunk_pos s 2"
      by (auto simp: regular_diff_def hunk_ok_def is_ok_iff)
    moreover with assms Cons have "1 \<le> x" "1 \<le> y"
      by (auto simp: regular_diff_def hunk_pos_def hunk_ok_def split: if_splits)
    ultimately show ?thesis by (simp add: FileComparisonTraverseManager_def Cons)
  qed (simp add: FileComparisonTraverseManager_def)
  moreover have "?m = at_lines ?m segs 1 1" by (simp add: at_lines_def)
  ultimately show thesis using that [of ?m] by simp
qed

lemma traversal_spec:
  assumes "regular_diff segs" "src \<noteq> [] \<Longrightarrow> \<forall>s \<in> set segs. hunk_pos s 2 \<le> int (length src) + 1"
  shows "\<exists>m. FileComparisonTraverseManager he be segs src = Inr m \<and>
    traverse_apply f m s = Some (foldl_res f s (diff_visits src he be 1 1 segs))"
proof -
  obtain m where m: "FileComparisonTraverseManager he be segs src = Inr (at_lines m segs 1 1)" "tm_src m = src" "tm_head_eof m = he" "tm_base_eof m = be"
    by (rule manager_regular [OF assms(1)])
  from runs_diff [of 1 1 segs m] assms m(2-) obtain m' where
    r: "runs (at_lines m segs 1 1) (diff_visits src he be 1 1 segs) m'" "traverse_finished m'"
    by (auto simp: regular_diff_def)
  have "traverse_apply f m' s' = Some (Inr s')" for s' using r(2) by (subst traverse_apply.simps) simp
  with traverse_apply_runs [OF r(1), of f s] m(1) show ?thesis by (auto split: sum.splits)
qed

section \<open>Every line is visited once\<close>

lemma cons_upto: "0 \<le> n \<Longrightarrow> h # [h + 1..h + n] = [h..h + (n :: int)]"
  by (simp add: upto_Cons)

lemma somes_heads_plain:
  "somes (map v_head (plain_visits src b h n)) = [h..h + int n - 1]" "somes (map v_base (plain_visits src b h n)) = [b..b + int n - 1]"
  by (induction n arbitrary: b h) (simp_all add: cons_upto algebra_simps)

lemma somes_heads_hunk:
  "somes (map v_head (hunk_visits b h ls)) = [h..h + head_len ls - 1]" "somes (map v_base (hunk_visits b h ls)) = [b..b + base_len ls - 1]"
  by (induction b h ls rule: hunk_visits.induct) (auto simp: startswith_exclusive algebra_simps cons_upto)

lemma upto_join: "i \<le> j \<Longrightarrow> j \<le> k + 1 \<Longrightarrow> [i..j - 1] @ [j..k] = [i..(k::int)]"
proof (cases "j \<le> k")
  case False
  assume "j \<le> k + 1"
  with False have "j = k + 1" by simp
  then show ?thesis by simp
qed (simp add: upto_split1 [of i j k])

lemma diff_visits_lines:
  assumes "aligned b h segs"
  shows "\<exists>B H. somes (map v_base (diff_visits src he be b h segs)) = [b..B] \<and> somes (map v_head (diff_visits src he be b h segs)) = [h..H] \<and>
    b \<le> B + 1 \<and> h \<le> H + 1 \<and> (if src = [] then he \<le> H + 1 \<and> be \<le> B + 1 else int (length src) \<le> H)"
  using assms
proof (induction segs arbitrary: b h)
  case Nil
  show ?case
    by (rule exI [of _ "b + int (rest_length src he be b h) - 1"], rule exI [of _ "h + int (rest_length src he be b h) - 1"])
      (auto simp: somes_heads_plain rest_length_def)
next
  case (Cons s segs)
  let ?b = "hunk_pos s 0" and ?h = "hunk_pos s 2" and ?ls = "seg_lines s"
  from Cons.prems have s: "b \<le> ?b" "?b - b = ?h - h" "aligned (?b + base_len ?ls) (?h + head_len ?ls) segs" by simp_all
  from Cons.IH [OF s(3)] obtain B H where
    BH: "somes (map v_base (diff_visits src he be (?b + base_len ?ls) (?h + head_len ?ls) segs)) = [?b + base_len ?ls..B]"
      "somes (map v_head (diff_visits src he be (?b + base_len ?ls) (?h + head_len ?ls) segs)) = [?h + head_len ?ls..H]"
      "?b + base_len ?ls \<le> B + 1" "?h + head_len ?ls \<le> H + 1" "if src = [] then he \<le> H + 1 \<and> be \<le> B + 1 else int (length src) \<le> H"
    by blast
  have n: "h + (?b - b) = ?h" using s by linarith
  have "[b..?b - 1] @ [?b..?b + base_len ?ls - 1] @ [?b + base_len ?ls..B] = [b..B]"
    using upto_join [of ?b "?b + base_len ?ls" B] upto_join [of b ?b B] s(1) BH(3) len_simps(3) [of ?ls] by simp
  moreover have "[h..?h - 1] @ [?h..?h + head_len ?ls - 1] @ [?h + head_len ?ls..H] = [h..H]"
    using upto_join [of ?h "?h + head_len ?ls" H] upto_join [of h ?h H] s(1,2) BH(4) len_simps(4) [of ?ls] by simp
  moreover have "b \<le> B + 1" "h \<le> H + 1" using BH(3,4) s(1,2) len_simps(3,4) [of ?ls] by linarith+
  moreover have "somes (map v_base (diff_visits src he be b h (s # segs))) = [b..?b - 1] @ [?b..?b + base_len ?ls - 1] @ [?b + base_len ?ls..B]"
    "somes (map v_head (diff_visits src he be b h (s # segs))) = [h..?h - 1] @ [?h..?h + head_len ?ls - 1] @ [?h + head_len ?ls..H]"
    by (simp_all add: somes_heads_plain somes_heads_hunk n s(1) BH(1,2))
  ultimately show ?case using BH(5) by metis
qed


section \<open>The alignment is the one of patching\<close>

lemma hunk_end_len: "hunk_end pos ls = pos + head_len ls"
  by (simp add: hunk_end_def head_len_def)

lemma hunk_visits_head:
  "v \<in> set (hunk_visits b h ls) \<Longrightarrow> v_head v = Some h' \<Longrightarrow> h \<le> h' \<and> h' < hunk_end h ls \<and> (v_base v = None \<longleftrightarrow> h' \<in> set (hunk_additions h ls))"
proof (induction b h ls rule: hunk_visits.induct)
  case (2 b h l ls)
  then show ?case
    using hunk_end_ge [of "h + 1" ls] hunk_additions_range [of h "h + 1" ls] startswith_exclusive [of l]
    by (auto split: if_splits)
qed simp

lemma sum_hunk_offset_next:
  assumes "h \<le> n"
  shows "sum (hunk_offset (h + 1) ls) {h..n} = sum (hunk_offset (h + 1) ls) {h + 1..n}"
  using sum_from_next [OF assms, of "hunk_offset (h + 1) ls"] by (simp add: hunk_offset_outside)

lemma hunk_visits_offset:
  assumes "v \<in> set (hunk_visits b h ls)" "v_head v = Some h'" "v_base v = Some b'"
  shows "b' = b - h + h' + sum (hunk_offset h ls) {h..h'}"
  using assms
proof (induction b h ls rule: hunk_visits.induct)
  case (2 b h l ls)
  consider (plus) "startswith l ''+''" | (minus) "startswith l ''-''" | (other) "\<not> startswith l ''+''" "\<not> startswith l ''-''" by blast
  then show ?case
  proof cases
    case plus
    with "2.prems" have v: "v \<in> set (hunk_visits b (h + 1) ls)" by auto
    with hunk_visits_head [OF v "2.prems"(2)] have "h \<le> h'" by simp
    with "2.IH"(1) [OF plus v "2.prems"(2,3)] plus startswith_exclusive [OF plus] show ?thesis
      by (simp add: sum.distrib sum_hunk_offset_next)
  next
    case minus
    then have p: "\<not> startswith l ''+''" using startswith_exclusive by blast
    with "2.prems" minus have v: "v \<in> set (hunk_visits (b + 1) h ls)" by auto
    with hunk_visits_head [OF v "2.prems"(2)] have "h \<le> h'" by simp
    with "2.IH"(2) [OF p minus v "2.prems"(2,3)] minus show ?thesis by (simp add: sum.distrib)
  next
    case other
    show ?thesis
    proof (cases "v \<in> set (hunk_visits (b + 1) (h + 1) ls)")
      case True
      with hunk_visits_head [OF True "2.prems"(2)] have "h \<le> h'" by simp
      with "2.IH"(3) [OF other True "2.prems"(2,3)] other show ?thesis by (simp add: sum_hunk_offset_next)
    next
      case False
      with "2.prems" other have "h' = h" "b' = b" by auto
      then show ?thesis using other by (simp add: hunk_offset_outside)
    qed
  qed
qed simp

lemma sum_hunk_offset_all: "hunk_end h ls \<le> n \<Longrightarrow> sum (hunk_offset h ls) {h..n} = base_len ls - head_len ls"
proof (induction ls arbitrary: h)
  case (Cons l ls)
  have "h \<le> n" using Cons.prems hunk_end_ge [of h "l # ls"] by simp
  with Cons.IH [of h] Cons.IH [of "h + 1"] Cons.prems startswith_exclusive [of l] show ?case
    by (auto simp: sum.distrib sum_hunk_offset_next split: if_splits)
qed simp


text \<open>Every hunk has lines in the head, so that its position is the one in the header.\<close>

definition hunks_in_head :: "diff_segment list \<Rightarrow> bool" where
  "hunks_in_head segs = (\<forall>s \<in> set segs. head_len (seg_lines s) \<noteq> 0)"

lemma segment_start_pos:
  assumes "hunk_ok s" "head_len (seg_lines s) \<noteq> 0" "1 \<le> hunk_pos s 2"
  shows "segment_start s = Inr (hunk_pos s 2)" "hunk_of s = hunk_pos s 2"
proof -
  from assms obtain n where n: "header_start s 2 = Inr n" "n = hunk_pos s 2" by (auto simp: hunk_ok_def hunk_pos_def is_ok_iff)
  then show "segment_start s = Inr (hunk_pos s 2)"
    using assms(3) by (simp add: segment_start_def header_start_def del: bind_res_eq_Inr split: if_splits)
  then show "hunk_of s = hunk_pos s 2" by (simp add: hunk_of_def)
qed

lemma aligned_ordered: "aligned b h segs \<Longrightarrow> 1 \<le> h \<Longrightarrow> hunks_in_head segs \<Longrightarrow> ordered_hunks h segs"
proof (induction segs arbitrary: b h)
  case (Cons s segs)
  then have s: "hunk_ok s" "head_len (seg_lines s) \<noteq> 0" "h \<le> hunk_pos s 2" by (auto simp: hunks_in_head_def)
  with Cons.prems(2) have "segment_start s = Inr (hunk_pos s 2)" by (intro segment_start_pos) simp_all
  moreover have "ordered_hunks (hunk_pos s 2 + head_len (seg_lines s)) segs"
  proof (rule Cons.IH)
    show "1 \<le> hunk_pos s 2 + head_len (seg_lines s)" using Cons.prems(2) s(3) len_simps(4) [of "seg_lines s"] by linarith
  qed (use Cons.prems in \<open>auto simp: hunks_in_head_def\<close>)
  ultimately show ?case using s(3) by (simp add: hunk_end_len)
qed simp

lemma plain_visits_member: "v \<in> set (plain_visits src b h n) \<Longrightarrow> \<exists>i < int n. 0 \<le> i \<and> v_base v = Some (b + i) \<and> v_head v = Some (h + i)"
proof (induction n arbitrary: b h)
  case (Suc n)
  show ?case
  proof (cases "v \<in> set (plain_visits src (b + 1) (h + 1) n)")
    case True
    from Suc.IH [OF this] obtain i where "i < int n" "0 \<le> i" "v_base v = Some (b + 1 + i)" "v_head v = Some (h + 1 + i)" by blast
    then show ?thesis by (intro exI [of _ "1 + i"]) simp
  next
    case False
    with Suc.prems show ?thesis by (intro exI [of _ 0]) simp
  qed
qed simp

lemma sum_hunk_prefix:
  assumes "1 \<le> p"
  shows "sum (hunk_offset p ls) {1..n} = sum (hunk_offset p ls) {p..n}"
  using assms by (intro sum.mono_neutral_right) (auto simp: hunk_offset_outside)

text \<open>
  A head line is visited without a base line if and only if the diff adds it; otherwise the base line is where
  the offsets of the diff point.
\<close>

lemma diff_visits_offset:
  assumes "aligned b h segs" "1 \<le> h" "hunks_in_head segs" "v \<in> set (diff_visits src he be b h segs)" "v_head v = Some h'"
  shows "h \<le> h' \<and> (v_base v = None \<longleftrightarrow> h' \<in> set (additions_of segs)) \<and>
    (\<forall>b'. v_base v = Some b' \<longrightarrow> b' = b - h + h' + sum (offset_of segs) {1..h'})"
  using assms
proof (induction segs arbitrary: b h)
  case Nil
  then show ?case using plain_visits_member [of v] by (fastforce simp: additions_of_def offset_of_def)
next
  case (Cons s segs)
  let ?b = "hunk_pos s 0" and ?h = "hunk_pos s 2" and ?ls = "seg_lines s"
  have s: "hunk_ok s" "head_len ?ls \<noteq> 0" "b \<le> ?b" "?b - b = ?h - h" "h \<le> ?h" and segs: "hunks_in_head segs"
    "aligned (?b + base_len ?ls) (?h + head_len ?ls) segs" using Cons.prems(1,3) by (auto simp: hunks_in_head_def)
  have h: "1 \<le> ?h" "1 \<le> ?h + head_len ?ls" using s(5) Cons.prems(2) len_simps(4) [of ?ls] by linarith+
  note pos = segment_start_pos(2) [OF s(1,2) h(1)]
  note order = aligned_ordered [OF segs(2) h(2) segs(1)]
  have adds: "set (additions_of (s # segs)) = set (hunk_additions ?h ?ls) \<union> set (additions_of segs)"
    by (simp add: additions_of_def pos)
  have sums: "sum (offset_of (s # segs)) {1..n} = sum (hunk_offset ?h ?ls) {?h..n} + sum (offset_of segs) {1..n}" for n
    by (simp add: offset_of_def pos sum.distrib sum_hunk_prefix [OF h(1)])
  have after: "n < ?h + head_len ?ls \<Longrightarrow> sum (offset_of segs) {1..n} = 0 \<and> n \<notin> set (additions_of segs)" for n
    using offset_of_before [OF order] additions_of_after [OF order, of n] by force
  consider (plain) "v \<in> set (plain_visits src b h (nat (?b - b)))" | (hunk) "v \<in> set (hunk_visits ?b ?h ?ls)"
    | (rest) "v \<in> set (diff_visits src he be (?b + base_len ?ls) (?h + head_len ?ls) segs)"
    using Cons.prems(4) by auto
  then show ?case
  proof cases
    case plain
    from plain_visits_member [OF this] Cons.prems(5) obtain i where i: "i < ?h - h" "0 \<le> i" "v_base v = Some (b + i)" "h' = h + i"
      using s(3,4) by auto
    moreover from i have "h' \<notin> set (hunk_additions ?h ?ls)" using hunk_additions_range [of h' ?h ?ls] by auto
    moreover from i(1,4) have "h' < ?h + head_len ?ls" using len_simps(4) [of ?ls] by linarith
    ultimately show ?thesis using after [of h'] by (simp add: adds sums)
  next
    case hunk
    from hunk_visits_head [OF this Cons.prems(5)] have r: "?h \<le> h'" "h' < ?h + head_len ?ls" "v_base v = None \<longleftrightarrow> h' \<in> set (hunk_additions ?h ?ls)"
      by (simp_all add: hunk_end_len)
    with hunk_visits_offset [OF hunk Cons.prems(5)] after [of h'] s(4,5) show ?thesis by (auto simp: adds sums)
  next
    case rest
    from Cons.IH [OF segs(2) h(2) segs(1) rest Cons.prems(5)] have r: "?h + head_len ?ls \<le> h'" "v_base v = None \<longleftrightarrow> h' \<in> set (additions_of segs)"
      "\<And>b'. v_base v = Some b' \<Longrightarrow> b' = ?b + base_len ?ls - (?h + head_len ?ls) + h' + sum (offset_of segs) {1..h'}" by auto
    have "h' \<notin> set (hunk_additions ?h ?ls)" using hunk_additions_range [of h' ?h ?ls] r(1) by (auto simp: hunk_end_len)
    moreover have "sum (hunk_offset ?h ?ls) {?h..h'} = base_len ?ls - head_len ?ls"
      using r(1) by (intro sum_hunk_offset_all) (simp add: hunk_end_len)
    moreover have "h \<le> h'" using r(1) s(5) len_simps(4) [of ?ls] by linarith
    moreover have "b' = b - h + h' + sum (offset_of (s # segs)) {1..h'}" if "v_base v = Some b'" for b'
      using r(3) [OF that] calculation(2) s(4) sums [of h'] by linarith
    ultimately show ?thesis using r(2) by (simp add: adds)
  qed
qed

text \<open>The visited base line is the line that patching moves to the head line.\<close>

lemma diff_visits_patch:
  assumes "aligned 1 1 segs" "hunks_in_head segs" "v \<in> set (diff_visits src he be 1 1 segs)" "v_head v = Some h'" "v_base v = Some b'"
  shows "line_at (foldl apply_hunk L segs) h' = line_at L b'"
proof -
  from diff_visits_offset [OF assms(1) _ assms(2-4)] assms(5) have "1 \<le> h'" "h' \<notin> set (additions_of segs)" "b' = h' + sum (offset_of segs) {1..h'}"
    by auto
  with apply_hunks_at [OF aligned_ordered [OF assms(1) _ assms(2)], of h' L] show ?thesis by simp
qed


section \<open>The change summary compares with the patched base\<close>

lemma get_line_at: "1 \<le> n \<Longrightarrow> get_line (Some f) (Some n) = line_at (rf_lines f) n"
  by (auto simp: get_line_def py_nth_def line_at_def)

lemma both_visitors_fold:
  "foldl_res (both_visitors b h) (c, ls) vs =
     map_res (\<lambda>c'. (c', foldl (create_line_comparison b h) ls vs)) (foldl_res (create_change_summary b h) c vs)"
proof (induction vs arbitrary: c ls)
  case (Cons v vs)
  then show ?case by (cases "create_change_summary b h c v") (simp_all add: both_visitors_def)
qed simp

lemma somes_member: "x \<in> set xs \<Longrightarrow> f x = Some y \<Longrightarrow> y \<in> set (somes (map f xs))"
  by (force simp: set_somes)

text \<open>A visit of a line that both versions have.\<close>

definition visits_both :: "visit \<Rightarrow> bool" where
  "visits_both v = (v_base v \<noteq> None \<and> v_head v \<noteq> None)"

lemma diff_visits_values:
  "v \<in> set (diff_visits [] he be b h segs) \<Longrightarrow> is_added (v_value v) \<or> is_removed (v_value v) \<longleftrightarrow> \<not> visits_both v"
proof (induction segs arbitrary: b h)
  case Nil
  have "v \<in> set (plain_visits [] b h n) \<Longrightarrow> v_value v = None \<and> visits_both v" for n
    by (induction n arbitrary: b h) (auto simp: source_line_def visits_both_def)
  with Nil show ?case by (auto simp: is_added_def is_removed_def)
next
  case (Cons s segs)
  have "v \<in> set (plain_visits [] b h n) \<Longrightarrow> v_value v = None \<and> visits_both v" for n
    by (induction n arbitrary: b h) (auto simp: source_line_def visits_both_def)
  moreover have "v \<in> set (hunk_visits b h ls) \<Longrightarrow> is_added (v_value v) \<or> is_removed (v_value v) \<longleftrightarrow> \<not> visits_both v" for b h ls
    by (induction b h ls rule: hunk_visits.induct) (auto simp: visits_both_def split: if_splits)
  ultimately show ?case using Cons by (auto simp: is_added_def is_removed_def)
qed

lemma summary_of_visits:
  assumes "\<And>v. v \<in> set vs \<Longrightarrow> is_added (v_value v) \<or> is_removed (v_value v) \<longleftrightarrow> \<not> visits_both v"
    and "\<And>v x y. v \<in> set vs \<Longrightarrow> v_base v = Some x \<Longrightarrow> v_head v = Some y \<Longrightarrow> 1 \<le> x \<and> 1 \<le> y \<and> line_at (rf_lines b) x = line_at L y"
  shows "foldl_res (create_change_summary (Some b) (Some h)) c vs =
    foldl_res (\<lambda>c n. summarise_lines c (line_at L n) (line_at (rf_lines h) n)) c (map (the \<circ> v_head) (filter visits_both vs))"
  using assms
proof (induction vs arbitrary: c)
  case (Cons v vs)
  have IH: "foldl_res (create_change_summary (Some b) (Some h)) c' vs =
    foldl_res (\<lambda>c n. summarise_lines c (line_at L n) (line_at (rf_lines h) n)) c' (map (the \<circ> v_head) (filter visits_both vs))" for c'
    by (rule Cons.IH) (use Cons.prems in auto)
  show ?case
  proof (cases "visits_both v")
    case True
    then obtain x y where "v_base v = Some x" "v_head v = Some y" by (auto simp: visits_both_def)
    moreover with Cons.prems(2) [of v x y] have "1 \<le> x" "1 \<le> y" "line_at (rf_lines b) x = line_at L y" by simp_all
    moreover from True Cons.prems(1) [of v] have "\<not> is_added (v_value v)" "\<not> is_removed (v_value v)" by simp_all
    ultimately have "create_change_summary (Some b) (Some h) c v = summarise_lines c (line_at L y) (line_at (rf_lines h) y)" "the (v_head v) = y"
      by (simp_all add: create_change_summary_def get_line_at)
    with True show ?thesis by (simp add: IH comp_def)
  next
    case False
    with Cons.prems(1) [of v] have "create_change_summary (Some b) (Some h) c v = Inr c" by (simp add: create_change_summary_def)
    with False show ?thesis by (simp add: IH comp_def)
  qed
qed simp

lemma both_heads:
  assumes "\<And>v y. v \<in> set vs \<Longrightarrow> v_head v = Some y \<Longrightarrow> v_base v = None \<longleftrightarrow> y \<in> A"
  shows "map (the \<circ> v_head) (filter visits_both vs) = filter (\<lambda>n. n \<notin> A) (somes (map v_head vs))"
  using assms
proof (induction vs)
  case (Cons v vs)
  have IH: "map (the \<circ> v_head) (filter visits_both vs) = filter (\<lambda>n. n \<notin> A) (somes (map v_head vs))"
    by (rule Cons.IH) (use Cons.prems in auto)
  show ?case
  proof (cases "v_head v")
    case None
    then have "\<not> visits_both v" by (simp add: visits_both_def)
    with None IH show ?thesis by (simp add: comp_def)
  next
    case (Some y)
    with Cons.prems [of v y] have "visits_both v \<longleftrightarrow> y \<notin> A" by (auto simp: visits_both_def)
    with Some IH show ?thesis by (simp add: comp_def)
  qed
qed simp

lemma summarise_beyond:
  assumes "int (length (rf_lines h)) \<le> H"
  shows "foldl_res (\<lambda>c n. summarise_lines c (line_at L n) (line_at (rf_lines h) n)) c (filter P [1..H]) =
    foldl_res (\<lambda>c n. summarise_lines c (line_at L n) (line_at (rf_lines h) n)) c (filter P [1..int (length (rf_lines h))])"
proof -
  let ?n = "int (length (rf_lines h))"
  have "[1..H] = [1..?n] @ [?n + 1..H]" using upto_join [of 1 "?n + 1" H] assms by simp
  moreover have "foldl_res (\<lambda>c n. summarise_lines c (line_at L n) (line_at (rf_lines h) n)) c' (filter P [?n + 1..H]) = Inr c'" for c'
    by (rule foldl_res_stays) (auto simp: summarise_lines_def line_at_beyond split: option.split)
  ultimately show ?thesis by (simp add: foldl_res_append)
qed

lemma change_summary_spec:
  assumes "regular_diff segs" "hunks_in_head segs"
    "fcmp_segments fc = segs" "fcmp_src fc = []" "fcmp_base_file fc = Some b" "fcmp_head_file fc = Some h" "fcmp_should_search_for_changes fc \<noteq> Some False"
  shows "change_summary fc = Some (foldl_res (\<lambda>c n. summarise_lines c (line_at (foldl apply_hunk (rf_lines b) segs) n) (line_at (rf_lines h) n)) []
    (filter (\<lambda>n. n \<notin> set (additions_of segs)) [1..int (length (rf_lines h))]))"
proof -
  let ?vs = "diff_visits [] (rf_eof h) (rf_eof b) 1 1 segs" and ?L = "foldl apply_hunk (rf_lines b) segs"
  have al: "aligned 1 1 segs" using assms(1) by (simp add: regular_diff_def)
  from diff_visits_lines [OF al, of "[]" "rf_eof h" "rf_eof b"] obtain B H where
    BH: "somes (map v_base ?vs) = [1..B]" "somes (map v_head ?vs) = [1..H]" "rf_eof h \<le> H + 1" by auto
  have bounds: "1 \<le> x \<and> 1 \<le> y \<and> line_at (rf_lines b) x = line_at ?L y" if "v \<in> set ?vs" "v_base v = Some x" "v_head v = Some y" for v x y
    using somes_member [of v ?vs v_base, OF that(1,2)] somes_member [of v ?vs v_head, OF that(1,3)] diff_visits_patch [OF al assms(2) that(1,3,2), of "rf_lines b"] by (simp add: BH)
  from traversal_spec [OF assms(1), of "[]" "rf_eof h" "rf_eof b" "both_visitors (Some b) (Some h)" "([], [])"] obtain m where
    "FileComparisonTraverseManager (rf_eof h) (rf_eof b) segs [] = Inr m"
    "traverse_apply (both_visitors (Some b) (Some h)) m ([], []) = Some (foldl_res (both_visitors (Some b) (Some h)) ([], []) ?vs)" by auto
  then have "change_summary fc = Some (map_res fst (foldl_res (both_visitors (Some b) (Some h)) ([], []) ?vs))"
    using assms(3-) by (simp add: change_summary_def calculated_changes_and_lines_def)
  also have "map_res fst (foldl_res (both_visitors (Some b) (Some h)) ([], []) ?vs) = foldl_res (create_change_summary (Some b) (Some h)) [] ?vs"
    by (cases "foldl_res (create_change_summary (Some b) (Some h)) [] ?vs") (simp_all add: both_visitors_fold)
  also have "\<dots> = foldl_res (\<lambda>c n. summarise_lines c (line_at ?L n) (line_at (rf_lines h) n)) [] (map (the \<circ> v_head) (filter visits_both ?vs))"
    by (rule summary_of_visits) (use diff_visits_values bounds in auto)
  also have "map (the \<circ> v_head) (filter visits_both ?vs) = filter (\<lambda>n. n \<notin> set (additions_of segs)) [1..H]"
    unfolding BH(2) [symmetric] by (rule both_heads) (use diff_visits_offset [OF al _ assms(2)] in auto)
  also have "foldl_res (\<lambda>c n. summarise_lines c (line_at ?L n) (line_at (rf_lines h) n)) [] \<dots> =
    foldl_res (\<lambda>c n. summarise_lines c (line_at ?L n) (line_at (rf_lines h) n)) [] (filter (\<lambda>n. n \<notin> set (additions_of segs)) [1..int (length (rf_lines h))])"
    by (rule summarise_beyond) (use BH(3) in \<open>simp add: rf_eof_def\<close>)
  finally show ?thesis .
qed


lemma aligned_wf: "aligned b h segs \<Longrightarrow> 1 \<le> h \<Longrightarrow> hunks_in_head segs \<Longrightarrow> \<forall>s \<in> set segs. wf_segment s"
proof (induction segs arbitrary: b h)
  case (Cons s segs)
  then have s: "hunk_ok s" "head_len (seg_lines s) \<noteq> 0" "1 \<le> hunk_pos s 2" by (auto simp: hunks_in_head_def)
  moreover have "\<forall>s \<in> set segs. wf_segment s"
  proof (rule Cons.IH)
    show "1 \<le> hunk_pos s 2 + head_len (seg_lines s)" using s(3) len_simps(4) [of "seg_lines s"] by linarith
  qed (use Cons.prems in \<open>auto simp: hunks_in_head_def\<close>)
  ultimately show ?case using segment_start_pos(1) [OF s] by (simp add: wf_segment_def hunk_ok_def)
qed simp

section \<open>Segments cover the lines of interest\<close>

text \<open>Groups of ascending numbers: neighbours in a group are close, groups are far from each other.\<close>

fun close_numbers :: "nat list \<Rightarrow> bool" where
  "close_numbers (m # n # ns) = (m < n \<and> n - m \<le> line_distance \<and> close_numbers (n # ns))"
| "close_numbers _ = True"

fun far_groups :: "nat list list \<Rightarrow> bool" where
  "far_groups (g # k # gs) = (last g + line_distance < hd k \<and> far_groups (k # gs))"
| "far_groups _ = True"

lemma close_append: "close_numbers ns \<Longrightarrow> ns \<noteq> [] \<Longrightarrow> last ns < n \<Longrightarrow> n - last ns \<le> line_distance \<Longrightarrow> close_numbers (ns @ [n])"
  by (induction ns rule: close_numbers.induct) auto

lemma far_snoc: "far_groups (gs @ [g]) \<Longrightarrow> last g + line_distance < hd k \<Longrightarrow> far_groups (gs @ [g, k])"
  by (induction gs rule: far_groups.induct) auto

lemma far_extend: "far_groups (gs @ [g]) \<Longrightarrow> g \<noteq> [] \<Longrightarrow> far_groups (gs @ [g @ [n]])"
  by (induction gs rule: far_groups.induct) (auto simp: hd_append)

lemma segment_steps:
  assumes "far_groups (gs @ [g])" "g \<noteq> []" "\<forall>x \<in> set (gs @ [g]). x \<noteq> [] \<and> close_numbers x" "sorted_wrt (<) (last g # ns)"
  shows "\<exists>gs'. fst (foldl segment_step (gs @ [g], Some (last g)) ns) = gs' \<and> far_groups gs' \<and>
    (\<forall>x \<in> set gs'. x \<noteq> [] \<and> close_numbers x) \<and> concat gs' = concat (gs @ [g]) @ ns"
  using assms
proof (induction ns arbitrary: gs g)
  case (Cons n ns)
  show ?case
  proof (cases "n - last g \<le> line_distance")
    case True
    have "\<exists>gs'. fst (foldl segment_step (gs @ [g @ [n]], Some (last (g @ [n]))) ns) = gs' \<and> far_groups gs' \<and>
        (\<forall>x \<in> set gs'. x \<noteq> [] \<and> close_numbers x) \<and> concat gs' = concat (gs @ [g @ [n]]) @ ns"
      by (rule Cons.IH) (use Cons.prems True in \<open>auto intro: far_extend close_append\<close>)
    moreover have "segment_step (gs @ [g], Some (last g)) n = (gs @ [g @ [n]], Some n)" using True by (simp add: segment_step_def)
    ultimately show ?thesis by simp
  next
    case False
    have "\<exists>gs'. fst (foldl segment_step ((gs @ [g]) @ [[n]], Some (last [n])) ns) = gs' \<and> far_groups gs' \<and>
        (\<forall>x \<in> set gs'. x \<noteq> [] \<and> close_numbers x) \<and> concat gs' = concat ((gs @ [g]) @ [[n]]) @ ns"
      by (rule Cons.IH) (use Cons.prems False in \<open>auto intro!: far_snoc\<close>)
    moreover have "segment_step (gs @ [g], Some (last g)) n = ((gs @ [g]) @ [[n]], Some n)" using False by (simp add: segment_step_def)
    ultimately show ?thesis by simp
  qed
qed simp

lemma segmented_lines_spec:
  assumes "sorted_wrt (<) ns"
  shows "far_groups (segmented_lines ns) \<and> (\<forall>g \<in> set (segmented_lines ns). g \<noteq> [] \<and> close_numbers g) \<and> concat (segmented_lines ns) = ns"
proof (cases ns)
  case (Cons n ks)
  have "segment_step ([[]], None) n = ([] @ [[n]], Some (last [n]))" by (simp add: segment_step_def)
  with segment_steps [of "[]" "[n]" ks] assms Cons show ?thesis by (simp add: segmented_lines_def)
qed (simp add: segmented_lines_def)

lemma close_sorted: "close_numbers g \<Longrightarrow> sorted g"
  by (induction g rule: close_numbers.induct) auto

lemma close_bounds: "close_numbers g \<Longrightarrow> x \<in> set g \<Longrightarrow> hd g \<le> x \<and> x \<le> last g"
proof -
  assume "close_numbers g" and x: "x \<in> set g"
  then have s: "sorted g" "g \<noteq> []" by (auto simp: close_sorted)
  from s x have "hd g \<le> x" by (cases g) auto
  moreover from s x have "x \<le> last g"
    by (metis append_butlast_last_id le_refl rotate1.simps(2) set_rotate1 set_ConsD sorted_append list.set_intros(1))
  ultimately show ?thesis ..
qed



lemma far_ranges:
  assumes "far_groups gs" "\<forall>g \<in> set gs. g \<noteq> [] \<and> close_numbers g"
  shows "sorted_wrt (\<lambda>r s. snd r < fst s) (map (segment_range n) gs)"
  using assms
proof (induction gs)
  case (Cons g gs)
  have IH: "sorted_wrt (\<lambda>r s. snd r < fst s) (map (segment_range n) gs)"
    by (rule Cons.IH) (use Cons.prems in \<open>cases gs; auto\<close>)+
  have "last g + line_distance < hd k" if "k \<in> set gs" for k
    using Cons.prems that
  proof (induction gs arbitrary: g)
    case (Cons j gs)
    then have j: "last g + line_distance < hd j" "hd j \<le> last j" using close_bounds [of j "last j"] by auto
    show ?case
    proof (cases "k = j")
      case False
      with Cons.prems(3) have "k \<in> set gs" by simp
      from Cons.IH [OF _ _ this, of j] Cons.prems have "last j + line_distance < hd k" by auto
      with j show ?thesis by simp
    qed (use j in simp)
  qed simp
  then have "last g + 6 < hd k" if "k \<in> set gs" for k using that by (simp add: line_distance_def)
  moreover have "snd (segment_range n g) \<le> last g + 3" by (simp add: segment_range_def padding_lines_def)
  ultimately have "snd (segment_range n g) < fst (segment_range n k)" if "k \<in> set gs" for k
    using that by (fastforce simp: segment_range_def padding_lines_def)
  with IH show ?case by simp
qed simp

lemma line_numbers_sorted: "line_numbers ls = Inr ns \<Longrightarrow> sorted_wrt (<) ns \<and> (\<forall>n \<in> set ns. n < length ls)"
proof -
  assume "line_numbers ls = Inr ns"
  then obtain bs where bs: "traverse of_interest ls = Inr bs" "ns = map fst (filter snd (zip [0..<length ls] bs))"
    by (auto simp: line_numbers_def)
  have "sorted_wrt (<) (map fst (zip [0..<length ls] bs))"
    by (metis map_fst_zip_take sorted_wrt_take sorted_wrt_upt)
  then have "sorted_wrt (<) ns" unfolding bs(2) by (simp add: sorted_wrt_map sorted_wrt_filter)
  moreover have "\<forall>n \<in> set ns. n < length ls" by (auto simp: bs(2) dest!: set_zip_leftD)
  ultimately show ?thesis ..
qed

lemma line_numbers_iff:
  assumes "line_numbers ls = Inr ns"
  shows "n \<in> set ns \<longleftrightarrow> n < length ls \<and> of_interest (ls ! n) = Inr True"
proof -
  from assms obtain bs where bs: "traverse of_interest ls = Inr bs" "ns = map fst (filter snd (zip [0..<length ls] bs))"
    by (auto simp: line_numbers_def)
  then have "length bs = length ls" "\<And>i. i < length ls \<Longrightarrow> of_interest (ls ! i) = Inr (bs ! i)"
    by (simp_all add: traverse_Inr_iff list_all2_conv_all_nth)
  moreover have "n \<in> set ns \<longleftrightarrow> (n, True) \<in> set (zip [0..<length ls] bs)" by (force simp: bs(2))
  ultimately show ?thesis by (auto simp: set_zip intro!: exI [of _ n])
qed


section \<open>Properties\<close>

lemma collect_visits: "foldl_res (\<lambda>xs v. Inr (xs @ [v])) ys vs = Inr (ys @ vs)"
  by (induction vs arbitrary: ys) simp_all

text \<open>
  C10. The traversal of two versions of a file along their diff ends, and it visits every line of the base and
  every line of the head exactly once and in order, up to the ends of both files or of the source.
\<close>

theorem traversal_visits_every_line:
  assumes "regular_diff segs" "src = [] \<or> (\<forall>s \<in> set segs. hunk_pos s 2 \<le> int (length src) + 1)"
  shows "\<exists>m vs B H. FileComparisonTraverseManager he be segs src = Inr m \<and>
    traverse_apply (\<lambda>xs v. Inr (xs @ [v])) m [] = Some (Inr vs) \<and>
    somes (map v_base vs) = [1..B] \<and> somes (map v_head vs) = [1..H] \<and>
    (if src = [] then he \<le> H + 1 \<and> be \<le> B + 1 else int (length src) \<le> H)"
proof -
  have "aligned 1 1 segs" using assms(1) by (simp add: regular_diff_def)
  from diff_visits_lines [OF this, of src he be] obtain B H where
    "somes (map v_base (diff_visits src he be 1 1 segs)) = [1..B]" "somes (map v_head (diff_visits src he be 1 1 segs)) = [1..H]"
    "if src = [] then he \<le> H + 1 \<and> be \<le> B + 1 else int (length src) \<le> H" by auto
  moreover from traversal_spec [OF assms(1), of src he be "\<lambda>xs v. Inr (xs @ [v])" "[]"] assms(2) obtain m where
    "FileComparisonTraverseManager he be segs src = Inr m"
    "traverse_apply (\<lambda>xs v. Inr (xs @ [v])) m [] = Some (Inr (diff_visits src he be 1 1 segs))"
    by (auto simp: collect_visits)
  ultimately show ?thesis by blast
qed

theorem traversal_visits_every_line_witness:
  "\<exists>m vs B H. FileComparisonTraverseManager 5 4 (df_segments sample_diff) [] = Inr m \<and>
    traverse_apply (\<lambda>xs v. Inr (xs @ [v])) m [] = Some (Inr vs) \<and>
    somes (map v_base vs) = [1..B] \<and> somes (map v_head vs) = [1..H] \<and> 5 \<le> H + 1 \<and> 4 \<le> B + 1"
proof -
  have "regular_diff (df_segments sample_diff)" by code_simp
  from traversal_visits_every_line [OF this, of "[]" 5 4] show ?thesis by simp
qed

text \<open>
  C9. The summary of unexpected changes that the web application shows is the comparison, line by line, of the head
  file with the base file shifted by the diff, without the lines that the diff adds: it looks at the same
  pairs of lines as the worker. This is for comparisons without the source of the file, as the list of the files of a pull request
  makes them; with the source, a source line that begins with a plus or minus sign is taken for a line of the diff
  (\<open>source_line_with_sign_ignored\<close>).
\<close>

theorem change_summary_compares_shifted_base:
  assumes "regular_diff (fcmp_segments fc)" "hunks_in_head (fcmp_segments fc)" "fcmp_src fc = []"
    "fcmp_base_file fc = Some b" "fcmp_head_file fc = Some h" "fcmp_should_search_for_changes fc \<noteq> Some False"
  shows "change_summary fc =
    Some (foldl_res (\<lambda>c n. summarise_lines c (line_at (rf_lines (rf_shift_lines_by_diff b (fcmp_segments fc))) n) (line_at (rf_lines h) n)) []
      (filter (\<lambda>n. n \<notin> set (additions_of (fcmp_segments fc))) [1..int (length (rf_lines h))]))"
proof -
  have "\<forall>s \<in> set (fcmp_segments fc). wf_segment s"
    using assms(1,2) by (intro aligned_wf [of 1 1]) (simp_all add: regular_diff_def)
  then have "rf_lines (rf_shift_lines_by_diff b (fcmp_segments fc)) = foldl apply_hunk (rf_lines b) (fcmp_segments fc)"
    using shift_segments_patch [of "fcmp_segments fc" "rf_lines b"] by (simp add: rf_shift_lines_by_diff_def)
  with change_summary_spec [OF assms(1,2) refl assms(3-6)] show ?thesis by simp
qed

text \<open>A head in which the last line is no longer covered.\<close>

definition sample_comparison_of :: "report_file \<Rightarrow> report_file \<Rightarrow> diff_file option \<Rightarrow> string list \<Rightarrow> file_comparison" where
  "sample_comparison_of b h d src =
     \<lparr>fcmp_base_file = Some b, fcmp_head_file = Some h, fcmp_diff_data = d, fcmp_src = src, fcmp_bypass_max_diff = False,
      fcmp_should_search_for_changes = None\<rparr>"

definition file_of_hits :: "int list \<Rightarrow> report_file" where
  "file_of_hits ns = ReportFile ''a.py'' None (map (\<lambda>n. Some (covered n)) ns) None None"

theorem change_summary_compares_shifted_base_witness:
  "change_summary (sample_comparison_of (file_of_hits [1, 0, 1]) (file_of_hits [1, 0, 0, 0]) (Some sample_diff) []) =
   Some (Inr [(''hits'', -1), (''misses'', 1)])"
proof -
  let ?fc = "sample_comparison_of (file_of_hits [1, 0, 1]) (file_of_hits [1, 0, 0, 0]) (Some sample_diff) []"
  have "fcmp_segments ?fc = df_segments sample_diff" by (simp add: fcmp_segments_def sample_comparison_of_def)
  moreover have "regular_diff (df_segments sample_diff)" "hunks_in_head (df_segments sample_diff)" by code_simp+
  moreover have "foldl_res (\<lambda>c n. summarise_lines c (line_at (rf_lines (rf_shift_lines_by_diff (file_of_hits [1, 0, 1]) (df_segments sample_diff))) n)
      (line_at (rf_lines (file_of_hits [1, 0, 0, 0])) n)) []
      (filter (\<lambda>n. n \<notin> set (additions_of (df_segments sample_diff))) [1..int (length (rf_lines (file_of_hits [1, 0, 0, 0])))]) =
    Inr [(''hits'', -1), (''misses'', 1)]" by code_simp
  ultimately show ?thesis
    using change_summary_compares_shifted_base [of ?fc "file_of_hits [1, 0, 1]" "file_of_hits [1, 0, 0, 0]"] by (simp add: sample_comparison_of_def)
qed

text \<open>
  C19. The displayed segments of a file: they are ranges of its lines that follow each other without overlap, every line
  whose coverage or code changed is in one of them, and every range contains such a line with at most three
  lines before the first and after the last.
\<close>

theorem segments_cover_changes:
  assumes "segment_ranges ls = Inr rs"
  shows "sorted_wrt (\<lambda>r s. snd r < fst s) rs \<and>
    (\<forall>n < length ls. of_interest (ls ! n) = Inr True \<longrightarrow> (\<exists>r \<in> set rs. fst r \<le> n \<and> n \<le> snd r)) \<and>
    (\<forall>r \<in> set rs. snd r < length ls \<and>
      (\<exists>m n. m \<le> n \<and> of_interest (ls ! m) = Inr True \<and> of_interest (ls ! n) = Inr True \<and> m \<le> fst r + 3 \<and> fst r \<le> m \<and> n \<le> snd r \<and> snd r \<le> n + 3))"
proof -
  from assms obtain ns where ns: "line_numbers ls = Inr ns" "rs = map (segment_range (length ls)) (segmented_lines ns)"
    by (auto simp: segment_ranges_def)
  note sorted = line_numbers_sorted [OF ns(1)] and interest = line_numbers_iff [OF ns(1)]
  from segmented_lines_spec [of ns] sorted have far: "far_groups (segmented_lines ns)"
    and groups: "\<And>g. g \<in> set (segmented_lines ns) \<Longrightarrow> g \<noteq> [] \<and> close_numbers g" and all: "concat (segmented_lines ns) = ns" by auto
  have member: "x \<in> set ns \<and> hd g \<le> x \<and> x \<le> last g" if "g \<in> set (segmented_lines ns)" "x \<in> set g" for g x
    using that groups close_bounds [of g x] arg_cong [OF all, of set] by auto
  have "\<exists>r \<in> set rs. fst r \<le> n \<and> n \<le> snd r" if n: "n < length ls" "of_interest (ls ! n) = Inr True" for n
  proof -
    from n interest arg_cong [OF all, of set] obtain g where g: "g \<in> set (segmented_lines ns)" "n \<in> set g" by auto
    from member [OF this] n(1) show ?thesis
      by (intro bexI [of _ "segment_range (length ls) g"]) (use g in \<open>auto simp: segment_range_def ns(2)\<close>)
  qed
  moreover have "snd r < length ls \<and> (\<exists>m n. m \<le> n \<and> of_interest (ls ! m) = Inr True \<and> of_interest (ls ! n) = Inr True \<and>
      m \<le> fst r + 3 \<and> fst r \<le> m \<and> n \<le> snd r \<and> snd r \<le> n + 3)" if "r \<in> set rs" for r
  proof -
    from that ns(2) obtain g where g: "g \<in> set (segmented_lines ns)" "r = segment_range (length ls) g" by auto
    with groups have "hd g \<in> set g" "last g \<in> set g" by auto
    with member [OF g(1)] sorted interest have "hd g \<le> last g" "last g < length ls" "of_interest (ls ! hd g) = Inr True" "of_interest (ls ! last g) = Inr True"
      by auto
    then show ?thesis by (intro conjI exI [of _ "hd g"] exI [of _ "last g"]) (auto simp: g(2) segment_range_def padding_lines_def)
  qed
  ultimately show ?thesis using far_ranges [OF far, of "length ls"] groups ns(2) by auto
qed

definition sample_line :: "string \<Rightarrow> line_comparison" where
  "sample_line v =
     \<lparr>lc_base_line = None, lc_head_line = None, lc_base_ln = Some 1, lc_head_ln = Some 1, lc_value = v, lc_is_diff = True\<rparr>"

theorem segments_cover_changes_witness:
  "\<exists>rs. segment_ranges (replicate 4 (sample_line '' a'') @ sample_line ''+a'' # replicate 6 (sample_line '' a'')) = Inr rs \<and>
    (\<exists>r \<in> set rs. fst r \<le> 4 \<and> 4 \<le> snd r)"
proof -
  let ?ls = "replicate 4 (sample_line '' a'') @ sample_line ''+a'' # replicate 6 (sample_line '' a'')"
  have r: "segment_ranges ?ls = Inr [(1, 7)]" by code_simp
  from segments_cover_changes [OF r] have "\<forall>n < length ?ls. of_interest (?ls ! n) = Inr True \<longrightarrow> (\<exists>r \<in> set [(1, 7)]. fst r \<le> n \<and> n \<le> snd r)" by blast
  moreover have "of_interest (?ls ! 4) = Inr True" "4 < length ?ls" by code_simp+
  ultimately show ?thesis using r by blast
qed


text \<open>The names of files with changes, when no comparison raises or runs forever.\<close>

lemma files_with_changes_step:
  "files_with_changes cmp (names @ [n]) =
    (case files_with_changes cmp names of
       Some (Inr ns) \<Rightarrow> map_option (map_res (\<lambda>c. if c \<noteq> [] then ns @ [n] else ns)) (change_summary (cmp n))
     | r \<Rightarrow> r)"
  by (auto simp: files_with_changes_def split: option.split sum.split)

lemma files_with_changes_cases:
  assumes "files_with_changes cmp names = Some (Inr ns)" "n \<in> set names"
  shows "\<exists>c. change_summary (cmp n) = Some (Inr c) \<and> (c \<noteq> [] \<longrightarrow> n \<in> set ns)"
  using assms
proof (induction names arbitrary: ns rule: rev_induct)
  case (snoc m names)
  then obtain ks c where k: "files_with_changes cmp names = Some (Inr ks)" "change_summary (cmp m) = Some (Inr c)" "ns = (if c \<noteq> [] then ks @ [m] else ks)"
    by (auto simp: files_with_changes_step split: option.splits sum.splits)
  with snoc.IH [OF k(1)] snoc.prems(2) show ?case by (cases "n = m") (auto split: if_splits)
qed simp

lemma search_restriction:
  assumes "fcmp_should_search_for_changes fc = None" "change_summary fc = Some (Inr c)" "c \<noteq> [] \<longrightarrow> b"
  shows "change_summary (fc\<lparr>fcmp_should_search_for_changes := Some b\<rparr>) = Some (Inr c)"
proof (cases "fcmp_diff_data fc \<noteq> None \<or> fcmp_src fc \<noteq> [] \<or> b")
  case True
  then have "calculated_changes_and_lines (fc\<lparr>fcmp_should_search_for_changes := Some b\<rparr>) = calculated_changes_and_lines fc"
    using assms(1) by (auto simp: calculated_changes_and_lines_def fcmp_segments_def cong: sum.case_cong)
  with assms(2) show ?thesis by (simp add: change_summary_def)
next
  case False
  with assms(3) show ?thesis by (simp add: change_summary_def calculated_changes_and_lines_def)
qed

text \<open>
  The cache of a pull request is sound: when the names of the files with changes were computed without a cache,
  comparing a file with this cache, which leaves out the files it does not name, gives the same
  summary as comparing it without.
\<close>

theorem changes_cache_sound:
  assumes "files_with_changes (pull_file_comparison None base head diff None False) names = Some (Inr ns)" "n \<in> set names"
  shows "change_summary (pull_file_comparison (Some ns) base head diff None False n) =
    change_summary (pull_file_comparison None base head diff None False n)"
proof -
  from files_with_changes_cases [OF assms] obtain c where
    c: "change_summary (pull_file_comparison None base head diff None False n) = Some (Inr c)" "c \<noteq> [] \<longrightarrow> n \<in> set ns" by blast
  have "change_summary ((pull_file_comparison None base head diff None False n)\<lparr>fcmp_should_search_for_changes := Some (n \<in> set ns)\<rparr>) = Some (Inr c)"
    by (rule search_restriction [OF _ c]) (simp add: pull_file_comparison_def)
  with c(1) show ?thesis by (simp add: pull_file_comparison_def)
qed

theorem changes_cache_sound_witness:
  "change_summary (pull_file_comparison (Some [''a.py'']) (Some (report_of [] [file_of_hits [1]])) (report_of [] [file_of_hits [0]])
      \<lparr>rd_files = [], rd_totals = None\<rparr> None False ''a.py'') =
   change_summary (pull_file_comparison None (Some (report_of [] [file_of_hits [1]])) (report_of [] [file_of_hits [0]])
      \<lparr>rd_files = [], rd_totals = None\<rparr> None False ''a.py'')"
proof (rule changes_cache_sound [where names = "[''a.py'']"])
  show "files_with_changes (pull_file_comparison None (Some (report_of [] [file_of_hits [1]])) (report_of [] [file_of_hits [0]])
      \<lparr>rd_files = [], rd_totals = None\<rparr> None False) [''a.py''] = Some (Inr [''a.py''])"
    by code_simp
qed simp

section \<open>Deviations\<close>

text \<open>
  A segment with more lines than its header says, as the diff parser makes when lines of the next file leak into it:
  after the lines that the header counts, the traversal without source is never in the diff again
  and never finished.
\<close>

definition stuck :: "int \<Rightarrow> traverse_manager \<Rightarrow> bool" where
  "stuck n m =
     (\<exists>s. tm_segments m = [s] \<and> seg_header s = [''1'', ''1'', ''1'', ''1''] \<and> seg_lines s \<noteq> [] \<and> tm_src m = [] \<and> n < tm_base_ln m \<and> n < tm_head_ln m)"

lemma header_ones:
  assumes "seg_header s = [''1'', ''1'', ''1'', ''1'']" "i < 4"
  shows "header_start s i = Inr 1" "header_count s i = Inr 1"
proof -
  have "py_int ''1'' = Inr 1" by code_simp
  moreover from assms(2) have "i = 0 \<or> i = 1 \<or> i = 2 \<or> i = 3" by auto
  ultimately show "header_start s i = Inr 1" "header_count s i = Inr 1"
    using assms(1) by (auto simp: header_start_def header_count_def)
qed

lemma stuck_step:
  assumes "stuck n m" "1 \<le> n"
  shows "\<not> traverse_finished m" "\<exists>v m'. traverse_step m = Inr (v, m') \<and> stuck n m' \<and> v_base v = Some (tm_base_ln m) \<and> v_head v = Some (tm_head_ln m)"
proof -
  from assms(1) obtain s where s: "tm_segments m = [s]" "seg_header s = [''1'', ''1'', ''1'', ''1'']" "seg_lines s \<noteq> []" "tm_src m = []"
    "n < tm_base_ln m" "n < tm_head_ln m" by (auto simp: stuck_def)
  then show "\<not> traverse_finished m" by (simp add: traverse_finished_def)
  have "traversing_diff m = Inr False"
    using s assms(2) by (simp add: traversing_diff_def within_offset_def header_ones)
  then have "traverse_step m = Inr (\<lparr>v_base = Some (tm_base_ln m), v_head = Some (tm_head_ln m), v_value = None, v_is_diff = False\<rparr>,
      m\<lparr>tm_head_ln := tm_head_ln m + 1, tm_base_ln := tm_base_ln m + 1\<rparr>)"
    using s by (simp add: traverse_step_def pop_line_def Let_def drop_segment_def del: bind_res_eq_Inr)
  moreover have "stuck n (m\<lparr>tm_head_ln := tm_head_ln m + 1, tm_base_ln := tm_base_ln m + 1\<rparr>)"
    using s by (auto simp: stuck_def)
  ultimately show "\<exists>v m'. traverse_step m = Inr (v, m') \<and> stuck n m' \<and> v_base v = Some (tm_base_ln m) \<and> v_head v = Some (tm_head_ln m)" by auto
qed


definition total_beyond :: "int \<Rightarrow> ('s \<Rightarrow> visit \<Rightarrow> 's res) \<Rightarrow> bool" where
  "total_beyond n f = (\<forall>s v x y. v_base v = Some x \<longrightarrow> v_head v = Some y \<longrightarrow> n < x \<longrightarrow> n < y \<longrightarrow> is_ok (f s v))"

lemma stuck_forever:
  assumes "stuck n m" "1 \<le> n" "total_beyond n f"
  shows "traverse_apply f m s = None"
proof (rule ccontr)
  assume "traverse_apply f m s \<noteq> None"
  then obtain r where r: "traverse_apply f m s = Some r" by blast
  have "total_beyond n f \<longrightarrow> \<not> stuck n m"
  proof (rule traverse_apply.raw_induct [where P = "\<lambda>f m s r. total_beyond n f \<longrightarrow> \<not> stuck n m", OF _ r], intro impI notI)
    fix loop f m s r
    assume IH: "\<And>f m s r. loop f m s = Some r \<Longrightarrow> total_beyond n f \<longrightarrow> \<not> stuck n m"
      and eq: "(if traverse_finished m then Some (Inr s)
        else case traverse_step m of Inl e \<Rightarrow> Some (Inl e) | Inr (v, m') \<Rightarrow> (case f s v of Inl e \<Rightarrow> Some (Inl e) | Inr s' \<Rightarrow> loop f m' s')) = Some r"
      and f: "total_beyond n f" and st: "stuck n m"
    from stuck_step [OF st assms(2)] obtain v m' where step: "\<not> traverse_finished m" "traverse_step m = Inr (v, m')" "stuck n m'"
      "v_base v = Some (tm_base_ln m)" "v_head v = Some (tm_head_ln m)" by blast
    moreover from st have "n < tm_base_ln m" "n < tm_head_ln m" by (auto simp: stuck_def)
    ultimately have "is_ok (f s v)" using f by (auto simp: total_beyond_def)
    then obtain s' where "f s v = Inr s'" by (auto simp: is_ok_iff)
    with eq step(1,2) have "loop f m' s' = Some r" by simp
    with IH f step(3) show False by blast
  qed
  with assms(1,3) show False by blast
qed

lemma traversal_never_ends:
  "change_summary (sample_comparison_of (file_of_hits [1]) (file_of_hits [1])
     (Some (sample_diff\<lparr>df_segments := [\<lparr>seg_header = [''1'', ''1'', ''1'', ''1''], seg_lines = ['' a'', ''similarity index 90%'']\<rparr>]\<rparr>)) []) = None"
proof -
  let ?s = "\<lambda>ls. \<lparr>seg_header = [''1'', ''1'', ''1'', ''1''], seg_lines = ls\<rparr>"
  let ?m = "\<lambda>ls b h. \<lparr>tm_head_eof = 2, tm_base_eof = 2, tm_segments = [?s ls], tm_src = [], tm_base_ln = b, tm_head_ln = h\<rparr>"
  let ?f = "both_visitors (Some (file_of_hits [1])) (Some (file_of_hits [1]))"
  have start: "FileComparisonTraverseManager 2 2 [?s ['' a'', ''similarity index 90%'']] [] = Inr (?m ['' a'', ''similarity index 90%''] 1 1)"
    "\<not> traverse_finished (?m ['' a'', ''similarity index 90%''] 1 1)"
    "traverse_step (?m ['' a'', ''similarity index 90%''] 1 1) =
      Inr (\<lparr>v_base = Some 1, v_head = Some 1, v_value = Some '' a'', v_is_diff = True\<rparr>, ?m [''similarity index 90%''] 2 2)"
    by code_simp+
  have eof: "rf_eof (file_of_hits [1]) = 2" by code_simp
  have "total_beyond 1 ?f"
    by (auto simp: total_beyond_def both_visitors_def create_change_summary_def summarise_lines_def get_line_at line_at_def file_of_hits_def ReportFile_def)
  then have "traverse_apply ?f (?m [''similarity index 90%''] 2 2) s = None" for s
    by (intro stuck_forever [where n = 1]) (auto simp: stuck_def)
  moreover have "is_ok (?f ([], []) \<lparr>v_base = Some 1, v_head = Some 1, v_value = Some '' a'', v_is_diff = True\<rparr>)" by code_simp
  then obtain s where "?f ([], []) \<lparr>v_base = Some 1, v_head = Some 1, v_value = Some '' a'', v_is_diff = True\<rparr> = Inr s" by (auto simp: is_ok_iff)
  ultimately have "traverse_apply ?f (?m ['' a'', ''similarity index 90%''] 1 1) ([], []) = None"
    by (subst traverse_apply.simps) (simp add: start(2,3))
  then show ?thesis
    by (simp add: change_summary_def calculated_changes_and_lines_def sample_comparison_of_def fcmp_segments_def eof start(1))
qed

text \<open>With the source of the file, a line of the source that starts with a sign counts as a line of the diff.\<close>

lemma source_line_with_sign_ignored:
  "change_summary (sample_comparison_of (file_of_hits [1]) (file_of_hits [0]) None [''- a'']) = Some (Inr [])"
  "change_summary (sample_comparison_of (file_of_hits [1]) (file_of_hits [0]) None [''a'']) = Some (Inr [(''hits'', -1), (''misses'', 1)])"
  by code_simp+

text \<open>A hit that becomes a miss and a miss that becomes a hit: the summary is not empty, but it says that nothing changed.\<close>

lemma changes_cancel_out:
  "change_summary (sample_comparison_of (file_of_hits [1, 0]) (file_of_hits [0, 1]) None []) = Some (Inr [(''hits'', 0), (''misses'', 0)])"
  "has_changes (sample_comparison_of (file_of_hits [1, 0]) (file_of_hits [0, 1]) None []) = Some (Inr False)"
  by code_simp+

text \<open>A file that loses all of its coverage has no change of coverage.\<close>

lemma lost_coverage_no_change:
  assumes "im_head_coverage f = Some (ImpactedFile_Totals 0 misses partials)"
  shows "change_coverage f = None"
proof -
  have "fl 0 = 0" by (simp add: fl_def)
  then have "true_coverage (im_head_coverage f) = None"
    by (simp add: assms true_coverage_def ImpactedFile_Totals_def Let_def)
  then show ?thesis by (simp add: change_coverage_def split: option.split)
qed

end
