(* ===== verification/Diff_Parser.thy ===== *)
theory Diff_Parser
  imports Changes User_Yaml
begin

text \<open>
  Reading the diffs of the git providers (libs/shared/shared/torngit): \<open>diff_to_json\<close> of base.py and its
  versions for GitLab and Bitbucket Server, and the diff of GitHub's comparison of two commits.
  The answers of the providers are arguments.

  The code of base.py keeps the variable \<open>segment\<close> when it goes on to the next file and appends lines to whatever
  segment it holds, so that segments live in a store here and files refer to them.
\<close>

section \<open>Files of a diff\<close>

record parsed_file =
  pf_type :: string
  pf_before :: "string option"
  pf_segments :: "nat list option"

record parse_state =
  ps_segments :: "diff_segment list"
  ps_current :: "nat option"
  ps_files :: "(string, parsed_file) dict"

text \<open>A file of the result: \<open>None\<close> for a key \<open>segments\<close> that was taken out, and the numbers of \<open>stats\<close>.\<close>

record provider_file =
  pv_type :: string
  pv_before :: "string option"
  pv_segments :: "diff_segment list option"
  pv_added :: int
  pv_removed :: int

text \<open>\<open>s.split(sep, 1)\<close>.\<close>

fun split_first :: "string \<Rightarrow> string \<Rightarrow> (string \<times> string) option" where
  "split_first sep [] = (if sep = [] then Some ([], []) else None)"
| "split_first sep (c # s) =
     (if startswith (c # s) sep then Some ([], drop (length sep) (c # s))
      else (case split_first sep s of None \<Rightarrow> None | Some (a, b) \<Rightarrow> Some (c # a, b)))"

section \<open>Headers of segments\<close>

text \<open>The regular expression \<open>@@ \-(\d+),?(\d*) \+(\d+),?(\d*).*\<close>, whose repetitions take all digits there are.\<close>

definition is_digit :: "char \<Rightarrow> bool" where
  "is_digit c = (digit_val c \<noteq> None)"

definition digits_comma_digits :: "string \<Rightarrow> (string \<times> string \<times> string) option" where
  "digits_comma_digits s =
     (let a = takeWhile is_digit s; r = dropWhile is_digit s; t = (if startswith r '','' then drop 1 r else r)
      in if a = [] then None else Some (a, takeWhile is_digit t, dropWhile is_digit t))"

definition get_start_of_line :: "string \<Rightarrow> string list option" where
  "get_start_of_line source =
     (if \<not> startswith source ''@@ -'' then None
      else (case digits_comma_digits (drop 4 source) of
          None \<Rightarrow> None
        | Some (a, b, r) \<Rightarrow>
            if \<not> startswith r '' +'' then None
            else (case digits_comma_digits (drop 2 r) of
                None \<Rightarrow> None
              | Some (c, d, _) \<Rightarrow> Some [a, b, c, d])))"

section \<open>\<open>diff_to_json\<close> of base.py\<close>

text \<open>What the loop over the lines of a file changes: the store, \<open>segment\<close> and the file; and whether it stops.\<close>

type_synonym file_state = "diff_segment list \<times> nat option \<times> parsed_file"

definition add_line :: "diff_segment list \<Rightarrow> nat \<Rightarrow> string \<Rightarrow> diff_segment list" where
  "add_line segs i l = segs[i := (segs ! i)\<lparr>seg_lines := seg_lines (segs ! i) @ [l]\<rparr>]"

definition skipped_line :: "string \<Rightarrow> bool" where
  "skipped_line source = (take 4 source \<in> {''--- '', ''+++ '', ''inde'', ''diff'', ''old '', ''new ''})"

definition diff_line :: "string \<Rightarrow> string \<Rightarrow> file_state \<Rightarrow> (bool \<times> file_state) res" where
  "diff_line after source st =
     (case st of (segs, cur, f) \<Rightarrow>
        let sol4 = take 4 source
        in if startswith source (CHR 0x5C # '' No newline at end of file'') then Inr (False, st)
           else if sol4 = ''dele'' then Inr (True, segs, cur, f\<lparr>pf_before := Some after, pf_type := ''deleted'', pf_segments := None\<rparr>)
           else if sol4 = ''new '' \<and> \<not> startswith source ''new mode '' then Inr (False, segs, cur, f\<lparr>pf_type := ''new''\<rparr>)
           else if sol4 = ''Bina'' then Inr (True, segs, cur, f\<lparr>pf_type := ''binary'', pf_before := None, pf_segments := None\<rparr>)
           else if skipped_line source then Inr (False, st)
           else if sol4 = ''@@ -'' then
             (case get_start_of_line source of
                None \<Rightarrow> Inl AttributeError
              | Some h \<Rightarrow>
                  (case pf_segments f of
                     None \<Rightarrow> Inl KeyError
                   | Some refs \<Rightarrow>
                       Inr (False, segs @ [\<lparr>seg_header = h, seg_lines = []\<rparr>], Some (length segs),
                         f\<lparr>pf_segments := Some (refs @ [length segs])\<rparr>)))
           else if source = [] then Inr (False, st)
           else (case cur of None \<Rightarrow> Inr (False, st) | Some i \<Rightarrow> Inr (False, add_line segs i source, cur, f)))"

fun diff_lines :: "string \<Rightarrow> string list \<Rightarrow> file_state \<Rightarrow> file_state res" where
  "diff_lines after [] st = Inr st"
| "diff_lines after (source # ls) st =
     bind_res (diff_line after source st) (\<lambda>(stop, st'). if stop then Inr st' else diff_lines after ls st')"

text \<open>The fallback when there is no first line, over the lines that are left.\<close>

fun find_names :: "string option \<times> string option \<Rightarrow> string list \<Rightarrow> string option \<times> string option" where
  "find_names names [] = names"
| "find_names (before, after) (source # ls) =
     (if startswith source ''--- a/'' then find_names (Some (drop 6 source), after) ls
      else if startswith source ''+++ b/'' then (before, Some (drop 6 source))
      else find_names (before, after) ls)"

definition diff_names :: "string list \<Rightarrow> ((string option \<times> string option) \<times> string list) res" where
  "diff_names ls =
     (case ls of
        [] \<Rightarrow> Inr (find_names (None, None) [], [])
      | l # rest \<Rightarrow>
          (case split_first '' b/'' l of
             None \<Rightarrow> Inl ValueError
           | Some (before, after) \<Rightarrow> Inr ((Some before, Some after), rest)))"

definition diff_piece_lines :: "string \<Rightarrow> string list" where
  "diff_piece_lines piece =
     (let ls = split_all newline (replace_str [CHR 0x0D, newline] [newline] piece)
      in if last ls = [] then butlast ls else ls)"

definition diff_piece :: "parse_state \<Rightarrow> string \<Rightarrow> parse_state res" where
  "diff_piece st piece =
     bind_res (diff_names (diff_piece_lines piece)) (\<lambda>((before, after), ls).
       case after of
         None \<Rightarrow> Inr st
       | Some aft \<Rightarrow>
           let f = \<lparr>pf_type = (if before = Some ''/dev/null'' then ''new'' else ''modified''),
                    pf_before = (if before = Some aft \<or> before = Some ''/dev/null'' then None else before),
                    pf_segments = Some []\<rparr>
           in bind_res (diff_lines aft ls (ps_segments st, ps_current st, f)) (\<lambda>(segs, cur, f').
                Inr \<lparr>ps_segments = segs, ps_current = cur, ps_files = dict_set (ps_files st) aft f'\<rparr>))"

text \<open>\<open>_add_diff_totals\<close>, with the references resolved.\<close>

definition count_first :: "char \<Rightarrow> diff_segment list \<Rightarrow> int res" where
  "count_first c segs =
     map_res (\<lambda>css. int (count_list (concat css) c)) (traverse (\<lambda>s. traverse first_char (seg_lines s)) segs)"

definition with_stats :: "string \<Rightarrow> string option \<Rightarrow> diff_segment list option \<Rightarrow> provider_file res" where
  "with_stats t before segs =
     (let ss = (case segs of None \<Rightarrow> [] | Some xs \<Rightarrow> xs)
      in bind_res (count_first (CHR ''-'') ss) (\<lambda>rm. bind_res (count_first (CHR ''+'') ss) (\<lambda>add.
           Inr \<lparr>pv_type = t, pv_before = before, pv_segments = segs, pv_added = add, pv_removed = rm\<rparr>)))"

definition add_diff_totals :: "parse_state \<Rightarrow> (string, provider_file) dict res" where
  "add_diff_totals st =
     traverse (\<lambda>(name, f).
       map_res (\<lambda>p. (name, p))
         (with_stats (pf_type f) (pf_before f) (map_option (map (\<lambda>i. ps_segments st ! i)) (pf_segments f)))) (ps_files st)"

definition diff_header :: string where
  "diff_header = ''diff --git a/''"

definition no_diff :: parse_state where
  "no_diff = \<lparr>ps_segments = [], ps_current = None, ps_files = []\<rparr>"

definition diff_to_json :: "string \<Rightarrow> (string, provider_file) dict option res" where
  "diff_to_json diff =
     bind_res (foldl_res diff_piece no_diff (tl (split_str (newline # diff_header) (newline # diff)))) (\<lambda>st.
       if ps_files st = [] then Inr None else map_res Some (add_diff_totals st))"

text \<open>The diff that the reports work with; deleted and binary files have no segments.\<close>

definition raw_file :: "provider_file \<Rightarrow> diff_file" where
  "raw_file p =
     \<lparr>df_type = pv_type p, df_before = pv_before p, df_segments = (case pv_segments p of None \<Rightarrow> [] | Some xs \<Rightarrow> xs), df_totals = None\<rparr>"

definition raw_diff_of :: "(string, provider_file) dict \<Rightarrow> raw_diff" where
  "raw_diff_of files = \<lparr>rd_files = dict_map raw_file files, rd_totals = None\<rparr>"

section \<open>GitLab\<close>

text \<open>
  An entry of GitLab's list of diffs. A diff that is no list is passed on with an argument too many, which is
  a \<open>TypeError\<close>.
\<close>

record gitlab_diff =
  gl_old_path :: string
  gl_new_path :: string
  gl_deleted :: bool
  gl_diff :: string

definition gitlab_text :: "gitlab_diff \<Rightarrow> string" where
  "gitlab_text d =
     diff_header @ gl_old_path d @ '' b/'' @ gl_new_path d @ [newline] @
     (if gl_deleted d then ''deleted file mode'' @ [newline] else []) @ gl_diff d"

definition gitlab_diff_to_json :: "gitlab_diff list option \<Rightarrow> (string, provider_file) dict option res" where
  "gitlab_diff_to_json diff =
     (case diff of
        None \<Rightarrow> Inl TypeError
      | Some ds \<Rightarrow> diff_to_json (join_with newline (map gitlab_text ds)))"

section \<open>GitHub\<close>

text \<open>An entry of \<open>files\<close> in GitHub's comparison.\<close>

record github_file =
  gh_filename :: string
  gh_previous :: "string option"
  gh_status :: string
  gh_patch :: "string option"

text \<open>\<open>f.get("previous_filename") or f.get("filename")\<close>.\<close>

definition github_before :: "github_file \<Rightarrow> string" where
  "github_before f = (case gh_previous f of Some (c # cs) \<Rightarrow> c # cs | _ \<Rightarrow> gh_filename f)"

definition github_text :: "github_file \<Rightarrow> string" where
  "github_text f =
     diff_header @ github_before f @ '' b/'' @ gh_filename f @
     (if gh_status f = ''removed'' then newline # ''deleted file mode 100644''
      else if gh_status f = ''added'' then newline # ''new file mode 100644'' else []) @ [newline] @
     ''--- '' @ (if gh_status f = ''new'' then ''/dev/null'' else ''a/'' @ (case gh_previous f of Some p \<Rightarrow> p | None \<Rightarrow> gh_filename f)) @ [newline] @
     ''+++ '' @ (if gh_status f = ''removed'' then ''/dev/null'' else ''b/'' @ gh_filename f) @ [newline] @
     (case gh_patch f of None \<Rightarrow> [] | Some p \<Rightarrow> p)"

definition github_add_file :: "(string, provider_file) dict \<Rightarrow> github_file \<Rightarrow> (string, provider_file) dict res" where
  "github_add_file files f =
     bind_res (diff_to_json (github_text f)) (\<lambda>d.
       case d of
         None \<Rightarrow> Inl TypeError
       | Some fs \<Rightarrow> Inr (foldl (\<lambda>files p. dict_set files (fst p) (snd p)) files fs))"

text \<open>The part \<open>diff\<close> of \<open>get_compare\<close>.\<close>

definition github_compare_diff :: "github_file list \<Rightarrow> (string, provider_file) dict res" where
  "github_compare_diff fs = foldl_res github_add_file [] fs"

section \<open>Bitbucket Server\<close>

text \<open>
  An entry of Bitbucket Server's list of diffs: the names \<open>toString\<close> of source and destination, and the
  hunks with their segments (type and lines).
\<close>

record bbs_hunk =
  bh_source_line :: int
  bh_source_span :: int
  bh_destination_line :: int
  bh_destination_span :: int
  bh_segments :: "(string \<times> string list) list"

record bbs_diff =
  bd_source :: "string option"
  bd_destination :: "string option"
  bd_hunks :: "bbs_hunk list"

definition bbs_segment_lines :: "string \<times> string list \<Rightarrow> string list res" where
  "bbs_segment_lines s =
     map_res (\<lambda>t. map (\<lambda>l. (if t = CHR ''R'' then CHR ''-'' else if t = CHR ''A'' then CHR ''+'' else CHR '' '') # l) (snd s))
       (first_char (fst s))"

definition bbs_segment :: "bbs_hunk \<Rightarrow> diff_segment res" where
  "bbs_segment h =
     map_res (\<lambda>lss. \<lparr>seg_header = [int_str (bh_source_line h), int_str (bh_source_span h),
         int_str (bh_destination_line h), int_str (bh_destination_span h)], seg_lines = concat lss\<rparr>)
       (traverse bbs_segment_lines (bh_segments h))"

text \<open>A file in progress: its type, old name and segments (no key \<open>segments\<close> for a deleted one).\<close>

type_synonym bbs_file = "string \<times> string option \<times> diff_segment list option"

definition bbs_add_diff :: "(string, bbs_file) dict \<Rightarrow> bbs_diff \<Rightarrow> (string, bbs_file) dict res" where
  "bbs_add_diff results d =
     (case bd_destination d of
        None \<Rightarrow>
          (case bd_source d of
             None \<Rightarrow> Inl TypeError
           | Some src \<Rightarrow> Inr (dict_set results src (''deleted'', None, None)))
      | Some fname \<Rightarrow>
          (let before = bd_source d;
               f = (case dict_get results fname of
                 Some g \<Rightarrow> g
               | None \<Rightarrow> (if before = None then ''new'' else ''modified'', if before = Some fname then None else before, Some []))
           in bind_res (traverse bbs_segment (bd_hunks d)) (\<lambda>segs.
                case f of (t, b, old) \<Rightarrow>
                  (case old of
                     None \<Rightarrow> if segs = [] then Inr (dict_set results fname f) else Inl KeyError
                   | Some xs \<Rightarrow> Inr (dict_set results fname (t, b, Some (xs @ segs)))))))"

text \<open>Without a result the code gives an empty list of files; here both are an empty dictionary.\<close>

definition bbs_diff_to_json :: "bbs_diff list \<Rightarrow> (string, provider_file) dict res" where
  "bbs_diff_to_json ds =
     bind_res (foldl_res bbs_add_diff [] ds) (\<lambda>results.
       traverse (\<lambda>(name, t, before, segs). map_res (\<lambda>p. (name, p)) (with_stats t before segs)) results)"


section \<open>Splitting a text at lines\<close>

text \<open>Lines grouped at those that start with a header, of which the header is dropped.\<close>

fun cut_lines :: "string \<Rightarrow> string list \<Rightarrow> string list \<Rightarrow> string list list" where
  "cut_lines p acc [] = [acc]"
| "cut_lines p acc (l # ls) =
     (if startswith l p then acc # cut_lines p [drop (length p) l] ls else cut_lines p (acc @ [l]) ls)"

lemma startswith_join:
  assumes "c \<notin> set p"
  shows "startswith (join_with c (l # ls)) p \<longleftrightarrow> startswith l p"
proof (cases ls)
  case (Cons m ms)
  show ?thesis
  proof (cases "length p \<le> length l")
    case False
    then have "take (length p) (l @ c # join_with c (m # ms)) \<noteq> p"
      by (metis (no_types, lifting) assms in_set_conv_decomp take_Cons' take_append diff_is_0_eq less_imp_le not_le)
    moreover have "take (length p) l \<noteq> p" using False by (metis length_take min.absorb_iff2 nat_le_linear)
    ultimately show ?thesis using Cons by (simp add: startswith_def)
  qed (simp add: Cons startswith_def)
qed simp

lemma drop_join: "length p \<le> length l \<Longrightarrow> drop (length p) (join_with c (l # ls)) = join_with c (drop (length p) l # ls)"
  by (cases ls) simp_all

lemma startswith_length: "startswith l p \<Longrightarrow> length p \<le> length l"
  by (metis length_take min.cobounded1 startswith_def)

lemma split_acc_line: "c \<notin> set l \<Longrightarrow> split_str_acc (c # p) acc (l @ r) = split_str_acc (c # p) (rev l @ acc) r"
  by (induction l arbitrary: acc) (auto simp: startswith_def)

lemma join_with_append: "xs \<noteq> [] \<Longrightarrow> join_with c (xs @ [y]) = join_with c xs @ c # y"
  by (induction c xs rule: join_with.induct) auto

lemma join_with_last: "join_with c (acc @ [[]]) @ l = join_with c (acc @ [l])"
  using join_with_append [of acc c "[]"] join_with_append [of acc c l] by (cases "acc = []") simp_all

lemma split_str_lines_acc:
  assumes "c \<notin> set p" "\<forall>l \<in> set (l # ls). c \<notin> set l"
  shows "split_str_acc (c # p) (rev (join_with c (acc @ [[]]))) (join_with c (l # ls)) =
    map (join_with c) (cut_lines p (acc @ [l]) ls)"
  using assms
proof (induction ls arbitrary: l acc)
  case Nil
  then show ?case using split_acc_line [of c l p _ "[]"] by (simp add: join_with_last)
next
  case (Cons m ls)
  have acc: "rev l @ rev (join_with c (acc @ [[]])) = rev (join_with c (acc @ [l]))"
    by (simp flip: join_with_last [of c acc l])
  have st: "startswith (c # join_with c (m # ls)) (c # p) \<longleftrightarrow> startswith m p"
    using startswith_join [OF Cons.prems(1), of m ls] by (simp add: startswith_def)
  have "split_str_acc (c # p) (rev (join_with c (acc @ [[]]))) (join_with c (l # m # ls)) =
      split_str_acc (c # p) (rev (join_with c (acc @ [l]))) (c # join_with c (m # ls))"
    using split_acc_line [of c l p "rev (join_with c (acc @ [[]]))"] Cons.prems(2) by (simp add: acc)
  also have "\<dots> = map (join_with c) (cut_lines p (acc @ [l]) (m # ls))"
  proof (cases "startswith m p")
    case True
    have no: "c \<notin> set (drop (length p) m)" using Cons.prems(2) by (auto dest: in_set_dropD)
    have "split_str_acc (c # p) [] (join_with c (drop (length p) m # ls)) = map (join_with c) (cut_lines p [drop (length p) m] ls)"
      using Cons.IH [of "drop (length p) m" "[]"] Cons.prems no by simp
    with True st show ?thesis by (simp add: drop_join startswith_length)
  next
    case False
    have "c # rev (join_with c (acc @ [l])) = rev (join_with c ((acc @ [l]) @ [[]]))"
      by (subst join_with_append) simp_all
    with False st Cons.IH [of m "acc @ [l]"] Cons.prems show ?thesis by simp
  qed
  finally show ?case .
qed

lemma split_str_lines:
  assumes "c \<notin> set p" "\<forall>l \<in> set (l # ls). c \<notin> set l"
  shows "split_str (c # p) (join_with c (l # ls)) = map (join_with c) (cut_lines p [l] ls)"
  using split_str_lines_acc [OF assms, of "[]"] by (simp add: split_str_def)

text \<open>A text whose lines are files, each with a header line.\<close>

lemma cut_lines_plain: "list_all (\<lambda>l. \<not> startswith l p) ls \<Longrightarrow> cut_lines p acc (ls @ r) = cut_lines p (acc @ ls) r"
  by (induction ls arbitrary: acc) auto

lemma cut_lines_files:
  assumes "\<forall>f \<in> set fs. list_all (\<lambda>l. \<not> startswith l p) (rest f)"
  shows "cut_lines p acc (concat (map (\<lambda>f. (p @ name f) # rest f) fs)) = acc # map (\<lambda>f. name f # rest f) fs"
  using assms
proof (induction fs arbitrary: acc)
  case (Cons f fs)
  have "cut_lines p [name f] (rest f @ concat (map (\<lambda>f. (p @ name f) # rest f) fs)) = (name f # rest f) # map (\<lambda>f. name f # rest f) fs"
    using Cons cut_lines_plain [of p "rest f" "[name f]"] by simp
  then show ?case by simp
qed simp

lemma replace_str_absent: "old = c # p \<Longrightarrow> c \<notin> set s \<Longrightarrow> replace_str old new s = s"
  by (induction s) (auto simp: startswith_def)

lemma diff_piece_lines_join:
  assumes "\<forall>l \<in> set ls. newline \<notin> set l \<and> CHR 0x0D \<notin> set l" "ls \<noteq> []" "last ls \<noteq> []"
  shows "diff_piece_lines (join_with newline ls) = ls"
proof -
  have "CHR 0x0D \<notin> set (join_with newline ls)"
    using assms(1) by (induction newline ls rule: join_with.induct) (auto simp: newline_def)
  then have "replace_str [CHR 0x0D, newline] [newline] (join_with newline ls) = join_with newline ls"
    by (rule replace_str_absent [OF refl])
  with assms show ?thesis by (simp add: diff_piece_lines_def split_join)
qed

section \<open>Writing diffs\<close>

text \<open>A diff as git writes it: the reference for the parser.\<close>

definition range_text :: "string \<Rightarrow> string \<Rightarrow> string" where
  "range_text a b = a @ (if b = [] then [] else '','' @ b)"

definition hunk_line :: "diff_segment \<Rightarrow> string" where
  "hunk_line s =
     ''@@ -'' @ range_text (seg_header s ! 0) (seg_header s ! 1) @ '' +'' @ range_text (seg_header s ! 2) (seg_header s ! 3) @ '' @@''"

definition render_segment :: "diff_segment \<Rightarrow> string list" where
  "render_segment s = hunk_line s # seg_lines s"

definition old_name :: "string \<times> diff_file \<Rightarrow> string" where
  "old_name e = (case df_before (snd e) of None \<Rightarrow> fst e | Some b \<Rightarrow> b)"

definition header_names :: "string \<times> diff_file \<Rightarrow> string" where
  "header_names e = old_name e @ '' b/'' @ fst e"

definition mode_lines :: "diff_file \<Rightarrow> string list" where
  "mode_lines d =
     (if df_type d = ''deleted'' then [''deleted file mode 100644''] else if df_type d = ''new'' then [''new file mode 100644''] else [])
     @ [''index 0000000..1111111 100644'']"

definition name_lines :: "string \<times> diff_file \<Rightarrow> string list" where
  "name_lines e =
     (if df_segments (snd e) = [] then [] else [''--- a/'' @ old_name e, ''+++ b/'' @ fst e])"

definition body_lines :: "string \<times> diff_file \<Rightarrow> string list" where
  "body_lines e = mode_lines (snd e) @ name_lines e @ concat (map render_segment (df_segments (snd e)))"

definition render_diff :: "(string \<times> diff_file) list \<Rightarrow> string" where
  "render_diff es = join_with newline (concat (map (\<lambda>e. (diff_header @ header_names e) # body_lines e) es))"

definition one_line :: "string \<Rightarrow> bool" where
  "one_line s = (newline \<notin> set s \<and> CHR 0x0D \<notin> set s)"

definition content_line :: "string \<Rightarrow> bool" where
  "content_line l =
     (one_line l \<and> (startswith l '' '' \<or> startswith l ''+'' \<or> startswith l ''-'') \<and> \<not> startswith l ''--- '' \<and> \<not> startswith l ''+++ '')"

definition wf_header :: "string list \<Rightarrow> bool" where
  "wf_header h =
     (length h = 4 \<and> list_all (list_all is_digit) h \<and> h ! 0 \<noteq> [] \<and> h ! 2 \<noteq> [])"

definition wf_hunk_text :: "diff_segment \<Rightarrow> bool" where
  "wf_hunk_text s = (wf_header (seg_header s) \<and> list_all content_line (seg_lines s))"

definition wf_entry :: "string \<times> diff_file \<Rightarrow> bool" where
  "wf_entry e =
     (case e of (path, d) \<Rightarrow>
        one_line path \<and> one_line (old_name e) \<and> path \<noteq> ''/dev/null'' \<and> old_name e \<noteq> ''/dev/null'' \<and> \<not> contains (old_name e) '' b/'' \<and>
        list_all wf_hunk_text (df_segments d) \<and> df_totals d = None \<and>
        (df_type d = ''new'' \<and> df_before d = None \<or>
         df_type d = ''modified'' \<and> df_before d \<noteq> Some path \<or>
         df_type d = ''deleted'' \<and> df_before d = Some path \<and> df_segments d = []))"

lemma takeWhile_digits: "list_all is_digit a \<Longrightarrow> r = [] \<or> \<not> is_digit (hd r) \<Longrightarrow> takeWhile is_digit (a @ r) = a \<and> dropWhile is_digit (a @ r) = r"
  by (induction a) (cases r, auto)

lemma no_digits: "\<not> is_digit (CHR '','')" "\<not> is_digit (CHR '' '')"
  by (simp_all add: is_digit_def digit_val_def)

lemma digits_comma_digits_range:
  assumes "list_all is_digit a" "a \<noteq> []" "list_all is_digit b" "r \<noteq> []" "hd r = CHR '' ''"
  shows "digits_comma_digits (range_text a b @ r) = Some (a, b, r)"
proof (cases "b = []")
  case True
  from assms(4,5) obtain r' where r: "r = CHR '' '' # r'" by (cases r) auto
  show ?thesis
    using takeWhile_digits [OF assms(1), of r] takeWhile_digits [of "[]" r] assms(2) True
    by (simp add: digits_comma_digits_def range_text_def r no_digits startswith_def Let_def)
next
  case False
  have "takeWhile is_digit (a @ '','' @ b @ r) = a" "dropWhile is_digit (a @ '','' @ b @ r) = '','' @ b @ r"
    using takeWhile_digits [OF assms(1), of "'','' @ b @ r"] by (simp_all add: no_digits)
  moreover have "takeWhile is_digit (b @ r) = b" "dropWhile is_digit (b @ r) = r"
    using takeWhile_digits [OF assms(3), of r] assms(4,5) by (simp_all add: no_digits)
  ultimately show ?thesis using False assms(2) by (simp add: digits_comma_digits_def range_text_def startswith_def Let_def)
qed

lemma get_start_hunk_line:
  assumes "wf_header (seg_header s)"
  shows "get_start_of_line (hunk_line s) = Some (seg_header s)"
proof -
  from assms obtain a b c d where h: "seg_header s = [a, b, c, d]" "list_all is_digit a" "list_all is_digit b" "list_all is_digit c" "list_all is_digit d" "a \<noteq> []" "c \<noteq> []"
    by (auto simp: wf_header_def numeral_eq_Suc length_Suc_conv)
  have hl: "hunk_line s = ''@@ -'' @ range_text a b @ '' +'' @ range_text c d @ '' @@''" by (simp add: hunk_line_def h(1))
  have "digits_comma_digits (range_text a b @ '' +'' @ range_text c d @ '' @@'') = Some (a, b, '' +'' @ range_text c d @ '' @@'')"
    by (rule digits_comma_digits_range) (use h in auto)
  moreover have "digits_comma_digits (range_text c d @ '' @@'') = Some (c, d, '' @@'')"
    by (rule digits_comma_digits_range) (use h in auto)
  ultimately show ?thesis by (simp add: get_start_of_line_def hl h(1) startswith_def)
qed

text \<open>Reading back the lines of hunks.\<close>

lemma segment_eta: "\<lparr>seg_header = seg_header s, seg_lines = seg_lines s\<rparr> = s"
  by simp

lemma content_line_read:
  assumes "content_line l"
  shows "diff_line aft l (segs, Some i, f) = Inr (False, add_line segs i l, Some i, f)"
proof -
  from assms obtain c r where l: "l = c # r" and c: "c \<in> {CHR '' '', CHR ''+'', CHR ''-''}"
    by (cases l) (auto simp: content_line_def startswith_def)
  have "\<not> skipped_line l" using assms c l by (auto simp: skipped_line_def content_line_def startswith_def numeral_eq_Suc)
  with l c show ?thesis by (auto simp: diff_line_def startswith_def)
qed

lemma add_line_last: "add_line (segs @ [s]) (length segs) l = segs @ [s\<lparr>seg_lines := seg_lines s @ [l]\<rparr>]"
  by (simp add: add_line_def)

lemma read_content:
  "list_all content_line ls \<Longrightarrow>
    diff_lines aft (ls @ ms) (segs @ [s], Some (length segs), f) = diff_lines aft ms (segs @ [s\<lparr>seg_lines := seg_lines s @ ls\<rparr>], Some (length segs), f)"
  by (induction ls arbitrary: s) (simp_all add: content_line_read add_line_last)

lemma read_hunk_line:
  assumes "wf_header (seg_header s)" "pf_segments f = Some refs"
  shows "diff_line aft (hunk_line s) (segs, cur, f) =
    Inr (False, segs @ [\<lparr>seg_header = seg_header s, seg_lines = []\<rparr>], Some (length segs), f\<lparr>pf_segments := Some (refs @ [length segs])\<rparr>)"
  using get_start_hunk_line [OF assms(1)] assms(2) by (auto simp: diff_line_def hunk_line_def startswith_def skipped_line_def)

lemma read_segments:
  assumes "list_all wf_hunk_text ss" "pf_segments f = Some refs"
  shows "\<exists>cur'. diff_lines aft (concat (map render_segment ss)) (segs, cur, f) =
    Inr (segs @ ss, cur', f\<lparr>pf_segments := Some (refs @ [length segs..<length segs + length ss])\<rparr>)"
  using assms
proof (induction ss arbitrary: segs cur f refs)
  case Nil
  then show ?case by simp
next
  case (Cons s ss)
  then have s: "wf_header (seg_header s)" "list_all content_line (seg_lines s)" by (simp_all add: wf_hunk_text_def)
  let ?f = "f\<lparr>pf_segments := Some (refs @ [length segs])\<rparr>"
  have "diff_lines aft (concat (map render_segment (s # ss))) (segs, cur, f) =
      diff_lines aft (concat (map render_segment ss)) (segs @ [s], Some (length segs), ?f)"
    using read_hunk_line [OF s(1) Cons.prems(2)] read_content [OF s(2)] by (simp add: render_segment_def segment_eta)
  moreover have "length segs # [length (segs @ [s])..<length (segs @ [s]) + length ss] = [length segs..<length segs + length (s # ss)]"
    by (simp add: upt_conv_Cons del: upt_Suc)
  ultimately show ?case
    using Cons.IH [of ?f "refs @ [length segs]" "segs @ [s]" "Some (length segs)"] Cons.prems(1) by (simp del: upt_Suc)
qed

text \<open>A file of a diff and what the parser makes of it.\<close>

lemma split_first_sep:
  assumes "\<not> contains a '' b/''"
  shows "split_first '' b/'' (a @ '' b/'' @ r) = Some (a, r)"
  using assms
proof (induction a)
  case (Cons c a)
  then have "\<not> startswith (c # a @ '' b/'' @ r) '' b/''"
    by (cases a rule: list.exhaust; cases "tl a") (auto simp: startswith_def)
  with Cons show ?case by simp
qed (simp add: startswith_def)

lemma read_names: "wf_entry e \<Longrightarrow> diff_names (header_names e # ls) = Inr ((Some (old_name e), Some (fst e)), ls)"
  using split_first_sep [of "old_name e" "fst e"] by (cases e) (simp add: diff_names_def header_names_def wf_entry_def)

lemma read_skipped: "skipped_line l \<Longrightarrow> take 4 l \<noteq> ''new '' \<Longrightarrow> diff_line aft l st = Inr (False, st)"
  by (cases st) (auto simp: diff_line_def skipped_line_def Let_def)

lemma read_mode_lines:
  "diff_line aft ''new file mode 100644'' (segs, cur, f) = Inr (False, segs, cur, f\<lparr>pf_type := ''new''\<rparr>)"
  "diff_line aft ''deleted file mode 100644'' (segs, cur, f) =
    Inr (True, segs, cur, f\<lparr>pf_before := Some aft, pf_type := ''deleted'', pf_segments := None\<rparr>)"
  "diff_line aft ''index 0000000..1111111 100644'' st = Inr (False, st)"
  by (cases st; simp add: diff_line_def startswith_def skipped_line_def)+

definition parsed_as :: "string \<times> diff_file \<Rightarrow> nat list \<Rightarrow> parsed_file" where
  "parsed_as e refs =
     \<lparr>pf_type = df_type (snd e), pf_before = df_before (snd e), pf_segments = (if df_type (snd e) = ''deleted'' then None else Some refs)\<rparr>"

lemma read_name_lines:
  "diff_lines aft (name_lines e @ ls) st = diff_lines aft ls st"
  by (simp add: name_lines_def read_skipped skipped_line_def)

lemma read_body:
  assumes "wf_entry e"
  shows "\<exists>cur'. diff_lines (fst e) (body_lines e) (segs, cur,
      \<lparr>pf_type = ''modified'', pf_before = (if old_name e = fst e then None else Some (old_name e)), pf_segments = Some []\<rparr>) =
    Inr (segs @ df_segments (snd e), cur', parsed_as e [length segs..<length segs + length (df_segments (snd e))])"
proof -
  obtain path d where e: "e = (path, d)" by (cases e)
  let ?f = "\<lambda>t. \<lparr>pf_type = t, pf_before = (if old_name e = path then None else Some (old_name e)), pf_segments = Some []\<rparr>"
  have seg: "\<exists>cur'. diff_lines path (name_lines e @ concat (map render_segment (df_segments d))) (segs, cur, ?f t) =
      Inr (segs @ df_segments d, cur', (?f t)\<lparr>pf_segments := Some [length segs..<length segs + length (df_segments d)]\<rparr>)" for t
    using read_segments [of "df_segments d" "?f t" "[]"] assms by (simp add: read_name_lines e wf_entry_def)
  from assms e consider (new) "df_type d = ''new''" "df_before d = None" | (modified) "df_type d = ''modified''" "df_before d \<noteq> Some path"
    | (deleted) "df_type d = ''deleted''" "df_before d = Some path" "df_segments d = []"
    by (auto simp: wf_entry_def)
  then show ?thesis
  proof cases
    case new
    then show ?thesis using seg [of "''new''"]
      by (simp add: e body_lines_def mode_lines_def read_mode_lines old_name_def parsed_as_def)
  next
    case modified
    then show ?thesis using seg [of "''modified''"]
      by (cases "df_before d") (auto simp: e body_lines_def mode_lines_def read_mode_lines old_name_def parsed_as_def)
  next
    case deleted
    then show ?thesis by (simp add: e body_lines_def mode_lines_def read_mode_lines parsed_as_def)
  qed
qed

text \<open>The lines of a file are lines of the diff, and no headers.\<close>

lemma one_line_digits: "list_all is_digit s \<Longrightarrow> one_line s"
  by (auto simp: one_line_def list_all_iff is_digit_def digit_val_def newline_def)

lemma one_line_append [simp]: "one_line (a @ b) \<longleftrightarrow> one_line a \<and> one_line b" "one_line (c # b) \<longleftrightarrow> c \<noteq> newline \<and> c \<noteq> CHR 0x0D \<and> one_line b" "one_line []"
  by (auto simp: one_line_def)

lemma hunk_line_one_line: "wf_header (seg_header s) \<Longrightarrow> one_line (hunk_line s)"
  using one_line_digits by (auto simp: wf_header_def hunk_line_def range_text_def newline_def list_all_length)

lemma body_line_cases:
  assumes "wf_entry e" "l \<in> set (body_lines e)"
  shows "one_line l \<and> l \<noteq> [] \<and> \<not> startswith l diff_header"
proof -
  from assms(2) consider (mode) "l \<in> set (mode_lines (snd e))" | (name) "l \<in> set (name_lines e)"
    | (seg) s where "s \<in> set (df_segments (snd e))" "l \<in> set (render_segment s)"
    by (auto simp: body_lines_def)
  then show ?thesis
  proof cases
    case mode
    then show ?thesis by (auto simp: mode_lines_def newline_def startswith_def diff_header_def split: if_splits)
  next
    case name
    then show ?thesis using assms(1) by (cases e) (auto simp: name_lines_def newline_def startswith_def diff_header_def wf_entry_def split: if_splits)
  next
    case seg
    then have w: "wf_hunk_text s" using assms(1) by (cases e) (auto simp: wf_entry_def list_all_iff)
    show ?thesis
    proof (cases "l = hunk_line s")
      case True
      with w hunk_line_one_line show ?thesis by (auto simp: wf_hunk_text_def hunk_line_def startswith_def diff_header_def)
    next
      case False
      with seg w have "content_line l" by (auto simp: render_segment_def wf_hunk_text_def list_all_iff)
      then show ?thesis by (cases l) (auto simp: content_line_def startswith_def diff_header_def)
    qed
  qed
qed

lemma body_lines_nonempty [simp]: "body_lines e \<noteq> []"
  by (simp add: body_lines_def mode_lines_def)

lemma piece_lines:
  assumes "wf_entry e"
  shows "diff_piece_lines (join_with newline (header_names e # body_lines e)) = header_names e # body_lines e"
proof (rule diff_piece_lines_join)
  have "one_line (header_names e)" using assms by (cases e) (auto simp: header_names_def wf_entry_def newline_def)
  with body_line_cases [OF assms] show "\<forall>l \<in> set (header_names e # body_lines e). newline \<notin> set l \<and> CHR 0x0D \<notin> set l"
    by (auto simp: one_line_def)
  show "last (header_names e # body_lines e) \<noteq> []" using body_line_cases [OF assms last_in_set [OF body_lines_nonempty]] by simp
qed simp

lemma read_piece:
  assumes "wf_entry e"
  shows "\<exists>cur'. diff_piece st (join_with newline (header_names e # body_lines e)) =
    Inr \<lparr>ps_segments = ps_segments st @ df_segments (snd e), ps_current = cur',
      ps_files = dict_set (ps_files st) (fst e)
        (parsed_as e [length (ps_segments st)..<length (ps_segments st) + length (df_segments (snd e))])\<rparr>"
proof -
  have "old_name e \<noteq> ''/dev/null''" using assms by (cases e) (simp add: wf_entry_def)
  with read_body [OF assms, of "ps_segments st" "ps_current st"] show ?thesis
    by (auto simp: diff_piece_def piece_lines [OF assms] read_names [OF assms])
qed

section \<open>Reading whole diffs\<close>

type_synonym file_view = "string \<times> string \<times> string option \<times> diff_segment list option"

definition resolved :: "parse_state \<Rightarrow> file_view list" where
  "resolved st = map (\<lambda>(n, f). (n, pf_type f, pf_before f, map_option (map (\<lambda>i. ps_segments st ! i)) (pf_segments f))) (ps_files st)"

definition entry_view :: "string \<times> diff_file \<Rightarrow> file_view" where
  "entry_view e = (fst e, df_type (snd e), df_before (snd e), if df_type (snd e) = ''deleted'' then None else Some (df_segments (snd e)))"

definition refs_ok :: "parse_state \<Rightarrow> bool" where
  "refs_ok st = (\<forall>(n, f) \<in> set (ps_files st). case pf_segments f of None \<Rightarrow> True | Some refs \<Rightarrow> \<forall>i \<in> set refs. i < length (ps_segments st))"

lemma fst_resolved: "map fst (resolved st) = dict_keys (ps_files st)"
  by (auto simp: resolved_def dict_keys_def)

lemma resolved_step:
  assumes "refs_ok st" "fst e \<notin> set (dict_keys (ps_files st))"
    and "st' = \<lparr>ps_segments = ps_segments st @ df_segments (snd e), ps_current = cur',
      ps_files = dict_set (ps_files st) (fst e)
        (parsed_as e [length (ps_segments st)..<length (ps_segments st) + length (df_segments (snd e))])\<rparr>"
  shows "resolved st' = resolved st @ [entry_view e] \<and> refs_ok st'"
proof -
  let ?S = "ps_segments st" and ?D = "df_segments (snd e)"
  have new: "map (\<lambda>i. (?S @ ?D) ! i) [length ?S..<length ?S + length ?D] = ?D"
    by (rule nth_equalityI) (simp_all add: nth_append)
  have old: "map_option (map (\<lambda>i. (?S @ ?D) ! i)) (pf_segments f) = map_option (map (\<lambda>i. ?S ! i)) (pf_segments f)"
    if "(n, f) \<in> set (ps_files st)" for n f
    using assms(1) that by (cases "pf_segments f") (auto simp: refs_ok_def nth_append)
  have files: "ps_files st' = ps_files st @ [(fst e, parsed_as e [length ?S..<length ?S + length ?D])]" "ps_segments st' = ?S @ ?D"
    using assms(2,3) by (simp_all add: dict_set_absent)
  have "resolved st' = resolved st @ [entry_view e]"
    using old new unfolding resolved_def files by (auto simp: entry_view_def parsed_as_def)
  moreover have "refs_ok st'" using assms(1) unfolding refs_ok_def files by (auto simp: parsed_as_def split: option.splits) fastforce
  ultimately show ?thesis by simp
qed

lemma read_pieces:
  assumes "\<forall>e \<in> set es. wf_entry e" "distinct (dict_keys (ps_files st) @ map fst es)" "refs_ok st"
  shows "\<exists>st'. foldl_res diff_piece st (map (\<lambda>e. join_with newline (header_names e # body_lines e)) es) = Inr st' \<and>
    resolved st' = resolved st @ map entry_view es"
  using assms
proof (induction es arbitrary: st)
  case (Cons e es)
  then obtain cur' st1 where st1: "diff_piece st (join_with newline (header_names e # body_lines e)) = Inr st1"
    "st1 = \<lparr>ps_segments = ps_segments st @ df_segments (snd e), ps_current = cur',
      ps_files = dict_set (ps_files st) (fst e)
        (parsed_as e [length (ps_segments st)..<length (ps_segments st) + length (df_segments (snd e))])\<rparr>"
    using read_piece [of e st] by auto
  from resolved_step [OF Cons.prems(3) _ st1(2)] Cons.prems(2) have r: "resolved st1 = resolved st @ [entry_view e]" "refs_ok st1" by auto
  have "dict_keys (ps_files st1) = dict_keys (ps_files st) @ [fst e]"
    using r(1) by (simp flip: fst_resolved add: entry_view_def)
  with Cons.IH [of st1] Cons.prems r st1(1) show ?case by auto
qed simp

lemma add_diff_totals_resolved:
  "add_diff_totals st = traverse (\<lambda>(n, t, b, s). map_res (\<lambda>p. (n, p)) (with_stats t b s)) (resolved st)"
  unfolding add_diff_totals_def resolved_def traverse_map by (intro traverse_cong) auto

lemma count_first_ok:
  assumes "\<forall>s \<in> set ss. \<forall>l \<in> set (seg_lines s). l \<noteq> []"
  shows "count_first c ss = Inr (int (length (filter (\<lambda>l. startswith l [c]) (concat (map seg_lines ss)))))"
proof -
  have "traverse (\<lambda>s. traverse first_char (seg_lines s)) ss = Inr (map (\<lambda>s. map hd (seg_lines s)) ss)"
  proof (rule traverse_all_ok)
    fix s assume "s \<in> set ss"
    with assms show "traverse first_char (seg_lines s) = Inr (map hd (seg_lines s))"
      by (intro traverse_all_ok) (auto simp: first_char_def split: list.splits)
  qed
  moreover have "count_list (map hd ls) c = length (filter (\<lambda>l. startswith l [c]) ls)" if "\<forall>l \<in> set ls. l \<noteq> []" for ls
    using that by (induction ls) (auto simp: startswith_def take_Suc neq_Nil_conv)
  moreover have "concat (map (\<lambda>s. map hd (seg_lines s)) ss) = map hd (concat (map seg_lines ss))"
    by (simp add: map_concat comp_def)
  ultimately show ?thesis using assms by (simp add: count_first_def)
qed

definition provided :: "diff_file \<Rightarrow> provider_file" where
  "provided d =
     (let n = (\<lambda>c. int (length (filter (\<lambda>l. startswith l c) (concat (map seg_lines (df_segments d))))))
      in \<lparr>pv_type = df_type d, pv_before = df_before d, pv_segments = (if df_type d = ''deleted'' then None else Some (df_segments d)),
          pv_added = n ''+'', pv_removed = n ''-''\<rparr>)"

lemma with_stats_entry:
  assumes "wf_entry (path, d)"
  shows "with_stats (df_type d) (df_before d) (if df_type d = ''deleted'' then None else Some (df_segments d)) = Inr (provided d)"
proof -
  have ne: "\<forall>s \<in> set (df_segments d). \<forall>l \<in> set (seg_lines s). l \<noteq> []"
    using assms by (fastforce simp: wf_entry_def wf_hunk_text_def content_line_def list_all_iff startswith_def)
  have "df_type d = ''deleted'' \<Longrightarrow> df_segments d = []" using assms by (auto simp: wf_entry_def)
  moreover have "count_first c [] = Inr 0" for c by (simp add: count_first_def)
  ultimately show ?thesis by (simp add: with_stats_def provided_def count_first_ok [OF ne] Let_def)
qed

lemma view_stats:
  assumes "wf_entry e"
  shows "(case entry_view e of (n, t, b, s) \<Rightarrow> map_res (\<lambda>p. (n, p)) (with_stats t b s)) = Inr (fst e, provided (snd e))"
  unfolding entry_view_def prod.case using with_stats_entry [of "fst e" "snd e"] assms by (simp only: prod.collapse map_res_simps)

lemma parse_rendered:
  assumes "\<forall>e \<in> set es. wf_entry e" "distinct (map fst es)" "es \<noteq> []"
  shows "diff_to_json (render_diff es) = Inr (Some (map (\<lambda>(n, d). (n, provided d)) es))"
proof -
  let ?ls = "concat (map (\<lambda>e. (diff_header @ header_names e) # body_lines e) es)"
  have no: "\<forall>l \<in> set ([] # ?ls). newline \<notin> set l"
  proof -
    have "one_line (diff_header @ header_names e)" if "wf_entry e" for e
      using that by (cases e) (auto simp: header_names_def wf_entry_def newline_def diff_header_def)
    with assms(1) body_line_cases show ?thesis by (fastforce simp: one_line_def)
  qed
  have ls: "?ls \<noteq> []" using assms(3) by (cases es) auto
  have "newline # render_diff es = join_with newline ([] # ?ls)"
    using ls by (cases ?ls) (simp_all add: render_diff_def)
  then have "split_str (newline # diff_header) (newline # render_diff es) = map (join_with newline) (cut_lines diff_header [[]] ?ls)"
    using split_str_lines [OF _ no, of diff_header] by (simp add: diff_header_def newline_def)
  also have "cut_lines diff_header [[]] ?ls = [[]] # map (\<lambda>e. header_names e # body_lines e) es"
    by (rule cut_lines_files) (use assms(1) body_line_cases in \<open>auto simp: list_all_iff\<close>)
  finally have pieces: "tl (split_str (newline # diff_header) (newline # render_diff es)) = map (\<lambda>e. join_with newline (header_names e # body_lines e)) es"
    by (simp add: comp_def del: join_with.simps)
  from read_pieces [OF assms(1), of no_diff] assms(2) obtain st where
    st: "foldl_res diff_piece no_diff (map (\<lambda>e. join_with newline (header_names e # body_lines e)) es) = Inr st" "resolved st = map entry_view es"
    by (auto simp: no_diff_def refs_ok_def resolved_def dict_keys_def)
  have "ps_files st \<noteq> []" using st(2) assms(3) by (auto simp: resolved_def)
  moreover have "add_diff_totals st = Inr (map (\<lambda>(n, d). (n, provided d)) es)"
    unfolding add_diff_totals_resolved st(2) traverse_map
    by (rule traverse_all_ok) (use assms(1) view_stats in \<open>auto simp: case_prod_beta\<close>)
  ultimately show ?thesis by (simp add: diff_to_json_def pieces st(1))
qed

section \<open>Segments that the reports can work with\<close>

definition good_segment :: "diff_segment \<Rightarrow> bool" where
  "good_segment s = (wf_header (seg_header s) \<and> [] \<notin> set (seg_lines s))"

lemma parse_digits_list: "list_all is_digit s \<Longrightarrow> prev \<or> s \<noteq> [] \<Longrightarrow> \<exists>n. parse_digits acc prev s = Some n"
  by (induction s arbitrary: acc prev) (auto simp: is_digit_def)

lemma strip_digits: "list_all is_digit s \<Longrightarrow> strip s = s"
  using digit_not_space by (intro strip_no_space) (auto simp: is_digit_def list_all_iff)

lemma py_int_digits:
  assumes "list_all is_digit s" "s \<noteq> []"
  shows "\<exists>n \<ge> 0. py_int s = Inr n"
proof -
  from assms obtain c t where s: "s = c # t" "is_digit c" by (cases s) auto
  then have "c \<noteq> CHR ''-''" "c \<noteq> CHR ''+''" by (auto simp: is_digit_def digit_val_def)
  moreover obtain n where "parse_digits 0 False s = Some n" using parse_digits_list assms by blast
  ultimately show ?thesis using strip_digits [OF assms(1)] s by (auto simp: py_int_def)
qed

lemma good_segment_wf: "good_segment s \<Longrightarrow> wf_hunk s"
proof -
  assume s: "good_segment s"
  then obtain a b c d where h: "seg_header s = [a, b, c, d]" "list_all is_digit a" "list_all is_digit c" "a \<noteq> []" "c \<noteq> []"
    by (auto simp: good_segment_def wf_header_def numeral_eq_Suc length_Suc_conv)
  from py_int_digits [OF h(2,4)] py_int_digits [OF h(3,5)] obtain n m where "py_int a = Inr n" "py_int c = Inr m" "0 \<le> m" by auto
  moreover have "a \<noteq> '' ''" using h(2) no_digits by auto
  ultimately show ?thesis using s h(1,4) by (simp add: wf_hunk_def wf_segment_def segment_start_def base_start_def good_segment_def)
qed

lemma get_start_wf: "get_start_of_line l = Some h \<Longrightarrow> wf_header h"
  by (auto simp: get_start_of_line_def digits_comma_digits_def wf_header_def Let_def list_all_iff dest: set_takeWhileD split: if_splits)

text \<open>The store only grows, and keeps well-formed segments; references point into it.\<close>

definition store_ok :: "diff_segment list \<Rightarrow> nat option \<Rightarrow> bool" where
  "store_ok segs cur = ((\<forall>s \<in> set segs. good_segment s) \<and> (case cur of None \<Rightarrow> True | Some i \<Rightarrow> i < length segs))"

definition file_refs_ok :: "nat \<Rightarrow> parsed_file \<Rightarrow> bool" where
  "file_refs_ok n f = (case pf_segments f of None \<Rightarrow> True | Some refs \<Rightarrow> \<forall>i \<in> set refs. i < n)"

lemma file_refs_mono: "file_refs_ok n f \<Longrightarrow> n \<le> m \<Longrightarrow> file_refs_ok m f"
  by (fastforce simp: file_refs_ok_def split: option.splits)

lemma add_line_good: "\<forall>s \<in> set segs. good_segment s \<Longrightarrow> i < length segs \<Longrightarrow> l \<noteq> [] \<Longrightarrow> \<forall>s \<in> set (add_line segs i l). good_segment s"
  by (auto simp: add_line_def good_segment_def dest!: subsetD [OF set_update_subset_insert])

lemma diff_line_ok:
  assumes "diff_line aft l (segs, cur, f) = Inr (stop, segs', cur', f')" "store_ok segs cur" "file_refs_ok (length segs) f"
  shows "store_ok segs' cur' \<and> file_refs_ok (length segs') f' \<and> length segs \<le> length segs'"
proof (cases "take 4 l = ''@@ -''")
  case True
  with assms get_start_wf [of l] show ?thesis
    by (auto simp: diff_line_def Let_def store_ok_def file_refs_ok_def good_segment_def less_Suc_eq split: if_splits option.splits)
next
  case False
  with assms add_line_good show ?thesis
    by (auto simp: diff_line_def Let_def store_ok_def file_refs_ok_def add_line_def split: if_splits option.splits)
qed

lemma diff_lines_ok:
  assumes "diff_lines aft ls (segs, cur, f) = Inr (segs', cur', f')" "store_ok segs cur" "file_refs_ok (length segs) f"
  shows "store_ok segs' cur' \<and> file_refs_ok (length segs') f' \<and> length segs \<le> length segs'"
  using assms
proof (induction ls arbitrary: segs cur f)
  case (Cons l ls)
  from Cons.prems(1) obtain stop s1 c1 f1 where l: "diff_line aft l (segs, cur, f) = Inr (stop, s1, c1, f1)"
    "if stop then (s1, c1, f1) = (segs', cur', f') else diff_lines aft ls (s1, c1, f1) = Inr (segs', cur', f')"
    by (auto split: if_splits)
  from diff_line_ok [OF l(1) Cons.prems(2,3)] l(2) Cons.IH [of s1 c1 f1] show ?case by (cases stop) auto
qed simp

definition parse_ok :: "parse_state \<Rightarrow> bool" where
  "parse_ok st = (store_ok (ps_segments st) (ps_current st) \<and> (\<forall>f \<in> set (dict_values (ps_files st)). file_refs_ok (length (ps_segments st)) f))"

lemma diff_piece_ok:
  assumes "diff_piece st piece = Inr st'" "parse_ok st"
  shows "parse_ok st'"
proof -
  from assms(1) consider (same) "st' = st" | (entry) aft ls f segs cur f' where "diff_lines aft ls (ps_segments st, ps_current st, f) = Inr (segs, cur, f')"
    "pf_segments f = Some []" "st' = \<lparr>ps_segments = segs, ps_current = cur, ps_files = dict_set (ps_files st) aft f'\<rparr>"
    by (fastforce simp: diff_piece_def Let_def split: option.splits)
  then show ?thesis
  proof cases
    case entry
    from diff_lines_ok [OF entry(1)] assms(2) entry(2) have ok: "store_ok segs cur" "file_refs_ok (length segs) f'" "length (ps_segments st) \<le> length segs"
      by (auto simp: parse_ok_def file_refs_ok_def)
    with assms(2) entry(3) values_dict_set [of "ps_files st" aft f'] show ?thesis
      by (auto simp: parse_ok_def intro: file_refs_mono)
  qed (use assms(2) in simp)
qed

definition good_file :: "provider_file \<Rightarrow> bool" where
  "good_file p = (\<forall>s \<in> set (case pv_segments p of None \<Rightarrow> [] | Some xs \<Rightarrow> xs). wf_hunk s)"

lemma with_stats_segments: "with_stats t b s = Inr p \<Longrightarrow> pv_segments p = s"
  by (auto simp: with_stats_def Let_def)

lemma traverse_in: "traverse f xs = Inr ys \<Longrightarrow> y \<in> set ys \<Longrightarrow> \<exists>x \<in> set xs. f x = Inr y"
  by (induction xs arbitrary: ys) auto

lemma diff_to_json_good:
  assumes "diff_to_json text = Inr (Some fs)" "(n, p) \<in> set fs"
  shows "good_file p"
proof -
  from assms(1) obtain st where st: "foldl_res diff_piece no_diff (tl (split_str (newline # diff_header) (newline # text))) = Inr st" "add_diff_totals st = Inr fs"
    by (auto simp: diff_to_json_def split: if_splits)
  have "parse_ok no_diff" by (simp add: parse_ok_def no_diff_def store_ok_def dict_values_def)
  with st(1) have ok: "parse_ok st" using foldl_res_invariant [where P = parse_ok and f = diff_piece] diff_piece_ok by metis
  from st(2) assms(2) obtain f where f: "(n, f) \<in> set (ps_files st)"
    "with_stats (pf_type f) (pf_before f) (map_option (map (\<lambda>i. ps_segments st ! i)) (pf_segments f)) = Inr p"
    by (auto simp: add_diff_totals_def dest!: traverse_in)
  with ok have "file_refs_ok (length (ps_segments st)) f" by (force simp: parse_ok_def dict_values_def)
  with ok with_stats_segments [OF f(2)] show ?thesis
    by (auto simp: good_file_def parse_ok_def store_ok_def file_refs_ok_def intro: good_segment_wf split: option.splits)
qed

lemma bbs_segment_wf:
  assumes "bbs_segment h = Inr s" "0 \<le> bh_destination_line h"
  shows "wf_hunk s"
proof -
  from assms(1) obtain lss where lss: "traverse bbs_segment_lines (bh_segments h) = Inr lss"
    and s: "s = \<lparr>seg_header = [int_str (bh_source_line h), int_str (bh_source_span h), int_str (bh_destination_line h), int_str (bh_destination_span h)],
      seg_lines = concat lss\<rparr>" by (auto simp: bbs_segment_def)
  have "[] \<notin> set (concat lss)"
    using lss by (auto simp: bbs_segment_lines_def dest!: traverse_in)
  moreover have "int_str n \<noteq> []" "int_str n \<noteq> '' ''" for n
  proof -
    show "int_str n \<noteq> []" by (simp add: int_str_def)
    show "int_str n \<noteq> '' ''" using py_int_int_str [of n] by (auto simp: py_int_def strip_def lstrip_def rstrip_def is_space_def Let_def)
  qed
  ultimately show ?thesis using assms(2) by (simp add: s wf_hunk_def wf_segment_def segment_start_def base_start_def)
qed

definition bbs_ok :: "bbs_file \<Rightarrow> bool" where
  "bbs_ok v = (\<forall>s \<in> set (case snd (snd v) of None \<Rightarrow> [] | Some xs \<Rightarrow> xs). wf_hunk s)"

lemma bbs_add_diff_good:
  assumes "bbs_add_diff r d = Inr r'" "\<forall>h \<in> set (bd_hunks d). 0 \<le> bh_destination_line h"
    and "\<forall>v \<in> set (dict_values r). bbs_ok v"
  shows "\<forall>v \<in> set (dict_values r'). bbs_ok v"
proof -
  have new: "\<forall>s \<in> set segs. wf_hunk s" if "traverse bbs_segment (bd_hunks d) = Inr segs" for segs
    using that assms(2) bbs_segment_wf by (blast dest: traverse_in)
  have kept: "\<forall>s \<in> set xs. wf_hunk s" if "dict_get r n = Some (t, b, Some xs)" for n t b xs
    using assms(3) dict_get_in [OF that] by (force simp: dict_values_def bbs_ok_def)
  show ?thesis
  proof (cases "bd_destination d")
    case None
    with assms(1,3) values_dict_set [of r] show ?thesis by (fastforce simp: bbs_add_diff_def bbs_ok_def split: option.splits)
  next
    case (Some fname)
    from assms(1) Some obtain segs where segs: "traverse bbs_segment (bd_hunks d) = Inr segs" by (auto simp: bbs_add_diff_def Let_def)
    obtain v where "r' = dict_set r fname v" "bbs_ok v"
    proof (cases "dict_get r fname")
      case None
      with assms(1) Some segs new [OF segs] show thesis by (intro that) (auto simp: bbs_add_diff_def bbs_ok_def Let_def)
    next
      case (Some g)
      obtain t b old where g: "g = (t, b, old)" by (cases g)
      show thesis
      proof (cases old)
        case None
        with assms(1) Some segs g \<open>bd_destination d = Some fname\<close> show thesis
          by (intro that [of g]) (auto simp: bbs_add_diff_def bbs_ok_def Let_def split: if_splits)
      next
        case (Some xs)
        with \<open>dict_get r fname = Some g\<close> g have "\<forall>s \<in> set xs. wf_hunk s" using kept [of fname t b xs] by simp
        with assms(1) Some segs g new [OF segs] \<open>dict_get r fname = Some g\<close> \<open>bd_destination d = Some fname\<close> show thesis
          by (intro that [of "(t, b, Some (xs @ segs))"]) (auto simp: bbs_add_diff_def bbs_ok_def Let_def)
      qed
    qed
    with assms(3) values_dict_set [of r fname v] show ?thesis by auto
  qed
qed

lemma bbs_good:
  assumes "bbs_diff_to_json ds = Inr fs" "\<forall>d \<in> set ds. \<forall>h \<in> set (bd_hunks d). 0 \<le> bh_destination_line h" "(n, p) \<in> set fs"
  shows "good_file p"
proof -
  let ?P = "\<lambda>r. \<forall>v \<in> set (dict_values r). bbs_ok v"
  from assms(1) obtain r where r: "foldl_res bbs_add_diff [] ds = Inr r"
    "traverse (\<lambda>(name, t, before, segs). map_res (\<lambda>p. (name, p)) (with_stats t before segs)) r = Inr fs"
    by (auto simp: bbs_diff_to_json_def)
  have "?P r"
  proof (rule foldl_res_invariant [where P = ?P, OF r(1)])
    fix s d s' assume "d \<in> set ds" "?P s" "bbs_add_diff s d = Inr s'"
    with bbs_add_diff_good [of s d s'] assms(2) show "?P s'" by blast
  qed (simp add: dict_values_def)
  moreover from r(2) assms(3) obtain t b segs where "(n, t, b, segs) \<in> set r" "with_stats t b segs = Inr p" by (auto dest!: traverse_in)
  ultimately show ?thesis using with_stats_segments [of t b segs p] by (force simp: good_file_def bbs_ok_def dict_values_def)
qed

lemma github_good:
  assumes "github_compare_diff gs = Inr fs" "(n, p) \<in> set fs"
  shows "good_file p"
proof -
  let ?P = "\<lambda>fs. \<forall>p \<in> set (dict_values fs). good_file p"
  have up: "?P (foldl (\<lambda>files p. dict_set files (fst p) (snd p)) fs ps)" if "?P fs" "\<forall>p \<in> set ps. good_file (snd p)" for fs ps
    using that
  proof (induction ps arbitrary: fs)
    case (Cons q ps)
    then have "?P (dict_set fs (fst q) (snd q))" using values_dict_set [of fs "fst q" "snd q"] by auto
    with Cons.IH [of "dict_set fs (fst q) (snd q)"] Cons.prems(2) show ?case by simp
  qed simp
  have "?P fs"
  proof (rule foldl_res_invariant [where P = ?P, OF assms(1) [unfolded github_compare_diff_def]])
    fix s f s' assume "?P s" "github_add_file s f = Inr s'"
    then obtain gs where "diff_to_json (github_text f) = Inr (Some gs)" "s' = foldl (\<lambda>files p. dict_set files (fst p) (snd p)) s gs"
      by (auto simp: github_add_file_def split: option.splits)
    with \<open>?P s\<close> up [of s gs] diff_to_json_good show "?P s'" by fastforce
  qed (simp add: dict_values_def)
  with assms(2) show ?thesis by (force simp: dict_values_def)
qed

section \<open>Properties\<close>

text \<open>
  C6. Reading back a diff: the parser recovers from the text of a diff the files with their types, old
  names and segments in order, and counts the added and removed lines. The text of a file must be unambiguous: names are single lines that do not
  contain \<open> b/\<close>, and no line of a segment looks like a line with a file name.
\<close>

theorem diff_roundtrip:
  assumes "\<forall>e \<in> set es. wf_entry e" "distinct (map fst es)" "es \<noteq> []"
  shows "\<exists>fs. diff_to_json (render_diff es) = Inr (Some fs) \<and> raw_diff_of fs = \<lparr>rd_files = es, rd_totals = None\<rparr> \<and>
    (\<forall>(n, p) \<in> set fs. \<exists>d. (n, d) \<in> set es \<and>
      pv_added p = int (length (filter (\<lambda>l. startswith l ''+'') (concat (map seg_lines (df_segments d))))) \<and>
      pv_removed p = int (length (filter (\<lambda>l. startswith l ''-'') (concat (map seg_lines (df_segments d))))))"
proof -
  have "raw_file (provided d) = d" if "(n, d) \<in> set es" for n d
  proof -
    have "wf_entry (n, d)" using that assms(1) by blast
    then show ?thesis by (auto simp: raw_file_def provided_def Let_def wf_entry_def)
  qed
  then have "raw_diff_of (map (\<lambda>(n, d). (n, provided d)) es) = \<lparr>rd_files = es, rd_totals = None\<rparr>"
    by (auto simp: raw_diff_of_def dict_map_def comp_def case_prod_beta intro!: map_idI)
  with parse_rendered [OF assms] show ?thesis by (fastforce simp: provided_def Let_def)
qed

theorem diff_roundtrip_witness:
  "\<exists>fs. diff_to_json (render_diff [(''a.py'', sample_diff)]) = Inr (Some fs) \<and>
    raw_diff_of fs = \<lparr>rd_files = [(''a.py'', sample_diff)], rd_totals = None\<rparr>"
proof -
  have "wf_entry (''a.py'', sample_diff)" by code_simp
  with diff_roundtrip [of "[(''a.py'', sample_diff)]"] show ?thesis by auto
qed

text \<open>
  C18. Whatever a provider answers, a diff that is read has segments that the reports can work with: the
  headers are numbers and no line is empty, so that the offsets of a file never raise. Bitbucket
  Server counts lines from 0 or more.
\<close>

theorem parsed_segments_wf:
  assumes "diff_to_json text = Inr (Some fs) \<or> gitlab_diff_to_json ds = Inr (Some fs) \<or> github_compare_diff gs = Inr fs \<or>
      bbs_diff_to_json bds = Inr fs \<and> (\<forall>d \<in> set bds. \<forall>h \<in> set (bd_hunks d). 0 \<le> bh_destination_line h)"
    and "(n, d) \<in> set (rd_files (raw_diff_of fs))"
  shows "(\<forall>s \<in> set (df_segments d). wf_hunk s) \<and> (\<exists>so. get_segment_offsets (df_segments d) = Inr so)"
proof -
  from assms(2) obtain p where p: "(n, p) \<in> set fs" "d = raw_file p" by (auto simp: raw_diff_of_def dict_map_def)
  have "good_file p"
    using assms(1) p(1) diff_to_json_good github_good bbs_good by (auto simp: gitlab_diff_to_json_def split: option.splits)
  then have "\<forall>s \<in> set (df_segments d). wf_hunk s" by (simp add: p(2) good_file_def raw_file_def)
  with get_segment_offsets_spec show ?thesis by blast
qed

theorem parsed_segments_wf_witness:
  "\<exists>p. diff_to_json (render_diff [(''a.py'', sample_diff)]) = Inr (Some [(''a.py'', p)]) \<and>
    (\<exists>so. get_segment_offsets (df_segments (raw_file p)) = Inr so)"
proof -
  have "wf_entry (''a.py'', sample_diff)" by code_simp
  then have r: "diff_to_json (render_diff [(''a.py'', sample_diff)]) = Inr (Some [(''a.py'', provided sample_diff)])"
    using parse_rendered [of "[(''a.py'', sample_diff)]"] by simp
  with parsed_segments_wf [of _ "[(''a.py'', provided sample_diff)]" None "[]" "[]" "''a.py''" "raw_file (provided sample_diff)"]
  show ?thesis by (auto simp: raw_diff_of_def dict_map_def)
qed

section \<open>Lines that go astray\<close>

text \<open>
  A removed line of text that starts with \<open>-- \<close> reads \<open>--- \<close> in the diff and is dropped, as is an added one
  that starts with \<open>++ \<close>, so that the lines after it are counted from the wrong place.
\<close>

lemma removed_comment_dropped:
  "diff_to_json (join_with newline [''diff --git a/q.sql b/q.sql'', ''@@ -1,2 +1 @@'', ''--- old comment'', '' select 1'']) =
     Inr (Some [(''q.sql'', \<lparr>pv_type = ''modified'', pv_before = None,
       pv_segments = Some [\<lparr>seg_header = [''1'', ''2'', ''1'', []], seg_lines = ['' select 1'']\<rparr>], pv_added = 0, pv_removed = 0\<rparr>)])"
  by code_simp

text \<open>The header lines of a renamed file end up in the last segment of the file before it.\<close>

lemma rename_lines_leak:
  "diff_to_json (join_with newline [''diff --git a/x b/x'', ''@@ -1 +1 @@'', ''-a'', ''+b'', ''diff --git a/old b/new'',
       ''similarity index 100%'', ''rename from old'', ''rename to new'']) =
     Inr (Some [(''x'', \<lparr>pv_type = ''modified'', pv_before = None,
         pv_segments = Some [\<lparr>seg_header = [''1'', [], ''1'', []],
           seg_lines = [''-a'', ''+b'', ''similarity index 100%'', ''rename from old'', ''rename to new'']\<rparr>], pv_added = 1, pv_removed = 1\<rparr>),
       (''new'', \<lparr>pv_type = ''modified'', pv_before = Some ''old'', pv_segments = Some [], pv_added = 0, pv_removed = 0\<rparr>)])"
  by code_simp

end
