(* ===== verification/Status.thy ===== *)
theory Status
  imports Rounding Changes
begin

text \<open>
  The decisions of the commit statuses and checks
  (apps/worker/services/notification/notifiers/mixins/status.py): the patch, changes and project
  status with their targets, thresholds and the removed code behaviours, and the messages and
  helper texts they come with.

  The mixins read a comparison through its methods. Those may fail (they call the git provider) and are
  called on some paths only, so a comparison is here a record of the results of its methods.
\<close>

section \<open>Results and views\<close>

record status_result =
  sr_state :: json
  sr_message :: string
  sr_helper :: "(string, string) dict"

text \<open>An entry of \<open>files\<close> in the comparison of the Rust library: the fields that the code reads.\<close>

record impacted_file =
  im_added :: "(int \<times> string) list option"
  im_removed :: "(int \<times> string) list option"
  im_unexpected :: "json list option"

text \<open>
  What a comparison gives: commit ids (the base commit may be missing), the totals of the reports (\<open>None\<close>
  when there is no report), \<open>get_patch_totals()\<close>, \<open>head.report.apply_diff(get_diff(use_original_base=True))\<close>,
  \<open>get_changes()\<close>, \<open>get_impacted_files()["files"]\<close> and whether there is a pull request.
\<close>

record comparison_view =
  cv_head_commit :: string
  cv_base_commit :: "string option"
  cv_head :: "report_totals option res option"
  cv_base :: "report_totals option res option"
  cv_patch :: "report_totals option res"
  cv_applied :: "report_totals option res"
  cv_changes :: "change list option res"
  cv_impacted :: "impacted_file list res"
  cv_pull :: bool

definition success :: json where
  "success = JStr ''success''"

definition failure :: json where
  "failure = JStr ''failure''"

type_synonym settings = "(string, json) dict"

definition setting :: "settings \<Rightarrow> string \<Rightarrow> json \<Rightarrow> json" where
  "setting s k dflt = (case dict_get s k of None \<Rightarrow> dflt | Some v \<Rightarrow> v)"

text \<open>Attributes of totals that may be missing.\<close>

definition totals_of :: "report_totals option \<Rightarrow> report_totals res" where
  "totals_of t = (case t of None \<Rightarrow> Inl AttributeError | Some x \<Rightarrow> Inr x)"

definition report_totals_of :: "report_totals option res option \<Rightarrow> report_totals res" where
  "report_totals_of r = (case r of None \<Rightarrow> Inl AttributeError | Some t \<Rightarrow> bind_res t totals_of)"

section \<open>Helper texts\<close>

definition custom_target_text :: "string \<Rightarrow> string \<Rightarrow> string \<Rightarrow> string \<Rightarrow> string \<Rightarrow> string" where
  "custom_target_text context notification_type point coverage target =
     ''Your '' @ context @ '' '' @ notification_type @ '' has failed because the '' @ point @ '' coverage ('' @ coverage
     @ ''%) is below the target coverage ('' @ target @ ''%). You can increase the '' @ point
     @ '' coverage or adjust the [target](https://docs.codecov.com/docs/commit-status#target) coverage.''"

definition indirect_changes_text :: "string \<Rightarrow> string \<Rightarrow> string" where
  "indirect_changes_text context notification_type =
     ''Your '' @ context @ '' '' @ notification_type @ '' has failed because you have indirect coverage changes. ''
     @ ''Learn more about [Unexpected Coverage Changes](https://docs.codecov.com/docs/unexpected-coverage-changes) ''
     @ ''and [reasons for indirect coverage changes](https://docs.codecov.com/docs/unexpected-coverage-changes#reasons-for-indirect-changes).''"

definition adjust_base_text :: "string \<Rightarrow> string \<Rightarrow> string \<Rightarrow> string" where
  "adjust_base_text notification_type coverage adjusted_base_cov =
     ''Your project '' @ notification_type @ '' has failed because the head coverage ('' @ coverage
     @ ''%) is below the [adjusted base coverage](https://docs.codecov.com/docs/removed-code-behavior#option-3-default-adjust_base) (''
     @ adjusted_base_cov @ ''%). You can increase the head coverage or adjust the ''
     @ ''[Removed Code Behavior](https://docs.codecov.com/docs/removed-code-behavior).''"

section \<open>Thresholds and targets\<close>

text \<open>A threshold that is no number is ignored; the same code is in the patch and in the project status.\<close>

definition get_threshold :: "settings \<Rightarrow> rat res" where
  "get_threshold s =
     (case decimal_setting (setting s ''threshold'' (JStr ''0.0'')) of
        Inr q \<Rightarrow> Inr q
      | Inl e \<Rightarrow> if e \<in> {InvalidOperation, TypeError, AttributeError} then Inr 0 else Inl e)"

definition has_custom_target :: "settings \<Rightarrow> bool" where
  "has_custom_target s = (setting s ''target'' JNull \<notin> {JStr ''auto'', JNull})"

definition get_patch_target :: "settings \<Rightarrow> comparison_view \<Rightarrow> (rat option \<times> bool) res" where
  "get_patch_target s cv =
     (if has_custom_target s then map_res (\<lambda>q. (Some q, True)) (decimal_setting (setting s ''target'' JNull))
      else
        (case cv_base cv of
           None \<Rightarrow> Inr (None, False)
         | Some b \<Rightarrow>
             bind_res (bind_res b totals_of) (\<lambda>t.
               if t_coverage t = VNone then Inr (None, False)
               else map_res (\<lambda>q. (Some q, False)) (decimal_of (t_coverage t)))))"

definition get_project_target :: "settings \<Rightarrow> report_totals \<Rightarrow> (rat \<times> bool) res" where
  "get_project_target s base_totals =
     (if has_custom_target s then map_res (\<lambda>q. (q, True)) (decimal_setting (setting s ''target'' JNull))
      else map_res (\<lambda>q. (q, False)) (decimal_of (t_coverage base_totals)))"

section \<open>Patch status\<close>

definition not_affected_text :: "comparison_view \<Rightarrow> string" where
  "not_affected_text cv =
     (case cv_base_commit cv of
        None \<Rightarrow> ''Coverage not affected''
      | Some b \<Rightarrow> ''Coverage not affected when comparing '' @ take 7 b @ ''...'' @ take 7 (cv_head_commit cv))"

text \<open>The comparison of the coverage of the patch with a target.\<close>

definition patch_against_target ::
  "settings \<Rightarrow> json \<Rightarrow> string \<Rightarrow> rat \<Rightarrow> rat \<Rightarrow> rat \<Rightarrow> bool \<Rightarrow> status_result res" where
  "patch_against_target s yaml notification_type coverage target threshold custom =
     bind_res (rounded_text yaml coverage) (\<lambda>coverage_rounded.
     bind_res (rounded_text yaml target) (\<lambda>target_rounded.
       let hit = coverage_rounded @ ''% of diff hit '' in
       if target \<le> coverage then
         Inr \<lparr>sr_state = success, sr_message = hit @ ''(target '' @ target_rounded @ ''%)'', sr_helper = []\<rparr>
       else if dec_minus target threshold \<le> coverage then
         bind_res (rounded_text yaml threshold) (\<lambda>threshold_rounded.
           Inr \<lparr>sr_state = success,
             sr_message = hit @ ''(within '' @ threshold_rounded @ ''% threshold of '' @ target_rounded @ ''%)'', sr_helper = []\<rparr>)
       else
         Inr \<lparr>sr_state = failure, sr_message = hit @ ''(target '' @ target_rounded @ ''%)'',
           sr_helper = (if custom
             then [(''custom_target_helper_text_patch'',
                    custom_target_text ''patch'' notification_type ''patch'' coverage_rounded target_rounded)]
             else [])\<rparr>))"

definition get_patch_status :: "settings \<Rightarrow> json \<Rightarrow> string \<Rightarrow> comparison_view \<Rightarrow> status_result res" where
  "get_patch_status s yaml notification_type cv =
     bind_res (get_threshold s) (\<lambda>threshold.
     bind_res (get_patch_target s cv) (\<lambda>(target, custom).
     bind_res (cv_patch cv) (\<lambda>totals.
       case totals of
         Some t \<Rightarrow>
           if 0 < t_lines t then
             bind_res (decimal_of (t_coverage t)) (\<lambda>coverage.
               case target of
                 None \<Rightarrow> Inr \<lparr>sr_state = setting s ''if_not_found'' success,
                     sr_message = ''No report found to compare against'', sr_helper = []\<rparr>
               | Some tg \<Rightarrow> patch_against_target s yaml notification_type coverage tg threshold custom)
           else Inr \<lparr>sr_state = success, sr_message = not_affected_text cv, sr_helper = []\<rparr>
       | None \<Rightarrow> Inr \<lparr>sr_state = success, sr_message = not_affected_text cv, sr_helper = []\<rparr>)))"

section \<open>Changes status\<close>

definition is_a_change_worth_noting :: "change \<Rightarrow> bool" where
  "is_a_change_worth_noting ch =
     (\<not> ch_new ch \<and> \<not> ch_deleted ch \<and> (case ch_totals ch of None \<Rightarrow> False | Some t \<Rightarrow> 0 < t_misses t + t_partials t))"

definition get_changes_status :: "settings \<Rightarrow> string \<Rightarrow> comparison_view \<Rightarrow> status_result res" where
  "get_changes_status s notification_type cv =
     (if setting s ''base'' JNull \<in> {JStr ''auto'', JNull, JStr ''pr''} \<and> cv_pull cv \<and> cv_base cv = None then
        Inr \<lparr>sr_state = success, sr_message = ''Unable to determine changes, no report found at pull request base'', sr_helper = []\<rparr>
      else
        bind_res (cv_changes cv) (\<lambda>changes.
          let noted = filter is_a_change_worth_noting (case changes of None \<Rightarrow> [] | Some cs \<Rightarrow> cs)
          in if noted = [] then Inr \<lparr>sr_state = success, sr_message = ''No indirect coverage changes found'', sr_helper = []\<rparr>
             else
               let st = (if j_truthy (setting s ''informational'' JNull) then success else failure)
               in Inr \<lparr>sr_state = st,
                    sr_message = nat_str (length noted) @ '' '' @ (if 1 < length noted then ''files have'' else ''file has'')
                      @ '' indirect coverage changes not visible in diff'',
                    sr_helper = (if st = failure
                      then [(''indirect_changes_helper_text'', indirect_changes_text ''changes'' notification_type)] else [])\<rparr>))"

section \<open>Project status\<close>

definition project_message :: "json \<Rightarrow> comparison_view \<Rightarrow> string \<Rightarrow> rat \<Rightarrow> rat \<Rightarrow> string res" where
  "project_message yaml cv head_rounded head_coverage target =
     bind_res (rounded_text_signed yaml (dec_minus head_coverage target)) (\<lambda>change_rounded.
       case cv_base_commit cv of
         None \<Rightarrow> Inl AttributeError
       | Some b \<Rightarrow> Inr (head_rounded @ ''% ('' @ change_rounded @ ''%) compared to '' @ take 7 b))"

definition project_against_base ::
  "settings \<Rightarrow> json \<Rightarrow> string \<Rightarrow> comparison_view \<Rightarrow> report_totals \<Rightarrow> report_totals \<Rightarrow> status_result res" where
  "project_against_base s yaml notification_type cv head_totals base_totals =
     bind_res (get_threshold s) (\<lambda>threshold.
     bind_res (get_project_target s base_totals) (\<lambda>(target, custom).
     bind_res (decimal_of (t_coverage head_totals)) (\<lambda>head_coverage.
     bind_res (rounded_text yaml head_coverage) (\<lambda>head_rounded.
       let st = (if dec_minus target threshold \<le> head_coverage then success else failure)
       in if custom then
            bind_res (rounded_text yaml target) (\<lambda>target_rounded.
              Inr \<lparr>sr_state = st, sr_message = head_rounded @ ''% (target '' @ target_rounded @ ''%)'',
                sr_helper = (if st = failure
                  then [(''custom_target_helper_text_project'',
                         custom_target_text ''project'' notification_type ''head'' head_rounded target_rounded)]
                  else [])\<rparr>)
          else
            bind_res (project_message yaml cv head_rounded head_coverage target) (\<lambda>message.
              Inr \<lparr>sr_state = st, sr_message = message, sr_helper = []\<rparr>)))))"

definition if_not_found :: "settings \<Rightarrow> string \<Rightarrow> status_result" where
  "if_not_found s message = \<lparr>sr_state = setting s ''if_not_found'' success, sr_message = message, sr_helper = []\<rparr>"

definition basic_project_status :: "settings \<Rightarrow> json \<Rightarrow> string \<Rightarrow> comparison_view \<Rightarrow> status_result res" where
  "basic_project_status s yaml notification_type cv =
     bind_res (case cv_head cv of None \<Rightarrow> Inr None | Some t \<Rightarrow> t) (\<lambda>head.
       case head of
         None \<Rightarrow> Inr (if_not_found s ''No coverage information found on head'')
       | Some head_totals \<Rightarrow>
           if t_coverage head_totals = VNone then Inr (if_not_found s ''No coverage information found on head'')
           else
             (case cv_base cv of
                None \<Rightarrow> Inr (if_not_found s ''No report found to compare against'')
              | Some b \<Rightarrow>
                  bind_res (bind_res b totals_of) (\<lambda>base_totals.
                    if t_coverage base_totals = VNone then Inr (if_not_found s ''No coverage information found on base report'')
                    else project_against_base s yaml notification_type cv head_totals base_totals)))"

section \<open>Removed code behaviours\<close>

definition nonempty :: "'a list option \<Rightarrow> bool" where
  "nonempty x = (case x of None \<Rightarrow> False | Some xs \<Rightarrow> xs \<noteq> [])"

text \<open>A behaviour passes the status with an addition to its message, or gives nothing.\<close>

definition apply_removals_only :: "comparison_view \<Rightarrow> string option res" where
  "apply_removals_only cv =
     map_res (\<lambda>files.
       if list_all (\<lambda>f. \<not> nonempty (im_added f) \<and> \<not> nonempty (im_unexpected f)) files \<and> list_ex (\<lambda>f. nonempty (im_removed f)) files
       then Some '', passed because this change only removed code'' else None) (cv_impacted cv)"

definition removed_count :: "string \<Rightarrow> impacted_file list \<Rightarrow> int" where
  "removed_count kind files =
     sum_list (map (\<lambda>f. int (length (filter (\<lambda>item. snd item = kind) (case im_removed f of None \<Rightarrow> [] | Some xs \<Rightarrow> xs)))) files)"

definition adjusted_hits :: "report_totals \<Rightarrow> impacted_file list \<Rightarrow> int" where
  "adjusted_hits t files = t_hits t - removed_count ''h'' files"

definition adjusted_lines :: "report_totals \<Rightarrow> impacted_file list \<Rightarrow> int" where
  "adjusted_lines t files =
     adjusted_hits t files + (t_misses t - removed_count ''m'' files) + (t_partials t - removed_count ''p'' files)"

definition adjusted_coverage :: "report_totals \<Rightarrow> impacted_file list \<Rightarrow> rat" where
  "adjusted_coverage t files =
     dec_times (fl (of_int (adjusted_hits t files) / of_int (adjusted_lines t files))) 100"

text \<open>\<open>max(0, round_number(...))\<close> keeps the integer 0 unless the rounded number is positive.\<close>

definition increase_text :: "json \<Rightarrow> rat \<Rightarrow> string res" where
  "increase_text yaml x =
     bind_res (round_number yaml x) (\<lambda>r. if 0 < r then rounded_text yaml x else Inr ''0'')"

definition adjust_base_decision ::
  "settings \<Rightarrow> json \<Rightarrow> string \<Rightarrow> rat \<Rightarrow> rat \<Rightarrow> (string option \<times> (string, string) dict) res" where
  "adjust_base_decision s yaml notification_type adjusted head_coverage =
     bind_res (dec_quantize 5 rhe adjusted) (\<lambda>quantized.
     bind_res (rounded_text yaml adjusted) (\<lambda>adjusted_rounded.
       if dec_minus quantized head_coverage < 5 / 1000 then
         bind_res (increase_text yaml (dec_minus head_coverage adjusted)) (\<lambda>difference.
           Inr (Some ('', passed because coverage increased by '' @ difference @ ''% when compared to adjusted base (''
             @ adjusted_rounded @ ''%)''), []))
       else
         bind_res (rounded_text yaml head_coverage) (\<lambda>coverage_rounded.
           Inr (None, [(''rcb_adjust_base_helper_text'', adjust_base_text notification_type coverage_rounded adjusted_rounded)]))))"

definition apply_adjust_base ::
  "settings \<Rightarrow> json \<Rightarrow> string \<Rightarrow> comparison_view \<Rightarrow> (string option \<times> (string, string) dict) res" where
  "apply_adjust_base s yaml notification_type cv =
     (if has_custom_target s then Inr (None, [])
      else
        bind_res (cv_impacted cv) (\<lambda>files.
        bind_res (report_totals_of (cv_base cv)) (\<lambda>base_totals.
          if adjusted_lines base_totals files = 0 then Inr (None, [])
          else
            bind_res (get_threshold s) (\<lambda>threshold.
            bind_res (bind_res (report_totals_of (cv_head cv)) (\<lambda>t. decimal_of (t_coverage t))) (\<lambda>head_coverage.
              adjust_base_decision s yaml notification_type
                (dec_minus (adjusted_coverage base_totals files) threshold) head_coverage)))))"

definition apply_fully_covered_patch ::
  "string \<Rightarrow> comparison_view \<Rightarrow> (string option \<times> (string, string) dict) res" where
  "apply_fully_covered_patch notification_type cv =
     bind_res (cv_impacted cv) (\<lambda>files.
       if list_ex (\<lambda>f. nonempty (im_unexpected f)) files then
         Inr (None, [(''rcb_indirect_changes_helper_text'', indirect_changes_text ''project'' notification_type)])
       else
         bind_res (cv_applied cv) (\<lambda>totals.
           case totals of
             None \<Rightarrow> Inr (Some '', passed because coverage was not affected by patch'', [])
           | Some t \<Rightarrow>
               if t_lines t = 0 then Inr (Some '', passed because coverage was not affected by patch'', [])
               else
                 map_res (\<lambda>c. (if c = 100
                     then Some '', passed because patch was fully covered by tests, and no indirect coverage changes'' else None, []))
                   (decimal_of (t_coverage t))))"

text \<open>The behaviour of the settings, with the default, and the helper texts it adds to the result.\<close>

definition removed_code_result ::
  "settings \<Rightarrow> json \<Rightarrow> string \<Rightarrow> comparison_view \<Rightarrow> (string option \<times> (string, string) dict) res" where
  "removed_code_result s yaml notification_type cv =
     (let custom = (setting s ''removed_code_behavior'' JNull \<noteq> JNull);
          behavior = (if custom then setting s ''removed_code_behavior'' JNull else JStr ''adjust_base'')
      in if behavior = JStr ''removals_only'' then map_res (\<lambda>r. (r, [])) (apply_removals_only cv)
         else if behavior = JStr ''adjust_base'' then
           map_res (\<lambda>(r, h). (r, if custom then h else [])) (apply_adjust_base s yaml notification_type cv)
         else if behavior = JStr ''fully_covered_patch'' then apply_fully_covered_patch notification_type cv
         else Inr (None, []))"

text \<open>\<open>d.update(e)\<close>.\<close>

definition dict_update :: "('k, 'v) dict \<Rightarrow> ('k, 'v) dict \<Rightarrow> ('k, 'v) dict" where
  "dict_update d e = foldl (\<lambda>d p. dict_set d (fst p) (snd p)) d e"

definition get_project_status :: "settings \<Rightarrow> json \<Rightarrow> string \<Rightarrow> comparison_view \<Rightarrow> status_result res" where
  "get_project_status s yaml notification_type cv =
     bind_res (basic_project_status s yaml notification_type cv) (\<lambda>res.
       if sr_state res = success then Inr res
       else if cv_base cv = None \<or> cv_head cv = None then Inr res
       else
         bind_res (removed_code_result s yaml notification_type cv) (\<lambda>(passed, helper).
           case passed of
             Some message \<Rightarrow> Inr (res\<lparr>sr_state := success, sr_message := sr_message res @ message, sr_helper := []\<rparr>)
           | None \<Rightarrow> Inr (res\<lparr>sr_helper := dict_update (sr_helper res) helper\<rparr>)))"


section \<open>Decisions\<close>

lemma success_not_failure [simp]: "success \<noteq> failure" "failure \<noteq> success"
  by (simp_all add: success_def failure_def)

lemma patch_against_target_state:
  assumes "patch_against_target s yaml nt c tg th custom = Inr r"
  shows "sr_state r = (if tg \<le> c \<or> dec_minus tg th \<le> c then success else failure)"
    "sr_helper r = [] \<longleftrightarrow> sr_state r = success \<or> \<not> custom"
  using assms by (auto simp: patch_against_target_def Let_def split: if_splits)

lemma patch_against_target_ok:
  assumes "precision_of yaml = Inr p" "p \<le> 25" "\<bar>c\<bar> \<le> 100" "\<bar>tg\<bar> \<le> 100" "\<bar>th\<bar> \<le> 100"
  obtains r where "patch_against_target s yaml nt c tg th custom = Inr r"
proof -
  obtain a where "rounded_text yaml c = Inr a" by (rule percentage_text [OF assms(1,2), of c]) (use assms(3) in auto)
  moreover obtain b where "rounded_text yaml tg = Inr b" by (rule percentage_text [OF assms(1,2), of tg]) (use assms(4) in auto)
  moreover obtain d where "rounded_text yaml th = Inr d" by (rule percentage_text [OF assms(1,2), of th]) (use assms(5) in auto)
  ultimately have "\<exists>r. patch_against_target s yaml nt c tg th custom = Inr r"
    by (cases "tg \<le> c"; cases "dec_minus tg th \<le> c") (simp_all add: patch_against_target_def Let_def)
  then show thesis using that by blast
qed

lemma project_against_base_state:
  assumes "project_against_base s yaml nt cv h b = Inr r" "decimal_of (t_coverage h) = Inr c"
  shows "\<exists>th tg custom. get_threshold s = Inr th \<and> get_project_target s b = Inr (tg, custom) \<and>
    sr_state r = (if dec_minus tg th \<le> c then success else failure)"
  using assms by (auto simp: project_against_base_def Let_def split: prod.splits if_splits)

lemma basic_project_status_cases:
  assumes "basic_project_status s yaml nt cv = Inr r" "cv_head cv = Some (Inr (Some h))" "decimal_of (t_coverage h) = Inr c"
  obtains (undecided) "sr_state r = setting s ''if_not_found'' success"
      "cv_base cv = None \<or> (\<exists>b. cv_base cv = Some (Inr (Some b)) \<and> t_coverage b = VNone)"
    | (compared) b where "cv_base cv = Some (Inr (Some b))" "t_coverage b \<noteq> VNone"
      "project_against_base s yaml nt cv h b = Inr r"
  using assms
  by (auto simp: basic_project_status_def if_not_found_def totals_of_def decimal_of_def split: option.splits if_splits)

lemma dict_update_Nil [simp]: "dict_update d [] = d"
  by (simp add: dict_update_def)

text \<open>A project status passes by itself or through a removed code behaviour.\<close>

lemma project_status_success:
  assumes "get_project_status s yaml nt cv = Inr r"
  shows "\<exists>basic. basic_project_status s yaml nt cv = Inr basic \<and>
    (sr_state r = success \<longleftrightarrow> sr_state basic = success \<or>
      (cv_base cv \<noteq> None \<and> cv_head cv \<noteq> None \<and>
        (\<exists>m h. removed_code_result s yaml nt cv = Inr (Some m, h))))"
proof -
  from assms obtain b where b: "basic_project_status s yaml nt cv = Inr b" by (auto simp: get_project_status_def)
  show ?thesis
  proof (cases "sr_state b = success \<or> cv_base cv = None \<or> cv_head cv = None")
    case True
    with assms b show ?thesis by (auto simp: get_project_status_def split: if_splits)
  next
    case False
    with assms b obtain m h where "removed_code_result s yaml nt cv = Inr (m, h)" by (auto simp: get_project_status_def)
    with assms b False show ?thesis by (cases m) (auto simp: get_project_status_def)
  qed
qed

lemma adjust_base_decision_passes:
  assumes "adjust_base_decision s yaml nt a c = Inr (m, h)"
  shows "\<exists>q. dec_quantize 5 rhe a = Inr q \<and> (m \<noteq> None \<longleftrightarrow> dec_minus q c < 5 / 1000)"
  using assms by (auto simp: adjust_base_decision_def split: if_splits)

lemma adjust_base_decision_mono:
  assumes "adjust_base_decision s yaml nt a c = Inr (Some m, h)" "adjust_base_decision s yaml nt a c' = Inr (m', h')" "c \<le> c'"
  shows "m' \<noteq> None"
proof -
  from adjust_base_decision_passes [OF assms(1)] adjust_base_decision_passes [OF assms(2)] obtain q where
    q: "dec_quantize 5 rhe a = Inr q" "dec_minus q c < 5 / 1000" "m' \<noteq> None \<longleftrightarrow> dec_minus q c' < 5 / 1000" by auto
  have "dec_minus q c' \<le> dec_minus q c" using assms(3) by (intro dec_minus_mono) auto
  with q show ?thesis by linarith
qed

definition with_head :: "comparison_view \<Rightarrow> report_totals \<Rightarrow> comparison_view" where
  "with_head cv h = cv\<lparr>cv_head := Some (Inr (Some h))\<rparr>"

lemma with_head_simps [simp]:
  "cv_head (with_head cv h) = Some (Inr (Some h))" "cv_base (with_head cv h) = cv_base cv"
  "cv_impacted (with_head cv h) = cv_impacted cv" "cv_applied (with_head cv h) = cv_applied cv"
  by (simp_all add: with_head_def)

lemma removed_code_mono:
  assumes "removed_code_result s yaml nt (with_head cv h) = Inr (Some m, d)" "removed_code_result s yaml nt (with_head cv h') = Inr (m', d')"
    and c: "decimal_of (t_coverage h) = Inr c" "decimal_of (t_coverage h') = Inr c'" "c \<le> c'"
  shows "m' \<noteq> None"
proof (cases "\<exists>x. apply_adjust_base s yaml nt (with_head cv h) = Inr (Some m, x) \<and> (\<exists>y. apply_adjust_base s yaml nt (with_head cv h') = Inr (m', y))")
  case True
  then show ?thesis
    using c adjust_base_decision_mono
    by (auto simp: apply_adjust_base_def report_totals_of_def totals_of_def split: if_splits) blast
next
  case False
  then show ?thesis using assms(1,2)
    by (auto simp: removed_code_result_def Let_def apply_removals_only_def apply_fully_covered_patch_def split: if_splits prod.splits)
qed

lemma basic_project_status_mono:
  assumes "basic_project_status s yaml nt (with_head cv h) = Inr r" "sr_state r = success"
    and "basic_project_status s yaml nt (with_head cv h') = Inr r'"
    and c: "decimal_of (t_coverage h) = Inr c" "decimal_of (t_coverage h') = Inr c'" "c \<le> c'"
  shows "sr_state r' = success"
proof (cases rule: basic_project_status_cases [OF assms(3) _ c(2), simplified])
  case 1
  from this(2) show ?thesis
    by (cases rule: basic_project_status_cases [OF assms(1) _ c(1), simplified]) (use 1(1) assms(2) in auto)
next
  case (2 b)
  from basic_project_status_cases [OF assms(1) _ c(1), simplified] 2(1,2)
  have "project_against_base s yaml nt (with_head cv h) h b = Inr r" by auto
  from project_against_base_state [OF this c(1)] project_against_base_state [OF 2(3) c(2)] assms(2) c(3)
  show ?thesis by (auto split: if_splits)
qed

text \<open>With the default settings a project status always comes to a decision.\<close>

lemma adjusted_coverage_range:
  assumes "0 \<le> adjusted_hits t files" "adjusted_hits t files \<le> adjusted_lines t files"
  shows "0 \<le> adjusted_coverage t files \<and> adjusted_coverage t files \<le> 100"
proof -
  let ?q = "of_int (adjusted_hits t files) / of_int (adjusted_lines t files) :: rat"
  have q: "0 \<le> ?q" "?q \<le> 1" using assms by (auto simp: divide_le_eq_1)
  then have "0 \<le> fl ?q" "fl ?q \<le> 1" using fl_nonneg_mono [of 0 ?q] fl_nonneg_mono [of ?q 1] by simp_all
  then show ?thesis
    using dec_round_mono [of 0 "fl ?q * 100"] dec_round_mono [of "fl ?q * 100" 100] dec_round_exact [of 100 0]
    by (simp add: adjusted_coverage_def dec_times_def)
qed

lemma adjust_base_decision_ok:
  assumes "precision_of yaml = Inr p" "p \<le> 25" "\<bar>a\<bar> \<le> 200" "\<bar>c\<bar> \<le> 100"
  obtains m h where "adjust_base_decision s yaml nt a c = Inr (m, h)"
    "m \<noteq> None \<longleftrightarrow> dec_minus (of_int (rhe (a * 10 powi 5)) / 10 powi 5) c < 5 / 1000"
proof -
  let ?q = "of_int (rhe (a * 10 powi 5)) / 10 powi 5 :: rat"
  have "\<bar>a\<bar> * 10 powi 5 \<le> 10 ^ 28 - 1" using assms(3) by (intro percentage_in_range) auto
  then have q: "dec_quantize 5 rhe a = Inr ?q"
    using precise_round_ok [of a 5 "''nearest''"] by (auto simp: precise_round_def rounding_mode_def dec_quantize_def Let_def split: if_splits)
  have d: "\<bar>dec_minus c a\<bar> \<le> 900" using dec_minus_bound [of c a 300] assms(3,4) by simp
  obtain t1 where t1: "rounded_text yaml a = Inr t1" by (rule percentage_text [OF assms(1,2), of a]) (use assms(3) in auto)
  obtain t2 where t2: "rounded_text yaml c = Inr t2" by (rule percentage_text [OF assms(1,2), of c]) (use assms(4) in auto)
  obtain t3 where t3: "rounded_text yaml (dec_minus c a) = Inr t3" by (rule percentage_text [OF assms(1,2) d])
  obtain y where y: "round_number yaml (dec_minus c a) = Inr y" by (rule percentage_rounded [OF assms(1,2) d])
  show thesis
    by (rule that [of "fst (projr (adjust_base_decision s yaml nt a c))" "snd (projr (adjust_base_decision s yaml nt a c))"])
      (simp_all add: adjust_base_decision_def q t1 t2 t3 y increase_text_def)
qed

lemma project_against_base_ok:
  assumes "get_threshold s = Inr th" "\<not> has_custom_target s" "decimal_of (t_coverage b) = Inr tg" "decimal_of (t_coverage h) = Inr c"
    and "cv_base_commit cv = Some bc" "precision_of yaml = Inr p" "p \<le> 25" "\<bar>c\<bar> \<le> 100" "\<bar>tg\<bar> \<le> 100"
  obtains r where "project_against_base s yaml nt cv h b = Inr r" "sr_state r = (if dec_minus tg th \<le> c then success else failure)"
proof -
  have d: "\<bar>dec_minus c tg\<bar> \<le> 900" using dec_minus_bound [of c tg 200] assms(8,9) by simp
  obtain t1 where t1: "rounded_text yaml c = Inr t1" by (rule percentage_text [OF assms(6,7), of c]) (use assms(8) in auto)
  obtain t2 where t2: "rounded_text yaml (dec_minus c tg) = Inr t2" by (rule percentage_text [OF assms(6,7) d])
  have tgt: "get_project_target s b = Inr (tg, False)" using assms(2,3) by (simp add: get_project_target_def)
  obtain r where r: "project_against_base s yaml nt cv h b = Inr r"
    by (simp add: project_against_base_def assms(1,4,5) tgt t1 t2 project_message_def rounded_text_signed_def Let_def)
  from project_against_base_state [OF r assms(4)] assms(1) tgt
  have "sr_state r = (if dec_minus tg th \<le> c then success else failure)" by simp
  with r show thesis by (rule that)
qed

lemma project_passes_directly:
  assumes "get_threshold s = Inr th" "\<not> has_custom_target s" "decimal_of (t_coverage b) = Inr tg" "decimal_of (t_coverage h) = Inr c"
    and "cv_base_commit cv = Some bc" "precision_of yaml = Inr p" "p \<le> 25" "\<bar>c\<bar> \<le> 100" "\<bar>tg\<bar> \<le> 100"
    and "cv_head cv = Some (Inr (Some h))" "cv_base cv = Some (Inr (Some b))" "dec_minus tg th \<le> c"
  obtains r where "get_project_status s yaml nt cv = Inr r" "sr_state r = success"
proof -
  obtain r where r: "project_against_base s yaml nt cv h b = Inr r" "sr_state r = (if dec_minus tg th \<le> c then success else failure)"
    by (rule project_against_base_ok [OF assms(1-9)])
  have "t_coverage h \<noteq> VNone" "t_coverage b \<noteq> VNone" using assms(3,4) by (auto simp: decimal_of_def)
  with r assms(10-12) show thesis
    by (intro that [of r]) (simp_all add: get_project_status_def basic_project_status_def totals_of_def)
qed

section \<open>Properties\<close>

definition totals_with :: "int \<Rightarrow> int \<Rightarrow> string \<Rightarrow> report_totals" where
  "totals_with hits misses coverage =
     zero_totals\<lparr>t_lines := hits + misses, t_hits := hits, t_misses := misses, t_coverage := VStr coverage\<rparr>"

text \<open>A base with 8 of 10 lines covered, of which the diff removed two covered ones; 6 of 8 lines of the head are covered.\<close>

definition sample_view :: comparison_view where
  "sample_view =
     \<lparr>cv_head_commit = ''b0b0b0b0'', cv_base_commit = Some ''a0a0a0a0'', cv_head = Some (Inr (Some (totals_with 6 2 ''75''))),
      cv_base = Some (Inr (Some (totals_with 8 2 ''80''))), cv_patch = Inr (Some (totals_with 1 3 ''25'')),
      cv_applied = Inr None, cv_changes = Inr (Some []),
      cv_impacted = Inr [\<lparr>im_added = None, im_removed = Some [(1, ''h''), (2, ''h'')], im_unexpected = None\<rparr>], cv_pull = True\<rparr>"

text \<open>
  C17. The patch status of a diff with covered or missed lines passes exactly when the coverage of the diff
  reaches the target or the target less the threshold; it always gives a result for percentages and up to 25
  decimals, and names the custom target in a helper text exactly when it fails because of one.
\<close>

theorem patch_status_decision:
  assumes "get_threshold s = Inr th" "get_patch_target s cv = Inr (Some tg, custom)"
    and "cv_patch cv = Inr (Some t)" "0 < t_lines t" "decimal_of (t_coverage t) = Inr c"
    and "precision_of yaml = Inr p" "p \<le> 25" "\<bar>c\<bar> \<le> 100" "\<bar>tg\<bar> \<le> 100" "\<bar>th\<bar> \<le> 100"
  shows "\<exists>r. get_patch_status s yaml nt cv = Inr r \<and>
    sr_state r = (if tg \<le> c \<or> dec_minus tg th \<le> c then success else failure) \<and>
    (sr_helper r \<noteq> [] \<longleftrightarrow> sr_state r = failure \<and> custom)"
proof -
  obtain r where r: "patch_against_target s yaml nt c tg th custom = Inr r"
    using patch_against_target_ok [OF assms(6-10)] .
  with assms(1-5) have "get_patch_status s yaml nt cv = Inr r" by (simp add: get_patch_status_def)
  with patch_against_target_state [OF r] show ?thesis by auto
qed

theorem patch_status_decision_witness:
  "\<exists>r. get_patch_status [(''target'', JStr ''50%'')] (JObj []) ''status'' sample_view = Inr r \<and> sr_state r = failure \<and> sr_helper r \<noteq> []"
proof -
  let ?s = "[(''target'', JStr ''50%'')]"
  have th: "get_threshold ?s = Inr 0" by code_simp
  have tg: "get_patch_target ?s sample_view = Inr (Some 50, True)" by code_simp
  have c: "cv_patch sample_view = Inr (Some (totals_with 1 3 ''25''))" by (simp add: sample_view_def)
  have l: "0 < t_lines (totals_with 1 3 ''25'')" "decimal_of (t_coverage (totals_with 1 3 ''25'')) = Inr 25" by code_simp+
  have p: "precision_of (JObj []) = Inr 2" by code_simp
  have d: "\<not> dec_minus 50 0 \<le> 25" using dec_round_exact [of 50 0] by (simp add: dec_minus_def)
  from patch_status_decision [OF th tg c l p, of "''status''"] d show ?thesis by auto
qed

text \<open>
  C5. A higher coverage of the head never turns a passing project status into a failing one, whatever the
  target, the threshold, the base and the removed code behaviour are.
\<close>

theorem project_status_monotone:
  assumes "get_project_status s yaml nt (with_head cv h) = Inr r" "sr_state r = success"
    and "get_project_status s yaml nt (with_head cv h') = Inr r'"
    and c: "decimal_of (t_coverage h) = Inr c" "decimal_of (t_coverage h') = Inr c'" "c \<le> c'"
  shows "sr_state r' = success"
proof -
  from project_status_success [OF assms(1)] assms(2) obtain b where b: "basic_project_status s yaml nt (with_head cv h) = Inr b"
    "sr_state b = success \<or> cv_base cv \<noteq> None \<and> (\<exists>m d. removed_code_result s yaml nt (with_head cv h) = Inr (Some m, d))" by auto
  from project_status_success [OF assms(3)] obtain b' where b': "basic_project_status s yaml nt (with_head cv h') = Inr b'"
    "sr_state r' = success \<longleftrightarrow> sr_state b' = success \<or> cv_base cv \<noteq> None \<and> (\<exists>m d. removed_code_result s yaml nt (with_head cv h') = Inr (Some m, d))" by auto
  show ?thesis
  proof (cases "sr_state b = success")
    case True
    from basic_project_status_mono [OF b(1) this b'(1) c] have "sr_state b' = success" .
    with b'(2) show ?thesis by simp
  next
    case False
    with b(2) obtain m d where m: "cv_base cv \<noteq> None" "removed_code_result s yaml nt (with_head cv h) = Inr (Some m, d)" by auto
    show ?thesis
    proof (cases "sr_state b' = success")
      case False
      then obtain m' d' where "removed_code_result s yaml nt (with_head cv h') = Inr (m', d')"
        using assms(3) b'(1) m(1) by (auto simp: get_project_status_def)
      with removed_code_mono [OF m(2) this c] b'(2) m(1) show ?thesis by auto
    qed (use b'(2) in simp)
  qed
qed

theorem project_status_monotone_witness:
  "\<exists>r r'. get_project_status [(''threshold'', JInt 10)] (JObj []) ''status'' (with_head sample_view (totals_with 6 2 ''75'')) = Inr r \<and>
     get_project_status [(''threshold'', JInt 10)] (JObj []) ''status'' (with_head sample_view (totals_with 8 0 ''100'')) = Inr r' \<and>
     sr_state r = success \<and> sr_state r' = success"
proof -
  let ?s = "[(''threshold'', JInt 10)]" and ?h = "totals_with 6 2 ''75''" and ?h' = "totals_with 8 0 ''100''"
  have s: "get_threshold ?s = Inr 10" "\<not> has_custom_target ?s" "precision_of (JObj []) = Inr 2" by code_simp+
  have c: "decimal_of (t_coverage ?h) = Inr 75" "decimal_of (t_coverage ?h') = Inr 100"
    "decimal_of (t_coverage (totals_with 8 2 ''80'')) = Inr 80" by code_simp+
  have d: "dec_minus 80 10 \<le> 75" "dec_minus 80 10 \<le> 100" using dec_round_exact [of 70 0] by (simp_all add: dec_minus_def)
  have v: "cv_base (with_head sample_view h) = Some (Inr (Some (totals_with 8 2 ''80'')))"
    "cv_base_commit (with_head sample_view h) = Some ''a0a0a0a0''" for h
    by (simp_all add: sample_view_def with_head_def)
  obtain r where r: "get_project_status ?s (JObj []) ''status'' (with_head sample_view ?h) = Inr r" "sr_state r = success"
    by (rule project_passes_directly [OF s(1,2) c(3,1) v(2) s(3) _ _ _ _ v(1) d(1)]) auto
  obtain r' where r': "get_project_status ?s (JObj []) ''status'' (with_head sample_view ?h') = Inr r'"
    by (rule project_passes_directly [OF s(1,2) c(3,2) v(2) s(3) _ _ _ _ v(1) d(2)]) auto
  from project_status_monotone [OF r r' c(1,2)] r r' show ?thesis by auto
qed

text \<open>
  C16. With the default settings (target \<open>auto\<close>, removed code behaviour \<open>adjust_base\<close>) the project status
  always comes to a decision: it passes exactly when the coverage of the head reaches that of the base
  less the threshold, or is less than 0.005 percent below the coverage that the base has without the lines the diff removed, again
  less the threshold and rounded to five decimals.
\<close>

theorem project_status_default:
  assumes "\<not> has_custom_target s" "setting s ''removed_code_behavior'' JNull = JNull" "get_threshold s = Inr th"
    and "cv_head cv = Some (Inr (Some h))" "decimal_of (t_coverage h) = Inr c" "\<bar>c\<bar> \<le> 100"
    and "cv_base cv = Some (Inr (Some b))" "decimal_of (t_coverage b) = Inr tg" "\<bar>tg\<bar> \<le> 100"
    and "cv_base_commit cv = Some bc" "cv_impacted cv = Inr files" "precision_of yaml = Inr p" "p \<le> 25" "\<bar>th\<bar> \<le> 100"
    and "0 \<le> adjusted_hits b files" "adjusted_hits b files \<le> adjusted_lines b files"
  shows "\<exists>r. get_project_status s yaml nt cv = Inr r \<and>
    sr_state r = (if dec_minus tg th \<le> c \<or> adjusted_lines b files \<noteq> 0 \<and>
      dec_minus (of_int (rhe (dec_minus (adjusted_coverage b files) th * 10 powi 5)) / 10 powi 5) c < 5 / 1000 then success else failure)"
proof -
  let ?a = "dec_minus (adjusted_coverage b files) th"
  have v: "t_coverage h \<noteq> VNone" "t_coverage b \<noteq> VNone" using assms(5,8) by (auto simp: decimal_of_def)
  obtain r where "project_against_base s yaml nt cv h b = Inr r" and r: "sr_state r = (if dec_minus tg th \<le> c then success else failure)"
    by (rule project_against_base_ok [OF assms(3,1,8,5,10,12,13,6,9)])
  with v assms(4,7) have basic: "basic_project_status s yaml nt cv = Inr r" by (simp add: basic_project_status_def totals_of_def)
  have "\<bar>?a\<bar> \<le> 200"
    using adjusted_coverage_range [OF assms(15,16)] assms(14) dec_minus_bound [of "adjusted_coverage b files" th 200] by simp
  then obtain m d where m: "adjust_base_decision s yaml nt ?a c = Inr (m, d)"
    "m \<noteq> None \<longleftrightarrow> dec_minus (of_int (rhe (?a * 10 powi 5)) / 10 powi 5) c < 5 / 1000"
    using adjust_base_decision_ok [OF assms(12,13) _ assms(6)] by metis
  have adj: "apply_adjust_base s yaml nt cv = Inr (if adjusted_lines b files = 0 then (None, []) else (m, d))"
    using assms(1,3,4,5,7,11) m(1) by (simp add: apply_adjust_base_def report_totals_of_def totals_of_def)
  show ?thesis
  proof (cases "dec_minus tg th \<le> c")
    case True
    with basic r show ?thesis by (simp add: get_project_status_def)
  next
    case False
    with basic r adj m(2) assms(2,4,7) show ?thesis
      by (cases m) (auto simp: get_project_status_def removed_code_result_def Let_def)
  qed
qed

theorem project_status_default_witness:
  "\<exists>r. get_project_status [] (JObj []) ''status'' sample_view = Inr r \<and> sr_state r = success"
proof -
  let ?files = "[\<lparr>im_added = None, im_removed = Some [(1, ''h''), (2, ''h'')], im_unexpected = None\<rparr>]"
  have s: "\<not> has_custom_target []" "setting [] ''removed_code_behavior'' JNull = JNull" "get_threshold [] = Inr 0" by code_simp+
  have v: "cv_head sample_view = Some (Inr (Some (totals_with 6 2 ''75'')))" "cv_base sample_view = Some (Inr (Some (totals_with 8 2 ''80'')))"
    "cv_base_commit sample_view = Some ''a0a0a0a0''" "cv_impacted sample_view = Inr ?files"
    by (simp_all add: sample_view_def)
  have c: "decimal_of (t_coverage (totals_with 6 2 ''75'')) = Inr 75" "decimal_of (t_coverage (totals_with 8 2 ''80'')) = Inr 80"
    "precision_of (JObj []) = Inr 2" by code_simp+
  have a: "0 \<le> adjusted_hits (totals_with 8 2 ''80'') ?files"
    "adjusted_hits (totals_with 8 2 ''80'') ?files \<le> adjusted_lines (totals_with 8 2 ''80'') ?files"
    "adjusted_lines (totals_with 8 2 ''80'') ?files \<noteq> 0"
    by code_simp+
  have f: "fl (3 / 4) * 100 = 75" using bin.rnd_exact [of 3 "3 / 4" "- 2"] by (simp add: fl_def power_int_minus)
  have "adjusted_coverage (totals_with 8 2 ''80'') ?files = dec_round 75"
    by (simp add: adjusted_coverage_def adjusted_hits_def adjusted_lines_def removed_count_def totals_with_def dec_times_def zero_totals_def f)
  moreover have "dec_minus (of_int (rhe (dec_minus (dec_round 75) 0 * 10 powi 5)) / 10 powi 5) 75 < 5 / 1000"
    using dec_round_exact [of 75 0] rhe_of_int [of 7500000] by (simp add: dec_minus_def)
  ultimately have d: "dec_minus (of_int (rhe (dec_minus (adjusted_coverage (totals_with 8 2 ''80'') ?files) 0 * 10 powi 5)) / 10 powi 5) 75 < 5 / 1000"
    by simp
  from project_status_default [OF s v(1) c(1) _ v(2) c(2) _ v(3,4) c(3) _ _ a(1,2), of "''status''"] a(3) d show ?thesis by auto
qed

text \<open>
  The changes status of a report that the diff explains passes: no file is counted as having changes
  that the diff does not show.
\<close>

theorem explained_changes_status:
  assumes "wf_report head" "report_explained base head diff"
    and "cv_base cv \<noteq> None" "cv_changes cv = get_changes (Some base) (Some head) diff"
  shows "get_changes_status s nt cv =
    Inr \<lparr>sr_state = success, sr_message = ''No indirect coverage changes found'', sr_helper = []\<rparr>"
  using no_changes_when_explained [OF assms(1,2)] assms(3,4) by (simp add: get_changes_status_def)

theorem explained_changes_status_witness:
  "get_changes_status [] ''status''
     (sample_view\<lparr>cv_changes := get_changes (Some (report_of [] [sample_base])) (Some (report_of [] [sample_head]))
        (Some \<lparr>rd_files = [(''a.py'', sample_diff)], rd_totals = None\<rparr>)\<rparr>) =
     Inr \<lparr>sr_state = success, sr_message = ''No indirect coverage changes found'', sr_helper = []\<rparr>"
proof (rule explained_changes_status)
  show "wf_report (report_of [] [sample_head])" by (simp add: wf_report_def report_of_def wf_dict_def sample_head_def ReportFile_def)
  show "report_explained (report_of [] [sample_base]) (report_of [] [sample_head])
      (Some \<lparr>rd_files = [(''a.py'', sample_diff)], rd_totals = None\<rparr>)"
    by code_simp
qed (simp_all add: sample_view_def)

text \<open>
  Settings that are no numbers: a threshold of the kind never raises and counts as 0, while a
  target raises the error of the conversion, in the patch and in the project status of a
  comparison that has coverage on both sides.
\<close>

theorem invalid_settings_errors:
  "(decimal_setting (setting s ''threshold'' (JStr ''0.0'')) = Inl InvalidOperation \<longrightarrow> get_threshold s = Inr 0) \<and>
   (get_threshold s = Inr th \<and> has_custom_target s \<and> decimal_setting (setting s ''target'' JNull) = Inl e \<longrightarrow>
      get_patch_status s yaml nt cv = Inl e \<and>
      (cv_head cv = Some (Inr (Some h)) \<and> t_coverage h \<noteq> VNone \<and> cv_base cv = Some (Inr (Some b)) \<and> t_coverage b \<noteq> VNone \<longrightarrow>
        get_project_status s yaml nt cv = Inl e))"
  by (auto simp: get_threshold_def get_patch_status_def get_patch_target_def get_project_status_def basic_project_status_def
      totals_of_def project_against_base_def get_project_target_def)

theorem invalid_settings_errors_witness:
  "get_threshold [(''threshold'', JStr ''low'')] = Inr 0 \<and>
   get_patch_status [(''target'', JStr ''high'')] (JObj []) ''status'' sample_view = Inl InvalidOperation \<and>
   get_project_status [(''target'', JStr ''high'')] (JObj []) ''status'' sample_view = Inl InvalidOperation"
proof -
  let ?s = "[(''target'', JStr ''high'')]"
  have a: "decimal_setting (setting [(''threshold'', JStr ''low'')] ''threshold'' (JStr ''0.0'')) = Inl InvalidOperation"
    "get_threshold ?s = Inr 0" "has_custom_target ?s" "decimal_setting (setting ?s ''target'' JNull) = Inl InvalidOperation"
    by code_simp+
  have v: "cv_head sample_view = Some (Inr (Some (totals_with 6 2 ''75'')))" "t_coverage (totals_with 6 2 ''75'') \<noteq> VNone"
    "cv_base sample_view = Some (Inr (Some (totals_with 8 2 ''80'')))" "t_coverage (totals_with 8 2 ''80'') \<noteq> VNone"
    by (simp_all add: sample_view_def totals_with_def)
  from a v invalid_settings_errors [of "[(''threshold'', JStr ''low'')]" 0 InvalidOperation]
    invalid_settings_errors [of ?s 0 InvalidOperation "JObj []" "''status''" sample_view] show ?thesis by blast
qed

end
