(* ===== verification/Ci_Status.thy ===== *)
theory Ci_Status
  imports Path_Fixer "HOL-Library.Char_ord" "HOL-Library.List_Lexorder" "HOL-Library.Product_Lexorder"
begin

text \<open>
  The statuses of a commit at its git provider: the class \<open>Status\<close> of
  libs/shared/shared/torngit/status.py, the filter for the statuses of continuous integration
  (apps/worker/services/commit_status.py), and what the notify task (apps/worker/tasks/notify.py) decides
  from them. The regular expression engine is an argument.
\<close>

section \<open>Statuses\<close>

record commit_status =
  cs_context :: string
  cs_state :: string
  cs_time :: "string option"
  cs_url :: "string option"
  cs_description :: "string option"

record ci_statuses =
  st_statuses :: "commit_status list"
  st_state :: string

definition status_matches :: "regex_engine \<Rightarrow> string \<Rightarrow> string \<Rightarrow> bool" where
  "status_matches rx s pattern =
     (if pattern = s then True
      else if CHR ''*'' \<in> set pattern then rx (''^'' @ replace_str ''*'' ''.*'' pattern @ ''$'') s
      else False)"

definition status_key :: "commit_status \<Rightarrow> string \<times> bool" where
  "status_key s = (case cs_time s of None \<Rightarrow> [] | Some t \<Rightarrow> t, cs_state s \<noteq> ''pending'')"

definition add_to_context :: "(string, commit_status list) dict \<Rightarrow> commit_status \<Rightarrow> (string, commit_status list) dict" where
  "add_to_context d s =
     dict_set d (cs_context s) ((case dict_get d (cs_context s) of None \<Rightarrow> [] | Some ss \<Rightarrow> ss) @ [s])"

definition fetch_most_relevant_status_per_context :: "commit_status list \<Rightarrow> commit_status list" where
  "fetch_most_relevant_status_per_context ss =
     map (\<lambda>g. last (sort_key status_key g)) (dict_values (foldl add_to_context [] ss))"

definition overall_state :: "string list \<Rightarrow> string" where
  "overall_state states =
     (if \<forall>s \<in> set states. s = ''success'' then ''success''
      else if ''failure'' \<in> set states \<or> ''error'' \<in> set states then ''failure''
      else if ''pending'' \<in> set states then ''pending''
      else ''failure'')"

definition Status_init :: "commit_status list \<Rightarrow> ci_statuses" where
  "Status_init ss =
     (let relevant = fetch_most_relevant_status_per_context ss
      in \<lparr>st_statuses = relevant, st_state = overall_state (map cs_state relevant)\<rparr>)"

definition status_sub :: "regex_engine \<Rightarrow> ci_statuses \<Rightarrow> string \<Rightarrow> ci_statuses" where
  "status_sub rx st context = Status_init (filter (\<lambda>s. \<not> status_matches rx (cs_context s) context) (st_statuses st))"

definition status_eq :: "ci_statuses \<Rightarrow> string \<Rightarrow> bool res" where
  "status_eq st other =
     (if other \<in> {''success'', ''failure'', ''pending''} then Inr (st_state st = other) else Inl AssertionError)"

definition as_bool :: "ci_statuses \<Rightarrow> bool option" where
  "as_bool st = (if st_state st = ''success'' then Some True else if st_state st = ''failure'' then Some False else None)"

definition status_contains :: "regex_engine \<Rightarrow> ci_statuses \<Rightarrow> string \<Rightarrow> bool" where
  "status_contains rx st context = (\<exists>s \<in> set (st_statuses st). status_matches rx (cs_context s) context)"

definition status_filter :: "(commit_status \<Rightarrow> bool) \<Rightarrow> ci_statuses \<Rightarrow> ci_statuses" where
  "status_filter p st = Status_init (filter p (st_statuses st))"

definition pending_statuses :: "ci_statuses \<Rightarrow> commit_status list" where
  "pending_statuses st = filter (\<lambda>s. cs_state s = ''pending'') (st_statuses st)"

definition status_get :: "ci_statuses \<Rightarrow> string \<Rightarrow> commit_status option" where
  "status_get st context = List.find (\<lambda>s. cs_context s = context) (st_statuses st)"

section \<open>Statuses of continuous integration\<close>

text \<open>\<open>get_config("services", "ci_providers")\<close> is the argument.\<close>

definition ci_providers :: "json \<Rightarrow> string list res" where
  "ci_providers providers =
     (if \<not> j_truthy providers then Inr []
      else case providers of
        JList ps \<Rightarrow> traverse str_of ps
      | JStr s \<Rightarrow> Inr (map strip (split_all (CHR '','') s))
      | _ \<Rightarrow> Inl AttributeError)"

definition enterprise_defaults :: "json \<Rightarrow> string list res" where
  "enterprise_defaults providers = map_res (filter (\<lambda>p. p \<noteq> [])) (ci_providers providers)"

definition CI_CONTEXTS :: "string list" where
  "CI_CONTEXTS = [''ci'', ''Codefresh'', ''wercker'', ''semaphoreci'', ''pull request validator (cloudbees)'',
     ''Taskcluster (pull_request)'', ''continuous-integration'', ''buildkite'']"

definition CI_DOMAINS :: "string list" where
  "CI_DOMAINS = [''jenkins'', ''codefresh'', ''bitbucket'', ''teamcity'', ''buildkite'', ''taskcluster'']"

definition CI_EXCLUDE :: "string list" where
  "CI_EXCLUDE = [''styleci'']"

record ci_filter =
  ci_exclude :: "string list"
  ci_include :: "string list"

text \<open>\<open>c[0]\<close> of an empty string raises \<open>IndexError\<close>.\<close>

definition RepositoryCIFilter :: "string list \<Rightarrow> json \<Rightarrow> ci_filter res" where
  "RepositoryCIFilter defaults yaml =
     bind_res (str_list (read_yaml_field yaml [''codecov'', ''ci''] JNull)) (\<lambda>own.
       let ci = own @ defaults
       in if [] \<in> set ci then Inl IndexError
          else Inr \<lparr>ci_exclude = map tl (filter (\<lambda>c. hd c = CHR ''!'') ci) @ CI_EXCLUDE,
                    ci_include = filter (\<lambda>c. hd c \<noteq> CHR ''!'') ci @ CI_DOMAINS\<rparr>)"

definition status_domain :: "commit_status \<Rightarrow> string" where
  "status_domain s = (split_all (CHR ''/'') (case cs_url s of None \<Rightarrow> [] | Some u \<Rightarrow> u) @ [[], [], []]) ! 2"

definition names_any :: "string \<Rightarrow> string list \<Rightarrow> string list \<Rightarrow> bool" where
  "names_any whole parts names = (whole \<in> set names \<or> (\<exists>p \<in> set parts. p \<in> set names))"

definition domain_decision :: "ci_filter \<Rightarrow> string \<Rightarrow> bool option" where
  "domain_decision f d =
     (if d = [] then None
      else if names_any d (split_all (CHR ''.'') d) (ci_exclude f) then Some False
      else if names_any d (split_all (CHR ''.'') d) (ci_include f) then Some True
      else None)"

definition context_decision :: "ci_filter \<Rightarrow> string \<Rightarrow> bool" where
  "context_decision f context =
     (let contexts = split_all (CHR ''/'') context
      in if context = [] then False
         else if names_any context contexts (ci_exclude f) then False
         else if context \<in> set (ci_include f) \<or> (\<exists>p \<in> set contexts. p \<in> set (ci_include f) \<or> p \<in> set CI_CONTEXTS) then True
         else contains (lower context) ''jenkins'' \<and> ''jenkins'' \<notin> set (ci_exclude f))"

definition is_ci_status :: "ci_filter \<Rightarrow> commit_status \<Rightarrow> bool" where
  "is_ci_status f s = (case domain_decision f (status_domain s) of Some b \<Rightarrow> b | None \<Rightarrow> context_decision f (cs_context s))"

section \<open>Decisions of the notify task\<close>

text \<open>\<open>fetch_and_update_whether_ci_passed\<close> returns what it stores in \<open>commit.ci_passed\<close>.\<close>

definition ci_state_of :: "regex_engine \<Rightarrow> ci_filter \<Rightarrow> ci_statuses \<Rightarrow> ci_statuses" where
  "ci_state_of rx f all_statuses =
     (let ci_state = status_filter (is_ci_status f) all_statuses
      in if st_statuses ci_state = [] then ci_state else status_sub rx ci_state ''codecov*'')"

definition fetch_and_update_whether_ci_passed ::
  "regex_engine \<Rightarrow> string list \<Rightarrow> json \<Rightarrow> ci_statuses res \<Rightarrow> bool option res" where
  "fetch_and_update_whether_ci_passed rx defaults yaml statuses =
     bind_res statuses (\<lambda>all_statuses.
     bind_res (RepositoryCIFilter defaults yaml) (\<lambda>f.
       Inr (as_bool (ci_state_of rx f all_statuses))))"

definition should_wait_longer :: "json \<Rightarrow> bool option \<Rightarrow> bool" where
  "should_wait_longer yaml ci_results =
     (j_truthy (read_yaml_field yaml [''codecov'', ''notify'', ''wait_for_ci''] (JBool True)) \<and> ci_results = None)"

text \<open>The number of sessions of the head report, if there is one; a failed CI also schedules an error status.\<close>

definition should_send_notifications :: "json \<Rightarrow> bool option \<Rightarrow> nat option \<Rightarrow> bool res" where
  "should_send_notifications yaml ci_passed sessions =
     (if j_truthy (read_yaml_field yaml [''codecov'', ''require_ci_to_pass''] (JBool True)) \<and> ci_passed = Some False
      then Inr False
      else
        case read_yaml_field yaml [''codecov'', ''notify'', ''after_n_builds''] JNull of
          JInt n \<Rightarrow> Inr (n = 0 \<or> n \<le> int (case sessions of None \<Rightarrow> 0 | Some k \<Rightarrow> k))
        | v \<Rightarrow> if j_truthy v then Inl NotModelled else Inr True)"

definition sets_ci_failed_status :: "json \<Rightarrow> bool option \<Rightarrow> bool" where
  "sets_ci_failed_status yaml ci_passed =
     (j_truthy (read_yaml_field yaml [''codecov'', ''require_ci_to_pass''] (JBool True)) \<and> ci_passed = Some False)"


section \<open>The newest status of every context\<close>

lemma last_insort_key:
  "sorted (map f ys) \<Longrightarrow>
   last (insort_key f x ys) = (if ys = [] \<or> f (last ys) < f x then x else last ys)"
proof (induction ys)
  case (Cons y ys)
  then have IH: "last (insort_key f x ys) = (if ys = [] \<or> f (last ys) < f x then x else last ys)" by simp
  have le: "ys \<noteq> [] \<Longrightarrow> f y \<le> f (last ys)" using Cons.prems by simp
  show ?case using IH le by (auto simp: insort_is_Cons)
qed simp

lemma sort_key_empty [simp]: "sort_key f xs = [] \<longleftrightarrow> xs = []"
  by (metis length_0_conv length_sort)

lemma last_sort_key_Cons:
  "last (sort_key f (x # xs)) = (if xs = [] \<or> f (last (sort_key f xs)) < f x then x else last (sort_key f xs))"
  by (simp add: last_insort_key)

lemma last_sort_key_in: "xs \<noteq> [] \<Longrightarrow> last (sort_key f xs) \<in> set xs"
  by (metis last_in_set set_sort sort_key_empty)

definition newest_in :: "('a \<Rightarrow> 'k::linorder) \<Rightarrow> 'a list \<Rightarrow> 'a \<Rightarrow> bool" where
  "newest_in f xs x \<longleftrightarrow>
     (\<exists>us vs. xs = us @ x # vs \<and> (\<forall>u \<in> set us. f u \<le> f x) \<and> (\<forall>v \<in> set vs. f v < f x))"

lemma newest_in_last: "xs \<noteq> [] \<Longrightarrow> newest_in f xs (last (sort_key f xs))"
proof (induction xs)
  case (Cons x xs)
  show ?case
  proof (cases "xs = [] \<or> f (last (sort_key f xs)) < f x")
    case True
    have "\<forall>v \<in> set xs. f v < f x"
    proof (cases "xs = []")
      case False
      with Cons.IH obtain us vs where
        "xs = us @ last (sort_key f xs) # vs" "\<forall>u \<in> set us. f u \<le> f (last (sort_key f xs))" "\<forall>v \<in> set vs. f v < f (last (sort_key f xs))"
        unfolding newest_in_def by blast
      with True False show ?thesis by (metis Un_iff insert_iff le_less_trans less_trans list.set(2) set_append)
    qed simp
    then have "newest_in f (x # xs) x" unfolding newest_in_def by (metis append_Nil empty_iff empty_set)
    with True show ?thesis by (simp only: last_sort_key_Cons if_True)
  next
    case False
    with Cons.IH obtain us vs where
      g: "xs = us @ last (sort_key f xs) # vs" "\<forall>u \<in> set us. f u \<le> f (last (sort_key f xs))" "\<forall>v \<in> set vs. f v < f (last (sort_key f xs))"
      unfolding newest_in_def by blast
    have "x # xs = (x # us) @ last (sort_key f xs) # vs" using g(1) by simp
    moreover have "\<forall>u \<in> set (x # us). f u \<le> f (last (sort_key f xs))" using g(2) False by auto
    ultimately have "newest_in f (x # xs) (last (sort_key f xs))" using g(3) unfolding newest_in_def by blast
    with False show ?thesis by (simp only: last_sort_key_Cons if_False)
  qed
qed simp

lemma newest_in_unique:
  assumes "newest_in f xs x"
  shows "last (sort_key f xs) = x"
proof -
  obtain us vs where xs: "xs = us @ x # vs" "\<forall>u \<in> set us. f u \<le> f x" "\<forall>v \<in> set vs. f v < f x"
    using assms unfolding newest_in_def by blast
  have "last (sort_key f (us @ x # vs)) = x" using xs(2)
  proof (induction us)
    case Nil
    then show ?case using xs(3) last_sort_key_in [of vs f] by (auto simp: last_sort_key_Cons simp del: sort_key_simps)
  next
    case (Cons u us)
    then show ?case by (auto simp: last_sort_key_Cons simp del: sort_key_simps)
  qed
  with xs(1) show ?thesis by simp
qed

lemma last_sort_key_iff: "xs \<noteq> [] \<Longrightarrow> last (sort_key f xs) = x \<longleftrightarrow> newest_in f xs x"
  using newest_in_last newest_in_unique by metis

definition newest :: "commit_status list \<Rightarrow> commit_status \<Rightarrow> bool" where
  "newest ss s \<longleftrightarrow>
     (\<exists>us vs. ss = us @ s # vs \<and> (\<forall>u \<in> set us. cs_context u = cs_context s \<longrightarrow> status_key u \<le> status_key s)
       \<and> (\<forall>v \<in> set vs. cs_context v = cs_context s \<longrightarrow> status_key v < status_key s))"

definition of_context :: "string \<Rightarrow> commit_status list \<Rightarrow> commit_status list" where
  "of_context c ss = filter (\<lambda>s. cs_context s = c) ss"

lemma filter_eq_split:
  "filter P ss = us @ s # vs \<Longrightarrow> \<exists>us' vs'. ss = us' @ s # vs' \<and> filter P us' = us \<and> filter P vs' = vs"
proof (induction ss arbitrary: us)
  case (Cons x ss)
  show ?case
  proof (cases "P x \<and> us = []")
    case True
    with Cons.prems show ?thesis by (intro exI [where x = "[]"] exI [where x = ss]) auto
  next
    case False
    then have "filter P ss = (if P x then tl us else us) @ s # vs" using Cons.prems by (cases us) auto
    from Cons.IH [OF this] obtain us' vs' where "ss = us' @ s # vs'" "filter P us' = (if P x then tl us else us)" "filter P vs' = vs"
      by blast
    then show ?thesis using False Cons.prems by (intro exI [where x = "x # us'"] exI [where x = vs']) (cases us; auto)
  qed
qed simp

lemma newest_of_context: "newest ss s \<longleftrightarrow> newest_in status_key (of_context (cs_context s) ss) s"
proof
  assume "newest_in status_key (of_context (cs_context s) ss) s"
  then obtain us vs where
    f: "of_context (cs_context s) ss = us @ s # vs" and o: "\<forall>u \<in> set us. status_key u \<le> status_key s" "\<forall>v \<in> set vs. status_key v < status_key s"
    unfolding newest_in_def by blast
  from filter_eq_split [OF f [unfolded of_context_def]] obtain us' vs' where
    r: "ss = us' @ s # vs'" "of_context (cs_context s) us' = us" "of_context (cs_context s) vs' = vs"
    by (auto simp: of_context_def)
  have "\<forall>u \<in> set us'. cs_context u = cs_context s \<longrightarrow> status_key u \<le> status_key s"
    "\<forall>v \<in> set vs'. cs_context v = cs_context s \<longrightarrow> status_key v < status_key s"
    using o r(2,3) by (auto simp: of_context_def)
  with r(1) show "newest ss s" unfolding newest_def by blast
next
  assume "newest ss s"
  then obtain us vs where "ss = us @ s # vs" "\<forall>u \<in> set us. cs_context u = cs_context s \<longrightarrow> status_key u \<le> status_key s"
    "\<forall>v \<in> set vs. cs_context v = cs_context s \<longrightarrow> status_key v < status_key s"
    unfolding newest_def by blast
  then show "newest_in status_key (of_context (cs_context s) ss) s"
    unfolding newest_in_def of_context_def
    by (intro exI [where x = "filter (\<lambda>t. cs_context t = cs_context s) us"] exI [where x = "filter (\<lambda>t. cs_context t = cs_context s) vs"]) auto
qed

lemma grouped_get:
  "dict_get (foldl add_to_context [] ss) c = (if of_context c ss = [] then None else Some (of_context c ss))"
proof (induction ss rule: rev_induct)
  case (snoc s ss)
  then show ?case by (cases "of_context c ss = []") (auto simp: add_to_context_def of_context_def)
qed (simp add: of_context_def)

lemma grouped_wf: "wf_dict (foldl add_to_context [] ss)"
  by (induction ss rule: rev_induct) (auto simp: add_to_context_def)

lemma relevant_pairs:
  "fetch_most_relevant_status_per_context ss =
     map (\<lambda>p. last (sort_key status_key (snd p))) (foldl add_to_context [] ss)"
  by (simp add: fetch_most_relevant_status_per_context_def dict_values_def)

lemma grouped_pair:
  assumes "p \<in> set (foldl add_to_context [] ss)"
  shows "snd p = of_context (fst p) ss" "snd p \<noteq> []" "cs_context (last (sort_key status_key (snd p))) = fst p"
proof -
  have g: "dict_get (foldl add_to_context [] ss) (fst p) = Some (snd p)"
    using assms grouped_wf [of ss] by (simp add: dict_get_iff)
  then show "snd p = of_context (fst p) ss" "snd p \<noteq> []" by (auto simp: grouped_get split: if_splits)
  with last_sort_key_in [of "snd p" status_key] show "cs_context (last (sort_key status_key (snd p))) = fst p"
    by (simp add: of_context_def)
qed

lemma relevant_iff_newest: "s \<in> set (fetch_most_relevant_status_per_context ss) \<longleftrightarrow> newest ss s"
proof
  assume "s \<in> set (fetch_most_relevant_status_per_context ss)"
  then obtain p where p: "p \<in> set (foldl add_to_context [] ss)" "s = last (sort_key status_key (snd p))"
    by (auto simp: relevant_pairs)
  note g = grouped_pair [OF p(1)]
  from g(2) newest_in_last [of "snd p" status_key] have "newest_in status_key (of_context (cs_context s) ss) s"
    using g(1,3) p(2) by simp
  then show "newest ss s" by (simp add: newest_of_context)
next
  assume "newest ss s"
  then have n: "newest_in status_key (of_context (cs_context s) ss) s" by (simp add: newest_of_context)
  then have "of_context (cs_context s) ss \<noteq> []" by (auto simp: newest_in_def)
  then have "(cs_context s, of_context (cs_context s) ss) \<in> set (foldl add_to_context [] ss)"
    using grouped_get [of ss "cs_context s"] grouped_wf [of ss] by (simp add: dict_get_iff)
  then have "last (sort_key status_key (of_context (cs_context s) ss)) \<in> set (fetch_most_relevant_status_per_context ss)"
    unfolding relevant_pairs by (metis (no_types, lifting) imageI list.set_map snd_conv)
  with newest_in_unique [OF n] show "s \<in> set (fetch_most_relevant_status_per_context ss)" by simp
qed

lemma relevant_contexts: "map cs_context (fetch_most_relevant_status_per_context ss) = dict_keys (foldl add_to_context [] ss)"
  unfolding relevant_pairs dict_keys_def by (simp add: grouped_pair(3))

lemma relevant_distinct: "distinct (map cs_context (fetch_most_relevant_status_per_context ss))"
  using grouped_wf [of ss] by (simp add: relevant_contexts wf_dict_def dict_keys_def)

text \<open>Statuses of different contexts are all kept, in their order.\<close>

lemma grouped_single:
  assumes "distinct (map cs_context ss)"
  shows "foldl add_to_context [] ss = map (\<lambda>s. (cs_context s, [s])) ss"
  using assms
proof (induction ss rule: rev_induct)
  case (snoc s ss)
  have "cs_context s \<notin> set (dict_keys (map (\<lambda>s. (cs_context s, [s])) ss))" using snoc.prems by (auto simp: dict_keys_def)
  with snoc show ?case by (simp add: add_to_context_def dict_set_absent dict_get_None [THEN iffD2])
qed simp

lemma relevant_single:
  "distinct (map cs_context ss) \<Longrightarrow> fetch_most_relevant_status_per_context ss = ss"
  by (simp add: relevant_pairs grouped_single comp_def)

lemma status_filter_statuses:
  "st_statuses (status_filter p (Status_init ss)) = filter p (fetch_most_relevant_status_per_context ss)"
  using relevant_distinct [of ss] by (simp add: status_filter_def Status_init_def Let_def relevant_single distinct_map_filter)

lemma status_filter_Status:
  "status_filter p (Status_init ss) = Status_init (filter p (fetch_most_relevant_status_per_context ss))"
  by (simp add: status_filter_def Status_init_def Let_def)

lemma ci_state_statuses:
  "st_statuses (ci_state_of rx f (Status_init ss)) =
     filter (\<lambda>s. is_ci_status f s \<and> \<not> status_matches rx (cs_context s) ''codecov*'') (fetch_most_relevant_status_per_context ss)"
proof -
  let ?r = "fetch_most_relevant_status_per_context ss"
  have sub: "st_statuses (status_sub rx st ''codecov*'') = filter (\<lambda>s. \<not> status_matches rx (cs_context s) ''codecov*'') (st_statuses st)"
    if "distinct (map cs_context (st_statuses st))" for st
    using that by (simp add: status_sub_def Status_init_def Let_def relevant_single distinct_map_filter)
  have "filter (\<lambda>s. is_ci_status f s \<and> \<not> status_matches rx (cs_context s) ''codecov*'') ?r =
      filter (\<lambda>s. \<not> status_matches rx (cs_context s) ''codecov*'') (filter (is_ci_status f) ?r)"
    by (simp add: conj_commute)
  then show ?thesis
    using relevant_distinct [of ss]
    by (auto simp: ci_state_of_def Let_def status_filter_statuses sub distinct_map_filter filter_empty_conv)
qed

lemma ci_state_overall:
  "st_state (ci_state_of rx f (Status_init ss)) = overall_state (map cs_state (st_statuses (ci_state_of rx f (Status_init ss))))"
  by (simp add: ci_state_of_def Let_def status_filter_def status_sub_def Status_init_def)

section \<open>Whether CI passed\<close>

definition ci_relevant :: "regex_engine \<Rightarrow> ci_filter \<Rightarrow> commit_status list \<Rightarrow> commit_status \<Rightarrow> bool" where
  "ci_relevant rx f ss s \<longleftrightarrow> newest ss s \<and> is_ci_status f s \<and> \<not> status_matches rx (cs_context s) ''codecov*''"

lemma ci_state_set: "set (st_statuses (ci_state_of rx f (Status_init ss))) = {s. ci_relevant rx f ss s}"
  by (auto simp: ci_state_statuses relevant_iff_newest ci_relevant_def)

lemma as_bool_overall:
  "as_bool \<lparr>st_statuses = ss, st_state = overall_state ns\<rparr> =
     (if \<forall>n \<in> set ns. n = ''success'' then Some True
      else if ''pending'' \<in> set ns \<and> ''failure'' \<notin> set ns \<and> ''error'' \<notin> set ns then None else Some False)"
  by (simp add: as_bool_def overall_state_def)

text \<open>
  C31. Whether CI passed depends on the newest status of every context only (by time, and a finished status before a pending one of
  the same time), and of those on the ones that the repository's filter takes for CI and that do not come from
  Codecov itself: it passed when all of them succeeded (also when there are none), it is undecided when one is
  pending and none failed, and it failed otherwise.
\<close>

theorem ci_passed_decision:
  assumes "RepositoryCIFilter defaults yaml = Inr f"
  shows "fetch_and_update_whether_ci_passed rx defaults yaml (Inr (Status_init ss)) =
    Inr (if \<forall>s. ci_relevant rx f ss s \<longrightarrow> cs_state s = ''success'' then Some True
         else if (\<exists>s. ci_relevant rx f ss s \<and> cs_state s = ''pending'') \<and>
                 (\<nexists>s. ci_relevant rx f ss s \<and> cs_state s \<in> {''failure'', ''error''}) then None
         else Some False)"
proof -
  let ?c = "ci_state_of rx f (Status_init ss)"
  have "as_bool ?c = as_bool \<lparr>st_statuses = st_statuses ?c, st_state = overall_state (map cs_state (st_statuses ?c))\<rparr>"
    by (simp add: as_bool_def ci_state_overall)
  then show ?thesis
    by (auto simp: fetch_and_update_whether_ci_passed_def assms as_bool_overall ci_state_set image_iff)
qed

definition sample_status :: "string \<Rightarrow> string \<Rightarrow> string \<Rightarrow> commit_status" where
  "sample_status context st time =
     \<lparr>cs_context = context, cs_state = st, cs_time = Some time, cs_url = None, cs_description = None\<rparr>"

theorem ci_passed_decision_witness:
  "fetch_and_update_whether_ci_passed (\<lambda>p s. startswith s ''codecov'') [] (JObj [])
     (Inr (Status_init [sample_status ''ci/build'' ''pending'' ''2024-01-01'', sample_status ''ci/build'' ''success'' ''2024-01-02'',
       sample_status ''codecov/patch'' ''failure'' ''2024-01-03''])) = Inr (Some True)"
proof -
  have "RepositoryCIFilter [] (JObj []) = Inr \<lparr>ci_exclude = CI_EXCLUDE, ci_include = CI_DOMAINS\<rparr>" by code_simp
  note decision = ci_passed_decision [OF this, of "\<lambda>p s. startswith s ''codecov''"]
  have passed: "\<forall>s. ci_relevant (\<lambda>p s. startswith s ''codecov'') \<lparr>ci_exclude = CI_EXCLUDE, ci_include = CI_DOMAINS\<rparr>
      [sample_status ''ci/build'' ''pending'' ''2024-01-01'', sample_status ''ci/build'' ''success'' ''2024-01-02'',
       sample_status ''codecov/patch'' ''failure'' ''2024-01-03''] s \<longrightarrow> cs_state s = ''success''"
    (is "\<forall>s. ci_relevant ?rx ?f ?ss s \<longrightarrow> _")
  proof -
    have "\<forall>s \<in> set (st_statuses (ci_state_of ?rx ?f (Status_init ?ss))). cs_state s = ''success''" by code_simp
    then show ?thesis by (simp add: ci_state_set)
  qed
  show ?thesis by (simp only: decision if_P [OF passed])
qed

end
