(* ===== verification/Comparison.thy ===== *)
theory Comparison
  imports Status Ci_Status
begin

text \<open>
  The comparison of a commit with its base as the notifications see it
  (apps/worker/services/comparison/__init__.py and types.py): \<open>ComparisonProxy\<close> fetches diffs from the git provider,
  computes changes and patch totals, and keeps everything it computed.

  Applying a diff to a report writes totals into the diff and into the files of the report. The two diffs that the
  proxy keeps may be the same object, so that diffs live in a store and the proxy refers to them. The
  provider and the Rust comparison are arguments.
\<close>

section \<open>Computations with state and exceptions\<close>

text \<open>What a computation changed before it raised an exception stays changed.\<close>

type_synonym ('s, 'a) action = "'s \<Rightarrow> 'a res \<times> 's"

definition yield :: "'a \<Rightarrow> ('s, 'a) action" where
  "yield a s = (Inr a, s)"

definition lift_res :: "'a res \<Rightarrow> ('s, 'a) action" where
  "lift_res r s = (r, s)"

definition and_then :: "('s, 'a) action \<Rightarrow> ('a \<Rightarrow> ('s, 'b) action) \<Rightarrow> ('s, 'b) action" where
  "and_then m f s = (case m s of (Inl e, s') \<Rightarrow> (Inl e, s') | (Inr a, s') \<Rightarrow> f a s')"

section \<open>Comparisons\<close>

record full_commit =
  fc_commit :: "string option"
  fc_report :: "report option"

record comparison =
  c_head :: full_commit
  c_base :: full_commit
  c_patch_base :: "string option"
  c_yaml :: "json option"
  c_base_branch :: "string option"

text \<open>The git provider, with the results of its calls, and the Rust comparison.\<close>

record provider =
  pr_compare :: "string \<Rightarrow> string \<Rightarrow> raw_diff option res"
  pr_branch :: "string \<Rightarrow> string res"
  pr_distance :: "string \<Rightarrow> string \<Rightarrow> (int option \<times> string option) res"
  pr_statuses :: "string \<Rightarrow> ci_statuses res"
  pr_impacted :: "report option \<Rightarrow> report option \<Rightarrow> raw_diff option \<Rightarrow> impacted_file list res"

datatype 'a lazy = NOT_RESOLVED | Resolved 'a

record uploaded_count =
  uc_flag :: string
  uc_base :: int
  uc_head :: int

record proxy =
  cp_comparison :: comparison
  cp_diffs :: "raw_diff option list"
  cp_adjusted_base_diff :: "nat lazy"
  cp_original_base_diff :: "nat lazy"
  cp_patch_totals :: "report_totals option lazy"
  cp_changes :: "change list option lazy"
  cp_behind_by :: "int option"
  cp_branch :: "string option"
  cp_statuses :: "ci_statuses option"
  cp_uploaded :: "uploaded_count list option"
  cp_database :: "(int option \<times> string option) option"

definition ComparisonProxy :: "comparison \<Rightarrow> proxy" where
  "ComparisonProxy c =
     \<lparr>cp_comparison = c, cp_diffs = [], cp_adjusted_base_diff = NOT_RESOLVED, cp_original_base_diff = NOT_RESOLVED,
      cp_patch_totals = NOT_RESOLVED, cp_changes = NOT_RESOLVED, cp_behind_by = None, cp_branch = None, cp_statuses = None,
      cp_uploaded = None, cp_database = None\<rparr>"

definition has_head_report :: "comparison \<Rightarrow> bool" where
  "has_head_report c = (fc_report (c_head c) \<noteq> None)"

definition has_project_coverage_base_report :: "comparison \<Rightarrow> bool" where
  "has_project_coverage_base_report c = (fc_report (c_base c) \<noteq> None)"

section \<open>Diffs, changes and patch totals\<close>

definition head_commitid :: "comparison \<Rightarrow> string res" where
  "head_commitid c = (case fc_commit (c_head c) of None \<Rightarrow> Inl AttributeError | Some h \<Rightarrow> Inr h)"

definition bases_match :: "comparison \<Rightarrow> bool" where
  "bases_match c = (c_patch_base c = Some (case fc_commit (c_base c) of None \<Rightarrow> [] | Some b \<Rightarrow> b))"

text \<open>\<open>get_compare(base, head)["diff"]\<close> as a new object of the store.\<close>

definition fetch_diff :: "provider \<Rightarrow> string \<Rightarrow> (proxy, nat) action" where
  "fetch_diff P b s =
     (case bind_res (head_commitid (cp_comparison s)) (\<lambda>h. pr_compare P b h) of
        Inl e \<Rightarrow> (Inl e, s)
      | Inr d \<Rightarrow> (Inr (length (cp_diffs s)), s\<lparr>cp_diffs := cp_diffs s @ [d]\<rparr>))"

text \<open>Both bases are treated alike; \<open>use_original_base\<close> selects the fields.\<close>

definition base_commitid :: "bool \<Rightarrow> comparison \<Rightarrow> string option" where
  "base_commitid use_original_base c = (if use_original_base then c_patch_base c else fc_commit (c_base c))"

definition base_diff :: "bool \<Rightarrow> proxy \<Rightarrow> nat lazy" where
  "base_diff use_original_base s = (if use_original_base then cp_original_base_diff s else cp_adjusted_base_diff s)"

definition set_base_diff :: "bool \<Rightarrow> nat \<Rightarrow> proxy \<Rightarrow> proxy" where
  "set_base_diff use_original_base i s =
     (if use_original_base then s\<lparr>cp_original_base_diff := Resolved i\<rparr> else s\<lparr>cp_adjusted_base_diff := Resolved i\<rparr>)"

definition get_diff :: "provider \<Rightarrow> bool \<Rightarrow> (proxy, nat option) action" where
  "get_diff P use_original_base s =
     (case base_diff use_original_base s of
        Resolved i \<Rightarrow> (Inr (Some i), s)
      | NOT_RESOLVED \<Rightarrow>
          (case (if bases_match (cp_comparison s) then base_diff (\<not> use_original_base) s else NOT_RESOLVED) of
             Resolved i \<Rightarrow> (Inr (Some i), set_base_diff use_original_base i s)
           | NOT_RESOLVED \<Rightarrow>
               (case base_commitid use_original_base (cp_comparison s) of
                  None \<Rightarrow> (Inr None, s)
                | Some b \<Rightarrow> and_then (fetch_diff P b) (\<lambda>i s'. (Inr (Some i), set_base_diff use_original_base i s')) s)))"

definition deref :: "proxy \<Rightarrow> nat option \<Rightarrow> raw_diff option" where
  "deref s r = (case r of None \<Rightarrow> None | Some i \<Rightarrow> cp_diffs s ! i)"

definition proxy_get_changes :: "provider \<Rightarrow> (proxy, change list option) action" where
  "proxy_get_changes P s =
     (case cp_changes s of
        Resolved v \<Rightarrow> (Inr v, s)
      | NOT_RESOLVED \<Rightarrow>
          and_then (get_diff P False) (\<lambda>r s1.
            case get_changes (fc_report (c_base (cp_comparison s1))) (fc_report (c_head (cp_comparison s1))) (deref s1 r) of
              Inl e \<Rightarrow> (Inl e, s1)
            | Inr v \<Rightarrow> (Inr v, s1\<lparr>cp_changes := Resolved v\<rparr>)) s)"

text \<open>Writing back what \<open>apply_diff\<close> stored in the diff and in the report.\<close>

definition write_diff :: "nat option \<Rightarrow> raw_diff option \<Rightarrow> proxy \<Rightarrow> proxy" where
  "write_diff r d s = (case r of None \<Rightarrow> s | Some i \<Rightarrow> s\<lparr>cp_diffs := (cp_diffs s)[i := d]\<rparr>)"

definition set_head_report :: "report \<Rightarrow> proxy \<Rightarrow> proxy" where
  "set_head_report r s =
     s\<lparr>cp_comparison := (cp_comparison s)\<lparr>c_head := (c_head (cp_comparison s))\<lparr>fc_report := Some r\<rparr>\<rparr>\<rparr>"

definition get_patch_totals :: "provider \<Rightarrow> (proxy, report_totals option) action" where
  "get_patch_totals P s =
     (case cp_patch_totals s of
        Resolved v \<Rightarrow> (Inr v, s)
      | NOT_RESOLVED \<Rightarrow>
          and_then (get_diff P True) (\<lambda>r s1.
            case fc_report (c_head (cp_comparison s1)) of
              None \<Rightarrow> (Inl AttributeError, s1)
            | Some rep \<Rightarrow>
                (case r_apply_diff rep (deref s1 r) True of
                   Inl e \<Rightarrow> (Inl e, s1)
                 | Inr (v, d, rep') \<Rightarrow> (Inr v, (set_head_report rep' (write_diff r d s1))\<lparr>cp_patch_totals := Resolved v\<rparr>))) s)"

definition get_impacted_files :: "provider \<Rightarrow> (proxy, impacted_file list) action" where
  "get_impacted_files P =
     and_then (get_diff P False) (\<lambda>r s1.
       (pr_impacted P (fc_report (c_base (cp_comparison s1))) (fc_report (c_head (cp_comparison s1))) (deref s1 r), s1))"

section \<open>Distance and statuses\<close>

text \<open>\<open>c_base_branch\<close> is the base branch of the pull request at the provider, if there is one.\<close>

definition get_behind_by :: "provider \<Rightarrow> (proxy, int option) action" where
  "get_behind_by P s =
     (case cp_behind_by s of
        Some n \<Rightarrow> (Inr (Some n), s)
      | None \<Rightarrow>
          (case (fc_commit (c_base (cp_comparison s)), c_base_branch (cp_comparison s)) of
             (Some (c # cs), Some branch) \<Rightarrow>
               (case (case cp_branch s of Some sha \<Rightarrow> Inr sha | None \<Rightarrow> pr_branch P branch) of
                  Inl e \<Rightarrow> if is_client_general_error e \<or> e = KeyError then (Inr None, s) else (Inl e, s)
                | Inr sha \<Rightarrow>
                    (case pr_distance P sha (c # cs) of
                       Inl e \<Rightarrow> (Inl e, s\<lparr>cp_branch := Some sha\<rparr>)
                     | Inr (n, commit) \<Rightarrow>
                         (Inr n, s\<lparr>cp_branch := Some sha, cp_behind_by := n, cp_database := Some (n, commit)\<rparr>)))
           | _ \<Rightarrow> (Inr None, s)))"

definition get_existing_statuses :: "provider \<Rightarrow> (proxy, ci_statuses) action" where
  "get_existing_statuses P s =
     (case cp_statuses s of
        Some v \<Rightarrow> (Inr v, s)
      | None \<Rightarrow>
          (case bind_res (head_commitid (cp_comparison s)) (pr_statuses P) of
             Inl e \<Rightarrow> (Inl e, s)
           | Inr v \<Rightarrow> (Inr v, s\<lparr>cp_statuses := Some v\<rparr>)))"

section \<open>Uploads per flag\<close>

text \<open>\<open>session.flags or [""]\<close>.\<close>

definition upload_flags_of :: "session \<Rightarrow> string list" where
  "upload_flags_of ses = (case ss_flags ses of Some (f # fs) \<Rightarrow> f # fs | _ \<Rightarrow> [[]])"

definition count_upload :: "bool \<Rightarrow> (string, uploaded_count) dict \<Rightarrow> string \<Rightarrow> (string, uploaded_count) dict" where
  "count_upload in_head d flg =
     (let v = (case dict_get d flg of Some v \<Rightarrow> v | None \<Rightarrow> \<lparr>uc_flag = flg, uc_base = 0, uc_head = 0\<rparr>)
      in dict_set d flg (if in_head then v\<lparr>uc_head := uc_head v + 1\<rparr> else v\<lparr>uc_base := uc_base v + 1\<rparr>))"

definition uploaded_flags :: "report \<Rightarrow> string list" where
  "uploaded_flags r =
     concat (map upload_flags_of (filter (\<lambda>ses. ss_session_type ses \<noteq> ST_carriedforward) (dict_values (r_sessions r))))"

definition count_uploads :: "report \<Rightarrow> report \<Rightarrow> uploaded_count list" where
  "count_uploads base head =
     dict_values (foldl (count_upload True) (foldl (count_upload False) [] (uploaded_flags base)) (uploaded_flags head))"

definition get_reports_uploaded_count_per_flag :: "(proxy, uploaded_count list) action" where
  "get_reports_uploaded_count_per_flag s =
     (case cp_uploaded s of
        Some (u # us) \<Rightarrow> (Inr (u # us), s)
      | _ \<Rightarrow>
          (case (fc_report (c_base (cp_comparison s)), fc_report (c_head (cp_comparison s))) of
             (Some base, Some head) \<Rightarrow>
               (Inr (count_uploads base head), s\<lparr>cp_uploaded := Some (count_uploads base head)\<rparr>)
           | _ \<Rightarrow> (Inr [], s)))"

definition is_flag_carryforward :: "json option \<Rightarrow> string \<Rightarrow> bool res" where
  "is_flag_carryforward yaml flg =
     (case yaml of
        None \<Rightarrow> Inr False
      | Some y \<Rightarrow>
          bind_res (get_flag_configuration y flg) (\<lambda>c.
            case c of None \<Rightarrow> Inr False | Some conf \<Rightarrow> map_res j_truthy (get_or conf ''carryforward'' (JBool False))))"

definition is_valid_diff :: "json option \<Rightarrow> uploaded_count \<Rightarrow> bool res" where
  "is_valid_diff yaml u =
     map_res (\<lambda>cf.
       ((cf \<and> 0 < uc_base u \<and> 0 < uc_head u) \<or> (\<not> cf \<and> (0 < uc_base u \<or> 0 < uc_head u))) \<and> uc_head u < uc_base u)
       (is_flag_carryforward yaml (uc_flag u))"

definition filter_res :: "('a \<Rightarrow> bool res) \<Rightarrow> 'a list \<Rightarrow> 'a list res" where
  "filter_res p xs = map_res (\<lambda>bs. map fst (filter snd (zip xs bs))) (traverse p xs)"

definition get_reports_uploaded_count_per_flag_diff :: "(proxy, uploaded_count list) action" where
  "get_reports_uploaded_count_per_flag_diff =
     and_then get_reports_uploaded_count_per_flag (\<lambda>us s1.
       case filter_res (is_valid_diff (c_yaml (cp_comparison s1))) us of
         Inl e \<Rightarrow> (Inl e, s1)
       | Inr vs \<Rightarrow> (Inr vs, s1\<lparr>cp_uploaded := Some vs\<rparr>))"

section \<open>Filtered comparisons\<close>

text \<open>A \<open>FilteredComparison\<close> shares the proxy; a patch total is kept once there is one.\<close>

record filtered_comparison =
  fl_proxy :: proxy
  fl_head :: any_report
  fl_patch_totals :: "report_totals option"

text \<open>Where neither flags nor paths are asked for, \<open>get_filtered_comparison\<close> returns the proxy itself (\<^term>\<open>Inl s\<close>).\<close>

definition FilteredComparison :: "string list \<Rightarrow> string list \<Rightarrow> proxy \<Rightarrow> filtered_comparison res" where
  "FilteredComparison flags patterns s =
     (case fc_report (c_head (cp_comparison s)) of
        None \<Rightarrow> Inl AttributeError
      | Some r \<Rightarrow> Inr \<lparr>fl_proxy = s, fl_head = r_filter r (Some patterns) (Some flags), fl_patch_totals = None\<rparr>)"

definition get_filtered_comparison :: "string list \<Rightarrow> string list \<Rightarrow> proxy \<Rightarrow> (proxy + filtered_comparison) res" where
  "get_filtered_comparison flags patterns s =
     (if flags = [] \<and> patterns = [] then Inr (Inl s) else map_res Inr (FilteredComparison flags patterns s))"

definition any_apply_diff :: "regex_engine \<Rightarrow> any_report \<Rightarrow> raw_diff option \<Rightarrow> (report_totals option \<times> raw_diff option) res" where
  "any_apply_diff rx a d =
     (case a of
        Full r \<Rightarrow> map_res (\<lambda>(v, d', _). (v, d')) (r_apply_diff r d True)
      | Filtered fr \<Rightarrow> fr_apply_diff rx fr d True)"

definition filtered_get_patch_totals :: "regex_engine \<Rightarrow> provider \<Rightarrow> (filtered_comparison, report_totals option) action" where
  "filtered_get_patch_totals rx P f =
     (case fl_patch_totals f of
        Some v \<Rightarrow> (Inr (Some v), f)
      | None \<Rightarrow>
          (case get_diff P True (fl_proxy f) of
             (Inl e, s1) \<Rightarrow> (Inl e, f\<lparr>fl_proxy := s1\<rparr>)
           | (Inr r, s1) \<Rightarrow>
               (case any_apply_diff rx (fl_head f) (deref s1 r) of
                  Inl e \<Rightarrow> (Inl e, f\<lparr>fl_proxy := s1\<rparr>)
                | Inr (v, d) \<Rightarrow> (Inr v, f\<lparr>fl_proxy := write_diff r d s1, fl_patch_totals := v\<rparr>))))"


section \<open>What applying a diff leaves unchanged\<close>

text \<open>A diff and a report without the totals that applying a diff writes into them.\<close>

definition erase_entry :: "diff_file \<Rightarrow> diff_file" where
  "erase_entry d = d\<lparr>df_totals := None\<rparr>"

definition erase_diff :: "raw_diff \<Rightarrow> raw_diff" where
  "erase_diff d = d\<lparr>rd_files := dict_map erase_entry (rd_files d), rd_totals := None\<rparr>"

definition erase_file :: "report_file \<Rightarrow> report_file" where
  "erase_file f = f\<lparr>rf_diff_totals := None\<rparr>"

definition erase_report :: "report \<Rightarrow> report" where
  "erase_report r = r\<lparr>r_files := dict_map erase_file (r_files r), r_diff_totals := None\<rparr>"

lemma erase_entry_simps [simp]:
  "df_type (erase_entry d) = df_type d" "df_before (erase_entry d) = df_before d" "df_segments (erase_entry d) = df_segments d"
  "erase_entry (d\<lparr>df_totals := t\<rparr>) = erase_entry d"
  by (simp_all add: erase_entry_def)

lemma erase_file_items [simp]: "rf_items (erase_file f) = rf_items f" "rf_totals (erase_file f) = rf_totals f"
  by (simp_all add: erase_file_def rf_items_def)

lemma erase_file_total [simp]: "rf_total (erase_file f) = rf_total f"
  by (cases "rf_totals f") (simp_all add: rf_total_def)

lemma erase_file_simps [simp]:
  "rf_name (erase_file f) = rf_name f" "rf_lines (erase_file f) = rf_lines f" "rf_bool (erase_file f) = rf_bool f"
  "rf_get (erase_file f) = rf_get f" "rf_eof (erase_file f) = rf_eof f" "erase_file (f\<lparr>rf_diff_totals := t\<rparr>) = erase_file f"
  by (simp_all add: rf_bool_def) (simp_all add: erase_file_def rf_get_def rf_eof_def fun_eq_iff)

lemma dict_values_map [simp]: "dict_values (dict_map f d) = map f (dict_values d)"
  by (auto simp: dict_values_def dict_map_def)

lemma dict_map_set: "dict_map f (dict_set d k v) = dict_set (dict_map f d) k (f v)"
  by (induction d k v rule: dict_set.induct) (auto simp: dict_map_def)

lemma dict_map_set_same: "dict_get d k = Some v \<Longrightarrow> f w = f v \<Longrightarrow> dict_map f (dict_set d k w) = dict_map f d"
  by (simp add: dict_map_set dict_set_same)

lemma dict_map_of: "dict_of (map (\<lambda>(k, v). (k, f v)) kvs) = dict_map f (dict_of kvs)"
proof -
  have "foldl (\<lambda>d p. dict_set d (fst p) (snd p)) (dict_map f d) (map (\<lambda>(k, v). (k, f v)) kvs) =
      dict_map f (foldl (\<lambda>d p. dict_set d (fst p) (snd p)) d kvs)" for d
    by (induction kvs arbitrary: d) (auto simp flip: dict_map_set)
  from this [of "[]"] show ?thesis by (simp add: dict_of_def dict_map_def)
qed

lemma erase_report_simps [simp]:
  "r_get (erase_report r) n = map_option erase_file (r_get r n)" "r_file_list (erase_report r) = map erase_file (r_file_list r)"
  "dict_keys (r_files (erase_report r)) = dict_keys (r_files r)"
  by (simp_all add: erase_report_def r_get_def r_file_list_def)

lemma erase_diff_simps [simp]:
  "dict_get (rd_files (erase_diff d)) n = map_option erase_entry (dict_get (rd_files d) n)"
  "rd_files (erase_diff d) = [] \<longleftrightarrow> rd_files d = []" "dict_keys (rd_files (erase_diff d)) = dict_keys (rd_files d)"
  by (simp_all add: erase_diff_def) (simp add: dict_map_def)

section \<open>Changes do not depend on the written totals\<close>

lemma changed_loop_erase: "changed_loop (map_option erase_file b) (erase_file h) offs skip n ns = changed_loop b h offs skip n ns"
  by (induction ns arbitrary: n) (auto simp: Let_def split: option.split)

lemma iter_changed_erase:
  "iter_changed_lines (map_option erase_file b) (erase_file h) (map_option erase_entry d) = iter_changed_lines b h d"
  by (cases b; cases d) (simp_all add: iter_changed_lines_def last_line_def changed_loop_erase [of None, simplified] changed_loop_erase [of "Some _", simplified])

lemma file_change_erase:
  "file_change (map_option erase_file b) (erase_file h) (map_option erase_entry d) = file_change b h d"
  unfolding file_change_def iter_changed_erase by (simp add: case_map_option comp_def cong: if_cong option.case_cong)

lemma head_file_action_erase:
  "head_file_action (map_option erase_file b) (erase_file h) (map_option erase_entry d) = head_file_action b h d"
  by (simp add: head_file_action_def diff_segments_def case_map_option comp_def cong: if_cong option.case_cong)

lemma diff_of_file_erase: "diff_of_file (map_option erase_diff d) n = map_option erase_entry (diff_of_file d n)"
  by (cases d) (simp_all add: diff_of_file_def)

lemma before_or_erase [simp]: "before_or (erase_entry d) k = before_or d k"
  by (simp add: before_or_def)

lemma head_file_step_erase:
  "head_file_step (erase_report base) (map_option erase_diff d) missing s (erase_file f) = head_file_step base d missing s f"
proof -
  let ?d = "diff_of_file d (rf_name f)"
  let ?b = "r_get base (case ?d of None \<Rightarrow> rf_name f | Some df \<Rightarrow> before_or df (rf_name f))"
  have "r_get (erase_report base) (case map_option erase_entry ?d of None \<Rightarrow> rf_name f | Some df \<Rightarrow> before_or df (rf_name f)) = map_option erase_file ?b"
    by (cases ?d) simp_all
  then show ?thesis
    by (simp add: head_file_step_def diff_of_file_erase Let_def head_file_action_erase file_change_erase cong: if_cong option.case_cong)
qed

lemma unaccounted_erase:
  "unaccounted_files (erase_report a) (erase_report b) (map_option erase_diff d) = unaccounted_files a b d"
proof -
  have "diff_keys (map_option erase_diff d) = diff_keys d" by (cases d) (simp_all add: diff_keys_def)
  moreover have "moved_files (map_option erase_diff d) = moved_files d"
    by (cases d) (simp_all add: moved_files_def erase_diff_def comp_def)
  ultimately show ?thesis by (simp add: unaccounted_files_def)
qed

lemma vanished_erase:
  "traverse (vanished_change (erase_report base)) (vanished_base_files (erase_report base) (erase_report head) (erase_diff d)) =
   traverse (vanished_change base) (vanished_base_files base head d)"
proof -
  let ?e = "\<lambda>(k, d). (k, erase_entry d)"
  let ?keep = "\<lambda>p. r_get head (fst p) = None \<and> r_get base (before_or (snd p) (fst p)) \<noteq> None"
  have "vanished_base_files (erase_report base) (erase_report head) (erase_diff d) =
      dict_of (map (\<lambda>(k, v). (k, ?e v)) (map (\<lambda>(k, d). (before_or d k, (k, d))) (filter ?keep (rd_files d))))"
    by (simp add: vanished_base_files_def erase_diff_def dict_map_def filter_map comp_def case_prod_beta)
  also have "\<dots> = dict_map ?e (dict_of (map (\<lambda>(k, d). (before_or d k, (k, d))) (filter ?keep (rd_files d))))"
    by (rule dict_map_of)
  also have "dict_of (map (\<lambda>(k, d). (before_or d k, (k, d))) (filter ?keep (rd_files d))) = vanished_base_files base head d"
    by (simp add: vanished_base_files_def case_prod_beta')
  finally have "vanished_base_files (erase_report base) (erase_report head) (erase_diff d) = dict_map ?e (vanished_base_files base head d)" .
  moreover have "vanished_change (erase_report base) (b, k, erase_entry e) = vanished_change base (b, k, e)" for b k e
    by (auto simp: vanished_change_def diff_segments_def split: option.splits)
  ultimately show ?thesis by (auto simp: dict_map_def traverse_map intro!: traverse_cong)
qed

lemma get_changes_erase:
  "get_changes (map_option erase_report base) (map_option erase_report head) (map_option erase_diff d) = get_changes base head d"
proof (cases base; cases head)
  fix b h assume bh: "base = Some b" "head = Some h"
  have fold: "foldl_res (head_file_step (erase_report b) (map_option erase_diff d) m) s (map erase_file fs) = foldl_res (head_file_step b d m) s fs" for m s fs
    by (induction fs arbitrary: s) (simp_all add: head_file_step_erase)
  show ?thesis
    by (simp add: bh get_changes_def unaccounted_erase fold vanished_erase case_map_option comp_def Let_def cong: option.case_cong)
qed (simp_all add: get_changes_def)

section \<open>Applying a diff\<close>

lemma calculate_diff_erase: "r_calculate_diff (erase_report r) (erase_diff d) = r_calculate_diff r d"
proof -
  have "diff_file_totals (r_get (erase_report r)) rf_bool rf_get fs (n, erase_entry e) = diff_file_totals (r_get r) rf_bool rf_get fs (n, e)" for fs n e
    by (simp add: diff_file_totals_def case_map_option comp_def cong: option.case_cong if_cong)
  then have "foldl_res (diff_file_totals (r_get (erase_report r)) rf_bool rf_get) fs (dict_map erase_entry es) =
      foldl_res (diff_file_totals (r_get r) rf_bool rf_get) fs es" for fs es
    by (induction es arbitrary: fs) (auto simp: dict_map_def)
  then show ?thesis by (simp add: r_calculate_diff_def calculate_report_diff_def erase_diff_def)
qed

lemma save_file_totals_erase:
  assumes "save_file_totals (d, r) e = Inr (d', r')"
  shows "erase_diff d' = erase_diff d \<and> erase_report r' = erase_report r"
proof -
  obtain n t where e: "e = (n, t)" by (cases e)
  from assms e obtain data f where g: "dict_get (rd_files d) n = Some data" "dict_get (r_files r) n = Some f"
    by (auto simp: save_file_totals_def split: option.splits)
  with assms e show ?thesis
    by (auto simp: save_file_totals_def erase_diff_def erase_report_def dict_map_set_same Let_def)
qed

lemma save_diff_erase:
  assumes "r_save_diff_calculation r d c = Inr (d', r')"
  shows "erase_diff d' = erase_diff d \<and> erase_report r' = erase_report r"
proof -
  let ?P = "\<lambda>s. erase_diff (fst s) = erase_diff d \<and> erase_report (snd s) = erase_report r"
  have "?P (d', r')"
  proof (rule foldl_res_invariant [where P = ?P, OF assms [unfolded r_save_diff_calculation_def]])
    show "?P (d\<lparr>rd_totals := Some (cd_general c)\<rparr>, r\<lparr>r_diff_totals := Some (cd_general c)\<rparr>)"
      by (simp add: erase_diff_def erase_report_def)
  next
    fix s x s' assume "?P s" "save_file_totals s x = Inr s'"
    then show "?P s'" using save_file_totals_erase [of "fst s" "snd s" x "fst s'" "snd s'"] by simp
  qed
  then show ?thesis by simp
qed

text \<open>Saving raises depending on the names of the files only.\<close>

lemma save_file_totals_step:
  assumes "n \<in> set (dict_keys (rd_files d))" "n \<in> set (dict_keys (r_files r))"
  obtains d' r' where "save_file_totals (d, r) (n, t) = Inr (d', r')" "dict_keys (rd_files d') = dict_keys (rd_files d)"
    "dict_keys (r_files r') = dict_keys (r_files r)"
proof -
  from assms obtain a b where g: "dict_get (rd_files d) n = Some a" "dict_get (r_files r) n = Some b" by (metis dict_get_None option.exhaust)
  then obtain d' r' where s: "save_file_totals (d, r) (n, t) = Inr (d', r')" by (simp add: save_file_totals_def Let_def)
  moreover from s g assms have "dict_keys (rd_files d') = dict_keys (rd_files d)" "dict_keys (r_files r') = dict_keys (r_files r)"
    by (auto simp: save_file_totals_def Let_def keys_dict_set)
  ultimately show thesis by (rule that)
qed

lemma save_file_totals_fail:
  "n \<notin> set (dict_keys (rd_files d)) \<Longrightarrow> save_file_totals (d, r) (n, t) = Inl TypeError"
  "n \<in> set (dict_keys (rd_files d)) \<Longrightarrow> n \<notin> set (dict_keys (r_files r)) \<Longrightarrow> save_file_totals (d, r) (n, t) = Inl KeyError"
proof -
  show "n \<notin> set (dict_keys (rd_files d)) \<Longrightarrow> save_file_totals (d, r) (n, t) = Inl TypeError"
    by (simp add: save_file_totals_def flip: dict_get_None)
  assume "n \<in> set (dict_keys (rd_files d))" "n \<notin> set (dict_keys (r_files r))"
  moreover then obtain a where "dict_get (rd_files d) n = Some a" by (metis dict_get_None option.exhaust)
  ultimately show "save_file_totals (d, r) (n, t) = Inl KeyError" by (simp add: save_file_totals_def flip: dict_get_None)
qed

lemma save_diff_ok:
  assumes "dict_keys (rd_files d) = dict_keys (rd_files e)" "dict_keys (r_files r) = dict_keys (r_files q)"
  shows "map_res (\<lambda>_. ()) (r_save_diff_calculation r d c) = map_res (\<lambda>_. ()) (r_save_diff_calculation q e c)"
proof -
  have gen: "map_res (\<lambda>_. ()) (foldl_res save_file_totals (d, r) xs) = map_res (\<lambda>_. ()) (foldl_res save_file_totals (e, q) xs)"
    if "dict_keys (rd_files d) = dict_keys (rd_files e)" "dict_keys (r_files r) = dict_keys (r_files q)" for d r e q xs
    using that
  proof (induction xs arbitrary: d r e q)
    case (Cons x xs)
    obtain n t where x: "x = (n, t)" by (cases x)
    show ?case
    proof (cases "n \<in> set (dict_keys (rd_files d)) \<and> n \<in> set (dict_keys (r_files r))")
      case False
      then show ?thesis using Cons.prems by (cases "n \<in> set (dict_keys (rd_files d))") (simp_all add: x save_file_totals_fail)
    next
      case True
      obtain d' r' where s: "save_file_totals (d, r) (n, t) = Inr (d', r')" "dict_keys (rd_files d') = dict_keys (rd_files d)" "dict_keys (r_files r') = dict_keys (r_files r)"
        using True by (elim conjE) (rule save_file_totals_step)
      obtain e' q' where s': "save_file_totals (e, q) (n, t) = Inr (e', q')" "dict_keys (rd_files e') = dict_keys (rd_files e)" "dict_keys (r_files q') = dict_keys (r_files q)"
        using True unfolding Cons.prems by (elim conjE) (rule save_file_totals_step)
      have "dict_keys (rd_files d') = dict_keys (rd_files e')" "dict_keys (r_files r') = dict_keys (r_files q')"
        unfolding s(2,3) s'(2,3) by (rule Cons.prems)+
      from Cons.IH [OF this] show ?thesis by (simp add: x s(1) s'(1))
    qed
  qed simp
  show ?thesis unfolding r_save_diff_calculation_def by (rule gen) (use assms in simp_all)
qed

definition same_diff :: "raw_diff option \<Rightarrow> raw_diff option \<Rightarrow> bool" where
  "same_diff d e = (map_option erase_diff d = map_option erase_diff e)"

definition same_report :: "report option \<Rightarrow> report option \<Rightarrow> bool" where
  "same_report r q = (map_option erase_report r = map_option erase_report q)"

lemma get_changes_same: "same_report b b' \<Longrightarrow> same_report h h' \<Longrightarrow> same_diff d d' \<Longrightarrow> get_changes b h d = get_changes b' h' d'"
  using get_changes_erase [of b h d] get_changes_erase [of b' h' d'] by (simp add: same_report_def same_diff_def)

lemma same_keys:
  "erase_report r = erase_report q \<Longrightarrow> dict_keys (r_files r) = dict_keys (r_files q)"
  "erase_diff d = erase_diff e \<Longrightarrow> dict_keys (rd_files d) = dict_keys (rd_files e) \<and> (rd_files d = [] \<longleftrightarrow> rd_files e = [])"
  by (metis erase_report_simps(3)) (metis erase_diff_simps(2,3))

lemma apply_diff_same:
  assumes "same_report (Some r) (Some q)" "same_diff d e"
  shows "map_res fst (r_apply_diff r d True) = map_res fst (r_apply_diff q e True)"
proof (cases d)
  case None
  with assms show ?thesis by (cases e) (simp_all add: same_diff_def r_apply_diff_def)
next
  case (Some d0)
  with assms obtain e0 where e0: "e = Some e0" "erase_diff d0 = erase_diff e0" "erase_report r = erase_report q"
    by (cases e) (simp_all add: same_diff_def same_report_def)
  have calc: "r_calculate_diff r d0 = r_calculate_diff q e0"
    using calculate_diff_erase [of r d0] calculate_diff_erase [of q e0] e0 by simp
  note keys = same_keys(1) [OF e0(3)] same_keys(2) [OF e0(2)]
  show ?thesis
  proof (cases "r_calculate_diff q e0")
    case (Inr c)
    have "map_res (\<lambda>_. ()) (r_save_diff_calculation r d0 c) = map_res (\<lambda>_. ()) (r_save_diff_calculation q e0 c)"
      using save_diff_ok keys by blast
    with Inr calc keys Some e0(1) show ?thesis
      by (cases "r_save_diff_calculation r d0 c"; cases "r_save_diff_calculation q e0 c") (auto simp: r_apply_diff_def)
  qed (use Some e0(1) calc keys in \<open>simp add: r_apply_diff_def\<close>)
qed

lemma apply_diff_writes:
  assumes "r_apply_diff r d True = Inr (v, d', r')"
  shows "same_diff d' d \<and> same_report (Some r') (Some r)"
  using assms save_diff_erase by (fastforce simp: r_apply_diff_def same_diff_def same_report_def split: option.splits if_splits)


text \<open>
  Applying a diff can only raise while it computes, before it writes anything: the files it has totals of
  are files of the diff and of the report.
\<close>

lemma diff_file_totals_keys:
  assumes "diff_file_totals rget truthy fget fs (n, e) = Inr fs'"
  shows "set (dict_keys fs') \<subseteq> set (dict_keys fs) \<union> (if rget n = None then {} else {n})"
  using assms by (auto simp: diff_file_totals_def keys_dict_set split: if_splits option.splits)

lemma calculated_files:
  assumes "foldl_res (diff_file_totals rget truthy fget) fs es = Inr fs'"
  shows "set (dict_keys fs') \<subseteq> set (dict_keys fs) \<union> {n \<in> set (map fst es). rget n \<noteq> None}"
  using assms
proof (induction es arbitrary: fs)
  case (Cons e es)
  obtain n x where e: "e = (n, x)" by (cases e)
  with Cons.prems obtain fs1 where fs1: "diff_file_totals rget truthy fget fs (n, x) = Inr fs1"
    "foldl_res (diff_file_totals rget truthy fget) fs1 es = Inr fs'" by auto
  from Cons.IH [OF fs1(2)] diff_file_totals_keys [OF fs1(1)] show ?case by (auto simp: e split: if_splits)
qed simp

lemma save_succeeds:
  assumes "set (dict_keys fs) \<subseteq> set (dict_keys (rd_files d)) \<inter> set (dict_keys (r_files r))"
  shows "\<exists>x. foldl_res save_file_totals (d, r) fs = Inr x"
  using assms
proof (induction fs arbitrary: d r)
  case (Cons e fs)
  obtain n t where e: "e = (n, t)" by (cases e)
  have keys: "dict_keys (e # fs) = n # dict_keys fs" by (simp add: dict_keys_def e)
  with Cons.prems have "n \<in> set (dict_keys (rd_files d))" "n \<in> set (dict_keys (r_files r))" by simp_all
  then obtain d' r' where "save_file_totals (d, r) (n, t) = Inr (d', r')" "dict_keys (rd_files d') = dict_keys (rd_files d)"
    "dict_keys (r_files r') = dict_keys (r_files r)" by (rule save_file_totals_step)
  moreover with Cons.IH [of d' r'] Cons.prems keys have "\<exists>x. foldl_res save_file_totals (d', r') fs = Inr x" by simp
  ultimately show ?case by (simp add: e)
qed simp

lemma apply_diff_raises_before_writing:
  assumes "r_apply_diff r (Some d) True = Inl e"
  shows "r_calculate_diff r d = Inl e"
proof (cases "r_calculate_diff r d")
  case (Inr c)
  then have "foldl_res (diff_file_totals (r_get r) rf_bool rf_get) [] (rd_files d) = Inr (cd_files c)"
    by (auto simp: r_calculate_diff_def calculate_report_diff_def)
  from calculated_files [OF this] have "set (dict_keys (cd_files c)) \<subseteq> set (dict_keys (rd_files d)) \<inter> set (dict_keys (r_files r))"
    by (auto simp: dict_keys_def r_get_def dict_get_None)
  with save_succeeds [of "cd_files c" "d\<lparr>rd_totals := Some (cd_general c)\<rparr>" "r\<lparr>r_diff_totals := Some (cd_general c)\<rparr>"]
  obtain x where "r_save_diff_calculation r d c = Inr x" by (auto simp: r_save_diff_calculation_def)
  with Inr assms show ?thesis by (cases x) (simp add: r_apply_diff_def split: if_splits)
qed (use assms in \<open>simp add: r_apply_diff_def split: if_splits\<close>)


section \<open>Answers do not depend on the order of the questions\<close>

text \<open>What the notifications ask a proxy. The answer to a diff is the diff without totals written into it.\<close>

datatype question = AskDiff bool | AskChanges | AskPatchTotals | AskBehindBy | AskStatuses | AskUploads | AskUploadsDiff

datatype answer =
  DiffAnswer "raw_diff option" | ChangesAnswer "change list option" | TotalsAnswer "report_totals option"
| BehindAnswer "int option" | StatusesAnswer ci_statuses | UploadsAnswer "uploaded_count list"

definition map_action :: "('a \<Rightarrow> 's \<Rightarrow> 'b) \<Rightarrow> ('s, 'a) action \<Rightarrow> ('s, 'b) action" where
  "map_action f m s = (case m s of (r, s') \<Rightarrow> (map_res (\<lambda>a. f a s') r, s'))"

primrec ask :: "provider \<Rightarrow> question \<Rightarrow> (proxy, answer) action" where
  "ask P (AskDiff orig) = map_action (\<lambda>r s. DiffAnswer (map_option erase_diff (deref s r))) (get_diff P orig)"
| "ask P AskChanges = map_action (\<lambda>v _. ChangesAnswer v) (proxy_get_changes P)"
| "ask P AskPatchTotals = map_action (\<lambda>v _. TotalsAnswer v) (get_patch_totals P)"
| "ask P AskBehindBy = map_action (\<lambda>v _. BehindAnswer v) (get_behind_by P)"
| "ask P AskStatuses = map_action (\<lambda>v _. StatusesAnswer v) (get_existing_statuses P)"
| "ask P AskUploads = map_action (\<lambda>v _. UploadsAnswer v) get_reports_uploaded_count_per_flag"
| "ask P AskUploadsDiff = map_action (\<lambda>v _. UploadsAnswer v) get_reports_uploaded_count_per_flag_diff"

text \<open>The states of a proxy, after any questions.\<close>

inductive proxy_state :: "provider \<Rightarrow> comparison \<Rightarrow> proxy \<Rightarrow> bool" for P c where
  fresh: "proxy_state P c (ComparisonProxy c)"
| asked: "proxy_state P c s \<Longrightarrow> ask P q s = (a, s') \<Longrightarrow> proxy_state P c s'"

text \<open>The answers of a comparison that keeps nothing.\<close>

definition plain_diff :: "provider \<Rightarrow> comparison \<Rightarrow> bool \<Rightarrow> raw_diff option res" where
  "plain_diff P c orig =
     (case (if orig then c_patch_base c else fc_commit (c_base c)) of
        None \<Rightarrow> Inr None
      | Some b \<Rightarrow> bind_res (head_commitid c) (pr_compare P b))"

definition plain_changes :: "provider \<Rightarrow> comparison \<Rightarrow> change list option res" where
  "plain_changes P c = bind_res (plain_diff P c False) (get_changes (fc_report (c_base c)) (fc_report (c_head c)))"

definition plain_patch_totals :: "provider \<Rightarrow> comparison \<Rightarrow> report_totals option res" where
  "plain_patch_totals P c =
     bind_res (plain_diff P c True) (\<lambda>d.
       case fc_report (c_head c) of
         None \<Rightarrow> Inl AttributeError
       | Some r \<Rightarrow> map_res fst (r_apply_diff r d True))"

fun plain_answer :: "provider \<Rightarrow> comparison \<Rightarrow> question \<Rightarrow> answer res option" where
  "plain_answer P c (AskDiff orig) = Some (map_res (\<lambda>d. DiffAnswer (map_option erase_diff d)) (plain_diff P c orig))"
| "plain_answer P c AskChanges = Some (map_res ChangesAnswer (plain_changes P c))"
| "plain_answer P c AskPatchTotals = Some (map_res TotalsAnswer (plain_patch_totals P c))"
| "plain_answer P c _ = None"

text \<open>The invariant: what the proxy keeps is what the plain comparison would answer.\<close>

definition kept_diff :: "provider \<Rightarrow> comparison \<Rightarrow> proxy \<Rightarrow> bool \<Rightarrow> nat lazy \<Rightarrow> bool" where
  "kept_diff P c s orig l =
     (\<forall>i. l = Resolved i \<longrightarrow> i < length (cp_diffs s) \<and> (\<exists>d. plain_diff P c orig = Inr d \<and> same_diff (cp_diffs s ! i) d))"

definition same_comparison :: "comparison \<Rightarrow> comparison \<Rightarrow> bool" where
  "same_comparison a c =
     (c_base a = c_base c \<and> c_patch_base a = c_patch_base c \<and> fc_commit (c_head a) = fc_commit (c_head c) \<and>
      same_report (fc_report (c_head a)) (fc_report (c_head c)))"

definition proxy_inv :: "provider \<Rightarrow> comparison \<Rightarrow> proxy \<Rightarrow> bool" where
  "proxy_inv P c s =
     (same_comparison (cp_comparison s) c \<and> kept_diff P c s True (cp_original_base_diff s) \<and>
      kept_diff P c s False (cp_adjusted_base_diff s) \<and>
      (\<forall>v. cp_changes s = Resolved v \<longrightarrow> plain_changes P c = Inr v) \<and>
      (\<forall>v. cp_patch_totals s = Resolved v \<longrightarrow> plain_patch_totals P c = Inr v))"

lemma same_refl [simp]: "same_diff d d" "same_report r r" "same_comparison c c"
  by (simp_all add: same_diff_def same_report_def same_comparison_def)

lemma same_diff_trans: "same_diff a b \<Longrightarrow> same_diff b c \<Longrightarrow> same_diff a c"
  by (simp add: same_diff_def)

lemma same_comparison_fields:
  assumes "same_comparison a c"
  shows "bases_match a = bases_match c" "head_commitid a = head_commitid c" "plain_diff P a orig = plain_diff P c orig"
proof -
  show "bases_match a = bases_match c" and h: "head_commitid a = head_commitid c"
    using assms by (simp_all add: same_comparison_def bases_match_def head_commitid_def)
  show "plain_diff P a orig = plain_diff P c orig" using assms unfolding plain_diff_def h by (simp add: same_comparison_def)
qed

lemma bases_match_plain: "bases_match c \<Longrightarrow> c_patch_base c \<noteq> Some [] \<Longrightarrow> plain_diff P c a = plain_diff P c b"
  by (auto simp: bases_match_def plain_diff_def split: option.splits)

text \<open>Adding a diff to the store, or writing totals into one, keeps what is known of the others.\<close>

lemma kept_diff_append: "kept_diff P c s orig l \<Longrightarrow> kept_diff P c (s\<lparr>cp_diffs := cp_diffs s @ [d]\<rparr>) orig l"
  by (auto simp: kept_diff_def nth_append)

lemma kept_diff_write:
  assumes "kept_diff P c s orig l" "same_diff d (deref s r)"
  shows "kept_diff P c (write_diff r d s) orig l"
proof (cases r)
  case (Some i)
  have "same_diff ((cp_diffs s)[i := d] ! j) (cp_diffs s ! j)" if "j < length (cp_diffs s)" for j
    using that assms(2) Some by (cases "j = i") (simp_all add: deref_def)
  with assms(1) Some show ?thesis by (fastforce simp: kept_diff_def write_diff_def intro: same_diff_trans)
qed (use assms in \<open>simp add: write_diff_def\<close>)

lemma kept_diff_cong: "cp_diffs s = cp_diffs t \<Longrightarrow> kept_diff P c s orig l = kept_diff P c t orig l"
  by (simp add: kept_diff_def)


section \<open>Every question keeps the invariant\<close>

lemma kept_diff_new:
  "plain_diff P c orig = Inr d \<Longrightarrow> kept_diff P c (s\<lparr>cp_diffs := cp_diffs s @ [d]\<rparr>) orig (Resolved (length (cp_diffs s)))"
  by (simp add: kept_diff_def)

lemma kept_diff_NOT_RESOLVED [simp]: "kept_diff P c s orig NOT_RESOLVED"
  by (simp add: kept_diff_def)

lemma kept_diff_swap:
  "kept_diff P c s orig l \<Longrightarrow> bases_match c \<Longrightarrow> c_patch_base c \<noteq> Some [] \<Longrightarrow> kept_diff P c s orig' l"
  using bases_match_plain [of c P orig orig'] by (simp add: kept_diff_def)

text \<open>Asking for a diff: the answer, and a state that differs in what is known of the diffs only.\<close>

definition diff_step :: "provider \<Rightarrow> comparison \<Rightarrow> bool \<Rightarrow> nat option res \<times> proxy \<Rightarrow> bool" where
  "diff_step P c orig rs =
     (proxy_inv P c (snd rs) \<and>
      (case fst rs of
         Inl e \<Rightarrow> plain_diff P c orig = Inl e
       | Inr r \<Rightarrow> (\<exists>d. plain_diff P c orig = Inr d \<and> same_diff (deref (snd rs) r) d)))"

lemma fetch_diff_step:
  assumes inv: "proxy_inv P c s" and b: "(if orig then c_patch_base c else fc_commit (c_base c)) = Some b"
  obtains e where "fetch_diff P b s = (Inl e, s)" "plain_diff P c orig = Inl e"
  | d where "fetch_diff P b s = (Inr (length (cp_diffs s)), s\<lparr>cp_diffs := cp_diffs s @ [d]\<rparr>)" "plain_diff P c orig = Inr d"
proof -
  have "plain_diff P c orig = bind_res (head_commitid (cp_comparison s)) (\<lambda>h. pr_compare P b h)"
    using b inv same_comparison_fields(2) [of "cp_comparison s" c] by (simp add: plain_diff_def proxy_inv_def)
  then have "fetch_diff P b s = (case plain_diff P c orig of Inl e \<Rightarrow> (Inl e, s)
      | Inr d \<Rightarrow> (Inr (length (cp_diffs s)), s\<lparr>cp_diffs := cp_diffs s @ [d]\<rparr>))" by (simp only: fetch_diff_def)
  then show thesis by (cases "plain_diff P c orig") (simp_all add: that)
qed

lemma kept_diff_deref: "kept_diff P c s orig (Resolved i) \<Longrightarrow> \<exists>d. plain_diff P c orig = Inr d \<and> same_diff (deref s (Some i)) d"
  by (simp add: kept_diff_def deref_def)

lemma proxy_inv_diff: "proxy_inv P c s \<Longrightarrow> kept_diff P c s orig (base_diff orig s)"
  by (simp add: proxy_inv_def base_diff_def)

lemma proxy_inv_set:
  assumes "proxy_inv P c s" "kept_diff P c s orig (Resolved i)"
  shows "diff_step P c orig (Inr (Some i), set_base_diff orig i s)"
  using assms kept_diff_deref [OF assms(2)] by (cases orig) (simp_all add: diff_step_def proxy_inv_def set_base_diff_def kept_diff_def deref_def)

lemma proxy_inv_append: "proxy_inv P c s \<Longrightarrow> proxy_inv P c (s\<lparr>cp_diffs := cp_diffs s @ [d]\<rparr>)"
  by (simp add: proxy_inv_def kept_diff_append)

lemma get_diff_step:
  assumes inv: "proxy_inv P c s" and c: "c_patch_base c \<noteq> Some []"
  shows "diff_step P c orig (get_diff P orig s)"
proof -
  have same: "bases_match (cp_comparison s) = bases_match c" "base_commitid orig (cp_comparison s) = base_commitid orig c"
    using inv same_comparison_fields(1) by (auto simp: proxy_inv_def same_comparison_def base_commitid_def)
  show ?thesis
  proof (cases "base_diff orig s")
    case (Resolved i)
    with proxy_inv_diff [OF inv, of orig] kept_diff_deref [of P c s orig i] inv show ?thesis
      by (simp add: get_diff_def diff_step_def)
  next
    case nr: NOT_RESOLVED
    show ?thesis
    proof (cases "if bases_match c then base_diff (\<not> orig) s else NOT_RESOLVED")
      case (Resolved i)
      then have "kept_diff P c s orig (Resolved i)"
        using kept_diff_swap [OF proxy_inv_diff [OF inv, of "\<not> orig"] _ c, of orig] by (simp split: if_splits)
      with Resolved show ?thesis by (simp add: get_diff_def nr same proxy_inv_set [OF inv])
    next
      case NOT_RESOLVED
      then have eq: "get_diff P orig s = (case base_commitid orig c of None \<Rightarrow> (Inr None, s)
          | Some b \<Rightarrow> and_then (fetch_diff P b) (\<lambda>i s'. (Inr (Some i), set_base_diff orig i s')) s)"
        by (simp add: get_diff_def nr same)
      show ?thesis
      proof (cases "base_commitid orig c")
        case None
        with inv eq show ?thesis by (simp add: diff_step_def plain_diff_def base_commitid_def deref_def)
      next
        case (Some b)
        from inv Some [unfolded base_commitid_def] show ?thesis
          by (rule fetch_diff_step)
            (simp_all add: eq Some and_then_def diff_step_def [of _ _ _ "(Inl _, _)"] inv proxy_inv_append kept_diff_new proxy_inv_set)
      qed
    qed
  qed
qed

lemma get_diff_cases:
  assumes "proxy_inv P c s" "c_patch_base c \<noteq> Some []"
  obtains e s1 where "get_diff P orig s = (Inl e, s1)" "proxy_inv P c s1" "plain_diff P c orig = Inl e"
  | r s1 d where "get_diff P orig s = (Inr r, s1)" "proxy_inv P c s1" "plain_diff P c orig = Inr d" "same_diff (deref s1 r) d"
proof -
  obtain r s1 where g: "get_diff P orig s = (r, s1)" by (cases "get_diff P orig s")
  with get_diff_step [OF assms, of orig] show thesis
    by (cases r) (auto simp: diff_step_def intro: that)
qed

lemma proxy_changes_step:
  assumes inv: "proxy_inv P c s" and c: "c_patch_base c \<noteq> Some []"
  shows "fst (proxy_get_changes P s) = plain_changes P c \<and> proxy_inv P c (snd (proxy_get_changes P s))"
proof (cases "cp_changes s")
  case (Resolved v)
  with inv show ?thesis by (simp add: proxy_get_changes_def proxy_inv_def)
next
  case NOT_RESOLVED
  from assms show ?thesis
  proof (rule get_diff_cases [of P c s False])
    fix r s1 d assume d: "get_diff P False s = (Inr r, s1)" "proxy_inv P c s1" "plain_diff P c False = Inr d" "same_diff (deref s1 r) d"
    let ?v = "get_changes (fc_report (c_base (cp_comparison s1))) (fc_report (c_head (cp_comparison s1))) (deref s1 r)"
    have "?v = get_changes (fc_report (c_base c)) (fc_report (c_head c)) d"
      using d(2,4) by (intro get_changes_same) (simp_all add: proxy_inv_def same_comparison_def)
    with d(3) have v: "?v = plain_changes P c" by (simp add: plain_changes_def)
    show ?thesis
      by (cases ?v) (use v d(1,2) in \<open>simp_all add: proxy_get_changes_def NOT_RESOLVED and_then_def proxy_inv_def kept_diff_def\<close>)
  qed (simp add: proxy_get_changes_def NOT_RESOLVED and_then_def plain_changes_def)
qed

lemma proxy_inv_write:
  assumes "proxy_inv P c s" "same_diff d (deref s r)" "fc_report (c_head (cp_comparison s)) = Some q" "same_report (Some q') (Some q)"
    "plain_patch_totals P c = Inr v"
  shows "proxy_inv P c ((set_head_report q' (write_diff r d s))\<lparr>cp_patch_totals := Resolved v\<rparr>)"
proof -
  have sel: "cp_comparison (write_diff r d s) = cp_comparison s" "cp_changes (write_diff r d s) = cp_changes s"
    "cp_original_base_diff (write_diff r d s) = cp_original_base_diff s" "cp_adjusted_base_diff (write_diff r d s) = cp_adjusted_base_diff s"
    by (simp_all add: write_diff_def split: option.split)
  have "kept_diff P c ((set_head_report q' (write_diff r d s))\<lparr>cp_patch_totals := Resolved v\<rparr>) orig l = kept_diff P c (write_diff r d s) orig l" for orig l
    by (rule kept_diff_cong) (simp add: set_head_report_def)
  with assms show ?thesis
    by (auto simp: proxy_inv_def set_head_report_def sel kept_diff_write same_comparison_def same_report_def)
qed

lemma proxy_patch_totals_step:
  assumes inv: "proxy_inv P c s" and c: "c_patch_base c \<noteq> Some []"
  shows "fst (get_patch_totals P s) = plain_patch_totals P c \<and> proxy_inv P c (snd (get_patch_totals P s))"
proof (cases "cp_patch_totals s")
  case (Resolved v)
  with inv show ?thesis by (simp add: get_patch_totals_def proxy_inv_def)
next
  case NOT_RESOLVED
  from assms show ?thesis
  proof (rule get_diff_cases [of P c s True])
    fix r s1 d assume d: "get_diff P True s = (Inr r, s1)" "proxy_inv P c s1" "plain_diff P c True = Inr d" "same_diff (deref s1 r) d"
    from d(2) have same: "same_report (fc_report (c_head (cp_comparison s1))) (fc_report (c_head c))"
      by (simp add: proxy_inv_def same_comparison_def)
    show ?thesis
    proof (cases "fc_report (c_head (cp_comparison s1))")
      case None
      with same have "fc_report (c_head c) = None" by (simp add: same_report_def)
      with None d show ?thesis by (simp add: get_patch_totals_def NOT_RESOLVED and_then_def plain_patch_totals_def)
    next
      case (Some q)
      with same obtain h where h: "fc_report (c_head c) = Some h" "same_report (Some q) (Some h)"
        by (cases "fc_report (c_head c)") (simp_all add: same_report_def)
      have t: "map_res fst (r_apply_diff q (deref s1 r) True) = plain_patch_totals P c"
        using apply_diff_same [OF h(2) d(4)] d(3) h(1) by (simp add: plain_patch_totals_def)
      show ?thesis
      proof (cases "r_apply_diff q (deref s1 r) True")
        case (Inl e)
        with t d Some show ?thesis by (simp add: get_patch_totals_def NOT_RESOLVED and_then_def)
      next
        case (Inr w)
        obtain v d' q' where w: "w = (v, d', q')" by (cases w)
        with Inr t have v: "plain_patch_totals P c = Inr v" by simp
        from Inr w have "same_diff d' (deref s1 r)" "same_report (Some q') (Some q)"
          using apply_diff_writes by blast+
        with proxy_inv_write [OF d(2) _ Some _ v] d(1) Some Inr w v show ?thesis
          by (simp add: get_patch_totals_def NOT_RESOLVED and_then_def)
      qed
    qed
  qed (simp add: get_patch_totals_def NOT_RESOLVED and_then_def plain_patch_totals_def)
qed


lemma proxy_inv_frame:
  assumes "cp_comparison s' = cp_comparison s" "cp_diffs s' = cp_diffs s" "cp_original_base_diff s' = cp_original_base_diff s"
    "cp_adjusted_base_diff s' = cp_adjusted_base_diff s" "cp_changes s' = cp_changes s" "cp_patch_totals s' = cp_patch_totals s"
  shows "proxy_inv P c s' = proxy_inv P c s"
  using assms by (simp add: proxy_inv_def kept_diff_def)

lemma proxy_inv_update [simp]:
  "proxy_inv P c (s\<lparr>cp_statuses := v1\<rparr>) = proxy_inv P c s" "proxy_inv P c (s\<lparr>cp_uploaded := v2\<rparr>) = proxy_inv P c s"
  "proxy_inv P c (s\<lparr>cp_branch := v3\<rparr>) = proxy_inv P c s"
  "proxy_inv P c (s\<lparr>cp_branch := v3, cp_behind_by := v4, cp_database := v5\<rparr>) = proxy_inv P c s"
  by (rule proxy_inv_frame; simp)+

lemma behind_by_frame: "proxy_inv P c (snd (get_behind_by P s)) = proxy_inv P c s"
  by (simp add: get_behind_by_def split: option.split list.split sum.split prod.split)

lemma statuses_frame: "proxy_inv P c (snd (get_existing_statuses P s)) = proxy_inv P c s"
  by (simp add: get_existing_statuses_def split: option.split sum.split)

lemma uploads_frame: "proxy_inv P c (snd (get_reports_uploaded_count_per_flag s)) = proxy_inv P c s"
  by (simp add: get_reports_uploaded_count_per_flag_def split: option.split list.split)

lemma uploads_diff_frame: "proxy_inv P c (snd (get_reports_uploaded_count_per_flag_diff s)) = proxy_inv P c s"
  using uploads_frame [of P c s]
  by (cases "get_reports_uploaded_count_per_flag s") (simp add: get_reports_uploaded_count_per_flag_diff_def and_then_def split: sum.split)

lemma snd_map_action [simp]: "snd (map_action f m s) = snd (m s)"
  by (simp add: map_action_def split: prod.split)

lemma fst_map_action: "fst (map_action f m s) = map_res (\<lambda>a. f a (snd (m s))) (fst (m s))"
  by (simp add: map_action_def split: prod.split)

lemma get_diff_keeps: "proxy_inv P c s \<Longrightarrow> c_patch_base c \<noteq> Some [] \<Longrightarrow> proxy_inv P c (snd (get_diff P orig s))"
  using get_diff_step by (simp add: diff_step_def)

lemma ask_keeps: "proxy_inv P c s \<Longrightarrow> c_patch_base c \<noteq> Some [] \<Longrightarrow> proxy_inv P c (snd (ask P q s))"
  by (cases q) (simp_all add: get_diff_keeps proxy_changes_step proxy_patch_totals_step behind_by_frame statuses_frame uploads_frame uploads_diff_frame)

lemma proxy_state_inv: "proxy_state P c s \<Longrightarrow> c_patch_base c \<noteq> Some [] \<Longrightarrow> proxy_inv P c s"
proof (induction rule: proxy_state.induct)
  case fresh
  show ?case by (simp add: ComparisonProxy_def proxy_inv_def)
next
  case (asked s q a s')
  with ask_keeps [of P c s q] show ?case by simp
qed

lemma ask_diff_answer:
  assumes "proxy_inv P c s" "c_patch_base c \<noteq> Some []"
  shows "fst (ask P (AskDiff orig) s) = map_res (\<lambda>d. DiffAnswer (map_option erase_diff d)) (plain_diff P c orig)"
  using assms by (rule get_diff_cases [of P c s orig]) (simp_all add: fst_map_action same_diff_def)

text \<open>
  C8. A comparison answers every question for diffs, changes and patch totals as if it kept nothing and
  as if it was the first question: whatever was asked before, whatever raised, although computing the
  patch totals writes into the head report and into a diff that the changes may share. The provider is
  assumed to answer the same request alike, and the patch base is not the empty string.
\<close>

theorem comparison_order_independent:
  assumes "proxy_state P c s" "c_patch_base c \<noteq> Some []" "plain_answer P c q = Some a"
  shows "fst (ask P q s) = a"
proof -
  note inv = proxy_state_inv [OF assms(1,2)]
  show ?thesis
    using assms(3) ask_diff_answer [OF inv assms(2)] proxy_changes_step [OF inv assms(2)] proxy_patch_totals_step [OF inv assms(2)]
    by (cases q) (auto simp: fst_map_action)
qed

definition sample_provider :: provider where
  "sample_provider =
     \<lparr>pr_compare = (\<lambda>_ _. Inr (Some \<lparr>rd_files = [(''a.py'', sample_diff)], rd_totals = None\<rparr>)), pr_branch = (\<lambda>b. Inr ''c3''),
      pr_distance = (\<lambda>_ _. Inr (Some 1, Some ''c4'')), pr_statuses = (\<lambda>_. Inr (Status_init [])), pr_impacted = (\<lambda>_ _ _. Inr [])\<rparr>"

definition sample_comparison :: comparison where
  "sample_comparison =
     \<lparr>c_head = \<lparr>fc_commit = Some ''c2'', fc_report = Some (report_of [] [sample_head])\<rparr>,
      c_base = \<lparr>fc_commit = Some ''c1'', fc_report = Some (report_of [] [sample_base])\<rparr>,
      c_patch_base = Some ''c1'', c_yaml = None, c_base_branch = Some ''main''\<rparr>"

theorem comparison_order_independent_witness:
  "fst (ask sample_provider AskChanges (snd (ask sample_provider AskPatchTotals (ComparisonProxy sample_comparison)))) =
   Inr (ChangesAnswer (Some []))"
proof (rule comparison_order_independent [where c = sample_comparison])
  show "proxy_state sample_provider sample_comparison (snd (ask sample_provider AskPatchTotals (ComparisonProxy sample_comparison)))"
    by (rule proxy_state.asked [OF proxy_state.fresh prod.collapse [symmetric]])
  show "c_patch_base sample_comparison \<noteq> Some []" by (simp add: sample_comparison_def)
  show "plain_answer sample_provider sample_comparison AskChanges = Some (Inr (ChangesAnswer (Some [])))" by code_simp
qed

section \<open>Uploads per flag\<close>

text \<open>A dictionary of counts stands for two functions.\<close>

definition counts_as :: "(string \<Rightarrow> int) \<Rightarrow> (string \<Rightarrow> int) \<Rightarrow> (string, uploaded_count) dict \<Rightarrow> bool" where
  "counts_as b h d =
     (wf_dict d \<and> (\<forall>f. 0 \<le> b f \<and> 0 \<le> h f) \<and>
      (\<forall>f. dict_get d f = (if b f = 0 \<and> h f = 0 then None else Some \<lparr>uc_flag = f, uc_base = b f, uc_head = h f\<rparr>)))"

lemma counts_as_upload:
  assumes "counts_as b h d"
  shows "counts_as b (h(f := h f + 1)) (count_upload True d f)" "counts_as (b(f := b f + 1)) h (count_upload False d f)"
  using assms by (auto simp: counts_as_def count_upload_def Let_def add_nonneg_eq_0_iff)

lemma counts_as_uploads:
  assumes "counts_as b h d"
  shows "counts_as b (\<lambda>f. h f + int (count_list fs f)) (foldl (count_upload True) d fs)"
    "counts_as (\<lambda>f. b f + int (count_list fs f)) h (foldl (count_upload False) d fs)"
  using assms
proof (induction fs arbitrary: b h d)
  case (Cons g fs)
  have upd: "(\<lambda>f. (k(g := k g + 1)) f + int (count_list fs f)) = (\<lambda>f. k f + int (count_list (g # fs) f))" for k :: "string \<Rightarrow> int"
    by auto
  {
    case 1
    show ?case using Cons.IH(1) [OF counts_as_upload(1) [OF 1, of g]] unfolding upd by simp
  next
    case 2
    show ?case using Cons.IH(2) [OF counts_as_upload(2) [OF 2, of g]] unfolding upd by simp
  }
qed simp_all

text \<open>
  The counts of uploads: every flag that an upload of the base or of the head carries is listed once,
  with the number of times it occurs in each; carried forward sessions do not count.
\<close>

theorem uploads_counted:
  "distinct (map uc_flag (count_uploads base head)) \<and>
   set (count_uploads base head) =
     (\<lambda>f. \<lparr>uc_flag = f, uc_base = int (count_list (uploaded_flags base) f), uc_head = int (count_list (uploaded_flags head) f)\<rparr>) `
       (set (uploaded_flags base) \<union> set (uploaded_flags head))"
proof -
  let ?d = "foldl (count_upload True) (foldl (count_upload False) [] (uploaded_flags base)) (uploaded_flags head)"
  have "counts_as (\<lambda>_. 0) (\<lambda>_. 0) []" by (simp add: counts_as_def)
  from counts_as_uploads(1) [OF counts_as_uploads(2) [OF this, of "uploaded_flags base"], of "uploaded_flags head"]
  have wf: "wf_dict ?d" and g: "\<And>f u. dict_get ?d f = Some u \<longleftrightarrow> (f \<in> set (uploaded_flags base) \<union> set (uploaded_flags head)) \<and>
      u = \<lparr>uc_flag = f, uc_base = int (count_list (uploaded_flags base) f), uc_head = int (count_list (uploaded_flags head) f)\<rparr>"
    by (auto simp: counts_as_def count_list_0_iff)
  have "map uc_flag (dict_values ?d) = dict_keys ?d"
    using wf g by (auto simp: dict_values_def dict_keys_def dict_get_iff)
  moreover have "set (dict_values ?d) = {u. \<exists>f. dict_get ?d f = Some u}"
    by (force simp: dict_values_def dict_get_iff [OF wf])
  ultimately show ?thesis
    using wf by (auto simp: count_uploads_def wf_dict_def dict_keys_def g)
qed


text \<open>
  Asking for the flags with fewer uploads replaces what is kept of the counts of all flags: a later
  question for all flags gets the selected ones only.
\<close>

definition flag_session :: "int \<Rightarrow> string \<Rightarrow> session" where
  "flag_session i flg = (plain_session i)\<lparr>ss_flags := Some [flg]\<rparr>"

lemma uploads_diff_replaces_counts:
  fixes s :: proxy
  defines "s \<equiv> ComparisonProxy (sample_comparison
    \<lparr>c_head := \<lparr>fc_commit = Some ''c2'', fc_report = Some (report_of [(0, flag_session 0 ''a'')] [])\<rparr>,
     c_base := \<lparr>fc_commit = Some ''c1'', fc_report = Some (report_of [(0, flag_session 0 ''a''), (1, flag_session 1 ''b'')] [])\<rparr>\<rparr>)"
  shows "map_res (map uc_flag) (fst (get_reports_uploaded_count_per_flag s)) = Inr [''a'', ''b'']"
    and "map_res (map uc_flag) (fst (get_reports_uploaded_count_per_flag (snd (get_reports_uploaded_count_per_flag_diff s)))) = Inr [''b'']"
  unfolding s_def by code_simp+

end
