(* ===== verification/Notifier.thy ===== *)
theory Notifier
  imports Comparison
begin

text \<open>
  Sending the status of a comparison (apps/worker/services/notification/notifiers/base.py,
  status/base.py, status/patch.py, status/changes.py, status/project.py, helpers/match.py,
  services/urls.py): the conditions under which a status is sent, the payload, the cache that
  suppresses repeated payloads, and the calls to the provider.

  The provider is an argument that answers every call, given the calls before it. So is the hash of
  cache keys. The cache is the state, with whether Redis answers as an argument. A head report is a
  \<open>ReadOnlyReport\<close>, which is always true in a condition.
\<close>

section \<open>Results of notifiers\<close>

datatype decoration =
  D_standard | D_upgrade | D_upload_limit | D_passing_empty_upload | D_failing_empty_upload | D_processing_upload

record notification_result =
  nr_attempted :: bool
  nr_successful :: "bool option"
  nr_explanation :: "string option"
  nr_data_sent :: json
  nr_data_received :: json
  nr_github_app :: json

definition NotificationResult :: notification_result where
  "NotificationResult =
     \<lparr>nr_attempted = False, nr_successful = Some False, nr_explanation = None, nr_data_sent = JNull, nr_data_received = JNull,
      nr_github_app = JNull\<rparr>"

definition merge_results :: "notification_result \<Rightarrow> notification_result \<Rightarrow> notification_result" where
  "merge_results a b =
     NotificationResult\<lparr>
       nr_attempted := nr_attempted a \<or> nr_attempted b,
       nr_successful := Some (nr_successful a = Some True \<or> nr_successful b = Some True),
       nr_explanation := (case nr_explanation a of Some (c # cs) \<Rightarrow> Some (c # cs) | _ \<Rightarrow> nr_explanation b),
       nr_data_sent := j_or (nr_data_sent a) (nr_data_sent b),
       nr_data_received := j_or (nr_data_received a) (nr_data_received b)\<rparr>"

definition not_attempted :: "string \<Rightarrow> notification_result" where
  "not_attempted explanation =
     NotificationResult\<lparr>nr_successful := None, nr_explanation := Some explanation\<rparr>"

definition attempt_failed :: "string \<Rightarrow> json \<Rightarrow> notification_result" where
  "attempt_failed explanation data =
     NotificationResult\<lparr>nr_attempted := True, nr_explanation := Some explanation, nr_data_sent := data\<rparr>"

definition is_empty_upload :: "decoration \<Rightarrow> bool" where
  "is_empty_upload d = (d = D_passing_empty_upload \<or> d = D_failing_empty_upload)"

section \<open>Addresses\<close>

record site_repository =
  si_service :: string
  si_username :: string
  si_name :: string

text \<open>A service without a short name is formatted as \<open>None\<close>.\<close>

definition service_short :: "string \<Rightarrow> string" where
  "service_short s =
     (case dict_get [(''github'', ''gh''), (''github_enterprise'', ''ghe''), (''bitbucket'', ''bb''), (''bitbucket_server'', ''bbs''),
        (''gitlab'', ''gl''), (''gitlab_enterprise'', ''gle'')] s of None \<Rightarrow> ''None'' | Some t \<Rightarrow> t)"

definition repository_url :: "string \<Rightarrow> site_repository \<Rightarrow> string" where
  "repository_url dashboard si = dashboard @ ''/'' @ service_short (si_service si) @ ''/'' @ si_username si @ ''/'' @ si_name si"

definition get_commit_url :: "string \<Rightarrow> site_repository \<Rightarrow> string \<Rightarrow> string" where
  "get_commit_url dashboard si sha = repository_url dashboard si @ ''/commit/'' @ sha"

definition get_pull_url :: "string \<Rightarrow> site_repository \<Rightarrow> int \<Rightarrow> string" where
  "get_pull_url dashboard si pullid = repository_url dashboard si @ ''/pull/'' @ int_str pullid"

definition get_dashboard_base_url :: "json \<Rightarrow> string \<Rightarrow> bool \<Rightarrow> string" where
  "get_dashboard_base_url configured base licensed =
     (case configured of
        JStr (c # cs) \<Rightarrow> c # cs
      | _ \<Rightarrow> if licensed then base else ''https://app.codecov.io'')"

section \<open>What a notifier sees\<close>

record pull_request =
  pu_id :: int
  pu_state :: string
  pu_head :: string
  pu_commentid :: json

record notify_comparison =
  nc_repoid :: int
  nc_site :: site_repository
  nc_head :: string
  nc_branch :: "string option"
  nc_base :: "string option"
  nc_pull :: "pull_request option"
  nc_in_provider :: bool
  nc_report :: "report option"
  nc_view :: comparison_view
  nc_filtered :: "string list \<Rightarrow> string list \<Rightarrow> comparison_view res"
  nc_statuses :: "ci_statuses res"
  nc_extra_shas :: "string list"

text \<open>The view of a comparison that the decisions of a status read, from the comparison itself.\<close>

definition comparison_view_of :: "provider \<Rightarrow> comparison \<Rightarrow> string \<Rightarrow> bool \<Rightarrow> comparison_view" where
  "comparison_view_of P c head pull =
     \<lparr>cv_head_commit = head, cv_base_commit = fc_commit (c_base c),
      cv_head = map_option (\<lambda>r. map_res Some (r_total r)) (fc_report (c_head c)),
      cv_base = map_option (\<lambda>r. map_res Some (r_total r)) (fc_report (c_base c)),
      cv_patch = plain_patch_totals P c, cv_applied = plain_patch_totals P c, cv_changes = plain_changes P c,
      cv_impacted = bind_res (plain_diff P c False) (pr_impacted P (fc_report (c_base c)) (fc_report (c_head c))),
      cv_pull = pull\<rparr>"

datatype status_context = C_patch | C_project | C_changes

definition context_name :: "status_context \<Rightarrow> string" where
  "context_name x = (case x of C_patch \<Rightarrow> ''patch'' | C_project \<Rightarrow> ''project'' | C_changes \<Rightarrow> ''changes'')"

record status_notifier =
  nt_context :: status_context
  nt_title :: string
  nt_settings :: settings
  nt_yaml :: json
  nt_decoration :: decoration
  nt_service :: "json option"

record status_call =
  sc_commit :: string
  sc_state :: json
  sc_title :: string
  sc_description :: string
  sc_url :: string
  sc_coverage :: rat

record check_output =
  ko_title :: string
  ko_summary :: string
  ko_annotations :: "json list"
  ko_text :: "string option"

text \<open>The calls to the git provider that notifiers make. Ids of check runs and comments are what the provider answered.\<close>

datatype provider_call =
    SetStatus status_call
  | CreateCheckRun string string
  | UpdateCheckRun json json check_output string
  | PostComment int string
  | EditComment int json string
  | DeleteComment int json

record payload =
  pl_result :: status_result
  pl_url :: string

type_synonym cache_key = "int \<times> string option \<times> string \<times> string \<times> string"

record notify_env =
  ne_rx :: regex_engine
  ne_hash :: "cache_key \<Rightarrow> string"
  ne_redis :: bool
  ne_dashboard :: string
  ne_answer :: "provider_call list \<Rightarrow> provider_call \<Rightarrow> json res"

record notify_world =
  nw_cache :: "(string, json) dict"
  nw_calls :: "provider_call list"

text \<open>A call is made whether or not it succeeds.\<close>

definition call_provider :: "notify_env \<Rightarrow> provider_call \<Rightarrow> (notify_world, json) action" where
  "call_provider E call w = (ne_answer E (nw_calls w) call, w\<lparr>nw_calls := nw_calls w @ [call]\<rparr>)"

section \<open>Conditions\<close>

text \<open>helpers/match.py; a missing branch cannot be matched with a pattern.\<close>

definition worker_match :: "regex_engine \<Rightarrow> string list option \<Rightarrow> string option \<Rightarrow> bool res" where
  "worker_match rx patterns branch =
     (case patterns of
        None \<Rightarrow> Inr True
      | Some ps \<Rightarrow>
          (case branch of
             None \<Rightarrow> if negatives ps = [] \<and> positives ps = [] then Inr True else Inl TypeError
           | Some b \<Rightarrow>
               if b \<in> set ps then Inr True
               else if \<exists>p \<in> set (negatives ps). rx p b then Inr False
               else if positives ps \<noteq> [] then Inr (\<exists>p \<in> set (positives ps). rx p b)
               else Inr True))"

definition opt_str_list :: "json \<Rightarrow> string list option res" where
  "opt_str_list v = (if v = JNull then Inr None else map_res Some (bind_res (iter_list v) (traverse str_of)))"

definition can_we_set_this_status :: "regex_engine \<Rightarrow> status_notifier \<Rightarrow> notify_comparison \<Rightarrow> bool res" where
  "can_we_set_this_status rx n c =
     (if (j_truthy (setting (nt_settings n) ''only_pulls'' JNull) \<or> setting (nt_settings n) ''base'' JNull = JStr ''pr'') \<and> nc_pull c = None
      then Inr False
      else bind_res (opt_str_list (setting (nt_settings n) ''branches'' JNull)) (\<lambda>ps. worker_match rx ps (nc_branch c)))"

definition determine_status_check_behavior_to_apply :: "status_notifier \<Rightarrow> string \<Rightarrow> json" where
  "determine_status_check_behavior_to_apply n field =
     (if setting (nt_settings n) field JNull \<noteq> JNull then setting (nt_settings n) field JNull
      else read_yaml_field (nt_yaml n) [''coverage'', ''status'', ''default_rules'', field] JNull)"

definition notifier_flags :: "status_notifier \<Rightarrow> string list res" where
  "notifier_flags n = str_list (setting (nt_settings n) ''flags'' JNull)"

definition flag_coverage_was_uploaded :: "status_notifier \<Rightarrow> notify_comparison \<Rightarrow> bool res" where
  "flag_coverage_was_uploaded n c =
     bind_res (notifier_flags n) (\<lambda>flags.
       if flags = [] then Inr True
       else case nc_report c of
         None \<Rightarrow> Inl AttributeError
       | Some r \<Rightarrow> Inr (\<exists>flg \<in> set flags. flg \<in> r_get_uploaded_flags r))"

definition get_notifier_filters :: "status_notifier \<Rightarrow> (string list \<times> string list) res" where
  "get_notifier_filters n =
     bind_res (notifier_flags n) (\<lambda>flags.
     bind_res (get_paths_from_flags (nt_yaml n) (Some flags)) (\<lambda>from_flags.
     bind_res (str_list (setting (nt_settings n) ''paths'' JNull)) (\<lambda>paths.
       Inr (flags, remdups (from_flags @ paths)))))"

definition sessions_with_flag :: "report \<Rightarrow> string \<Rightarrow> nat" where
  "sessions_with_flag r flg = length (filter (\<lambda>s. flg \<in> set (flags_or_nil s)) (dict_values (r_sessions r)))"

definition enough_builds :: "json \<Rightarrow> report option \<Rightarrow> string \<Rightarrow> bool res" where
  "enough_builds yaml rep flg =
     bind_res (get_flag_configuration yaml flg) (\<lambda>conf.
       case (conf, rep) of
         (Some cf, Some r) \<Rightarrow>
           if j_truthy cf \<and> r_sessions r \<noteq> [] then
             bind_res (get_or cf ''after_n_builds'' (JInt 0)) (\<lambda>needed.
               case needed of JInt k \<Rightarrow> Inr (k \<le> int (sessions_with_flag r flg)) | JStr _ \<Rightarrow> Inl TypeError | _ \<Rightarrow> Inl NotModelled)
           else Inr True
       | _ \<Rightarrow> Inr True)"

fun all_enough_builds :: "json \<Rightarrow> report option \<Rightarrow> string list \<Rightarrow> bool res" where
  "all_enough_builds yaml rep [] = Inr True"
| "all_enough_builds yaml rep (flg # flags) =
     bind_res (enough_builds yaml rep flg) (\<lambda>ok. if ok then all_enough_builds yaml rep flags else Inr False)"

definition required_builds :: "status_notifier \<Rightarrow> notify_comparison \<Rightarrow> bool res" where
  "required_builds n c = bind_res (notifier_flags n) (all_enough_builds (nt_yaml n) (nc_report c))"

section \<open>Payloads\<close>

definition get_status_check_for_empty_upload :: "decoration \<Rightarrow> (json \<times> string) option" where
  "get_status_check_for_empty_upload d =
     (if d = D_passing_empty_upload then Some (success, ''Non-testable files changed.'')
      else if d = D_failing_empty_upload then Some (failure, ''Testable files changed'')
      else None)"

definition status_of_context :: "status_notifier \<Rightarrow> string \<Rightarrow> comparison_view \<Rightarrow> status_result res" where
  "status_of_context n display_name cv =
     (case nt_context n of
        C_patch \<Rightarrow> get_patch_status (nt_settings n) (nt_yaml n) display_name cv
      | C_project \<Rightarrow> get_project_status (nt_settings n) (nt_yaml n) display_name cv
      | C_changes \<Rightarrow> get_changes_status (nt_settings n) display_name cv)"

definition upgrade_message :: string where
  "upgrade_message = ''Please activate this user to display a detailed status check''"

definition build_payload :: "status_notifier \<Rightarrow> comparison_view \<Rightarrow> status_result res" where
  "build_payload n cv =
     (case get_status_check_for_empty_upload (nt_decoration n) of
        Some (st, message) \<Rightarrow> Inr \<lparr>sr_state = st, sr_message = message, sr_helper = []\<rparr>
      | None \<Rightarrow>
          map_res (\<lambda>r. if nt_decoration n = D_upgrade then r\<lparr>sr_message := upgrade_message\<rparr> else r)
            (status_of_context n ''status'' cv))"

definition filtered_view :: "status_notifier \<Rightarrow> notify_comparison \<Rightarrow> comparison_view res" where
  "filtered_view n c =
     bind_res (get_notifier_filters n) (\<lambda>(flags, patterns).
       if flags = [] \<and> patterns = [] then Inr (nc_view c) else nc_filtered c flags patterns)"

text \<open>
  The payload of the status, and whether the checks for missing flag coverage let it pass
  (\<open>Excluded\<close>: no status at all). Checks share the choice of the comparison with statuses.
\<close>

datatype 'p choice = Excluded | Chosen 'p | AutoPassed 'p

definition choose_payload :: "status_notifier \<Rightarrow> (comparison_view \<Rightarrow> 'p res) \<Rightarrow> notify_comparison \<Rightarrow> 'p choice res" where
  "choose_payload n build c =
     (let behavior = determine_status_check_behavior_to_apply n ''flag_coverage_not_uploaded_behavior''
      in if nc_report c = None then map_res Chosen (build (nc_view c))
         else
           bind_res (if behavior = JStr ''exclude'' \<or> behavior = JStr ''pass'' then flag_coverage_was_uploaded n c else Inr True) (\<lambda>uploaded.
             if behavior = JStr ''exclude'' \<and> \<not> uploaded then Inr Excluded
             else map_res (if \<not> uploaded then AutoPassed else Chosen) (bind_res (filtered_view n c) build)))"

definition auto_passed_text :: string where
  "auto_passed_text = '' [Auto passed due to carriedforward or missing coverage]''"

definition target_url :: "notify_env \<Rightarrow> notify_comparison \<Rightarrow> string" where
  "target_url E c =
     (case nc_pull c of
        Some p \<Rightarrow> get_pull_url (ne_dashboard E) (nc_site c) (pu_id p)
      | None \<Rightarrow> get_commit_url (ne_dashboard E) (nc_site c) (nc_head c))"

definition finish_payload :: "notify_env \<Rightarrow> notify_comparison \<Rightarrow> status_result choice \<Rightarrow> payload option" where
  "finish_payload E c x =
     (case x of
        Excluded \<Rightarrow> None
      | Chosen r \<Rightarrow> Some \<lparr>pl_result = r, pl_url = target_url E c\<rparr>
      | AutoPassed r \<Rightarrow>
          Some \<lparr>pl_result = r\<lparr>sr_state := success, sr_message := sr_message r @ auto_passed_text\<rparr>, pl_url = target_url E c\<rparr>)"

definition helper_json :: "(string, string) dict \<Rightarrow> json" where
  "helper_json h = JObj (map (\<lambda>(k, v). (k, JStr v)) h)"

definition payload_json :: "payload \<Rightarrow> json" where
  "payload_json p =
     JObj [(''state'', sr_state (pl_result p)), (''message'', JStr (sr_message (pl_result p))),
           (''included_helper_text'', helper_json (sr_helper (pl_result p))), (''url'', JStr (pl_url p))]"

section \<open>Sending\<close>

definition status_already_exists :: "notify_comparison \<Rightarrow> string \<Rightarrow> json \<Rightarrow> string \<Rightarrow> bool res" where
  "status_already_exists c title st description =
     map_res (\<lambda>ss. case status_get ss title of
         None \<Rightarrow> False
       | Some s \<Rightarrow> JStr (cs_state s) = st \<and> cs_description s = Some description) (nc_statuses c)"

definition get_status_external_name :: "status_notifier \<Rightarrow> string" where
  "get_status_external_name n =
     ''codecov/'' @ context_name (nt_context n) @ (if nt_title n \<noteq> ''default'' then ''/'' @ nt_title n else [])"

definition get_github_app_used :: "json option \<Rightarrow> json res" where
  "get_github_app_used service =
     (case service of
        None \<Rightarrow> Inr JNull
      | Some data \<Rightarrow>
          bind_res (get_or data ''installation'' JNull) (\<lambda>i. if j_truthy i then get_or i ''id'' JNull else Inr JNull))"

definition head_coverage :: "report option \<Rightarrow> rat res" where
  "head_coverage rep =
     (case rep of
        None \<Rightarrow> Inr 0
      | Some r \<Rightarrow>
          bind_res (r_total r) (\<lambda>t.
            if t_coverage t \<in> {VNone, VStr [], VInt 0, VFloat 0} then Inr 0 else float_field (t_coverage t)))"

definition sent_state :: "status_notifier \<Rightarrow> status_result \<Rightarrow> json" where
  "sent_state n r = (if j_truthy (setting (nt_settings n) ''informational'' JNull) then success else sr_state r)"

definition sent_json :: "status_notifier \<Rightarrow> status_result \<Rightarrow> json" where
  "sent_json n r =
     JObj ([(''title'', JStr (get_status_external_name n)), (''state'', sent_state n r), (''message'', JStr (sr_message r))]
           @ (if sr_helper r = [] then [] else [(''included_helper_text'', helper_json (sr_helper r))]))"

definition status_call_of :: "status_notifier \<Rightarrow> payload \<Rightarrow> rat \<Rightarrow> string \<Rightarrow> status_call" where
  "status_call_of n p coverage sha =
     \<lparr>sc_commit = sha, sc_state = sent_state n (pl_result p), sc_title = get_status_external_name n,
      sc_description = sr_message (pl_result p), sc_url = pl_url p, sc_coverage = coverage\<rparr>"

fun send_all :: "notify_env \<Rightarrow> provider_call list \<Rightarrow> (notify_world, json list) action" where
  "send_all E [] w = (Inr [], w)"
| "send_all E (call # calls) w =
     and_then (call_provider E call) (\<lambda>r. and_then (send_all E calls) (\<lambda>rs. yield (r # rs))) w"

definition all_shas_to_notify :: "notify_comparison \<Rightarrow> string list" where
  "all_shas_to_notify c = nc_head c # nc_extra_shas c"

definition sent_result :: "status_notifier \<Rightarrow> status_result \<Rightarrow> json list \<Rightarrow> notification_result res" where
  "sent_result n r results =
     (case results of
        [] \<Rightarrow> Inl IndexError
      | first # _ \<Rightarrow>
          bind_res (get_or first ''id'' (JStr ''NO_ID'')) (\<lambda>i.
          bind_res (get_github_app_used (nt_service n)) (\<lambda>app.
            Inr (NotificationResult\<lparr>nr_attempted := True, nr_successful := Some True, nr_data_sent := sent_json n r,
              nr_data_received := JObj [(''id'', i)], nr_github_app := app\<rparr>))))"

definition send_notification :: "notify_env \<Rightarrow> status_notifier \<Rightarrow> notify_comparison \<Rightarrow> payload \<Rightarrow> (notify_world, notification_result) action" where
  "send_notification E n c p w =
     (let r = pl_result p; title = get_status_external_name n
      in case status_already_exists c title (sr_state r) (sr_message r) of
           Inl e \<Rightarrow> (Inl e, w)
         | Inr True \<Rightarrow>
             (Inr ((not_attempted ''already_done'')\<lparr>nr_data_sent :=
                JObj [(''title'', JStr title), (''state'', sr_state r), (''message'', JStr (sr_message r))]\<rparr>), w)
         | Inr False \<Rightarrow>
             (case head_coverage (nc_report c) of
                Inl e \<Rightarrow> (Inl e, w)
              | Inr coverage \<Rightarrow>
                  (case send_all E (map (SetStatus \<circ> status_call_of n p coverage) (all_shas_to_notify c)) w of
                     (Inl e, w') \<Rightarrow>
                       (if is_client_error e then Inr (attempt_failed ''no_write_permission'' (sent_json n r)) else Inl e, w')
                   | (Inr results, w') \<Rightarrow> (sent_result n r results, w'))))"

definition cache_key_of :: "notify_env \<Rightarrow> status_notifier \<Rightarrow> string \<Rightarrow> notify_comparison \<Rightarrow> string" where
  "cache_key_of E n name c = ne_hash E (nc_repoid c, nc_base c, nc_head c, name, nt_title n)"

definition cache_get :: "notify_env \<Rightarrow> string \<Rightarrow> notify_world \<Rightarrow> json option" where
  "cache_get E k w = (if ne_redis E then dict_get (nw_cache w) k else None)"

definition cache_set :: "notify_env \<Rightarrow> string \<Rightarrow> json \<Rightarrow> notify_world \<Rightarrow> notify_world" where
  "cache_set E k p w = (if ne_redis E then w\<lparr>nw_cache := dict_set (nw_cache w) k p\<rparr> else w)"

definition status_name :: "status_notifier \<Rightarrow> string" where
  "status_name n = ''status-'' @ context_name (nt_context n)"

text \<open>Statuses and checks share the cache; \<open>send\<close> is the \<open>send_notification\<close> of the class.\<close>

definition maybe_send_notification ::
  "notify_env \<Rightarrow> status_notifier \<Rightarrow> string \<Rightarrow> notify_comparison \<Rightarrow> json \<Rightarrow> (notify_world, notification_result) action \<Rightarrow>
   (notify_world, notification_result) action" where
  "maybe_send_notification E n name c data send w =
     (let k = cache_key_of E n name c
      in if cache_get E k w \<noteq> Some data then send (cache_set E k data w)
         else (Inr (not_attempted ''payload_unchanged''), w))"

text \<open>The handlers of \<open>TorngitClientError\<close> and \<open>TorngitError\<close> in \<open>notify\<close>.\<close>

definition provider_error_result :: "json \<Rightarrow> py_error \<Rightarrow> notification_result res" where
  "provider_error_result data e =
     (if is_client_error e then Inr (attempt_failed ''client_side_error_provider'' data)
      else if is_torngit_error e then Inr (attempt_failed ''server_side_error_provider'' data)
      else Inl e)"

definition caught :: "json \<Rightarrow> notification_result res \<times> 'w \<Rightarrow> notification_result res \<times> 'w" where
  "caught data m = (case m of (Inl e, w) \<Rightarrow> (provider_error_result data e, w) | r \<Rightarrow> r)"

definition status_notify :: "notify_env \<Rightarrow> status_notifier \<Rightarrow> notify_comparison \<Rightarrow> (notify_world, notification_result) action" where
  "status_notify E n c =
     and_then (lift_res (can_we_set_this_status (ne_rx E) n c)) (\<lambda>fits.
       if \<not> fits then yield (not_attempted ''not_fit_criteria'')
       else and_then (lift_res (required_builds n c)) (\<lambda>enough.
         if \<not> enough then yield (not_attempted ''need_more_builds'')
         else (\<lambda>w.
           case choose_payload n (build_payload n) c of
             Inl e \<Rightarrow> (provider_error_result JNull e, w)
           | Inr x \<Rightarrow>
               (case finish_payload E c x of
                  None \<Rightarrow> (Inr (not_attempted ''exclude_flag_coverage_not_uploaded_checks''), w)
                | Some p \<Rightarrow> caught (payload_json p) (maybe_send_notification E n (status_name n) c (payload_json p) (send_notification E n c p) w)))))"


section \<open>The contract of a notifier\<close>

text \<open>
  What the notification service and the records of notifications rely on: calls are only ever added,
  and a notifier that says it did not attempt anything made none.
\<close>

locale call_log =
  fixes run :: "(notify_world, notification_result) action"
  assumes calls_added: "run w = (r, w') \<Longrightarrow> \<exists>calls. nw_calls w' = nw_calls w @ calls"

locale notifier_contract = call_log +
  assumes no_attempt_no_calls: "run w = (Inr v, w') \<Longrightarrow> \<not> nr_attempted v \<Longrightarrow> nw_calls w' = nw_calls w"

named_theorems action_simps \<open>unfolding rules for computations with state\<close>

lemma and_then_cases [action_simps]:
  "m w = (Inl e, w') \<Longrightarrow> and_then m f w = (Inl e, w')"
  "m w = (Inr a, w') \<Longrightarrow> and_then m f w = f a w'"
  by (simp_all add: and_then_def)

lemma and_then_lift [simp, action_simps]:
  "and_then (lift_res (Inl e)) f w = (Inl e, w)"
  "and_then (lift_res (Inr a)) f w = f a w"
  by (simp_all add: and_then_def lift_res_def)

lemma and_then_eqE:
  assumes "and_then m f w = (r, w2)"
  obtains (raised) e where "m w = (Inl e, w2)" "r = Inl e"
    | (went_on) a w1 where "m w = (Inr a, w1)" "f a w1 = (r, w2)"
  using assms by (cases "m w") (auto simp: and_then_def split: sum.splits)

lemma yield_eq [simp, action_simps]: "yield a w = (r, w') \<longleftrightarrow> r = Inr a \<and> w' = w"
  by (auto simp: yield_def)

lemma not_attempted_sel [simp]:
  "\<not> nr_attempted (not_attempted x)" "nr_successful (not_attempted x) = None" "nr_explanation (not_attempted x) = Some x"
  "nr_data_sent (not_attempted x) = JNull"
  by (simp_all add: not_attempted_def NotificationResult_def)

lemma attempt_failed_sel [simp]:
  "nr_attempted (attempt_failed x d)" "nr_successful (attempt_failed x d) = Some False" "nr_explanation (attempt_failed x d) = Some x"
  "nr_data_sent (attempt_failed x d) = d"
  by (simp_all add: attempt_failed_def NotificationResult_def)

lemma cache_set_calls [simp]: "nw_calls (cache_set E k v w) = nw_calls w"
  by (simp add: cache_set_def)

lemma cache_get_set [simp]: "cache_get E k (cache_set E k' v w) = (if ne_redis E \<and> k = k' then Some v else cache_get E k w)"
  by (simp add: cache_get_def cache_set_def)

text \<open>Calls are made in their order, until one fails.\<close>

lemma send_all_ConsE:
  assumes "send_all E (call # calls) w = (r, w')"
  obtains (raised) e where "r = Inl e" "w' = w\<lparr>nw_calls := nw_calls w @ [call]\<rparr>"
    | (answered) a r2 where "send_all E calls (w\<lparr>nw_calls := nw_calls w @ [call]\<rparr>) = (r2, w')" "r = map_res (\<lambda>rs. a # rs) r2"
  using assms by (auto simp: and_then_def call_provider_def yield_def map_res_def split: sum.splits prod.splits)

lemma send_all_result:
  assumes "send_all E calls w = (r, w')"
  shows "nw_cache w' = nw_cache w \<and>
    (\<exists>k \<le> length calls. nw_calls w' = nw_calls w @ take k calls \<and> (is_ok r \<longrightarrow> k = length calls) \<and> (calls \<noteq> [] \<longrightarrow> 0 < k))"
  using assms
proof (induction calls arbitrary: w r)
  case (Cons call calls)
  from Cons.prems show ?case
  proof (cases rule: send_all_ConsE)
    case (raised e)
    then show ?thesis by (auto simp: is_ok_def intro!: exI [where x = 1])
  next
    case (answered a r2)
    from Cons.IH [OF answered(1)] obtain k where k: "nw_cache w' = nw_cache w" "k \<le> length calls"
      "nw_calls w' = nw_calls w @ call # take k calls" "is_ok r2 \<longrightarrow> k = length calls" by auto
    moreover have "is_ok r = is_ok r2" using answered(2) by (cases r2) (simp_all add: is_ok_def)
    ultimately show ?thesis by (auto intro!: exI [where x = "Suc k"])
  qed
qed simp

lemma send_all_length: "send_all E calls w = (Inr rs, w') \<Longrightarrow> length rs = length calls"
proof (induction calls arbitrary: w rs)
  case (Cons call calls)
  from Cons.prems show ?case
  proof (cases rule: send_all_ConsE)
    case (answered a r2)
    with Cons.IH show ?thesis by (cases r2) auto
  qed simp
qed simp

definition notifies :: "status_notifier \<Rightarrow> payload \<Rightarrow> notify_comparison \<Rightarrow> provider_call list \<Rightarrow> bool" where
  "notifies n p c calls =
     (\<exists>coverage k. k \<le> length (all_shas_to_notify c) \<and>
        calls = take k (map (SetStatus \<circ> status_call_of n p coverage) (all_shas_to_notify c)))"

lemma notifies_Nil [simp]: "notifies n p c []"
  by (auto simp: notifies_def intro!: exI [where x = 0])

lemma send_notification_result:
  assumes "send_notification E n c p w = (r, w')"
  shows "nw_cache w' = nw_cache w" "\<exists>calls. nw_calls w' = nw_calls w @ calls \<and> notifies n p c calls"
    "r = Inr v \<Longrightarrow> \<not> nr_attempted v \<Longrightarrow> nw_calls w' = nw_calls w"
    "r = Inr v \<Longrightarrow> nr_successful v = Some True \<Longrightarrow>
       \<exists>coverage. nw_calls w' = nw_calls w @ map (SetStatus \<circ> status_call_of n p coverage) (all_shas_to_notify c)"
proof -
  consider (early) x where "(r, w') = (x, w)" "\<And>v. x = Inr v \<Longrightarrow> \<not> nr_attempted v \<and> nr_successful v = None"
    | (sent) coverage r1 where "send_all E (map (SetStatus \<circ> status_call_of n p coverage) (all_shas_to_notify c)) w = (r1, w')"
        "case r1 of Inl e \<Rightarrow> r = (if is_client_error e then Inr (attempt_failed ''no_write_permission'' (sent_json n (pl_result p))) else Inl e)
           | Inr rs \<Rightarrow> r = sent_result n (pl_result p) rs"
    using assms unfolding send_notification_def Let_def
    by (auto split: sum.splits prod.splits bool.splits if_splits)
  note cases = this
  have s: "nr_attempted v" if "sent_result n q rs = Inr v" for q rs v
    using that by (auto simp: sent_result_def NotificationResult_def split: list.splits)
  show "nw_cache w' = nw_cache w" by (cases rule: cases) (auto dest: send_all_result)
  show "\<exists>calls. nw_calls w' = nw_calls w @ calls \<and> notifies n p c calls"
  proof (cases rule: cases)
    case (sent coverage r1)
    from send_all_result [OF sent(1)] show ?thesis unfolding notifies_def by auto
  qed (auto intro!: exI [where x = "[]"])
  show "nw_calls w' = nw_calls w" if "r = Inr v" "\<not> nr_attempted v"
    using that s by (cases rule: cases) (auto split: sum.splits if_splits)
  show "\<exists>coverage. nw_calls w' = nw_calls w @ map (SetStatus \<circ> status_call_of n p coverage) (all_shas_to_notify c)"
    if "r = Inr v" "nr_successful v = Some True"
  proof (cases rule: cases)
    case (early x)
    then show ?thesis using that by auto
  next
    case (sent coverage r1)
    then have "is_ok r1" using that by (cases r1) (auto simp: is_ok_def split: if_splits)
    with send_all_result [OF sent(1)] show ?thesis by auto
  qed
qed

section \<open>What a status notifier sends\<close>

definition payload_of :: "notify_env \<Rightarrow> status_notifier \<Rightarrow> notify_comparison \<Rightarrow> payload option" where
  "payload_of E n c =
     (if can_we_set_this_status (ne_rx E) n c = Inr True \<and> required_builds n c = Inr True
      then (case choose_payload n (build_payload n) c of Inr x \<Rightarrow> finish_payload E c x | Inl _ \<Rightarrow> None)
      else None)"

lemma status_notify_payload:
  assumes "payload_of E n c = Some p"
  shows "status_notify E n c w =
    caught (payload_json p) (maybe_send_notification E n (status_name n) c (payload_json p) (send_notification E n c p) w)"
  using assms by (auto simp: payload_of_def status_notify_def split: if_splits sum.splits)

lemma provider_error_result_Inr:
  "provider_error_result d e = Inr v \<Longrightarrow> nr_attempted v \<and> nr_successful v = Some False \<and> nr_data_sent v = d"
  by (auto simp: provider_error_result_def split: if_splits)

lemma status_notify_no_payload:
  assumes "payload_of E n c = None"
  obtains r where "\<And>w. status_notify E n c w = (r, w)" "\<And>v. r = Inr v \<Longrightarrow> nr_successful v \<noteq> Some True"
proof -
  consider (cannot) e where "can_we_set_this_status (ne_rx E) n c = Inl e" | (unfit) "can_we_set_this_status (ne_rx E) n c = Inr False"
    | (builds) e where "can_we_set_this_status (ne_rx E) n c = Inr True" "required_builds n c = Inl e"
    | (few) "can_we_set_this_status (ne_rx E) n c = Inr True" "required_builds n c = Inr False"
    | (fits) "can_we_set_this_status (ne_rx E) n c = Inr True" "required_builds n c = Inr True"
    by (metis sum.exhaust)
  then show thesis
  proof cases
    case fits
    show thesis
    proof (cases "choose_payload n (build_payload n) c")
      case (Inl e)
      then show thesis using fits
        by (intro that [of "provider_error_result JNull e"]) (auto simp: status_notify_def dest: provider_error_result_Inr)
    next
      case (Inr x)
      with assms fits have "finish_payload E c x = None" by (simp add: payload_of_def)
      with Inr fits show thesis
        by (intro that [of "Inr (not_attempted ''exclude_flag_coverage_not_uploaded_checks'')"]) (auto simp: status_notify_def)
    qed
  qed (intro that, (force simp: status_notify_def yield_def)+)+
qed

lemma caught_eqE:
  assumes "caught d m = (r, w')"
  obtains (ok) v where "m = (Inr v, w')" "r = Inr v" | (error) e where "m = (Inl e, w')" "r = provider_error_result d e"
  using assms by (cases m) (auto simp: caught_def split: sum.splits)

lemma maybe_sendE:
  assumes "maybe_send_notification E n name c d send w = (r, w')"
  obtains (unchanged) "cache_get E (cache_key_of E n name c) w = Some d" "r = Inr (not_attempted ''payload_unchanged'')" "w' = w"
    | (changed) "cache_get E (cache_key_of E n name c) w \<noteq> Some d" "send (cache_set E (cache_key_of E n name c) d w) = (r, w')"
  using assms by (auto simp: maybe_send_notification_def Let_def split: if_splits)

lemma status_notify_sends:
  assumes "payload_of E n c = Some p" "status_notify E n c w = (r, w')"
  shows "\<exists>calls. nw_calls w' = nw_calls w @ calls \<and> notifies n p c calls"
    "r = Inr v \<Longrightarrow> \<not> nr_attempted v \<Longrightarrow> nw_calls w' = nw_calls w"
    "r = Inr v \<Longrightarrow> nr_successful v = Some True \<Longrightarrow>
       \<exists>coverage. nw_calls w' = nw_calls w @ map (SetStatus \<circ> status_call_of n p coverage) (all_shas_to_notify c)"
    "ne_redis E \<Longrightarrow> cache_get E (cache_key_of E n (status_name n) c) w' = Some (payload_json p)"
proof -
  from assms(2) obtain q where m: "maybe_send_notification E n (status_name n) c (payload_json p) (send_notification E n c p) w = (q, w')"
    and q: "case q of Inl e \<Rightarrow> r = provider_error_result (payload_json p) e | Inr u \<Rightarrow> r = Inr u"
    unfolding status_notify_payload [OF assms(1)] by (cases rule: caught_eqE) auto
  have 1: "\<exists>calls. nw_calls w' = nw_calls w @ calls \<and> notifies n p c calls"
    using m
  proof (cases rule: maybe_sendE)
    case unchanged
    then show ?thesis by (auto intro!: exI [where x = "[]"])
  next
    case changed
    from send_notification_result(2) [OF changed(2)] show ?thesis by simp
  qed
  then show "\<exists>calls. nw_calls w' = nw_calls w @ calls \<and> notifies n p c calls" .
  show "nw_calls w' = nw_calls w" if v: "r = Inr v" "\<not> nr_attempted v"
  proof -
    have qv: "q = Inr v" using q v by (cases q) (auto dest: provider_error_result_Inr [OF sym])
    show ?thesis using m
    proof (cases rule: maybe_sendE)
      case changed
      from send_notification_result(3) [OF changed(2) qv v(2)] show ?thesis by simp
    qed simp
  qed
  show "\<exists>coverage. nw_calls w' = nw_calls w @ map (SetStatus \<circ> status_call_of n p coverage) (all_shas_to_notify c)"
    if v: "r = Inr v" "nr_successful v = Some True"
  proof -
    have qv: "q = Inr v" using q v by (cases q) (auto dest: provider_error_result_Inr [OF sym])
    show ?thesis using m
    proof (cases rule: maybe_sendE)
      case unchanged
      then show ?thesis using qv v by auto
    next
      case changed
      from send_notification_result(4) [OF changed(2) qv v(2)] show ?thesis by simp
    qed
  qed
  show "cache_get E (cache_key_of E n (status_name n) c) w' = Some (payload_json p)" if "ne_redis E"
    using m
  proof (cases rule: maybe_sendE)
    case changed
    from send_notification_result(1) [OF changed(2)] that show ?thesis by (simp add: cache_get_def cache_set_def)
  qed simp
qed

interpretation stn: notifier_contract "status_notify E n c" for E n c
proof
  fix w w' r
  assume run: "status_notify E n c w = (r, w')"
  show "\<exists>calls. nw_calls w' = nw_calls w @ calls"
  proof (cases "payload_of E n c")
    case None
    then obtain r0 where "\<And>w. status_notify E n c w = (r0, w)" by (rule status_notify_no_payload) blast
    with run show ?thesis by simp
  next
    case (Some p)
    from status_notify_sends(1) [OF Some run] show ?thesis by blast
  qed
next
  fix w w' v
  assume run: "status_notify E n c w = (Inr v, w')" "\<not> nr_attempted v"
  show "nw_calls w' = nw_calls w"
  proof (cases "payload_of E n c")
    case None
    then obtain r0 where "\<And>w. status_notify E n c w = (r0, w)" by (rule status_notify_no_payload) blast
    with run show ?thesis by simp
  next
    case (Some p)
    from status_notify_sends(2) [OF Some run(1) refl run(2)] show ?thesis .
  qed
qed

lemma status_notify_success:
  assumes "status_notify E n c w = (Inr v, w')" "nr_successful v = Some True"
  obtains p coverage where "payload_of E n c = Some p"
    "nw_calls w' = nw_calls w @ map (SetStatus \<circ> status_call_of n p coverage) (nc_head c # nc_extra_shas c)"
proof (cases "payload_of E n c")
  case None
  then obtain r where "\<And>w. status_notify E n c w = (r, w)" "\<And>v. r = Inr v \<Longrightarrow> nr_successful v \<noteq> Some True"
    by (rule status_notify_no_payload) blast
  with assms show thesis by simp
next
  case (Some p)
  from status_notify_sends(3) [OF Some assms(1) refl assms(2)] that [OF Some] show thesis
    by (auto simp: all_shas_to_notify_def)
qed

lemma payload_url: "payload_of E n c = Some p \<Longrightarrow> pl_url p = target_url E c"
  by (auto simp: payload_of_def finish_payload_def split: if_splits sum.splits choice.splits)

text \<open>
  C28. A status notifier that reports success has set exactly one status on the head commit and on every extra commit, in
  this order and nothing else, all with the name of the status, the message of the payload, and the state of
  the payload or, for an informational status, success.
\<close>

theorem status_reported:
  assumes "status_notify E n c w = (Inr v, w')" "nr_successful v = Some True"
  shows "\<exists>p coverage. payload_of E n c = Some p \<and>
    nw_calls w' = nw_calls w @
      map (\<lambda>sha. SetStatus \<lparr>sc_commit = sha,
          sc_state = (if j_truthy (setting (nt_settings n) ''informational'' JNull) then success else sr_state (pl_result p)),
          sc_title = get_status_external_name n, sc_description = sr_message (pl_result p), sc_url = target_url E c,
          sc_coverage = coverage\<rparr>) (nc_head c # nc_extra_shas c)"
proof -
  from assms obtain p coverage where p: "payload_of E n c = Some p"
    "nw_calls w' = nw_calls w @ map (SetStatus \<circ> status_call_of n p coverage) (nc_head c # nc_extra_shas c)"
    by (rule status_notify_success)
  then show ?thesis by (auto simp: payload_url status_call_of_def sent_state_def comp_def cong: map_cong)
qed

text \<open>
  While the cache keeps its entry, a status is not sent a second time for an unchanged payload; this holds whatever became of the
  first attempt, so that a status that could not be set is not tried again either.
\<close>

theorem unchanged_status_not_sent:
  assumes "payload_of E n c \<noteq> None" "ne_redis E" "status_notify E n c w = (r, w')"
  shows "status_notify E n c w' = (Inr (not_attempted ''payload_unchanged''), w')"
proof -
  from assms(1) obtain p where p: "payload_of E n c = Some p" by blast
  from status_notify_sends(4) [OF p assms(3,2)] show ?thesis
    unfolding status_notify_payload [OF p] by (simp add: maybe_send_notification_def caught_def)
qed

definition sample_notifier :: status_notifier where
  "sample_notifier =
     \<lparr>nt_context = C_patch, nt_title = ''default'', nt_settings = [(''informational'', JBool True)], nt_yaml = JObj [],
      nt_decoration = D_failing_empty_upload, nt_service = None\<rparr>"

definition sample_env :: "json res \<Rightarrow> notify_env" where
  "sample_env answer =
     \<lparr>ne_rx = (\<lambda>_ _. False), ne_hash = (\<lambda>_. ''key''), ne_redis = True, ne_dashboard = ''https://app.codecov.io'',
      ne_answer = (\<lambda>_ _. answer)\<rparr>"

definition sample_notify_comparison :: notify_comparison where
  "sample_notify_comparison =
     \<lparr>nc_repoid = 1, nc_site = \<lparr>si_service = ''gitlab'', si_username = ''org'', si_name = ''repo''\<rparr>, nc_head = ''c2'', nc_branch = Some ''main'',
      nc_base = Some ''c1'', nc_pull = None, nc_in_provider = False, nc_report = None, nc_view = sample_view,
      nc_filtered = (\<lambda>_ _. Inr sample_view), nc_statuses = Inr (Status_init []), nc_extra_shas = [''m1'']\<rparr>"

definition empty_world :: notify_world where
  "empty_world = \<lparr>nw_cache = [], nw_calls = []\<rparr>"

theorem status_reported_witness:
  "\<exists>v w'. status_notify (sample_env (Inr (JObj [(''id'', JInt 7)]))) sample_notifier sample_notify_comparison empty_world = (Inr v, w') \<and>
     nr_successful v = Some True \<and> map (\<lambda>x. case x of SetStatus s \<Rightarrow> (sc_commit s, sc_state s) | _ \<Rightarrow> ([], JNull)) (nw_calls w')
       = [(''c2'', success), (''m1'', success)]"
proof -
  let ?E = "sample_env (Inr (JObj [(''id'', JInt 7)]))"
  have ok: "(case status_notify ?E sample_notifier sample_notify_comparison empty_world of
      (Inr v, w') \<Rightarrow> nr_successful v = Some True | _ \<Rightarrow> False)" by code_simp
  then obtain v w' where run: "status_notify ?E sample_notifier sample_notify_comparison empty_world = (Inr v, w')"
    "nr_successful v = Some True" by (auto split: prod.splits sum.splits)
  from status_reported [OF run] run show ?thesis
    by (auto simp: empty_world_def sample_notifier_def sample_notify_comparison_def setting_def dict_get_def)
qed

theorem unchanged_status_not_sent_witness:
  "\<exists>w'. nw_calls w' \<noteq> [] \<and>
     (\<exists>v. status_notify (sample_env (Inl (TorngitError TorngitUnauthorizedError))) sample_notifier sample_notify_comparison empty_world
        = (Inr v, w') \<and> nr_successful v = Some False) \<and>
     status_notify (sample_env (Inl (TorngitError TorngitUnauthorizedError))) sample_notifier sample_notify_comparison w'
        = (Inr (not_attempted ''payload_unchanged''), w')"
proof -
  let ?E = "sample_env (Inl (TorngitError TorngitUnauthorizedError))"
  have "(case status_notify ?E sample_notifier sample_notify_comparison empty_world of
      (Inr v, w') \<Rightarrow> nr_successful v = Some False \<and> nw_calls w' \<noteq> [] | _ \<Rightarrow> False)" by code_simp
  then obtain v w' where run: "status_notify ?E sample_notifier sample_notify_comparison empty_world = (Inr v, w')"
    and v: "nr_successful v = Some False" "nw_calls w' \<noteq> []" by (auto split: prod.splits sum.splits)
  have "payload_of ?E sample_notifier sample_notify_comparison \<noteq> None" by code_simp
  moreover have "ne_redis ?E" by code_simp
  ultimately have "status_notify ?E sample_notifier sample_notify_comparison w' = (Inr (not_attempted ''payload_unchanged''), w')"
    using run by (rule unchanged_status_not_sent)
  with run v show ?thesis by blast
qed

end
