(* ===== verification/Checks.thy ===== *)
theory Checks
  imports Notifier
begin

text \<open>
  Sending a comparison as a check run of GitHub
  (apps/worker/services/notification/notifiers/checks/base.py, patch.py, changes.py, project.py) with the
  annotations of added lines that are not covered, and falling back to commit statuses
  (checks_with_fallback.py). The comment message of the project check (\<open>create_message\<close>) and the rewriting
  of links (\<open>append_tracking_params_to_urls\<close>) are arguments.
\<close>

section \<open>Annotations\<close>

text \<open>The numbers of the added lines of a segment, counted from its header.\<close>

fun head_lines_from :: "int \<Rightarrow> string list \<Rightarrow> int list" where
  "head_lines_from k [] = []"
| "head_lines_from k (l # ls) =
     (if startswith l ''+'' then k # head_lines_from (k + 1) ls
      else if startswith l ''-'' then head_lines_from k ls
      else head_lines_from (k + 1) ls)"

definition segment_additions :: "diff_segment \<Rightarrow> int list res" where
  "segment_additions sg =
     (if length (seg_header sg) \<le> 2 then Inl IndexError
      else bind_res (py_int (seg_header sg ! 0)) (\<lambda>_.
           bind_res (py_int (seg_header sg ! 2)) (\<lambda>k. Inr (head_lines_from k (seg_lines sg)))))"

definition get_line_diff :: "diff_file \<Rightarrow> int list option res" where
  "get_line_diff d =
     (if df_segments d = [] then Inr None
      else map_res (\<lambda>nss. Some (concat nss)) (traverse segment_additions (df_segments d)))"

definition zero_coverage :: "report_line \<Rightarrow> bool" where
  "zero_coverage l = (rl_coverage l \<in> {CovInt 0, CovBool False, CovFrac 0})"

definition uncovered_additions :: "report \<Rightarrow> string \<times> int list option \<Rightarrow> (string \<times> int) list res" where
  "uncovered_additions r entry =
     (case entry of
        (path, None) \<Rightarrow> Inr []
      | (path, Some added) \<Rightarrow>
          (case r_get r path of
             None \<Rightarrow> Inl AttributeError
           | Some f \<Rightarrow>
               Inr (map (\<lambda>x. (path, fst x)) (filter (\<lambda>x. fst x \<in> set added \<and> zero_coverage (snd x)) (rf_items f)))))"

text \<open>A header is the path and the first line of a group of lines, with its last line so far.\<close>

definition add_line_header :: "(string \<times> int \<times> int) list \<Rightarrow> string \<times> int \<Rightarrow> (string \<times> int \<times> int) list" where
  "add_line_header headers line =
     (if headers = [] then [(fst line, snd line, snd line)]
      else case last headers of (path, start, previous) \<Rightarrow>
        if snd line \<noteq> previous + 1 then headers @ [(fst line, snd line, snd line)]
        else butlast headers @ [(path, start, snd line)])"

definition line_headers :: "(string \<times> int) list \<Rightarrow> (string \<times> int \<times> int) list" where
  "line_headers lines = foldl add_line_header [] lines"

definition get_lines_to_annotate :: "report \<Rightarrow> (string \<times> int list option) list \<Rightarrow> (string \<times> int \<times> int) list res" where
  "get_lines_to_annotate r files = map_res (\<lambda>ls. line_headers (concat ls)) (traverse (uncovered_additions r) files)"

definition annotation_json :: "string \<times> int \<times> int \<Rightarrow> json" where
  "annotation_json h =
     (case h of (path, start, stop) \<Rightarrow>
        JObj [(''path'', JStr path), (''start_line'', JInt start), (''end_line'', JInt stop), (''annotation_level'', JStr ''warning''),
              (''message'', JStr (if start \<noteq> stop
                 then ''Added lines #L'' @ int_str start @ '' - L'' @ int_str stop @ '' were not covered by tests''
                 else ''Added line #L'' @ int_str start @ '' was not covered by tests''))])"

definition create_annotations :: "report \<Rightarrow> raw_diff option \<Rightarrow> json list res" where
  "create_annotations r diff =
     (let changed = filter (\<lambda>e. df_totals (snd e) \<noteq> None) (case diff of None \<Rightarrow> [] | Some d \<Rightarrow> rd_files d)
      in bind_res (traverse (\<lambda>e. map_res (Pair (fst e)) (get_line_diff (snd e))) changed) (\<lambda>files.
         map_res (map annotation_json) (get_lines_to_annotate r files)))"

definition ANNOTATIONS_PER_REQUEST :: nat where
  "ANNOTATIONS_PER_REQUEST = 50"

function paginate_annotations :: "'a list \<Rightarrow> 'a list list" where
  "paginate_annotations xs =
     (if xs = [] then [] else take ANNOTATIONS_PER_REQUEST xs # paginate_annotations (drop ANNOTATIONS_PER_REQUEST xs))"
  by auto
termination
  by (relation "measure length") (auto simp: ANNOTATIONS_PER_REQUEST_def)

declare paginate_annotations.simps [simp del]

section \<open>Which lines annotations name\<close>

definition header_lines :: "(string \<times> int \<times> int) list \<Rightarrow> (string \<times> int) list" where
  "header_lines hs = concat (map (\<lambda>(path, start, stop). map (Pair path) [start..stop]) hs)"

text \<open>No file begins with the line number that follows the last line of the file before it.\<close>

definition files_apart :: "(string \<times> int) list \<Rightarrow> bool" where
  "files_apart lines = (\<forall>k. Suc k < length lines \<longrightarrow> snd (lines ! Suc k) = snd (lines ! k) + 1 \<longrightarrow> fst (lines ! Suc k) = fst (lines ! k))"

lemma files_apart_snoc:
  assumes "lines \<noteq> []"
  shows "files_apart (lines @ [x]) \<longleftrightarrow> files_apart lines \<and> (snd x = snd (last lines) + 1 \<longrightarrow> fst x = fst (last lines))"
proof -
  obtain n where n: "length lines = Suc n" using assms by (cases lines) auto
  have "(lines @ [x]) ! Suc n = x" "(lines @ [x]) ! n = last lines"
    using n assms by (simp_all add: nth_append last_conv_nth)
  moreover have "k < n \<Longrightarrow> (lines @ [x]) ! Suc k = lines ! Suc k \<and> (lines @ [x]) ! k = lines ! k" for k
    using n by (simp add: nth_append)
  ultimately show ?thesis by (auto simp: files_apart_def n less_Suc_eq)
qed

lemma header_lines_simps [simp]:
  "header_lines [] = []" "header_lines (hs @ hs') = header_lines hs @ header_lines hs'"
  "header_lines [(p, s, e)] = map (Pair p) [s..e]"
  by (simp_all add: header_lines_def)

lemma upto_snoc: "s \<le> e + 1 \<Longrightarrow> [s..e + 1] = [s..e] @ [e + 1]" for s e :: int
  by (metis add_diff_cancel_right' upto_rec2)

text \<open>The groups are ranges that name the numbers of the lines in their order; the last one ends with the last line.\<close>

lemma line_headers_inv:
  "lines \<noteq> [] \<Longrightarrow> \<exists>hs path start. line_headers lines = hs @ [(path, start, snd (last lines))] \<and> start \<le> snd (last lines) \<and>
     map snd (header_lines (line_headers lines)) = map snd lines \<and>
     (header_lines (line_headers lines) = lines \<longleftrightarrow> files_apart lines)"
proof (induction lines rule: rev_induct)
  case (snoc x lines)
  show ?case
  proof (cases "lines = []")
    case True
    then show ?thesis by (simp add: line_headers_def add_line_header_def files_apart_def)
  next
    case False
    with snoc obtain hs path start where IH: "line_headers lines = hs @ [(path, start, snd (last lines))]" "start \<le> snd (last lines)"
      "map snd (header_lines (line_headers lines)) = map snd lines" "header_lines (line_headers lines) = lines \<longleftrightarrow> files_apart lines"
      by blast
    have step: "line_headers (lines @ [x]) = add_line_header (line_headers lines) x" by (simp add: line_headers_def)
    show ?thesis
    proof (cases "snd x = snd (last lines) + 1")
      case False
      then have n: "line_headers (lines @ [x]) = line_headers lines @ [(fst x, snd x, snd x)]"
        unfolding step by (simp add: IH(1) add_line_header_def)
      with False IH(3,4) \<open>lines \<noteq> []\<close> show ?thesis by (simp add: files_apart_snoc)
    next
      case True
      then have n: "line_headers (lines @ [x]) = hs @ [(path, start, snd x)]"
        unfolding step by (simp add: IH(1) add_line_header_def)
      have e: "header_lines (line_headers (lines @ [x])) = header_lines (line_headers lines) @ [(path, snd x)]"
        unfolding n IH(1) using IH(2) True by (simp add: upto_snoc)
      have l: "last (header_lines (line_headers lines)) = (path, snd (last lines))"
        unfolding IH(1) using IH(2) by (simp add: upto_rec2)
      have lp: "header_lines (line_headers lines) = lines \<Longrightarrow> fst (last lines) = path" using l by (metis fst_conv)
      have "header_lines (line_headers (lines @ [x])) = lines @ [x] \<longleftrightarrow> files_apart (lines @ [x])"
        unfolding e using IH(4) lp True \<open>lines \<noteq> []\<close> by (cases x) (auto simp: files_apart_snoc)
      with n e IH(2,3) True show ?thesis by simp
    qed
  qed
qed simp

lemma paginate_Nil [simp]: "paginate_annotations [] = []"
  by (simp add: paginate_annotations.simps)

lemma paginate_concat: "concat (paginate_annotations xs) = xs"
proof (induction xs rule: paginate_annotations.induct)
  case (1 xs)
  then show ?case by (cases "xs = []") (simp_all add: paginate_annotations.simps [of xs])
qed

lemma paginate_sizes: "page \<in> set (paginate_annotations xs) \<Longrightarrow> 0 < length page \<and> length page \<le> ANNOTATIONS_PER_REQUEST"
proof (induction xs rule: paginate_annotations.induct)
  case (1 xs)
  show ?case
  proof (cases "xs = []")
    case True
    with "1.prems" show ?thesis by (simp add: paginate_annotations.simps [of "[]"])
  next
    case False
    with "1.prems" have "page = take ANNOTATIONS_PER_REQUEST xs \<or> page \<in> set (paginate_annotations (drop ANNOTATIONS_PER_REQUEST xs))"
      by (simp add: paginate_annotations.simps [of xs])
    with False "1.IH" show ?thesis by (auto simp: ANNOTATIONS_PER_REQUEST_def)
  qed
qed

text \<open>The added lines that annotations look at are those that the coverage of the patch counts.\<close>

lemma head_lines_added: "\<forall>l \<in> set ls. l \<noteq> [] \<Longrightarrow> added_from k ls = Inr (head_lines_from k ls)"
proof (induction ls arbitrary: k)
  case (Cons l ls)
  then obtain c t where "l = c # t" by (cases l) auto
  with Cons show ?case by (simp add: first_char_def startswith_def)
qed simp

lemma segment_additions_relevant:
  assumes "\<forall>l \<in> set (seg_lines sg). l \<noteq> []" "2 < length (seg_header sg)" "py_int (seg_header sg ! 0) = Inr b"
    "py_int (seg_header sg ! 2) = Inr k" "k \<noteq> 0"
  shows "segment_additions sg = relevant_lines sg"
  using assms by (simp add: segment_additions_def relevant_lines_def segment_start_def head_lines_added)

lemma uncovered_additions_iff:
  assumes "uncovered_additions r (path, added) = Inr ls"
  shows "(p, k) \<in> set ls \<longleftrightarrow>
    p = path \<and> (\<exists>ns f l. added = Some ns \<and> r_get r path = Some f \<and> k \<in> set ns \<and> line_at (rf_lines f) k = Some l \<and> zero_coverage l)"
  using assms
  by (auto simp: uncovered_additions_def rf_items_def set_enum_line_at image_iff split: option.splits)

lemma all_uncovered_iff:
  assumes "traverse (uncovered_additions r) files = Inr lss"
  shows "(p, k) \<in> set (concat lss) \<longleftrightarrow>
    (\<exists>ns f l. (p, Some ns) \<in> set files \<and> r_get r p = Some f \<and> k \<in> set ns \<and> line_at (rf_lines f) k = Some l \<and> zero_coverage l)"
  using assms
proof (induction files arbitrary: lss)
  case (Cons e files)
  obtain path added where e: "e = (path, added)" by (cases e)
  from Cons.prems obtain ls lss' where l: "uncovered_additions r (path, added) = Inr ls"
    "traverse (uncovered_additions r) files = Inr lss'" "lss = ls # lss'" by (auto simp: e)
  show ?case
    unfolding l(3) concat.simps set_append Un_iff uncovered_additions_iff [OF l(1)] Cons.IH [OF l(2)] e by auto
qed simp

text \<open>The lines that a segment adds: those with a plus, numbered by the lines of the new version before them.\<close>

definition adds_line :: "diff_segment \<Rightarrow> int \<Rightarrow> bool" where
  "adds_line sg k \<longleftrightarrow>
     (\<exists>start i. py_int (seg_header sg ! 2) = Inr start \<and> i < length (seg_lines sg) \<and> startswith (seg_lines sg ! i) ''+'' \<and>
        k = start + int (length (filter (\<lambda>l. \<not> startswith l ''-'') (take i (seg_lines sg)))))"

lemma plus_not_minus: "startswith l ''+'' \<Longrightarrow> \<not> startswith l ''-''"
  by (auto simp: startswith_def)

lemma head_lines_from_iff:
  "k \<in> set (head_lines_from start ls) \<longleftrightarrow>
     (\<exists>i < length ls. startswith (ls ! i) ''+'' \<and> k = start + int (length (filter (\<lambda>l. \<not> startswith l ''-'') (take i ls))))"
proof (induction ls arbitrary: start)
  case (Cons l ls)
  show ?case
    by (cases "startswith l ''+''"; cases "startswith l ''-''")
      (auto simp: Cons.IH Ex_less_Suc2 plus_not_minus algebra_simps)
qed simp

lemma segment_additions_adds: "segment_additions sg = Inr ks \<Longrightarrow> k \<in> set ks \<longleftrightarrow> adds_line sg k"
  by (auto simp: segment_additions_def adds_line_def head_lines_from_iff split: if_splits)

lemma traverse_set: "traverse f xs = Inr ys \<Longrightarrow> set ys = {y. \<exists>x \<in> set xs. f x = Inr y} \<and> (\<forall>x \<in> set xs. \<exists>y. f x = Inr y)"
  by (induction xs arbitrary: ys) auto

lemma get_line_diff_adds:
  assumes "get_line_diff d = Inr ns"
  shows "(\<exists>ks. ns = Some ks \<and> k \<in> set ks) \<longleftrightarrow> (\<exists>sg \<in> set (df_segments d). adds_line sg k)"
proof (cases "df_segments d = []")
  case True
  with assms show ?thesis by (auto simp: get_line_diff_def)
next
  case False
  with assms obtain kss where t: "traverse segment_additions (df_segments d) = Inr kss" "ns = Some (concat kss)"
    by (auto simp: get_line_diff_def map_res_def)
  have "k \<in> set (concat kss) \<longleftrightarrow> (\<exists>sg \<in> set (df_segments d). adds_line sg k)"
    using traverse_set [OF t(1)] segment_additions_adds by fastforce
  with t(2) show ?thesis by simp
qed

lemma line_headers_ranges:
  "map snd (header_lines (line_headers lines)) = map snd lines \<and> (header_lines (line_headers lines) = lines \<longleftrightarrow> files_apart lines)"
proof (cases "lines = []")
  case True
  then show ?thesis by (simp add: line_headers_def files_apart_def)
next
  case False
  from line_headers_inv [OF this] show ?thesis by blast
qed

text \<open>What an annotation names: the file, the first and the last line.\<close>

definition annotation_range :: "json \<Rightarrow> (string \<times> int \<times> int) option" where
  "annotation_range a =
     (case (j_get a ''path'', j_get a ''start_line'', j_get a ''end_line'') of
        (Some (JStr path), Some (JInt start), Some (JInt stop)) \<Rightarrow> Some (path, start, stop)
      | _ \<Rightarrow> None)"

lemma annotation_range_json: "annotation_range (annotation_json h) = Some h"
  by (cases h) (simp add: annotation_range_def annotation_json_def dict_get_def)

text \<open>
  C30. The annotations of a check name ranges of lines; read in their order, they give the numbers of exactly those lines that a
  segment of the diff adds to a file of the report with totals and that the report does not cover. They name them
  under the right files if and only if no file begins with the number after the last
  line of the file before it. (Otherwise a range runs on into the next file and names a line of the wrong file.)
\<close>

theorem annotations_name_uncovered_lines:
  assumes "create_annotations r diff = Inr as"
  shows "\<exists>hs ls. map annotation_range as = map Some hs \<and>
    map snd (header_lines hs) = map snd ls \<and> (header_lines hs = ls \<longleftrightarrow> files_apart ls) \<and>
    (\<forall>p k. (p, k) \<in> set ls \<longleftrightarrow>
      (\<exists>rd d sg f l. diff = Some rd \<and> (p, d) \<in> set (rd_files rd) \<and> df_totals d \<noteq> None \<and> sg \<in> set (df_segments d) \<and> adds_line sg k \<and>
        r_get r p = Some f \<and> line_at (rf_lines f) k = Some l \<and> zero_coverage l))"
proof -
  let ?changed = "filter (\<lambda>e. df_totals (snd e) \<noteq> None) (case diff of None \<Rightarrow> [] | Some d \<Rightarrow> rd_files d)"
  from assms obtain files lss where files: "traverse (\<lambda>e. map_res (Pair (fst e)) (get_line_diff (snd e))) ?changed = Inr files"
    and lss: "traverse (uncovered_additions r) files = Inr lss" and as: "as = map annotation_json (line_headers (concat lss))"
    by (auto simp: create_annotations_def Let_def get_lines_to_annotate_def map_res_def split: sum.splits)
  have added: "(\<exists>ns. (p, Some ns) \<in> set files \<and> k \<in> set ns) \<longleftrightarrow>
      (\<exists>rd d sg. diff = Some rd \<and> (p, d) \<in> set (rd_files rd) \<and> df_totals d \<noteq> None \<and> sg \<in> set (df_segments d) \<and> adds_line sg k)" (is "?l \<longleftrightarrow> ?r") for p k
  proof
    assume ?l
    then obtain ns d where d: "(p, d) \<in> set ?changed" "get_line_diff d = Inr (Some ns)" "k \<in> set ns"
      using traverse_set [OF files] by (auto simp: map_res_def split: sum.splits)
    then show ?r using get_line_diff_adds [OF d(2), of k] by (auto split: option.splits)
  next
    assume ?r
    then obtain d where d: "(p, d) \<in> set ?changed" "\<exists>sg \<in> set (df_segments d). adds_line sg k" by auto
    obtain ns where ns: "get_line_diff d = Inr ns" "(p, ns) \<in> set files"
      using traverse_set [OF files] d(1) by (fastforce simp: map_res_def split: sum.splits)
    then show ?l using get_line_diff_adds [OF ns(1), of k] d(2) by auto
  qed
  have ranges: "map annotation_range as = map Some (line_headers (concat lss))" by (simp add: as annotation_range_json)
  have named: "(p, k) \<in> set (concat lss) \<longleftrightarrow>
      (\<exists>rd d sg f l. diff = Some rd \<and> (p, d) \<in> set (rd_files rd) \<and> df_totals d \<noteq> None \<and> sg \<in> set (df_segments d) \<and> adds_line sg k \<and>
        r_get r p = Some f \<and> line_at (rf_lines f) k = Some l \<and> zero_coverage l)" for p k
    unfolding all_uncovered_iff [OF lss] using added [of p k] by blast
  show ?thesis
    using line_headers_ranges [of "concat lss"] ranges named
    by (intro exI [of _ "line_headers (concat lss)"] exI [of _ "concat lss"]) blast
qed

definition uncovered_line :: "report_line option" where
  "uncovered_line = Some (ReportLine_create (CovInt 0) None [LineSession 0 (CovInt 0) None None None] None)"

definition sample_report :: report where
  "sample_report =
     empty_report\<lparr>r_files := [(''a.py'', ReportFile ''a.py'' None [None, uncovered_line, uncovered_line] None None),
                              (''b.py'', ReportFile ''b.py'' None [None, None, None, uncovered_line] None None)]\<rparr>"

definition sample_diff :: raw_diff where
  "sample_diff =
     \<lparr>rd_files =
        [(''a.py'', \<lparr>df_type = ''modified'', df_before = None,
            df_segments = [\<lparr>seg_header = [''1'', ''2'', ''1'', ''3''], seg_lines = ['' c'', ''-u'', ''+x'', ''+y'']\<rparr>], df_totals = Some zero_totals\<rparr>),
         (''b.py'', \<lparr>df_type = ''modified'', df_before = None,
            df_segments = [\<lparr>seg_header = [''1'', ''1'', ''4'', ''1''], seg_lines = [''+z'']\<rparr>], df_totals = Some zero_totals\<rparr>)],
      rd_totals = None\<rparr>"

theorem annotations_name_uncovered_lines_witness:
  "\<exists>as. create_annotations sample_report (Some sample_diff) = Inr as \<and> map annotation_range as = [Some (''a.py'', 2, 4)] \<and>
     adds_line \<lparr>seg_header = [''1'', ''1'', ''4'', ''1''], seg_lines = [''+z'']\<rparr> 4 \<and>
     (\<exists>ls. map snd ls = [2, 3, 4] \<and> ((''b.py'', 4) \<in> set ls) \<and> \<not> files_apart ls)"
proof -
  have "map_res (map annotation_range) (create_annotations sample_report (Some sample_diff)) = Inr [Some (''a.py'', 2, 4)]" by code_simp
  then obtain as where as: "create_annotations sample_report (Some sample_diff) = Inr as" "map annotation_range as = [Some (''a.py'', 2, 4)]"
    by (auto simp: map_res_def split: sum.splits)
  from annotations_name_uncovered_lines [OF as(1)] obtain hs ls where
    h: "map annotation_range as = map Some hs" "map snd (header_lines hs) = map snd ls" "header_lines hs = ls \<longleftrightarrow> files_apart ls"
    and m: "\<forall>p k. (p, k) \<in> set ls \<longleftrightarrow>
      (\<exists>rd d sg f l. Some sample_diff = Some rd \<and> (p, d) \<in> set (rd_files rd) \<and> df_totals d \<noteq> None \<and> sg \<in> set (df_segments d) \<and> adds_line sg k \<and>
        r_get sample_report p = Some f \<and> line_at (rf_lines f) k = Some l \<and> zero_coverage l)"
    by (elim exE conjE)
  from h(1) as(2) have hs: "hs = [(''a.py'', 2, 4)]" by auto
  have z: "adds_line \<lparr>seg_header = [''1'', ''1'', ''4'', ''1''], seg_lines = [''+z'']\<rparr> 4"
    unfolding adds_line_def by (intro exI [of _ 4] exI [of _ 0]) (simp add: startswith_def, code_simp)
  have "r_get sample_report ''b.py'' = Some (ReportFile ''b.py'' None [None, None, None, uncovered_line] None None)" by code_simp
  moreover have "(case line_at (rf_lines (ReportFile ''b.py'' None [None, None, None, uncovered_line] None None)) 4 of Some l \<Rightarrow> zero_coverage l | None \<Rightarrow> False)"
    by code_simp
  ultimately have b: "(''b.py'', 4) \<in> set ls" using z unfolding m [rule_format] by (auto simp: sample_diff_def split: option.splits)
  have up: "[2..4] = [2, 3, 4 :: int]" by code_simp
  have l: "map snd ls = [2, 3, 4]" using h(2) unfolding hs header_lines_simps up by simp
  have "(''b.py'', 4) \<notin> set (header_lines hs)" unfolding hs header_lines_simps up by simp
  with b have "header_lines hs \<noteq> ls" by metis
  with h(3) have "\<not> files_apart ls" by blast
  with b l z as show ?thesis by (intro exI [of _ as] conjI exI [of _ ls])
qed

section \<open>Payloads of checks\<close>

record check_result =
  kr_state :: json
  kr_output :: check_output
  kr_helper :: "(string, string) dict"

text \<open>
  What a check needs beside the comparison: the author of the pull request and the address of the
  members, the diff with the original base, the message of a comment and the rewriting of links.
\<close>

record check_env =
  ck_author :: string
  ck_members_url :: string
  ck_diff :: "raw_diff option res"
  ck_message :: "(string, json) dict \<Rightarrow> (string, string) dict \<Rightarrow> string list res"
  ck_track :: "string \<Rightarrow> string"

definition two_newlines :: string where
  "two_newlines = [newline, newline]"

definition check_upgrade_message :: "check_env \<Rightarrow> string" where
  "check_upgrade_message K =
     join_str [newline]
       [''The author of this PR, '' @ ck_author K @ '', is not an activated member of this organization on Codecov.'',
        ''Please [activate this user on Codecov]('' @ ck_members_url K @ '') to display a detailed status check.'',
        ''Coverage data is still being uploaded to Codecov.io for purposes of overall coverage calculations.'',
        ''Please don'' @ [CHR 0x27] @ ''t hesitate to email us at support@codecov.io with any questions.'']"

definition get_codecov_pr_link :: "notify_env \<Rightarrow> notify_comparison \<Rightarrow> string" where
  "get_codecov_pr_link E c = ''[View this Pull Request on Codecov]('' @ target_url E c @ ''?dropdown=coverage&src=pr&el=h1)''"

definition plain_output :: "string \<Rightarrow> string \<Rightarrow> check_output" where
  "plain_output title summary = \<lparr>ko_title = title, ko_summary = summary, ko_annotations = [], ko_text = None\<rparr>"

text \<open>The title and the message of a check: those of the status, or of the request to activate the author.\<close>

definition check_title :: "status_notifier \<Rightarrow> status_result \<Rightarrow> string" where
  "check_title n r = (if nt_decoration n = D_upgrade then ''Codecov Report'' else sr_message r)"

definition check_summary :: "notify_env \<Rightarrow> check_env \<Rightarrow> status_notifier \<Rightarrow> notify_comparison \<Rightarrow> status_result \<Rightarrow> string" where
  "check_summary E K n c r =
     get_codecov_pr_link E c @ two_newlines @ (if nt_decoration n = D_upgrade then check_upgrade_message K else sr_message r)"

definition restricted :: "status_notifier \<Rightarrow> bool" where
  "restricted n = (setting (nt_settings n) ''flags'' JNull \<noteq> JNull \<or> setting (nt_settings n) ''paths'' JNull \<noteq> JNull \<or> nt_decoration n = D_upgrade)"

text \<open>\<open>github_checks\<close> may be a dictionary, a truth value or missing.\<close>

definition should_annotate :: "status_notifier \<Rightarrow> json" where
  "should_annotate n =
     (case get_or (read_yaml_field (nt_yaml n) [''github_checks''] JNull) ''annotations'' (JBool False) of Inr v \<Rightarrow> v | Inl _ \<Rightarrow> JBool False)"

definition patch_annotations :: "check_env \<Rightarrow> notify_comparison \<Rightarrow> json list res" where
  "patch_annotations K c =
     bind_res (ck_diff K) (\<lambda>diff.
       case nc_report c of
         None \<Rightarrow> Inl AttributeError
       | Some r \<Rightarrow> bind_res (r_apply_diff r diff True) (\<lambda>(_, diff', r'). create_annotations r' diff'))"

definition drop_flags_layout :: "(string, json) dict \<Rightarrow> (string, json) dict res" where
  "drop_flags_layout d =
     (case setting d ''layout'' (JStr []) of
        JStr layout \<Rightarrow>
          Inr (if contains layout ''flag''
               then dict_set d ''layout'' (JStr (join_str '','' (filter (\<lambda>x. \<not> contains x ''flag'') (split_all (CHR '','') layout))))
               else d)
      | JList xs \<Rightarrow> Inl NotModelled
      | JObj kvs \<Rightarrow> Inl NotModelled
      | _ \<Rightarrow> Inl TypeError)"

definition comment_settings :: "json \<Rightarrow> (string, json) dict res" where
  "comment_settings yaml =
     (let v = j_or (read_yaml_field yaml [''comment''] JNull) (JObj [])
      in case (if v = JBool True then JObj [] else v) of
           JObj d \<Rightarrow> drop_flags_layout d
         | JList xs \<Rightarrow> Inl NotModelled
         | JStr s \<Rightarrow> Inl ValueError
         | _ \<Rightarrow> Inl TypeError)"

definition check_output_of ::
  "notify_env \<Rightarrow> check_env \<Rightarrow> status_notifier \<Rightarrow> notify_comparison \<Rightarrow> status_result \<Rightarrow> check_output res" where
  "check_output_of E K n c r =
     (let plain = plain_output (check_title n r) (check_summary E K n c r)
      in case nt_context n of
           C_changes \<Rightarrow> Inr plain
         | C_patch \<Rightarrow>
             if restricted n \<or> should_annotate n = JBool False then Inr plain
             else map_res (\<lambda>as. plain\<lparr>ko_annotations := as\<rparr>) (patch_annotations K c)
         | C_project \<Rightarrow>
             bind_res (comment_settings (nt_yaml n)) (\<lambda>used.
               if restricted n \<or> used = [] then Inr plain
               else map_res (\<lambda>ls. plain\<lparr>ko_text := Some (join_str [newline] ls)\<rparr>) (ck_message K used (sr_helper r))))"

definition checks_build_payload ::
  "notify_env \<Rightarrow> check_env \<Rightarrow> status_notifier \<Rightarrow> notify_comparison \<Rightarrow> comparison_view \<Rightarrow> check_result res" where
  "checks_build_payload E K n c cv =
     (case get_status_check_for_empty_upload (nt_decoration n) of
        Some (st, message) \<Rightarrow> Inr \<lparr>kr_state = st, kr_output = plain_output ''Empty Upload'' message, kr_helper = []\<rparr>
      | None \<Rightarrow>
          bind_res (status_of_context n ''check'' cv) (\<lambda>r.
          bind_res (check_output_of E K n c r) (\<lambda>out.
            Inr \<lparr>kr_state = sr_state r, kr_output = out, kr_helper = (if nt_context n = C_changes then [] else sr_helper r)\<rparr>)))"

section \<open>Sending checks\<close>

definition output_json :: "check_output \<Rightarrow> json" where
  "output_json k =
     JObj ([(''title'', JStr (ko_title k)), (''summary'', JStr (ko_summary k)), (''annotations'', JList (ko_annotations k))]
           @ (case ko_text k of None \<Rightarrow> [] | Some t \<Rightarrow> [(''text'', JStr t)]))"

definition check_json :: "check_result \<Rightarrow> string \<Rightarrow> json" where
  "check_json r url =
     JObj [(''state'', kr_state r), (''output'', output_json (kr_output r)), (''included_helper_text'', helper_json (kr_helper r)),
           (''url'', JStr url)]"

definition tracked :: "check_env \<Rightarrow> string \<Rightarrow> string" where
  "tracked K s = (if s = [] then [] else ck_track K s)"

definition track_output :: "check_env \<Rightarrow> check_output \<Rightarrow> check_output" where
  "track_output K k = k\<lparr>ko_title := tracked K (ko_title k), ko_summary := tracked K (ko_summary k), ko_text := map_option (tracked K) (ko_text k)\<rparr>"

definition check_state :: "status_notifier \<Rightarrow> check_result \<Rightarrow> json" where
  "check_state n r = (if j_truthy (setting (nt_settings n) ''informational'' JNull) then success else kr_state r)"

definition check_updates :: "check_output \<Rightarrow> check_output list" where
  "check_updates k =
     (if ANNOTATIONS_PER_REQUEST < length (ko_annotations k)
      then map (\<lambda>page. \<lparr>ko_title = ko_title k, ko_summary = ko_summary k, ko_annotations = page, ko_text = None\<rparr>)
        (paginate_annotations (ko_annotations k))
      else [k])"

definition checks_send_notification ::
  "notify_env \<Rightarrow> check_env \<Rightarrow> status_notifier \<Rightarrow> notify_comparison \<Rightarrow> check_result \<Rightarrow> (notify_world, notification_result) action" where
  "checks_send_notification E K n c r =
     (let out = track_output K (kr_output r); url = tracked K (target_url E c)
      in and_then (call_provider E (CreateCheckRun (get_status_external_name n) (nc_head c))) (\<lambda>check_id.
         and_then (send_all E (map (\<lambda>k. UpdateCheckRun check_id (check_state n r) k url) (check_updates out))) (\<lambda>_.
         and_then (lift_res (get_github_app_used (nt_service n))) (\<lambda>app.
           yield (NotificationResult\<lparr>nr_attempted := True, nr_successful := Some True,
             nr_data_sent := check_json (r\<lparr>kr_output := out\<rparr>) url, nr_github_app := app\<rparr>)))))"

definition checks_name :: "status_notifier \<Rightarrow> string" where
  "checks_name n = ''checks-'' @ context_name (nt_context n)"

definition finish_check :: "check_result choice \<Rightarrow> check_result option" where
  "finish_check x =
     (case x of
        Excluded \<Rightarrow> None
      | Chosen r \<Rightarrow> Some r
      | AutoPassed r \<Rightarrow>
          Some (r\<lparr>kr_state := success, kr_output := (kr_output r)\<lparr>ko_summary := ko_summary (kr_output r) @ auto_passed_text\<rparr>\<rparr>))"

text \<open>Unlike a status, a check lets an error of code 403 escape.\<close>

definition check_error_result :: "json \<Rightarrow> py_error \<Rightarrow> notification_result res" where
  "check_error_result data e = (if client_error_code e = Some 403 then Inl e else provider_error_result data e)"

definition check_caught :: "json \<Rightarrow> notification_result res \<times> 'w \<Rightarrow> notification_result res \<times> 'w" where
  "check_caught data m = (case m of (Inl e, w) \<Rightarrow> (check_error_result data e, w) | r \<Rightarrow> r)"

text \<open>The conditions of a check, in their order; the explanation of the first that fails, or \<open>None\<close>.\<close>

definition check_refused :: "notify_env \<Rightarrow> status_notifier \<Rightarrow> notify_comparison \<Rightarrow> string option res" where
  "check_refused E n c =
     (case nc_pull c of
        None \<Rightarrow> Inr (Some ''no_pull_request'')
      | Some pull \<Rightarrow>
          if \<not> nc_in_provider c then Inr (Some ''pull_request_not_in_provider'')
          else if pu_state pull \<noteq> ''open'' then Inr (Some ''pull_request_closed'')
          else
            bind_res (can_we_set_this_status (ne_rx E) n c) (\<lambda>fits.
              if \<not> fits then Inr (Some ''not_fit_criteria'')
              else bind_res (required_builds n c) (\<lambda>enough.
                if \<not> enough then Inr (Some ''need_more_builds'')
                else bind_res (nc_statuses c) (\<lambda>ss.
                  Inr (if status_get ss (get_status_external_name n) \<noteq> None then Some ''preexisting_commit_status'' else None)))))"

definition checks_notify ::
  "notify_env \<Rightarrow> check_env \<Rightarrow> status_notifier \<Rightarrow> notify_comparison \<Rightarrow> (notify_world, notification_result) action" where
  "checks_notify E K n c =
     and_then (lift_res (check_refused E n c)) (\<lambda>refused.
       case refused of
         Some explanation \<Rightarrow> yield (not_attempted explanation)
       | None \<Rightarrow> (\<lambda>w.
           case choose_payload n (checks_build_payload E K n c) c of
             Inl e \<Rightarrow> (check_error_result JNull e, w)
           | Inr x \<Rightarrow>
               (case finish_check x of
                  None \<Rightarrow> (Inr (not_attempted ''exclude_flag_coverage_not_uploaded_checks''), w)
                | Some r \<Rightarrow>
                    check_caught (check_json (r\<lparr>kr_output := track_output K (kr_output r)\<rparr>) (tracked K (target_url E c)))
                      (maybe_send_notification E n (checks_name n) c (check_json r (target_url E c)) (checks_send_notification E K n c r) w))))"

section \<open>Falling back to statuses\<close>

definition falls_back :: "notification_result \<Rightarrow> bool" where
  "falls_back v =
     (nr_successful v \<noteq> Some True \<and>
      nr_explanation v \<in> Some ` {''no_pull_request'', ''pull_request_not_in_provider'', ''pull_request_closed'', ''preexisting_commit_status''})"

definition with_fallback ::
  "(notify_world, notification_result) action \<Rightarrow> (notify_world, notification_result) action \<Rightarrow> (notify_world, notification_result) action" where
  "with_fallback run_checks run_status w =
     (let handled = (\<lambda>m. case m of (Inl e, w') \<Rightarrow> if client_error_code e = Some 403 then run_status w' else (Inl e, w') | r \<Rightarrow> r)
      in handled (and_then run_checks (\<lambda>v. if falls_back v then run_status else yield v) w))"


section \<open>A check or a status, not both\<close>

definition check_calls ::
  "notify_env \<Rightarrow> check_env \<Rightarrow> status_notifier \<Rightarrow> notify_comparison \<Rightarrow> check_result \<Rightarrow> json \<Rightarrow> provider_call list" where
  "check_calls E K n c r check_id =
     CreateCheckRun (get_status_external_name n) (nc_head c) #
     map (\<lambda>k. UpdateCheckRun check_id (check_state n r) k (tracked K (target_url E c))) (check_updates (track_output K (kr_output r)))"

lemma checks_send_result:
  assumes "checks_send_notification E K n c r w = (q, w')"
  shows "nw_cache w' = nw_cache w" "\<exists>check_id k. nw_calls w' = nw_calls w @ take k (check_calls E K n c r check_id)"
    "q = Inr v \<Longrightarrow> nr_attempted v \<and> (\<exists>check_id. nw_calls w' = nw_calls w @ check_calls E K n c r check_id)"
proof -
  let ?create = "CreateCheckRun (get_status_external_name n) (nc_head c)"
  let ?w1 = "w\<lparr>nw_calls := nw_calls w @ [?create]\<rparr>"
  let ?updates = "\<lambda>i. map (\<lambda>k. UpdateCheckRun i (check_state n r) k (tracked K (target_url E c))) (check_updates (track_output K (kr_output r)))"
  consider (create) e where "q = Inl e" "w' = ?w1"
    | (updates) i r1 where "send_all E (?updates i) ?w1 = (r1, w')" "is_ok q \<longrightarrow> is_ok r1" "\<forall>v. q = Inr v \<longrightarrow> nr_attempted v"
    using assms unfolding checks_send_notification_def Let_def
    by (auto simp: call_provider_def lift_res_def yield_def is_ok_def NotificationResult_def elim!: and_then_eqE
        split: sum.splits)
  note cases = this
  have take: "take (Suc k) (check_calls E K n c r i) = ?create # take k (?updates i)" for k i by (simp add: check_calls_def)
  show "nw_cache w' = nw_cache w" by (cases rule: cases) (auto dest: send_all_result)
  show "\<exists>check_id k. nw_calls w' = nw_calls w @ take k (check_calls E K n c r check_id)"
  proof (cases rule: cases)
    case create
    then show ?thesis using take [of 0] by (intro exI exI [where x = "Suc 0"]) simp
  next
    case (updates i r1)
    from send_all_result [OF updates(1)] obtain k where "nw_calls w' = nw_calls w @ ?create # take k (?updates i)" by auto
    then show ?thesis using take [of k i] by (intro exI [where x = i] exI [where x = "Suc k"]) simp
  qed
  show "nr_attempted v \<and> (\<exists>check_id. nw_calls w' = nw_calls w @ check_calls E K n c r check_id)" if "q = Inr v"
  proof (cases rule: cases)
    case (updates i r1)
    with that send_all_result [OF updates(1)] show ?thesis by (auto simp: is_ok_def check_calls_def)
  qed (use that in simp)
qed

definition check_result_of :: "notify_env \<Rightarrow> check_env \<Rightarrow> status_notifier \<Rightarrow> notify_comparison \<Rightarrow> check_result option" where
  "check_result_of E K n c =
     (if check_refused E n c = Inr None
      then (case choose_payload n (checks_build_payload E K n c) c of Inr x \<Rightarrow> finish_check x | Inl _ \<Rightarrow> None) else None)"

lemma check_error_result_Inr: "check_error_result d e = Inr v \<Longrightarrow> nr_attempted v \<and> nr_successful v = Some False"
  by (auto simp: check_error_result_def dest: provider_error_result_Inr split: if_splits)

lemma checks_notify_quiet:
  assumes "check_result_of E K n c = None" "checks_notify E K n c w = (q, w')"
  shows "w' = w" "q = Inr v \<Longrightarrow> nr_successful v \<noteq> Some True"
proof -
  consider (raised) e where "check_refused E n c = Inl e" | (refused) x where "check_refused E n c = Inr (Some x)"
    | (go) "check_refused E n c = Inr None" by (metis option.exhaust sum.exhaust)
  then have "w' = w \<and> (\<forall>v. q = Inr v \<longrightarrow> nr_successful v \<noteq> Some True)"
  proof cases
    case go
    show ?thesis
    proof (cases "choose_payload n (checks_build_payload E K n c) c")
      case (Inl e)
      then show ?thesis using go assms(2) by (auto simp: checks_notify_def dest: check_error_result_Inr)
    next
      case (Inr x)
      then show ?thesis using go assms by (auto simp: checks_notify_def check_result_of_def)
    qed
  qed (use assms(2) in \<open>auto simp: checks_notify_def yield_def\<close>)
  then show "w' = w" "q = Inr v \<Longrightarrow> nr_successful v \<noteq> Some True" by auto
qed

lemma checks_notify_sends:
  assumes "check_result_of E K n c = Some r" "checks_notify E K n c w = (q, w')"
  shows "\<exists>check_id k. nw_calls w' = nw_calls w @ take k (check_calls E K n c r check_id)"
    "q = Inr v \<Longrightarrow> \<not> nr_attempted v \<Longrightarrow> nw_calls w' = nw_calls w"
    "q = Inr v \<Longrightarrow> nr_successful v = Some True \<Longrightarrow> \<exists>check_id. nw_calls w' = nw_calls w @ check_calls E K n c r check_id"
proof -
  let ?d = "check_json r (target_url E c)"
  have "checks_notify E K n c w = check_caught (check_json (r\<lparr>kr_output := track_output K (kr_output r)\<rparr>) (tracked K (target_url E c)))
      (maybe_send_notification E n (checks_name n) c ?d (checks_send_notification E K n c r) w)"
    using assms(1) by (auto simp: check_result_of_def checks_notify_def split: if_splits sum.splits)
  with assms(2) obtain p where m: "maybe_send_notification E n (checks_name n) c ?d (checks_send_notification E K n c r) w = (p, w')"
    and p: "\<And>v. q = Inr v \<Longrightarrow> p = Inr v \<or> (nr_attempted v \<and> nr_successful v = Some False)"
    by (cases "maybe_send_notification E n (checks_name n) c ?d (checks_send_notification E K n c r) w")
      (auto simp: check_caught_def dest: check_error_result_Inr split: sum.splits)
  show "\<exists>check_id k. nw_calls w' = nw_calls w @ take k (check_calls E K n c r check_id)"
    using m
  proof (cases rule: maybe_sendE)
    case unchanged
    then show ?thesis by (auto intro!: exI [where x = 0])
  next
    case changed
    from checks_send_result(2) [OF changed(2)] show ?thesis by simp
  qed
  show "nw_calls w' = nw_calls w" if v: "q = Inr v" "\<not> nr_attempted v"
  proof -
    from p [OF v(1)] v(2) have pv: "p = Inr v" by blast
    show ?thesis using m
    proof (cases rule: maybe_sendE)
      case changed
      from checks_send_result(3) [OF changed(2) pv] v(2) show ?thesis by blast
    qed simp
  qed
  show "\<exists>check_id. nw_calls w' = nw_calls w @ check_calls E K n c r check_id" if v: "q = Inr v" "nr_successful v = Some True"
  proof -
    from p [OF v(1)] v(2) have pv: "p = Inr v" by auto
    show ?thesis using m
    proof (cases rule: maybe_sendE)
      case unchanged
      then show ?thesis using pv v(2) by auto
    next
      case changed
      from checks_send_result(3) [OF changed(2) pv] show ?thesis by simp
    qed
  qed
qed

interpretation chn: notifier_contract "checks_notify E K n c" for E K n c
proof
  fix w w' q
  assume run: "checks_notify E K n c w = (q, w')"
  show "\<exists>calls. nw_calls w' = nw_calls w @ calls"
    using checks_notify_quiet(1) [OF _ run] checks_notify_sends(1) [OF _ run] by (cases "check_result_of E K n c") auto
next
  fix w w' v
  assume run: "checks_notify E K n c w = (Inr v, w')" "\<not> nr_attempted v"
  show "nw_calls w' = nw_calls w"
    using checks_notify_quiet(1) [OF _ run(1)] checks_notify_sends(2) [OF _ run(1) refl run(2)] by (cases "check_result_of E K n c") auto
qed

text \<open>
  A notifier that falls back to another one, whatever the two are: the first one has not attempted anything where
  it asks for the other one, and the second one handles the errors of the provider itself.
\<close>

locale fallback = checks: notifier_contract run_checks + status: notifier_contract run_status
  for run_checks run_status +
  assumes falls_back_early: "run_checks w = (Inr v, w') \<Longrightarrow> falls_back v \<Longrightarrow> \<not> nr_attempted v"
    and status_handles: "run_status w = (Inl e, w') \<Longrightarrow> client_error_code e \<noteq> Some 403"
begin

lemma fallback_cases:
  assumes "with_fallback run_checks run_status w = (q, w')"
  obtains (checks) "run_checks w = (q, w')" "\<And>v. q = Inr v \<Longrightarrow> \<not> falls_back v"
    | (status) v w1 where "run_checks w = (Inr v, w1)" "falls_back v" "nw_calls w1 = nw_calls w" "run_status w1 = (q, w')"
    | (forbidden) e w1 where "run_checks w = (Inl e, w1)" "client_error_code e = Some 403" "run_status w1 = (q, w')"
proof (cases "run_checks w")
  case (Pair p w1)
  show thesis
  proof (cases p)
    case (Inl e)
    with Pair assms show thesis
      by (cases "client_error_code e = Some 403") (auto simp: with_fallback_def Let_def and_then_def intro: checks forbidden)
  next
    case (Inr v)
    show thesis
    proof (cases "falls_back v")
      case False
      with Inr Pair assms show thesis by (auto simp: with_fallback_def Let_def and_then_def yield_def intro: checks)
    next
      case True
      obtain r2 w2 where s: "run_status w1 = (r2, w2)" by (cases "run_status w1")
      have "nw_calls w1 = nw_calls w" using checks.no_attempt_no_calls falls_back_early True Inr Pair by blast
      moreover have "run_status w1 = (q, w')"
        using Inr Pair assms True s status_handles [of w1] by (cases r2) (auto simp: with_fallback_def Let_def and_then_def)
      ultimately show thesis using Inr Pair True by (auto intro: status)
    qed
  qed
qed

lemma fallback_calls_added: "call_log (with_fallback run_checks run_status)"
proof
  fix w q w'
  assume run: "with_fallback run_checks run_status w = (q, w')"
  then show "\<exists>calls. nw_calls w' = nw_calls w @ calls"
  proof (cases rule: fallback_cases)
    case checks
    from checks(1) show ?thesis by (rule checks.calls_added)
  next
    case (status v w1)
    from status.calls_added [OF status(4)] status(3) show ?thesis by simp
  next
    case (forbidden e w1)
    from checks.calls_added [OF forbidden(1)] status.calls_added [OF forbidden(3)] show ?thesis by auto
  qed
qed

end

sublocale fallback \<subseteq> log: call_log "with_fallback run_checks run_status"
  by (rule fallback_calls_added)

lemma provider_error_explained:
  "provider_error_result d e = Inr v \<Longrightarrow> nr_explanation v \<in> {Some ''client_side_error_provider'', Some ''server_side_error_provider''}"
  by (auto simp: provider_error_result_def split: if_splits)

lemma checks_send_successful: "checks_send_notification E K n c r w = (Inr v, w') \<Longrightarrow> nr_successful v = Some True"
  by (auto simp: checks_send_notification_def Let_def yield_def NotificationResult_def elim!: and_then_eqE)

lemma check_error_explained:
  "check_error_result d e = Inr v \<Longrightarrow> nr_explanation v \<in> {Some ''client_side_error_provider'', Some ''server_side_error_provider''}"
  by (auto simp: check_error_result_def dest: provider_error_explained split: if_splits)

lemma checks_attempted:
  assumes "checks_notify E K n c w = (Inr v, w')" "nr_attempted v"
  shows "nr_successful v = Some True \<or> nr_explanation v \<in> {Some ''client_side_error_provider'', Some ''server_side_error_provider''}"
proof -
  have "nr_successful v = Some True"
    if "maybe_send_notification E n name c d (checks_send_notification E K n c r) w = (Inr v, w')" for name d r
    using that
  proof (cases rule: maybe_sendE)
    case unchanged
    then show ?thesis using assms(2) by auto
  next
    case changed
    from changed(2) show ?thesis by (rule checks_send_successful)
  qed
  then show ?thesis
    using assms unfolding checks_notify_def
    by (auto simp: lift_res_def check_caught_def elim!: and_then_eqE dest!: check_error_explained split: option.splits sum.splits prod.splits) blast
qed

lemma checks_falls_back_early:
  assumes "checks_notify E K n c w = (Inr v, w')" "falls_back v"
  shows "\<not> nr_attempted v"
  using checks_attempted [OF assms(1)] assms(2) by (auto simp: falls_back_def)

text \<open>Reading settings raises no error of the provider.\<close>

definition plain_errors :: "'a res \<Rightarrow> bool" where
  "plain_errors m = (\<forall>e. m = Inl e \<longrightarrow> \<not> is_client_error e)"

lemma plain_errors_simps [simp]:
  "plain_errors (Inr a)" "plain_errors (Inl e) \<longleftrightarrow> \<not> is_client_error e" "plain_errors (map_res f m) \<longleftrightarrow> plain_errors m"
  by (cases m; simp add: plain_errors_def)+

lemma plain_errors_bind: "plain_errors m \<Longrightarrow> (\<And>a. m = Inr a \<Longrightarrow> plain_errors (f a)) \<Longrightarrow> plain_errors (bind_res m f)"
  by (cases m) simp_all

lemma plain_errors_traverse: "(\<And>x. plain_errors (f x)) \<Longrightarrow> plain_errors (traverse f xs)"
  by (induction xs) (auto intro!: plain_errors_bind)

lemma plain_readers:
  "plain_errors (str_of v)" "plain_errors (get_or d k x)" "plain_errors (get_item d k)" "plain_errors (iter_list d)"
  "plain_errors (merge_rules d g)"
  by (cases v; simp add: is_client_error_def)
    (auto simp: get_or_def get_item_def iter_list_def merge_rules_def is_client_error_def split: json.splits option.splits)

lemma plain_find_named: "plain_errors (find_named name fs)"
  by (induction name fs rule: find_named.induct) (auto intro!: plain_errors_bind plain_readers)

lemma plain_flag_configuration: "plain_errors (get_flag_configuration yaml name)"
proof -
  have "plain_errors (Inl e)" if "get_item d k = Inl e" for d k e using plain_readers(3) [of d k] that by simp
  then show ?thesis
    by (auto simp: get_flag_configuration_def intro!: plain_errors_bind plain_readers plain_find_named split: sum.splits option.splits)
qed

lemma plain_str_list: "plain_errors (str_list v)"
  by (auto simp: str_list_def intro!: plain_errors_bind plain_errors_traverse plain_readers)

lemma plain_enough_builds: "plain_errors (enough_builds yaml rep flg)"
  by (auto simp: enough_builds_def is_client_error_def intro!: plain_errors_bind plain_readers plain_flag_configuration
      split: option.splits json.splits)

lemma plain_required_builds: "plain_errors (required_builds n c)"
proof -
  have "plain_errors (all_enough_builds yaml rep flags)" for yaml rep flags
    by (induction flags) (auto intro!: plain_errors_bind plain_enough_builds)
  then show ?thesis by (auto simp: required_builds_def notifier_flags_def intro!: plain_errors_bind plain_str_list)
qed

lemma plain_can_set: "plain_errors (can_we_set_this_status rx n c)"
  by (auto simp: can_we_set_this_status_def opt_str_list_def worker_match_def is_client_error_def
      intro!: plain_errors_bind plain_errors_traverse plain_readers split: option.splits)

lemma status_handles_client_errors:
  assumes "status_notify E n c w = (Inl e, w')"
  shows "\<not> is_client_error e"
  using assms plain_can_set [of "ne_rx E" n c] plain_required_builds [of n c] unfolding status_notify_def plain_errors_def
  by (auto simp: lift_res_def caught_def provider_error_result_def elim!: and_then_eqE split: option.splits sum.splits prod.splits if_splits)

interpretation cwf: fallback "checks_notify E K n c" "status_notify E n c" for E K n c
  by unfold_locales (auto dest: checks_falls_back_early status_handles_client_errors simp: is_client_error_def)

lemma checks_notify_no_status:
  assumes "checks_notify E K n c w = (q, w')"
  shows "\<exists>calls. nw_calls w' = nw_calls w @ calls \<and> (\<forall>s. SetStatus s \<notin> set calls)"
proof (cases "check_result_of E K n c")
  case None
  from checks_notify_quiet(1) [OF None assms] show ?thesis by simp
next
  case (Some r)
  from checks_notify_sends(1) [OF Some assms] obtain check_id k where
    "nw_calls w' = nw_calls w @ take k (check_calls E K n c r check_id)" by blast
  moreover have "SetStatus s \<notin> set (take k (check_calls E K n c r check_id))" for s
    by (auto simp: check_calls_def dest!: in_set_takeD)
  ultimately show ?thesis by blast
qed

lemma check_updates_pages:
  "concat (map ko_annotations (check_updates k)) = ko_annotations k"
  "u \<in> set (check_updates k) \<Longrightarrow> length (ko_annotations u) \<le> ANNOTATIONS_PER_REQUEST \<and> ko_title u = ko_title k \<and> ko_summary u = ko_summary k"
  by (auto simp: check_updates_def comp_def paginate_concat dest: paginate_sizes split: if_splits)

lemma check_updates_some: "check_updates k \<noteq> []"
  by (auto simp: check_updates_def paginate_annotations.simps [of "ko_annotations k"])

text \<open>
  C29. A check with a fallback that reports success has either created one check run and updated it at least once with the state of the check (or
  success, if it is informational), its title, summary and text, where the updates carry all annotations in order and at most
  fifty each, and has set no status; or it has set the statuses of the status notifier, after
  at most the beginning of a check run that the provider refused.
\<close>

theorem check_or_status:
  assumes "with_fallback (checks_notify E K n c) (status_notify E n c) w = (Inr v, w')" "nr_successful v = Some True"
  shows "(\<exists>r check_id updates. check_result_of E K n c = Some r \<and>
      nw_calls w' = nw_calls w @ CreateCheckRun (get_status_external_name n) (nc_head c) #
        map (\<lambda>k. UpdateCheckRun check_id
            (if j_truthy (setting (nt_settings n) ''informational'' JNull) then success else kr_state r) k (tracked K (target_url E c))) updates \<and>
      concat (map ko_annotations updates) = ko_annotations (kr_output r) \<and>
      updates \<noteq> [] \<and>
      (\<forall>u \<in> set updates. length (ko_annotations u) \<le> 50 \<and> ko_title u = tracked K (ko_title (kr_output r)) \<and>
        ko_summary u = tracked K (ko_summary (kr_output r))) \<and>
      (length (ko_annotations (kr_output r)) \<le> 50 \<longrightarrow> map ko_text updates = [map_option (tracked K) (ko_text (kr_output r))])) \<or>
    (\<exists>p refused coverage. payload_of E n c = Some p \<and>
      nw_calls w' = nw_calls w @ refused @ map (SetStatus \<circ> status_call_of n p coverage) (nc_head c # nc_extra_shas c) \<and>
      (\<forall>s. SetStatus s \<notin> set refused))"
  using assms(1)
proof (cases rule: cwf.fallback_cases)
  case checks
  obtain r where r: "check_result_of E K n c = Some r"
    using checks_notify_quiet(2) [OF _ checks(1) refl] assms(2) by (cases "check_result_of E K n c") auto
  from checks_notify_sends(3) [OF r checks(1) refl assms(2)] obtain check_id where
    "nw_calls w' = nw_calls w @ check_calls E K n c r check_id" by blast
  then have "nw_calls w' = nw_calls w @ CreateCheckRun (get_status_external_name n) (nc_head c) #
      map (\<lambda>k. UpdateCheckRun check_id
          (if j_truthy (setting (nt_settings n) ''informational'' JNull) then success else kr_state r) k (tracked K (target_url E c)))
        (check_updates (track_output K (kr_output r)))"
    by (simp add: check_calls_def check_state_def)
  moreover have "concat (map ko_annotations (check_updates (track_output K (kr_output r)))) = ko_annotations (kr_output r)"
    unfolding check_updates_pages(1) by (simp add: track_output_def)
  moreover have "\<forall>u \<in> set (check_updates (track_output K (kr_output r))). length (ko_annotations u) \<le> 50 \<and>
      ko_title u = tracked K (ko_title (kr_output r)) \<and> ko_summary u = tracked K (ko_summary (kr_output r))"
  proof
    fix u assume "u \<in> set (check_updates (track_output K (kr_output r)))"
    from check_updates_pages(2) [OF this]
    show "length (ko_annotations u) \<le> 50 \<and> ko_title u = tracked K (ko_title (kr_output r)) \<and> ko_summary u = tracked K (ko_summary (kr_output r))"
      by (simp add: ANNOTATIONS_PER_REQUEST_def track_output_def)
  qed
  moreover have "length (ko_annotations (kr_output r)) \<le> 50 \<longrightarrow>
      map ko_text (check_updates (track_output K (kr_output r))) = [map_option (tracked K) (ko_text (kr_output r))]"
    by (simp add: check_updates_def track_output_def ANNOTATIONS_PER_REQUEST_def)
  moreover have "check_updates (track_output K (kr_output r)) \<noteq> []" by (rule check_updates_some)
  ultimately show ?thesis using r
    by (intro disjI1 exI [of _ r] exI [of _ check_id] exI [of _ "check_updates (track_output K (kr_output r))"] conjI)
next
  case (status u w1)
  from status(4) assms(2) obtain p coverage where "payload_of E n c = Some p"
    "nw_calls w' = nw_calls w1 @ map (SetStatus \<circ> status_call_of n p coverage) (nc_head c # nc_extra_shas c)"
    by (rule status_notify_success)
  then show ?thesis
    using status(3) by (intro disjI2 exI [where x = p] exI [where x = "[]"] exI [where x = coverage]) simp
next
  case (forbidden e w1)
  from forbidden(3) assms(2) obtain p coverage where p: "payload_of E n c = Some p"
    "nw_calls w' = nw_calls w1 @ map (SetStatus \<circ> status_call_of n p coverage) (nc_head c # nc_extra_shas c)"
    by (rule status_notify_success)
  obtain refused where f: "nw_calls w1 = nw_calls w @ refused" "\<forall>s. SetStatus s \<notin> set refused"
    using checks_notify_no_status [OF forbidden(1)] by blast
  then show ?thesis
    using p by (intro disjI2 exI [where x = p] exI [where x = refused] exI [where x = coverage]) simp
qed

definition sample_check_env :: check_env where
  "sample_check_env =
     \<lparr>ck_author = ''me'', ck_members_url = ''m'', ck_diff = Inr None, ck_message = (\<lambda>_ _. Inr []), ck_track = (\<lambda>s. s)\<rparr>"

theorem check_or_status_witness:
  "\<exists>v w'. with_fallback (checks_notify (sample_env (Inr (JObj []))) sample_check_env sample_notifier sample_notify_comparison)
       (status_notify (sample_env (Inr (JObj []))) sample_notifier sample_notify_comparison) empty_world = (Inr v, w') \<and>
     nr_successful v = Some True \<and> (\<exists>s. SetStatus s \<in> set (nw_calls w'))"
proof -
  let ?E = "sample_env (Inr (JObj []))"
  let ?run = "with_fallback (checks_notify ?E sample_check_env sample_notifier sample_notify_comparison)
       (status_notify ?E sample_notifier sample_notify_comparison) empty_world"
  have "(case ?run of (Inr v, w') \<Rightarrow> nr_successful v = Some True | _ \<Rightarrow> False)" by code_simp
  then obtain v w' where run: "?run = (Inr v, w')" "nr_successful v = Some True" by (auto split: prod.splits sum.splits)
  have "check_result_of ?E sample_check_env sample_notifier sample_notify_comparison = None" by code_simp
  with check_or_status [OF run] run show ?thesis by auto
qed

end
