(* ===== verification/Comment_Notifier.thy ===== *)
theory Comment_Notifier
  imports Notifier
begin

text \<open>
  The comment on a pull request (apps/worker/services/notification/notifiers/comment/__init__.py and
  conditions.py): when a comment is written, which message it has, and how the four behaviours post, edit and delete it.
  The text of the coverage report itself (\<open>create_message\<close>) and the rewriting of links are arguments.
\<close>

section \<open>Messages\<close>

record comment_notifier =
  cn_settings :: settings
  cn_yaml :: json
  cn_decoration :: decoration
  cn_private :: bool
  cn_plan :: string
  cn_createstamp :: "int option"
  cn_auto_activate :: json

record comment_env =
  cm_diff :: "raw_diff option res"
  cm_first_pull :: bool
  cm_author :: string
  cm_members_url :: string
  cm_plan_url :: string
  cm_licensed :: bool
  cm_create :: "(string, string) dict option \<Rightarrow> string list res"
  cm_track :: "string \<Rightarrow> string"

definition apostrophe :: string where
  "apostrophe = [CHR 0x27]"

text \<open>Seconds of 2024-05-01.\<close>

definition introduction_date :: int where
  "introduction_date = 1714521600"

definition should_see_project_coverage_cta :: "comment_notifier \<Rightarrow> bool" where
  "should_see_project_coverage_cta n =
     (let recent = (case cn_createstamp n of None \<Rightarrow> False | Some t \<Rightarrow> introduction_date < t)
      in (\<not> cn_private n \<and> recent) \<or> (cn_plan n \<notin> {''users-teamm'', ''users-teamy''} \<and> recent))"

definition welcome_lines :: "string list" where
  "welcome_lines =
     [''## Welcome to [Codecov](https://codecov.io) :tada:'', [],
      ''Once you merge this PR into your default branch, you'' @ apostrophe @ ''re all set! Codecov will compare coverage reports and display results in all future pull requests.'',
      [], ''Thanks for integrating Codecov - We'' @ apostrophe @ ''ve got you covered :open_umbrella:'']"

definition coverage_cta :: "string list" where
  "coverage_cta =
     ['':information_source: You can also turn on [project coverage checks](https://docs.codecov.com/docs/common-recipe-list#set-project-coverage-checks-on-a-pull-request) '' @
      ''and [project coverage reporting on Pull Request comment](https://docs.codecov.com/docs/common-recipe-list#show-project-coverage-changes-on-the-pull-request-comment)'', []]"

definition create_welcome_message :: "comment_notifier \<Rightarrow> string list" where
  "create_welcome_message n =
     (if should_see_project_coverage_cta n then take 4 welcome_lines @ coverage_cta @ drop 4 welcome_lines else welcome_lines)"

definition create_empty_upload_message :: "decoration \<Rightarrow> string list" where
  "create_empty_upload_message d =
     (if d = D_passing_empty_upload then
        [''## Codecov Report'',
         '':heavy_check_mark: **No coverage data to report**, because files changed do not require tests or are set to [ignore](https://docs.codecov.com/docs/ignoring-paths#:~:text=You%20can%20use%20the%20top,will%20be%20skipped%20during%20processing.) '']
      else
        [''## Codecov Report'', ''This is an empty upload'',
         ''Files changed in this PR are testable or aren'' @ apostrophe @ ''t ignored by Codecov, please run your tests and upload coverage. If you wish to ignore these files, please visit our [ignoring paths docs](https://docs.codecov.com/docs/ignoring-paths).''])"

definition create_reached_upload_limit_message :: "comment_env \<Rightarrow> string list" where
  "create_reached_upload_limit_message M =
     [''## [Codecov]('' @ cm_plan_url M @ '') upload limit reached :warning:'',
      ''This org is currently on the free Basic Plan; which includes 250 free private repo uploads each rolling month.'' @
      replicate 17 (CHR '' '') @ ''This limit has been reached and additional reports cannot be generated. For unlimited uploads,'' @
      replicate 22 (CHR '' '') @ ''upgrade to our [pro plan]('' @ cm_plan_url M @ '').'',
      [],
      ''**Do you have questions or need help?** Connect with our sales team today at ` sales@codecov.io `'']"

definition create_upgrade_message :: "comment_env \<Rightarrow> string list" where
  "create_upgrade_message M =
     (if \<not> cm_licensed M then
        [''The author of this PR, '' @ cm_author M @ '', is not an activated member of this organization on Codecov.'',
         ''Please [activate this user on Codecov]('' @ cm_members_url M @ '') to display this PR comment.'',
         ''Coverage data is still being uploaded to Codecov.io for purposes of overall coverage calculations.'',
         ''Please don'' @ apostrophe @ ''t hesitate to email us at support@codecov.io with any questions.'']
      else
        [''The author of this PR, '' @ cm_author M @ '', is not activated in your Codecov Self-Hosted installation.'',
         ''Please [activate this user]('' @ cm_members_url M @ '') to display this PR comment.'',
         ''Coverage data is still being uploaded to Codecov Self-Hosted for the purposes of overall coverage calculations.'',
         ''Please contact your Codecov On-Premises installation administrator with any questions.''])"

definition create_processing_upload_message :: "string list" where
  "create_processing_upload_message =
     [''We'' @ apostrophe @ ''re currently processing your upload.  This comment will be updated when the results are available.'']"

definition build_message :: "comment_notifier \<Rightarrow> comment_env \<Rightarrow> (string, string) dict option \<Rightarrow> string list res" where
  "build_message n M helper =
     (case cn_decoration n of
        D_upgrade \<Rightarrow> Inr (create_upgrade_message M)
      | D_processing_upload \<Rightarrow> Inr create_processing_upload_message
      | D_passing_empty_upload \<Rightarrow> Inr (create_empty_upload_message (cn_decoration n))
      | D_failing_empty_upload \<Rightarrow> Inr (create_empty_upload_message (cn_decoration n))
      | D_upload_limit \<Rightarrow> Inr (create_reached_upload_limit_message M)
      | D_standard \<Rightarrow> if cm_first_pull M then Inr (create_welcome_message n) else cm_create M helper)"

section \<open>Conditions\<close>

text \<open>A number that the configuration gives.\<close>

definition int_setting :: "json \<Rightarrow> int res" where
  "int_setting v = (case v of JInt k \<Rightarrow> Inr k | JBool b \<Rightarrow> Inr (of_bool b) | JFloat q \<Rightarrow> Inl NotModelled | _ \<Rightarrow> Inl TypeError)"

definition head_report_of :: "notify_comparison \<Rightarrow> report res" where
  "head_report_of c = (case nc_report c of None \<Rightarrow> Inl AttributeError | Some r \<Rightarrow> Inr r)"

definition has_enough_builds :: "comment_notifier \<Rightarrow> notify_comparison \<Rightarrow> bool res" where
  "has_enough_builds n c =
     bind_res (head_report_of c) (\<lambda>r.
     bind_res (int_setting (setting (cn_settings n) ''after_n_builds'' (JInt 0))) (\<lambda>expected.
       Inr (expected \<le> int (length (r_sessions r)))))"

definition check_unexpected_changes :: "notify_comparison \<Rightarrow> bool res" where
  "check_unexpected_changes c = map_res (\<lambda>cs. cs \<noteq> None \<and> cs \<noteq> Some []) (cv_changes (nc_view c))"

definition check_coverage_change :: "comment_env \<Rightarrow> notify_comparison \<Rightarrow> bool res" where
  "check_coverage_change M c =
     bind_res (cm_diff M) (\<lambda>diff.
       case diff of
         None \<Rightarrow> Inr False
       | Some d \<Rightarrow> bind_res (head_report_of c) (\<lambda>r. map_res (\<lambda>res. 0 < t_lines (cd_general res)) (r_calculate_diff r d)))"

definition check_any_change :: "comment_env \<Rightarrow> notify_comparison \<Rightarrow> bool res" where
  "check_any_change M c =
     bind_res (check_unexpected_changes c) (\<lambda>u. bind_res (check_coverage_change M c) (\<lambda>d. Inr (u \<or> d)))"

definition quantize5 :: "fval \<Rightarrow> rat res" where
  "quantize5 v = bind_res (decimal_of v) (dec_quantize 5 rhe)"

text \<open>\<open>Decimal(v)\<close> of a setting.\<close>

definition decimal_value :: "json \<Rightarrow> rat res" where
  "decimal_value v =
     (case v of
        JStr s \<Rightarrow> Decimal s
      | JInt i \<Rightarrow> Inr (of_int i)
      | JBool b \<Rightarrow> Inr (of_bool b)
      | JFloat q \<Rightarrow> Inr q
      | JList xs \<Rightarrow> Inl NotModelled
      | _ \<Rightarrow> Inl TypeError)"

definition project_threshold :: "json \<Rightarrow> rat res" where
  "project_threshold yaml =
     (case read_yaml_field yaml [''coverage'', ''status'', ''project''] (JObj []) of
        JObj d \<Rightarrow> decimal_value (setting d ''threshold'' (JInt 0))
      | _ \<Rightarrow> Inr 0)"

definition cent :: rat where
  "cent = fl (1 / 100)"

definition report_totals_res :: "report_totals option res option \<Rightarrow> report_totals option res" where
  "report_totals_res t = (case t of None \<Rightarrow> Inr None | Some r \<Rightarrow> r)"

definition check_coverage_drop :: "json \<Rightarrow> notify_comparison \<Rightarrow> bool res" where
  "check_coverage_drop yaml c =
     bind_res (report_totals_of (cv_head (nc_view c))) (\<lambda>head.
     bind_res (report_totals_res (cv_base (nc_view c))) (\<lambda>base.
       if t_coverage head = VNone \<or> (case base of None \<Rightarrow> True | Some b \<Rightarrow> t_coverage b = VNone) then Inr True
       else
         bind_res (quantize5 (t_coverage head)) (\<lambda>head_coverage.
         bind_res (project_threshold yaml) (\<lambda>threshold.
         bind_res (quantize5 (t_coverage (the base))) (\<lambda>target_coverage.
           let diff = dec_minus head_coverage target_coverage
           in Inr (diff < 0 \<and> dec_round (threshold + cent) \<le> \<bar>diff\<bar>))))))"

definition check_uncovered_patch :: "notify_comparison \<Rightarrow> bool res" where
  "check_uncovered_patch c =
     bind_res (cv_applied (nc_view c)) (\<lambda>totals.
       case totals of
         None \<Rightarrow> Inr False
       | Some t \<Rightarrow>
           if t_lines t = 0 then Inr False
           else map_res (\<lambda>coverage. cent \<le> \<bar>dec_minus coverage 100\<bar>) (quantize5 (t_coverage t)))"

text \<open>One bit of the group, and what it asks for.\<close>

definition required_bit :: "int \<Rightarrow> nat \<Rightarrow> bool res \<Rightarrow> bool res" where
  "required_bit condition_group k check = (if bit condition_group k then check else Inr False)"

definition check_condition_OR_group :: "comment_notifier \<Rightarrow> comment_env \<Rightarrow> notify_comparison \<Rightarrow> int \<Rightarrow> bool res" where
  "check_condition_OR_group n M c condition_group =
     (if condition_group = 0 then Inr True
      else
        bind_res (required_bit condition_group 0 (check_any_change M c)) (\<lambda>a.
        bind_res (required_bit condition_group 1 (check_coverage_drop (cn_yaml n) c)) (\<lambda>d.
        bind_res (required_bit condition_group 2 (check_uncovered_patch c)) (\<lambda>u.
          Inr (a \<or> d \<or> u)))))"

fun all_groups :: "(int \<Rightarrow> bool res) \<Rightarrow> json list \<Rightarrow> bool res" where
  "all_groups check [] = Inr True"
| "all_groups check (g # gs) = bind_res (bind_res (int_setting g) check) (\<lambda>ok. if ok then all_groups check gs else Inr False)"

definition required_groups :: "comment_notifier \<Rightarrow> json list res" where
  "required_groups n =
     (case setting (cn_settings n) ''require_changes'' (JList [JInt 0]) of
        JBool b \<Rightarrow> Inr [JBool b]
      | JList gs \<Rightarrow> Inr gs
      | JStr s \<Rightarrow> Inl NotModelled
      | JObj d \<Rightarrow> Inl NotModelled
      | _ \<Rightarrow> Inl TypeError)"

definition has_enough_required_changes :: "comment_notifier \<Rightarrow> comment_env \<Rightarrow> notify_comparison \<Rightarrow> bool res" where
  "has_enough_required_changes n M c =
     (if (case nc_pull c of None \<Rightarrow> False | Some pull \<Rightarrow> j_truthy (pu_commentid pull)) then Inr True
      else bind_res (required_groups n) (all_groups (check_condition_OR_group n M c)))"

definition pull_head_matches :: "notify_comparison \<Rightarrow> bool res" where
  "pull_head_matches c = (case nc_pull c of None \<Rightarrow> Inl AttributeError | Some pull \<Rightarrow> Inr (pu_head pull = nc_head c))"

definition notify_conditions :: "comment_notifier \<Rightarrow> comment_env \<Rightarrow> notify_comparison \<Rightarrow> (string \<times> bool res) list" where
  "notify_conditions n M c =
     [(''no_pull_request'', Inr (nc_pull c \<noteq> None)),
      (''pull_request_not_in_provider'', Inr (nc_in_provider c)),
      (''pull_head_does_not_match'', pull_head_matches c),
      (''not_enough_builds'', has_enough_builds n c),
      (''changes_required'', has_enough_required_changes n M c),
      (''auto_activate_message_but_auto_activate_is_off'', Inr (cn_auto_activate n \<noteq> JBool False \<or> cn_decoration n \<noteq> D_upgrade))]"

text \<open>The explanation of the first condition that does not hold.\<close>

fun failed_condition :: "(string \<times> bool res) list \<Rightarrow> string option res" where
  "failed_condition [] = Inr None"
| "failed_condition ((explanation, check) # cs) =
     bind_res check (\<lambda>ok. if ok then failed_condition cs else Inr (Some explanation))"

section \<open>Posting, editing and deleting\<close>

definition comment_result :: "bool \<Rightarrow> bool option \<Rightarrow> string option \<Rightarrow> json \<Rightarrow> notification_result" where
  "comment_result attempted successful explanation received =
     NotificationResult\<lparr>nr_attempted := attempted, nr_successful := successful, nr_explanation := explanation, nr_data_received := received\<rparr>"

definition comment_sent :: "json \<Rightarrow> notification_result res" where
  "comment_sent answer = map_res (\<lambda>i. comment_result True (Some True) None (JObj [(''id'', i)])) (get_item answer ''id'')"

definition comment_refused :: "string \<Rightarrow> notification_result" where
  "comment_refused explanation = comment_result True (Some False) (Some explanation) JNull"

type_synonym comment_action = "(notify_world, notification_result) action"

text \<open>A call with its handlers: what to do on an answer and on an error of the provider.\<close>

definition try_call :: "notify_env \<Rightarrow> provider_call \<Rightarrow> (json \<Rightarrow> comment_action) \<Rightarrow> (py_error \<Rightarrow> comment_action) \<Rightarrow> comment_action" where
  "try_call E call answered failed w =
     (case call_provider E call w of (Inr a, w') \<Rightarrow> answered a w' | (Inl e, w') \<Rightarrow> failed e w')"

definition raise_error :: "py_error \<Rightarrow> comment_action" where
  "raise_error e = lift_res (Inl e)"

definition post_or_refused :: "notify_env \<Rightarrow> int \<Rightarrow> string \<Rightarrow> comment_action" where
  "post_or_refused E pullid message =
     try_call E (PostComment pullid message) (\<lambda>a. lift_res (comment_sent a))
       (\<lambda>e. if is_client_error e then yield (comment_refused ''comment_posting_permissions'') else raise_error e)"

definition plain_post :: "notify_env \<Rightarrow> int \<Rightarrow> string \<Rightarrow> comment_action" where
  "plain_post E pullid message = try_call E (PostComment pullid message) (\<lambda>a. lift_res (comment_sent a)) raise_error"

definition send_comment_default_behavior :: "notify_env \<Rightarrow> int \<Rightarrow> json \<Rightarrow> string \<Rightarrow> comment_action" where
  "send_comment_default_behavior E pullid commentid message =
     (if j_truthy commentid then
        try_call E (EditComment pullid commentid message) (\<lambda>a. lift_res (comment_sent a))
          (\<lambda>e. if is_client_error e then post_or_refused E pullid message else raise_error e)
      else post_or_refused E pullid message)"

definition send_comment_once_behavior :: "notify_env \<Rightarrow> int \<Rightarrow> json \<Rightarrow> string \<Rightarrow> comment_action" where
  "send_comment_once_behavior E pullid commentid message =
     (if j_truthy commentid then
        try_call E (EditComment pullid commentid message) (\<lambda>a. lift_res (comment_sent a))
          (\<lambda>e. if e = TorngitError TorngitObjectNotFoundError then yield (comment_result False None (Some ''comment_deleted'') JNull)
               else if is_client_error e then yield (comment_refused ''no_permissions'')
               else raise_error e)
      else plain_post E pullid message)"

definition send_comment_new_behavior :: "notify_env \<Rightarrow> int \<Rightarrow> json \<Rightarrow> string \<Rightarrow> comment_action" where
  "send_comment_new_behavior E pullid commentid message =
     (if j_truthy commentid then
        try_call E (DeleteComment pullid commentid) (\<lambda>_. post_or_refused E pullid message)
          (\<lambda>e. if e = TorngitError TorngitObjectNotFoundError then post_or_refused E pullid message
               else if is_client_error e then yield (comment_refused ''no_permissions'')
               else raise_error e)
      else post_or_refused E pullid message)"

definition send_comment_spammy_behavior :: "notify_env \<Rightarrow> int \<Rightarrow> json \<Rightarrow> string \<Rightarrow> comment_action" where
  "send_comment_spammy_behavior E pullid commentid message = plain_post E pullid message"

definition comment_data :: "string list \<Rightarrow> json \<Rightarrow> int \<Rightarrow> json" where
  "comment_data message commentid pullid =
     JObj [(''message'', JList (map JStr message)), (''commentid'', commentid), (''pullid'', JInt pullid)]"

text \<open>An unknown behaviour leaves the result unbound.\<close>

definition send_with_behavior :: "notify_env \<Rightarrow> json \<Rightarrow> int \<Rightarrow> json \<Rightarrow> string \<Rightarrow> comment_action" where
  "send_with_behavior E behavior pullid commentid message =
     (if behavior = JStr ''default'' then send_comment_default_behavior E pullid commentid message
      else if behavior = JStr ''once'' then send_comment_once_behavior E pullid commentid message
      else if behavior = JStr ''new'' then send_comment_new_behavior E pullid commentid message
      else if behavior = JStr ''spammy'' then send_comment_spammy_behavior E pullid commentid message
      else raise_error UnboundLocalError)"

definition comment_behavior :: "comment_notifier \<Rightarrow> json" where
  "comment_behavior n = setting (cn_settings n) ''behavior'' (JStr ''default'')"

definition send_actual_notification :: "notify_env \<Rightarrow> comment_notifier \<Rightarrow> comment_env \<Rightarrow> string list \<Rightarrow> json \<Rightarrow> int \<Rightarrow> comment_action" where
  "send_actual_notification E n M lines commentid pullid =
     and_then (send_with_behavior E (comment_behavior n) pullid commentid (cm_track M (join_str [newline] lines)))
       (\<lambda>res. yield (res\<lparr>nr_data_sent := comment_data lines commentid pullid\<rparr>))"

text \<open>The conditions hold and the message is built: what is left of \<open>notify\<close>, with its handler.\<close>

definition send_comment :: "notify_env \<Rightarrow> comment_notifier \<Rightarrow> comment_env \<Rightarrow> pull_request \<Rightarrow> string list \<Rightarrow> comment_action" where
  "send_comment E n M pull message w =
     (case send_actual_notification E n M message (pu_commentid pull) (pu_id pull) w of
        (Inl e, w') \<Rightarrow>
          (if is_server_failure e
           then Inr (attempt_failed ''provider_issue'' (comment_data message (pu_commentid pull) (pu_id pull))) else Inl e, w')
      | r \<Rightarrow> r)"

definition comment_notify ::
  "notify_env \<Rightarrow> comment_notifier \<Rightarrow> comment_env \<Rightarrow> (string, string) dict option \<Rightarrow> notify_comparison \<Rightarrow> comment_action" where
  "comment_notify E n M helper c =
     and_then (lift_res (failed_condition (notify_conditions n M c))) (\<lambda>failed.
       case (failed, nc_pull c) of
         (Some explanation, _) \<Rightarrow> yield (merge_results (NotificationResult\<lparr>nr_explanation := Some explanation\<rparr>) NotificationResult)
       | (None, None) \<Rightarrow> raise_error AttributeError
       | (None, Some pull) \<Rightarrow> (\<lambda>w.
           case build_message n M helper of
             Inl e \<Rightarrow>
               if is_client_error e then (Inr (NotificationResult\<lparr>nr_explanation := Some ''unable_build_message''\<rparr>), w) else (Inl e, w)
           | Inr message \<Rightarrow>
               send_comment E n M pull message w))"

definition store_results :: "notification_result \<Rightarrow> pull_request \<Rightarrow> pull_request" where
  "store_results v pull =
     (if \<not> nr_attempted v \<or> nr_successful v \<noteq> Some True \<or> \<not> j_truthy (nr_data_received v) then pull
      else case nr_data_received v of
        JObj d \<Rightarrow>
          if j_truthy (setting d ''id'' JNull) then pull\<lparr>pu_commentid := setting d ''id'' JNull\<rparr>
          else if j_truthy (setting d ''deleted_comment'' JNull) then pull\<lparr>pu_commentid := JNull\<rparr>
          else pull
      | _ \<Rightarrow> pull)"

definition comment_is_enabled :: "json \<Rightarrow> bool" where
  "comment_is_enabled settings = (case settings of JObj d \<Rightarrow> d \<noteq> [] | _ \<Rightarrow> False)"


section \<open>At most one comment\<close>

text \<open>The comments of a pull request that were posted and not deleted, from the calls and the answers to them.\<close>

fun live_rev :: "(provider_call list \<Rightarrow> provider_call \<Rightarrow> json res) \<Rightarrow> int \<Rightarrow> provider_call list \<Rightarrow> json set" where
  "live_rev A pullid [] = {}"
| "live_rev A pullid (call # h) =
     (case (call, A (rev h) call) of
        (PostComment p m, Inr a) \<Rightarrow>
          if p = pullid then (case get_item a ''id'' of Inr i \<Rightarrow> insert i (live_rev A pullid h) | Inl _ \<Rightarrow> live_rev A pullid h)
          else live_rev A pullid h
      | (DeleteComment p i, Inr a) \<Rightarrow> if p = pullid then live_rev A pullid h - {i} else live_rev A pullid h
      | _ \<Rightarrow> live_rev A pullid h)"

definition live_comments :: "(provider_call list \<Rightarrow> provider_call \<Rightarrow> json res) \<Rightarrow> int \<Rightarrow> provider_call list \<Rightarrow> json set" where
  "live_comments A pullid h = live_rev A pullid (rev h)"

text \<open>What a provider does with comments: posting answers with an id, and editing a comment keeps its id.\<close>

definition comment_provider :: "(provider_call list \<Rightarrow> provider_call \<Rightarrow> json res) \<Rightarrow> bool" where
  "comment_provider A \<longleftrightarrow>
     (\<forall>h p m a. A h (PostComment p m) = Inr a \<longrightarrow> (\<exists>i. get_item a ''id'' = Inr i \<and> j_truthy i)) \<and>
     (\<forall>h p i m a. A h (EditComment p i m) = Inr a \<longrightarrow> get_item a ''id'' = Inr i)"

text \<open>
  The comments that the provider would not let Codecov reach: deleting one was answered with not found, or, where \<open>edits\<close> says
  that refused edits count, editing one was refused (permissions, rate limit, not found).
\<close>

fun refused_rev :: "(provider_call list \<Rightarrow> provider_call \<Rightarrow> json res) \<Rightarrow> bool \<Rightarrow> int \<Rightarrow> provider_call list \<Rightarrow> json set" where
  "refused_rev A edits pullid [] = {}"
| "refused_rev A edits pullid (call # h) =
     (case (call, A (rev h) call) of
        (EditComment p i m, Inl e) \<Rightarrow>
          if p = pullid \<and> edits \<and> is_client_error e then insert i (refused_rev A edits pullid h) else refused_rev A edits pullid h
      | (DeleteComment p i, Inl e) \<Rightarrow>
          if p = pullid \<and> e = TorngitError TorngitObjectNotFoundError then insert i (refused_rev A edits pullid h)
          else refused_rev A edits pullid h
      | _ \<Rightarrow> refused_rev A edits pullid h)"

definition refused_comments :: "(provider_call list \<Rightarrow> provider_call \<Rightarrow> json res) \<Rightarrow> bool \<Rightarrow> int \<Rightarrow> provider_call list \<Rightarrow> json set" where
  "refused_comments A edits pullid h = refused_rev A edits pullid (rev h)"

lemma refused_comments_snoc:
  "refused_comments A d p [] = {}"
  "refused_comments A d p h \<subseteq> refused_comments A d p (h @ [call])"
  "A h (EditComment p i m) = Inl e \<Longrightarrow> is_client_error e \<Longrightarrow> i \<in> refused_comments A True p (h @ [EditComment p i m])"
  "A h (DeleteComment p i) = Inl (TorngitError TorngitObjectNotFoundError) \<Longrightarrow> i \<in> refused_comments A d p (h @ [DeleteComment p i])"
  by (auto simp: refused_comments_def split: sum.splits provider_call.splits)

lemma live_comments_snoc:
  "live_comments A p [] = {}"
  "live_comments A p (h @ [PostComment p m]) =
     (case A h (PostComment p m) of
        Inr a \<Rightarrow> (case get_item a ''id'' of Inr i \<Rightarrow> insert i (live_comments A p h) | Inl _ \<Rightarrow> live_comments A p h)
      | Inl _ \<Rightarrow> live_comments A p h)"
  "live_comments A p (h @ [DeleteComment p i]) = (if is_ok (A h (DeleteComment p i)) then live_comments A p h - {i} else live_comments A p h)"
  "live_comments A p (h @ [EditComment p' i m]) = live_comments A p h"
  by (simp_all add: live_comments_def is_ok_def split: sum.splits)

text \<open>
  The id that the database keeps for the pull request is the id of the only comment, apart from the comments that the provider
  would not let Codecov reach.
\<close>

definition only_comment :: "(provider_call list \<Rightarrow> provider_call \<Rightarrow> json res) \<Rightarrow> bool \<Rightarrow> pull_request \<Rightarrow> notify_world \<Rightarrow> bool" where
  "only_comment A edits pull w \<longleftrightarrow>
     live_comments A (pu_id pull) (nw_calls w) \<subseteq>
       (if j_truthy (pu_commentid pull) then {pu_commentid pull} else {}) \<union> refused_comments A edits (pu_id pull) (nw_calls w)"

definition unreachable_only :: "(provider_call list \<Rightarrow> provider_call \<Rightarrow> json res) \<Rightarrow> bool \<Rightarrow> int \<Rightarrow> provider_call list \<Rightarrow> bool" where
  "unreachable_only A edits pullid calls \<longleftrightarrow> live_comments A pullid calls \<subseteq> refused_comments A edits pullid calls"

definition stored :: "notification_result res \<Rightarrow> pull_request \<Rightarrow> pull_request" where
  "stored r pull = (case r of Inr v \<Rightarrow> store_results v pull | Inl _ \<Rightarrow> pull)"

lemma stored_id [simp]: "pu_id (stored r pull) = pu_id pull"
  by (auto simp: stored_def store_results_def split: sum.splits json.splits)

lemma stored_comment_sent:
  assumes "get_item a ''id'' = Inr i" "j_truthy i"
  shows "stored (comment_sent a) pull = pull\<lparr>pu_commentid := i\<rparr>"
  using assms by (simp add: stored_def comment_sent_def comment_result_def NotificationResult_def store_results_def setting_def dict_get_def)

lemma stored_other [simp]:
  "stored (Inl e) pull = pull" "stored (Inr (comment_refused x)) pull = pull"
  "stored (Inr (comment_result False s y d)) pull = pull"
  by (simp_all add: stored_def comment_refused_def comment_result_def NotificationResult_def store_results_def)

lemma try_callE:
  assumes "try_call E call answered failed w = (r, w')"
  obtains (answered) a where "ne_answer E (nw_calls w) call = Inr a" "answered a (w\<lparr>nw_calls := nw_calls w @ [call]\<rparr>) = (r, w')"
    | (failed) e where "ne_answer E (nw_calls w) call = Inl e" "failed e (w\<lparr>nw_calls := nw_calls w @ [call]\<rparr>) = (r, w')"
  using assms by (auto simp: try_call_def call_provider_def split: sum.splits)

lemma post_keeps_one:
  assumes "comment_provider (ne_answer E)" "unreachable_only (ne_answer E) d (pu_id pull) (nw_calls w)"
    and "post_or_refused E (pu_id pull) m w = (r, w') \<or> plain_post E (pu_id pull) m w = (r, w')"
  shows "only_comment (ne_answer E) d (stored r pull) w'"
proof -
  let ?call = "PostComment (pu_id pull) m"
  note below = subset_trans [OF assms(2) [unfolded unreachable_only_def] refused_comments_snoc(2) [where call = ?call]]
  from assms(3) consider (answered) a where "ne_answer E (nw_calls w) ?call = Inr a" "r = comment_sent a" "nw_calls w' = nw_calls w @ [?call]"
    | (failed) e where "ne_answer E (nw_calls w) ?call = Inl e" "stored r pull = pull" "nw_calls w' = nw_calls w @ [?call]"
    by (auto simp: post_or_refused_def plain_post_def raise_error_def lift_res_def elim!: try_callE split: if_splits)
  then show ?thesis
  proof cases
    case (answered a)
    from assms(1) answered(1) obtain i where i: "get_item a ''id'' = Inr i" "j_truthy i" unfolding comment_provider_def by blast
    from stored_comment_sent [OF i, of pull] i below show ?thesis
      by (auto simp: only_comment_def answered live_comments_snoc)
  next
    case (failed e)
    then show ?thesis using below by (auto simp: only_comment_def live_comments_snoc)
  qed
qed

text \<open>A missing id means that there is no comment to lose.\<close>

lemma no_id_unreachable:
  "only_comment A d pull w \<Longrightarrow> \<not> j_truthy (pu_commentid pull) \<Longrightarrow> unreachable_only A d (pu_id pull) (nw_calls w)"
  by (simp add: only_comment_def unreachable_only_def)

text \<open>An edit that succeeds keeps the id, and one that is refused leaves only comments out of reach.\<close>

lemma edit_keeps_one:
  assumes A: "comment_provider (ne_answer E)" and one: "only_comment (ne_answer E) d pull w" and c: "j_truthy (pu_commentid pull)"
    and ans: "ne_answer E (nw_calls w) (EditComment (pu_id pull) (pu_commentid pull) m) = q"
    and w1: "nw_calls w1 = nw_calls w @ [EditComment (pu_id pull) (pu_commentid pull) m]"
  shows "q = Inr a \<Longrightarrow> only_comment (ne_answer E) d (stored (comment_sent a) pull) w1"
    "only_comment (ne_answer E) d pull w1"
    "q = Inl e \<Longrightarrow> is_client_error e \<Longrightarrow> d \<Longrightarrow> unreachable_only (ne_answer E) d (pu_id pull) (nw_calls w1)"
proof -
  let ?edit = "EditComment (pu_id pull) (pu_commentid pull) m"
  have live: "live_comments (ne_answer E) (pu_id pull) (nw_calls w1) = live_comments (ne_answer E) (pu_id pull) (nw_calls w)"
    by (simp add: w1 live_comments_snoc)
  have refused: "refused_comments (ne_answer E) d (pu_id pull) (nw_calls w) \<subseteq> refused_comments (ne_answer E) d (pu_id pull) (nw_calls w1)"
    unfolding w1 by (rule refused_comments_snoc(2))
  from live refused show same: "only_comment (ne_answer E) d pull w1" using one by (auto simp: only_comment_def)
  show "only_comment (ne_answer E) d (stored (comment_sent a) pull) w1" if "q = Inr a"
  proof -
    from A that ans have "get_item a ''id'' = Inr (pu_commentid pull)" unfolding comment_provider_def by blast
    from stored_comment_sent [OF this c, of pull] same show ?thesis by simp
  qed
  show "unreachable_only (ne_answer E) d (pu_id pull) (nw_calls w1)" if "q = Inl e" "is_client_error e" d
  proof -
    from refused_comments_snoc(3) [of "ne_answer E" "nw_calls w" "pu_id pull" "pu_commentid pull" m e] that ans
    have "pu_commentid pull \<in> refused_comments (ne_answer E) d (pu_id pull) (nw_calls w1)" unfolding w1 by simp
    with same c show ?thesis by (auto simp: only_comment_def unreachable_only_def)
  qed
qed

lemma default_keeps_one:
  assumes "comment_provider (ne_answer E)" "only_comment (ne_answer E) True pull w"
    and run: "send_comment_default_behavior E (pu_id pull) (pu_commentid pull) m w = (r, w')"
  shows "only_comment (ne_answer E) True (stored r pull) w'"
proof (cases "j_truthy (pu_commentid pull)")
  case False
  then show ?thesis
    using post_keeps_one [OF assms(1) no_id_unreachable [OF assms(2)], of m r w'] run by (simp add: send_comment_default_behavior_def)
next
  case True
  let ?edit = "EditComment (pu_id pull) (pu_commentid pull) m"
  let ?w1 = "w\<lparr>nw_calls := nw_calls w @ [?edit]\<rparr>"
  note e = edit_keeps_one [OF assms(1,2) True refl, of ?w1 m, simplified]
  from run True show ?thesis unfolding send_comment_default_behavior_def if_P [OF True]
  proof (elim try_callE)
    fix a assume "ne_answer E (nw_calls w) ?edit = Inr a" "lift_res (comment_sent a) ?w1 = (r, w')"
    then show ?thesis using e(1) by (auto simp: lift_res_def)
  next
    fix x assume x: "ne_answer E (nw_calls w) ?edit = Inl x"
      "(if is_client_error x then post_or_refused E (pu_id pull) m else raise_error x) ?w1 = (r, w')"
    then show ?thesis
      using e(2,3) post_keeps_one [OF assms(1), of True pull ?w1 m r w'] by (auto simp: raise_error_def lift_res_def split: if_splits)
  qed
qed

lemma once_keeps_one:
  assumes "comment_provider (ne_answer E)" "only_comment (ne_answer E) d pull w"
    and run: "send_comment_once_behavior E (pu_id pull) (pu_commentid pull) m w = (r, w')"
  shows "only_comment (ne_answer E) d (stored r pull) w'"
proof (cases "j_truthy (pu_commentid pull)")
  case False
  then show ?thesis
    using post_keeps_one [OF assms(1) no_id_unreachable [OF assms(2)], of m r w'] run by (simp add: send_comment_once_behavior_def)
next
  case True
  let ?edit = "EditComment (pu_id pull) (pu_commentid pull) m"
  let ?w1 = "w\<lparr>nw_calls := nw_calls w @ [?edit]\<rparr>"
  note e = edit_keeps_one [OF assms(1,2) True refl, of ?w1 m, simplified]
  from run show ?thesis unfolding send_comment_once_behavior_def if_P [OF True]
    using e(1,2) by (auto simp: lift_res_def raise_error_def elim!: try_callE split: if_splits)
qed

lemma new_keeps_one:
  assumes "comment_provider (ne_answer E)" "only_comment (ne_answer E) d pull w"
    and run: "send_comment_new_behavior E (pu_id pull) (pu_commentid pull) m w = (r, w')"
  shows "only_comment (ne_answer E) d (stored r pull) w'"
proof (cases "j_truthy (pu_commentid pull)")
  case False
  then show ?thesis
    using post_keeps_one [OF assms(1) no_id_unreachable [OF assms(2)], of m r w'] run by (simp add: send_comment_new_behavior_def)
next
  case True
  let ?A = "ne_answer E"
  let ?del = "DeleteComment (pu_id pull) (pu_commentid pull)"
  let ?w1 = "w\<lparr>nw_calls := nw_calls w @ [?del]\<rparr>"
  let ?refused = "refused_comments ?A d (pu_id pull)"
  have live: "live_comments ?A (pu_id pull) (nw_calls w) \<subseteq> insert (pu_commentid pull) (?refused (nw_calls w))"
    using assms(2) True by (simp add: only_comment_def)
  have below: "?refused (nw_calls w) \<subseteq> ?refused (nw_calls ?w1)" by (simp add: refused_comments_snoc(2))
  have gone: "unreachable_only ?A d (pu_id pull) (nw_calls ?w1)"
    if "is_ok (?A (nw_calls w) ?del) \<or> ?A (nw_calls w) ?del = Inl (TorngitError TorngitObjectNotFoundError)"
    using that live below refused_comments_snoc(4) [of ?A "nw_calls w" "pu_id pull" "pu_commentid pull" d]
    unfolding unreachable_only_def by (auto simp: live_comments_snoc is_ok_def)
  have kept: "only_comment ?A d pull ?w1" using live below True by (auto simp: only_comment_def live_comments_snoc)
  note post = post_keeps_one [OF assms(1), of d pull ?w1 m r w']
  from run show ?thesis unfolding send_comment_new_behavior_def if_P [OF True]
    using gone kept post by (auto simp: lift_res_def raise_error_def is_ok_def elim!: try_callE split: if_splits)
qed

text \<open>The behaviours that leave at most one comment; refused edits count only where \<open>default\<close> is among them.\<close>

definition single_comment_behavior :: "bool \<Rightarrow> json \<Rightarrow> bool" where
  "single_comment_behavior edits behavior \<longleftrightarrow> behavior \<noteq> JStr ''spammy'' \<and> (behavior = JStr ''default'' \<longrightarrow> edits)"

lemma stored_with_data [simp]: "stored (Inr (v\<lparr>nr_data_sent := d\<rparr>)) pull = stored (Inr v) pull"
  by (simp add: stored_def store_results_def)

lemma actual_keeps_one:
  assumes "comment_provider (ne_answer E)" "only_comment (ne_answer E) d pull w" "single_comment_behavior d (comment_behavior n)"
    and "send_actual_notification E n M lines (pu_commentid pull) (pu_id pull) w = (r, w')"
  shows "only_comment (ne_answer E) d (stored r pull) w'"
proof -
  have act: "only_comment (ne_answer E) d (stored q pull) w2"
    if "send_with_behavior E (comment_behavior n) (pu_id pull) (pu_commentid pull) m w = (q, w2)" for q w2 m
    using that assms(2,3) default_keeps_one [OF assms(1)] once_keeps_one [OF assms(1,2)] new_keeps_one [OF assms(1,2)]
    by (auto simp: send_with_behavior_def single_comment_behavior_def raise_error_def lift_res_def split: if_splits)
  from assms(4) show ?thesis unfolding send_actual_notification_def
  proof (cases rule: and_then_eqE)
    case (raised e)
    with act [OF raised(1)] show ?thesis by simp
  next
    case (went_on a w1)
    with act [OF went_on(1)] show ?thesis by auto
  qed
qed

lemma unsent_stored: "\<not> nr_attempted v \<or> nr_successful v \<noteq> Some True \<Longrightarrow> stored (Inr v) pull = pull"
  by (auto simp: stored_def store_results_def)

lemma send_comment_keeps_one:
  assumes "comment_provider (ne_answer E)" "only_comment (ne_answer E) d pull w" "single_comment_behavior d (comment_behavior n)"
    and "send_comment E n M pull message w = (r, w')"
  shows "only_comment (ne_answer E) d (stored r pull) w'"
proof -
  obtain q w1 where q: "send_actual_notification E n M message (pu_commentid pull) (pu_id pull) w = (q, w1)"
    by (cases "send_actual_notification E n M message (pu_commentid pull) (pu_id pull) w")
  from actual_keeps_one [OF assms(1-3) q] assms(4) q show ?thesis
    by (cases q) (auto simp: send_comment_def unsent_stored split: if_splits)
qed

lemma comment_notifyE:
  assumes "comment_notify E n M helper c w = (r, w')" "nc_pull c = Some pull"
  obtains (unsent) "w' = w" "stored r pull = pull"
    | (sent) message where "failed_condition (notify_conditions n M c) = Inr None" "build_message n M helper = Inr message"
        "send_comment E n M pull message w = (r, w')"
proof (cases "failed_condition (notify_conditions n M c)")
  case (Inl e)
  then show thesis using assms by (intro unsent) (auto simp: comment_notify_def)
next
  case (Inr failed)
  show thesis
  proof (cases failed)
    case (Some x)
    then show thesis using assms Inr
      by (intro unsent) (auto simp: comment_notify_def unsent_stored merge_results_def NotificationResult_def)
  next
    case None
    then show thesis
      using assms Inr
      by (cases "build_message n M helper")
        (auto simp: comment_notify_def unsent_stored NotificationResult_def split: if_splits intro: unsent sent)
  qed
qed

lemma comment_notify_keeps_one:
  assumes "comment_provider (ne_answer E)" "only_comment (ne_answer E) d pull w" "nc_pull c = Some pull"
    and "single_comment_behavior d (comment_behavior n)" "comment_notify E n M helper c w = (r, w')"
  shows "only_comment (ne_answer E) d (stored r pull) w'"
  using assms(5,3)
proof (cases rule: comment_notifyE)
  case unsent
  with assms(2) show ?thesis by simp
next
  case (sent message)
  from send_comment_keeps_one [OF assms(1,2,4) sent(3)] show ?thesis .
qed

definition comment_call :: "provider_call \<Rightarrow> bool" where
  "comment_call call = (case call of PostComment _ _ \<Rightarrow> True | EditComment _ _ _ \<Rightarrow> True | DeleteComment _ _ \<Rightarrow> True | _ \<Rightarrow> False)"

lemma live_comments_other: "\<forall>call \<in> set calls. \<not> comment_call call \<Longrightarrow> live_comments A p (h @ calls) = live_comments A p h"
  by (induction calls rule: rev_induct) (auto simp: live_comments_def comment_call_def split: provider_call.splits)

lemma refused_comments_other:
  "\<forall>call \<in> set calls. \<not> comment_call call \<Longrightarrow> refused_comments A d p (h @ calls) = refused_comments A d p h"
  by (induction calls rule: rev_induct) (auto simp: refused_comments_def comment_call_def split: provider_call.splits)

lemma finite_refused [simp]: "finite (refused_comments A d p h)"
proof -
  have "finite (refused_rev A d p h)" for h by (induction h) (auto split: provider_call.splits sum.splits)
  then show ?thesis by (simp add: refused_comments_def)
qed

text \<open>
  What happens to the comments of a pull request: a notification with one of the behaviours but \<open>spammy\<close>, anyone deletes a
  comment, and calls of other notifiers. With \<open>edits\<close> false no notification has the behaviour \<open>default\<close>.
\<close>

inductive comment_step ::
  "(provider_call list \<Rightarrow> provider_call \<Rightarrow> json res) \<Rightarrow> bool \<Rightarrow> notify_world \<times> pull_request \<Rightarrow> notify_world \<times> pull_request \<Rightarrow> bool"
  for A d where
  notified: "ne_answer E = A \<Longrightarrow> nc_pull c = Some pull \<Longrightarrow> single_comment_behavior d (comment_behavior n) \<Longrightarrow>
    comment_notify E n M helper c w = (r, w') \<Longrightarrow> comment_step A d (w, pull) (w', stored r pull)"
| deleted: "comment_step A d (w, pull) (w\<lparr>nw_calls := nw_calls w @ [DeleteComment (pu_id pull) i]\<rparr>, pull)"
| others: "\<forall>call \<in> set calls. \<not> comment_call call \<Longrightarrow> comment_step A d (w, pull) (w\<lparr>nw_calls := nw_calls w @ calls\<rparr>, pull)"

lemma comment_step_keeps_one:
  assumes "comment_step A d s t" "comment_provider A" "only_comment A d (snd s) (fst s)"
  shows "only_comment A d (snd t) (fst t)"
  using assms
proof (cases rule: comment_step.cases)
  case (notified E c pull n M helper w r w')
  then show ?thesis using assms(2,3) comment_notify_keeps_one [of E d pull w c n M helper r w'] by simp
next
  case (deleted w pull i)
  let ?call = "DeleteComment (pu_id pull) i"
  from deleted show ?thesis using assms(3) refused_comments_snoc(2) [of A d "pu_id pull" "nw_calls w" ?call]
    by (auto simp: only_comment_def live_comments_snoc split: if_splits)
next
  case (others calls w pull)
  then show ?thesis using assms(3) by (simp add: only_comment_def live_comments_other refused_comments_other)
qed


text \<open>A provider that numbers the comments it gets.\<close>

fun numbered_rev :: "int \<Rightarrow> provider_call list \<Rightarrow> json set" where
  "numbered_rev pullid [] = {}"
| "numbered_rev pullid (call # h) =
     (case call of
        PostComment p m \<Rightarrow> if p = pullid then insert (JInt (int (length h) + 1)) (numbered_rev pullid h) else numbered_rev pullid h
      | DeleteComment p i \<Rightarrow> if p = pullid then numbered_rev pullid h - {i} else numbered_rev pullid h
      | _ \<Rightarrow> numbered_rev pullid h)"

fun numbering_provider :: "provider_call list \<Rightarrow> provider_call \<Rightarrow> json res" where
  "numbering_provider h (PostComment p m) = Inr (JObj [(''id'', JInt (int (length h) + 1))])"
| "numbering_provider h (EditComment p i m) =
     (if i \<in> numbered_rev p (rev h) then Inr (JObj [(''id'', i)]) else Inl (TorngitError TorngitObjectNotFoundError))"
| "numbering_provider h (DeleteComment p i) =
     (if i \<in> numbered_rev p (rev h) then Inr (JObj []) else Inl (TorngitError TorngitObjectNotFoundError))"
| "numbering_provider h call = Inr (JObj [])"

lemma numbered_live: "live_comments numbering_provider p h = numbered_rev p (rev h)"
proof -
  have "live_rev numbering_provider p h = numbered_rev p h" for h
    by (induction h) (auto simp: get_item_def dict_get_def split: provider_call.splits)
  then show ?thesis by (simp add: live_comments_def)
qed

lemma numbering_comment_provider: "comment_provider numbering_provider"
  unfolding comment_provider_def numbered_live by (auto simp: get_item_def dict_get_def split: if_splits)

definition sample_comment_notifier :: comment_notifier where
  "sample_comment_notifier =
     \<lparr>cn_settings = [(''behavior'', JStr ''new'')], cn_yaml = JObj [], cn_decoration = D_processing_upload, cn_private = False, cn_plan = [],
      cn_createstamp = None, cn_auto_activate = JNull\<rparr>"

definition sample_comment_env :: comment_env where
  "sample_comment_env =
     \<lparr>cm_diff = Inr None, cm_first_pull = False, cm_author = [], cm_members_url = [], cm_plan_url = [], cm_licensed = False,
      cm_create = (\<lambda>_. Inr []), cm_track = (\<lambda>s. s)\<rparr>"

definition numbering_env :: notify_env where
  "numbering_env = (sample_env (Inr JNull))\<lparr>ne_answer := numbering_provider\<rparr>"

definition sample_pull :: "json \<Rightarrow> pull_request" where
  "sample_pull i = \<lparr>pu_id = 9, pu_state = ''open'', pu_head = ''c2'', pu_commentid = i\<rparr>"

definition pull_comparison :: "json \<Rightarrow> notify_comparison" where
  "pull_comparison i =
     sample_notify_comparison\<lparr>nc_pull := Some (sample_pull i), nc_in_provider := True, nc_report := Some empty_report\<rparr>"


text \<open>
  The behaviour default posts a new comment when an edit is refused for lack of permissions: the old comment stays, and the pull
  request has two.
\<close>

definition refusing_provider :: "provider_call list \<Rightarrow> provider_call \<Rightarrow> json res" where
  "refusing_provider h call =
     (case call of
        PostComment p m \<Rightarrow> Inr (JObj [(''id'', JInt (int (length h) + 1))])
      | EditComment p i m \<Rightarrow> Inl (TorngitError (TorngitClientGeneralError 403))
      | _ \<Rightarrow> Inr (JObj []))"

definition refusing_env :: notify_env where
  "refusing_env = (sample_env (Inr JNull))\<lparr>ne_answer := refusing_provider\<rparr>"

lemma refused_edit_second_comment:
  "live_comments refusing_provider 9
     (nw_calls (snd (and_then (send_comment_default_behavior refusing_env 9 JNull ''a'')
        (\<lambda>_. send_comment_default_behavior refusing_env 9 (JInt 1) ''b'') empty_world))) = {JInt 1, JInt 3}"
  by code_simp

section \<open>Required changes\<close>

text \<open>
  A group of required changes is met when one of the changes it asks for is there, and all groups have to be met. A
  comment that is there already is updated in any case.
\<close>

lemma bind_const: "bind_res (required_bit g k (Inr b)) f = f (bit g k \<and> b)"
  by (simp add: required_bit_def)

lemma group_met:
  assumes "check_any_change M c = Inr a" "check_coverage_drop (cn_yaml n) c = Inr d" "check_uncovered_patch c = Inr u"
  shows "check_condition_OR_group n M c g = Inr (g = 0 \<or> bit g 0 \<and> a \<or> bit g 1 \<and> d \<or> bit g 2 \<and> u)"
  by (simp add: check_condition_OR_group_def assms bind_const)

lemma all_groups_met:
  assumes "\<And>g. check g = Inr (P g)"
  shows "all_groups check (map JInt gs) = Inr (\<forall>g \<in> set gs. P g)"
  by (induction gs) (auto simp: int_setting_def assms)

lemma required_changes_met:
  assumes "check_any_change M c = Inr a" "check_coverage_drop (cn_yaml n) c = Inr d" "check_uncovered_patch c = Inr u"
    and "setting (cn_settings n) ''require_changes'' (JList [JInt 0]) = JList (map JInt gs)"
    and "\<And>pull. nc_pull c = Some pull \<Longrightarrow> \<not> j_truthy (pu_commentid pull)"
  shows "has_enough_required_changes n M c = Inr (\<forall>g \<in> set gs. g = 0 \<or> bit g 0 \<and> a \<or> bit g 1 \<and> d \<or> bit g 2 \<and> u)"
  using assms(5) all_groups_met [OF group_met [OF assms(1-3)], where gs = gs]
  by (simp add: has_enough_required_changes_def required_groups_def assms(4) split: option.splits)

text \<open>
  The named statuses of the project section are dictionaries or truth values; the threshold of a status is one level below the
  place where the comment looks for it, so that it is never taken into account.
\<close>

lemma nested_threshold_ignored:
  assumes "read_yaml_field yaml [''coverage'', ''status'', ''project''] (JObj []) = JObj [(''default'', JObj [(''threshold'', JFloat q)])]"
  shows "project_threshold yaml = Inr 0"
  by (simp add: project_threshold_def assms setting_def dict_get_def decimal_value_def)

text \<open>A drop of exactly one hundredth of a percent is not a drop: \<open>Decimal(0.01)\<close> is a little more than that.\<close>

lemma cent_above: "1 / 100 < cent"
  by code_simp

end
