(* ===== verification/Notification_Service.thy ===== *)
theory Notification_Service
  imports Checks Comment_Notifier
begin

text \<open>
  The notification service (apps/worker/services/notification/__init__.py, notifiers/__init__.py,
  commit_notifications.py): which notifiers there are for a repository, running all of them although some fail, and the records of
  what was sent. Plans, installations and the license are arguments, as are the notifiers themselves in
  \<open>service_notify\<close>; that statuses, checks and comments are such notifiers is shown below.
\<close>

section \<open>Statuses of a configuration\<close>

record github_app =
  ga_name :: string
  ga_app_id :: "int option"
  ga_pem_path :: "string option"
  ga_ownerid :: int
  ga_repository_ids :: "string list option"

definition DEFAULT_APP_NAME :: string where
  "DEFAULT_APP_NAME = ''codecov_app_installation''"

definition is_configured :: "github_app \<Rightarrow> bool" where
  "is_configured a = (ga_name a = DEFAULT_APP_NAME \<or> (ga_app_id a \<noteq> None \<and> ga_pem_path a \<noteq> None))"

record service_repository =
  rp_ownerid :: int
  rp_service_id :: string
  rp_using_integration :: bool
  rp_integration_id :: "int option"
  rp_service :: string
  rp_tier :: string
  rp_apps :: "github_app list"
  rp_flags :: "(string \<times> bool) list"

definition is_repo_covered_by_integration :: "github_app \<Rightarrow> service_repository \<Rightarrow> bool" where
  "is_repo_covered_by_integration a rp =
     (case ga_repository_ids a of None \<Rightarrow> rp_ownerid rp = ga_ownerid a | Some ids \<Rightarrow> rp_service_id rp \<in> set ids)"

definition should_use_status_notifier :: "service_repository \<Rightarrow> json \<Rightarrow> bool" where
  "should_use_status_notifier rp status_type = (\<not> (rp_tier rp = ''team'' \<and> status_type \<noteq> JStr ''patch''))"

definition should_use_checks_notifier :: "service_repository \<Rightarrow> json \<Rightarrow> string \<Rightarrow> json \<Rightarrow> bool" where
  "should_use_checks_notifier rp yaml app_name status_type =
     (if read_yaml_field yaml [''github_checks''] JNull = JBool False then False
      else if rp_service rp \<notin> {''github'', ''github_enterprise''} then False
      else if rp_tier rp = ''team'' \<and> status_type \<noteq> JStr ''patch'' then False
      else (\<exists>a \<in> set (rp_apps rp). ga_name a = app_name \<and> is_configured a \<and> is_repo_covered_by_integration a rp) \<or>
           (rp_using_integration rp \<and> (case rp_integration_id rp of None \<Rightarrow> False | Some i \<Rightarrow> i \<noteq> 0)))"

text \<open>A status: its type, its title and its settings.\<close>

type_synonym status_spec = "json \<times> string \<times> settings"

definition text_of :: "json \<Rightarrow> string res" where
  "text_of v = (case v of JStr s \<Rightarrow> Inr s | _ \<Rightarrow> Inl NotModelled)"

definition prefixed :: "json \<Rightarrow> string \<Rightarrow> string res" where
  "prefixed st name = bind_res (get_or st ''name_prefix'' (JStr [])) (\<lambda>p. map_res (\<lambda>s. s @ name) (text_of p))"

text \<open>\<open>{**extra, **st}\<close>, with the type and the title of the status.\<close>

definition spec_of :: "(string, json) dict \<Rightarrow> string \<Rightarrow> json \<Rightarrow> status_spec res" where
  "spec_of extra name st =
     (case st of
        JObj d \<Rightarrow>
          bind_res (get_item st ''type'') (\<lambda>key.
          bind_res (prefixed st name) (\<lambda>title.
            Inr (key, title, obj_update extra d)))
      | _ \<Rightarrow> Inl TypeError)"

definition default_statuses :: "json \<Rightarrow> status_spec list res" where
  "default_statuses yaml =
     (let fields = read_yaml_field yaml [''coverage'', ''status''] JNull
      in if \<not> j_truthy fields then Inr []
         else case fields of
           JObj kvs \<Rightarrow>
             Inr (concat (map (\<lambda>(key, value).
               if key \<in> {''patch'', ''project'', ''changes''}
               then map (\<lambda>(title, conf). (JStr key, title, case conf of JObj d \<Rightarrow> d | _ \<Rightarrow> [])) (default_if_true value)
               else []) kvs))
         | _ \<Rightarrow> Inl AttributeError)"

definition flag_statuses :: "json \<Rightarrow> string \<Rightarrow> status_spec list res" where
  "flag_statuses yaml f_name =
     bind_res (get_flag_configuration yaml f_name) (\<lambda>conf.
       case conf of
         None \<Rightarrow> Inr []
       | Some cf \<Rightarrow>
           if \<not> j_truthy cf then Inr []
           else
             bind_res (get_or cf ''enabled'' (JBool True)) (\<lambda>enabled.
               if \<not> j_truthy enabled then Inr []
               else
                 bind_res (bind_res (get_or cf ''statuses'' (JList [])) iter_list) (\<lambda>sts.
                   traverse (spec_of [(''flags'', JList [JStr f_name])] f_name) sts)))"

text \<open>The matching flags are a set in the source; here they are in the order of the flags.\<close>

definition matching_flags :: "regex_engine \<Rightarrow> string list \<Rightarrow> string list \<Rightarrow> string list" where
  "matching_flags rx regexes flags = filter (\<lambda>f. f \<in> component_matching_flags rx regexes flags) (remdups flags)"

definition component_statuses_of :: "regex_engine \<Rightarrow> string list \<Rightarrow> component \<Rightarrow> status_spec list res" where
  "component_statuses_of rx current_flags part =
     bind_res (iter_list (co_statuses part)) (\<lambda>sts.
     map_res concat (traverse (\<lambda>st.
       bind_res (get_or st ''enabled'' (JBool True)) (\<lambda>enabled.
         if \<not> j_truthy enabled then Inr []
         else
           bind_res (bind_res (iter_list (co_flag_regexes part)) (traverse str_of)) (\<lambda>regexes.
           bind_res (text_of (component_display_name part)) (\<lambda>name.
             map_res (\<lambda>spec. [spec])
               (spec_of [(''flags'', JList (map JStr (matching_flags rx regexes current_flags))), (''paths'', co_paths part)] name st))))) sts))"

definition get_statuses :: "regex_engine \<Rightarrow> json \<Rightarrow> string list \<Rightarrow> status_spec list res" where
  "get_statuses rx yaml current_flags =
     bind_res (default_statuses yaml) (\<lambda>defaults.
     bind_res (traverse (flag_statuses yaml) current_flags) (\<lambda>flags.
     bind_res (get_components yaml) (\<lambda>comps.
     bind_res (traverse (component_statuses_of rx current_flags) comps) (\<lambda>components.
       Inr (defaults @ concat flags @ concat components)))))"

section \<open>Notifiers of a repository\<close>

datatype notification_type =
    N_comment | N_status_changes | N_status_patch | N_status_project | N_checks_changes | N_checks_patch | N_checks_project
  | N_slack | N_webhook | N_gitter | N_irc | N_hipchat | N_codecov_slack_app

definition status_or_checks :: "notification_type \<Rightarrow> bool" where
  "status_or_checks t =
     (t \<in> {N_status_changes, N_status_patch, N_status_project, N_checks_changes, N_checks_patch, N_checks_project})"

datatype notifier_spec =
    ThirdParty notification_type string json
  | StatusOnly status_context string settings
  | ChecksFallback status_context string settings
  | SlackApp json
  | CommentSpec json

definition class_mapping :: "(string, notification_type) dict" where
  "class_mapping = [(''gitter'', N_gitter), (''hipchat'', N_hipchat), (''irc'', N_irc), (''slack'', N_slack), (''webhook'', N_webhook)]"

text \<open>There is no notifier class for another type of status, and calling \<open>None\<close> is a \<open>TypeError\<close>.\<close>

definition status_context_of :: "json \<Rightarrow> status_context res" where
  "status_context_of key =
     (if key = JStr ''patch'' then Inr C_patch else if key = JStr ''project'' then Inr C_project
      else if key = JStr ''changes'' then Inr C_changes else Inl TypeError)"

definition third_party_notifiers :: "json \<Rightarrow> notifier_spec list res" where
  "third_party_notifiers yaml =
     (case read_yaml_field yaml [''coverage'', ''notify''] JNull of
        JNull \<Rightarrow> Inr []
      | JObj kvs \<Rightarrow>
          map_res concat (traverse (\<lambda>(instance_type, confs).
            case dict_get class_mapping instance_type of
              None \<Rightarrow> Inr []
            | Some t \<Rightarrow> (case confs of JObj cs \<Rightarrow> Inr (map (\<lambda>(title, conf). ThirdParty t title conf) cs) | _ \<Rightarrow> Inl AttributeError)) kvs)
      | _ \<Rightarrow> Inl AttributeError)"

definition status_notifier_of :: "service_repository \<Rightarrow> json \<Rightarrow> string \<Rightarrow> status_spec \<Rightarrow> notifier_spec list res" where
  "status_notifier_of rp yaml app_name spec =
     (case spec of (key, title, conf) \<Rightarrow>
       if should_use_status_notifier rp key then
         bind_res (status_context_of key) (\<lambda>ctx.
           Inr [if should_use_checks_notifier rp yaml app_name key then ChecksFallback ctx title conf else StatusOnly ctx title conf])
       else Inr [])"

definition status_notifiers :: "service_repository \<Rightarrow> json \<Rightarrow> string \<Rightarrow> status_spec list \<Rightarrow> notifier_spec list res" where
  "status_notifiers rp yaml app_name specs = map_res concat (traverse (status_notifier_of rp yaml app_name) specs)"

definition get_notifiers_instances :: "regex_engine \<Rightarrow> service_repository \<Rightarrow> json \<Rightarrow> string \<Rightarrow> json \<Rightarrow> notifier_spec list res" where
  "get_notifiers_instances rx rp yaml app_name slack_setting =
     bind_res (third_party_notifiers yaml) (\<lambda>others.
     bind_res (get_statuses rx yaml (map fst (filter (\<lambda>f. \<not> snd f) (rp_flags rp)))) (\<lambda>specs.
     bind_res (status_notifiers rp yaml app_name specs) (\<lambda>statuses.
       let slack = (if j_truthy slack_setting then read_yaml_field yaml [''slack_app''] (JBool True) else slack_setting);
           comment = read_yaml_field yaml [''comment''] JNull
       in Inr (others @ statuses @ (if j_truthy slack then [SlackApp slack] else []) @
               (if j_truthy comment then [CommentSpec comment] else [])))))"

section \<open>Running notifiers\<close>

record commit_notification =
  kn_commit :: string
  kn_type :: notification_type
  kn_decoration :: decoration
  kn_app :: json
  kn_ok :: bool

record service_state =
  ss_world :: notify_world
  ss_pull :: "pull_request option"
  ss_records :: "commit_notification list"

record abstract_notifier =
  an_name :: string
  an_title :: string
  an_type :: notification_type
  an_decoration :: decoration
  an_enabled :: bool
  an_notify :: "(string, string) dict option \<Rightarrow> (service_state, notification_result) action"
  an_store :: "notification_result \<Rightarrow> service_state \<Rightarrow> service_state"

text \<open>
  The record is for the head commit of the pull request (which may be missing) or, without one, for the head
  of the comparison. A record that is there already keeps its app.
\<close>

definition same_record :: "string \<Rightarrow> notification_type \<Rightarrow> commit_notification \<Rightarrow> bool" where
  "same_record commit t k = (kn_commit k = commit \<and> kn_type k = t)"

fun update_record :: "string \<Rightarrow> notification_type \<Rightarrow> decoration \<Rightarrow> json \<Rightarrow> bool \<Rightarrow> commit_notification list \<Rightarrow> commit_notification list" where
  "update_record commit t d app ok [] = [\<lparr>kn_commit = commit, kn_type = t, kn_decoration = d, kn_app = app, kn_ok = ok\<rparr>]"
| "update_record commit t d app ok (k # ks) =
     (if same_record commit t k then k\<lparr>kn_decoration := d, kn_ok := ok\<rparr> # ks else k # update_record commit t d app ok ks)"

definition create_or_update_commit_notification ::
  "notify_comparison \<Rightarrow> string option \<Rightarrow> abstract_notifier \<Rightarrow> notification_result option \<Rightarrow> service_state \<Rightarrow> service_state" where
  "create_or_update_commit_notification c pull_head_commit a res s =
     (let app = (case res of None \<Rightarrow> JNull | Some v \<Rightarrow> nr_github_app v);
          failed = (case res of None \<Rightarrow> True | Some v \<Rightarrow> nr_successful v = Some False);
          commit = (if nc_pull c \<noteq> None then pull_head_commit else Some (nc_head c))
      in if nc_pull c = None \<and> (app = JNull \<or> failed) then s
         else case commit of
           None \<Rightarrow> s
         | Some sha \<Rightarrow> s\<lparr>ss_records := update_record sha (an_type a) (an_decoration a) app (\<not> failed) (ss_records s)\<rparr>)"

definition is_celery_error :: "py_error \<Rightarrow> bool" where
  "is_celery_error e = (e = CeleryError \<or> e = SoftTimeLimitExceeded)"

text \<open>
  The record is written in a \<open>finally\<close> clause. The database operations of the record are taken not to fail: an error of the
  database there is not caught and would stop the remaining notifiers.
\<close>

definition record_outcome ::
  "notify_comparison \<Rightarrow> string option \<Rightarrow> abstract_notifier \<Rightarrow> notification_result option \<Rightarrow> service_state \<Rightarrow> service_state" where
  "record_outcome c pull_head_commit a res s =
     (if (case res of None \<Rightarrow> True | Some v \<Rightarrow> nr_attempted v) then create_or_update_commit_notification c pull_head_commit a res s else s)"

type_synonym individual = "abstract_notifier \<times> notification_result option"

definition notify_individual_notifier ::
  "notify_comparison \<Rightarrow> string option \<Rightarrow> (string, string) dict option \<Rightarrow> abstract_notifier \<Rightarrow> (service_state, individual) action" where
  "notify_individual_notifier c pull_head_commit helper a s =
     (case an_notify a helper s of
        (Inr v, s1) \<Rightarrow> (Inr (a, Some v), record_outcome c pull_head_commit a (Some v) (an_store a v s1))
      | (Inl e, s1) \<Rightarrow>
          (if is_celery_error e then Inl e else Inr (a, None), record_outcome c pull_head_commit a None s1))"

fun notify_each ::
  "notify_comparison \<Rightarrow> string option \<Rightarrow> (string, string) dict option \<Rightarrow> abstract_notifier list \<Rightarrow> (service_state, individual list) action" where
  "notify_each c phc helper [] s = (Inr [], s)"
| "notify_each c phc helper (a # as) s =
     and_then (notify_individual_notifier c phc helper a) (\<lambda>r. and_then (notify_each c phc helper as) (\<lambda>rs. yield (r # rs))) s"

definition split_notifiers :: "abstract_notifier list \<Rightarrow> abstract_notifier list \<times> abstract_notifier list" where
  "split_notifiers as = (filter (\<lambda>a. status_or_checks (an_type a)) as, filter (\<lambda>a. \<not> status_or_checks (an_type a)) as)"

text \<open>The helper texts that a failed status or check sent.\<close>

definition helper_of :: "individual \<Rightarrow> (string, json) dict" where
  "helper_of r =
     (case snd r of
        Some v \<Rightarrow>
          (case nr_data_sent v of
             JObj d \<Rightarrow>
               if setting d ''state'' JNull = failure then
                 (case setting d ''included_helper_text'' JNull of JObj h \<Rightarrow> h | _ \<Rightarrow> [])
               else []
           | _ \<Rightarrow> [])
      | None \<Rightarrow> [])"

definition status_or_checks_helper_text :: "individual list \<Rightarrow> (string, string) dict" where
  "status_or_checks_helper_text rs =
     foldl (\<lambda>d (k, v). dict_set d k (case v of JStr s \<Rightarrow> s | _ \<Rightarrow> [])) [] (concat (map helper_of rs))"

definition service_notify :: "bool \<Rightarrow> notify_comparison \<Rightarrow> string option \<Rightarrow> abstract_notifier list \<Rightarrow> (service_state, individual list) action" where
  "service_notify licensed c pull_head_commit instances =
     (if \<not> licensed then yield []
      else
        case split_notifiers (filter an_enabled instances) of (statuses, others) \<Rightarrow>
          and_then (notify_each c pull_head_commit None statuses) (\<lambda>rs.
            let helper = (if rs \<noteq> [] \<and> others \<noteq> [] then status_or_checks_helper_text rs else [])
            in and_then (notify_each c pull_head_commit (Some helper) others) (\<lambda>rs'. yield (rs @ rs'))))"

section \<open>Statuses, checks and comments as notifiers\<close>

definition on_world :: "(notify_world, 'a) action \<Rightarrow> (service_state, 'a) action" where
  "on_world m s = (case m (ss_world s) of (r, w) \<Rightarrow> (r, s\<lparr>ss_world := w\<rparr>))"

definition status_type :: "status_context \<Rightarrow> notification_type" where
  "status_type x = (case x of C_patch \<Rightarrow> N_status_patch | C_project \<Rightarrow> N_status_project | C_changes \<Rightarrow> N_status_changes)"

definition checks_type :: "status_context \<Rightarrow> notification_type" where
  "checks_type x = (case x of C_patch \<Rightarrow> N_checks_patch | C_project \<Rightarrow> N_checks_project | C_changes \<Rightarrow> N_checks_changes)"

definition status_instance :: "notify_env \<Rightarrow> status_notifier \<Rightarrow> notify_comparison \<Rightarrow> abstract_notifier" where
  "status_instance E n c =
     \<lparr>an_name = status_name n, an_title = nt_title n, an_type = status_type (nt_context n), an_decoration = nt_decoration n,
      an_enabled = True, an_notify = (\<lambda>_. on_world (status_notify E n c)), an_store = (\<lambda>_ s. s)\<rparr>"

definition fallback_instance :: "notify_env \<Rightarrow> check_env \<Rightarrow> status_notifier \<Rightarrow> notify_comparison \<Rightarrow> abstract_notifier" where
  "fallback_instance E K n c =
     \<lparr>an_name = checks_name n @ ''-with-fallback'', an_title = nt_title n, an_type = checks_type (nt_context n), an_decoration = nt_decoration n,
      an_enabled = True, an_notify = (\<lambda>_. on_world (with_fallback (checks_notify E K n c) (status_notify E n c))), an_store = (\<lambda>_ s. s)\<rparr>"

definition comment_instance :: "notify_env \<Rightarrow> comment_notifier \<Rightarrow> comment_env \<Rightarrow> notify_comparison \<Rightarrow> abstract_notifier" where
  "comment_instance E n M c =
     \<lparr>an_name = ''comment'', an_title = ''comment'', an_type = N_comment, an_decoration = cn_decoration n, an_enabled = cn_settings n \<noteq> [],
      an_notify = (\<lambda>helper s. on_world (comment_notify E n M helper (c\<lparr>nc_pull := ss_pull s\<rparr>)) s),
      an_store = (\<lambda>v s. s\<lparr>ss_pull := map_option (store_results v) (ss_pull s)\<rparr>)\<rparr>"

section \<open>A failing notifier does not stop the others\<close>

definition outcome_of :: "notification_result res \<Rightarrow> notification_result option" where
  "outcome_of r = (case r of Inr v \<Rightarrow> Some v | Inl _ \<Rightarrow> None)"

definition has_run :: "(string, string) dict option \<Rightarrow> individual \<Rightarrow> bool" where
  "has_run helper x = (\<exists>s r s'. an_notify (fst x) helper s = (r, s') \<and> snd x = outcome_of r)"

definition no_celery_errors :: "abstract_notifier \<Rightarrow> bool" where
  "no_celery_errors a = (\<forall>helper s e s'. an_notify a helper s = (Inl e, s') \<longrightarrow> \<not> is_celery_error e)"

lemma individual_result:
  assumes "no_celery_errors a"
  shows "\<exists>x s'. notify_individual_notifier c phc helper a s = (Inr x, s') \<and> fst x = a \<and> has_run helper x"
proof -
  obtain r s1 where r: "an_notify a helper s = (r, s1)" by (cases "an_notify a helper s")
  have "has_run helper (a, outcome_of r)" using r by (auto simp: has_run_def)
  with r assms show ?thesis
    by (cases r) (auto simp: notify_individual_notifier_def outcome_of_def no_celery_errors_def)
qed

lemma notify_each_result:
  assumes "\<forall>a \<in> set as. no_celery_errors a"
  shows "\<exists>rs s'. notify_each c phc helper as s = (Inr rs, s') \<and> map fst rs = as \<and> (\<forall>x \<in> set rs. has_run helper x)"
  using assms
proof (induction as arbitrary: s)
  case (Cons a as)
  obtain x s1 where x: "notify_individual_notifier c phc helper a s = (Inr x, s1)" "fst x = a" "has_run helper x"
    using individual_result Cons.prems by (metis list.set_intros(1))
  obtain rs s2 where "notify_each c phc helper as s1 = (Inr rs, s2)" "map fst rs = as" "\<forall>x \<in> set rs. has_run helper x"
    using Cons.IH [of s1] Cons.prems by auto
  with x show ?case by (auto simp: and_then_def yield_def)
qed simp

text \<open>
  C26. Unless the task itself is stopped, notifying gives one result for every notifier that is enabled, statuses and checks first and
  then the others, each group in its order: an exception of one notifier is reported as a missing result and does
  not keep the others from running. The others are told the helper texts of the statuses and checks that failed.
\<close>

theorem every_notifier_runs:
  assumes "\<forall>a \<in> set instances. no_celery_errors a"
  shows "\<exists>rs rs' s'. service_notify True c phc instances s = (Inr (rs @ rs'), s') \<and>
    map fst rs = filter (\<lambda>a. status_or_checks (an_type a)) (filter an_enabled instances) \<and>
    map fst rs' = filter (\<lambda>a. \<not> status_or_checks (an_type a)) (filter an_enabled instances) \<and>
    (\<forall>x \<in> set rs. has_run None x) \<and>
    (\<forall>x \<in> set rs'. has_run (Some (status_or_checks_helper_text rs)) x)"
proof -
  let ?statuses = "filter (\<lambda>a. status_or_checks (an_type a)) (filter an_enabled instances)"
  let ?others = "filter (\<lambda>a. \<not> status_or_checks (an_type a)) (filter an_enabled instances)"
  have ok: "\<forall>a \<in> set ?statuses. no_celery_errors a" "\<forall>a \<in> set ?others. no_celery_errors a" using assms by simp_all
  obtain rs s1 where rs: "notify_each c phc None ?statuses s = (Inr rs, s1)" "map fst rs = ?statuses" "\<forall>x \<in> set rs. has_run None x"
    using notify_each_result [OF ok(1), of c phc None s] by blast
  let ?helper = "if rs \<noteq> [] \<and> ?others \<noteq> [] then status_or_checks_helper_text rs else []"
  obtain rs' s2 where rs': "notify_each c phc (Some ?helper) ?others s1 = (Inr rs', s2)" "map fst rs' = ?others" "\<forall>x \<in> set rs'. has_run (Some ?helper) x"
    using notify_each_result [OF ok(2), of c phc "Some ?helper" s1] by blast
  have "?helper = status_or_checks_helper_text rs \<or> rs' = []"
    using rs'(2) by (auto simp: status_or_checks_helper_text_def)
  with rs' have h: "\<forall>x \<in> set rs'. has_run (Some (status_or_checks_helper_text rs)) x" by auto
  have "service_notify True c phc instances s = (Inr (rs @ rs'), s2)"
    unfolding service_notify_def split_notifiers_def using rs(1) rs'(1) by (simp add: and_then_def yield_def Let_def)
  with rs rs' h show ?thesis by blast
qed

section \<open>Records of notifications\<close>

definition record_key :: "commit_notification \<Rightarrow> string \<times> notification_type" where
  "record_key k = (kn_commit k, kn_type k)"

lemma keys_update_record:
  "record_key ` set (update_record commit t d app ok ks) = insert (commit, t) (record_key ` set ks)"
  by (induction ks) (auto simp: same_record_def record_key_def)

lemma distinct_update_record:
  "distinct (map record_key ks) \<Longrightarrow> distinct (map record_key (update_record commit t d app ok ks))"
proof (induction ks)
  case (Cons k ks)
  then show ?case
    using keys_update_record [of commit t d app ok ks] by (auto simp: same_record_def record_key_def)
qed (simp add: record_key_def)

lemma create_or_update_distinct:
  "distinct (map record_key (ss_records s)) \<Longrightarrow>
   distinct (map record_key (ss_records (create_or_update_commit_notification c phc a res s)))"
  by (auto simp: create_or_update_commit_notification_def Let_def distinct_update_record split: option.splits)

lemma record_outcome_distinct:
  "distinct (map record_key (ss_records s)) \<Longrightarrow> distinct (map record_key (ss_records (record_outcome c phc a res s)))"
  by (auto simp: record_outcome_def create_or_update_distinct)

text \<open>A notifier leaves the records alone; they are written by the service.\<close>

locale records_kept =
  fixes a :: abstract_notifier
  assumes notify_keeps: "an_notify a helper s = (r, s') \<Longrightarrow> ss_records s' = ss_records s"
    and store_keeps: "ss_records (an_store a v s) = ss_records s"
begin

lemma individual_distinct:
  assumes "notify_individual_notifier c phc helper a s = (r, s')" "distinct (map record_key (ss_records s))"
  shows "distinct (map record_key (ss_records s'))"
proof -
  obtain q s1 where q: "an_notify a helper s = (q, s1)" by (cases "an_notify a helper s")
  from notify_keeps [OF q] assms q show ?thesis
    by (cases q) (auto simp: notify_individual_notifier_def store_keeps intro!: record_outcome_distinct split: if_splits)
qed

end

lemma on_world_records: "on_world m s = (r, s') \<Longrightarrow> ss_records s' = ss_records s"
  by (auto simp: on_world_def split: prod.splits)

interpretation sti: records_kept "status_instance E n c" for E n c
  by unfold_locales (auto simp: status_instance_def dest: on_world_records)

interpretation fbi: records_kept "fallback_instance E K n c" for E K n c
  by unfold_locales (auto simp: fallback_instance_def dest: on_world_records)

interpretation cmi: records_kept "comment_instance E n M c" for E n M c
  by unfold_locales (auto simp: comment_instance_def dest: on_world_records)

lemma notify_each_distinct:
  assumes "\<forall>a \<in> set as. records_kept a" "distinct (map record_key (ss_records s))" "notify_each c phc helper as s = (r, s')"
  shows "distinct (map record_key (ss_records s'))"
  using assms
proof (induction as arbitrary: s r)
  case (Cons a as)
  from Cons.prems(3) obtain q s1 where q: "notify_individual_notifier c phc helper a s = (q, s1)"
    "(\<exists>e. q = Inl e \<and> s' = s1) \<or> (\<exists>r1. notify_each c phc helper as s1 = (r1, s'))"
    by (auto simp: and_then_def yield_def split: prod.splits sum.splits)
  have d: "distinct (map record_key (ss_records s1))"
    using records_kept.individual_distinct [OF _ q(1) Cons.prems(2)] Cons.prems(1) by simp
  from q(2) show ?case using d Cons.IH [OF _ d] Cons.prems(1) by auto
qed simp

definition built_in :: "abstract_notifier \<Rightarrow> bool" where
  "built_in a \<longleftrightarrow> (\<exists>E n c. a = status_instance E n c) \<or> (\<exists>E K n c. a = fallback_instance E K n c) \<or> (\<exists>E n M c. a = comment_instance E n M c)"

lemma built_in_instances [simp]:
  "built_in (status_instance E n c)" "built_in (fallback_instance E K n c)" "built_in (comment_instance E m M c)"
  unfolding built_in_def by blast+

lemma built_in_records: "built_in a \<Longrightarrow> records_kept a"
  unfolding built_in_def using sti.records_kept_axioms fbi.records_kept_axioms cmi.records_kept_axioms by blast

text \<open>
  C36. However statuses, checks and comments turn out, and also when the task is stopped in the middle: there is at most one record for a
  commit and a type of notification.
\<close>

theorem records_unique:
  assumes "\<forall>a \<in> set instances. built_in a" "distinct (map record_key (ss_records s))"
    and "service_notify licensed c phc instances s = (r, s')"
  shows "distinct (map record_key (ss_records s'))"
proof -
  have k: "\<forall>a \<in> set instances. records_kept a" using assms(1) built_in_records by blast
  let ?statuses = "filter (\<lambda>a. status_or_checks (an_type a)) (filter an_enabled instances)"
  let ?others = "filter (\<lambda>a. \<not> status_or_checks (an_type a)) (filter an_enabled instances)"
  show ?thesis
  proof (cases licensed)
    case False
    with assms(2,3) show ?thesis by (simp add: service_notify_def)
  next
    case True
    from assms(3) True obtain q s1 where q: "notify_each c phc None ?statuses s = (q, s1)"
      "s' = s1 \<or> (\<exists>helper r1. notify_each c phc helper ?others s1 = (r1, s'))"
      by (auto simp: service_notify_def split_notifiers_def Let_def yield_def elim!: and_then_eqE) blast
    have "distinct (map record_key (ss_records s1))" using notify_each_distinct [OF _ assms(2) q(1)] k by simp
    with q(2) notify_each_distinct [of ?others s1] k show ?thesis by auto
  qed
qed

definition simple_notifier :: "notification_type \<Rightarrow> notification_result res \<Rightarrow> abstract_notifier" where
  "simple_notifier t r =
     \<lparr>an_name = ''simple'', an_title = ''simple'', an_type = t, an_decoration = D_standard, an_enabled = True,
      an_notify = (\<lambda>_ s. (r, s)), an_store = (\<lambda>_ s. s)\<rparr>"

lemma simple_notifier_sel [simp]:
  "an_type (simple_notifier t r) = t" "an_enabled (simple_notifier t r)" "an_notify (simple_notifier t r) helper s = (r, s)"
  by (simp_all add: simple_notifier_def)

definition empty_state :: service_state where
  "empty_state = \<lparr>ss_world = empty_world, ss_pull = Some (sample_pull JNull), ss_records = []\<rparr>"

theorem every_notifier_runs_witness:
  "\<exists>rs s'. service_notify True sample_notify_comparison None
       [simple_notifier N_slack (Inr (not_attempted ''x'')), simple_notifier N_status_patch (Inl KeyError), simple_notifier N_status_project (Inr (not_attempted ''y''))]
       empty_state = (Inr rs, s') \<and> map (\<lambda>x. (an_type (fst x), snd x \<noteq> None)) rs
       = [(N_status_patch, False), (N_status_project, True), (N_slack, True)]"
proof -
  let ?as = "[simple_notifier N_slack (Inr (not_attempted ''x'')), simple_notifier N_status_patch (Inl KeyError),
    simple_notifier N_status_project (Inr (not_attempted ''y''))]"
  have "\<forall>a \<in> set ?as. no_celery_errors a" by (simp add: no_celery_errors_def is_celery_error_def)
  note runs = every_notifier_runs [OF this, of sample_notify_comparison None empty_state]
  have f: "filter (\<lambda>a. status_or_checks (an_type a)) (filter an_enabled ?as)
      = [simple_notifier N_status_patch (Inl KeyError), simple_notifier N_status_project (Inr (not_attempted ''y''))]"
    "filter (\<lambda>a. \<not> status_or_checks (an_type a)) (filter an_enabled ?as) = [simple_notifier N_slack (Inr (not_attempted ''x''))]"
    by (simp_all add: status_or_checks_def)
  from runs [unfolded f] obtain rs rs' s' where
    run: "service_notify True sample_notify_comparison None ?as empty_state = (Inr (rs @ rs'), s')"
    and fsts: "map fst rs = [simple_notifier N_status_patch (Inl KeyError), simple_notifier N_status_project (Inr (not_attempted ''y''))]"
      "map fst rs' = [simple_notifier N_slack (Inr (not_attempted ''x''))]"
    and out: "\<forall>x \<in> set rs. has_run None x" "\<forall>x \<in> set rs'. has_run (Some (status_or_checks_helper_text rs)) x"
    by (elim exE conjE)
  have o: "has_run helper (simple_notifier t r, q) \<longleftrightarrow> q = outcome_of r" for helper t r q by (auto simp: has_run_def simple_notifier_def)
  from fsts obtain q1 q2 q3 where
    "rs = [(simple_notifier N_status_patch (Inl KeyError), q1), (simple_notifier N_status_project (Inr (not_attempted ''y'')), q2)]"
    "rs' = [(simple_notifier N_slack (Inr (not_attempted ''x'')), q3)]"
    by (auto simp: map_eq_Cons_conv)
  with run out show ?thesis by (auto simp: o outcome_of_def)
qed

theorem records_unique_witness:
  "\<exists>r s'. service_notify True (pull_comparison JNull) (Some ''c2'')
       [comment_instance numbering_env sample_comment_notifier sample_comment_env (pull_comparison JNull),
        status_instance numbering_env sample_notifier (pull_comparison JNull),
        status_instance numbering_env (sample_notifier\<lparr>nt_title := ''other''\<rparr>) (pull_comparison JNull)] empty_state = (r, s') \<and>
     length (ss_records s') = 2 \<and> distinct (map record_key (ss_records s'))"
proof -
  let ?as = "[comment_instance numbering_env sample_comment_notifier sample_comment_env (pull_comparison JNull),
    status_instance numbering_env sample_notifier (pull_comparison JNull),
    status_instance numbering_env (sample_notifier\<lparr>nt_title := ''other''\<rparr>) (pull_comparison JNull)]"
  let ?run = "service_notify True (pull_comparison JNull) (Some ''c2'') ?as empty_state"
  have "\<forall>a \<in> set ?as. built_in a" by simp
  moreover have "distinct (map record_key (ss_records empty_state))" by (simp add: empty_state_def)
  moreover have "?run = (fst ?run, snd ?run)" by simp
  ultimately have "distinct (map record_key (ss_records (snd ?run)))" by (rule records_unique)
  moreover have "length (ss_records (snd ?run)) = 2" by code_simp
  ultimately show ?thesis by (metis prod.collapse)
qed

lemma traverse_member: "traverse f xs = Inr ys \<Longrightarrow> y \<in> set ys \<Longrightarrow> \<exists>x \<in> set xs. f x = Inr y"
  by (induction xs arbitrary: ys) auto

text \<open>A team plan has patch statuses only.\<close>

lemma team_patch_only:
  assumes "status_notifiers rp yaml app_name specs = Inr ns" "rp_tier rp = ''team''" "x \<in> set ns"
  shows "\<exists>title conf. x = StatusOnly C_patch title conf \<or> x = ChecksFallback C_patch title conf"
proof -
  from assms(1) obtain xss where t: "traverse (status_notifier_of rp yaml app_name) specs = Inr xss" "ns = concat xss"
    by (auto simp: status_notifiers_def map_res_def)
  from assms(3) t(2) obtain xs where xs: "xs \<in> set xss" "x \<in> set xs" by auto
  from traverse_member [OF t(1) xs(1)] obtain spec where "status_notifier_of rp yaml app_name spec = Inr xs" by blast
  with xs(2) assms(2) show ?thesis
    by (cases spec) (auto simp: status_notifier_of_def should_use_status_notifier_def status_context_of_def split: if_splits)
qed

text \<open>A failed status that is not sent again, because its payload is unchanged or the status is there already, gives no helper text.\<close>

lemma unchanged_status_no_helper: "helper_of (a, Some (not_attempted ''payload_unchanged'')) = []"
  by (simp add: helper_of_def)

end
