(* ===== verification/Plans.thy ===== *)
theory Plans
  imports Notifier
begin

text \<open>
  Plans, trials and seats: \<open>PlanService\<close> (libs/shared/shared/plan/service.py), the seats of organizations and accounts
  (the methods of \<open>Owner\<close> and \<open>Account\<close> in libs/shared/shared/django_apps/codecov_auth/models.py) and of a self-hosted
  installation (libs/shared/shared/self_hosted/service.py). The table of plans, the license and the time are arguments; an
  installation is the list of its owners.
\<close>

section \<open>Owners, accounts, plans and licenses\<close>

record plan =
  pn_name :: string
  pn_paid :: bool
  pn_tier :: string
  pn_uploads :: "int option"
  pn_active :: bool

record account =
  ac_plan :: string
  ac_seats :: int
  ac_free :: int
  ac_users :: "(int \<times> bool) list"

record owner =
  ow_id :: int
  ow_service :: string
  ow_service_id :: string
  ow_email :: "string option"
  ow_plan :: string
  ow_user_count :: "int option"
  ow_free :: int
  ow_activated :: "int list option"
  ow_auto_activate :: "bool option"
  ow_student :: bool
  ow_organizations :: "int list"
  ow_sentry_user :: "string option"
  ow_trial_status :: string
  ow_trial_start :: "int option"
  ow_trial_end :: "int option"
  ow_fired_by :: "int option"
  ow_pretrial :: "int option"
  ow_delinquent :: bool
  ow_stripe :: "string option"
  ow_account :: "account option"

record license_info =
  li_valid :: bool
  li_url :: "string option"
  li_users :: "int option"
  li_repos :: "int option"
  li_expires :: "int option"
  li_pr_billing :: bool

type_synonym owners = "owner list"

section \<open>Seats of an organization\<close>

definition activated_users :: "owner \<Rightarrow> int list" where
  "activated_users org = (case ow_activated org of None \<Rightarrow> [] | Some us \<Rightarrow> us)"

definition activated_user_count :: "owners \<Rightarrow> owner \<Rightarrow> nat" where
  "activated_user_count db org = length (filter (\<lambda>u. ow_id u \<in> set (activated_users org) \<and> \<not> ow_student u) db)"

definition account_user_count :: "account \<Rightarrow> nat" where
  "account_user_count ac = length (filter (\<lambda>u. \<not> snd u) (ac_users ac))"

definition account_seat_count :: "account \<Rightarrow> int" where
  "account_seat_count ac = ac_seats ac + ac_free ac"

text \<open>The user that an owner logs in with, if there is one, and whether the user is a student.\<close>

definition account_can_activate_user :: "account \<Rightarrow> (int \<times> bool) option \<Rightarrow> bool" where
  "account_can_activate_user ac user =
     (case user of
        Some u \<Rightarrow> fst u \<in> fst ` set (ac_users ac) \<or> snd u \<or> int (account_user_count ac) < account_seat_count ac
      | None \<Rightarrow> int (account_user_count ac) < account_seat_count ac)"

definition total_seat_count :: "owner \<Rightarrow> int" where
  "total_seat_count org = (case ow_user_count org of None \<Rightarrow> ow_free org | Some k \<Rightarrow> k + ow_free org)"

definition owner_can_activate_user :: "owners \<Rightarrow> owner \<Rightarrow> owner \<Rightarrow> (int \<times> bool) option \<Rightarrow> bool res" where
  "owner_can_activate_user db org u user =
     (if ow_student u then Inr True
      else case ow_account org of
        Some ac \<Rightarrow> Inr (account_can_activate_user ac user)
      | None \<Rightarrow>
          (case ow_user_count org of
             None \<Rightarrow> Inl TypeError
           | Some k \<Rightarrow> Inr (int (activated_user_count db org) < k + ow_free org)))"

definition owner_activate_user :: "int \<Rightarrow> owner \<Rightarrow> owner" where
  "owner_activate_user uid org =
     (case ow_activated org of
        Some us \<Rightarrow> if uid \<in> set us then org else org\<lparr>ow_activated := Some (us @ [uid])\<rparr>
      | None \<Rightarrow> org\<lparr>ow_activated := Some [uid]\<rparr>)"

definition owner_deactivate_user :: "int \<Rightarrow> owner \<Rightarrow> owner" where
  "owner_deactivate_user uid org = org\<lparr>ow_activated := map_option (remove1 uid) (ow_activated org)\<rparr>"

text \<open>
  Whether a user that leaves an organization also leaves the account: not when another organization of the account still has the
  user. An organization that never activated anyone has no list, and iterating over it is a \<open>TypeError\<close>.
\<close>

definition leaves_account :: "owner list \<Rightarrow> int \<Rightarrow> bool res" where
  "leaves_account orgs uid =
     map_res (\<lambda>uss. uid \<notin> set (concat uss))
       (traverse (\<lambda>org. case ow_activated org of None \<Rightarrow> Inl TypeError | Some us \<Rightarrow> Inr us) orgs)"

section \<open>Seats of a self-hosted installation\<close>

definition all_activated :: "owners \<Rightarrow> int set" where
  "all_activated db = (\<Union>org \<in> set db. set (activated_users org))"

definition activated_owners :: "owners \<Rightarrow> owner list" where
  "activated_owners db = filter (\<lambda>u. ow_id u \<in> all_activated db) db"

definition is_activated_owner :: "owners \<Rightarrow> owner \<Rightarrow> bool" where
  "is_activated_owner db u = (\<exists>v \<in> set (activated_owners db). ow_id v = ow_id u)"

definition license_seats :: "license_info \<Rightarrow> int" where
  "license_seats li = (if \<not> li_valid li then 0 else case li_users li of None \<Rightarrow> 0 | Some k \<Rightarrow> k)"

definition enterprise_has_seats_left :: "license_info \<Rightarrow> owners \<Rightarrow> bool" where
  "enterprise_has_seats_left li db = (license_seats li \<noteq> 0 \<and> int (length (activated_owners db)) < license_seats li)"

definition can_activate_owner :: "license_info \<Rightarrow> owners \<Rightarrow> owner \<Rightarrow> bool" where
  "can_activate_owner li db u =
     (if is_activated_owner db u then True else int (length (activated_owners db)) < license_seats li)"

text \<open>\<open>array_append_unique\<close> of the database; a missing array is an empty one.\<close>

definition append_unique :: "int \<Rightarrow> owner \<Rightarrow> owner" where
  "append_unique uid org = org\<lparr>ow_activated := Some (removeAll uid (activated_users org) @ [uid])\<rparr>"

datatype seat_error = NotSelfHosted | NoSeatsRemaining

definition activate_owner :: "bool \<Rightarrow> license_info \<Rightarrow> owner \<Rightarrow> owners \<Rightarrow> seat_error + owners" where
  "activate_owner enterprise li u db =
     (if \<not> enterprise then Inl NotSelfHosted
      else if \<not> can_activate_owner li db u then Inl NoSeatsRemaining
      else Inr (map (\<lambda>org. if ow_id org \<in> set (ow_organizations u) then append_unique (ow_id u) org else org) db))"

definition deactivate_owner :: "bool \<Rightarrow> owner \<Rightarrow> owners \<Rightarrow> seat_error + owners" where
  "deactivate_owner enterprise u db =
     (if \<not> enterprise then Inl NotSelfHosted
      else Inr (map (\<lambda>org. if ow_id u \<in> set (activated_users org)
        then org\<lparr>ow_activated := map_option (removeAll (ow_id u)) (ow_activated org)\<rparr> else org) db))"

definition set_autoactivation :: "bool \<Rightarrow> owners \<Rightarrow> owners" where
  "set_autoactivation b db = map (\<lambda>org. org\<lparr>ow_auto_activate := Some b\<rparr>) db"

definition is_autoactivation_enabled :: "owners \<Rightarrow> bool" where
  "is_autoactivation_enabled db = (\<exists>org \<in> set db. ow_auto_activate org = Some True)"

section \<open>The plan of an organization\<close>

text \<open>
  \<open>ps_plan_data\<close> is the attribute \<open>_plan_data\<close>, \<open>ps_cached\<close> the value that the cached property \<open>plan_data\<close> keeps once it was read.
\<close>

record plan_service =
  ps_org :: owner
  ps_plan_data :: "plan option"
  ps_cached :: "plan option"

definition find_plan :: "plan list \<Rightarrow> string \<Rightarrow> plan option" where
  "find_plan plans name = List.find (\<lambda>p. pn_name p = name) plans"

text \<open>For groups of GitLab, the plan is that of the root organization.\<close>

definition PlanService :: "plan list \<Rightarrow> owner \<Rightarrow> owner option \<Rightarrow> plan_service res" where
  "PlanService plans current_org parent =
     (let org = (if ow_service current_org = ''gitlab'' then (case parent of Some r \<Rightarrow> r | None \<Rightarrow> current_org) else current_org)
      in if find_plan plans (ow_plan org) = None then Inl ValueError
         else Inr \<lparr>ps_org = org, ps_plan_data = None, ps_cached = None\<rparr>)"

definition set_org :: "(owner \<Rightarrow> owner) \<Rightarrow> plan_service \<Rightarrow> plan_service" where
  "set_org f ps = ps\<lparr>ps_org := f (ps_org ps)\<rparr>"

definition update_plan :: "plan list \<Rightarrow> string \<Rightarrow> int option \<Rightarrow> (plan_service, unit) action" where
  "update_plan plans name user_count ps =
     (case find_plan plans name of
        None \<Rightarrow> (Inl ValueError, ps)
      | Some p \<Rightarrow>
          if user_count \<in> {None, Some 0} then (Inl ValueError, ps)
          else (Inr (), set_org (\<lambda>w. w\<lparr>ow_plan := name, ow_user_count := user_count, ow_delinquent := False\<rparr>) (ps\<lparr>ps_plan_data := Some p\<rparr>)))"

definition set_default_plan_data :: "string \<Rightarrow> plan_service \<Rightarrow> plan_service" where
  "set_default_plan_data free_plan ps =
     set_org (\<lambda>w. w\<lparr>ow_plan := free_plan, ow_activated := None, ow_user_count := Some 1, ow_stripe := None\<rparr>) ps"

definition plan_data :: "plan list \<Rightarrow> (plan_service, plan) action" where
  "plan_data plans ps =
     (case ps_cached ps of
        Some p \<Rightarrow> (Inr p, ps)
      | None \<Rightarrow>
          (case ps_plan_data ps of
             Some p \<Rightarrow> (Inr p, ps\<lparr>ps_cached := Some p\<rparr>)
           | None \<Rightarrow>
               (case find_plan plans (case ow_account (ps_org ps) of Some ac \<Rightarrow> ac_plan ac | None \<Rightarrow> ow_plan (ps_org ps)) of
                  None \<Rightarrow> (Inl ValueError, ps)
                | Some p \<Rightarrow> (Inr p, ps\<lparr>ps_plan_data := Some p, ps_cached := Some p\<rparr>))))"

definition plan_user_count :: "license_info option \<Rightarrow> plan_service \<Rightarrow> int" where
  "plan_user_count li ps =
     (case li of
        Some l \<Rightarrow> license_seats l
      | None \<Rightarrow> (case ow_account (ps_org ps) of Some ac \<Rightarrow> account_seat_count ac | None \<Rightarrow> total_seat_count (ps_org ps)))"

definition free_seat_count :: "plan_service \<Rightarrow> int" where
  "free_seat_count ps = (case ow_account (ps_org ps) of Some ac \<Rightarrow> ac_free ac | None \<Rightarrow> ow_free (ps_org ps))"

definition has_seats_left :: "license_info option \<Rightarrow> owners \<Rightarrow> plan_service \<Rightarrow> bool" where
  "has_seats_left li db ps =
     (case li of
        Some l \<Rightarrow> enterprise_has_seats_left l db
      | None \<Rightarrow>
          (case ow_account (ps_org ps) of
             Some ac \<Rightarrow> account_can_activate_user ac None
           | None \<Rightarrow> int (activated_user_count db (ps_org ps)) < plan_user_count li ps))"

definition TEAM_PLAN_MAX_USERS :: int where
  "TEAM_PLAN_MAX_USERS = 10"

definition available_tiers :: "plan \<Rightarrow> owner \<Rightarrow> plan_service \<Rightarrow> string list" where
  "available_tiers curr_plan u ps =
     [''pro''] @ (if ow_sentry_user u \<noteq> None \<or> pn_tier curr_plan = ''sentry'' then [''sentry''] else []) @
     (if activated_users (ps_org ps) = [] \<or> int (length (activated_users (ps_org ps))) \<le> TEAM_PLAN_MAX_USERS + free_seat_count ps
      then [''team''] else [])"

text \<open>The plans are a set in the source.\<close>

definition available_plans :: "plan list \<Rightarrow> string \<Rightarrow> owner \<Rightarrow> (plan_service, plan list) action" where
  "available_plans plans free_plan u =
     and_then (\<lambda>ps. (case find_plan plans free_plan of None \<Rightarrow> Inl ValueError | Some p \<Rightarrow> Inr p, ps)) (\<lambda>default.
     and_then (plan_data plans) (\<lambda>curr. \<lambda>ps.
       (Inr (remdups ([default] @ (if pn_paid curr then [] else [curr]) @
          filter (\<lambda>p. pn_tier p \<in> set (available_tiers curr u ps) \<and> pn_active p) plans)), ps)))"

section \<open>Trials\<close>

definition TRIAL_PLAN :: string where
  "TRIAL_PLAN = ''users-trial''"

definition TRIAL_PLAN_SEATS :: int where
  "TRIAL_PLAN_SEATS = 1000"

definition trial_seconds :: int where
  "trial_seconds = 14 * 24 * 60 * 60"

definition start_trial_helper :: "int \<Rightarrow> owner \<Rightarrow> int option \<Rightarrow> bool \<Rightarrow> plan_service \<Rightarrow> plan_service" where
  "start_trial_helper now current_owner end_date is_extension ps =
     set_org (\<lambda>w. w\<lparr>ow_trial_end := Some (case end_date of Some t \<Rightarrow> t | None \<Rightarrow> now + trial_seconds), ow_fired_by := Some (ow_id current_owner)\<rparr>)
       (if is_extension then ps
        else set_org (\<lambda>w. w\<lparr>ow_trial_start := Some now, ow_trial_status := ''ongoing'', ow_plan := TRIAL_PLAN,
               ow_pretrial := ow_user_count w, ow_user_count := Some TRIAL_PLAN_SEATS, ow_auto_activate := Some True\<rparr>) ps)"

definition start_trial :: "plan list \<Rightarrow> int \<Rightarrow> owner \<Rightarrow> (plan_service, unit) action" where
  "start_trial plans now current_owner ps =
     (if ow_trial_status (ps_org ps) \<noteq> ''not_started'' then (Inl ValidationError, ps)
      else and_then (plan_data plans) (\<lambda>p ps1.
        if \<not> (\<exists>q \<in> set plans. pn_name q = pn_name p \<and> \<not> pn_paid q) then (Inl ValidationError, ps1)
        else (Inr (), start_trial_helper now current_owner None False ps1)) ps)"

definition start_trial_manually :: "plan list \<Rightarrow> int \<Rightarrow> owner \<Rightarrow> int \<Rightarrow> (plan_service, unit) action" where
  "start_trial_manually plans now current_owner end_date =
     and_then (plan_data plans) (\<lambda>p ps.
       if pn_tier p = ''trial'' then (Inr (), start_trial_helper now current_owner (Some end_date) True ps)
       else if \<not> pn_paid p then (Inr (), start_trial_helper now current_owner (Some end_date) False ps)
       else (Inl ValidationError, ps))"

definition is_org_trialing :: "plan list \<Rightarrow> (plan_service, bool) action" where
  "is_org_trialing plans ps =
     (if ow_trial_status (ps_org ps) \<noteq> ''ongoing'' then (Inr False, ps)
      else and_then (plan_data plans) (\<lambda>p. yield (pn_name p = TRIAL_PLAN)) ps)"

definition cancel_trial :: "plan list \<Rightarrow> string \<Rightarrow> int \<Rightarrow> (plan_service, unit) action" where
  "cancel_trial plans free_plan now =
     and_then (is_org_trialing plans) (\<lambda>trialing ps.
       if \<not> trialing then (Inl ValidationError, ps)
       else (Inr (), set_default_plan_data free_plan (set_org (\<lambda>w. w\<lparr>ow_trial_status := ''expired'', ow_trial_end := Some now\<rparr>) ps)))"

text \<open>\<open>pretrial_users_count or 1\<close>.\<close>

definition pretrial_users_count :: "owner \<Rightarrow> int" where
  "pretrial_users_count w = (case ow_pretrial w of None \<Rightarrow> 1 | Some k \<Rightarrow> if k = 0 then 1 else k)"

definition expire_trial_when_upgrading :: "int \<Rightarrow> plan_service \<Rightarrow> plan_service" where
  "expire_trial_when_upgrading now ps =
     (if ow_trial_status (ps_org ps) \<in> {''expired'', ''cannot_trial''} then ps
      else set_org (\<lambda>w. w\<lparr>ow_trial_status := ''expired'', ow_activated := None, ow_user_count := Some (pretrial_users_count w),
        ow_trial_end := Some now\<rparr>) ps)"

definition is_pr_billing_plan :: "plan list \<Rightarrow> license_info option \<Rightarrow> (plan_service, bool) action" where
  "is_pr_billing_plan plans enterprise =
     (case enterprise of
        None \<Rightarrow> and_then (plan_data plans) (\<lambda>p. yield (pn_name p \<notin> {''users-inappm'', ''users-inappy''}))
      | Some li \<Rightarrow> yield (li_pr_billing li))"


section \<open>The life of a trial\<close>

lemma set_org_sel [simp]:
  "ps_org (set_org f ps) = f (ps_org ps)" "ps_plan_data (set_org f ps) = ps_plan_data ps" "ps_cached (set_org f ps) = ps_cached ps"
  by (simp_all add: set_org_def)

lemma plan_data_org: "plan_data plans ps = (r, ps') \<Longrightarrow> ps_org ps' = ps_org ps"
  by (auto simp: plan_data_def split: option.splits)

text \<open>What an organization can do about its plan without an administrator; the service object may be built anew in between.\<close>

inductive plan_step :: "plan list \<Rightarrow> string \<Rightarrow> plan_service \<Rightarrow> plan_service \<Rightarrow> bool" for plans free_plan where
  start: "start_trial plans now u ps = (r, ps') \<Longrightarrow> plan_step plans free_plan ps ps'"
| cancel: "cancel_trial plans free_plan now ps = (r, ps') \<Longrightarrow> plan_step plans free_plan ps ps'"
| upgrade: "plan_step plans free_plan ps (expire_trial_when_upgrading now ps)"
| update: "update_plan plans name k ps = (r, ps') \<Longrightarrow> plan_step plans free_plan ps ps'"
| default: "plan_step plans free_plan ps (set_default_plan_data free_plan ps)"
| read: "plan_data plans ps = (r, ps') \<Longrightarrow> plan_step plans free_plan ps ps'"
| reload: "plan_step plans free_plan ps (ps\<lparr>ps_plan_data := None, ps_cached := None\<rparr>)"

lemma start_trial_status:
  "start_trial plans now u ps = (r, ps') \<Longrightarrow> ow_trial_status (ps_org ps) \<noteq> ''not_started'' \<Longrightarrow> ps' = ps \<and> r = Inl ValidationError"
  by (auto simp: start_trial_def)

lemma start_trial_ok:
  assumes "start_trial plans now u ps = (Inr x, ps')"
  shows "ow_trial_status (ps_org ps) = ''not_started''"
    "ps_org ps' = (ps_org ps)\<lparr>ow_trial_start := Some now, ow_trial_status := ''ongoing'', ow_plan := TRIAL_PLAN,
       ow_pretrial := ow_user_count (ps_org ps), ow_user_count := Some TRIAL_PLAN_SEATS, ow_auto_activate := Some True,
       ow_trial_end := Some (now + trial_seconds), ow_fired_by := Some (ow_id u)\<rparr>"
  using assms by (auto simp: start_trial_def start_trial_helper_def elim!: and_then_eqE dest!: plan_data_org split: if_splits)

lemma cancel_trial_org:
  assumes "cancel_trial plans free_plan now ps = (r, ps')"
  shows "ps_org ps' = ps_org ps \<or> ow_trial_status (ps_org ps') = ''expired''"
  using assms
  by (auto simp: cancel_trial_def is_org_trialing_def set_default_plan_data_def elim!: and_then_eqE dest!: plan_data_org split: if_splits)

lemma plan_step_started:
  assumes "plan_step plans free_plan ps ps'" "ow_trial_status (ps_org ps) \<noteq> ''not_started''"
  shows "ow_trial_status (ps_org ps') \<noteq> ''not_started''"
  using assms
proof (cases rule: plan_step.cases)
  case (start now u r)
  then show ?thesis using start_trial_status assms(2) by blast
next
  case (cancel now r)
  with cancel_trial_org [OF this] assms(2) show ?thesis by auto
next
  case (update name k r)
  then show ?thesis using assms(2) by (auto simp: update_plan_def split: option.splits if_splits)
next
  case (read r)
  then show ?thesis using assms(2) plan_data_org by metis
qed (auto simp: expire_trial_when_upgrading_def set_default_plan_data_def)

text \<open>
  C34. An organization gets one trial: after a trial was started, whatever the organization does with its plan (cancelling the
  trial, upgrading, changing plans), starting a trial again is refused and changes nothing.
\<close>

theorem one_trial:
  assumes "start_trial plans now u ps = (Inr (), ps1)" "(plan_step plans free_plan)\<^sup>*\<^sup>* ps1 ps2"
  shows "start_trial plans later u' ps2 = (Inl ValidationError, ps2)"
proof -
  have "ow_trial_status (ps_org ps1) \<noteq> ''not_started''" using start_trial_ok(2) [OF assms(1)] by simp
  with assms(2) have "ow_trial_status (ps_org ps2) \<noteq> ''not_started''"
    by (induction rule: rtranclp_induct) (auto dest: plan_step_started)
  then show ?thesis by (simp add: start_trial_def)
qed

text \<open>
  Upgrading out of a trial gives back the seats the organization had before it (at least one), ends the trial and leaves no user
  activated.
\<close>

theorem trial_seats_restored:
  assumes "start_trial plans now u ps = (Inr (), ps1)"
  shows "\<exists>org. org = ps_org (expire_trial_when_upgrading later ps1) \<and>
    ow_user_count org = Some (case ow_user_count (ps_org ps) of None \<Rightarrow> 1 | Some k \<Rightarrow> if k = 0 then 1 else k) \<and>
    ow_trial_status org = ''expired'' \<and> ow_trial_end org = Some later \<and> ow_activated org = None"
  using start_trial_ok(2) [OF assms] by (simp add: expire_trial_when_upgrading_def pretrial_users_count_def split: option.splits)

text \<open>A plan that was read once is kept: changing the plan does not change what the same service object answers.\<close>

lemma plan_data_stale:
  assumes "plan_data plans ps = (Inr p, ps1)" "update_plan plans name k ps1 = (Inr (), ps2)"
  shows "plan_data plans ps2 = (Inr p, ps2)" "ow_plan (ps_org ps2) = name"
proof -
  from assms(1) have "ps_cached ps1 = Some p" by (auto simp: plan_data_def split: option.splits)
  with assms(2) show "plan_data plans ps2 = (Inr p, ps2)" "ow_plan (ps_org ps2) = name"
    by (auto simp: update_plan_def plan_data_def split: option.splits if_splits)
qed

section \<open>Seats of an installation\<close>

lemma length_filter_distinct:
  "distinct (map f xs) \<Longrightarrow> length (filter (\<lambda>x. f x \<in> S) xs) = card (f ` set xs \<inter> S)"
proof -
  assume d: "distinct (map f xs)"
  have "length (filter (\<lambda>x. f x \<in> S) xs) = card (f ` set (filter (\<lambda>x. f x \<in> S) xs))"
    using distinct_card [OF distinct_map_filter [OF d]] by simp
  also have "f ` set (filter (\<lambda>x. f x \<in> S) xs) = f ` set xs \<inter> S" by auto
  finally show ?thesis .
qed

lemma activated_owners_card:
  "distinct (map ow_id db) \<Longrightarrow> length (activated_owners db) = card (ow_id ` set db \<inter> all_activated db)"
  by (simp add: activated_owners_def length_filter_distinct)

lemma append_unique_sel [simp]:
  "ow_id (append_unique uid org) = ow_id org" "set (activated_users (append_unique uid org)) = insert uid (set (activated_users org))"
  by (auto simp: append_unique_def activated_users_def split: option.splits)

lemma activate_owner_db:
  assumes "activate_owner enterprise li u db = Inr db'"
  shows "map ow_id db' = map ow_id db" "all_activated db' \<subseteq> insert (ow_id u) (all_activated db)"
    "is_activated_owner db u \<or> int (length (activated_owners db)) < license_seats li"
  using assms by (auto simp: activate_owner_def can_activate_owner_def all_activated_def comp_def split: if_splits)

text \<open>
  C35. In a self-hosted installation, activating a user never takes more seats than the license has, and activating a user again takes
  none.
\<close>

theorem installation_seats_bounded:
  assumes "distinct (map ow_id db)" "int (length (activated_owners db)) \<le> license_seats li" "activate_owner enterprise li u db = Inr db'"
  shows "int (length (activated_owners db')) \<le> license_seats li \<and>
    (is_activated_owner db u \<longrightarrow> length (activated_owners db') \<le> length (activated_owners db))"
proof -
  note a = activate_owner_db [OF assms(3)]
  have ids: "ow_id ` set db' = ow_id ` set db" using a(1) by (metis list.set_map)
  let ?A = "ow_id ` set db \<inter> all_activated db"
  have fin: "finite ?A" by simp
  have n: "length (activated_owners db) = card ?A" "length (activated_owners db') = card (ow_id ` set db \<inter> all_activated db')"
    using assms(1) a(1) ids by (simp_all add: activated_owners_card)
  have sub: "ow_id ` set db \<inter> all_activated db' \<subseteq> insert (ow_id u) ?A" using a(2) by auto
  show ?thesis
  proof (cases "is_activated_owner db u")
    case True
    then obtain v where "v \<in> set db" "ow_id v \<in> all_activated db" "ow_id v = ow_id u"
      by (auto simp: is_activated_owner_def activated_owners_def)
    then have "ow_id u \<in> ?A" by (metis IntI imageI)
    then have "card (ow_id ` set db \<inter> all_activated db') \<le> card ?A" using card_mono [OF fin] sub by (simp add: insert_absorb)
    with n assms(2) show ?thesis by simp
  next
    case False
    have "card (ow_id ` set db \<inter> all_activated db') \<le> Suc (card ?A)"
      using card_mono [OF _ sub] card_insert_if [OF fin, of "ow_id u"] fin by (auto split: if_splits)
    with a(3) False n show ?thesis by simp
  qed
qed

definition sample_owner :: "int \<Rightarrow> int list option \<Rightarrow> owner" where
  "sample_owner i us =
     \<lparr>ow_id = i, ow_service = ''github'', ow_service_id = nat_str (nat i), ow_email = None, ow_plan = ''users-developer'', ow_user_count = Some 3,
      ow_free = 0, ow_activated = us, ow_auto_activate = None, ow_student = False, ow_organizations = [1], ow_sentry_user = None,
      ow_trial_status = ''not_started'', ow_trial_start = None, ow_trial_end = None, ow_fired_by = None, ow_pretrial = None,
      ow_delinquent = False, ow_stripe = None, ow_account = None\<rparr>"

definition sample_plans :: "plan list" where
  "sample_plans =
     [\<lparr>pn_name = ''users-developer'', pn_paid = False, pn_tier = ''basic'', pn_uploads = Some 250, pn_active = True\<rparr>,
      \<lparr>pn_name = ''users-trial'', pn_paid = False, pn_tier = ''trial'', pn_uploads = None, pn_active = False\<rparr>]"

definition sample_license :: license_info where
  "sample_license = \<lparr>li_valid = True, li_url = None, li_users = Some 2, li_repos = None, li_expires = None, li_pr_billing = True\<rparr>"

definition sample_service :: plan_service where
  "sample_service = \<lparr>ps_org = sample_owner 1 None, ps_plan_data = None, ps_cached = None\<rparr>"

theorem one_trial_witness:
  "\<exists>ps1 ps2. start_trial sample_plans 0 (sample_owner 2 None) sample_service = (Inr (), ps1) \<and>
     cancel_trial sample_plans ''users-developer'' 5 (ps1\<lparr>ps_plan_data := None, ps_cached := None\<rparr>) = (Inr (), ps2) \<and>
     start_trial sample_plans 9 (sample_owner 2 None) ps2 = (Inl ValidationError, ps2)"
proof -
  let ?ps1 = "snd (start_trial sample_plans 0 (sample_owner 2 None) sample_service)"
  let ?new = "?ps1\<lparr>ps_plan_data := None, ps_cached := None\<rparr>"
  let ?ps2 = "snd (cancel_trial sample_plans ''users-developer'' 5 ?new)"
  have "fst (start_trial sample_plans 0 (sample_owner 2 None) sample_service) = Inr ()" by code_simp
  then have 1: "start_trial sample_plans 0 (sample_owner 2 None) sample_service = (Inr (), ?ps1)" by (metis prod.collapse)
  have "fst (cancel_trial sample_plans ''users-developer'' 5 ?new) = Inr ()" by code_simp
  then have 2: "cancel_trial sample_plans ''users-developer'' 5 ?new = (Inr (), ?ps2)" by (metis prod.collapse)
  have "plan_step sample_plans ''users-developer'' ?ps1 ?new" by (rule plan_step.reload)
  moreover have "plan_step sample_plans ''users-developer'' ?new ?ps2" by (rule plan_step.cancel [OF 2])
  ultimately have "(plan_step sample_plans ''users-developer'')\<^sup>*\<^sup>* ?ps1 ?ps2" by (rule converse_rtranclp_into_rtranclp [OF _ r_into_rtranclp])
  from one_trial [OF 1 this] 1 2 show ?thesis by blast
qed

theorem trial_seats_restored_witness:
  "ow_user_count (ps_org (expire_trial_when_upgrading 5 (snd (start_trial sample_plans 0 (sample_owner 2 None) sample_service)))) = Some 3"
proof -
  have "fst (start_trial sample_plans 0 (sample_owner 2 None) sample_service) = Inr ()" by code_simp
  then have "start_trial sample_plans 0 (sample_owner 2 None) sample_service =
      (Inr (), snd (start_trial sample_plans 0 (sample_owner 2 None) sample_service))" by (metis prod.collapse)
  from trial_seats_restored [OF this, of 5] show ?thesis by (simp add: sample_service_def sample_owner_def)
qed

theorem installation_seats_bounded_witness:
  "\<exists>db'. activate_owner True sample_license (sample_owner 2 None) [sample_owner 1 (Some [3]), sample_owner 2 None, sample_owner 3 None] = Inr db' \<and>
     length (activated_owners db') = 2 \<and> int (length (activated_owners db')) \<le> license_seats sample_license"
proof -
  let ?db = "[sample_owner 1 (Some [3]), sample_owner 2 None, sample_owner 3 None]"
  have "distinct (map ow_id ?db)" "int (length (activated_owners ?db)) \<le> license_seats sample_license" by code_simp+
  note bounded = installation_seats_bounded [OF this]
  have "case activate_owner True sample_license (sample_owner 2 None) ?db of Inr db' \<Rightarrow> length (activated_owners db') = 2 | Inl _ \<Rightarrow> False"
    by code_simp
  then obtain db' where db': "activate_owner True sample_license (sample_owner 2 None) ?db = Inr db'" "length (activated_owners db') = 2"
    by (auto split: sum.splits)
  from bounded [OF db'(1)] db' show ?thesis by blast
qed

end
