(* ===== verification/Activation.thy ===== *)
theory Activation
  imports Plans
begin

text \<open>
  Who sees a detailed report: the decoration of a pull request (apps/worker/services/decoration.py), the seats of
  its author (services/seats.py), automatic activation (services/activation.py, with the SQL function
  \<open>try_to_auto_activate\<close> it calls) and the validity of a license (services/license.py).
\<close>

section \<open>Licenses\<close>

datatype license_reason = L_invalid | L_url_mismatch | L_users_exceeded | L_repos_exceeded | L_expired

text \<open>
  The installation: its license if it is self-hosted, its address, the time, the number of owners with a token
  for every service, and the number of repositories.
\<close>

record installation =
  in_license :: "license_info option"
  in_url :: "string option"
  in_now :: int
  in_token_counts :: "int list"
  in_repos :: int

definition get_installation_plan_activated_users :: "owners \<Rightarrow> int list" where
  "get_installation_plan_activated_users db = [int (card (all_activated db))]"

definition exceeds :: "int option \<Rightarrow> int list \<Rightarrow> bool" where
  "exceeds limit counts = (case limit of None \<Rightarrow> False | Some k \<Rightarrow> k \<noteq> 0 \<and> (\<exists>n \<in> set counts. k < n))"

definition calculate_reason_for_not_being_valid :: "installation \<Rightarrow> license_info \<Rightarrow> owners \<Rightarrow> license_reason option" where
  "calculate_reason_for_not_being_valid inst li db =
     (if \<not> li_valid li then Some L_invalid
      else if (case li_url li of None \<Rightarrow> False | Some u \<Rightarrow> u \<noteq> [] \<and> in_url inst \<noteq> Some u) then Some L_url_mismatch
      else if exceeds (li_users li) (if li_pr_billing li then get_installation_plan_activated_users db else in_token_counts inst)
        then Some L_users_exceeded
      else if exceeds (li_repos li) [in_repos inst] then Some L_repos_exceeded
      else if (case li_expires li of None \<Rightarrow> False | Some t \<Rightarrow> t < in_now inst) then Some L_expired
      else None)"

definition is_properly_licensed :: "installation \<Rightarrow> owners \<Rightarrow> bool" where
  "is_properly_licensed inst db =
     (case in_license inst of None \<Rightarrow> True | Some li \<Rightarrow> calculate_reason_for_not_being_valid inst li db = None)"

section \<open>Automatic activation\<close>

definition update_owner :: "int \<Rightarrow> (owner \<Rightarrow> owner) \<Rightarrow> owners \<Rightarrow> owners" where
  "update_owner i f db = map (\<lambda>w. if ow_id w = i then f w else w) db"

text \<open>
  The SQL function: the user is added while the array is shorter than the number of seats; a missing number of seats
  adds no one. The result tells whether the array has the user, and is \<open>NULL\<close> when there is no array.
\<close>

definition auto_activated :: "int \<Rightarrow> owner \<Rightarrow> owner" where
  "auto_activated uid org =
     (case ow_user_count org of
        Some k \<Rightarrow> if int (length (activated_users org)) < k then append_unique uid org else org
      | None \<Rightarrow> org)"

definition try_to_auto_activate :: "int \<Rightarrow> int \<Rightarrow> owners \<Rightarrow> bool option \<times> owners" where
  "try_to_auto_activate org_id uid db =
     (let db' = update_owner org_id (auto_activated uid) db
      in (case List.find (\<lambda>w. ow_id w = org_id) db' of
            None \<Rightarrow> None
          | Some w \<Rightarrow> map_option (\<lambda>us. uid \<in> set us) (ow_activated w), db'))"

text \<open>A license without a number of users: comparing with \<open>None\<close> is a \<open>TypeError\<close>.\<close>

definition seats_available :: "license_info \<Rightarrow> owners \<Rightarrow> bool res" where
  "seats_available li db =
     (case li_users li of
        None \<Rightarrow> Inl TypeError
      | Some k \<Rightarrow> Inr (\<forall>n \<in> set (get_installation_plan_activated_users db). n < k))"

definition activate_user :: "installation \<Rightarrow> int \<Rightarrow> int \<Rightarrow> (owners, bool option) action" where
  "activate_user inst org_ownerid user_ownerid db =
     (case in_license inst of
        None \<Rightarrow> (case try_to_auto_activate org_ownerid user_ownerid db of (r, db') \<Rightarrow> (Inr r, db'))
      | Some li \<Rightarrow>
          if calculate_reason_for_not_being_valid inst li db \<noteq> None then (Inr (Some False), db)
          else case seats_available li db of
            Inl e \<Rightarrow> (Inl e, db)
          | Inr False \<Rightarrow> (Inr (Some False), db)
          | Inr True \<Rightarrow>
              if length (filter (\<lambda>w. ow_id w = org_ownerid) db) \<noteq> 1 then (Inl ValueError, db)
              else (Inr (Some True), update_owner org_ownerid (append_unique user_ownerid) db))"

text \<open>The tasks that are scheduled: after an activation, for a failed CI, and to notify (again).\<close>

datatype scheduled =
    NewUserActivated int int
  | ActivateAccountUser int int
  | StatusSetError string
  | NotifyCommit int string
  | RetryNotify int

record seats =
  se_owners :: owners
  se_tasks :: "scheduled list"

definition schedule_new_user_activated_task :: "int \<Rightarrow> int \<Rightarrow> seats \<Rightarrow> seats" where
  "schedule_new_user_activated_task org author s = s\<lparr>se_tasks := se_tasks s @ [NewUserActivated org author, ActivateAccountUser org author]\<rparr>"

definition activate_author :: "installation \<Rightarrow> int \<Rightarrow> int \<Rightarrow> (seats, bool) action" where
  "activate_author inst org author s =
     (case activate_user inst org author (se_owners s) of
        (Inl e, db) \<Rightarrow> (Inl e, s\<lparr>se_owners := db\<rparr>)
      | (Inr ok, db) \<Rightarrow>
          let s' = s\<lparr>se_owners := db\<rparr>
          in if ok = Some True then (Inr True, schedule_new_user_activated_task org author s') else (Inr False, s'))"

section \<open>Decorations\<close>

text \<open>A pull request: the id of its author at the provider (if the provider knows it), whether the repository is private, and its owner.\<close>

record enriched_pull =
  ep_author :: "string option"
  ep_private :: bool
  ep_owner :: owner
  ep_parent :: "owner option"

record decoration_details =
  dd_type :: decoration
  dd_reason :: string
  dd_attempt :: bool
  dd_org :: "int option"
  dd_author :: "int option"

definition DecorationDetails :: "decoration \<Rightarrow> string \<Rightarrow> decoration_details" where
  "DecorationDetails d reason = \<lparr>dd_type = d, dd_reason = reason, dd_attempt = False, dd_org = None, dd_author = None\<rparr>"

definition BOT_USER_EMAILS :: "string list" where
  "BOT_USER_EMAILS =
     [''dependabot[bot]@users.noreply.github.com'', ''49699333+dependabot[bot]@users.noreply.github.com'',
      ''29139614+renovate[bot]@users.noreply.github.com'', ''157164994+sentry-autofix[bot]@users.noreply.github.com'',
      ''198982749+Copilot@users.noreply.github.com'']"

definition BOT_USER_IDS :: "string list" where
  "BOT_USER_IDS = [''49699333'', ''29139614'', ''157164994'', ''198982749'']"

definition is_bot_account :: "owner \<Rightarrow> bool" where
  "is_bot_account u = ((case ow_email u of None \<Rightarrow> False | Some e \<Rightarrow> e \<in> set BOT_USER_EMAILS) \<or> ow_service_id u \<in> set BOT_USER_IDS)"

definition find_author :: "owners \<Rightarrow> owner \<Rightarrow> string \<Rightarrow> owner option" where
  "find_author db org author = List.find (\<lambda>u. ow_service u = ow_service org \<and> ow_service_id u = author) db"

text \<open>The organization with the plan, whether the plan is billed by pull request authors, and its limit of uploads.\<close>

definition org_plan_of :: "plan list \<Rightarrow> installation \<Rightarrow> enriched_pull \<Rightarrow> (owner \<times> bool \<times> plan_service) res" where
  "org_plan_of plans inst ep =
     bind_res (PlanService plans (ep_owner ep) (ep_parent ep)) (\<lambda>ps.
       case is_pr_billing_plan plans (in_license inst) ps of (r, ps') \<Rightarrow> map_res (\<lambda>b. (ps_org ps', b, ps')) r)"

definition determine_uploads_used :: "bool \<Rightarrow> int \<Rightarrow> int" where
  "determine_uploads_used throttling measured = (if \<not> throttling then 0 else measured)"

definition author_decoration :: "owner \<Rightarrow> owner \<Rightarrow> decoration_details" where
  "author_decoration org u =
     (if ow_id u \<in> set (activated_users org) then DecorationDetails D_standard ''User is currently activated''
      else if is_bot_account u then DecorationDetails D_standard ''Bot user detected (does not need to be activated)''
      else if ow_auto_activate org \<noteq> Some True then DecorationDetails D_upgrade ''User must be manually activated''
      else (DecorationDetails D_upgrade ''User must be activated'')\<lparr>dd_attempt := True, dd_org := Some (ow_id org), dd_author := Some (ow_id u)\<rparr>)"

definition determine_decoration_details ::
  "plan list \<Rightarrow> installation \<Rightarrow> bool \<Rightarrow> int \<Rightarrow> owners \<Rightarrow> enriched_pull option \<Rightarrow> json \<Rightarrow> decoration_details res" where
  "determine_decoration_details plans inst throttling measured db pull empty_upload =
     (case pull of
        None \<Rightarrow> Inr (DecorationDetails D_standard ''No pull'')
      | Some ep \<Rightarrow>
          (case ep_author ep of
             None \<Rightarrow> Inr (DecorationDetails D_standard (''Can'' @ [CHR 0x27] @ ''t determine PR author - no pull info from provider''))
           | Some author \<Rightarrow>
               if empty_upload = JStr ''pass'' then Inr (DecorationDetails D_passing_empty_upload ''Non testable files got changed.'')
               else if empty_upload = JStr ''fail'' then Inr (DecorationDetails D_failing_empty_upload ''Testable files got changed.'')
               else if empty_upload = JStr ''processing'' then Inr (DecorationDetails D_processing_upload ''Upload is still processing.'')
               else if \<not> ep_private ep then Inr (DecorationDetails D_standard ''Public repo'')
               else
                 bind_res (org_plan_of plans inst ep) (\<lambda>(org, pr_billing, ps).
                   if \<not> pr_billing then Inr (DecorationDetails D_standard ''Org not on PR plan'')
                   else case find_author db org author of
                     None \<Rightarrow> Inr (DecorationDetails D_upgrade ''PR author not found in database'')
                   | Some u \<Rightarrow>
                       bind_res (fst (plan_data plans ps)) (\<lambda>p.
                         case pn_uploads p of
                           Some limit \<Rightarrow>
                             if limit \<le> determine_uploads_used throttling measured \<and> in_license inst = None
                             then Inr (DecorationDetails D_upload_limit ''Org has exceeded the upload limit'')
                             else Inr (author_decoration org u)
                         | None \<Rightarrow> Inr (author_decoration org u)))))"

text \<open>The decoration that the notify task uses, after an activation it may have led to.\<close>

definition determine_decoration_type_from_pull ::
  "plan list \<Rightarrow> installation \<Rightarrow> bool \<Rightarrow> int \<Rightarrow> enriched_pull option \<Rightarrow> json \<Rightarrow> (seats, decoration) action" where
  "determine_decoration_type_from_pull plans inst throttling measured pull empty_upload s =
     (case determine_decoration_details plans inst throttling measured (se_owners s) pull empty_upload of
        Inl e \<Rightarrow> (Inl e, s)
      | Inr d \<Rightarrow>
          (case (dd_attempt d, dd_org d, dd_author d) of
             (True, Some org, Some author) \<Rightarrow>
               and_then (activate_author inst org author) (\<lambda>ok. yield (if ok then D_standard else dd_type d)) s
           | _ \<Rightarrow> (Inr (dd_type d), s)))"

section \<open>Seats\<close>

datatype should_activate_seat = NO_ACTIVATE | MANUAL_ACTIVATE | AUTO_ACTIVATE

record seat_activation_info =
  si_activate :: should_activate_seat
  si_owner :: "int option"
  si_author :: "int option"
  si_reason :: string

definition no_seat :: "string \<Rightarrow> seat_activation_info" where
  "no_seat reason = \<lparr>si_activate = NO_ACTIVATE, si_owner = None, si_author = None, si_reason = reason\<rparr>"

definition determine_seat_activation :: "plan list \<Rightarrow> installation \<Rightarrow> owners \<Rightarrow> enriched_pull \<Rightarrow> seat_activation_info res" where
  "determine_seat_activation plans inst db ep =
     (case ep_author ep of
        None \<Rightarrow> Inr (no_seat ''no_provider_pull'')
      | Some author \<Rightarrow>
          if \<not> ep_private ep then Inr (no_seat ''public_repo'')
          else
            bind_res (org_plan_of plans inst ep) (\<lambda>(org, pr_billing, ps).
              if \<not> pr_billing then Inr (no_seat ''no_pr_billing_plan'')
              else case find_author db org author of
                None \<Rightarrow> Inr (no_seat ''no_pr_author'')
              | Some u \<Rightarrow>
                  if ow_id u \<in> set (activated_users org) then Inr (no_seat ''author_in_plan_activated_users'')
                  else if is_bot_account u then Inr (no_seat ''is_bot_account'')
                  else if ow_auto_activate org \<noteq> Some True
                    then Inr \<lparr>si_activate = MANUAL_ACTIVATE, si_owner = Some (ow_id org), si_author = Some (ow_id u), si_reason = ''manual_activate''\<rparr>
                  else Inr \<lparr>si_activate = AUTO_ACTIVATE, si_owner = Some (ow_id org), si_author = Some (ow_id u), si_reason = ''auto_activate''\<rparr>))"

text \<open>Whether the message that asks for an upgrade is shown; the ids are asserted not to be zero.\<close>

definition check_seat_activation :: "plan list \<Rightarrow> installation \<Rightarrow> enriched_pull \<Rightarrow> (seats, bool) action" where
  "check_seat_activation plans inst ep s =
     (case determine_seat_activation plans inst (se_owners s) ep of
        Inl e \<Rightarrow> (Inl e, s)
      | Inr info \<Rightarrow>
          (case si_activate info of
             NO_ACTIVATE \<Rightarrow> (Inr False, s)
           | MANUAL_ACTIVATE \<Rightarrow> (Inr True, s)
           | AUTO_ACTIVATE \<Rightarrow>
               (case (si_owner info, si_author info) of
                  (Some org, Some author) \<Rightarrow>
                    if org = 0 \<or> author = 0 then (Inl AssertionError, s)
                    else and_then (activate_author inst org author) (\<lambda>ok. yield (\<not> ok)) s
                | _ \<Rightarrow> (Inl AssertionError, s))))"

section \<open>Bounds\<close>

lemma length_append_unique: "length (activated_users (append_unique uid org)) \<le> Suc (length (activated_users org))"
  using length_filter_le [of "\<lambda>x. uid \<noteq> x" "activated_users org"]
  by (simp add: append_unique_def activated_users_def removeAll_filter_not_eq split: option.splits)

lemma all_activated_update:
  assumes "\<And>w. set (activated_users (f w)) \<subseteq> insert uid (set (activated_users w))"
  shows "all_activated (update_owner i f db) \<subseteq> insert uid (all_activated db)"
  using assms by (fastforce simp: all_activated_def update_owner_def)

lemma finite_all_activated [simp]: "finite (all_activated db)"
  by (simp add: all_activated_def)

text \<open>
  C32. Automatic activation never fills more seats than there are: an organization in the cloud gets no more activated users than its plan
  has, and a self-hosted installation no more than its license allows. In both cases nobody but the given user is added.
\<close>

theorem activation_bounded:
  assumes "activate_user inst org_id uid db = (Inr r, db')"
  shows "all_activated db' \<subseteq> insert uid (all_activated db) \<and>
    (in_license inst = None \<longrightarrow>
      (\<forall>k < length db. \<forall>n. ow_user_count (db ! k) = Some n \<and> int (length (activated_users (db ! k))) \<le> n \<longrightarrow>
         int (length (activated_users (db' ! k))) \<le> n)) \<and>
    (\<forall>li n. in_license inst = Some li \<and> li_users li = Some n \<and> int (card (all_activated db)) \<le> n \<longrightarrow>
       int (card (all_activated db')) \<le> n)"
proof (cases "in_license inst")
  case None
  then have db': "db' = update_owner org_id (auto_activated uid) db"
    using assms by (auto simp: activate_user_def try_to_auto_activate_def Let_def)
  have "int (length (activated_users (db' ! k))) \<le> n"
    if "k < length db" "ow_user_count (db ! k) = Some n" "int (length (activated_users (db ! k))) \<le> n" for k n
    using that length_append_unique [of uid "db ! k"] by (auto simp: db' update_owner_def auto_activated_def)
  moreover have "all_activated db' \<subseteq> insert uid (all_activated db)"
    unfolding db' by (rule all_activated_update) (auto simp: auto_activated_def split: option.splits)
  ultimately show ?thesis using None by simp
next
  case (Some li)
  from assms Some consider (same) "db' = db" | (added) n where "db' = update_owner org_id (append_unique uid) db" "li_users li = Some n" "int (card (all_activated db)) < n"
    by (auto simp: activate_user_def seats_available_def get_installation_plan_activated_users_def split: if_splits sum.splits bool.splits option.splits)
  then show ?thesis
  proof cases
    case same
    then show ?thesis using Some by auto
  next
    case (added n)
    have sub: "all_activated db' \<subseteq> insert uid (all_activated db)" unfolding added(1) by (rule all_activated_update) simp
    have "card (all_activated db') \<le> Suc (card (all_activated db))"
      using card_mono [OF _ sub] card_insert_if [of "all_activated db" uid] by (auto split: if_splits)
    with added(2,3) sub Some show ?thesis by auto
  qed
qed

definition sample_installation :: "license_info option \<Rightarrow> installation" where
  "sample_installation li = \<lparr>in_license = li, in_url = None, in_now = 0, in_token_counts = [], in_repos = 0\<rparr>"

theorem activation_bounded_witness:
  "\<exists>db'. activate_user (sample_installation (Some sample_license)) 1 2 [sample_owner 1 (Some [3]), sample_owner 2 None, sample_owner 3 None]
       = (Inr (Some True), db') \<and> card (all_activated db') = 2 \<and> all_activated db' \<subseteq> {2, 3}"
proof -
  let ?db = "[sample_owner 1 (Some [3]), sample_owner 2 None, sample_owner 3 None]"
  let ?run = "activate_user (sample_installation (Some sample_license)) 1 2 ?db"
  have "fst ?run = Inr (Some True)" "card (all_activated (snd ?run)) = 2" "all_activated ?db = {3}" by code_simp+
  note run = this
  from run(1) have eq: "?run = (Inr (Some True), snd ?run)" by (metis prod.collapse)
  have "all_activated (snd ?run) \<subseteq> insert 2 (all_activated ?db)" using activation_bounded [OF eq] by (rule conjunct1)
  then have "all_activated (snd ?run) \<subseteq> {2, 3}" unfolding run(3) .
  with run(2) eq show ?thesis by (intro exI [of _ "snd ?run"] conjI)
qed

text \<open>
  The check of seats when a user is activated by hand counts the free seats and leaves out students; automatic
  activation in the cloud counts neither, and refuses a user for whom there is a seat.
\<close>

lemma free_seats_not_used:
  "owner_can_activate_user [sample_owner 2 None, sample_owner 3 None] ((sample_owner 1 (Some [3]))\<lparr>ow_user_count := Some 1, ow_free := 1\<rparr>)
     (sample_owner 2 None) None = Inr True"
  "fst (try_to_auto_activate 1 2 [(sample_owner 1 (Some [3]))\<lparr>ow_user_count := Some 1, ow_free := 1\<rparr>, sample_owner 2 None, sample_owner 3 None])
     = Some False"
  by code_simp+

text \<open>A license without a number of users has no seats for the web application, is unlimited as to validity, and stops automatic activation.\<close>

lemma unlimited_license:
  assumes "li_users li = None" "in_license inst = Some li"
  shows "license_seats li = 0"
    "calculate_reason_for_not_being_valid inst li db = None \<Longrightarrow> activate_user inst org uid db = (Inl TypeError, db)"
  using assms by (simp_all add: license_seats_def activate_user_def seats_available_def)

section \<open>The two checks of an author\<close>

lemma org_plan_id:
  assumes "org_plan_of plans inst ep = Inr (org, b, ps)" "ow_id (ep_owner ep) \<noteq> 0" "\<forall>r. ep_parent ep = Some r \<longrightarrow> ow_id r \<noteq> 0"
  shows "ow_id org \<noteq> 0"
proof -
  have "ps_org q = ps_org p" if "is_pr_billing_plan plans l p = (r, q)" for l p q r
    using that by (auto simp: is_pr_billing_plan_def yield_def split: option.splits elim!: and_then_eqE dest: plan_data_org)
  with assms show ?thesis
    by (fastforce simp: org_plan_of_def PlanService_def Let_def map_res_def split: if_splits option.splits prod.splits)
qed

lemma find_author_in: "find_author db org author = Some u \<Longrightarrow> u \<in> set db"
  by (auto simp: find_author_def find_Some_iff)

text \<open>Whether the author of a pull request has a row in the database, at the service of the organization with the plan.\<close>

definition author_known :: "plan list \<Rightarrow> installation \<Rightarrow> enriched_pull \<Rightarrow> string \<Rightarrow> owners \<Rightarrow> bool" where
  "author_known plans inst ep author db =
     (case org_plan_of plans inst ep of Inl _ \<Rightarrow> True | Inr (org, _, _) \<Rightarrow> find_author db org author \<noteq> None)"

text \<open>
  C33. The check of seats and the decoration of a pull request, for an upload that is neither empty nor still in processing and an
  organization whose uploads of the month are not used up: the message that asks for an upgrade is shown exactly when the
  decoration is the upgrade decoration and the author is in the database, and both activate the same users and schedule the
  same tasks. For an author who is not in the database they disagree: the decoration is the upgrade decoration and no
  message is shown.
\<close>

theorem seat_check_agrees:
  assumes "ep_author ep = Some author" "empty_upload \<notin> {JStr ''pass'', JStr ''fail'', JStr ''processing''}"
    and "\<forall>w \<in> set (se_owners s). ow_id w \<noteq> 0" "ow_id (ep_owner ep) \<noteq> 0" "\<forall>r. ep_parent ep = Some r \<longrightarrow> ow_id r \<noteq> 0"
    and "determine_decoration_type_from_pull plans inst throttling measured (Some ep) empty_upload s = (Inr d, s')" "d \<noteq> D_upload_limit"
  shows "check_seat_activation plans inst ep s = (Inr (d = D_upgrade \<and> author_known plans inst ep author (se_owners s)), s')"
proof (cases "ep_private ep")
  case False
  then show ?thesis
    using assms(1,2,6)
    by (auto simp: determine_decoration_type_from_pull_def determine_decoration_details_def check_seat_activation_def
        determine_seat_activation_def DecorationDetails_def no_seat_def)
next
  case True
  note defs = determine_decoration_type_from_pull_def determine_decoration_details_def check_seat_activation_def
    determine_seat_activation_def DecorationDetails_def no_seat_def
  from assms(1,2,6) True obtain org b ps where o: "org_plan_of plans inst ep = Inr (org, b, ps)"
    by (auto simp: defs split: sum.splits)
  show ?thesis
  proof (cases b)
    case False
    then show ?thesis using assms(1,2,6) True o by (auto simp: defs)
  next
    case b: True
    show ?thesis
    proof (cases "find_author (se_owners s) org author")
      case None
      then show ?thesis using assms(1,2,6) True o b by (auto simp: defs author_known_def)
    next
      case (Some u)
      note u = Some
      have known: "author_known plans inst ep author (se_owners s)" using o u by (simp add: author_known_def)
      have ids: "ow_id org \<noteq> 0" "ow_id u \<noteq> 0" using org_plan_id [OF o assms(4,5)] find_author_in [OF u] assms(3) by auto
      have dets: "determine_decoration_details plans inst throttling measured (se_owners s) (Some ep) empty_upload =
          bind_res (fst (plan_data plans ps)) (\<lambda>p. case pn_uploads p of
              Some limit \<Rightarrow>
                if limit \<le> determine_uploads_used throttling measured \<and> in_license inst = None
                then Inr (DecorationDetails D_upload_limit ''Org has exceeded the upload limit'')
                else Inr (author_decoration org u)
            | None \<Rightarrow> Inr (author_decoration org u))"
        using assms(1,2) True o b u by (simp add: determine_decoration_details_def)
      obtain p where p: "fst (plan_data plans ps) = Inr p"
        using assms(6) dets by (cases "fst (plan_data plans ps)") (simp_all add: determine_decoration_type_from_pull_def)
      have "determine_decoration_details plans inst throttling measured (se_owners s) (Some ep) empty_upload = Inr (author_decoration org u)"
        using assms(6,7) unfolding determine_decoration_type_from_pull_def dets p
        by (auto simp: DecorationDetails_def split: option.splits if_splits)
      with assms(6) have d: "(case (dd_attempt (author_decoration org u), dd_org (author_decoration org u), dd_author (author_decoration org u)) of
          (True, Some x, Some y) \<Rightarrow> and_then (activate_author inst x y) (\<lambda>ok. yield (if ok then D_standard else dd_type (author_decoration org u))) s
        | _ \<Rightarrow> (Inr (dd_type (author_decoration org u)), s)) = (Inr d, s')"
        by (simp add: determine_decoration_type_from_pull_def)
      have seat: "determine_seat_activation plans inst (se_owners s) ep = Inr
          (if ow_id u \<in> set (activated_users org) then no_seat ''author_in_plan_activated_users''
           else if is_bot_account u then no_seat ''is_bot_account''
           else if ow_auto_activate org \<noteq> Some True
             then \<lparr>si_activate = MANUAL_ACTIVATE, si_owner = Some (ow_id org), si_author = Some (ow_id u), si_reason = ''manual_activate''\<rparr>
           else \<lparr>si_activate = AUTO_ACTIVATE, si_owner = Some (ow_id org), si_author = Some (ow_id u), si_reason = ''auto_activate''\<rparr>)"
        using assms(1) True o b u by (simp add: determine_seat_activation_def)
      show ?thesis
        using d ids known unfolding check_seat_activation_def seat author_decoration_def
        by (cases "activate_author inst (ow_id org) (ow_id u) s")
          (auto simp: DecorationDetails_def no_seat_def and_then_def yield_def split: if_splits sum.splits)
    qed
  qed
qed

definition sample_enriched_pull :: enriched_pull where
  "sample_enriched_pull = \<lparr>ep_author = Some ''2'', ep_private = True,
     ep_owner = (sample_owner 1 (Some [3]))\<lparr>ow_auto_activate := Some True\<rparr>, ep_parent = None\<rparr>"

definition sample_seats :: seats where
  "sample_seats = \<lparr>se_owners = [ep_owner sample_enriched_pull, sample_owner 2 None, sample_owner 3 None], se_tasks = []\<rparr>"

theorem seat_check_agrees_witness:
  "\<exists>s'. determine_decoration_type_from_pull sample_plans (sample_installation None) True 249 (Some sample_enriched_pull) JNull
       sample_seats = (Inr D_standard, s') \<and>
     check_seat_activation sample_plans (sample_installation None) sample_enriched_pull sample_seats = (Inr False, s')"
proof -
  let ?run = "determine_decoration_type_from_pull sample_plans (sample_installation None) True 249 (Some sample_enriched_pull) JNull sample_seats"
  have "fst ?run = Inr D_standard" by code_simp
  then have eq: "?run = (Inr D_standard, snd ?run)" by (metis prod.collapse)
  have "check_seat_activation sample_plans (sample_installation None) sample_enriched_pull sample_seats =
    (Inr (D_standard = D_upgrade \<and> author_known sample_plans (sample_installation None) sample_enriched_pull ''2'' (se_owners sample_seats)), snd ?run)"
    by (rule seat_check_agrees [OF _ _ _ _ _ eq]) (simp_all add: sample_enriched_pull_def sample_seats_def sample_owner_def)
  with eq show ?thesis by (intro exI [of _ "snd ?run"] conjI) simp_all
qed

end
