(* ===== verification/Repository_Service.thy ===== *)
theory Repository_Service
  imports Comparison
begin

text \<open>
  What the worker learns from the provider about commits and pull requests (apps/worker/services/repository.py): the parent of a
  commit, its author, branch and pull request, and the base that a pull request is compared with. The state is the
  rows of one repository; the answers of the provider are an argument.
\<close>

section \<open>Rows and answers\<close>

record commit_row =
  km_id :: string
  km_branch :: "string option"
  km_message :: "string option"
  km_deleted :: "bool option"
  km_timestamp :: int
  km_pullid :: "int option"
  km_merged :: "bool option"
  km_ci_passed :: "bool option"
  km_parent :: "string option"
  km_author :: "int option"

record pull_row =
  pq_id :: int
  pq_state :: string
  pq_title :: string
  pq_issueid :: int
  pq_base :: "string option"
  pq_compared_to :: "string option"
  pq_head :: "string option"
  pq_author :: "int option"
  pq_user_base :: "string option"

record author_row =
  au_id :: int
  au_service :: string
  au_service_id :: string
  au_username :: "string option"
  au_name :: "string option"
  au_email :: "string option"

record repo_state =
  rs_authors :: "author_row list"
  rs_commits :: "commit_row list"
  rs_pulls :: "pull_row list"

datatype ancestor = Ancestor (tr_id: string) (tr_parents: "ancestor list")

text \<open>The id of an author is \<open>None\<close> or empty when the provider does not know the author.\<close>

record git_commit =
  gc_author_id :: "string option"
  gc_username :: "string option"
  gc_email :: "string option"
  gc_name :: "string option"
  gc_message :: string
  gc_timestamp :: int
  gc_parents :: "string list"

record pull_info =
  pi_id :: int
  pi_state :: string
  pi_title :: string
  pi_author_id :: string
  pi_username :: "string option"
  pi_head_branch :: string
  pi_head_slug :: "string option"
  pi_head_commit :: string
  pi_base_branch :: string
  pi_base_slug :: "string option"
  pi_base_commit :: string

record repo_adapter =
  ra_commit :: "string \<Rightarrow> git_commit option res"
  ra_tree :: "string \<Rightarrow> ancestor res"
  ra_find_pull :: "string \<Rightarrow> string option \<Rightarrow> int option res"
  ra_pull :: "string \<Rightarrow> pull_info res"
  ra_branches :: "string \<Rightarrow> string list res"

text \<open>The service and the default branch of the repository, and the regular expression for merges on Bitbucket.\<close>

record repo_env =
  rn_service :: string
  rn_branch :: "string option"
  rn_merged_pull :: "string \<Rightarrow> string option"

definition modify :: "('s \<Rightarrow> 's) \<Rightarrow> ('s, unit) action" where
  "modify f s = (Inr (), f s)"

section \<open>The parent of a commit\<close>

definition parent_candidates :: "bool \<Rightarrow> commit_row list \<Rightarrow> string list \<Rightarrow> commit_row list" where
  "parent_candidates with_message rows ids =
     filter (\<lambda>k. km_id k \<in> set ids \<and> (with_message \<longrightarrow> km_message k \<noteq> None) \<and> km_deleted k \<noteq> Some True) rows"

definition possibly_filter_out_branch :: "string option \<Rightarrow> commit_row list \<Rightarrow> commit_row option" where
  "possibly_filter_out_branch branch ks = (case ks of [k] \<Rightarrow> Some k | _ \<Rightarrow> List.find (\<lambda>k. km_branch k = branch) ks)"

definition parent_in :: "bool \<Rightarrow> commit_row list \<Rightarrow> string option \<Rightarrow> string list \<Rightarrow> string option" where
  "parent_in with_message rows branch ids = map_option km_id (possibly_filter_out_branch branch (parent_candidates with_message rows ids))"

function closest_parent :: "commit_row list \<Rightarrow> string option \<Rightarrow> string option \<Rightarrow> ancestor list \<Rightarrow> string option" where
  "closest_parent rows branch without_message elements =
     (if elements = [] then without_message
      else
        let parents = concat (map tr_parents elements); ids = map tr_id parents
        in case parent_in True rows branch ids of
             Some p \<Rightarrow> Some p
           | None \<Rightarrow>
               closest_parent rows branch (if without_message = None then parent_in False rows branch ids else without_message) parents)"
  by pat_completeness auto

lemma size_ancestors: "sum_list (map size xs) \<le> size_list size xs" for xs :: "ancestor list"
  by (induction xs) auto

lemma size_parents: "sum_list (map size (tr_parents a)) < size a"
  using size_ancestors [of "tr_parents a"] by (cases a) simp

lemma size_generation: "elements \<noteq> [] \<Longrightarrow> sum_list (map size (concat (map tr_parents elements))) < sum_list (map size elements)"
proof (induction elements)
  case (Cons a as)
  then show ?case using size_parents [of a] by (cases "as = []") (auto simp: add_strict_mono)
qed simp

termination closest_parent
  by (relation "measure (\<lambda>(_, _, _, elements). sum_list (map size elements))") (simp_all add: size_generation del: map_concat)

declare closest_parent.simps [simp del]

definition fetch_appropriate_parent_for_commit ::
  "repo_adapter \<Rightarrow> commit_row list \<Rightarrow> commit_row \<Rightarrow> git_commit option \<Rightarrow> string option res" where
  "fetch_appropriate_parent_for_commit A rows commit git_commit =
     (case (case git_commit of None \<Rightarrow> None | Some g \<Rightarrow> parent_in True rows (km_branch commit) (gc_parents g)) of
        Some p \<Rightarrow> Inr (Some p)
      | None \<Rightarrow> map_res (\<lambda>tree. closest_parent rows (km_branch commit) None [tree]) (ra_tree A (km_id commit)))"

section \<open>Authors\<close>

definition same_author :: "string \<Rightarrow> string \<Rightarrow> author_row \<Rightarrow> bool" where
  "same_author service sid a = (au_service a = service \<and> au_service_id a = sid)"

text \<open>Names of a service are unique, whatever their case, unless they are missing.\<close>

definition name_taken :: "string \<Rightarrow> string option \<Rightarrow> author_row list \<Rightarrow> bool" where
  "name_taken service username as =
     (case username of None \<Rightarrow> False | Some u \<Rightarrow> \<exists>a \<in> set as. au_service a = service \<and> map_option lower (au_username a) = Some (lower u))"

definition fresh_author_id :: "author_row list \<Rightarrow> int" where
  "fresh_author_id as = foldr (\<lambda>a m. max m (au_id a + 1)) as 1"

definition overwrite :: "'a option \<Rightarrow> 'a option \<Rightarrow> 'a option" where
  "overwrite old new = (if new = None then old else new)"

text \<open>
  A row that is there is updated with what is known now, a row that is missing is added. When the name belongs to another row, the
  update fails; the insertion is undone and the row is read again, which is not there.
\<close>

definition upsert_author ::
  "string \<Rightarrow> string \<Rightarrow> string option \<Rightarrow> string option \<Rightarrow> string option \<Rightarrow> (author_row list, int) action" where
  "upsert_author service sid username email name as =
     (case List.find (same_author service sid) as of
        Some a \<Rightarrow>
          if au_username a \<noteq> username \<and> name_taken service username (filter (\<lambda>b. au_id b \<noteq> au_id a) as) then (Inl IntegrityError, as)
          else
            (Inr (au_id a),
             map (\<lambda>b. if au_id b = au_id a
               then b\<lparr>au_username := overwrite (au_username b) username, au_name := overwrite (au_name b) name, au_email := overwrite (au_email b) email\<rparr>
               else b) as)
      | None \<Rightarrow>
          if name_taken service username as then (Inl NoResultFound, as)
          else
            (Inr (fresh_author_id as),
             as @ [\<lparr>au_id = fresh_author_id as, au_service = service, au_service_id = sid, au_username = username, au_name = name, au_email = email\<rparr>]))"

definition on_authors :: "(author_row list, 'a) action \<Rightarrow> (repo_state, 'a) action" where
  "on_authors m s = (case m (rs_authors s) of (r, as) \<Rightarrow> (r, s\<lparr>rs_authors := as\<rparr>))"

section \<open>A commit from the provider\<close>

definition update_commit :: "string \<Rightarrow> (commit_row \<Rightarrow> commit_row) \<Rightarrow> repo_state \<Rightarrow> repo_state" where
  "update_commit sha f s = s\<lparr>rs_commits := map (\<lambda>k. if km_id k = sha then f k else k) (rs_commits s)\<rparr>"

definition get_commit_row :: "string \<Rightarrow> (repo_state, commit_row) action" where
  "get_commit_row sha s = (case List.find (\<lambda>k. km_id k = sha) (rs_commits s) of None \<Rightarrow> Inl AssertionError | Some k \<Rightarrow> Inr k, s)"

definition truthy_id :: "int option \<Rightarrow> bool" where
  "truthy_id p = (p \<noteq> None \<and> p \<noteq> Some 0)"

definition commit_author_of :: "repo_env \<Rightarrow> git_commit \<Rightarrow> (repo_state, int option) action" where
  "commit_author_of R g =
     (case gc_author_id g of
        Some (c # cs) \<Rightarrow>
          and_then (on_authors (upsert_author (rn_service R) (c # cs) (gc_username g) (gc_email g) (gc_name g))) (\<lambda>i. yield (Some i))
      | _ \<Rightarrow> yield None)"

text \<open>The branch of a pull request from a fork has the name of the fork; a fork without a name is a \<open>TypeError\<close>.\<close>

definition pull_branch :: "pull_info \<Rightarrow> string res" where
  "pull_branch d =
     (if pi_head_slug d = pi_base_slug d then Inr (pi_head_branch d)
      else case pi_head_slug d of None \<Rightarrow> Inl TypeError | Some slug \<Rightarrow> Inr (slug @ '':'' @ pi_head_branch d))"

definition update_branch :: "repo_env \<Rightarrow> repo_adapter \<Rightarrow> commit_row \<Rightarrow> int option \<Rightarrow> (repo_state, unit) action" where
  "update_branch R A commit pullid =
     (if truthy_id pullid then
        and_then (lift_res (bind_res (ra_pull A (int_str (the pullid))) pull_branch)) (\<lambda>branch.
          modify (update_commit (km_id commit) (\<lambda>k. k\<lparr>km_branch := Some branch, km_merged := Some False\<rparr>)))
      else
        and_then (lift_res (ra_branches A (km_id commit))) (\<lambda>branches.
          modify (update_commit (km_id commit) (\<lambda>k.
            if (case rn_branch R of None \<Rightarrow> False | Some b \<Rightarrow> b \<in> set branches)
            then k\<lparr>km_merged := Some True, km_branch := rn_branch R\<rparr> else k\<lparr>km_merged := Some False\<rparr>))))"

text \<open>The number in the message is text and the id of the row is not, so that the pull request is fetched every time.\<close>

definition bitbucket_branch :: "repo_env \<Rightarrow> repo_adapter \<Rightarrow> string \<Rightarrow> git_commit \<Rightarrow> (repo_state, unit) action" where
  "bitbucket_branch R A sha g =
     (if rn_service R \<noteq> ''bitbucket'' then yield ()
      else case rn_merged_pull R (gc_message g) of
        None \<Rightarrow> yield ()
      | Some pullid \<Rightarrow>
          and_then (lift_res (ra_pull A pullid)) (\<lambda>d. modify (update_commit sha (\<lambda>k. k\<lparr>km_branch := Some (pi_base_branch d)\<rparr>))))"

definition find_pull_of :: "repo_adapter \<Rightarrow> commit_row \<Rightarrow> (repo_state, int option) action" where
  "find_pull_of A commit =
     (if truthy_id (km_pullid commit) then yield (km_pullid commit)
      else
        and_then (lift_res (ra_find_pull A (km_id commit) (km_branch commit))) (\<lambda>p.
        and_then (modify (update_commit (km_id commit) (\<lambda>k. k\<lparr>km_pullid := p\<rparr>))) (\<lambda>_. yield p)))"

definition update_commit_from_provider_info :: "repo_env \<Rightarrow> repo_adapter \<Rightarrow> string \<Rightarrow> (repo_state, unit) action" where
  "update_commit_from_provider_info R A sha =
     and_then (get_commit_row sha) (\<lambda>commit.
     and_then (lift_res (ra_commit A sha)) (\<lambda>git_commit.
       case git_commit of
         None \<Rightarrow> yield ()
       | Some g \<Rightarrow>
           and_then (commit_author_of R g) (\<lambda>author.
           and_then (\<lambda>s. lift_res (fetch_appropriate_parent_for_commit A (rs_commits s) commit (Some g)) s) (\<lambda>parent.
           and_then (modify (update_commit sha (\<lambda>k.
             k\<lparr>km_parent := parent, km_message := Some (gc_message g), km_author := author, km_timestamp := gc_timestamp g\<rparr>))) (\<lambda>_.
           and_then (find_pull_of A commit) (\<lambda>pullid.
           and_then (update_branch R A commit pullid) (\<lambda>_.
             bitbucket_branch R A sha g)))))))"

definition possibly_update_commit_from_provider_info :: "repo_env \<Rightarrow> repo_adapter \<Rightarrow> string \<Rightarrow> (repo_state, bool) action" where
  "possibly_update_commit_from_provider_info R A sha =
     and_then (get_commit_row sha) (\<lambda>commit s.
       if km_message commit = None \<or> km_message commit = Some [] then
         (case update_commit_from_provider_info R A sha s of
            (Inr _, s') \<Rightarrow> (Inr True, s')
          | (Inl e, s') \<Rightarrow> (if e = TorngitError TorngitObjectNotFoundError then Inr False else Inl e, s'))
       else (Inr False, s))"

section \<open>Pull requests\<close>

text \<open>
  The commits that can stand for a base that is not known: of the base branch, not of an open pull request, older than the
  base, and (unless the configuration says otherwise) with CI passed. The newest of them is taken.
\<close>

definition stands_for :: "json \<Rightarrow> string \<Rightarrow> int \<Rightarrow> commit_row \<Rightarrow> bool" where
  "stands_for yaml branch timestamp k =
     (km_branch k = Some branch \<and> (km_pullid k = None \<or> km_merged k = Some True) \<and> km_timestamp k < timestamp \<and>
      (j_truthy (read_yaml_field yaml [''codecov'', ''require_ci_to_pass''] (JBool True)) \<longrightarrow> km_ci_passed k = Some True))"

fun newest_commit :: "commit_row list \<Rightarrow> commit_row option" where
  "newest_commit [] = None"
| "newest_commit (k # ks) =
     (case newest_commit ks of None \<Rightarrow> Some k | Some m \<Rightarrow> Some (if km_timestamp k < km_timestamp m then m else k))"

fun pick_base :: "repo_adapter \<Rightarrow> json \<Rightarrow> commit_row list \<Rightarrow> string \<Rightarrow> string list \<Rightarrow> (string \<times> string) option res" where
  "pick_base A yaml rows branch [] = Inr None"
| "pick_base A yaml rows branch (sha # shas) =
     (if sha \<in> km_id ` set rows then Inr (Some (sha, sha))
      else case ra_commit A sha of
        Inr None \<Rightarrow> Inl TypeError
      | Inr (Some g) \<Rightarrow>
          (case newest_commit (filter (stands_for yaml branch (gc_timestamp g)) rows) of
             Some k \<Rightarrow> Inr (Some (sha, km_id k))
           | None \<Rightarrow> pick_base A yaml rows branch shas)
      | Inl e \<Rightarrow> if e = TorngitError TorngitObjectNotFoundError then pick_base A yaml rows branch shas else Inl e)"

definition base_candidates :: "pull_row \<Rightarrow> pull_info \<Rightarrow> string list" where
  "base_candidates p info = (case pq_user_base p of Some sha \<Rightarrow> [sha, pi_base_commit info] | None \<Rightarrow> [pi_base_commit info])"

definition pick_best_base_comparedto_pair ::
  "repo_adapter \<Rightarrow> json \<Rightarrow> commit_row list \<Rightarrow> pull_row \<Rightarrow> pull_info \<Rightarrow> (string \<times> string option) res" where
  "pick_best_base_comparedto_pair A yaml rows p info =
     map_res (\<lambda>r. case r of Some (b, c) \<Rightarrow> (b, Some c) | None \<Rightarrow> (hd (base_candidates p info), None))
       (pick_base A yaml rows (pi_base_branch info) (base_candidates p info))"

definition update_pull :: "int \<Rightarrow> (pull_row \<Rightarrow> pull_row) \<Rightarrow> repo_state \<Rightarrow> repo_state" where
  "update_pull i f s = s\<lparr>rs_pulls := map (\<lambda>p. if pq_id p = i then f p else p) (rs_pulls s)\<rparr>"

definition find_pull :: "int \<Rightarrow> repo_state \<Rightarrow> pull_row option" where
  "find_pull i s = List.find (\<lambda>p. pq_id p = i) (rs_pulls s)"

definition store_pull :: "int \<Rightarrow> pull_info \<Rightarrow> repo_state \<Rightarrow> repo_state" where
  "store_pull i info s =
     (if find_pull i s = None
      then s\<lparr>rs_pulls := rs_pulls s @ [\<lparr>pq_id = i, pq_state = pi_state info, pq_title = pi_title info, pq_issueid = pi_id info,
        pq_base = None, pq_compared_to = None, pq_head = None, pq_author = None, pq_user_base = None\<rparr>]\<rparr>
      else update_pull i (\<lambda>p. p\<lparr>pq_state := pi_state info, pq_title := pi_title info, pq_issueid := pi_id info\<rparr>) s)"

text \<open>An enriched pull request: the row if there is one, and what the provider says.\<close>

type_synonym enriched = "int option \<times> pull_info option"

definition fetch_and_update_pull_request_information :: "repo_env \<Rightarrow> repo_adapter \<Rightarrow> json \<Rightarrow> int \<Rightarrow> (repo_state, enriched) action" where
  "fetch_and_update_pull_request_information R A yaml pullid s =
     (case ra_pull A (int_str pullid) of
        Inl e \<Rightarrow> (if is_torngit_error e then Inr (map_option pq_id (find_pull pullid s), None) else Inl e, s)
      | Inr info \<Rightarrow>
          let s1 = store_pull pullid info s
          in (case find_pull pullid s1 of
                None \<Rightarrow> (Inl AssertionError, s1)
              | Some p \<Rightarrow>
                  and_then (lift_res (pick_best_base_comparedto_pair A yaml (rs_commits s1) p info)) (\<lambda>(b, compared_to).
                  and_then (modify (update_pull pullid (\<lambda>q. q\<lparr>pq_base := Some b, pq_compared_to := compared_to\<rparr>))) (\<lambda>_.
                  and_then
                    (if pq_author p = None then
                       and_then (on_authors (upsert_author (rn_service R) (pi_author_id info) (pi_username info) None None)) (\<lambda>i.
                         modify (update_pull pullid (\<lambda>q. q\<lparr>pq_author := Some i\<rparr>)))
                     else yield ()) (\<lambda>_.
                    yield (Some pullid, Some info)))) s1))"

definition head_outdated :: "commit_row \<Rightarrow> pull_row \<Rightarrow> repo_state \<Rightarrow> bool" where
  "head_outdated commit p s =
     (case List.find (\<lambda>k. Some (km_id k) = pq_head p) (rs_commits s) of None \<Rightarrow> True | Some h \<Rightarrow> km_timestamp h \<le> km_timestamp commit)"

definition move_head :: "commit_row \<Rightarrow> int \<Rightarrow> repo_state \<Rightarrow> repo_state" where
  "move_head commit i s =
     (case find_pull i s of
        None \<Rightarrow> s
      | Some p \<Rightarrow> if head_outdated commit p s then update_pull i (\<lambda>q. q\<lparr>pq_head := Some (km_id commit)\<rparr>) s else s)"

definition pull_of_commit :: "repo_adapter \<Rightarrow> commit_row \<Rightarrow> int option res" where
  "pull_of_commit A commit =
     (if truthy_id (km_pullid commit) then Inr (km_pullid commit)
      else case ra_find_pull A (km_id commit) (km_branch commit) of
        Inr p \<Rightarrow> Inr p
      | Inl e \<Rightarrow> if is_client_error e then Inr (km_pullid commit) else Inl e)"

definition fetch_and_update_pull_request_information_from_commit ::
  "repo_env \<Rightarrow> repo_adapter \<Rightarrow> json \<Rightarrow> commit_row \<Rightarrow> (repo_state, enriched option) action" where
  "fetch_and_update_pull_request_information_from_commit R A yaml commit =
     and_then (lift_res (pull_of_commit A commit)) (\<lambda>pullid.
       if \<not> truthy_id pullid then yield None
       else
         and_then (fetch_and_update_pull_request_information R A yaml (the pullid)) (\<lambda>ep.
         and_then (modify (case fst ep of None \<Rightarrow> id | Some i \<Rightarrow> move_head commit i)) (\<lambda>_.
           yield (Some ep))))"

section \<open>The closest parent\<close>

text \<open>The generations of a commit: the ids of its parents, of their parents, and so on.\<close>

function generations :: "ancestor list \<Rightarrow> string list list" where
  "generations elements =
     (if elements = [] then []
      else let parents = concat (map tr_parents elements) in map tr_id parents # generations parents)"
  by pat_completeness auto

termination generations
  by (relation "measure (\<lambda>elements. sum_list (map size elements))") (simp_all add: size_generation del: map_concat)

declare generations.simps [simp del]

fun first_some :: "('a \<Rightarrow> 'b option) \<Rightarrow> 'a list \<Rightarrow> 'b option" where
  "first_some f [] = None"
| "first_some f (x # xs) = (case f x of Some y \<Rightarrow> Some y | None \<Rightarrow> first_some f xs)"

lemma first_some_split:
  "first_some f xs = Some y \<Longrightarrow> \<exists>us x vs. xs = us @ x # vs \<and> f x = Some y \<and> (\<forall>u \<in> set us. f u = None)"
proof (induction xs)
  case (Cons x xs)
  show ?case
  proof (cases "f x")
    case None
    with Cons obtain us z vs where "xs = us @ z # vs" "f z = Some y" "\<forall>u \<in> set us. f u = None" by auto
    with None show ?thesis by (intro exI [of _ "x # us"]) auto
  next
    case (Some z)
    with Cons.prems show ?thesis by (intro exI [of _ "[]"]) auto
  qed
qed simp

lemma first_some_None: "first_some f xs = None \<longleftrightarrow> (\<forall>x \<in> set xs. f x = None)"
  by (induction xs) (auto split: option.splits)

lemma closest_parent_generations:
  "closest_parent rows branch w elements =
     (case first_some (parent_in True rows branch) (generations elements) of
        Some p \<Rightarrow> Some p
      | None \<Rightarrow> if w = None then first_some (parent_in False rows branch) (generations elements) else w)"
proof (induction rows branch w elements rule: closest_parent.induct)
  case (1 rows branch w elements)
  show ?case
  proof (cases "elements = []")
    case True
    then show ?thesis by (simp add: closest_parent.simps [of _ _ _ "[]"] generations.simps [of "[]"])
  next
    case False
    let ?parents = "concat (map tr_parents elements)"
    note step = closest_parent.simps [of rows branch w elements] generations.simps [of elements]
    show ?thesis
      using 1 [OF False refl refl] False unfolding step
      by (auto simp: Let_def split: option.splits)
  qed
qed

lemma find_member: "List.find P xs = Some x \<Longrightarrow> x \<in> set xs \<and> P x"
  by (induction xs) (auto split: if_splits)

lemma filter_out_branch_member: "possibly_filter_out_branch branch ks = Some k \<Longrightarrow> k \<in> set ks"
  unfolding possibly_filter_out_branch_def
  by (cases ks; cases "tl ks") (simp_all split: if_splits, (blast dest: find_member)+)

lemma parent_in_row:
  assumes "parent_in m rows branch ids = Some p"
  shows "\<exists>k \<in> set rows. km_id k = p \<and> p \<in> set ids \<and> km_deleted k \<noteq> Some True \<and> (m \<longrightarrow> km_message k \<noteq> None)"
proof -
  from assms obtain k where k: "possibly_filter_out_branch branch (parent_candidates m rows ids) = Some k" "km_id k = p"
    by (auto simp: parent_in_def)
  from filter_out_branch_member [OF k(1)] have "k \<in> set (parent_candidates m rows ids)" .
  with k(2) show ?thesis by (auto simp: parent_candidates_def)
qed


definition sample_commit :: "string \<Rightarrow> int \<Rightarrow> string option \<Rightarrow> commit_row" where
  "sample_commit sha time message =
     \<lparr>km_id = sha, km_branch = Some ''main'', km_message = message, km_deleted = None, km_timestamp = time, km_pullid = None, km_merged = None,
      km_ci_passed = Some True, km_parent = None, km_author = None\<rparr>"

definition sample_git_commit :: "string list \<Rightarrow> git_commit" where
  "sample_git_commit parents =
     \<lparr>gc_author_id = Some ''7'', gc_username = Some ''dev'', gc_email = None, gc_name = None, gc_message = ''text'', gc_timestamp = 9, gc_parents = parents\<rparr>"

definition sample_adapter :: repo_adapter where
  "sample_adapter =
     \<lparr>ra_commit = (\<lambda>sha. if sha = ''gone'' then Inl (TorngitError TorngitObjectNotFoundError) else Inr (Some (sample_git_commit [''p1'']))),
      ra_tree = (\<lambda>sha. Inr (Ancestor sha [Ancestor ''p1'' [Ancestor ''p2'' []]])),
      ra_find_pull = (\<lambda>_ _. Inr None), ra_pull = (\<lambda>_. Inl (TorngitError TorngitObjectNotFoundError)), ra_branches = (\<lambda>_. Inr [])\<rparr>"


section \<open>The base of a pull request\<close>

lemma newest_commit_None: "newest_commit ks = None \<longleftrightarrow> ks = []"
  by (cases ks) (auto split: option.splits)

lemma newest_commit_Some:
  "newest_commit ks = Some k \<Longrightarrow> k \<in> set ks \<and> (\<forall>k' \<in> set ks. km_timestamp k' \<le> km_timestamp k)"
proof (induction ks arbitrary: k)
  case (Cons a ks)
  show ?case
  proof (cases "newest_commit ks")
    case None
    then show ?thesis using Cons.prems by (simp add: newest_commit_None)
  next
    case (Some m)
    with Cons.IH [OF Some] Cons.prems show ?thesis by (auto split: if_splits)
  qed
qed simp

definition stand_in :: "repo_adapter \<Rightarrow> json \<Rightarrow> commit_row list \<Rightarrow> string \<Rightarrow> string \<Rightarrow> commit_row \<Rightarrow> bool" where
  "stand_in A yaml rows branch sha k \<longleftrightarrow>
     (\<exists>g. ra_commit A sha = Inr (Some g) \<and> k \<in> set rows \<and> stands_for yaml branch (gc_timestamp g) k \<and>
       (\<forall>k' \<in> set rows. stands_for yaml branch (gc_timestamp g) k' \<longrightarrow> km_timestamp k' \<le> km_timestamp k))"

lemma pick_base_Some:
  assumes "pick_base A yaml rows branch shas = Inr (Some (b, c))"
  shows "b \<in> set shas \<and> (if b \<in> km_id ` set rows then c = b else \<exists>k. km_id k = c \<and> stand_in A yaml rows branch b k)"
  using assms
proof (induction shas)
  case (Cons sha shas)
  show ?case
  proof (cases "sha \<in> km_id ` set rows")
    case True
    then show ?thesis using Cons.prems by auto
  next
    case unknown: False
    consider (later) "pick_base A yaml rows branch shas = Inr (Some (b, c))"
      | (here) g k where "ra_commit A sha = Inr (Some g)" "newest_commit (filter (stands_for yaml branch (gc_timestamp g)) rows) = Some k"
          "b = sha" "c = km_id k"
      using Cons.prems unknown by (auto split: sum.splits option.splits if_splits)
    then show ?thesis
    proof cases
      case later
      from Cons.IH [OF this] show ?thesis by simp
    next
      case here
      with newest_commit_Some [OF here(2)] unknown show ?thesis by (auto simp: stand_in_def)
    qed
  qed
qed simp

lemma pick_base_None:
  assumes "pick_base A yaml rows branch shas = Inr None" "sha \<in> set shas"
  shows "sha \<notin> km_id ` set rows \<and> (\<nexists>k. stand_in A yaml rows branch sha k)"
  using assms
proof (induction shas)
  case (Cons x shas)
  have rest: "pick_base A yaml rows branch shas = Inr None" and x: "x \<notin> km_id ` set rows \<and> (\<nexists>k. stand_in A yaml rows branch x k)"
    using Cons.prems(1) by (auto simp: stand_in_def newest_commit_None filter_empty_conv split: sum.splits option.splits if_splits)
  show ?case using Cons.IH [OF rest] Cons.prems(2) x by auto
qed simp


definition sample_pull_row :: pull_row where
  "sample_pull_row =
     \<lparr>pq_id = 5, pq_state = ''open'', pq_title = ''t'', pq_issueid = 5, pq_base = None, pq_compared_to = None, pq_head = None, pq_author = None,
      pq_user_base = Some ''gone''\<rparr>"

definition sample_pull_info :: pull_info where
  "sample_pull_info =
     \<lparr>pi_id = 5, pi_state = ''open'', pi_title = ''t'', pi_author_id = ''7'', pi_username = Some ''dev'', pi_head_branch = ''feature'', pi_head_slug = None,
      pi_head_commit = ''c'', pi_base_branch = ''main'', pi_base_slug = None, pi_base_commit = ''b''\<rparr>"


text \<open>A deleted commit can become the commit that a pull request is compared with, although it cannot become a parent.\<close>

lemma deleted_base_chosen:
  "pick_best_base_comparedto_pair sample_adapter (JObj []) [(sample_commit ''p1'' 4 (Some ''m''))\<lparr>km_deleted := Some True\<rparr>] sample_pull_row sample_pull_info
     = Inr (''b'', Some ''p1'')"
  "fetch_appropriate_parent_for_commit sample_adapter [(sample_commit ''p1'' 4 (Some ''m''))\<lparr>km_deleted := Some True\<rparr>] (sample_commit ''c'' 9 None) None
     = Inr None"
  by code_simp+

section \<open>Authors and heads\<close>

definition same_person :: "author_row \<Rightarrow> author_row \<Rightarrow> bool" where
  "same_person a b \<longleftrightarrow>
     au_service a = au_service b \<and>
     (au_service_id a = au_service_id b \<or> au_username a \<noteq> None \<and> map_option lower (au_username a) = map_option lower (au_username b))"

definition authors_ok :: "author_row list \<Rightarrow> bool" where
  "authors_ok as \<longleftrightarrow> distinct (map au_id as) \<and> (\<forall>a \<in> set as. \<forall>b \<in> set as. same_person a b \<longrightarrow> au_id a = au_id b)"

lemma fresh_author_id_above: "a \<in> set as \<Longrightarrow> au_id a < fresh_author_id as"
  by (induction as) (auto simp: fresh_author_id_def)

lemma name_taken_iff:
  "name_taken service (Some u) as \<longleftrightarrow> (\<exists>a \<in> set as. au_service a = service \<and> map_option lower (au_username a) = Some (lower u))"
  by (simp add: name_taken_def)

text \<open>
  Adding or updating an author keeps authors unique by id, by service and id at the service, and by service and name; a success names the
  author with the given id at the service.
\<close>

lemma upsert_author_ok:
  assumes "authors_ok as" "upsert_author service sid username email name as = (r, as')"
  shows "authors_ok as' \<and> (\<forall>i. r = Inr i \<longrightarrow> (\<exists>a \<in> set as'. au_id a = i \<and> same_author service sid a)) \<and> (\<forall>e. r = Inl e \<longrightarrow> as' = as)"
proof (cases "List.find (same_author service sid) as")
  case None
  then have new: "\<not> same_author service sid a" if "a \<in> set as" for a using that by (simp add: find_None_iff)
  show ?thesis
  proof (cases "name_taken service username as")
    case True
    with assms None show ?thesis by (auto simp: upsert_author_def)
  next
    case False
    let ?a = "\<lparr>au_id = fresh_author_id as, au_service = service, au_service_id = sid, au_username = username, au_name = name, au_email = email\<rparr>"
    from False assms(2) None have r: "r = Inr (fresh_author_id as)" "as' = as @ [?a]" by (auto simp: upsert_author_def)
    have names: "map_option lower (au_username a) \<noteq> map_option lower username" if "a \<in> set as" "au_service a = service" "username \<noteq> None" for a
      using that False by (cases username) (auto simp: name_taken_iff)
    have fresh: "fresh_author_id as \<notin> au_id ` set as" using fresh_author_id_above by fastforce
    have apart: "\<not> same_person b ?a \<and> \<not> same_person ?a b" if "b \<in> set as" for b
      using new [OF that] names [OF that] by (cases username; cases "au_username b") (auto simp: same_person_def same_author_def)
    have "authors_ok as'"
      using assms(1) fresh apart unfolding authors_ok_def r(2) by auto
    with r show ?thesis by (auto simp: same_author_def)
  qed
next
  case (Some a)
  then have a: "a \<in> set as" "same_author service sid a" using find_member [OF Some] by auto
  show ?thesis
  proof (cases "au_username a \<noteq> username \<and> name_taken service username (filter (\<lambda>b. au_id b \<noteq> au_id a) as)")
    case True
    with assms Some show ?thesis by (auto simp: upsert_author_def)
  next
    case False
    let ?f = "\<lambda>b. if au_id b = au_id a
      then b\<lparr>au_username := overwrite (au_username b) username, au_name := overwrite (au_name b) name, au_email := overwrite (au_email b) email\<rparr> else b"
    from False assms(2) Some have r: "r = Inr (au_id a)" "as' = map ?f as" by (auto simp: upsert_author_def)
    have keep: "au_id (?f b) = au_id b" "au_service (?f b) = au_service b" "au_service_id (?f b) = au_service_id b" for b by simp_all
    have ids: "map au_id as' = map au_id as" unfolding r(2) by (simp add: comp_def)
    have eq: "b = a" if "b \<in> set as" "au_id b = au_id a" for b
      using assms(1) a(1) that by (auto simp: authors_ok_def distinct_map inj_on_def)
    have other: "map_option lower (au_username b) \<noteq> map_option lower username"
      if b: "b \<in> set as" "au_id b \<noteq> au_id a" "au_service b = service" and n: "username \<noteq> None" for b
    proof (cases "au_username a = username")
      case True
      have "\<not> same_person a b" using assms(1) a(1) b(1,2) unfolding authors_ok_def by metis
      with True b(3) n a(2) show ?thesis by (auto simp: same_person_def same_author_def)
    next
      case ne: False
      with False b n show ?thesis by (cases username) (auto simp: name_taken_iff)
    qed
    have clash: "\<not> same_person (?f a) c \<and> \<not> same_person c (?f a)" if c: "c \<in> set as" "au_id c \<noteq> au_id a" for c
    proof -
      have "\<not> same_person a c" "\<not> same_person c a" using assms(1) a(1) c unfolding authors_ok_def by metis+
      then show ?thesis using other [OF c] a(2) by (cases username; cases "au_username c") (auto simp: same_person_def same_author_def overwrite_def)
    qed
    have apart: "au_id b = au_id c" if bc: "b \<in> set as" "c \<in> set as" "same_person (?f b) (?f c)" for b c
    proof (rule ccontr)
      assume ne: "au_id b \<noteq> au_id c"
      consider "b = a" "au_id c \<noteq> au_id a" | "c = a" "au_id b \<noteq> au_id a" | "au_id b \<noteq> au_id a" "au_id c \<noteq> au_id a"
        using ne eq bc by metis
      then show False
      proof cases
        case 1
        with clash [OF bc(2) 1(2)] bc(3) show False by simp
      next
        case 2
        with clash [OF bc(1) 2(2)] bc(3) show False by simp
      next
        case 3
        with bc assms(1) ne show False by (auto simp: authors_ok_def)
      qed
    qed
    have "au_id x = au_id y" if xy: "x \<in> set as'" "y \<in> set as'" "same_person x y" for x y
    proof -
      from xy(1) obtain b where b: "b \<in> set as" "x = ?f b" unfolding r(2) set_map by blast
      from xy(2) obtain c where c: "c \<in> set as" "y = ?f c" unfolding r(2) set_map by blast
      from apart [OF b(1) c(1)] xy(3) have "au_id b = au_id c" unfolding b(2) c(2) by blast
      then show ?thesis unfolding b(2) c(2) keep .
    qed
    then have "authors_ok as'" using assms(1) unfolding authors_ok_def ids by blast
    moreover have "?f a \<in> set as'" unfolding r(2) set_map using a(1) by (rule imageI)
    then have "\<exists>b \<in> set as'. au_id b = au_id a \<and> same_author service sid b"
      using a(2) by (intro bexI [of _ "?f a"]) (simp_all add: same_author_def)
    ultimately show ?thesis using r(1) by simp
  qed
qed

text \<open>The head of a pull request never moves to an older commit.\<close>

lemma find_updated_pull:
  "find_pull i (update_pull i f s) = map_option f (find_pull i s)" if "\<And>p. pq_id (f p) = pq_id p"
proof -
  have "List.find (\<lambda>p. pq_id p = i) (map (\<lambda>p. if pq_id p = i then f p else p) ps) = map_option f (List.find (\<lambda>p. pq_id p = i) ps)" for ps
    by (induction ps) (auto simp: that)
  then show ?thesis by (simp add: find_pull_def update_pull_def)
qed

lemma pull_head_not_older:
  assumes "fetch_and_update_pull_request_information_from_commit R A yaml commit s = (Inr (Some (Some i, info)), s')" "find_pull i s' = Some p"
  shows "pq_head p = Some (km_id commit) \<or>
    (\<exists>h \<in> set (rs_commits s'). pq_head p = Some (km_id h) \<and> km_timestamp commit < km_timestamp h)"
proof -
  from assms(1) obtain s1 where s1: "s' = move_head commit i s1"
    by (auto simp: fetch_and_update_pull_request_information_from_commit_def and_then_def yield_def lift_res_def modify_def
        split: prod.splits sum.splits if_splits)
  show ?thesis
  proof (cases "find_pull i s1")
    case None
    with assms(2) s1 show ?thesis by (simp add: move_head_def)
  next
    case (Some q)
    show ?thesis
    proof (cases "head_outdated commit q s1")
      case True
      with assms(2) s1 Some find_updated_pull [of "\<lambda>q. q\<lparr>pq_head := Some (km_id commit)\<rparr>" i s1] show ?thesis by (auto simp: move_head_def)
    next
      case False
      with assms(2) s1 Some have "p = q" "s' = s1" by (auto simp: move_head_def)
      with False show ?thesis by (auto simp: head_outdated_def not_le split: option.splits dest!: find_member)
    qed
  qed
qed

end
