(* ===== verification/Spec2Isabelle.thy ===== *)
theory Spec2Isabelle
  imports Upload_Processing Processing_State File_Comparison Diff_Parser Notification_Service Activation Repository_Service
begin

text \<open>
  A verification of the coverage engine of Codecov (the repository umbrella): what happens to coverage
  data from the moment an upload arrives in the worker until it is part of the report of a commit, and
  how that report is compared with the report of another commit.

  \<^bold>\<open>The program.\<close> The repository has three parts: the library libs/shared, the background worker
  apps/worker and the web application apps/codecov-api. The core logic is in the library and the
  worker. An upload is a text with the files of the repository, uploaded coverage files and line
  fixes. The worker parses it, recognises the format of every coverage file, lets a language
  processor build a report out of it (the paths of which are fixed to paths of the repository), and
  merges the reports of all files. The reports of the uploads of a commit are merged into the
  commit's report, where sessions of parent commits may be carried forward; Redis sets track which
  uploads are still to be processed, and the task that merges the last one starts the
  postprocessing. From the report come totals, filtered views for flags and components, and the
  coverage of a diff. The diff is parsed from what the Git provider returns. The worker compares the
  reports of two commits with it (changes, statuses and their messages) and tells the result to the pull
  request by statuses, checks and a comment, which depend on the plan and the seats of the organization; the
  web application walks the diff to show files line by line and to list the changes that it does not explain.

  \<^bold>\<open>Conventions.\<close> A Python exception is a value of \<open>py_error\<close>, and a function that may raise returns
  \<open>'a res = py_error + 'a\<close>. Objects are records that every operation returns updated. Dictionaries are
  association lists in insertion order (theory \<open>Py_Dict\<close>, with the contract \<open>ordered_map\<close>). Text is ASCII,
  one character per byte; where the code decodes bytes, the decoder is an argument. Floats are exact
  rationals with the rounding of IEEE doubles written out (\<open>Py_Float\<close>), and decimals are integers with an
  exponent, with the context of 28 digits (\<open>Py_Decimal\<close>). \<open>NotModelled\<close> is the outcome
  of the few branches that are left out, so that no theorem speaks about them. Regular expressions that
  users write, JSON, XML and property list decoders, the dates of timestring, zlib, Redis and the database are arguments.

  \<^bold>\<open>Report data\<close> (libs/shared/shared/reports, shared/utils, shared/helpers).
  \<^item> \<open>Report_Types\<close>: reports/types.py, with the tuple and database forms and their round trips.
  \<^item> \<open>Merge\<close>: utils/merge.py. Merging is a maximum on hit counts (\<open>merge_coverage_numeric\<close>,
    \<open>merge_line_best_hits\<close>), a merge by session id on sessions, an intersection on missed branches and
    a pointwise maximum over the columns of partials.
  \<^item> \<open>Totals\<close>: reports/totals.py, utils/totals.py, helpers/numeric.py (\<open>ratio\<close>, whose rounding error is
    bounded in \<open>Py_Float\<close>).
  \<^item> \<open>Diff\<close>: reports/diff.py over the locales \<open>abstract_report_file\<close> and \<open>abstract_report\<close>, which are the
    protocols of the source; \<open>Report_File\<close>, \<open>Report\<close> and \<open>Filtered\<close> interpret them.
  \<^item> \<open>Report_File\<close>: reports/reportfile.py. Caches are never stale, deleting and merging act line by line,
    shifting lines by a diff is patching a list.
  \<^item> \<open>Sessions\<close>, \<open>Report\<close>: utils/sessions.py and reports/resources.py. Well-formedness is kept by every
    operation; merging is a merge by path; the deferred merge of whole reports equals the direct one where
    there are no Ruby files; totals of a report are the totals of its lines.
  \<^item> \<open>Filtered\<close>: utils/match.py, reports/filtered.py. A filtered report never counts more than the report; a
    line filtered by sessions is the line without the other sessions.
  \<^item> \<open>Carryforward\<close>: reports/carryforward.py.

  \<^bold>\<open>Configuration\<close> (\<open>User_Yaml\<close>: yaml/user_yaml.py, components, helpers/yaml.py, the worker's yaml reader):
  the layering of site, additional, onboarding, owner, repository and commit settings and its precedence,
  whichever of them are there.

  \<^bold>\<open>Paths\<close> (\<open>Path_Map\<close>: worker/helpers/pathmap.py; \<open>Path_Fixer\<close>: worker/services/path_fixer). Resolution
  changes the tree of files; the invariant \<open>node_ok\<close> shows that nevertheless only files of the
  repository are ever found.

  \<^bold>\<open>Uploads\<close> (worker/services/report, worker/services/processing).
  \<^item> \<open>Upload_Format\<close>: parser/legacy.py, version_one.py, types.py, fixes.py; writing and reading is a
    round trip.
  \<^item> \<open>Report_Builder\<close>: report_builder.py and the contract \<open>language_processor\<close>: a processor only adds lines
    of its own session under paths the path fixer returned. The rules \<open>yields\<close> follow the control flow
    of the processors.
  \<^item> \<open>Languages_Json\<close>, \<open>Languages_Text\<close>, \<open>Languages_Xml\<close>: the processors of languages/*.py for JSON and text
    formats, for XML (on element trees as lxml gives them) and for Xcode property lists, each one an
    interpretation of the contract.
  \<^item> \<open>Upload_Processing\<close>: report_processor.py, raw_upload_processor.py. \<open>processed_upload\<close> is the
    composition of all of the above for one upload, and its conclusion is the hypothesis \<open>upload_ok\<close> of
    the next step:
  \<^item> \<open>Merging\<close>: processing/merging.py and the parts of services/report/__init__.py that remove sessions.
  \<^item> \<open>Processing_State\<close>: processing/state.py over the contract \<open>redis_sets\<close>; an \<open>inductive\<close> step relation
    interleaves the tasks of all uploads, the lock of the finishers and their failures. Unless a finisher fails, at
    least one starts the postprocessing, and two may; one that fails before merging can keep it from starting.

  \<^bold>\<open>Comparing reports.\<close>
  \<^item> \<open>Diff_Parser\<close>: diff_to_json of shared/torngit/base.py, from the text of a diff to the dictionary of
    files and segments that the rest of the program works on.
  \<^item> \<open>Rounding\<close>: worker/helpers/number.py and the rounding of the yaml reader, on decimals.
  \<^item> \<open>Changes\<close>: worker/services/comparison/changes.py, the changes of coverage that a diff does not touch.
  \<^item> \<open>Status\<close>: worker/services/notification/notifiers/mixins/status.py, the decisions of the project,
    patch and changes statuses: state, message, and the adjustments for removed or uncovered code.
  \<^item> \<open>Comparison\<close>: worker/services/comparison (ComparisonProxy, FilteredComparison), whose caches make
    every value independent of the order in which the notifiers ask for them.
  \<^item> \<open>File_Comparison\<close>: services/comparison.py of the web application: the traversal of a file with its
    diff, visitors, line comparisons, segments, file comparisons and the cache of files with changes.

  \<^bold>\<open>Notifications\<close> (worker/services/notification, worker/services/commit_status.py).
  \<^item> \<open>Ci_Status\<close>: shared/torngit/status.py, the filter of CI statuses, and what the notify task concludes from
    them: only the newest relevant status of a context counts.
  \<^item> \<open>Notifier\<close>: notifiers/base.py and status: when a status is set, its payload, the cache of sent payloads,
    and the calls to the provider. The locales \<open>call_log\<close> and \<open>notifier_contract\<close> say what every notifier promises.
  \<^item> \<open>Checks\<close>: notifiers/checks: annotations, pages, and the fallback to a status (locale \<open>fallback\<close>).
  \<^item> \<open>Comment_Notifier\<close>: notifiers/comment: the conditions of a comment, and the behaviours by which it is posted,
    edited or replaced; an \<open>inductive\<close> step relation mixes them, and beside the comments that the provider would not let
    be edited or deleted at most one is there.
  \<^item> \<open>Notification_Service\<close>: the notifiers of a repository, running all of them although some fail, and the
    records of what was sent.

  \<^bold>\<open>Commits and pull requests\<close> (\<open>Repository_Service\<close>: worker/services/repository.py): the parent of a commit, its author,
  what the provider says about it, and the base and the compared commit of a pull request.

  \<^bold>\<open>Plans and seats.\<close>
  \<^item> \<open>Plans\<close>: shared/plan/service.py, the seats of \<open>Owner\<close> and \<open>Account\<close>, self_hosted/service.py: one trial per
    organization, no more seats than a license has.
  \<^item> \<open>Activation\<close>: worker/services decoration.py, seats.py, activation.py, license.py and the SQL functions they
    call: automatic activation stays within the seats, and the two checks of an author agree.

  \<^bold>\<open>Loops.\<close> All loops but one are total functions: structural recursion over lists, or a \<open>termination\<close>
  proof with a length or size as measure (splitting of text, search of free session ids, merging of
  nested configuration, escape sequences). The traversal of a file with its diff (\<open>traverse_apply\<close>) is a
  \<open>partial_function\<close> on options, since the loop of the source does not end on every diff; on the diffs a
  provider returns it is proved to end. No fuel is used.

  \<^bold>\<open>Not modelled.\<close> The mode of the Node processor with partials, and coverage values that are floats.
  Decoding and encoding of stored chunks (\<open>Report.__init__\<close>, serde.py) and the Rust-backed read-only
  report. The HTTP clients of the Git providers (torngit, except diffs, statuses and errors), declarations of
  Django and SQLAlchemy models, locks of Celery tasks (but for the lock of the finishers), storage, the GraphQL and REST interfaces, the text of
  a report in a comment (an argument), chat notifiers, bundle and test analytics, Stripe billing, schemas of
  the configuration: input and output, generated code, or services of their own.
\<close>

end
